(* ===== verification/Cam_Prelude.thy ===== *)
theory Cam_Prelude
  imports Main "HOL-Library.Word" "HOL-Library.Monad_Syntax"
begin

text \<open>
  Shared vocabulary of the development: machine integers, byte buffers with checked
  accesses, big endian fields, and the generic list lemmas the component theories use.

  A C buffer \<open>(pointer, length)\<close> is a list. Every read and write goes through
  \<open>rd\<close>, \<open>rd_range\<close>, \<open>wr\<close> or \<open>memcpy_to\<close>, whose value \<open>None\<close> is an
  access outside the object (undefined behaviour of C). A theorem that an operation
  returns \<open>Some\<close> is therefore a memory safety theorem. Sizes and offsets
  (\<open>size_t\<close>) are \<open>nat\<close>: they are bounded by the size of an object in memory, and
  the few places where a product of sizes may wrap write \<open>mod 2 ^ 64\<close> out.
\<close>

unbundle bit_operations_syntax

type_synonym u8 = "8 word"
type_synonym u16 = "16 word"
type_synonym u32 = "32 word"
type_synonym u64 = "64 word"
type_synonym bytes = "u8 list"

named_theorems mem_simps "checked accesses that are in bounds"
named_theorems inv_intros "preservation of component invariants"

declare Option.bind_cong [fundef_cong]

section \<open>Checked memory accesses\<close>

definition rd :: "'a list \<Rightarrow> nat \<Rightarrow> 'a option" where
  "rd b i = (if i < length b then Some (b ! i) else None)"

definition rd_range :: "'a list \<Rightarrow> nat \<Rightarrow> nat \<Rightarrow> 'a list option" where
  "rd_range b off n = (if off + n \<le> length b then Some (take n (drop off b)) else None)"

definition wr :: "'a list \<Rightarrow> nat \<Rightarrow> 'a \<Rightarrow> 'a list option" where
  "wr b i v = (if i < length b then Some (b[i := v]) else None)"

definition memcpy_to :: "'a list \<Rightarrow> nat \<Rightarrow> 'a list \<Rightarrow> 'a list option" where
  "memcpy_to dst off src =
     (if off + length src \<le> length dst
      then Some (take off dst @ src @ drop (off + length src) dst) else None)"

lemma rd_in [mem_simps, simp]: "i < length b \<Longrightarrow> rd b i = Some (b ! i)"
  by (simp add: rd_def)

lemma rd_range_in [mem_simps, simp]:
  "off + n \<le> length b \<Longrightarrow> rd_range b off n = Some (take n (drop off b))"
  by (simp add: rd_range_def)

lemma wr_in [mem_simps, simp]: "i < length b \<Longrightarrow> wr b i v = Some (b[i := v])"
  by (simp add: wr_def)

lemma memcpy_to_in [mem_simps, simp]:
  "off + length src \<le> length dst \<Longrightarrow>
     memcpy_to dst off src = Some (take off dst @ src @ drop (off + length src) dst)"
  by (simp add: memcpy_to_def)

lemma memcpy_to_length: "memcpy_to dst off src = Some d \<Longrightarrow> length d = length dst"
  by (auto simp: memcpy_to_def split: if_splits)

lemma memcpy_to_Some_iff: "(\<exists>d. memcpy_to dst off src = Some d) \<longleftrightarrow> off + length src \<le> length dst"
  by (auto simp: memcpy_to_def)

text \<open>What a copy leaves in the destination: the new range, and everything outside it.\<close>

lemma memcpy_to_range:
  "memcpy_to dst off src = Some d \<Longrightarrow> take (length src) (drop off d) = src"
  by (auto simp: memcpy_to_def split: if_splits)

lemma memcpy_to_nth:
  assumes "memcpy_to dst off src = Some d" "i < length dst"
  shows "d ! i = (if off \<le> i \<and> i < off + length src then src ! (i - off) else dst ! i)"
  using assms by (auto simp: memcpy_to_def nth_append min_def split: if_splits)

lemma take_drop_eq_nth:
  assumes "off + n \<le> length xs" "off + n \<le> length ys"
    and "\<And>i. off \<le> i \<Longrightarrow> i < off + n \<Longrightarrow> xs ! i = ys ! i"
  shows "take n (drop off xs) = take n (drop off ys)"
  using assms by (intro nth_equalityI) auto

lemma memcpy_to_frame:
  assumes "memcpy_to dst off src = Some d" "lo + n \<le> length dst"
    and "lo + n \<le> off \<or> off + length src \<le> lo"
  shows "take n (drop lo d) = take n (drop lo dst)"
proof (rule take_drop_eq_nth)
  show "lo + n \<le> length dst" by (rule assms(2))
  then show "lo + n \<le> length d" by (simp add: memcpy_to_length [OF assms(1)])
  show "d ! i = dst ! i" if "lo \<le> i" "i < lo + n" for i
    using assms that by (subst memcpy_to_nth [OF assms(1)]) auto
qed

text \<open>A buffer filled front to back by successive stores holds their concatenation.\<close>

lemma wr_memcpy: "wr b i v = memcpy_to b i [v]"
  by (auto simp: wr_def memcpy_to_def upd_conv_take_nth_drop)

lemma memcpy_chain:
  assumes "k = length xs"
  shows "Option.bind (memcpy_to b 0 xs) (\<lambda>b. Option.bind (memcpy_to b k ys) f) =
     Option.bind (memcpy_to b 0 (xs @ ys)) f"
  using assms by (auto simp: memcpy_to_def add.commute split: bind_splits)

lemma list_all_update: "list_all P xs \<Longrightarrow> P y \<Longrightarrow> list_all P (xs[i := y])"
  using set_update_subset_insert [of xs i y] by (auto simp: list_all_iff)

lemma four_cells: "4 \<le> length xs \<Longrightarrow> \<exists>a b c d t. xs = a # b # c # d # t"
  by (cases xs; cases "tl xs"; cases "tl (tl xs)"; cases "tl (tl (tl xs))") auto

section \<open>Big endian fields\<close>

definition be16 :: "u8 \<Rightarrow> u8 \<Rightarrow> u16" where
  "be16 a b = push_bit 8 (ucast a) OR ucast b"

definition be32 :: "u8 \<Rightarrow> u8 \<Rightarrow> u8 \<Rightarrow> u8 \<Rightarrow> u32" where
  "be32 a b c d =
     push_bit 24 (ucast a) OR push_bit 16 (ucast b) OR push_bit 8 (ucast c) OR ucast d"

definition read_be16 :: "bytes \<Rightarrow> nat \<Rightarrow> u16 option" where
  "read_be16 p off = do {
     a \<leftarrow> rd p off;
     b \<leftarrow> rd p (off + 1);
     Some (be16 a b) }"

definition read_be32 :: "bytes \<Rightarrow> nat \<Rightarrow> u32 option" where
  "read_be32 p off = do {
     a \<leftarrow> rd p off;
     b \<leftarrow> rd p (off + 1);
     c \<leftarrow> rd p (off + 2);
     d \<leftarrow> rd p (off + 3);
     Some (be32 a b c d) }"

definition be16_bytes :: "u16 \<Rightarrow> bytes" where
  "be16_bytes v = [ucast (drop_bit 8 v), ucast v]"

definition be32_bytes :: "u32 \<Rightarrow> bytes" where
  "be32_bytes v = [ucast (drop_bit 24 v), ucast (drop_bit 16 v), ucast (drop_bit 8 v), ucast v]"

definition write_be16 :: "bytes \<Rightarrow> nat \<Rightarrow> u16 \<Rightarrow> bytes option" where
  "write_be16 p off v = memcpy_to p off (be16_bytes v)"

definition write_be32 :: "bytes \<Rightarrow> nat \<Rightarrow> u32 \<Rightarrow> bytes option" where
  "write_be32 p off v = memcpy_to p off (be32_bytes v)"

lemma length_be_bytes [simp]: "length (be16_bytes v) = 2" "length (be32_bytes w) = 4"
  by (simp_all add: be16_bytes_def be32_bytes_def)

lemma read_be16_in [mem_simps, simp]:
  "off + 2 \<le> length p \<Longrightarrow> read_be16 p off = Some (be16 (p ! off) (p ! (off + 1)))"
  by (simp add: read_be16_def)

lemma read_be32_in [mem_simps, simp]:
  "off + 4 \<le> length p \<Longrightarrow>
     read_be32 p off = Some (be32 (p ! off) (p ! (off + 1)) (p ! (off + 2)) (p ! (off + 3)))"
  by (simp add: read_be32_def)

lemma be16_bytes_inverse: "be16 (ucast (drop_bit 8 v)) (ucast v) = v"
  by (rule bit_word_eqI) (auto simp: be16_def bit_simps)

lemma be32_bytes_inverse:
  "be32 (ucast (drop_bit 24 v)) (ucast (drop_bit 16 v)) (ucast (drop_bit 8 v)) (ucast v) = v"
proof (rule bit_word_eqI)
  fix n assume "n < LENGTH(32)"
  then consider "n < 8" | "8 \<le> n \<and> n < 16" | "16 \<le> n \<and> n < 24" | "24 \<le> n \<and> n < 32"
    by fastforce
  then show "bit (be32 (ucast (drop_bit 24 v)) (ucast (drop_bit 16 v)) (ucast (drop_bit 8 v))
      (ucast v)) n = bit v n"
    by cases (auto simp: be32_def bit_simps)
qed

section \<open>Counted loops\<close>

text \<open>\<open>for (k = 0; k < n; k++) s = f(k, s)\<close>, stopping with the first faulting access.\<close>

fun for_upto :: "nat \<Rightarrow> (nat \<Rightarrow> 's \<Rightarrow> 's option) \<Rightarrow> 's \<Rightarrow> 's option" where
  "for_upto 0 f s = Some s"
| "for_upto (Suc n) f s = do { s' \<leftarrow> for_upto n f s; f n s' }"

lemma for_upto_pair:
  "for_upto n (\<lambda>k (a, b). do { a' \<leftarrow> f k a; b' \<leftarrow> g k b; Some (a', b') }) (a, b) =
     do { a' \<leftarrow> for_upto n f a; b' \<leftarrow> for_upto n g b; Some (a', b') }"
  by (induction n) (auto split: bind_splits)

lemma for_upto_inv:
  assumes "P 0 s" "\<And>k s. k < n \<Longrightarrow> P k s \<Longrightarrow> \<exists>s'. f k s = Some s' \<and> P (Suc k) s'"
  shows "\<exists>s'. for_upto n f s = Some s' \<and> P n s'"
  using assms(2)
proof (induction n)
  case (Suc n)
  then obtain s' where "for_upto n f s = Some s'" "P n s'" by (meson less_Suc_eq)
  with Suc.prems [of n s'] show ?case by auto
qed (simp add: assms(1))

text \<open>
  \<open>writes L W g f\<close>: on every buffer of length \<open>L\<close> the code \<open>f\<close> stays in bounds, stores
  \<open>g i\<close> at the positions \<open>i\<close> of \<open>W\<close> and leaves every other position alone.
\<close>

definition writes :: "nat \<Rightarrow> nat set \<Rightarrow> (nat \<Rightarrow> 'a) \<Rightarrow> ('a list \<Rightarrow> 'a list option) \<Rightarrow> bool" where
  "writes L W g f \<longleftrightarrow> (\<forall>s. length s = L \<longrightarrow>
     (\<exists>s'. f s = Some s' \<and> length s' = L \<and> (\<forall>i < L. s' ! i = (if i \<in> W then g i else s ! i))))"

lemma writes_wr: "j < L \<Longrightarrow> v = g j \<Longrightarrow> writes L {j} g (\<lambda>s. wr s j v)"
  by (auto simp: writes_def nth_list_update)

lemma writes_memcpy:
  assumes "off + length src \<le> L" "\<And>i. off \<le> i \<Longrightarrow> i < off + length src \<Longrightarrow> src ! (i - off) = g i"
  shows "writes L {off..<off + length src} g (\<lambda>s. memcpy_to s off src)"
  unfolding writes_def
proof (intro allI impI)
  fix s :: "'a list" assume L: "length s = L"
  obtain d where d: "memcpy_to s off src = Some d" using assms(1) L memcpy_to_in by fastforce
  then have "\<forall>i < L. d ! i = (if i \<in> {off..<off + length src} then g i else s ! i)"
    using memcpy_to_nth [OF d] L assms(2) by auto
  then show "\<exists>s'. memcpy_to s off src = Some s' \<and> length s' = L \<and>
      (\<forall>i < L. s' ! i = (if i \<in> {off..<off + length src} then g i else s ! i))"
    using d memcpy_to_length [OF d] L by auto
qed

lemma writes_bind:
  assumes "writes L W g f" "writes L W' g f'"
  shows "writes L (W \<union> W') g (\<lambda>s. Option.bind (f s) f')"
  unfolding writes_def
proof (intro allI impI)
  fix s :: "'a list" assume "length s = L"
  with assms(1) obtain s1 where s1: "f s = Some s1" "length s1 = L"
    "\<forall>i < L. s1 ! i = (if i \<in> W then g i else s ! i)" unfolding writes_def by blast
  with assms(2) obtain s2 where "f' s1 = Some s2" "length s2 = L"
    "\<forall>i < L. s2 ! i = (if i \<in> W' then g i else s1 ! i)" unfolding writes_def by blast
  with s1 show "\<exists>s'. Option.bind (f s) f' = Some s' \<and> length s' = L \<and>
      (\<forall>i < L. s' ! i = (if i \<in> W \<union> W' then g i else s ! i))" by auto
qed

lemma writes_for:
  assumes "\<And>k. k < n \<Longrightarrow> writes L (W k) g (f k)"
  shows "writes L (\<Union>k<n. W k) g (for_upto n f)"
  using assms
proof (induction n)
  case 0
  then show ?case by (auto simp: writes_def)
next
  case (Suc n)
  have "writes L ((\<Union>k<n. W k) \<union> W n) g (\<lambda>s. Option.bind (for_upto n f s) (f n))"
    by (intro writes_bind) (use Suc in auto)
  then show ?case by (simp add: lessThan_Suc Un_commute)
qed

lemma writes_for_eq:
  "(\<Union>k<n. W k) = V \<Longrightarrow> (\<And>k. k < n \<Longrightarrow> writes L (W k) g (f k)) \<Longrightarrow> writes L V g (for_upto n f)"
  using writes_for by blast

lemma writesD:
  assumes "writes L W g f" "length s = L"
  obtains s' where "f s = Some s'" "length s' = L" "\<And>i. i < L \<Longrightarrow> s' ! i = (if i \<in> W then g i else s ! i)"
  using assms unfolding writes_def by blast

end
