(* ===== verification/Frame_Pool.thy ===== *)
theory Frame_Pool
  imports Cam_Prelude
begin

text \<open>
  The fixed pool of reference counted frame buffers (\<open>src/src/media/frame_pool.c\<close>).
  A \<open>Frame *\<close> is the index of the frame in the pool's array, \<open>data\<close> the offset of
  its buffer in the backing store. \<open>pool_rep p R\<close> relates a pool to the number of
  references \<open>R i\<close> held on each frame; the operations are proved against it and the
  contract is published as the locale \<open>refcounted_pool\<close>. The reference count is an \<open>int\<close> without
  the bound of the C type: it equals the number of references that exist, which stays far below
  2147483647 with one mailbox per consumer.
\<close>

section \<open>State\<close>

record Frame =
  width :: u32
  height :: u32
  format :: u32
  stride :: u32
  f_size :: nat
  f_sequence :: u64
  timestamp_us :: u64
  data :: nat
  pool_index :: int
  refcount :: int

record FramePool =
  frames :: "Frame list"
  backing :: bytes
  capacity :: nat
  p_count :: nat
  free_list :: "int list"
  free_count :: nat

definition zero_frame :: Frame where
  "zero_frame = \<lparr>width = 0, height = 0, format = 0, stride = 0, f_size = 0, f_sequence = 0,
     timestamp_us = 0, data = 0, pool_index = 0, refcount = 0\<rparr>"

section \<open>Operations\<close>

definition init_frame :: "nat \<Rightarrow> nat \<Rightarrow> Frame" where
  "init_frame cap i = zero_frame\<lparr>data := i * cap, pool_index := int i\<rparr>"

definition frame_pool_create :: "bool \<Rightarrow> nat \<Rightarrow> nat \<Rightarrow> FramePool option" where
  "frame_pool_create mem_ok cap n =
     (if cap = 0 \<or> n = 0 then None
      else if \<not> mem_ok then None
      else Some \<lparr>frames = map (init_frame cap) [0..<n], backing = replicate (n * cap) 0,
                 capacity = cap, p_count = n, free_list = map int [0..<n], free_count = n\<rparr>)"

text \<open>\<open>memset(frame, 0, offsetof(Frame, data))\<close>: the fields before \<open>data\<close>.\<close>

definition clear_header :: "Frame \<Rightarrow> Frame" where
  "clear_header f = f\<lparr>width := 0, height := 0, format := 0, stride := 0, f_size := 0,
     f_sequence := 0, timestamp_us := 0\<rparr>"

definition pool_acquire :: "FramePool \<Rightarrow> (nat option \<times> FramePool) option" where
  "pool_acquire pool =
     (if free_count pool = 0 then Some (None, pool)
      else do {
        index \<leftarrow> rd (free_list pool) (free_count pool - 1);
        if index < 0 then None
        else do {
          let i = nat index;
          f \<leftarrow> rd (frames pool) i;
          fs \<leftarrow> wr (frames pool) i
            ((clear_header f)\<lparr>data := i * capacity pool, pool_index := index, refcount := 1\<rparr>);
          Some (Some i, pool\<lparr>free_count := free_count pool - 1, frames := fs\<rparr>) } })"

definition frame_pool_acquire :: "FramePool option \<Rightarrow> (nat option \<times> FramePool option) option" where
  "frame_pool_acquire pool =
     (case pool of
        None \<Rightarrow> Some (None, None)
      | Some p \<Rightarrow> do { (f, p') \<leftarrow> pool_acquire p; Some (f, Some p') })"

definition frame_ref :: "FramePool \<Rightarrow> nat option \<Rightarrow> FramePool option" where
  "frame_ref pool frame =
     (case frame of
        None \<Rightarrow> Some pool
      | Some i \<Rightarrow> do {
          f \<leftarrow> rd (frames pool) i;
          fs \<leftarrow> wr (frames pool) i (f\<lparr>refcount := refcount f + 1\<rparr>);
          Some (pool\<lparr>frames := fs\<rparr>) })"

definition pool_unref :: "FramePool \<Rightarrow> nat \<Rightarrow> FramePool option" where
  "pool_unref pool i = do {
     f \<leftarrow> rd (frames pool) i;
     if refcount f \<le> 0 then Some pool
     else do {
       let f = f\<lparr>refcount := refcount f - 1\<rparr>;
       if refcount f \<le> 0 \<and> pool_index f \<ge> 0 then do {
         pool' \<leftarrow> (if free_count pool \<ge> p_count pool then Some pool
                    else do {
                      fl \<leftarrow> wr (free_list pool) (free_count pool) (pool_index f);
                      Some (pool\<lparr>free_list := fl, free_count := free_count pool + 1\<rparr>) });
         fs \<leftarrow> wr (frames pool') i (f\<lparr>pool_index := -1\<rparr>);
         Some (pool'\<lparr>frames := fs\<rparr>) }
       else do {
         fs \<leftarrow> wr (frames pool) i f;
         Some (pool\<lparr>frames := fs\<rparr>) } } }"

definition frame_unref :: "FramePool option \<Rightarrow> nat option \<Rightarrow> FramePool option option" where
  "frame_unref pool frame =
     (case (pool, frame) of
        (Some p, Some i) \<Rightarrow> map_option Some (pool_unref p i)
      | _ \<Rightarrow> Some pool)"

section \<open>Representation invariant\<close>

definition free_set :: "FramePool \<Rightarrow> int set" where
  "free_set p = set (take (free_count p) (free_list p))"

text \<open>\<open>R i\<close> references are held on frame \<open>i\<close>; the frames without any are the free ones.\<close>

definition pool_rep :: "FramePool \<Rightarrow> (nat \<Rightarrow> nat) \<Rightarrow> bool" where
  "pool_rep p R \<longleftrightarrow>
     length (frames p) = p_count p \<and> length (free_list p) = p_count p \<and>
     free_count p \<le> p_count p \<and> length (backing p) = p_count p * capacity p \<and> 0 < capacity p \<and>
     distinct (take (free_count p) (free_list p)) \<and>
     free_set p = int ` {i. i < p_count p \<and> R i = 0} \<and>
     (\<forall>i. p_count p \<le> i \<longrightarrow> R i = 0) \<and>
     (\<forall>i < p_count p. refcount (frames p ! i) = int (R i) \<and> data (frames p ! i) = i * capacity p \<and>
        f_size (frames p ! i) \<le> capacity p \<and>
        (0 < R i \<longrightarrow> pool_index (frames p ! i) = int i))"

text \<open>What a holder of frame \<open>j\<close> sees: its header and its valid bytes.\<close>

definition frame_view ::
  "FramePool \<Rightarrow> nat \<Rightarrow> u32 \<times> u32 \<times> u32 \<times> u32 \<times> u64 \<times> u64 \<times> bytes" where
  "frame_view p j =
     (let f = frames p ! j in
      (width f, height f, format f, stride f, f_sequence f, timestamp_us f,
       take (f_size f) (drop (data f) (backing p))))"

lemma pool_rep_create:
  assumes "frame_pool_create mem_ok cap n = Some p"
  shows "pool_rep p (\<lambda>_. 0)"
  using assms
  by (auto simp: frame_pool_create_def pool_rep_def free_set_def init_frame_def zero_frame_def
      distinct_map lessThan_def split: if_splits)

lemma rep_bound: "pool_rep p R \<Longrightarrow> 0 < R i \<Longrightarrow> i < p_count p"
  unfolding pool_rep_def by (metis less_irrefl not_le)

lemma take_pop: "0 < k \<Longrightarrow> k \<le> length xs \<Longrightarrow> take k xs = take (k - 1) xs @ [xs ! (k - 1)]"
  by (metis Suc_diff_1 Suc_le_eq take_Suc_conv_app_nth)

lemma acquire_exhausted:
  assumes "pool_rep p R" "free_count p = 0"
  shows "pool_acquire p = Some (None, p) \<and> (\<forall>i < p_count p. 0 < R i)"
proof -
  have "int ` {i. i < p_count p \<and> R i = 0} = {}"
    using assms by (simp add: pool_rep_def free_set_def)
  then show ?thesis using assms(2) by (auto simp: pool_acquire_def)
qed

lemma acquire_free:
  assumes rep: "pool_rep p R" and free: "free_count p \<noteq> 0"
  shows "\<exists>i p'. pool_acquire p = Some (Some i, p') \<and> i < p_count p \<and> R i = 0 \<and>
     pool_rep p' (R(i := 1)) \<and> p_count p' = p_count p \<and> capacity p' = capacity p \<and>
     (\<forall>j. j \<noteq> i \<longrightarrow> frame_view p' j = frame_view p j)"
proof -
  let ?k = "free_count p" and ?fl = "free_list p"
  have k: "0 < ?k" "?k \<le> length ?fl" using rep free by (auto simp: pool_rep_def)
  note tk = take_pop [OF k]
  then have "?fl ! (?k - 1) \<in> free_set p" by (simp add: free_set_def)
  then obtain i where i: "?fl ! (?k - 1) = int i" "i < p_count p" "R i = 0"
    using rep by (auto simp: pool_rep_def)
  let ?f = "(clear_header (frames p ! i))\<lparr>data := i * capacity p, pool_index := int i, refcount := 1\<rparr>"
  let ?p = "p\<lparr>free_count := ?k - 1, frames := (frames p)[i := ?f]\<rparr>"
  have run: "pool_acquire p = Some (Some i, ?p)"
  proof -
    have "rd ?fl (?k - 1) = Some (int i)" "rd (frames p) i = Some (frames p ! i)"
      using rep i k by (auto simp: pool_rep_def)
    then show ?thesis using i free rep by (simp add: pool_acquire_def pool_rep_def Let_def)
  qed
  have dist: "distinct (take (?k - 1) ?fl)" "int i \<notin> set (take (?k - 1) ?fl)"
    "insert (int i) (set (take (?k - 1) ?fl)) = int ` {i. i < p_count p \<and> R i = 0}"
    using rep i(1) unfolding pool_rep_def free_set_def tk by auto
  have "set (take (?k - 1) ?fl) = int ` {i. i < p_count p \<and> R i = 0} - {int i}"
    using dist(2,3) by auto
  also have "\<dots> = int ` {j. j < p_count p \<and> (R(i := 1)) j = 0}" by auto
  finally have "pool_rep ?p (R(i := 1))"
    using rep i dist k by (auto simp: pool_rep_def free_set_def nth_list_update clear_header_def)
  then show ?thesis using run i by (auto simp: frame_view_def)
qed

lemma ref_rep:
  assumes "pool_rep p R" "0 < R i"
  shows "\<exists>p'. frame_ref p (Some i) = Some p' \<and> pool_rep p' (R(i := Suc (R i))) \<and>
    p_count p' = p_count p \<and> capacity p' = capacity p \<and> frame_view p' = frame_view p"
proof -
  have i: "i < p_count p" by (rule rep_bound [OF assms])
  have "{j. j < p_count p \<and> (R(i := Suc (R i))) j = 0} = {j. j < p_count p \<and> R j = 0}"
    using assms(2) by auto
  then have "pool_rep (p\<lparr>frames := (frames p)[i := (frames p ! i)\<lparr>refcount := refcount (frames p ! i) + 1\<rparr>]\<rparr>)
      (R(i := Suc (R i)))"
    using assms i by (auto simp: pool_rep_def free_set_def nth_list_update)
  moreover have "i < length (frames p)" using assms i by (simp add: pool_rep_def)
  ultimately show ?thesis
    by (auto simp: frame_ref_def frame_view_def fun_eq_iff nth_list_update Let_def)
qed

lemma unref_rep:
  assumes rep: "pool_rep p R" and pos: "0 < R i"
  shows "\<exists>p'. pool_unref p i = Some p' \<and> pool_rep p' (R(i := R i - 1)) \<and>
    p_count p' = p_count p \<and> capacity p' = capacity p \<and> frame_view p' = frame_view p"
proof -
  let ?n = "p_count p" and ?k = "free_count p" and ?fl = "free_list p"
  let ?f = "frames p ! i" and ?R = "R(i := R i - 1)"
  have i: "i < ?n" by (rule rep_bound [OF assms])
  have f: "refcount ?f = int (R i)" "pool_index ?f = int i" "length (frames p) = ?n" "length ?fl = ?n"
    using assms i by (auto simp: pool_rep_def)
  show ?thesis
  proof (cases "R i = 1")
    case False
    have "{j. j < ?n \<and> ?R j = 0} = {j. j < ?n \<and> R j = 0}" using pos False by auto
    then have "pool_rep (p\<lparr>frames := (frames p)[i := ?f\<lparr>refcount := int (R i) - 1\<rparr>]\<rparr>) ?R"
      using rep pos False i by (auto simp: pool_rep_def free_set_def nth_list_update)
    then show ?thesis using f pos False i
      by (auto simp: pool_unref_def frame_view_def fun_eq_iff nth_list_update Let_def)
  next
    case True
    have card: "?k = card {j. j < ?n \<and> R j = 0}"
    proof -
      have "distinct (take ?k ?fl)" "?k \<le> length ?fl" using rep by (auto simp: pool_rep_def)
      then have "?k = card (free_set p)" by (simp add: free_set_def distinct_card min_def)
      also have "\<dots> = card {j. j < ?n \<and> R j = 0}"
        using rep by (simp add: pool_rep_def card_image)
      finally show ?thesis .
    qed
    have "i \<in> {..<?n} - {j. j < ?n \<and> R j = 0}" using i pos by simp
    then have "{j. j < ?n \<and> R j = 0} \<subset> {..<?n}" by blast
    then have "card {j. j < ?n \<and> R j = 0} < card {..<?n}" by (rule psubset_card_mono [rotated]) simp
    then have room: "?k < ?n" using card by simp
    let ?p = "p\<lparr>free_list := ?fl[?k := int i], free_count := Suc ?k,
      frames := (frames p)[i := ?f\<lparr>refcount := 0, pool_index := -1\<rparr>]\<rparr>"
    have tk: "take (Suc ?k) (?fl[?k := int i]) = take ?k ?fl @ [int i]"
      using room f by (simp add: take_Suc_conv_app_nth)
    have notin: "int i \<notin> set (take ?k ?fl)"
      using rep pos by (auto simp: pool_rep_def free_set_def)
    have "insert (int i) (free_set p) = int ` {j. j < ?n \<and> ?R j = 0}"
      using rep True i by (auto simp: pool_rep_def)
    then have "pool_rep ?p ?R"
      using rep True i room notin tk by (auto simp: pool_rep_def free_set_def nth_list_update)
    moreover have "pool_unref p i = Some ?p"
      using f True i room by (simp add: pool_unref_def Let_def)
    ultimately show ?thesis
      using i f by (auto simp: frame_view_def fun_eq_iff nth_list_update Let_def)
  qed
qed

text \<open>A second release of a frame nobody holds is detected and changes nothing.\<close>

lemma unref_dead: "pool_rep p R \<Longrightarrow> i < p_count p \<Longrightarrow> R i = 0 \<Longrightarrow> pool_unref p i = Some p"
  by (simp add: pool_rep_def pool_unref_def)

section \<open>The contract as an interface\<close>

locale refcounted_pool =
  fixes rep :: "'p \<Rightarrow> (nat \<Rightarrow> nat) \<Rightarrow> bool"
    and bufs :: "'p \<Rightarrow> nat"
    and cap :: "'p \<Rightarrow> nat"
    and acquire :: "'p \<Rightarrow> (nat option \<times> 'p) option"
    and addref :: "'p \<Rightarrow> nat \<Rightarrow> 'p option"
    and unref :: "'p \<Rightarrow> nat \<Rightarrow> 'p option"
    and view :: "'p \<Rightarrow> nat \<Rightarrow> 'v"
  assumes rep_live: "rep p R \<Longrightarrow> 0 < R i \<Longrightarrow> i < bufs p"
    and acquire_law: "rep p R \<Longrightarrow> \<exists>r p'. acquire p = Some (r, p') \<and> bufs p' = bufs p \<and> cap p' = cap p \<and>
      (case r of None \<Rightarrow> p' = p \<and> (\<forall>i < bufs p. 0 < R i)
       | Some i \<Rightarrow> i < bufs p \<and> R i = 0 \<and> rep p' (R(i := 1)) \<and>
           (\<forall>j. j \<noteq> i \<longrightarrow> view p' j = view p j))"
    and addref_law: "rep p R \<Longrightarrow> 0 < R i \<Longrightarrow>
      \<exists>p'. addref p i = Some p' \<and> rep p' (R(i := Suc (R i))) \<and> bufs p' = bufs p \<and> cap p' = cap p \<and> view p' = view p"
    and unref_law: "rep p R \<Longrightarrow> 0 < R i \<Longrightarrow>
      \<exists>p'. unref p i = Some p' \<and> rep p' (R(i := R i - 1)) \<and> bufs p' = bufs p \<and> cap p' = cap p \<and> view p' = view p"
begin

text \<open>Fewer references than buffers: an acquire finds a free buffer.\<close>

lemma acquire_available:
  assumes "rep p R" "(\<Sum>i < bufs p. R i) < bufs p"
  shows "\<exists>i p'. acquire p = Some (Some i, p') \<and> R i = 0 \<and> i < bufs p \<and> rep p' (R(i := 1)) \<and>
     bufs p' = bufs p \<and> (\<forall>j. j \<noteq> i \<longrightarrow> view p' j = view p j)"
proof -
  have "\<not> (\<forall>i < bufs p. 0 < R i)"
  proof
    assume "\<forall>i < bufs p. 0 < R i"
    then have "(\<Sum>i < bufs p. 1) \<le> (\<Sum>i < bufs p. R i)"
      by (intro sum_mono) (auto simp: Suc_leI)
    with assms(2) show False by simp
  qed
  with acquire_law [OF assms(1)] show ?thesis by (fastforce split: option.splits)
qed

end

interpretation fp: refcounted_pool pool_rep p_count capacity pool_acquire "\<lambda>p i. frame_ref p (Some i)" pool_unref frame_view
proof (unfold_locales, goal_cases)
  case (1 p R i)
  then show ?case by (rule rep_bound)
next
  case (2 p R)
  then show ?case using acquire_exhausted acquire_free by (cases "free_count p = 0") fastforce+
next
  case (3 p R i)
  then show ?case using ref_rep by blast
next
  case (4 p R i)
  then show ?case using unref_rep by blast
qed

section \<open>Properties\<close>

text \<open>
  Acquiring from a pool in any consistent state is memory safe. It returns NULL, with
  the pool unchanged, exactly when every buffer is still referenced; otherwise the frame
  returned had no holder, now has exactly one, and no other frame's references change.
\<close>

theorem frame_pool_acquire_correct:
  assumes "pool_rep p R"
  shows "\<exists>r p'. frame_pool_acquire (Some p) = Some (r, Some p') \<and>
     (r = None \<longleftrightarrow> (\<forall>i < p_count p. 0 < R i)) \<and>
     (case r of None \<Rightarrow> p' = p | Some i \<Rightarrow> i < p_count p \<and> R i = 0 \<and> pool_rep p' (R(i := 1)))"
proof (cases "free_count p = 0")
  case True
  then show ?thesis using acquire_exhausted [OF assms True] by (simp add: frame_pool_acquire_def)
next
  case False
  then obtain i p' where "pool_acquire p = Some (Some i, p')" "i < p_count p" "R i = 0"
    "pool_rep p' (R(i := 1))" using acquire_free [OF assms] by blast
  then show ?thesis by (auto simp: frame_pool_acquire_def intro: exI [of _ i])
qed

lemma demo_pool: "\<exists>p. frame_pool_create True 4 2 = Some p \<and> pool_rep p (\<lambda>_. 0) \<and> p_count p = 2"
  using pool_rep_create [of True 4 2] by (auto simp: frame_pool_create_def)

theorem frame_pool_acquire_witness:
  "\<exists>p i p'. frame_pool_create True 4 2 = Some p \<and> frame_pool_acquire (Some p) = Some (Some i, Some p') \<and>
     pool_rep p' ((\<lambda>_. 0)(i := 1))"
proof -
  obtain p where p: "frame_pool_create True 4 2 = Some p" "pool_rep p (\<lambda>_. 0)" "p_count p = 2"
    using demo_pool by blast
  from frame_pool_acquire_correct [OF p(2)] p(3)
  obtain r p' where r: "frame_pool_acquire (Some p) = Some (r, Some p')" "r \<noteq> None"
    "case r of None \<Rightarrow> p' = p | Some i \<Rightarrow> i < p_count p \<and> 0 = (0::nat) \<and> pool_rep p' ((\<lambda>_. 0)(i := 1))"
    by force
  then obtain i where "r = Some i" by blast
  with r p(1) show ?thesis by auto
qed

text \<open>
  C37: releasing one reference of a live frame is memory safe, takes exactly one reference
  away and returns the buffer to the pool when it was the last one; releasing a frame
  nobody holds (a double unref) leaves the pool as it is, so a buffer is never handed out twice.
\<close>

theorem frame_unref_correct:
  assumes "pool_rep p R" "i < p_count p"
  shows "\<exists>p'. frame_unref (Some p) (Some i) = Some (Some p') \<and> pool_rep p' (R(i := R i - 1)) \<and>
     (R i = 0 \<longrightarrow> p' = p) \<and>
     (int i \<in> free_set p' \<longleftrightarrow> R i \<le> 1)"
proof (cases "R i = 0")
  case True
  then have "R(i := R i - 1) = R" by (simp add: fun_eq_iff)
  with True assms unref_dead [OF assms True] show ?thesis
    by (auto simp: frame_unref_def pool_rep_def)
next
  case False
  then obtain p' where p': "pool_unref p i = Some p'" "pool_rep p' (R(i := R i - 1))" "p_count p' = p_count p"
    using unref_rep [OF assms(1)] by blast
  then have "int i \<in> free_set p' \<longleftrightarrow> R i \<le> 1" using assms(2) by (auto simp: pool_rep_def)
  with p' False show ?thesis by (simp add: frame_unref_def)
qed

theorem frame_unref_witness:
  "\<exists>p p'. frame_pool_create True 4 2 = Some p \<and> frame_unref (Some p) (Some 1) = Some (Some p') \<and> p' = p"
proof -
  obtain p where p: "frame_pool_create True 4 2 = Some p" "pool_rep p (\<lambda>_. 0)" "p_count p = 2"
    using demo_pool by blast
  then show ?thesis using frame_unref_correct [OF p(2), of 1] by auto
qed

end
