(* ===== verification/Frame_Hub.thy ===== *)
theory Frame_Hub
  imports Frame_Pool "HOL-Library.Signed_Division"
begin

text \<open>
  Frame distribution from the capture thread to its consumers
  (\<open>src/src/media/frame_hub.c\<close>): one keep-newest mailbox per consumer over the
  reference counted pool. \<open>hub_inv h held\<close> states that the references on every frame
  are exactly the mailboxes that hold it plus the entries of \<open>held\<close>, the frames that
  consumers have taken and not yet released.
\<close>

section \<open>State\<close>

record FrameHubConsumer =
  cid :: nat
  slot :: "nat option"
  active :: bool

record FrameHub =
  pool :: FramePool
  consumers :: "FrameHubConsumer list"

section \<open>Operations\<close>

definition frame_hub_create :: "bool \<Rightarrow> bool \<Rightarrow> nat \<Rightarrow> nat \<Rightarrow> FrameHub option" where
  "frame_hub_create mem_ok pool_mem_ok buffer_capacity pool_count =
     (if \<not> mem_ok then None
      else do {
        p \<leftarrow> frame_pool_create pool_mem_ok buffer_capacity pool_count;
        Some \<lparr>pool = p, consumers = []\<rparr> })"

text \<open>\<open>ptr\<close> is the address of the new consumer object; it goes to the front of the list.\<close>

definition frame_hub_subscribe ::
  "FrameHub option \<Rightarrow> nat option \<Rightarrow> (nat option \<times> FrameHub option)" where
  "frame_hub_subscribe hub mem =
     (case (hub, mem) of
        (Some h, Some ptr) \<Rightarrow>
          (Some ptr, Some (h\<lparr>consumers := \<lparr>cid = ptr, slot = None, active = True\<rparr> # consumers h\<rparr>))
      | _ \<Rightarrow> (None, hub))"

text \<open>\<open>None\<close>: the consumer is not one of the hub's (its memory has been freed).\<close>

definition hub_unsubscribe :: "FrameHub \<Rightarrow> nat \<Rightarrow> FrameHub option" where
  "hub_unsubscribe hub ptr = do {
     c \<leftarrow> find (\<lambda>c. cid c = ptr) (consumers hub);
     let hub' = (if active c then hub\<lparr>consumers := filter (\<lambda>d. cid d \<noteq> ptr) (consumers hub)\<rparr> else hub);
     case slot c of
       None \<Rightarrow> Some hub'
     | Some f \<Rightarrow> do { p \<leftarrow> pool_unref (pool hub') f; Some (hub'\<lparr>pool := p\<rparr>) } }"

definition frame_hub_unsubscribe :: "FrameHub option \<Rightarrow> nat option \<Rightarrow> FrameHub option option" where
  "frame_hub_unsubscribe hub consumer =
     (case (hub, consumer) of
        (Some h, Some ptr) \<Rightarrow> map_option Some (hub_unsubscribe h ptr)
      | _ \<Rightarrow> Some hub)"

text \<open>The delivery loop, over the pool operations it calls.\<close>

fun deliver ::
  "('p \<Rightarrow> nat \<Rightarrow> 'p option) \<Rightarrow> ('p \<Rightarrow> nat \<Rightarrow> 'p option) \<Rightarrow> nat \<Rightarrow> FrameHubConsumer list \<Rightarrow> 'p
     \<Rightarrow> (FrameHubConsumer list \<times> 'p) option" where
  "deliver addref unref f [] p = Some ([], p)"
| "deliver addref unref f (c # cs) p =
     (if \<not> active c then do {
        (cs', p') \<leftarrow> deliver addref unref f cs p;
        Some (c # cs', p') }
      else do {
        p1 \<leftarrow> addref p f;
        p2 \<leftarrow> (case slot c of None \<Rightarrow> Some p1 | Some g \<Rightarrow> unref p1 g);
        (cs', p') \<leftarrow> deliver addref unref f cs p2;
        Some (c\<lparr>slot := Some f\<rparr> # cs', p') })"

definition fill_frame ::
  "FramePool \<Rightarrow> nat \<Rightarrow> bytes \<Rightarrow> u32 \<Rightarrow> u32 \<Rightarrow> u32 \<Rightarrow> u32 \<Rightarrow> u64 \<Rightarrow> u64 \<Rightarrow> FramePool option" where
  "fill_frame p i bs w h fmt st sq ts = do {
     f \<leftarrow> rd (frames p) i;
     b \<leftarrow> memcpy_to (backing p) (data f) bs;
     fs \<leftarrow> wr (frames p) i (f\<lparr>width := w, height := h, format := fmt, stride := st,
                              f_size := length bs, f_sequence := sq, timestamp_us := ts\<rparr>);
     Some (p\<lparr>backing := b, frames := fs\<rparr>) }"

definition hub_publish ::
  "FrameHub \<Rightarrow> bytes \<Rightarrow> u32 \<Rightarrow> u32 \<Rightarrow> u32 \<Rightarrow> u32 \<Rightarrow> u64 \<Rightarrow> u64 \<Rightarrow> (int \<times> FrameHub) option" where
  "hub_publish hub bs w h fmt st sq ts = do {
     (frame, p) \<leftarrow> pool_acquire (pool hub);
     case frame of
       None \<Rightarrow> Some (-1, hub\<lparr>pool := p\<rparr>)
     | Some f \<Rightarrow> do {
         p \<leftarrow> fill_frame p f bs w h fmt st sq ts;
         (cs, p) \<leftarrow> deliver (\<lambda>p i. frame_ref p (Some i)) pool_unref f (consumers hub) p;
         p \<leftarrow> pool_unref p f;
         Some (0, hub\<lparr>pool := p, consumers := cs\<rparr>) } }"

definition frame_hub_publish ::
  "FrameHub option \<Rightarrow> bytes option \<Rightarrow> u32 \<Rightarrow> u32 \<Rightarrow> u32 \<Rightarrow> u32 \<Rightarrow> u64 \<Rightarrow> u64
     \<Rightarrow> (int \<times> FrameHub option) option" where
  "frame_hub_publish hub bs w h fmt st sq ts =
     (case (hub, bs) of
        (Some hb, Some d) \<Rightarrow>
          if length d = 0 then Some (-1, hub)
          else do {
            (rc, hb') \<leftarrow> hub_publish hb d w h fmt st sq ts;
            Some (rc, Some hb') }
      | _ \<Rightarrow> Some (-1, hub))"

definition mailbox :: "FrameHub \<Rightarrow> nat \<Rightarrow> nat option" where
  "mailbox hub ptr = (case find (\<lambda>c. cid c = ptr) (consumers hub) of None \<Rightarrow> None | Some c \<Rightarrow> slot c)"

definition frame_hub_take :: "FrameHub \<Rightarrow> nat option \<Rightarrow> (nat option \<times> FrameHub)" where
  "frame_hub_take hub consumer =
     (case consumer of
        None \<Rightarrow> (None, hub)
      | Some ptr \<Rightarrow>
          (mailbox hub ptr,
           hub\<lparr>consumers := map (\<lambda>c. if cid c = ptr then c\<lparr>slot := None\<rparr> else c) (consumers hub)\<rparr>))"

text \<open>
  The deadline of \<open>frame_hub_take_wait\<close> from the clock \<open>(tv_sec, tv_nsec)\<close>, and its
  loop: each wake-up is whether \<open>pthread_cond_timedwait\<close> timed out and the hub as other
  threads left it. \<open>None\<close>: still waiting.
\<close>

definition wait_deadline :: "int \<Rightarrow> int \<Rightarrow> int \<Rightarrow> int \<times> int" where
  "wait_deadline sec nsec timeout_ms =
     (let sec = sec + timeout_ms sdiv 1000;
          nsec = nsec + (timeout_ms smod 1000) * 1000000
      in if nsec \<ge> 1000000000 then (sec + 1, nsec - 1000000000) else (sec, nsec))"

fun wait_mailbox :: "nat \<Rightarrow> FrameHub \<Rightarrow> (bool \<times> FrameHub) list \<Rightarrow> FrameHub option" where
  "wait_mailbox ptr hub wakes =
     (if mailbox hub ptr \<noteq> None then Some hub
      else case wakes of
        [] \<Rightarrow> None
      | (timed_out, hub') # rest \<Rightarrow> if timed_out then Some hub' else wait_mailbox ptr hub' rest)"

definition frame_hub_take_wait ::
  "nat option \<Rightarrow> FrameHub \<Rightarrow> (bool \<times> FrameHub) list \<Rightarrow> (nat option \<times> FrameHub) option" where
  "frame_hub_take_wait consumer hub wakes =
     (case consumer of
        None \<Rightarrow> Some (None, hub)
      | Some ptr \<Rightarrow> do {
          hub' \<leftarrow> wait_mailbox ptr hub wakes;
          Some (frame_hub_take hub' (Some ptr)) })"

text \<open>The drain loop of \<open>frame_hub_destroy\<close>; the memory is freed behind it.\<close>

fun drain :: "nat list \<Rightarrow> FrameHub \<Rightarrow> FrameHub option" where
  "drain [] hub = Some hub"
| "drain (ptr # ids) hub = do { hub' \<leftarrow> hub_unsubscribe hub ptr; drain ids hub' }"

definition frame_hub_destroy :: "FrameHub option \<Rightarrow> FrameHub option option" where
  "frame_hub_destroy hub =
     (case hub of
        None \<Rightarrow> Some None
      | Some h \<Rightarrow> map_option Some (drain (map cid (consumers h)) h))"

declare wait_mailbox.simps [simp del]

section \<open>References of the mailboxes\<close>

definition slots :: "FrameHubConsumer list \<Rightarrow> nat \<Rightarrow> nat" where
  "slots cs i = length (filter (\<lambda>c. slot c = Some i) cs)"

lemma slots_Nil [simp]: "slots [] i = 0"
  by (simp add: slots_def)

lemma slots_Cons [simp]: "slots (c # cs) i = (if slot c = Some i then 1 else 0) + slots cs i"
  by (simp add: slots_def)

definition set_slot :: "nat \<Rightarrow> FrameHubConsumer \<Rightarrow> FrameHubConsumer" where
  "set_slot f c = (if active c then c\<lparr>slot := Some f\<rparr> else c)"

context refcounted_pool
begin

lemma deliver_rep:
  assumes "rep p (\<lambda>i. slots cs i + E i)" "0 < E f"
  shows "\<exists>p'. deliver addref unref f cs p = Some (map (set_slot f) cs, p') \<and>
     rep p' (\<lambda>i. slots (map (set_slot f) cs) i + E i) \<and> bufs p' = bufs p \<and> cap p' = cap p \<and> view p' = view p"
  using assms
proof (induction cs arbitrary: p E)
  case (Cons c cs)
  show ?case
  proof (cases "active c")
    case False
    have "rep p (\<lambda>i. slots cs i + (E i + (if slot c = Some i then 1 else 0)))"
      using Cons.prems(1) by (simp add: add.assoc add.commute add.left_commute)
    from Cons.IH [OF this] Cons.prems(2) False show ?thesis
      by (auto simp: set_slot_def add.assoc add.commute add.left_commute)
  next
    case True
    let ?R = "\<lambda>i. slots (c # cs) i + E i"
    have "0 < ?R f" using Cons.prems(2) by simp
    from addref_law [OF Cons.prems(1) this] obtain p1 where
      p1: "addref p f = Some p1" "rep p1 (?R(f := Suc (?R f)))" "bufs p1 = bufs p" "cap p1 = cap p" "view p1 = view p"
      by blast
    let ?E = "\<lambda>i. E i + (if i = f then 1 else 0)"
    have "\<exists>p2. (case slot c of None \<Rightarrow> Some p1 | Some g \<Rightarrow> unref p1 g) = Some p2 \<and>
        rep p2 (\<lambda>i. slots cs i + ?E i) \<and> bufs p2 = bufs p \<and> cap p2 = cap p \<and> view p2 = view p"
    proof (cases "slot c")
      case None
      then have "?R(f := Suc (?R f)) = (\<lambda>i. slots cs i + ?E i)" by (auto simp: fun_eq_iff)
      with p1 None show ?thesis by simp
    next
      case (Some g)
      let ?R1 = "?R(f := Suc (?R f))"
      have "0 < ?R1 g" using Some by simp
      from unref_law [OF p1(2) this] obtain p2 where
        p2: "unref p1 g = Some p2" "rep p2 (?R1(g := ?R1 g - 1))" "bufs p2 = bufs p1" "cap p2 = cap p1" "view p2 = view p1"
        by blast
      have "?R1(g := ?R1 g - 1) = (\<lambda>i. slots cs i + ?E i)"
        using Some by (auto simp: fun_eq_iff)
      with p1 p2 Some show ?thesis by simp
    qed
    then obtain p2 where p2: "(case slot c of None \<Rightarrow> Some p1 | Some g \<Rightarrow> unref p1 g) = Some p2"
      "rep p2 (\<lambda>i. slots cs i + ?E i)" "bufs p2 = bufs p" "cap p2 = cap p" "view p2 = view p" by blast
    from Cons.IH [OF p2(2)] obtain p' where
      p': "deliver addref unref f cs p2 = Some (map (set_slot f) cs, p')"
      "rep p' (\<lambda>i. slots (map (set_slot f) cs) i + ?E i)" "bufs p' = bufs p2" "cap p' = cap p2" "view p' = view p2"
      using Cons.prems(2) by auto
    have "(\<lambda>i. slots (map (set_slot f) (c # cs)) i + E i) = (\<lambda>i. slots (map (set_slot f) cs) i + ?E i)"
      using True by (auto simp: set_slot_def fun_eq_iff)
    moreover have "set_slot f c = c\<lparr>slot := Some f\<rparr>" using True by (simp add: set_slot_def)
    ultimately show ?thesis using p' p1(1) p2 True by simp
  qed
qed simp

end

section \<open>Invariant\<close>

definition hub_refs :: "FrameHub \<Rightarrow> nat list \<Rightarrow> nat \<Rightarrow> nat" where
  "hub_refs h held i = slots (consumers h) i + count_list held i"

definition hub_inv :: "FrameHub \<Rightarrow> nat list \<Rightarrow> bool" where
  "hub_inv h held \<longleftrightarrow>
     pool_rep (pool h) (hub_refs h held) \<and>
     distinct (map cid (consumers h)) \<and> (\<forall>c \<in> set (consumers h). active c)"

lemma sum_slots_le: "(\<Sum>i<n. slots cs i) \<le> length cs"
proof (induction cs)
  case (Cons c cs)
  have "(\<Sum>i<n. if slot c = Some i then 1 else 0) \<le> (1 :: nat)"
  proof (cases "slot c")
    case (Some j)
    then have "(\<Sum>i<n. if slot c = Some i then 1 else 0) = (\<Sum>i<n. if i = j then 1 else (0 :: nat))"
      by (intro sum.cong) auto
    then show ?thesis by (simp add: sum.delta)
  qed simp
  with Cons show ?case by (simp add: sum.distrib)
qed simp

lemma sum_count_le: "(\<Sum>i<(n :: nat). count_list xs i) \<le> length xs"
proof (induction xs)
  case (Cons x xs)
  have "(\<Sum>i<n. if x = i then 1 else 0) \<le> (1 :: nat)"
    by simp
  then have "(\<Sum>i<n. (if x = i then 1 else 0) + count_list xs i) \<le> Suc (length xs)"
    unfolding sum.distrib using Cons by simp
  moreover have "(\<Sum>i<n. count_list (x # xs) i) = (\<Sum>i<n. (if x = i then 1 else 0) + count_list xs i)"
    by (intro sum.cong) auto
  ultimately show ?case by simp
qed simp

lemma fill_frame_rep:
  assumes rep: "pool_rep p R" and live: "0 < R i" and fits: "length bs \<le> capacity p"
  shows "\<exists>p'. fill_frame p i bs w h fmt st sq ts = Some p' \<and> pool_rep p' R \<and>
     p_count p' = p_count p \<and> capacity p' = capacity p \<and>
     frame_view p' i = (w, h, fmt, st, sq, ts, bs) \<and>
     (\<forall>j < p_count p. j \<noteq> i \<longrightarrow> frame_view p' j = frame_view p j)"
proof -
  let ?n = "p_count p" and ?c = "capacity p"
  have i: "i < ?n" by (rule rep_bound [OF rep live])
  have lens: "length (frames p) = ?n" "length (backing p) = ?n * ?c" "data (frames p ! i) = i * ?c"
    using rep i by (auto simp: pool_rep_def)
  have block: "j * ?c + k \<le> ?n * ?c" if "j < ?n" "k \<le> ?c" for j k
  proof -
    have "j * ?c + k \<le> Suc j * ?c" using that(2) by simp
    also have "\<dots> \<le> ?n * ?c" using that(1) by (intro mult_le_mono1) simp
    finally show ?thesis .
  qed
  obtain b where b: "memcpy_to (backing p) (i * ?c) bs = Some b"
    using block [OF i fits] lens(2) memcpy_to_in by fastforce
  let ?f = "(frames p ! i)\<lparr>width := w, height := h, format := fmt, stride := st,
    f_size := length bs, f_sequence := sq, timestamp_us := ts\<rparr>"
  let ?p = "p\<lparr>backing := b, frames := (frames p)[i := ?f]\<rparr>"
  have run: "fill_frame p i bs w h fmt st sq ts = Some ?p"
    using i lens b by (simp add: fill_frame_def)
  have rep': "pool_rep ?p R"
    using rep i fits memcpy_to_length [OF b]
    by (auto simp: pool_rep_def free_set_def nth_list_update)
  have "frame_view ?p j = frame_view p j" if j: "j < ?n" "j \<noteq> i" for j
  proof -
    have f: "data (frames p ! j) = j * ?c" "f_size (frames p ! j) \<le> ?c"
      using rep j by (auto simp: pool_rep_def)
    have "Suc j * ?c \<le> i * ?c \<or> Suc i * ?c \<le> j * ?c"
      using j(2) by (metis Suc_leI linorder_neqE_nat mult_le_mono1)
    then have "j * ?c + f_size (frames p ! j) \<le> i * ?c \<or> i * ?c + length bs \<le> j * ?c"
      using f(2) fits by auto
    then have "take (f_size (frames p ! j)) (drop (j * ?c) b) =
        take (f_size (frames p ! j)) (drop (j * ?c) (backing p))"
      using block [OF j(1) f(2)] lens(2) by (intro memcpy_to_frame [OF b]) simp
    then show ?thesis using j f by (simp add: frame_view_def Let_def)
  qed
  moreover have "frame_view ?p i = (w, h, fmt, st, sq, ts, bs)"
    using i lens memcpy_to_range [OF b] by (simp add: frame_view_def Let_def)
  ultimately show ?thesis using run rep' by auto
qed

section \<open>Operations keep the invariant\<close>

lemma set_slot_active [simp]: "active c \<Longrightarrow> set_slot f c = c\<lparr>slot := Some f\<rparr>"
  by (simp add: set_slot_def)

lemma cid_set_slot [simp]: "cid (set_slot f c) = cid c" "active (set_slot f c) = active c"
  by (simp_all add: set_slot_def)

lemma map_cid_set_slot [simp]: "map (cid \<circ> set_slot f) cs = map cid cs"
  by simp

lemma hub_publish_full:
  assumes inv: "hub_inv h held" and full: "\<forall>i < p_count (pool h). 0 < hub_refs h held i"
  shows "hub_publish h bs w ht fmt st sq ts = Some (-1, h)"
proof -
  have rep: "pool_rep (pool h) (hub_refs h held)" using inv by (simp add: hub_inv_def)
  from fp.acquire_law [OF rep] full have "pool_acquire (pool h) = Some (None, pool h)"
    by (auto split: option.splits)
  then show ?thesis by (simp add: hub_publish_def)
qed

text \<open>What one successful publication of frame \<open>f\<close> means.\<close>

definition published ::
  "FrameHub \<Rightarrow> nat list \<Rightarrow> FrameHub \<Rightarrow> nat \<Rightarrow> u32 \<times> u32 \<times> u32 \<times> u32 \<times> u64 \<times> u64 \<times> bytes \<Rightarrow> bool" where
  "published h held h' f v \<longleftrightarrow>
     consumers h' = map (set_slot f) (consumers h) \<and>
     f < p_count (pool h) \<and> hub_refs h held f = 0 \<and> frame_view (pool h') f = v \<and>
     (\<forall>j. 0 < hub_refs h held j \<longrightarrow> frame_view (pool h') j = frame_view (pool h) j)"

lemma hub_publish_room:
  assumes inv: "hub_inv h held" and fits: "length bs \<le> capacity (pool h)"
    and room: "\<exists>i < p_count (pool h). hub_refs h held i = 0"
  shows "\<exists>h' f. hub_publish h bs w ht fmt st sq ts = Some (0, h') \<and> hub_inv h' held \<and>
     p_count (pool h') = p_count (pool h) \<and> capacity (pool h') = capacity (pool h) \<and>
     published h held h' f (w, ht, fmt, st, sq, ts, bs)"
proof -
  let ?cs = "consumers h" and ?p = "pool h" and ?R = "hub_refs h held"
  have rep: "pool_rep ?p ?R" using inv by (simp add: hub_inv_def)
  have "free_count ?p \<noteq> 0" using acquire_exhausted [OF rep] room by (metis less_irrefl)
  from acquire_free [OF rep this] obtain f p1 where p1:
    "pool_acquire ?p = Some (Some f, p1)" "f < p_count ?p" "?R f = 0" "pool_rep p1 (?R(f := 1))"
    "p_count p1 = p_count ?p" "capacity p1 = capacity ?p" "\<forall>j. j \<noteq> f \<longrightarrow> frame_view p1 j = frame_view ?p j"
    by blast
  let ?v = "(w, ht, fmt, st, sq, ts, bs)"
  have "0 < (?R(f := 1)) f" "length bs \<le> capacity p1" using fits p1(6) by auto
  from fill_frame_rep [OF p1(4) this, of w ht fmt st sq ts] obtain p2 where p2:
    "fill_frame p1 f bs w ht fmt st sq ts = Some p2" "pool_rep p2 (?R(f := 1))"
    "p_count p2 = p_count ?p" "capacity p2 = capacity ?p" "frame_view p2 f = ?v"
    "\<forall>j < p_count ?p. j \<noteq> f \<longrightarrow> frame_view p2 j = frame_view p1 j"
    unfolding p1(5,6) by blast
  let ?E = "\<lambda>i. count_list held i + (if i = f then 1 else 0)"
  have "?R(f := 1) = (\<lambda>i. slots ?cs i + ?E i)"
    using p1(3) by (auto simp: hub_refs_def fun_eq_iff)
  then obtain p3 where p3:
    "deliver (\<lambda>p i. frame_ref p (Some i)) pool_unref f ?cs p2 = Some (map (set_slot f) ?cs, p3)"
    "pool_rep p3 (\<lambda>i. slots (map (set_slot f) ?cs) i + ?E i)" "p_count p3 = p_count ?p" "capacity p3 = capacity ?p"
    "frame_view p3 = frame_view p2"
    using fp.deliver_rep [of p2 ?cs ?E f] p2(2-4) by auto
  have dec: "(\<lambda>i. slots (map (set_slot f) ?cs) i + ?E i)(f := slots (map (set_slot f) ?cs) f + ?E f - 1) =
      (\<lambda>i. slots (map (set_slot f) ?cs) i + count_list held i)"
    by (auto simp: fun_eq_iff)
  from fp.unref_law [OF p3(2), of f] obtain p4 where p4: "pool_unref p3 f = Some p4"
    "pool_rep p4 (\<lambda>i. slots (map (set_slot f) ?cs) i + count_list held i)" "p_count p4 = p_count ?p"
    "capacity p4 = capacity ?p" "frame_view p4 = frame_view p2"
    using p3(3-5) unfolding dec by auto
  let ?h = "h\<lparr>pool := p4, consumers := map (set_slot f) ?cs\<rparr>"
  have "hub_publish h bs w ht fmt st sq ts = Some (0, ?h)"
    using p1(1) p2(1) p3(1) p4(1) by (simp add: hub_publish_def)
  moreover have "hub_inv ?h held"
    using inv p4(2) by (auto simp: hub_inv_def hub_refs_def [abs_def] comp_def)
  moreover have "published h held ?h f ?v"
  proof -
    have "frame_view p2 j = frame_view ?p j" if "0 < ?R j" for j
      using p1(3,7) p2(6) that rep_bound [OF rep that] by (cases "j = f") auto
    then show ?thesis using p1(2,3) p2(5) p4(5) by (simp add: published_def)
  qed
  ultimately show ?thesis using p4(3,4) by auto
qed

definition empty_slot :: "nat \<Rightarrow> FrameHubConsumer \<Rightarrow> FrameHubConsumer" where
  "empty_slot k c = (if cid c = k then c\<lparr>slot := None\<rparr> else c)"

lemma empty_slot_simps [simp]:
  "cid (empty_slot k c) = cid c" "active (empty_slot k c) = active c"
  "slot (empty_slot k c) = (if cid c = k then None else slot c)"
  by (simp_all add: empty_slot_def)

lemma find_cid_None: "k \<notin> cid ` set cs \<Longrightarrow> find (\<lambda>c. cid c = k) cs = None"
  by (auto simp: find_None_iff)

lemma slots_absent:
  "k \<notin> cid ` set cs \<Longrightarrow> slots (map (empty_slot k) cs) i = slots cs i"
  "k \<notin> cid ` set cs \<Longrightarrow> filter (\<lambda>d. cid d \<noteq> k) cs = cs"
  by (induction cs) auto

lemma slots_of_one:
  assumes "distinct (map cid cs)" "find (\<lambda>c. cid c = k) cs = Some c"
  shows "slots cs i = slots (map (empty_slot k) cs) i + (if slot c = Some i then 1 else 0) \<and>
         slots cs i = slots (filter (\<lambda>d. cid d \<noteq> k) cs) i + (if slot c = Some i then 1 else 0)"
  using assms by (induction cs) (auto simp: slots_absent split: if_splits)

lemma take_inv [inv_intros]:
  assumes inv: "hub_inv h held" and t: "frame_hub_take h (Some k) = (r, h')"
  shows "hub_inv h' (case r of None \<Rightarrow> held | Some f \<Rightarrow> f # held) \<and> pool h' = pool h"
proof -
  have h': "h' = h\<lparr>consumers := map (empty_slot k) (consumers h)\<rparr>" and r: "r = mailbox h k"
    using t by (auto simp: frame_hub_take_def empty_slot_def)
  have d: "distinct (map cid (consumers h))" using inv by (simp add: hub_inv_def)
  have "hub_refs h' (case r of None \<Rightarrow> held | Some f \<Rightarrow> f # held) = hub_refs h held"
  proof (cases "find (\<lambda>c. cid c = k) (consumers h)")
    case None
    then have "k \<notin> cid ` set (consumers h)" by (auto simp: find_None_iff)
    with None show ?thesis by (simp add: r h' mailbox_def hub_refs_def fun_eq_iff slots_absent)
  next
    case (Some c)
    have "slots (consumers h) i = slots (map (empty_slot k) (consumers h)) i + (if slot c = Some i then 1 else 0)" for i
      using slots_of_one [OF d Some] by blast
    with Some show ?thesis
      by (auto simp: r h' mailbox_def hub_refs_def fun_eq_iff split: option.splits)
  qed
  then show ?thesis using inv by (auto simp: h' hub_inv_def comp_def)
qed

lemma release_inv [inv_intros]:
  assumes inv: "hub_inv h held" and f: "f \<in> set held"
  shows "\<exists>p. frame_unref (Some (pool h)) (Some f) = Some (Some p) \<and>
     hub_inv (h\<lparr>pool := p\<rparr>) (remove1 f held) \<and> p_count p = p_count (pool h) \<and>
     capacity p = capacity (pool h) \<and> frame_view p = frame_view (pool h)"
proof -
  have rep: "pool_rep (pool h) (hub_refs h held)" using inv by (simp add: hub_inv_def)
  have pos: "0 < count_list held f" using f by (induction held) auto
  then have "0 < hub_refs h held f" by (simp add: hub_refs_def)
  from unref_rep [OF rep this] obtain p where p: "pool_unref (pool h) f = Some p"
    "pool_rep p ((hub_refs h held)(f := hub_refs h held f - 1))" "p_count p = p_count (pool h)"
    "capacity p = capacity (pool h)" "frame_view p = frame_view (pool h)" by blast
  have "count_list (remove1 f held) i = count_list held i - (if i = f then 1 else 0)" for i
    by (induction held) auto
  then have "(hub_refs h held)(f := hub_refs h held f - 1) = hub_refs (h\<lparr>pool := p\<rparr>) (remove1 f held)"
    using pos by (auto simp: hub_refs_def fun_eq_iff)
  with p inv show ?thesis by (auto simp: frame_unref_def hub_inv_def)
qed

lemma subscribe_inv [inv_intros]:
  assumes "hub_inv h held" "k \<notin> cid ` set (consumers h)"
  shows "\<exists>h'. frame_hub_subscribe (Some h) (Some k) = (Some k, Some h') \<and> hub_inv h' held \<and>
     pool h' = pool h \<and> consumers h' = \<lparr>cid = k, slot = None, active = True\<rparr> # consumers h"
  using assms by (auto simp: frame_hub_subscribe_def hub_inv_def hub_refs_def [abs_def])

lemma unsubscribe_inv [inv_intros]:
  assumes inv: "hub_inv h held" and k: "k \<in> cid ` set (consumers h)"
  shows "\<exists>h'. hub_unsubscribe h k = Some h' \<and> hub_inv h' held \<and>
     consumers h' = filter (\<lambda>c. cid c \<noteq> k) (consumers h) \<and> p_count (pool h') = p_count (pool h) \<and>
     capacity (pool h') = capacity (pool h) \<and> frame_view (pool h') = frame_view (pool h)"
proof -
  let ?cs = "filter (\<lambda>c. cid c \<noteq> k) (consumers h)"
  have d: "distinct (map cid (consumers h))" and rep: "pool_rep (pool h) (hub_refs h held)"
    and act: "\<forall>c \<in> set (consumers h). active c" using inv by (auto simp: hub_inv_def)
  obtain c where c: "find (\<lambda>c. cid c = k) (consumers h) = Some c"
    using k by (metis (mono_tags, lifting) find_None_iff imageE not_None_eq)
  then have ac: "active c" using act by (auto simp: find_Some_iff)
  have sl: "slots (consumers h) i = slots ?cs i + (if slot c = Some i then 1 else 0)" for i
    using slots_of_one [OF d c] by blast
  have keep: "distinct (map cid ?cs)" using d by (rule distinct_map_filter)
  show ?thesis
  proof (cases "slot c")
    case None
    then have "hub_refs (h\<lparr>consumers := ?cs\<rparr>) held = hub_refs h held"
      using sl by (simp add: hub_refs_def fun_eq_iff)
    with None c ac keep act rep show ?thesis by (simp add: hub_unsubscribe_def hub_inv_def)
  next
    case (Some f)
    have "0 < hub_refs h held f" using sl Some by (simp add: hub_refs_def)
    from unref_rep [OF rep this] obtain p where p: "pool_unref (pool h) f = Some p"
      "pool_rep p ((hub_refs h held)(f := hub_refs h held f - 1))" "p_count p = p_count (pool h)"
      "capacity p = capacity (pool h)" "frame_view p = frame_view (pool h)" by blast
    have "(hub_refs h held)(f := hub_refs h held f - 1) = hub_refs (h\<lparr>consumers := ?cs, pool := p\<rparr>) held"
      using sl Some by (auto simp: hub_refs_def fun_eq_iff)
    with p Some c ac keep act show ?thesis by (simp add: hub_unsubscribe_def hub_inv_def)
  qed
qed

lemma drain_inv:
  assumes "hub_inv h held"
  shows "\<exists>h'. drain (map cid (consumers h)) h = Some h' \<and> hub_inv h' held \<and> consumers h' = []"
  using assms
proof (induction "consumers h" arbitrary: h)
  case (Cons c cs)
  have "cid c \<in> cid ` set (consumers h)" by (simp flip: Cons.hyps(2))
  from unsubscribe_inv [OF Cons.prems this] obtain h' where
    h': "hub_unsubscribe h (cid c) = Some h'" "hub_inv h' held"
    "consumers h' = filter (\<lambda>d. cid d \<noteq> cid c) (consumers h)" by blast
  have "distinct (map cid (c # cs))" using Cons.prems unfolding hub_inv_def Cons.hyps(2) by blast
  then have "filter (\<lambda>d. cid d \<noteq> cid c) cs = cs" by (intro slots_absent(2)) auto
  then have "consumers h' = cs" using h'(3) by (simp flip: Cons.hyps(2))
  with Cons.hyps(1) [of h'] h' show ?case by (simp flip: Cons.hyps(2))
qed simp

section \<open>Sequences of operations\<close>

text \<open>
  Executions as sequences of whole operations: the capture thread publishes, consumers subscribe,
  take, release what they took, and unsubscribe, in any order. In the code only the parts between
  the locks are atomic; \<open>Frame_Hub_Threads\<close> has the steps in between.
\<close>

inductive hub_step :: "FrameHub \<times> nat list \<Rightarrow> FrameHub \<times> nat list \<Rightarrow> bool" where
  publish: "length bs \<le> capacity (pool h) \<Longrightarrow>
     frame_hub_publish (Some h) (Some bs) w ht fmt st sq ts = Some (rc, Some h') \<Longrightarrow>
     hub_step (h, held) (h', held)"
| subscribe: "k \<notin> cid ` set (consumers h) \<Longrightarrow>
     frame_hub_subscribe (Some h) (Some k) = (r, Some h') \<Longrightarrow> hub_step (h, held) (h', held)"
| unsubscribe: "k \<in> cid ` set (consumers h) \<Longrightarrow>
     frame_hub_unsubscribe (Some h) (Some k) = Some (Some h') \<Longrightarrow> hub_step (h, held) (h', held)"
| take_empty: "frame_hub_take h (Some k) = (None, h') \<Longrightarrow> hub_step (h, held) (h', held)"
| take_frame: "frame_hub_take h (Some k) = (Some f, h') \<Longrightarrow> hub_step (h, held) (h', f # held)"
| release: "f \<in> set held \<Longrightarrow> frame_unref (Some (pool h)) (Some f) = Some (Some p) \<Longrightarrow>
     hub_step (h, held) (h\<lparr>pool := p\<rparr>, remove1 f held)"

inductive hub_reach :: "nat \<Rightarrow> nat \<Rightarrow> FrameHub \<times> nat list \<Rightarrow> bool" for cap n where
  start: "frame_hub_create True True cap n = Some h \<Longrightarrow> hub_reach cap n (h, [])"
| step: "hub_reach cap n s \<Longrightarrow> hub_step s s' \<Longrightarrow> hub_reach cap n s'"

lemma publish_inv:
  assumes inv: "hub_inv h held" and fits: "length bs \<le> capacity (pool h)"
  shows "\<exists>rc h'. hub_publish h bs w ht fmt st sq ts = Some (rc, h') \<and> hub_inv h' held \<and>
     p_count (pool h') = p_count (pool h) \<and> capacity (pool h') = capacity (pool h)"
proof (cases "\<exists>i < p_count (pool h). hub_refs h held i = 0")
  case True
  then show ?thesis using hub_publish_room [OF inv fits True, of w ht fmt st sq ts] by blast
next
  case False
  then have "\<forall>i < p_count (pool h). 0 < hub_refs h held i" by simp
  then show ?thesis using hub_publish_full [OF inv] inv by simp
qed

definition sized :: "nat \<Rightarrow> nat \<Rightarrow> FrameHub \<Rightarrow> bool" where
  "sized cap n h \<longleftrightarrow> p_count (pool h) = n \<and> capacity (pool h) = cap"

lemma hub_step_inv:
  assumes "hub_step (h, held) (h', held')" "hub_inv h held" "sized cap n h"
  shows "hub_inv h' held' \<and> sized cap n h'"
  using assms(1)
proof cases
  case (publish bs w ht fmt st sq ts rc)
  then show ?thesis
    using publish_inv [OF assms(2), of bs w ht fmt st sq ts] assms(2,3)
    by (auto simp: frame_hub_publish_def sized_def split: if_splits)
next
  case (subscribe k r)
  then show ?thesis using subscribe_inv [OF assms(2)] assms(3) by (force simp: sized_def)
next
  case (unsubscribe k)
  then show ?thesis
    using unsubscribe_inv [OF assms(2)] assms(3) by (force simp: frame_hub_unsubscribe_def sized_def)
next
  case (take_empty k)
  then show ?thesis using take_inv [OF assms(2)] assms(3) by (fastforce simp: sized_def)
next
  case (take_frame k f)
  then show ?thesis using take_inv [OF assms(2)] assms(3) by (fastforce simp: sized_def)
next
  case (release f p)
  then show ?thesis using release_inv [OF assms(2)] assms(3) by (force simp: sized_def)
qed

lemma create_inv:
  assumes "frame_hub_create True True cap n = Some h"
  shows "hub_inv h [] \<and> sized cap n h \<and> consumers h = []"
proof -
  obtain p where p: "frame_pool_create True cap n = Some p" "h = \<lparr>pool = p, consumers = []\<rparr>"
    using assms by (auto simp: frame_hub_create_def split: bind_splits)
  have "hub_refs h [] = (\<lambda>_. 0)" using p(2) by (simp add: hub_refs_def fun_eq_iff)
  with p pool_rep_create [OF p(1)] show ?thesis
    by (auto simp: hub_inv_def sized_def frame_pool_create_def split: if_splits)
qed

lemma hub_reach_inv: "hub_reach cap n (h, held) \<Longrightarrow> hub_inv h held \<and> sized cap n h"
proof (induction "(h, held)" arbitrary: h held rule: hub_reach.induct)
  case (start h)
  then show ?case using create_inv by blast
next
  case (step s)
  then show ?case using hub_step_inv by (cases s) blast
qed

lemma room_left:
  assumes "hub_inv h held" "length (consumers h) + length held < p_count (pool h)"
  shows "\<exists>i < p_count (pool h). hub_refs h held i = 0"
proof -
  let ?n = "p_count (pool h)"
  have "(\<Sum>i < ?n. hub_refs h held i) \<le> length (consumers h) + length held"
    unfolding hub_refs_def sum.distrib using sum_slots_le sum_count_le by (rule add_mono)
  then have "(\<Sum>i < ?n. hub_refs h held i) < ?n" using assms(2) by simp
  moreover have "pool_rep (pool h) (hub_refs h held)" using assms(1) by (simp add: hub_inv_def)
  ultimately show ?thesis using fp.acquire_available by blast
qed

section \<open>Properties\<close>

text \<open>
  C17: in every state that a sequence of whole operations leads to, publishing a frame that fits a buffer is memory
  safe. It fails, and changes nothing, exactly when every buffer is still referenced;
  otherwise the frame goes to a buffer that nobody held, every consumer's mailbox then holds
  that frame with exactly the published header and bytes, and no frame that a mailbox or a
  consumer was holding is altered.
\<close>

theorem frame_hub_publish_correct:
  assumes "hub_reach cap n (h, held)" "bs \<noteq> []" "length bs \<le> cap"
  shows "\<exists>rc h'. frame_hub_publish (Some h) (Some bs) w ht fmt st sq ts = Some (rc, Some h') \<and>
     (rc = -1 \<and> h' = h \<and> (\<forall>i < n. 0 < hub_refs h held i) \<or>
      rc = 0 \<and> hub_reach cap n (h', held) \<and>
      (\<exists>f < n. hub_refs h held f = 0 \<and> frame_view (pool h') f = (w, ht, fmt, st, sq, ts, bs) \<and>
         map cid (consumers h') = map cid (consumers h) \<and>
         (\<forall>c \<in> set (consumers h'). slot c = Some f) \<and>
         (\<forall>j. 0 < hub_refs h held j \<longrightarrow> frame_view (pool h') j = frame_view (pool h) j)))"
proof -
  have inv: "hub_inv h held" and sz: "p_count (pool h) = n" "capacity (pool h) = cap"
    using hub_reach_inv [OF assms(1)] by (auto simp: sized_def)
  show ?thesis
  proof (cases "\<exists>i < n. hub_refs h held i = 0")
    case False
    then show ?thesis
      using hub_publish_full [OF inv, of bs w ht fmt st sq ts] sz assms(2)
      by (simp add: frame_hub_publish_def)
  next
    case True
    have fits: "length bs \<le> capacity (pool h)" using assms(3) sz by simp
    obtain h' f where h': "hub_publish h bs w ht fmt st sq ts = Some (0, h')" "hub_inv h' held"
      "published h held h' f (w, ht, fmt, st, sq, ts, bs)" "p_count (pool h') = n"
      using hub_publish_room [OF inv fits, of w ht fmt st sq ts] True sz by auto
    have run: "frame_hub_publish (Some h) (Some bs) w ht fmt st sq ts = Some (0, Some h')"
      using h'(1) assms(2) by (simp add: frame_hub_publish_def)
    have "hub_reach cap n (h', held)"
      using hub_step.publish [OF fits run] assms(1) hub_reach.step by blast
    moreover have "\<forall>c \<in> set (consumers h'). slot c = Some f" "map cid (consumers h') = map cid (consumers h)"
      using h'(3) inv by (auto simp: published_def hub_inv_def)
    ultimately show ?thesis using run h'(3) sz(1) by (auto simp: published_def)
  qed
qed

lemma demo_hub:
  "\<exists>h. frame_hub_create True True 4 3 = Some h \<and> hub_reach 4 3 (h, []) \<and> consumers h = []"
proof -
  obtain h where "frame_hub_create True True 4 3 = Some h"
    by (auto simp: frame_hub_create_def frame_pool_create_def)
  then show ?thesis using hub_reach.start create_inv by blast
qed

lemma demo_hub_subscribed:
  "\<exists>h. hub_reach 4 3 (h, []) \<and> consumers h = [\<lparr>cid = 7, slot = None, active = True\<rparr>]"
proof -
  obtain h where h: "hub_reach 4 3 (h, [])" "consumers h = []" using demo_hub by blast
  let ?h = "h\<lparr>consumers := [\<lparr>cid = 7, slot = None, active = True\<rparr>]\<rparr>"
  have "frame_hub_subscribe (Some h) (Some 7) = (Some 7, Some ?h)" using h(2)
    by (simp add: frame_hub_subscribe_def)
  then have "hub_step (h, []) (?h, [])" using h(2) hub_step.subscribe by fastforce
  then have "hub_reach 4 3 (?h, [])" by (rule hub_reach.step [OF h(1)])
  then show ?thesis by fastforce
qed

theorem frame_hub_publish_witness:
  "\<exists>h h' f. hub_reach 4 3 (h, []) \<and> map cid (consumers h) = [7] \<and>
     frame_hub_publish (Some h) (Some [1, 2, 3]) 2 1 0 2 9 100 = Some (0, Some h') \<and>
     map slot (consumers h') = [Some f] \<and> frame_view (pool h') f = (2, 1, 0, 2, 9, 100, [1, 2, 3])"
proof -
  obtain h where h: "hub_reach 4 3 (h, [])" "consumers h = [\<lparr>cid = 7, slot = None, active = True\<rparr>]"
    using demo_hub_subscribed by blast
  have "hub_refs h [] i = 0" for i using h(2) by (simp add: hub_refs_def)
  with frame_hub_publish_correct [OF h(1), of "[1, 2, 3]" 2 1 0 2 9 100] obtain h' f where
    "frame_hub_publish (Some h) (Some [1, 2, 3]) 2 1 0 2 9 100 = Some (0, Some h')"
    "frame_view (pool h') f = (2, 1, 0, 2, 9, 100, [1, 2, 3])"
    "map cid (consumers h') = [7]" "\<forall>c \<in> set (consumers h'). slot c = Some f"
    by (auto simp: h(2) dest: spec [of _ 0])
  moreover from this have "map slot (consumers h') = [Some f]" by (cases "consumers h'") auto
  ultimately show ?thesis using h by auto
qed

text \<open>
  Taking from a mailbox moves its reference to the caller without touching any other
  mailbox or any frame, and the frame keeps its contents until the caller releases it; the
  state stays consistent, so releasing the frame afterwards is safe.
\<close>

theorem frame_hub_take_correct:
  assumes "hub_reach cap n (h, held)" "frame_hub_take h (Some k) = (r, h')"
  shows "r = mailbox h k \<and> mailbox h' k = None \<and>
     (\<forall>k'. k' \<noteq> k \<longrightarrow> mailbox h' k' = mailbox h k') \<and> pool h' = pool h \<and>
     hub_reach cap n (h', case r of None \<Rightarrow> held | Some f \<Rightarrow> f # held) \<and>
     (\<forall>f. r = Some f \<longrightarrow> 0 < hub_refs h' (f # held) f \<and>
        (\<exists>p. frame_unref (Some (pool h')) (Some f) = Some (Some p) \<and> hub_reach cap n (h'\<lparr>pool := p\<rparr>, held)))"
proof -
  have inv: "hub_inv h held" using hub_reach_inv [OF assms(1)] by simp
  have h': "h' = h\<lparr>consumers := map (empty_slot k) (consumers h)\<rparr>" and r: "r = mailbox h k"
    using assms(2) by (auto simp: frame_hub_take_def empty_slot_def)
  have find_other: "find (\<lambda>c. cid c = k') (map (empty_slot k) cs) =
      map_option (empty_slot k) (find (\<lambda>c. cid c = k') cs)" for k' cs
    by (induction cs) auto
  have mb: "mailbox h' k' = (if k' = k then None else mailbox h k')" for k'
  proof (cases "find (\<lambda>c. cid c = k') (consumers h)")
    case (Some c)
    then have "cid c = k'" by (auto simp: find_Some_iff)
    with Some show ?thesis by (simp add: h' mailbox_def find_other)
  qed (simp add: h' mailbox_def find_other)
  have reach: "hub_reach cap n (h', case r of None \<Rightarrow> held | Some f \<Rightarrow> f # held)"
  proof (rule hub_reach.step [OF assms(1)])
    show "hub_step (h, held) (h', case r of None \<Rightarrow> held | Some f \<Rightarrow> f # held)"
      using assms(2) by (cases r) (auto intro: hub_step.intros)
  qed
  have "\<exists>p. frame_unref (Some (pool h')) (Some f) = Some (Some p) \<and> hub_reach cap n (h'\<lparr>pool := p\<rparr>, held)"
    if "r = Some f" for f
  proof -
    have reach': "hub_reach cap n (h', f # held)" using reach that by simp
    obtain p where p: "frame_unref (Some (pool h')) (Some f) = Some (Some p)"
      using release_inv [of h' "f # held" f] hub_reach_inv [OF reach'] by auto
    then have "hub_step (h', f # held) (h'\<lparr>pool := p\<rparr>, remove1 f (f # held))"
      by (intro hub_step.release) auto
    then show ?thesis using p hub_reach.step [OF reach'] by auto
  qed
  then show ?thesis using r mb reach by (auto simp: h' hub_refs_def)
qed

theorem frame_hub_take_witness:
  "\<exists>h h'. hub_reach 4 3 (h, []) \<and> frame_hub_take h (Some 7) = (None, h') \<and> hub_reach 4 3 (h', [])"
proof -
  obtain h where h: "hub_reach 4 3 (h, [])" "consumers h = [\<lparr>cid = 7, slot = None, active = True\<rparr>]"
    using demo_hub_subscribed by blast
  obtain r h' where t: "frame_hub_take h (Some 7) = (r, h')" by fastforce
  have "mailbox h 7 = None" using h(2) by (simp add: mailbox_def)
  with frame_hub_take_correct [OF h(1) t] t h(1) show ?thesis by auto
qed

text \<open>
  Destroying the hub in any reachable state releases every mailbox without an invalid
  access, and when the consumers have given back what they took, every buffer is back in the pool.
\<close>

theorem frame_hub_destroy_releases:
  assumes "hub_reach cap n (h, held)"
  shows "\<exists>h'. frame_hub_destroy (Some h) = Some (Some h') \<and> consumers h' = [] \<and>
     pool_rep (pool h') (count_list held) \<and>
     (held = [] \<longrightarrow> (\<forall>i < p_count (pool h'). int i \<in> free_set (pool h')))"
proof -
  obtain h' where h': "drain (map cid (consumers h)) h = Some h'" "hub_inv h' held" "consumers h' = []"
    using drain_inv hub_reach_inv [OF assms] by blast
  have "hub_refs h' held = count_list held" using h'(3) by (simp add: hub_refs_def fun_eq_iff)
  then have "pool_rep (pool h') (count_list held)" using h'(2) by (simp add: hub_inv_def)
  then show ?thesis using h' by (auto simp: frame_hub_destroy_def pool_rep_def)
qed

theorem frame_hub_destroy_witness:
  "\<exists>h h'. hub_reach 4 3 (h, []) \<and> frame_hub_destroy (Some h) = Some (Some h') \<and> consumers h' = []"
  using demo_hub_subscribed frame_hub_destroy_releases by blast

text \<open>
  The deadline of a timed wait is a normalised \<open>timespec\<close> exactly \<open>timeout_ms\<close>
  milliseconds after the clock reading, for every non-negative timeout.
\<close>

theorem wait_deadline_correct:
  assumes "0 \<le> nsec" "nsec < 1000000000" "0 \<le> timeout_ms"
  shows "case wait_deadline sec nsec timeout_ms of (s, ns) \<Rightarrow>
     0 \<le> ns \<and> ns < 1000000000 \<and>
     s * 1000000000 + ns = sec * 1000000000 + nsec + timeout_ms * 1000000"
proof -
  have q: "timeout_ms sdiv 1000 = timeout_ms div 1000" "timeout_ms smod 1000 = timeout_ms mod 1000"
    using assms(3) by (cases "timeout_ms = 0";
        simp add: signed_divide_int_def signed_modulo_int_def minus_div_mult_eq_mod)+
  obtain d m where "timeout_ms = d * 1000 + m" "timeout_ms div 1000 = d" "timeout_ms mod 1000 = m"
    "0 \<le> m" "m < 1000" by (metis div_mult_mod_eq pos_mod_bound pos_mod_sign zero_less_numeral)
  then show ?thesis using assms unfolding wait_deadline_def q Let_def
    by (auto split: if_splits)
qed

theorem wait_deadline_witness: "wait_deadline 10 999000000 1500 = (12, 499000000)"
  using wait_deadline_correct [of 999000000 1500 10]
  by (simp add: wait_deadline_def signed_divide_int_def signed_modulo_int_def)

end
