(* ===== verification/Frame_Hub_Threads.thy ===== *)
theory Frame_Hub_Threads
  imports Frame_Hub "HOL-Library.Multiset"
begin

text \<open>
  The frame hub (\<open>src/src/media/frame_hub.c\<close>) at the granularity of its locks: one publisher and
  any number of consumer threads, interleaved at every point where a thread takes or leaves a mutex.
  The publisher acquires and fills a buffer before it locks the hub, visits the mailboxes one by one
  under the lock of each, and drops its own reference after it has left the hub;
  \<open>frame_hub_unsubscribe\<close> drops the reference of the mailbox after both locks are released.
  \<open>frame_ref\<close> is not under the lock of the pool: the load and the store of the counter are steps of
  their own.
\<close>

section \<open>Threads\<close>

text \<open>
  Where the publisher is: outside, with a buffer it fills, with a filled one in front of the hub's
  lock, inside the hub with the mailboxes still to visit, in a mailbox after it has loaded the
  reference count, there after it has stored it, and behind the hub with its own reference.
\<close>

datatype Publisher =
    Waiting
  | Filling nat
  | Filled nat
  | Delivering nat "nat list"
  | Loaded nat nat "nat list" int
  | Stored nat nat "nat list"
  | Dropping nat

text \<open>
  \<open>taken\<close>: the frames that consumers have taken and not yet released; \<open>leaving\<close>: those that were in
  the mailbox of a consumer that has unsubscribed and is about to drop them.
\<close>

record HubThreads =
  t_hub :: FrameHub
  publisher :: Publisher
  taken :: "nat list"
  leaving :: "nat list"

fun hub_locked :: "Publisher \<Rightarrow> bool" where
  "hub_locked (Delivering f ks) = True"
| "hub_locked (Loaded f k ks v) = True"
| "hub_locked (Stored f k ks) = True"
| "hub_locked _ = False"

fun mailbox_locked :: "Publisher \<Rightarrow> nat \<Rightarrow> bool" where
  "mailbox_locked (Loaded f k ks v) i = (i = k)"
| "mailbox_locked (Stored f k ks) i = (i = k)"
| "mailbox_locked _ i = False"

text \<open>The two halves of \<open>frame->refcount++\<close>.\<close>

definition load_ref :: "FramePool \<Rightarrow> nat \<Rightarrow> int option" where
  "load_ref p i = map_option refcount (rd (frames p) i)"

definition store_ref :: "FramePool \<Rightarrow> nat \<Rightarrow> int \<Rightarrow> FramePool option" where
  "store_ref p i v = do {
     f \<leftarrow> rd (frames p) i;
     fs \<leftarrow> wr (frames p) i (f\<lparr>refcount := v\<rparr>);
     Some (p\<lparr>frames := fs\<rparr>) }"

definition replace_slot :: "FrameHub \<Rightarrow> nat \<Rightarrow> nat \<Rightarrow> FrameHub option" where
  "replace_slot hub k f = do {
     p \<leftarrow> (case mailbox hub k of None \<Rightarrow> Some (pool hub) | Some g \<Rightarrow> pool_unref (pool hub) g);
     Some (hub\<lparr>pool := p, consumers := map (\<lambda>c. if cid c = k then c\<lparr>slot := Some f\<rparr> else c) (consumers hub)\<rparr>) }"

definition unlink_consumer :: "FrameHub \<Rightarrow> nat \<Rightarrow> FrameHub" where
  "unlink_consumer hub k = hub\<lparr>consumers := filter (\<lambda>c. cid c \<noteq> k) (consumers hub)\<rparr>"

text \<open>At most \<open>limit\<close> consumers are subscribed at a time.\<close>

inductive thread_step :: "nat \<Rightarrow> HubThreads \<Rightarrow> HubThreads \<Rightarrow> bool" for limit where
  acquire: "publisher s = Waiting \<Longrightarrow> pool_acquire (pool (t_hub s)) = Some (Some f, p) \<Longrightarrow>
     thread_step limit s (s\<lparr>t_hub := (t_hub s)\<lparr>pool := p\<rparr>, publisher := Filling f\<rparr>)"
| fill: "publisher s = Filling f \<Longrightarrow> length bs \<le> capacity (pool (t_hub s)) \<Longrightarrow>
     fill_frame (pool (t_hub s)) f bs w h fmt st sq ts = Some p \<Longrightarrow>
     thread_step limit s (s\<lparr>t_hub := (t_hub s)\<lparr>pool := p\<rparr>, publisher := Filled f\<rparr>)"
| enter: "publisher s = Filled f \<Longrightarrow>
     thread_step limit s (s\<lparr>publisher := Delivering f (map cid (consumers (t_hub s)))\<rparr>)"
| load: "publisher s = Delivering f (k # ks) \<Longrightarrow> load_ref (pool (t_hub s)) f = Some v \<Longrightarrow>
     thread_step limit s (s\<lparr>publisher := Loaded f k ks v\<rparr>)"
| store: "publisher s = Loaded f k ks v \<Longrightarrow> store_ref (pool (t_hub s)) f (v + 1) = Some p \<Longrightarrow>
     thread_step limit s (s\<lparr>t_hub := (t_hub s)\<lparr>pool := p\<rparr>, publisher := Stored f k ks\<rparr>)"
| replace: "publisher s = Stored f k ks \<Longrightarrow> replace_slot (t_hub s) k f = Some h \<Longrightarrow>
     thread_step limit s (s\<lparr>t_hub := h, publisher := Delivering f ks\<rparr>)"
| leave: "publisher s = Delivering f [] \<Longrightarrow> thread_step limit s (s\<lparr>publisher := Dropping f\<rparr>)"
| finish: "publisher s = Dropping f \<Longrightarrow> pool_unref (pool (t_hub s)) f = Some p \<Longrightarrow>
     thread_step limit s (s\<lparr>t_hub := (t_hub s)\<lparr>pool := p\<rparr>, publisher := Waiting\<rparr>)"
| subscribe: "\<not> hub_locked (publisher s) \<Longrightarrow> k \<notin> cid ` set (consumers (t_hub s)) \<Longrightarrow> length (consumers (t_hub s)) < limit \<Longrightarrow>
     frame_hub_subscribe (Some (t_hub s)) (Some k) = (r, Some h) \<Longrightarrow> thread_step limit s (s\<lparr>t_hub := h\<rparr>)"
| unsubscribe: "\<not> hub_locked (publisher s) \<Longrightarrow> k \<in> cid ` set (consumers (t_hub s)) \<Longrightarrow>
     thread_step limit s (s\<lparr>t_hub := unlink_consumer (t_hub s) k,
       leaving := (case mailbox (t_hub s) k of None \<Rightarrow> leaving s | Some f \<Rightarrow> f # leaving s)\<rparr>)"
| unsubscribed: "f \<in> set (leaving s) \<Longrightarrow> pool_unref (pool (t_hub s)) f = Some p \<Longrightarrow>
     thread_step limit s (s\<lparr>t_hub := (t_hub s)\<lparr>pool := p\<rparr>, leaving := remove1 f (leaving s)\<rparr>)"
| take: "\<not> mailbox_locked (publisher s) k \<Longrightarrow> frame_hub_take (t_hub s) (Some k) = (r, h) \<Longrightarrow>
     thread_step limit s (s\<lparr>t_hub := h, taken := (case r of None \<Rightarrow> taken s | Some f \<Rightarrow> f # taken s)\<rparr>)"
| release: "f \<in> set (taken s) \<Longrightarrow> pool_unref (pool (t_hub s)) f = Some p \<Longrightarrow>
     thread_step limit s (s\<lparr>t_hub := (t_hub s)\<lparr>pool := p\<rparr>, taken := remove1 f (taken s)\<rparr>)"

inductive threads_reach :: "nat \<Rightarrow> nat \<Rightarrow> nat \<Rightarrow> HubThreads \<Rightarrow> bool" for limit cap n where
  start: "frame_hub_create True True cap n = Some h \<Longrightarrow>
     threads_reach limit cap n \<lparr>t_hub = h, publisher = Waiting, taken = [], leaving = []\<rparr>"
| step: "threads_reach limit cap n s \<Longrightarrow> thread_step limit s s' \<Longrightarrow> threads_reach limit cap n s'"

section \<open>Invariant with one consumer\<close>

fun own :: "Publisher \<Rightarrow> nat list" where
  "own Waiting = []"
| "own (Filling f) = [f]"
| "own (Filled f) = [f]"
| "own (Delivering f ks) = [f]"
| "own (Loaded f k ks v) = [f]"
| "own (Stored f k ks) = [f, f]"
| "own (Dropping f) = [f]"

definition held :: "HubThreads \<Rightarrow> nat list" where
  "held s = taken s @ leaving s @ own (publisher s)"

text \<open>Before the delivery the publisher's is the only reference to the frame.\<close>

definition unshared :: "HubThreads \<Rightarrow> nat \<Rightarrow> bool" where
  "unshared s f \<longleftrightarrow> f \<notin> set (taken s) \<and> f \<notin> set (leaving s) \<and> slots (consumers (t_hub s)) f = 0"

definition publisher_ok :: "HubThreads \<Rightarrow> bool" where
  "publisher_ok s \<longleftrightarrow> (case publisher s of
     Filling f \<Rightarrow> unshared s f
   | Filled f \<Rightarrow> unshared s f
   | Delivering f ks \<Rightarrow> ks \<noteq> [] \<longrightarrow> unshared s f \<and> ks = map cid (consumers (t_hub s))
   | Loaded f k ks v \<Rightarrow> unshared s f \<and> k # ks = map cid (consumers (t_hub s)) \<and> v = 1
   | Stored f k ks \<Rightarrow> k # ks = map cid (consumers (t_hub s))
   | _ \<Rightarrow> True)"

definition threads_inv :: "HubThreads \<Rightarrow> bool" where
  "threads_inv s \<longleftrightarrow> hub_inv (t_hub s) (held s) \<and> length (consumers (t_hub s)) \<le> 1 \<and> publisher_ok s"

lemma hub_inv_permute:
  assumes "hub_inv h xs" "mset xs = mset ys"
  shows "hub_inv h ys"
proof -
  have "count_list xs i = count_list ys i" for i using assms(2) by (metis count_mset)
  then show ?thesis using assms(1) by (simp add: hub_inv_def hub_refs_def [abs_def])
qed

lemma unref_held:
  assumes "hub_inv h xs" "f \<in> set xs"
  shows "\<exists>p. pool_unref (pool h) f = Some p \<and> hub_inv (h\<lparr>pool := p\<rparr>) (remove1 f xs) \<and>
     p_count p = p_count (pool h) \<and> capacity p = capacity (pool h)"
  using release_inv [OF assms] by (auto simp: frame_unref_def)

lemma acquire_held:
  assumes "hub_inv h xs" "pool_acquire (pool h) = Some (Some f, p)"
  shows "hub_inv (h\<lparr>pool := p\<rparr>) (f # xs)" "hub_refs h xs f = 0" "p_count p = p_count (pool h)" "capacity p = capacity (pool h)"
proof -
  have rep: "pool_rep (pool h) (hub_refs h xs)" using assms(1) by (simp add: hub_inv_def)
  from fp.acquire_law [OF rep] assms(2) show r: "hub_refs h xs f = 0" "p_count p = p_count (pool h)" "capacity p = capacity (pool h)" by auto
  have "pool_rep p ((hub_refs h xs)(f := 1))" using fp.acquire_law [OF rep] assms(2) by auto
  moreover have "(hub_refs h xs)(f := 1) = hub_refs (h\<lparr>pool := p\<rparr>) (f # xs)" using r(1) by (auto simp: hub_refs_def fun_eq_iff)
  ultimately show "hub_inv (h\<lparr>pool := p\<rparr>) (f # xs)" using assms(1) by (simp add: hub_inv_def)
qed

lemma fill_held:
  assumes "hub_inv h xs" "f \<in> set xs" "length bs \<le> capacity (pool h)" "fill_frame (pool h) f bs w ht fmt st sq ts = Some p"
  shows "hub_inv (h\<lparr>pool := p\<rparr>) xs" "p_count p = p_count (pool h)" "capacity p = capacity (pool h)"
proof -
  have rep: "pool_rep (pool h) (hub_refs h xs)" using assms(1) by (simp add: hub_inv_def)
  have "0 < hub_refs h xs f" using assms(2) count_list_0_iff [of xs f] by (simp add: hub_refs_def)
  from fill_frame_rep [OF rep this assms(3), of w ht fmt st sq ts] assms(4)
  have "pool_rep p (hub_refs h xs)" and sz: "p_count p = p_count (pool h)" "capacity p = capacity (pool h)" by auto
  moreover have "hub_refs (h\<lparr>pool := p\<rparr>) xs = hub_refs h xs" by (simp add: hub_refs_def fun_eq_iff)
  ultimately show "hub_inv (h\<lparr>pool := p\<rparr>) xs" using assms(1) by (simp add: hub_inv_def)
  show "p_count p = p_count (pool h)" "capacity p = capacity (pool h)" by (rule sz)+
qed

text \<open>A store that nothing has come in front of is \<open>frame_ref\<close>.\<close>

lemma store_held:
  assumes "hub_inv h xs" "hub_refs h xs f = 1" "store_ref (pool h) f 2 = Some p"
  shows "hub_inv (h\<lparr>pool := p\<rparr>) (f # xs)" "p_count p = p_count (pool h)" "capacity p = capacity (pool h)"
proof -
  have rep: "pool_rep (pool h) (hub_refs h xs)" using assms(1) by (simp add: hub_inv_def)
  have f: "f < p_count (pool h)" using rep_bound [OF rep, of f] assms(2) by simp
  have "refcount (frames (pool h) ! f) = 1" using rep f assms(2) by (simp add: pool_rep_def)
  then have "frame_ref (pool h) (Some f) = Some p"
    using assms(3) rep f by (simp add: frame_ref_def store_ref_def pool_rep_def)
  with ref_rep [OF rep, of f] assms(2) have "pool_rep p ((hub_refs h xs)(f := Suc (hub_refs h xs f)))"
    and sz: "p_count p = p_count (pool h)" "capacity p = capacity (pool h)" by auto
  moreover have "(hub_refs h xs)(f := Suc (hub_refs h xs f)) = hub_refs (h\<lparr>pool := p\<rparr>) (f # xs)" by (auto simp: hub_refs_def fun_eq_iff)
  ultimately show "hub_inv (h\<lparr>pool := p\<rparr>) (f # xs)" using assms(1) by (simp add: hub_inv_def)
  show "p_count p = p_count (pool h)" "capacity p = capacity (pool h)" by (rule sz)+
qed

lemma replace_held:
  assumes "hub_inv h (f # xs)" "consumers h = [c]" "replace_slot h (cid c) f = Some h'"
  shows "hub_inv h' xs" "consumers h' = [c\<lparr>slot := Some f\<rparr>]" "p_count (pool h') = p_count (pool h)" "capacity (pool h') = capacity (pool h)"
proof -
  have m: "mailbox h (cid c) = slot c" by (simp add: mailbox_def assms(2))
  obtain p where p: "(case slot c of None \<Rightarrow> Some (pool h) | Some g \<Rightarrow> pool_unref (pool h) g) = Some p"
    "h' = h\<lparr>pool := p, consumers := [c\<lparr>slot := Some f\<rparr>]\<rparr>"
    using assms(2,3) by (auto simp: replace_slot_def m split: bind_splits)
  have rep: "pool_rep (pool h) (hub_refs h (f # xs))" using assms(1) by (simp add: hub_inv_def)
  have "pool_rep p (hub_refs h' xs) \<and> p_count p = p_count (pool h) \<and> capacity p = capacity (pool h)"
  proof (cases "slot c")
    case None
    then have "hub_refs h (f # xs) = hub_refs h' xs" by (auto simp: hub_refs_def fun_eq_iff assms(2) p(2))
    then show ?thesis using rep p(1) None by simp
  next
    case (Some g)
    have pos: "0 < hub_refs h (f # xs) g" using Some by (simp add: hub_refs_def assms(2))
    have "(hub_refs h (f # xs))(g := hub_refs h (f # xs) g - 1) = hub_refs h' xs"
      using Some by (auto simp: hub_refs_def fun_eq_iff assms(2) p(2))
    then show ?thesis using unref_rep [OF rep pos] p(1) Some by auto
  qed
  then show "hub_inv h' xs" "consumers h' = [c\<lparr>slot := Some f\<rparr>]" "p_count (pool h') = p_count (pool h)" "capacity (pool h') = capacity (pool h)"
    using assms(1,2) p(2) by (auto simp: hub_inv_def)
qed

lemma unlink_held:
  assumes "hub_inv h xs" "k \<in> cid ` set (consumers h)"
  shows "hub_inv (unlink_consumer h k) (case mailbox h k of None \<Rightarrow> xs | Some f \<Rightarrow> f # xs)"
proof -
  have d: "distinct (map cid (consumers h))" using assms(1) by (simp add: hub_inv_def)
  obtain c where c: "find (\<lambda>c. cid c = k) (consumers h) = Some c"
    using assms(2) by (metis (mono_tags, lifting) find_None_iff imageE not_None_eq)
  have "slots (consumers h) i = slots (filter (\<lambda>d. cid d \<noteq> k) (consumers h)) i + (if slot c = Some i then 1 else 0)" for i
    using slots_of_one [OF d c] by blast
  then have "hub_refs (unlink_consumer h k) (case mailbox h k of None \<Rightarrow> xs | Some f \<Rightarrow> f # xs) = hub_refs h xs"
    by (auto simp: hub_refs_def fun_eq_iff unlink_consumer_def mailbox_def c split: option.splits)
  then show ?thesis using assms(1) d by (auto simp: hub_inv_def unlink_consumer_def distinct_map_filter)
qed

text \<open>The references of the threads that are not the publisher's.\<close>

lemma unshared_refs: "threads_inv s \<Longrightarrow> unshared s f \<Longrightarrow> hub_refs (t_hub s) (held s) f = count_list (own (publisher s)) f"
  by (simp add: unshared_def hub_refs_def held_def)

lemma publisher_ok_cong:
  assumes "publisher s' = publisher s" "publisher_ok s" "map cid (consumers (t_hub s')) = map cid (consumers (t_hub s))"
    "\<And>f. unshared s f \<Longrightarrow> unshared s' f"
  shows "publisher_ok s'"
  using assms by (auto simp: publisher_ok_def split: Publisher.splits)

lemma publisher_ok_unlocked:
  assumes "publisher s' = publisher s" "publisher_ok s" "\<not> hub_locked (publisher s)" "\<And>f. unshared s f \<Longrightarrow> unshared s' f"
  shows "publisher_ok s'"
  using assms by (auto simp: publisher_ok_def split: Publisher.splits)

definition pool_size :: "HubThreads \<Rightarrow> nat \<times> nat" where
  "pool_size s = (p_count (pool (t_hub s)), capacity (pool (t_hub s)))"

lemma unref_step:
  assumes "threads_inv s" "f \<in> set (held s)" "pool_unref (pool (t_hub s)) f = Some p"
    and "s' = s\<lparr>t_hub := (t_hub s)\<lparr>pool := p\<rparr>, publisher := pc, taken := ts, leaving := ls\<rparr>"
    and "mset (f # held s') = mset (held s)" "publisher_ok s'"
  shows "threads_inv s' \<and> pool_size s' = pool_size s"
proof -
  have inv: "hub_inv (t_hub s) (held s)" using assms(1) by (simp add: threads_inv_def)
  obtain q where q: "pool_unref (pool (t_hub s)) f = Some q" "hub_inv ((t_hub s)\<lparr>pool := q\<rparr>) (remove1 f (held s))"
    "p_count q = p_count (pool (t_hub s))" "capacity q = capacity (pool (t_hub s))" using unref_held [OF inv assms(2)] by blast
  have "mset (remove1 f (held s)) = mset (held s')" using assms(5) by (metis add_mset_remove_trivial mset.simps(2) mset_remove1)
  from hub_inv_permute [OF q(2) this] show ?thesis using q assms(1,3,4,6) by (simp add: threads_inv_def pool_size_def)
qed

lemma thread_step_inv:
  assumes "thread_step 1 s s'" "threads_inv s"
  shows "threads_inv s' \<and> pool_size s' = pool_size s"
proof -
  have inv: "hub_inv (t_hub s) (held s)" "length (consumers (t_hub s)) \<le> 1" "publisher_ok s"
    using assms(2) by (simp_all add: threads_inv_def)
  show ?thesis using assms(1)
  proof cases
    case (acquire f p)
    note a = acquire_held [OF inv(1) acquire(3)]
    have "unshared s f" using a(2) by (simp add: unshared_def hub_refs_def held_def count_list_0_iff)
    then have "publisher_ok s'" using acquire(1) by (simp add: publisher_ok_def unshared_def)
    moreover have "mset (f # held s) = mset (held s')" using acquire(1,2) by (simp add: held_def)
    ultimately show ?thesis using hub_inv_permute [OF a(1)] a(3,4) inv(2) acquire(1) by (simp add: threads_inv_def pool_size_def)
  next
    case (fill f bs w h fmt st sq ts p)
    have "f \<in> set (held s)" using fill(2) by (simp add: held_def)
    note a = fill_held [OF inv(1) this fill(3,4)]
    have "held s' = held s" using fill(1,2) by (simp add: held_def)
    moreover have "publisher_ok s'" using fill(1,2) inv(3) by (simp add: publisher_ok_def unshared_def)
    ultimately show ?thesis using a inv(2) fill(1) by (simp add: threads_inv_def pool_size_def)
  next
    case (enter f)
    have "held s' = held s" using enter by (simp add: held_def)
    moreover have "publisher_ok s'" using enter inv(3) by (simp add: publisher_ok_def unshared_def)
    ultimately show ?thesis using inv enter(1) by (simp add: threads_inv_def pool_size_def)
  next
    case (load f k ks v)
    have u: "unshared s f" "k # ks = map cid (consumers (t_hub s))" using inv(3) load(2) by (simp_all add: publisher_ok_def)
    have "hub_refs (t_hub s) (held s) f = 1" using unshared_refs [OF assms(2) u(1)] load(2) by simp
    then have "v = 1" using inv(1) load(3) rep_bound [of "pool (t_hub s)" "hub_refs (t_hub s) (held s)" f]
      by (auto simp: load_ref_def hub_inv_def pool_rep_def)
    moreover have "held s' = held s" using load by (simp add: held_def)
    ultimately show ?thesis using inv u load(1) by (simp add: threads_inv_def pool_size_def publisher_ok_def unshared_def)
  next
    case (store f k ks v p)
    have u: "unshared s f" "k # ks = map cid (consumers (t_hub s))" "v = 1" using inv(3) store(2) by (simp_all add: publisher_ok_def)
    have "hub_refs (t_hub s) (held s) f = 1" using unshared_refs [OF assms(2) u(1)] store(2) by simp
    note a = store_held [OF inv(1) this, of p]
    have p: "store_ref (pool (t_hub s)) f 2 = Some p" using store(3) u(3) by simp
    have "mset (f # held s) = mset (held s')" using store(1,2) by (simp add: held_def)
    from hub_inv_permute [OF a(1) [OF p] this] show ?thesis
      using a(2,3) [OF p] inv(2) u(2) store(1) by (simp add: threads_inv_def pool_size_def publisher_ok_def)
  next
    case (replace f k ks h)
    have "k # ks = map cid (consumers (t_hub s))" using inv(3) replace(2) by (simp add: publisher_ok_def)
    then obtain c where c: "consumers (t_hub s) = [c]" "cid c = k" "ks = []" using inv(2) by (cases "consumers (t_hub s)") auto
    have "mset (held s) = mset (f # held s')" using replace(1,2) by (simp add: held_def)
    then have "hub_inv (t_hub s) (f # held s')" by (rule hub_inv_permute [OF inv(1)])
    note a = replace_held [OF this c(1)]
    show ?thesis using a [of h] replace(1,3) c(2,3) by (simp add: threads_inv_def pool_size_def publisher_ok_def)
  next
    case (leave f)
    have "held s' = held s" using leave by (simp add: held_def)
    then show ?thesis using inv leave(1) by (simp add: threads_inv_def pool_size_def publisher_ok_def)
  next
    case (finish f p)
    then show ?thesis
      using unref_step [OF assms(2) _ finish(3), where s' = s' and pc = Waiting and ts = "taken s" and ls = "leaving s"] by (simp add: held_def publisher_ok_def)
  next
    case (subscribe k r h)
    from subscribe_inv [OF inv(1) subscribe(3)] subscribe(5)
    have h: "hub_inv h (held s)" "pool h = pool (t_hub s)" "consumers h = \<lparr>cid = k, slot = None, active = True\<rparr> # consumers (t_hub s)" by auto
    have "held s' = held s" using subscribe(1) by (simp add: held_def)
    moreover have "publisher_ok s'"
      by (rule publisher_ok_unlocked [OF _ inv(3) subscribe(2)]) (use subscribe(1) h(3) in \<open>simp_all add: unshared_def\<close>)
    ultimately show ?thesis using h subscribe(1,4) by (simp add: threads_inv_def pool_size_def)
  next
    case (unsubscribe k)
    note a = unlink_held [OF inv(1) unsubscribe(3)]
    have "publisher_ok s'"
    proof (rule publisher_ok_unlocked [OF _ inv(3) unsubscribe(2)])
      fix f assume u: "unshared s f"
      then have "mailbox (t_hub s) k \<noteq> Some f" by (auto simp: unshared_def slots_def mailbox_def filter_empty_conv find_Some_iff split: option.splits)
      moreover have "slots (filter (\<lambda>c. cid c \<noteq> k) (consumers (t_hub s))) f = 0" using u by (auto simp: unshared_def slots_def filter_empty_conv)
      ultimately show "unshared s' f" using u unsubscribe(1) by (auto simp: unshared_def unlink_consumer_def split: option.splits)
    qed (simp add: unsubscribe(1))
    moreover have "mset (case mailbox (t_hub s) k of None \<Rightarrow> held s | Some f \<Rightarrow> f # held s) = mset (held s')"
      using unsubscribe(1) by (simp add: held_def split: option.split)
    moreover have "length (filter (\<lambda>c. cid c \<noteq> k) (consumers (t_hub s))) \<le> 1" using inv(2) length_filter_le le_trans by blast
    ultimately show ?thesis using hub_inv_permute [OF a] unsubscribe(1) by (simp add: threads_inv_def pool_size_def unlink_consumer_def)
  next
    case (unsubscribed f p)
    have "publisher_ok s'"
      by (rule publisher_ok_cong [OF _ inv(3)]) (use unsubscribed(1) in \<open>auto simp: unshared_def dest: notin_set_remove1\<close>)
    then show ?thesis
      using unref_step [OF assms(2) _ unsubscribed(3), where s' = s' and pc = "publisher s" and ts = "taken s" and ls = "remove1 f (leaving s)"] unsubscribed(1,2)
      by (simp add: held_def)
  next
    case (take k r h)
    note a = take_inv [OF inv(1) take(3)]
    have h: "consumers h = map (empty_slot k) (consumers (t_hub s))" "r = mailbox (t_hub s) k"
      using take(3) by (auto simp: frame_hub_take_def empty_slot_def)
    have "publisher_ok s'"
    proof (rule publisher_ok_cong [OF _ inv(3)])
      fix f assume u: "unshared s f"
      then have "mailbox (t_hub s) k \<noteq> Some f" by (auto simp: unshared_def slots_def mailbox_def filter_empty_conv find_Some_iff split: option.splits)
      moreover have "slots (map (empty_slot k) (consumers (t_hub s))) f = 0" using u by (auto simp: unshared_def slots_def filter_empty_conv)
      ultimately show "unshared s' f" using u take(1) h by (auto simp: unshared_def split: option.splits)
    qed (use take(1) h(1) in simp_all)
    moreover have "mset (case r of None \<Rightarrow> held s | Some f \<Rightarrow> f # held s) = mset (held s')"
      using take(1) by (simp add: held_def split: option.split)
    ultimately show ?thesis using hub_inv_permute [OF conjunct1 [OF a]] a take(1) inv(2) h(1) by (simp add: threads_inv_def pool_size_def)
  next
    case (release f p)
    have "publisher_ok s'"
      by (rule publisher_ok_cong [OF _ inv(3)]) (use release(1) in \<open>auto simp: unshared_def dest: notin_set_remove1\<close>)
    then show ?thesis
      using unref_step [OF assms(2) _ release(3), where s' = s' and pc = "publisher s" and ts = "remove1 f (taken s)" and ls = "leaving s"] release(1,2)
      by (simp add: held_def)
  qed
qed

lemma threads_reach_inv: "threads_reach 1 cap n s \<Longrightarrow> threads_inv s \<and> pool_size s = (n, cap)"
proof (induction rule: threads_reach.induct)
  case (start h)
  then show ?case using create_inv [of cap n h] by (simp add: threads_inv_def held_def publisher_ok_def pool_size_def sized_def)
next
  case (step s s')
  then show ?case using thread_step_inv by simp
qed

section \<open>Properties\<close>

text \<open>
  C18: with one consumer subscribed at a time, as the program has it, every interleaving of the
  publisher with takes, releases, subscriptions and unsubscriptions, down to the load and the store of
  \<open>frame_ref\<close>, keeps each reference count equal to the number of references that exist: those of the
  mailbox, of frames taken and not released, of mailboxes whose consumer has left and is about to drop
  its frame, and of the publisher itself. So the publisher is never refused while those of the others
  are fewer than the buffers of the pool, and the buffer it gets is referenced by nobody.
\<close>

theorem frame_hub_publish_never_starves:
  assumes "threads_reach 1 cap n s"
  shows "(\<forall>i < n. refcount (frames (pool (t_hub s)) ! i) = int (slots (consumers (t_hub s)) i +
       count_list (taken s) i + count_list (leaving s) i + count_list (own (publisher s)) i)) \<and>
     (publisher s = Waiting \<and> length (consumers (t_hub s)) + length (taken s) + length (leaving s) < n \<longrightarrow>
       (\<exists>f p. pool_acquire (pool (t_hub s)) = Some (Some f, p) \<and> unshared s f))"
proof -
  have inv: "threads_inv s" "pool_size s = (n, cap)" using threads_reach_inv [OF assms] by auto
  have h: "hub_inv (t_hub s) (held s)" and n: "p_count (pool (t_hub s)) = n" using inv by (simp_all add: threads_inv_def pool_size_def)
  have "\<forall>i < n. refcount (frames (pool (t_hub s)) ! i) = int (hub_refs (t_hub s) (held s) i)" using h n by (simp add: hub_inv_def pool_rep_def)
  moreover have "\<exists>f p. pool_acquire (pool (t_hub s)) = Some (Some f, p) \<and> unshared s f"
    if "publisher s = Waiting" "length (consumers (t_hub s)) + length (taken s) + length (leaving s) < n"
  proof -
    have "length (consumers (t_hub s)) + length (held s) < p_count (pool (t_hub s))" using that n by (simp add: held_def)
    from room_left [OF h this] have free: "\<not> (\<forall>i < p_count (pool (t_hub s)). 0 < hub_refs (t_hub s) (held s) i)" by auto
    have "pool_rep (pool (t_hub s)) (hub_refs (t_hub s) (held s))" using h by (simp add: hub_inv_def)
    from fp.acquire_law [OF this] free obtain f p where "pool_acquire (pool (t_hub s)) = Some (Some f, p)" "hub_refs (t_hub s) (held s) f = 0"
      by (auto split: option.splits)
    then show ?thesis by (auto simp: unshared_def hub_refs_def held_def count_list_0_iff)
  qed
  ultimately show ?thesis by (simp add: hub_refs_def held_def add.assoc)
qed

text \<open>
  The steps of one publication in front of a consumer, and of the consumer that leaves while the frame
  is in its mailbox: the buffer is still referenced after the locks are released.
\<close>

definition demo_threads :: "FrameHub \<Rightarrow> HubThreads" where
  "demo_threads h = \<lparr>t_hub = h, publisher = Waiting, taken = [], leaving = []\<rparr>"

lemma demo_threads_reach: "\<exists>h. threads_reach limit 4 3 (demo_threads h) \<and> consumers h = []"
  using demo_hub threads_reach.start [of 4 3] unfolding demo_threads_def by blast

theorem frame_hub_never_starves_witness:
  "\<exists>s f p. threads_reach 1 4 3 s \<and> map cid (consumers (t_hub s)) = [7] \<and> pool_acquire (pool (t_hub s)) = Some (Some f, p) \<and> unshared s f"
proof -
  obtain h where h: "threads_reach 1 4 3 (demo_threads h)" "consumers h = []" using demo_threads_reach by blast
  let ?h = "h\<lparr>consumers := [\<lparr>cid = 7, slot = None, active = True\<rparr>]\<rparr>"
  have "frame_hub_subscribe (Some h) (Some 7) = (Some 7, Some ?h)" using h(2) by (simp add: frame_hub_subscribe_def)
  then have "thread_step 1 (demo_threads h) (demo_threads ?h)"
    using thread_step.subscribe [of "demo_threads h" 7 1 "Some 7" ?h] h(2) by (simp add: demo_threads_def)
  then have "threads_reach 1 4 3 (demo_threads ?h)" by (rule threads_reach.step [OF h(1)])
  with frame_hub_publish_never_starves [OF this] show ?thesis by (fastforce simp: demo_threads_def)
qed

section \<open>Two consumers\<close>

text \<open>A store after which the counter no longer says how many references there are.\<close>

lemma store_rep:
  assumes "pool_rep p R" "0 < R f" "0 < v"
  shows "\<exists>p'. store_ref p f (int v) = Some p' \<and> pool_rep p' (R(f := v))"
proof -
  have f: "f < p_count p" "length (frames p) = p_count p" using rep_bound [OF assms(1,2)] assms(1) by (simp_all add: pool_rep_def)
  have "{j. j < p_count p \<and> (R(f := v)) j = 0} = {j. j < p_count p \<and> R j = 0}" using assms(2,3) by auto
  then have "pool_rep (p\<lparr>frames := (frames p)[f := (frames p ! f)\<lparr>refcount := int v\<rparr>]\<rparr>) (R(f := v))"
    using assms f by (auto simp: pool_rep_def free_set_def nth_list_update)
  then show ?thesis using f by (simp add: store_ref_def)
qed

lemma load_rep: "pool_rep p R \<Longrightarrow> 0 < R f \<Longrightarrow> load_ref p f = Some (int (R f))"
  using rep_bound [of p R f] by (simp add: load_ref_def pool_rep_def)

definition pair_state :: "FramePool \<Rightarrow> nat option \<Rightarrow> nat option \<Rightarrow> Publisher \<Rightarrow> nat list \<Rightarrow> HubThreads" where
  "pair_state p a b pc xs = \<lparr>t_hub = \<lparr>pool = p, consumers = [\<lparr>cid = 8, slot = a, active = True\<rparr>, \<lparr>cid = 7, slot = b, active = True\<rparr>]\<rparr>,
     publisher = pc, taken = xs, leaving = []\<rparr>"

lemma pair_simps [simp]:
  "publisher (pair_state p a b pc xs) = pc" "taken (pair_state p a b pc xs) = xs" "pool (t_hub (pair_state p a b pc xs)) = p"
  "map cid (consumers (t_hub (pair_state p a b pc xs))) = [8, 7]"
  "(pair_state p a b pc xs)\<lparr>publisher := pc'\<rparr> = pair_state p a b pc' xs"
  "(pair_state p a b pc xs)\<lparr>t_hub := (t_hub (pair_state p a b pc xs))\<lparr>pool := p'\<rparr>, publisher := pc'\<rparr> = pair_state p' a b pc' xs"
  "(pair_state p a b pc xs)\<lparr>t_hub := (t_hub (pair_state p a b pc xs))\<lparr>pool := p'\<rparr>, taken := ys\<rparr> = pair_state p' a b pc ys"
  by (simp_all add: pair_state_def)

text \<open>Delivery to one mailbox of the pair from the load on, into an empty mailbox.\<close>

lemma pair_replace:
  assumes "threads_reach 2 cap n (pair_state p a b (Stored f k ks) xs)" "k = 8 \<and> a = None \<or> k = 7 \<and> b = None"
  shows "threads_reach 2 cap n (pair_state p (if k = 8 then Some f else a) (if k = 7 then Some f else b) (Delivering f ks) xs)"
proof -
  let ?s = "pair_state p a b (Stored f k ks) xs"
  let ?h = "t_hub (pair_state p (if k = 8 then Some f else a) (if k = 7 then Some f else b) (Delivering f ks) xs)"
  have "replace_slot (t_hub ?s) k f = Some ?h" using assms(2) by (auto simp: replace_slot_def mailbox_def pair_state_def)
  from threads_reach.step [OF assms(1) thread_step.replace [OF _ this]] show ?thesis by (simp add: pair_state_def)
qed

lemma pair_take:
  assumes "threads_reach 2 cap n (pair_state p a b pc xs)" "\<not> mailbox_locked pc k"
    and "k = 8 \<and> a = Some f \<or> k = 7 \<and> b = Some f"
  shows "threads_reach 2 cap n (pair_state p (if k = 8 then None else a) (if k = 7 then None else b) pc (f # xs))"
proof -
  let ?s = "pair_state p a b pc xs"
  let ?h = "t_hub (pair_state p (if k = 8 then None else a) (if k = 7 then None else b) pc xs)"
  have "frame_hub_take (t_hub ?s) (Some k) = (Some f, ?h)" using assms(3) by (auto simp: frame_hub_take_def mailbox_def pair_state_def)
  from threads_reach.step [OF assms(1) thread_step.take [OF _ this]] assms(2) show ?thesis by (simp add: pair_state_def)
qed

lemma pair_subscribed:
  assumes "0 < cap" "0 < n"
  shows "\<exists>p. pool_rep p (\<lambda>_. 0) \<and> p_count p = n \<and> threads_reach 2 cap n (pair_state p None None Waiting [])"
proof -
  obtain h where h: "frame_hub_create True True cap n = Some h" "consumers h = []" "pool_rep (pool h) (\<lambda>_. 0)" "p_count (pool h) = n"
  proof -
    obtain h where "frame_hub_create True True cap n = Some h" using assms by (auto simp: frame_hub_create_def frame_pool_create_def)
    moreover from create_inv [OF this] have c: "consumers h = []" "p_count (pool h) = n" "pool_rep (pool h) (hub_refs h [])"
      by (auto simp: sized_def hub_inv_def)
    moreover have "hub_refs h [] = (\<lambda>_. 0)" using c(1) by (simp add: hub_refs_def fun_eq_iff)
    ultimately show thesis using that by metis
  qed
  let ?s = "\<lambda>cs. \<lparr>t_hub = h\<lparr>consumers := cs\<rparr>, publisher = Waiting, taken = [], leaving = []\<rparr>"
  let ?c = "\<lambda>k. \<lparr>cid = k, slot = None, active = True\<rparr>"
  have h0: "h = h\<lparr>consumers := []\<rparr>" using h(2) by simp
  have "threads_reach 2 cap n (?s [])" using threads_reach.start [OF h(1)] h0 by simp
  moreover have "thread_step 2 (?s []) (?s [?c 7])"
    using thread_step.subscribe [of "?s []" 7 2 "Some 7" "h\<lparr>consumers := [?c 7]\<rparr>"] by (simp add: frame_hub_subscribe_def)
  moreover have "thread_step 2 (?s [?c 7]) (?s [?c 8, ?c 7])"
    using thread_step.subscribe [of "?s [?c 7]" 8 2 "Some 8" "h\<lparr>consumers := [?c 8, ?c 7]\<rparr>"] by (simp add: frame_hub_subscribe_def)
  ultimately have "threads_reach 2 cap n (?s [?c 8, ?c 7])" by (blast intro: threads_reach.step)
  moreover have "?s [?c 8, ?c 7] = pair_state (pool h) None None Waiting []" by (simp add: pair_state_def)
  ultimately show ?thesis using h(3,4) by auto
qed

text \<open>
  With two consumers \<open>frame_ref\<close> is not safe, although its comment says so: the publisher loads the
  counter for the second mailbox, the first consumer takes the frame and releases it, and the publisher
  stores a count that still has the released reference. When everybody is done the frame has a count
  of one and no holder: the buffer is lost to the pool for good.
\<close>

theorem frame_ref_race:
  assumes "0 < cap" "0 < n"
  shows "\<exists>s f. threads_reach 2 cap n s \<and> publisher s = Waiting \<and> taken s = [] \<and> leaving s = [] \<and>
     (\<forall>c \<in> set (consumers (t_hub s)). slot c = None) \<and> f < n \<and>
     refcount (frames (pool (t_hub s)) ! f) = 1 \<and> int f \<notin> free_set (pool (t_hub s))"
proof -
  let ?reach = "threads_reach 2 cap n"
  obtain p0 where p0: "pool_rep p0 (\<lambda>_. 0)" "p_count p0 = n" "?reach (pair_state p0 None None Waiting [])"
    using pair_subscribed [OF assms] by blast
  obtain f p1 where p1: "pool_acquire p0 = Some (Some f, p1)" "f < n" "pool_rep p1 ((\<lambda>_. 0)(f := 1))" "p_count p1 = n" "capacity p1 = capacity p0"
    using fp.acquire_law [OF p0(1)] p0(2) assms(2) by (auto split: option.splits)
  have r1: "?reach (pair_state p1 None None (Filling f) [])"
    using threads_reach.step [OF p0(3) thread_step.acquire [of _ f p1]] p1(1) by simp
  obtain p2 where p2: "fill_frame p1 f [] 0 0 0 0 0 0 = Some p2" "pool_rep p2 ((\<lambda>_. 0)(f := 1))" "p_count p2 = n"
    using fill_frame_rep [OF p1(3), of f "[]" 0 0 0 0 0 0] p1(4) by auto
  have r2: "?reach (pair_state p2 None None (Delivering f [8, 7]) [])"
    using threads_reach.step [OF threads_reach.step [OF r1 thread_step.fill [of _ f "[]" 0 0 0 0 0 0 p2]] thread_step.enter [of _ f]] p2(1)
    by simp
  have r3: "?reach (pair_state p2 None None (Loaded f 8 [7] 1) [])"
    using threads_reach.step [OF r2 thread_step.load [of _ f 8 "[7]" 1]] load_rep [OF p2(2), of f] by simp
  obtain p3 where p3: "store_ref p2 f 2 = Some p3" "pool_rep p3 ((\<lambda>_. 0)(f := 2))"
    using store_rep [OF p2(2), of f 2] by auto
  have "?reach (pair_state p3 None None (Stored f 8 [7]) [])"
    using threads_reach.step [OF r3 thread_step.store [of _ f 8 "[7]" 1 p3]] p3(1) by simp
  from pair_replace [OF this] have d: "?reach (pair_state p3 (Some f) None (Delivering f [7]) [])" by simp
  have "?reach (pair_state p3 (Some f) None (Loaded f 7 [] 2) [])"
    using threads_reach.step [OF d thread_step.load [of _ f 7 "[]" 2]] load_rep [OF p3(2), of f] by simp
  from pair_take [OF this, of 8 f] have r4: "?reach (pair_state p3 None None (Loaded f 7 [] 2) [f])" by simp
  obtain p4 where p4: "pool_unref p3 f = Some p4" "pool_rep p4 ((\<lambda>_. 0)(f := 1))"
    using unref_rep [OF p3(2), of f] by auto
  have r5: "?reach (pair_state p4 None None (Loaded f 7 [] 2) [])"
    using threads_reach.step [OF r4 thread_step.release [of f _ p4]] p4(1) by simp
  obtain p5 where p5: "store_ref p4 f 3 = Some p5" "pool_rep p5 ((\<lambda>_. 0)(f := 3))"
    using store_rep [OF p4(2), of f 3] by auto
  have "?reach (pair_state p5 None None (Stored f 7 []) [])"
    using threads_reach.step [OF r5 thread_step.store [of _ f 7 "[]" 2 p5]] p5(1) by simp
  from pair_replace [OF this] have "?reach (pair_state p5 None (Some f) (Delivering f []) [])" by simp
  from threads_reach.step [OF this thread_step.leave [of _ f]] have r6: "?reach (pair_state p5 None (Some f) (Dropping f) [])" by simp
  obtain p6 where p6: "pool_unref p5 f = Some p6" "pool_rep p6 ((\<lambda>_. 0)(f := 2))"
    using unref_rep [OF p5(2), of f] by auto
  have "?reach (pair_state p6 None (Some f) Waiting [])"
    using threads_reach.step [OF r6 thread_step.finish [of _ f p6]] p6(1) by simp
  from pair_take [OF this, of 7 f] have r7: "?reach (pair_state p6 None None Waiting [f])" by simp
  obtain p7 where p7: "pool_unref p6 f = Some p7" "pool_rep p7 ((\<lambda>_. 0)(f := 1))" "p_count p7 = p_count p6"
    using unref_rep [OF p6(2), of f] by auto
  have r8: "?reach (pair_state p7 None None Waiting [])"
    using threads_reach.step [OF r7 thread_step.release [of f _ p7]] p7(1) by simp
  have "refcount (frames p7 ! f) = 1" "int f \<notin> free_set p7"
    using p7(2) rep_bound [OF p7(2), of f] by (auto simp: pool_rep_def)
  then show ?thesis using r8 p1(2) by (intro exI [of _ "pair_state p7 None None Waiting []"] exI [of _ f]) (simp add: pair_state_def)
qed

theorem frame_ref_race_witness: "\<exists>s f. threads_reach 2 4 1 s \<and> taken s = [] \<and> f < 1 \<and> int f \<notin> free_set (pool (t_hub s))"
  using frame_ref_race [of 4 1] by auto

end
