(* ===== verification/Yuv_Convert.thy ===== *)
theory Yuv_Convert
  imports Cam_Prelude
begin

text \<open>
  Pixel format conversion of the encode path (\<open>src/src/media/yuv_convert.c\<close>). The
  source and the three destination planes are separate buffers; every pixel access is
  checked. Coordinates are \<open>nat\<close>: the products \<open>(size_t) row * stride\<close> are below
  \<open>2 ^ 64\<close> for 32 bit operands. The two chroma samples are averaged in \<open>uint32_t\<close>
  and cut back to a byte as the code does.
\<close>

section \<open>Operations\<close>

definition luma_pixel :: "bytes \<Rightarrow> nat \<Rightarrow> nat \<Rightarrow> bytes \<Rightarrow> bytes option" where
  "luma_pixel src i out dst = do {
     y0 \<leftarrow> rd src i;
     y1 \<leftarrow> rd src (i + 2);
     dst \<leftarrow> wr dst out y0;
     wr dst (out + 1) y1 }"

definition avg2 :: "u8 \<Rightarrow> u8 \<Rightarrow> u8" where
  "avg2 a b = ucast (drop_bit 1 ((ucast a + ucast b :: u32) + 1))"

definition chroma_pixel :: "bytes \<Rightarrow> nat \<Rightarrow> nat \<Rightarrow> nat \<Rightarrow> bytes \<Rightarrow> bytes option" where
  "chroma_pixel src r0 r1 out dst = do {
     a \<leftarrow> rd src r0;
     b \<leftarrow> rd src r1;
     wr dst out (avg2 a b) }"

definition yuyv_to_i420 ::
  "bytes \<Rightarrow> nat \<Rightarrow> bytes \<Rightarrow> bytes \<Rightarrow> bytes \<Rightarrow> nat \<Rightarrow> nat \<Rightarrow> (bytes \<times> bytes \<times> bytes) option" where
  "yuyv_to_i420 src src_stride dst_y dst_u dst_v width height = do {
     let chroma_w = width div 2;
     let chroma_h = height div 2;
     dst_y \<leftarrow> for_upto height (\<lambda>row.
       for_upto (width div 2) (\<lambda>x. luma_pixel src (row * src_stride + 4 * x) (row * width + 2 * x))) dst_y;
     (dst_u, dst_v) \<leftarrow> for_upto chroma_h (\<lambda>crow (dst_u, dst_v). do {
       let row0 = (crow * 2) * src_stride;
       let row1 = row0 + src_stride;
       for_upto chroma_w (\<lambda>x (dst_u, dst_v). do {
         dst_u \<leftarrow> chroma_pixel src (row0 + 4 * x + 1) (row1 + 4 * x + 1) (crow * chroma_w + x) dst_u;
         dst_v \<leftarrow> chroma_pixel src (row0 + 4 * x + 3) (row1 + 4 * x + 3) (crow * chroma_w + x) dst_v;
         Some (dst_u, dst_v) }) (dst_u, dst_v) }) (dst_u, dst_v);
     Some (dst_y, dst_u, dst_v) }"

definition copy_row :: "bytes \<Rightarrow> nat \<Rightarrow> nat \<Rightarrow> nat \<Rightarrow> bytes \<Rightarrow> bytes option" where
  "copy_row src i n out dst = do { row \<leftarrow> rd_range src i n; memcpy_to dst out row }"

definition i420_copy ::
  "bytes \<Rightarrow> nat \<Rightarrow> bytes \<Rightarrow> bytes \<Rightarrow> bytes \<Rightarrow> bytes \<Rightarrow> bytes \<Rightarrow> nat \<Rightarrow> nat
     \<Rightarrow> (bytes \<times> bytes \<times> bytes) option" where
  "i420_copy src_y src_y_stride src_u src_v dst_y dst_u dst_v width height = do {
     let chroma_w = width div 2;
     let chroma_h = height div 2;
     let src_c_stride = src_y_stride div 2;
     dst_y \<leftarrow> for_upto height (\<lambda>row. copy_row src_y (row * src_y_stride) width (row * width)) dst_y;
     (dst_u, dst_v) \<leftarrow> for_upto chroma_h (\<lambda>crow (dst_u, dst_v). do {
       dst_u \<leftarrow> copy_row src_u (crow * src_c_stride) chroma_w (crow * chroma_w) dst_u;
       dst_v \<leftarrow> copy_row src_v (crow * src_c_stride) chroma_w (crow * chroma_w) dst_v;
       Some (dst_u, dst_v) }) (dst_u, dst_v);
     Some (dst_y, dst_u, dst_v) }"

section \<open>Rasters\<close>

lemma raster_index: "c < w \<Longrightarrow> (r * w + c) div w = r \<and> (r * w + c) mod w = (c :: nat)"
  by simp

lemma raster_bound:
  assumes "r < h" "c \<le> w" "h * w \<le> (L :: nat)" shows "r * w + c \<le> L"
proof -
  have "r * w + c \<le> Suc r * w" using assms(2) by simp
  also have "\<dots> \<le> h * w" using assms(1) by (intro mult_le_mono1) simp
  finally show ?thesis using assms(3) by simp
qed

lemma raster_set: "(\<Union>r<h. {r * w..<r * w + m}) = {i. i < h * w \<and> i mod w < m}" if "m \<le> w" "0 < (w :: nat)"
proof (intro set_eqI iffI)
  fix i assume "i \<in> (\<Union>r<h. {r * w..<r * w + m})"
  then obtain r c where rc: "r < h" "c < m" "i = r * w + c"
    by (auto simp: le_iff_add)
  have "i < h * w" using raster_bound [OF rc(1), of "Suc c" w "h * w"] rc that(1) by simp
  then show "i \<in> {i. i < h * w \<and> i mod w < m}" using rc that(1) by simp
next
  fix i assume "i \<in> {i. i < h * w \<and> i mod w < m}"
  then have "i div w < h" "i mod w < m" using that(2) by (simp_all add: less_mult_imp_div_less)
  moreover have "i = i div w * w + i mod w" by simp
  ultimately show "i \<in> (\<Union>r<h. {r * w..<r * w + m})"
    by (metis UN_I add_less_cancel_left atLeastLessThan_iff le_add1 lessThan_iff)
qed

section \<open>The planes\<close>

lemma avg2_eq: "unat (avg2 a b) = (unat a + unat b + 1) div 2"
proof -
  have a: "unat a < 256" "unat b < 256" using unsigned_less [of a, where 'a = nat] unsigned_less [of b, where 'a = nat] by simp_all
  have "unat ((ucast a + ucast b :: u32) + 1) = unat a + unat b + 1"
    using a by (simp add: unat_word_ariths unsigned_ucast_eq take_bit_nat_def)
  then show ?thesis using a
    by (simp add: avg2_def unsigned_ucast_eq unsigned_drop_bit_eq drop_bit_eq_div take_bit_nat_def unat_div)
qed

lemma writes_luma:
  assumes "0 < w" "4 * (w div 2) \<le> st" "h * st \<le> length src" "h * w \<le> L"
  shows "writes L {i. i < h * w \<and> i mod w < 2 * (w div 2)} (\<lambda>i. src ! (i div w * st + 2 * (i mod w)))
     (for_upto h (\<lambda>row. for_upto (w div 2) (\<lambda>x. luma_pixel src (row * st + 4 * x) (row * w + 2 * x))))"
proof -
  let ?g = "\<lambda>i. src ! (i div w * st + 2 * (i mod w))"
  have px: "writes L {r * w + 2 * x, r * w + 2 * x + 1} ?g (luma_pixel src (r * st + 4 * x) (r * w + 2 * x))"
    if r: "r < h" "x < w div 2" for r x
  proof -
    have x: "2 * x + 2 \<le> w" "4 * x + 4 \<le> st" using r(2) assms(2) by auto
    have i: "r * w + 2 * x + 1 < L" using raster_bound [OF r(1) x(1) assms(4)] by simp
    have s: "r * st + 4 * x + 4 \<le> length src" using raster_bound [OF r(1) x(2) assms(3)] by simp
    have g: "?g (r * w + 2 * x) = src ! (r * st + 4 * x)" "?g (r * w + (2 * x + 1)) = src ! (r * st + 4 * x + 2)"
      using raster_index [of "2 * x" w r] raster_index [of "2 * x + 1" w r] x by simp_all
    have "writes L ({r * w + 2 * x} \<union> {r * w + 2 * x + 1}) ?g
        (\<lambda>s. Option.bind (wr s (r * w + 2 * x) (src ! (r * st + 4 * x)))
          (\<lambda>s. wr s (r * w + 2 * x + 1) (src ! (r * st + 4 * x + 2))))"
      using i g by (intro writes_bind writes_wr) (simp_all add: add.assoc)
    then show ?thesis using s by (simp add: luma_pixel_def [abs_def] insert_commute)
  qed
  have row: "writes L {r * w..<r * w + 2 * (w div 2)} ?g
      (for_upto (w div 2) (\<lambda>x. luma_pixel src (r * st + 4 * x) (r * w + 2 * x)))" if "r < h" for r
  proof -
    have "(\<Union>x<w div 2. {r * w + 2 * x, r * w + 2 * x + 1}) = {r * w..<r * w + 2 * (w div 2)}"
      (is "?A = ?B")
    proof (intro set_eqI iffI)
      fix i assume "i \<in> ?B"
      then have "(i - r * w) div 2 < w div 2" "i = r * w + 2 * ((i - r * w) div 2) \<or> i = r * w + 2 * ((i - r * w) div 2) + 1"
        by auto
      then show "i \<in> ?A" by blast
    qed auto
    then show ?thesis by (rule writes_for_eq) (rule px [OF that])
  qed
  show ?thesis by (rule writes_for_eq [OF raster_set row]) (use assms(1) in auto)
qed

lemma writes_chroma:
  assumes "0 < cw" "4 * cw \<le> st" "k < 4" "2 * ch * st \<le> length src" "ch * cw \<le> L"
  shows "writes L {i. i < ch * cw}
     (\<lambda>i. avg2 (src ! (i div cw * 2 * st + 4 * (i mod cw) + k)) (src ! ((i div cw * 2 + 1) * st + 4 * (i mod cw) + k)))
     (for_upto ch (\<lambda>crow. for_upto cw (\<lambda>x.
        chroma_pixel src (crow * 2 * st + 4 * x + k) (crow * 2 * st + st + 4 * x + k) (crow * cw + x))))"
proof -
  let ?g = "\<lambda>i. avg2 (src ! (i div cw * 2 * st + 4 * (i mod cw) + k)) (src ! ((i div cw * 2 + 1) * st + 4 * (i mod cw) + k))"
  have px: "writes L {r * cw + x} ?g
      (chroma_pixel src (r * 2 * st + 4 * x + k) (r * 2 * st + st + 4 * x + k) (r * cw + x))"
    if r: "r < ch" "x < cw" for r x
  proof -
    have "4 * x + 4 \<le> st" using r(2) assms(2) by simp
    then have "(r * 2 + 1) * st + (4 * x + 4) \<le> length src"
      using raster_bound [of "r * 2 + 1" "2 * ch"] r(1) assms(4) by simp
    then have s: "r * 2 * st + st + 4 * x + k < length src" using assms(3) by simp
    have "r * cw + x < L" using raster_bound [OF r(1), of "Suc x" cw L] r(2) assms(5) by simp
    then have "writes L {r * cw + x} ?g (\<lambda>s. wr s (r * cw + x)
        (avg2 (src ! (r * 2 * st + 4 * x + k)) (src ! (r * 2 * st + st + 4 * x + k))))"
      using raster_index [OF r(2), of r] by (intro writes_wr) (simp_all add: algebra_simps)
    then show ?thesis using s by (simp add: chroma_pixel_def [abs_def])
  qed
  have row: "writes L {r * cw..<r * cw + cw} ?g (for_upto cw (\<lambda>x.
      chroma_pixel src (r * 2 * st + 4 * x + k) (r * 2 * st + st + 4 * x + k) (r * cw + x)))" if "r < ch" for r
  proof -
    have "(\<Union>x<cw. {r * cw + x}) = {r * cw..<r * cw + cw}"
      using image_add_atLeastLessThan [of "r * cw" 0 cw] by (auto simp: image_iff atLeast0LessThan)
    then show ?thesis by (rule writes_for_eq) (rule px [OF that])
  qed
  have "{i. i < ch * cw \<and> i mod cw < cw} = {i. i < ch * cw}" using assms(1) by simp
  then show ?thesis using raster_set [of cw cw ch] assms(1) by (intro writes_for_eq [OF _ row]) auto
qed

lemma writes_copy:
  assumes "0 < w" "w \<le> st" "h * st \<le> length src" "h * w \<le> L"
  shows "writes L {i. i < h * w} (\<lambda>i. src ! (i div w * st + i mod w))
     (for_upto h (\<lambda>row. copy_row src (row * st) w (row * w)))"
proof -
  have row: "writes L {r * w..<r * w + w} (\<lambda>i. src ! (i div w * st + i mod w)) (copy_row src (r * st) w (r * w))"
    if r: "r < h" for r
  proof -
    have b: "r * w + w \<le> L" "r * st + w \<le> length src"
      using raster_bound [OF r] assms by auto
    let ?row = "take w (drop (r * st) src)"
    have "?row ! (i - r * w) = src ! (i div w * st + i mod w)" if "r * w \<le> i" "i < r * w + w" for i
      using that b(2) raster_index [of "i - r * w" w r] by simp
    then have "writes L {r * w..<r * w + length ?row} (\<lambda>i. src ! (i div w * st + i mod w))
        (\<lambda>s. memcpy_to s (r * w) ?row)"
      using b by (intro writes_memcpy) auto
    moreover have "length ?row = w" using b(2) by simp
    ultimately show ?thesis using b by (simp add: copy_row_def [abs_def])
  qed
  have "{i. i < h * w \<and> i mod w < w} = {i. i < h * w}" using assms(1) by simp
  then show ?thesis using raster_set [of w w h] assms(1) by (intro writes_for_eq [OF _ row]) auto
qed

section \<open>Properties\<close>

lemma yuyv_planes:
  assumes size: "2 \<le> width" "4 * (width div 2) \<le> stride" "height * stride \<le> length src"
    and planes: "height * width \<le> length y" "(height div 2) * (width div 2) \<le> length u"
      "(height div 2) * (width div 2) \<le> length v"
  shows "\<exists>y' u' v'. yuyv_to_i420 src stride y u v width height = Some (y', u', v') \<and>
     length y' = length y \<and> length u' = length u \<and> length v' = length v \<and>
     (\<forall>i < length y. y' ! i =
        (if i < height * width \<and> i mod width < 2 * (width div 2)
         then src ! (i div width * stride + 2 * (i mod width)) else y ! i)) \<and>
     (\<forall>i < length u. u' ! i =
        (if i < (height div 2) * (width div 2)
         then avg2 (src ! (i div (width div 2) * 2 * stride + 4 * (i mod (width div 2)) + 1))
                   (src ! ((i div (width div 2) * 2 + 1) * stride + 4 * (i mod (width div 2)) + 1))
         else u ! i)) \<and>
     (\<forall>i < length v. v' ! i =
        (if i < (height div 2) * (width div 2)
         then avg2 (src ! (i div (width div 2) * 2 * stride + 4 * (i mod (width div 2)) + 3))
                   (src ! ((i div (width div 2) * 2 + 1) * stride + 4 * (i mod (width div 2)) + 3))
         else v ! i))"
proof -
  let ?cw = "width div 2" and ?ch = "height div 2"
  have w: "0 < width" "0 < ?cw" using size(1) by auto
  have "2 * ?ch * stride \<le> height * stride" by (intro mult_le_mono1) simp
  from order_trans [OF this size(3)] have rows: "2 * ?ch * stride \<le> length src" .
  obtain y' where y': "for_upto height (\<lambda>row. for_upto ?cw
        (\<lambda>x. luma_pixel src (row * stride + 4 * x) (row * width + 2 * x))) y = Some y'"
    "length y' = length y"
    "\<And>i. i < length y \<Longrightarrow> y' ! i = (if i < height * width \<and> i mod width < 2 * ?cw
       then src ! (i div width * stride + 2 * (i mod width)) else y ! i)"
    using writesD [OF writes_luma [OF w(1) size(2,3) planes(1)] refl] by auto
  have plane: "\<exists>p'. for_upto ?ch (\<lambda>crow. for_upto ?cw (\<lambda>x. chroma_pixel src (crow * 2 * stride + 4 * x + k)
        (crow * 2 * stride + stride + 4 * x + k) (crow * ?cw + x))) p = Some p' \<and> length p' = length p \<and>
      (\<forall>i < length p. p' ! i = (if i < ?ch * ?cw
         then avg2 (src ! (i div ?cw * 2 * stride + 4 * (i mod ?cw) + k))
                   (src ! ((i div ?cw * 2 + 1) * stride + 4 * (i mod ?cw) + k)) else p ! i))"
    if "k < 4" "?ch * ?cw \<le> length p" for k and p :: bytes
    by (rule writesD [OF writes_chroma [OF w(2) size(2) that(1) rows that(2)] refl]) auto
  from plane [of 1 u] plane [of 3 v] planes(2,3) y' show ?thesis
    by (fastforce simp: yuyv_to_i420_def for_upto_pair Let_def)
qed

text \<open>
  Converting a packed YUYV picture never leaves the source or destination buffers when
  they have the sizes the header asks for, and it is the exact conversion: every luma sample
  is copied to its raster position, every chroma sample is the rounded mean of the two source
  rows it covers, and no other byte of the planes (the last column of an odd width, padding
  behind the picture) is written.
\<close>

theorem yuyv_to_i420_correct:
  assumes size: "2 \<le> width" "4 * (width div 2) \<le> stride" "height * stride \<le> length src"
    and planes: "height * width \<le> length y" "(height div 2) * (width div 2) \<le> length u"
      "(height div 2) * (width div 2) \<le> length v"
  shows "\<exists>y' u' v'. yuyv_to_i420 src stride y u v width height = Some (y', u', v') \<and>
     length y' = length y \<and> length u' = length u \<and> length v' = length v \<and>
     (\<forall>i < length y. y' ! i =
        (if i < height * width \<and> i mod width < 2 * (width div 2)
         then src ! (i div width * stride + 2 * (i mod width)) else y ! i)) \<and>
     (\<forall>i < length u. u' ! i =
        (if i < (height div 2) * (width div 2)
         then avg2 (src ! (i div (width div 2) * 2 * stride + 4 * (i mod (width div 2)) + 1))
                   (src ! ((i div (width div 2) * 2 + 1) * stride + 4 * (i mod (width div 2)) + 1))
         else u ! i)) \<and>
     (\<forall>i < length v. v' ! i =
        (if i < (height div 2) * (width div 2)
         then avg2 (src ! (i div (width div 2) * 2 * stride + 4 * (i mod (width div 2)) + 3))
                   (src ! ((i div (width div 2) * 2 + 1) * stride + 4 * (i mod (width div 2)) + 3))
         else v ! i))"
  by (rule yuyv_planes [OF assms])

theorem yuyv_to_i420_witness:
  "\<exists>y' u' v'. yuyv_to_i420 [16, 100, 32, 200, 48, 103, 64, 201] 4 [0, 0, 0, 0, 9] [0] [0] 2 2 = Some (y', u', v') \<and>
     y' = [16, 32, 48, 64, 9] \<and> unat (u' ! 0) = 102 \<and> unat (v' ! 0) = 201"
proof -
  obtain y' u' v' where r: "yuyv_to_i420 [16, 100, 32, 200, 48, 103, 64, 201] 4 [0, 0, 0, 0, 9] [0] [0] 2 2 = Some (y', u', v')"
    "length y' = 5" "\<forall>i < 5. y' ! i = (if i < 4 \<and> i mod 2 < (2 :: nat)
       then [16, 100, 32, 200, 48, 103, 64, 201] ! (i div 2 * 4 + 2 * (i mod 2)) else [0, 0, 0, 0, 9] ! i)"
    "u' ! 0 = avg2 100 103" "v' ! 0 = avg2 200 201"
    using yuyv_to_i420_correct [of 2 4 2 "[16, 100, 32, 200, 48, 103, 64, 201]" "[0, 0, 0, 0, 9]" "[0]" "[0]"]
    by auto
  have "y' = [y' ! 0, y' ! 1, y' ! 2, y' ! 3, y' ! 4]"
    using r(2) by (auto simp: length_Suc_conv numeral_eq_Suc)
  moreover have "y' ! 0 = 16" "y' ! 1 = 32" "y' ! 2 = 48" "y' ! 3 = 64" "y' ! 4 = 9"
    using r(3) by simp_all
  ultimately show ?thesis using r by (simp add: avg2_eq)
qed

text \<open>
  The planar copy is memory safe on planes of the documented sizes and removes exactly
  the stride: every sample lands at its raster position and nothing else is written.
\<close>

theorem i420_copy_correct:
  assumes size: "2 \<le> width" "width \<le> stride" "height * stride \<le> length sy"
      "(height div 2) * (stride div 2) \<le> length su" "(height div 2) * (stride div 2) \<le> length sv"
    and planes: "height * width \<le> length y" "(height div 2) * (width div 2) \<le> length u"
      "(height div 2) * (width div 2) \<le> length v"
  shows "\<exists>y' u' v'. i420_copy sy stride su sv y u v width height = Some (y', u', v') \<and>
     length y' = length y \<and> length u' = length u \<and> length v' = length v \<and>
     (\<forall>i < length y. y' ! i =
        (if i < height * width then sy ! (i div width * stride + i mod width) else y ! i)) \<and>
     (\<forall>i < length u. u' ! i = (if i < (height div 2) * (width div 2)
        then su ! (i div (width div 2) * (stride div 2) + i mod (width div 2)) else u ! i)) \<and>
     (\<forall>i < length v. v' ! i = (if i < (height div 2) * (width div 2)
        then sv ! (i div (width div 2) * (stride div 2) + i mod (width div 2)) else v ! i))"
proof -
  have plane: "\<exists>p'. for_upto h (\<lambda>row. copy_row s (row * st) w (row * w)) p = Some p' \<and> length p' = length p \<and>
      (\<forall>i < length p. p' ! i = (if i < h * w then s ! (i div w * st + i mod w) else p ! i))"
    if "0 < w" "w \<le> st" "h * st \<le> length s" "h * w \<le> length p" for h w st and s p :: bytes
    by (rule writesD [OF writes_copy [OF that] refl]) auto
  have "0 < width" "0 < width div 2" "width div 2 \<le> stride div 2" using size by (auto intro: div_le_mono)
  with plane [of width stride height sy y] plane [of "width div 2" "stride div 2" "height div 2" su u]
    plane [of "width div 2" "stride div 2" "height div 2" sv v] assms
  show ?thesis by (fastforce simp: i420_copy_def for_upto_pair Let_def)
qed

theorem i420_copy_witness:
  "\<exists>y' u' v'. i420_copy [1, 2, 99, 99, 3, 4, 99, 99] 4 [5, 99] [6, 99] [0, 0, 0, 0] [0] [0] 2 2 = Some (y', u', v') \<and>
     y' = [1, 2, 3, 4] \<and> u' = [5] \<and> v' = [6]"
proof -
  obtain y' u' v' where r: "i420_copy [1, 2, 99, 99, 3, 4, 99, 99] 4 [5, 99] [6, 99] [0, 0, 0, 0] [0] [0] 2 2 = Some (y', u', v')"
    "length y' = 4" "length u' = 1" "length v' = 1"
    "\<forall>i < 4. y' ! i = (if i < 4 then [1, 2, 99, 99, 3, 4, 99, 99] ! (i div 2 * 4 + i mod 2) else [0, 0, 0, 0] ! i)"
    "u' ! 0 = 5" "v' ! 0 = 6"
    using i420_copy_correct [of 2 4 2 "[1, 2, 99, 99, 3, 4, 99, 99]" "[5, 99]" "[6, 99]" "[0, 0, 0, 0]" "[0]" "[0]"]
    by auto
  have "y' = [y' ! 0, y' ! 1, y' ! 2, y' ! 3]" "u' = [u' ! 0]" "v' = [v' ! 0]"
    using r(2-4) by (auto simp: length_Suc_conv numeral_eq_Suc)
  moreover have "y' ! 0 = 1" "y' ! 1 = 2" "y' ! 2 = 3" "y' ! 3 = 4" using r(5) by simp_all
  ultimately show ?thesis using r by simp
qed

end
