(* ===== verification/C_String.thy ===== *)
theory C_String
  imports Cam_Prelude "HOL-Library.Sublist"
begin

text \<open>
  The C library's string functions that the text parsers use, on \<open>string\<close> values: a C string
  is the list of its characters before the terminator, a suffix of it is a pointer into it, and
  a store into an array of \<open>n\<close> characters truncates explicitly (\<open>fit n\<close>). \<open>atoi\<close> and
  \<open>strtoul\<close> follow glibc: out of range values are clamped to 64 bits and then cut to the width
  of the result.
\<close>

definition CR :: char where "CR = CHR 0x0D"
definition LF :: char where "LF = CHR 0x0A"
definition NUL :: char where "NUL = CHR 0x00"
definition crlf :: string where "crlf = [CR, LF]"

text \<open>What an array of \<open>n\<close> characters keeps of \<open>s\<close>.\<close>

definition fit :: "nat \<Rightarrow> string \<Rightarrow> string" where
  "fit n s = take (n - 1) s"

text \<open>The C string that starts at the front of a character array.\<close>

definition c_str :: "string \<Rightarrow> string" where
  "c_str s = takeWhile (\<lambda>c. c \<noteq> NUL) s"

definition strcspn :: "string \<Rightarrow> char list \<Rightarrow> nat" where
  "strcspn s reject = length (takeWhile (\<lambda>c. c \<notin> set reject) s)"

definition strchr :: "string \<Rightarrow> char \<Rightarrow> string option" where
  "strchr s c = (case dropWhile (\<lambda>x. x \<noteq> c) s of [] \<Rightarrow> None | r \<Rightarrow> Some r)"

fun strstr :: "string \<Rightarrow> string \<Rightarrow> bool" where
  "strstr [] needle = (needle = [])"
| "strstr (c # s) needle = (prefix needle (c # s) \<or> strstr s needle)"

definition isspace :: "char \<Rightarrow> bool" where
  "isspace c \<longleftrightarrow> c \<in> {CHR '' '', CHR 0x09, CHR 0x0A, CHR 0x0B, CHR 0x0C, CHR 0x0D}"

definition isdigit :: "char \<Rightarrow> bool" where
  "isdigit c \<longleftrightarrow> 48 \<le> (of_char c :: nat) \<and> (of_char c :: nat) \<le> 57"

definition digit_val :: "char \<Rightarrow> nat" where
  "digit_val c = of_char c - 48"

definition xdigit_val :: "char \<Rightarrow> nat option" where
  "xdigit_val c =
     (let n = (of_char c :: nat) in
      if 48 \<le> n \<and> n \<le> 57 then Some (n - 48)
      else if 97 \<le> n \<and> n \<le> 102 then Some (n - 87)
      else if 65 \<le> n \<and> n \<le> 70 then Some (n - 55)
      else None)"

fun digits_val :: "string \<Rightarrow> nat \<Rightarrow> nat" where
  "digits_val [] acc = acc"
| "digits_val (c # s) acc = (if isdigit c then digits_val s (10 * acc + digit_val c) else acc)"

fun xdigits_val :: "string \<Rightarrow> nat \<Rightarrow> nat" where
  "xdigits_val [] acc = acc"
| "xdigits_val (c # s) acc = (case xdigit_val c of None \<Rightarrow> acc | Some d \<Rightarrow> xdigits_val s (16 * acc + d))"

text \<open>An optional sign.\<close>

definition sign :: "string \<Rightarrow> bool \<times> string" where
  "sign s = (case s of [] \<Rightarrow> (False, s)
     | c # r \<Rightarrow> if c = CHR ''-'' then (True, r) else if c = CHR ''+'' then (False, r) else (False, s))"

definition strtol10 :: "string \<Rightarrow> int" where
  "strtol10 s =
     (let (neg, r) = sign (dropWhile isspace s);
          v = int (digits_val r 0);
          v = (if neg then - v else v)
      in max (- (2 ^ 63)) (min (2 ^ 63 - 1) v))"

definition atoi :: "string \<Rightarrow> int" where
  "atoi s = sint (of_int (strtol10 s) :: 32 word)"

text \<open>\<open>strtoul(s, NULL, 16)\<close>\<close>

definition strtoul16 :: "string \<Rightarrow> u64" where
  "strtoul16 s =
     (let (neg, r) = sign (dropWhile isspace s);
          hex = (case r of a # b # c # _ \<Rightarrow> a = CHR ''0'' \<and> b \<in> {CHR ''x'', CHR ''X''} \<and> xdigit_val c \<noteq> None | _ \<Rightarrow> False);
          v = xdigits_val (if hex then drop 2 r else r) 0
      in if v \<ge> 2 ^ 64 then - 1
         else if neg then - of_nat v else of_nat v)"

text \<open>\<open>%u\<close> and \<open>%d\<close>\<close>

fun show_nat :: "nat \<Rightarrow> string" where
  "show_nat n = (if n < 10 then [char_of (48 + n)] else show_nat (n div 10) @ [char_of (48 + n mod 10)])"

declare show_nat.simps [simp del]

definition show_int :: "int \<Rightarrow> string" where
  "show_int i = (if i < 0 then CHR ''-'' # show_nat (nat (- i)) else show_nat (nat i))"

text \<open>Character classes and case, in the C locale; \<open>strcaseeq\<close> is \<open>strcasecmp(a, b) == 0\<close>.\<close>

definition isalpha :: "char \<Rightarrow> bool" where
  "isalpha c \<longleftrightarrow> (let n = (of_char c :: nat) in 65 \<le> n \<and> n \<le> 90 \<or> 97 \<le> n \<and> n \<le> 122)"

definition isalnum :: "char \<Rightarrow> bool" where
  "isalnum c \<longleftrightarrow> isalpha c \<or> isdigit c"

definition isxdigit :: "char \<Rightarrow> bool" where
  "isxdigit c \<longleftrightarrow> xdigit_val c \<noteq> None"

definition toupper :: "char \<Rightarrow> char" where
  "toupper c = (let n = (of_char c :: nat) in if 97 \<le> n \<and> n \<le> 122 then char_of (n - 32) else c)"

definition tolower :: "char \<Rightarrow> char" where
  "tolower c = (let n = (of_char c :: nat) in if 65 \<le> n \<and> n \<le> 90 then char_of (n + 32) else c)"

definition strcaseeq :: "string \<Rightarrow> string \<Rightarrow> bool" where
  "strcaseeq a b \<longleftrightarrow> map tolower (c_str a) = map tolower (c_str b)"

fun split_on :: "char \<Rightarrow> string \<Rightarrow> string list" where
  "split_on sep [] = [[]]"
| "split_on sep (c # s) =
     (if c = sep then [] # split_on sep s
      else case split_on sep s of t # ts \<Rightarrow> (c # t) # ts | [] \<Rightarrow> [[c]])"

text \<open>\<open>inet_pton(AF_INET, ...)\<close>: four decimal octets without leading zeros.\<close>

definition inet_pton4 :: "string \<Rightarrow> bool" where
  "inet_pton4 s \<longleftrightarrow>
     (let parts = split_on (CHR ''.'') s in
      length parts = 4 \<and>
      list_all (\<lambda>p. p \<noteq> [] \<and> list_all isdigit p \<and> (hd p = CHR ''0'' \<longrightarrow> length p = 1) \<and> digits_val p 0 \<le> 255) parts)"

text \<open>The four bytes that \<open>inet_pton\<close> stores, in network order.\<close>

definition inet_pton :: "string \<Rightarrow> bytes option" where
  "inet_pton s = (if inet_pton4 s then Some (map (\<lambda>p. of_nat (digits_val p 0)) (split_on (CHR ''.'') s)) else None)"

section \<open>Lemmas\<close>

lemma length_fit: "0 < n \<Longrightarrow> length (fit n s) < n"
  by (auto simp: fit_def)

lemma set_fit: "set (fit n s) \<subseteq> set s"
  by (auto simp: fit_def dest: in_set_takeD)

lemma fit_id: "length s < n \<Longrightarrow> fit n s = s"
  by (simp add: fit_def)

lemma set_dropWhile_subset: "set (dropWhile P s) \<subseteq> set s"
  using set_dropWhileD by fast

lemma set_takeWhile_subset: "set (takeWhile P s) \<subseteq> set s"
  using set_takeWhileD by fast

lemma set_c_str: "set (c_str s) \<subseteq> set s" "NUL \<notin> set (c_str s)"
  by (auto simp: c_str_def dest: set_takeWhileD)

lemma digit_char: "n < 10 \<Longrightarrow> isdigit (char_of (48 + n)) \<and> digit_val (char_of (48 + n)) = n"
  by (simp add: isdigit_def digit_val_def)

lemma show_nat_digits: "c \<in> set (show_nat n) \<Longrightarrow> isdigit c"
proof (induction n rule: show_nat.induct)
  case (1 n)
  have "isdigit (char_of (48 + n mod 10))" "n < 10 \<Longrightarrow> isdigit (char_of (48 + n))"
    using digit_char [of "n mod 10"] digit_char [of n] by simp_all
  with 1 show ?case by (subst (asm) show_nat.simps) (auto split: if_splits)
qed

lemma digits_val_append:
  assumes "\<forall>c \<in> set xs. isdigit c"
  shows "digits_val (xs @ ys) acc = digits_val ys (digits_val xs acc)"
  using assms by (induction xs arbitrary: acc) auto

lemma digits_val_show_nat: "digits_val (show_nat n) 0 = n"
proof (induction n rule: show_nat.induct)
  case (1 n)
  show ?case
  proof (cases "n < 10")
    case True
    then show ?thesis using digit_char [of n] by (subst show_nat.simps) simp
  next
    case False
    have "digits_val (show_nat (n div 10) @ [char_of (48 + n mod 10)]) 0 = 10 * (n div 10) + n mod 10"
      using False 1 digit_char [of "n mod 10"] show_nat_digits by (subst digits_val_append) auto
    then show ?thesis using False by (subst show_nat.simps) simp
  qed
qed

lemma show_nat_nonempty: "show_nat n \<noteq> []"
  by (subst show_nat.simps) simp

text \<open>Printing and reading back a decimal number.\<close>

lemma atoi_show_nat:
  assumes "n < 2 ^ 31" "rest = [] \<or> \<not> isdigit (hd rest)"
  shows "atoi (show_nat n @ rest) = int n"
proof -
  obtain c s where cs: "show_nat n = c # s" using show_nat_nonempty by (cases "show_nat n") auto
  then have "isdigit c" using show_nat_digits [of c n] by simp
  then have c: "\<not> isspace c" "c \<noteq> CHR ''-''" "c \<noteq> CHR ''+''"
    by (auto simp: isdigit_def isspace_def)
  have "digits_val (show_nat n @ rest) 0 = n"
    using assms(2) show_nat_digits digits_val_show_nat
    by (cases rest) (auto simp: digits_val_append)
  then have "strtol10 (show_nat n @ rest) = int n"
    using assms(1) cs c by (simp add: strtol10_def sign_def)
  moreover have "sint (of_int (int n) :: 32 word) = int n"
    using assms(1) by (simp add: signed_of_int signed_take_bit_int_eq_self del: of_int_of_nat_eq)
  ultimately show ?thesis by (simp add: atoi_def)
qed

end
