(* ===== verification/Lp_Sdp.thy ===== *)
theory Lp_Sdp
  imports C_String
begin

text \<open>
  Validation of the browser's SDP answer before it reaches libpeer
  (\<open>src/src/lpstream/lp_sdp.c\<close>): every rule of the sanitizer, the candidate filter with its
  field checks, and the bounded output buffer. \<open>Inl\<close> is a rejected answer with its reason: what the code has written to
  \<open>out\<close> and \<open>info\<close> until then is left out, its caller discards it.
\<close>

section \<open>Data\<close>

definition LP_SDP_MAX_INPUT :: nat where "LP_SDP_MAX_INPUT = 16384"
definition LP_SDP_MAX_LINE :: nat where "LP_SDP_MAX_LINE = 250"
definition LP_SDP_MAX_CANDIDATES :: nat where "LP_SDP_MAX_CANDIDATES = 8"
definition LP_FOUNDATION_MAX :: nat where "LP_FOUNDATION_MAX = 32"
definition LP_ADDRESS_MAX :: nat where "LP_ADDRESS_MAX = 45"
definition LP_UFRAG_MAX :: nat where "LP_UFRAG_MAX = 64"
definition LP_PWD_MAX :: nat where "LP_PWD_MAX = 128"
definition LP_FINGERPRINT_LENGTH :: nat where "LP_FINGERPRINT_LENGTH = 95"

lemmas lp_consts = LP_SDP_MAX_INPUT_def LP_SDP_MAX_LINE_def LP_SDP_MAX_CANDIDATES_def LP_FOUNDATION_MAX_def
  LP_ADDRESS_MAX_def LP_UFRAG_MAX_def LP_PWD_MAX_def LP_FINGERPRINT_LENGTH_def

definition LP_FINGERPRINT_PREFIX :: string where "LP_FINGERPRINT_PREFIX = ''a=fingerprint:sha-256 ''"

record Out =
  o_text :: string
  o_size :: nat
  o_overflow :: bool

record LpSdpAnswerInfo =
  candidates_kept :: nat
  candidates_dropped :: nat
  mdns_candidates :: nat

record LpState =
  out :: Out
  info :: LpSdpAnswerInfo
  have_version :: bool
  have_ufrag :: bool
  have_pwd :: bool
  have_fingerprint :: bool
  have_video :: bool
  setup_active :: bool

datatype LpError =
    NoAnswer | EmptyAnswer | TooLarge nat | LineTooLong nat nat | ControlChar nat
  | BadUfrag | BadPwd | BadFingerprint | NotActive | VideoRejected
  | NoVersion | NoVideo | NoCredentials | NoFingerprint | NoSetup | NoCandidate nat | DoesNotFit nat

section \<open>Character classes and field checks\<close>

definition out_line :: "string \<Rightarrow> Out \<Rightarrow> Out" where
  "out_line line o1 =
     (if o_overflow o1 \<or> length (o_text o1) + length line + 3 > o_size o1 then o1\<lparr>o_overflow := True\<rparr>
      else o1\<lparr>o_text := o_text o1 @ line @ crlf\<rparr>)"

definition all_digits :: "string \<Rightarrow> nat \<Rightarrow> bool" where
  "all_digits s max_digits \<longleftrightarrow> \<not> (length s = 0 \<or> length s > max_digits) \<and> list_all isdigit s"

definition ice_char :: "char \<Rightarrow> bool" where
  "ice_char c \<longleftrightarrow> isalnum c \<or> c = CHR ''+'' \<or> c = CHR ''/''"

definition valid_ice_token :: "string \<Rightarrow> nat \<Rightarrow> bool" where
  "valid_ice_token v m \<longleftrightarrow> \<not> (length v = 0 \<or> length v > m) \<and> list_all ice_char v"

definition valid_mdns_name :: "string \<Rightarrow> bool" where
  "valid_mdns_name name \<longleftrightarrow>
     \<not> (length name \<le> 6 \<or> length name > LP_ADDRESS_MAX \<or> drop (length name - 6) name \<noteq> ''.local'') \<and>
     list_all (\<lambda>c. isalnum c \<or> c = CHR ''-'' \<or> c = CHR ''.'') name"

text \<open>The tokens that \<open>strtok_r\<close> yields for a one character separator.\<close>

definition strtok :: "char \<Rightarrow> string \<Rightarrow> string list" where
  "strtok sep s = filter (\<lambda>t. t \<noteq> []) (split_on sep s)"

text \<open>\<open>None\<close>: drop the candidate; \<open>Some is_mdns\<close>: keep it.\<close>

definition usable_candidate :: "string \<Rightarrow> bool option" where
  "usable_candidate line =
     (let fields = strtok (CHR '' '') (drop 12 line) in
      if length fields < 8 then None
      else
        (let foundation = fields ! 0; component = fields ! 1; transport = fields ! 2; priority = fields ! 3;
             address = fields ! 4; port = fields ! 5; typ = fields ! 6; type = fields ! 7 in
         if \<not> valid_ice_token foundation LP_FOUNDATION_MAX \<or>
            component \<noteq> ''1'' \<or>
            (transport \<noteq> ''udp'' \<and> transport \<noteq> ''UDP'') \<or>
            \<not> all_digits priority 10 \<or> digits_val priority 0 > 0xFFFFFFFF \<or>
            \<not> all_digits port 5 \<or> digits_val port 0 = 0 \<or>
            digits_val port 0 > 65535 \<or> typ \<noteq> ''typ'' \<or>
            (type \<noteq> ''host'' \<and> type \<noteq> ''srflx'' \<and> type \<noteq> ''relay'')
         then None
         else if length address \<le> LP_ADDRESS_MAX \<and> inet_pton4 address then Some False
         else if valid_mdns_name address then Some True
         else None))"

definition valid_fingerprint :: "string \<Rightarrow> bool" where
  "valid_fingerprint v \<longleftrightarrow>
     length v = LP_FINGERPRINT_LENGTH \<and>
     list_all (\<lambda>(i, c). if i mod 3 = 2 then c = CHR '':'' else isxdigit c) (zip [0..<length v] v)"

section \<open>The sanitizer\<close>

definition control_char :: "char \<Rightarrow> bool" where
  "control_char c \<longleftrightarrow> (of_char c :: nat) < 32 \<and> c \<noteq> CHR 0x09"

definition emit_line :: "string \<Rightarrow> LpState \<Rightarrow> LpState" where
  "emit_line line st = st\<lparr>out := out_line line (out st)\<rparr>"

text \<open>One line of the answer, from the length check to \<open>out_line\<close>.\<close>

definition sanitize_line :: "nat \<Rightarrow> string \<Rightarrow> LpState \<Rightarrow> LpError + LpState" where
  "sanitize_line line_number line st =
     (if length line > LP_SDP_MAX_LINE then Inl (LineTooLong line_number (length line))
      else if list_ex control_char line then Inl (ControlChar line_number)
      else if prefix ''v=0'' line then Inr (emit_line line (st\<lparr>have_version := True\<rparr>))
      else if prefix ''a=ice-ufrag:'' line then
        (if \<not> valid_ice_token (drop 12 line) LP_UFRAG_MAX then Inl BadUfrag
         else Inr (emit_line line (st\<lparr>have_ufrag := True\<rparr>)))
      else if prefix ''a=ice-pwd:'' line then
        (if \<not> valid_ice_token (drop 10 line) LP_PWD_MAX then Inl BadPwd
         else Inr (emit_line line (st\<lparr>have_pwd := True\<rparr>)))
      else if prefix ''a=fingerprint:'' line then
        (if \<not> prefix LP_FINGERPRINT_PREFIX line \<or> \<not> valid_fingerprint (drop 22 line) then Inl BadFingerprint
         else Inr ((emit_line (take 22 line @ map toupper (drop 22 line)) st)\<lparr>have_fingerprint := True\<rparr>))
      else if prefix ''a=setup:'' line then
        (if \<not> prefix ''a=setup:active'' line then Inl NotActive
         else Inr (emit_line line (st\<lparr>setup_active := True\<rparr>)))
      else if prefix ''m=video '' line then
        (if prefix ''m=video 0 '' line then Inl VideoRejected
         else Inr (emit_line line (st\<lparr>have_video := True\<rparr>)))
      else if prefix ''a=candidate:'' line then
        (let i = info st in
         case (if candidates_kept i \<ge> LP_SDP_MAX_CANDIDATES then None else usable_candidate line) of
           None \<Rightarrow> Inr (st\<lparr>info := i\<lparr>candidates_dropped := candidates_dropped i + 1\<rparr>\<rparr>)
         | Some is_mdns \<Rightarrow>
             Inr (emit_line line (st\<lparr>info := i\<lparr>candidates_kept := candidates_kept i + 1,
               mdns_candidates := mdns_candidates i + (if is_mdns then 1 else 0)\<rparr>\<rparr>)))
      else Inr (emit_line line st))"

definition strip_cr :: "string \<Rightarrow> string" where
  "strip_cr s = (if s \<noteq> [] \<and> last s = CR then butlast s else s)"

function sanitize_loop :: "nat \<Rightarrow> string \<Rightarrow> LpState \<Rightarrow> LpError + LpState" where
  "sanitize_loop line_number cursor st =
     (if cursor = [] then Inr st
      else
        (let raw = takeWhile (\<lambda>c. c \<noteq> LF) cursor;
             next = drop (length raw + 1) cursor;
             line = strip_cr raw
         in if line = [] then sanitize_loop (line_number + 1) next st
            else case sanitize_line (line_number + 1) line st of
              Inl e \<Rightarrow> Inl e
            | Inr st \<Rightarrow> sanitize_loop (line_number + 1) next st))"
  by pat_completeness auto
termination
  by (relation "measure (\<lambda>(n, cursor, st). length cursor)") auto

declare sanitize_loop.simps [simp del]

definition zero_info :: LpSdpAnswerInfo where
  "zero_info = \<lparr>candidates_kept = 0, candidates_dropped = 0, mdns_candidates = 0\<rparr>"

definition start_state :: "nat \<Rightarrow> LpState" where
  "start_state out_size = \<lparr>out = \<lparr>o_text = [], o_size = out_size, o_overflow = False\<rparr>, info = zero_info,
     have_version = False, have_ufrag = False, have_pwd = False, have_fingerprint = False, have_video = False,
     setup_active = False\<rparr>"

definition final_checks :: "nat \<Rightarrow> LpState \<Rightarrow> LpError + LpState" where
  "final_checks out_size st =
     (if \<not> have_version st then Inl NoVersion
      else if \<not> have_video st then Inl NoVideo
      else if \<not> have_ufrag st \<or> \<not> have_pwd st then Inl NoCredentials
      else if \<not> have_fingerprint st then Inl NoFingerprint
      else if \<not> setup_active st then Inl NoSetup
      else if candidates_kept (info st) = 0 then Inl (NoCandidate (candidates_dropped (info st)))
      else if o_overflow (out st) then Inl (DoesNotFit out_size)
      else Inr st)"

text \<open>The result of success is the output text and the counters.\<close>

definition lp_sdp_sanitize_answer ::
  "string option \<Rightarrow> nat option \<Rightarrow> LpError + (string \<times> LpSdpAnswerInfo)" where
  "lp_sdp_sanitize_answer answer out_buffer =
     (case (answer, out_buffer) of
        (Some a, Some out_size) \<Rightarrow>
          if out_size = 0 then Inl NoAnswer
          else if length a = 0 then Inl EmptyAnswer
          else if length a > LP_SDP_MAX_INPUT then Inl (TooLarge (length a))
          else (case sanitize_loop 0 a (start_state out_size) of
              Inl e \<Rightarrow> Inl e
            | Inr st \<Rightarrow> (case final_checks out_size st of
                Inl e \<Rightarrow> Inl e
              | Inr st \<Rightarrow> Inr (o_text (out st), info st)))
      | _ \<Rightarrow> Inl NoAnswer)"

text \<open>\<open>fail\<close>: the reason as the caller reads it from a buffer of \<open>error_size\<close> characters.\<close>

definition reason :: "LpError \<Rightarrow> nat \<Rightarrow> string" where
  "reason e error_size = fit error_size (case e of
       NoAnswer \<Rightarrow> ''no answer''
     | EmptyAnswer \<Rightarrow> ''empty answer''
     | TooLarge n \<Rightarrow> ''answer too large ('' @ show_nat n @ '' bytes, limit 16384)''
     | LineTooLong k n \<Rightarrow> ''line '' @ show_nat k @ '' is '' @ show_nat n @ '' bytes long (limit 250)''
     | ControlChar k \<Rightarrow> ''line '' @ show_nat k @ '' contains a control character''
     | BadUfrag \<Rightarrow> ''invalid a=ice-ufrag''
     | BadPwd \<Rightarrow> ''invalid a=ice-pwd''
     | BadFingerprint \<Rightarrow> ''the DTLS fingerprint must be sha-256 ('' @ [CHR 0x22] @ ''a=fingerprint:sha-256 AB:CD:...'' @ [CHR 0x22] @ '')''
     | NotActive \<Rightarrow> ''the answer must take the DTLS client role (a=setup:active)''
     | VideoRejected \<Rightarrow> ''the browser rejected the video stream (H.264 not supported?)''
     | NoVersion \<Rightarrow> ''not an SDP document (no v=0)''
     | NoVideo \<Rightarrow> ''the answer has no video stream''
     | NoCredentials \<Rightarrow> ''the answer has no ICE credentials''
     | NoFingerprint \<Rightarrow> ''the answer has no DTLS fingerprint''
     | NoSetup \<Rightarrow> ''the answer has no a=setup:active''
     | NoCandidate n \<Rightarrow> ''the answer has no usable ICE candidate (need UDP over IPv4 or an mDNS .local host; '' @
         show_nat n @ '' dropped). Send the answer after ICE gathering completes''
     | DoesNotFit n \<Rightarrow> ''answer does not fit the '' @ show_nat n @ '' byte buffer'')"

section \<open>The contract of the sanitizer\<close>

text \<open>
  The reference reading of an answer: its lines, which of them are acceptable, and what the
  output keeps of them.
\<close>

definition input_lines :: "string \<Rightarrow> string list" where
  "input_lines a = filter (\<lambda>l. l \<noteq> []) (map strip_cr (split_on LF a))"

definition is_candidate :: "string \<Rightarrow> bool" where
  "is_candidate l \<longleftrightarrow> prefix ''a=candidate:'' l"

definition acceptable :: "string \<Rightarrow> bool" where
  "acceptable l \<longleftrightarrow>
     length l \<le> LP_SDP_MAX_LINE \<and> \<not> list_ex control_char l \<and>
     (prefix ''a=ice-ufrag:'' l \<longrightarrow> valid_ice_token (drop 12 l) LP_UFRAG_MAX) \<and>
     (prefix ''a=ice-pwd:'' l \<longrightarrow> valid_ice_token (drop 10 l) LP_PWD_MAX) \<and>
     (prefix ''a=fingerprint:'' l \<longrightarrow> prefix LP_FINGERPRINT_PREFIX l \<and> valid_fingerprint (drop 22 l)) \<and>
     (prefix ''a=setup:'' l \<longrightarrow> prefix ''a=setup:active'' l) \<and>
     (prefix ''m=video '' l \<longrightarrow> \<not> prefix ''m=video 0 '' l)"

definition canonical :: "string \<Rightarrow> string" where
  "canonical l = (if prefix ''a=fingerprint:'' l then take 22 l @ map toupper (drop 22 l) else l)"

fun keep_lines :: "nat \<Rightarrow> string list \<Rightarrow> string list" where
  "keep_lines k [] = []"
| "keep_lines k (l # ls) =
     (if is_candidate l then
        if k < LP_SDP_MAX_CANDIDATES \<and> usable_candidate l \<noteq> None then l # keep_lines (k + 1) ls else keep_lines k ls
      else canonical l # keep_lines k ls)"

definition crlf_text :: "string list \<Rightarrow> string" where
  "crlf_text ls = concat (map (\<lambda>l. l @ crlf) ls)"

definition count :: "(string \<Rightarrow> bool) \<Rightarrow> string list \<Rightarrow> nat" where
  "count P ls = length (filter P ls)"

definition mdns_line :: "string \<Rightarrow> bool" where
  "mdns_line l \<longleftrightarrow> is_candidate l \<and> usable_candidate l = Some True"

text \<open>What an acceptable line does to the state.\<close>

definition kept_line :: "LpState \<Rightarrow> string \<Rightarrow> bool" where
  "kept_line st l \<longleftrightarrow>
     \<not> is_candidate l \<or> candidates_kept (info st) < LP_SDP_MAX_CANDIDATES \<and> usable_candidate l \<noteq> None"

definition count_line :: "LpState \<Rightarrow> string \<Rightarrow> LpSdpAnswerInfo" where
  "count_line st l =
     (let i = info st in
      if \<not> is_candidate l then i
      else if kept_line st l then i\<lparr>candidates_kept := candidates_kept i + 1,
        mdns_candidates := mdns_candidates i + (if usable_candidate l = Some True then 1 else 0)\<rparr>
      else i\<lparr>candidates_dropped := candidates_dropped i + 1\<rparr>)"

definition apply_line :: "LpState \<Rightarrow> string \<Rightarrow> LpState" where
  "apply_line st l =
     \<lparr>out = (if kept_line st l then out_line (canonical l) (out st) else out st), info = count_line st l,
      have_version = (have_version st \<or> prefix ''v=0'' l),
      have_ufrag = (have_ufrag st \<or> prefix ''a=ice-ufrag:'' l),
      have_pwd = (have_pwd st \<or> prefix ''a=ice-pwd:'' l),
      have_fingerprint = (have_fingerprint st \<or> prefix ''a=fingerprint:'' l),
      have_video = (have_video st \<or> prefix ''m=video '' l),
      setup_active = (setup_active st \<or> prefix ''a=setup:'' l)\<rparr>"

definition succeeded :: "'e + 'a \<Rightarrow> 'a option" where
  "succeeded r = (case r of Inl e \<Rightarrow> None | Inr x \<Rightarrow> Some x)"

lemma succeeded_simps [simp]: "succeeded (Inl e) = None" "succeeded (Inr x) = Some x"
  by (simp_all add: succeeded_def)

lemma succeeded_Some: "succeeded r = Some x \<longleftrightarrow> r = Inr x"
  by (cases r) simp_all

lemma state_cong:
  fixes s t :: LpState
  assumes "out s = out t" "info s = info t" "have_version s = have_version t" "have_ufrag s = have_ufrag t"
    "have_pwd s = have_pwd t" "have_fingerprint s = have_fingerprint t" "have_video s = have_video t"
    "setup_active s = setup_active t"
  shows "s = t"
  using assms by simp

lemma sanitize_line_spec:
  "succeeded (sanitize_line k l st) = (if acceptable l then Some (apply_line st l) else None)"
proof -
  note defs = sanitize_line_def acceptable_def apply_line_def emit_line_def count_line_def kept_line_def
    is_candidate_def canonical_def
  consider (long) "length l > LP_SDP_MAX_LINE \<or> list_ex control_char l"
    | (ok) "\<not> length l > LP_SDP_MAX_LINE" "\<not> list_ex control_char l" by blast
  then show ?thesis
  proof cases
    case long then show ?thesis by (auto simp: sanitize_line_def acceptable_def)
  next
    case ok
    consider (v) z where "l = ''v=0'' @ z" | (u) z where "l = ''a=ice-ufrag:'' @ z"
      | (p) z where "l = ''a=ice-pwd:'' @ z" | (f) z where "l = ''a=fingerprint:'' @ z"
      | (s) z where "l = ''a=setup:'' @ z" | (m) z where "l = ''m=video '' @ z"
      | (c) z where "l = ''a=candidate:'' @ z"
      | (none) "\<not> prefix ''v=0'' l" "\<not> prefix ''a=ice-ufrag:'' l" "\<not> prefix ''a=ice-pwd:'' l"
          "\<not> prefix ''a=fingerprint:'' l" "\<not> prefix ''a=setup:'' l" "\<not> prefix ''m=video '' l"
          "\<not> prefix ''a=candidate:'' l"
      unfolding prefix_def by blast
    then show ?thesis
    proof cases
      case c
      then show ?thesis using ok
        by (simp add: defs Let_def split: option.split)
    qed (use ok in \<open>simp add: defs; auto intro!: state_cong\<close>)+
  qed
qed

lemma split_on_prefix: "sep \<notin> set x \<Longrightarrow> split_on sep (x @ sep # y) = x # split_on sep y"
  by (induction x) auto

lemma split_on_none: "sep \<notin> set x \<Longrightarrow> split_on sep x = [x]"
  by (induction x) auto

lemma input_lines_step:
  assumes "a \<noteq> []"
  defines "raw \<equiv> takeWhile (\<lambda>c. c \<noteq> LF) a"
  shows "input_lines a = (if strip_cr raw = [] then [] else [strip_cr raw]) @ input_lines (drop (length raw + 1) a)"
proof -
  have raw: "LF \<notin> set raw" by (auto simp: raw_def dest: set_takeWhileD)
  show ?thesis
  proof (cases "dropWhile (\<lambda>c. c \<noteq> LF) a")
    case Nil
    then have "raw = a" unfolding raw_def by (metis append.right_neutral takeWhile_dropWhile_id)
    then show ?thesis using raw by (simp add: input_lines_def split_on_none strip_cr_def)
  next
    case (Cons c r)
    then have "c = LF" using hd_dropWhile [of "\<lambda>c. c \<noteq> LF" a] by simp
    with Cons have a: "a = raw @ LF # r" unfolding raw_def by (metis takeWhile_dropWhile_id)
    have "split_on LF a = raw # split_on LF r" "drop (length raw + 1) a = r"
      using raw by (simp_all add: a split_on_prefix)
    then show ?thesis by (simp add: input_lines_def)
  qed
qed

lemma input_lines_Nil: "input_lines [] = []"
  by (simp add: input_lines_def strip_cr_def)

lemma sanitize_loop_spec:
  "succeeded (sanitize_loop n a st) =
     (if list_all acceptable (input_lines a) then Some (foldl apply_line st (input_lines a)) else None)"
proof (induction n a st rule: sanitize_loop.induct)
  case (1 n a st)
  show ?case
  proof (cases "a = []")
    case True
    then show ?thesis by (subst sanitize_loop.simps) (simp add: input_lines_Nil)
  next
    case False
    define raw where "raw = takeWhile (\<lambda>c. c \<noteq> LF) a"
    define rest where "rest = drop (length raw + 1) a"
    define line where "line = strip_cr raw"
    have ls: "input_lines a = (if line = [] then [] else [line]) @ input_lines rest"
      using input_lines_step [OF False] by (simp only: raw_def rest_def line_def)
    have step: "sanitize_loop n a st =
        (if line = [] then sanitize_loop (n + 1) rest st
         else case sanitize_line (n + 1) line st of Inl e \<Rightarrow> Inl e | Inr st \<Rightarrow> sanitize_loop (n + 1) rest st)"
      by (subst sanitize_loop.simps) (simp only: Let_def raw_def rest_def line_def False if_False)
    note IH = "1.IH" [OF False refl refl refl, folded raw_def, folded rest_def line_def]
    show ?thesis
    proof (cases "line = []")
      case True
      then show ?thesis using IH(1) by (simp add: step ls)
    next
      case nonempty: False
      show ?thesis
      proof (cases "sanitize_line (n + 1) line st")
        case (Inl e)
        then show ?thesis using sanitize_line_spec [of "n + 1" line st] nonempty
          by (auto simp: step ls split: if_splits)
      next
        case (Inr st')
        then have "acceptable line \<and> apply_line st line = st'"
          using sanitize_line_spec [of "n + 1" line st] by (auto split: if_splits)
        then show ?thesis using IH(2) [OF nonempty Inr] nonempty Inr by (simp add: step ls)
      qed
    qed
  qed
qed

lemma fold_flags:
  "have_version (foldl apply_line st ls) \<longleftrightarrow> have_version st \<or> list_ex (prefix ''v=0'') ls"
  "have_ufrag (foldl apply_line st ls) \<longleftrightarrow> have_ufrag st \<or> list_ex (prefix ''a=ice-ufrag:'') ls"
  "have_pwd (foldl apply_line st ls) \<longleftrightarrow> have_pwd st \<or> list_ex (prefix ''a=ice-pwd:'') ls"
  "have_fingerprint (foldl apply_line st ls) \<longleftrightarrow> have_fingerprint st \<or> list_ex (prefix ''a=fingerprint:'') ls"
  "have_video (foldl apply_line st ls) \<longleftrightarrow> have_video st \<or> list_ex (prefix ''m=video '') ls"
  "setup_active (foldl apply_line st ls) \<longleftrightarrow> setup_active st \<or> list_ex (prefix ''a=setup:'') ls"
  by (induction ls arbitrary: st) (simp_all add: apply_line_def)

lemma canonical_candidate: "is_candidate (canonical l) = is_candidate l" "mdns_line (canonical l) = mdns_line l"
  "is_candidate l \<Longrightarrow> canonical l = l"
proof -
  have *: "\<not> is_candidate l \<and> \<not> is_candidate (canonical l)" if "prefix ''a=fingerprint:'' l"
    using that by (auto simp: prefix_def canonical_def is_candidate_def)
  show "is_candidate (canonical l) = is_candidate l"
    using * by (cases "prefix ''a=fingerprint:'' l") (simp_all add: canonical_def)
  show "mdns_line (canonical l) = mdns_line l"
    using * by (cases "prefix ''a=fingerprint:'' l") (simp_all add: canonical_def mdns_line_def)
  show "is_candidate l \<Longrightarrow> canonical l = l"
    using * by (auto simp: canonical_def)
qed

lemma count_simps [simp]: "count P [] = 0" "count P (l # ls) = (if P l then 1 else 0) + count P ls"
  by (simp_all add: count_def)

lemma keep_lines_count_le: "count is_candidate (keep_lines k ls) \<le> count is_candidate ls"
  by (induction k ls rule: keep_lines.induct) (auto simp: canonical_candidate)

lemma fold_info:
  defines "ks \<equiv> \<lambda>st ls. keep_lines (candidates_kept (info st)) ls"
  shows "candidates_kept (info (foldl apply_line st ls)) = candidates_kept (info st) + count is_candidate (ks st ls)"
    and "mdns_candidates (info (foldl apply_line st ls)) = mdns_candidates (info st) + count mdns_line (ks st ls)"
    and "candidates_dropped (info (foldl apply_line st ls)) =
      candidates_dropped (info st) + (count is_candidate ls - count is_candidate (ks st ls))"
proof -
  show "candidates_kept (info (foldl apply_line st ls)) = candidates_kept (info st) + count is_candidate (ks st ls)"
    by (induction ls arbitrary: st)
      (auto simp: ks_def apply_line_def count_line_def kept_line_def canonical_candidate Let_def)
  show "mdns_candidates (info (foldl apply_line st ls)) = mdns_candidates (info st) + count mdns_line (ks st ls)"
    by (induction ls arbitrary: st)
      (auto simp: ks_def apply_line_def count_line_def kept_line_def canonical_candidate Let_def mdns_line_def)
  show "candidates_dropped (info (foldl apply_line st ls)) =
      candidates_dropped (info st) + (count is_candidate ls - count is_candidate (ks st ls))"
    by (induction ls arbitrary: st)
      (auto simp: ks_def apply_line_def count_line_def kept_line_def canonical_candidate Let_def
        Suc_diff_le keep_lines_count_le trans_le_add2)
qed

lemma fold_out:
  "out (foldl apply_line st ls) = foldl (\<lambda>b l. out_line l b) (out st) (keep_lines (candidates_kept (info st)) ls)"
  by (induction ls arbitrary: st)
    (auto simp: apply_line_def count_line_def kept_line_def canonical_candidate Let_def)

lemma fold_out_line:
  assumes "length (o_text b) < o_size b" "\<not> o_overflow b"
  shows "o_overflow (foldl (\<lambda>b l. out_line l b) b ls) \<longleftrightarrow> \<not> length (o_text b @ crlf_text ls) < o_size b"
    and "\<not> o_overflow (foldl (\<lambda>b l. out_line l b) b ls) \<Longrightarrow>
      o_text (foldl (\<lambda>b l. out_line l b) b ls) = o_text b @ crlf_text ls"
proof -
  have stuck: "o_overflow c \<Longrightarrow> o_overflow (foldl (\<lambda>b l. out_line l b) c ls)" for c ls
    by (induction ls arbitrary: c) (simp_all add: out_line_def)
  have "(o_overflow (foldl (\<lambda>b l. out_line l b) b ls) \<longleftrightarrow> \<not> length (o_text b @ crlf_text ls) < o_size b) \<and>
    (\<not> o_overflow (foldl (\<lambda>b l. out_line l b) b ls) \<longrightarrow>
      o_text (foldl (\<lambda>b l. out_line l b) b ls) = o_text b @ crlf_text ls)"
    using assms
  proof (induction ls arbitrary: b)
    case Nil then show ?case by (simp add: crlf_text_def)
  next
    case (Cons l ls)
    show ?case
    proof (cases "length (o_text b) + length l + 3 > o_size b")
      case True
      then have "o_overflow (out_line l b)" by (simp add: out_line_def)
      then have "o_overflow (foldl (\<lambda>b l. out_line l b) b (l # ls))" by (simp add: stuck)
      then show ?thesis using True by (simp add: crlf_text_def crlf_def)
    next
      case False
      define b' where "b' = b\<lparr>o_text := o_text b @ l @ crlf\<rparr>"
      have "out_line l b = b'" using False Cons.prems by (simp add: out_line_def b'_def)
      moreover have "length (o_text b') < o_size b'" "\<not> o_overflow b'"
        using False Cons.prems by (simp_all add: b'_def crlf_def)
      ultimately show ?thesis using Cons.IH [of b'] by (simp add: b'_def crlf_text_def add.assoc)
    qed
  qed
  then show "o_overflow (foldl (\<lambda>b l. out_line l b) b ls) \<longleftrightarrow> \<not> length (o_text b @ crlf_text ls) < o_size b"
    and "\<not> o_overflow (foldl (\<lambda>b l. out_line l b) b ls) \<Longrightarrow>
      o_text (foldl (\<lambda>b l. out_line l b) b ls) = o_text b @ crlf_text ls"
    by blast+
qed

text \<open>When the sanitizer accepts an answer, and what it returns then.\<close>

definition complete_answer :: "string list \<Rightarrow> bool" where
  "complete_answer ls \<longleftrightarrow>
     list_ex (prefix ''v=0'') ls \<and> list_ex (prefix ''m=video '') ls \<and> list_ex (prefix ''a=ice-ufrag:'') ls \<and>
     list_ex (prefix ''a=ice-pwd:'') ls \<and> list_ex (prefix ''a=fingerprint:'') ls \<and> list_ex (prefix ''a=setup:'') ls"

definition counters :: "string list \<Rightarrow> string list \<Rightarrow> LpSdpAnswerInfo" where
  "counters ls ks = \<lparr>candidates_kept = count is_candidate ks,
     candidates_dropped = count is_candidate ls - count is_candidate ks, mdns_candidates = count mdns_line ks\<rparr>"

lemma final_checks_spec:
  assumes "0 < sz"
  defines "st \<equiv> \<lambda>ls. foldl apply_line (start_state sz) ls"
  shows "(case final_checks sz (st ls) of Inl e \<Rightarrow> Inl e | Inr st \<Rightarrow> Inr (o_text (out st), info st)) = Inr (t, i) \<longleftrightarrow>
    complete_answer ls \<and> 0 < count is_candidate (keep_lines 0 ls) \<and> t = crlf_text (keep_lines 0 ls) \<and>
    length t < sz \<and> i = counters ls (keep_lines 0 ls)"
proof -
  let ?ks = "keep_lines 0 ls"
  have out: "o_overflow (out (st ls)) \<longleftrightarrow> \<not> length (crlf_text ?ks) < sz"
    "\<not> o_overflow (out (st ls)) \<Longrightarrow> o_text (out (st ls)) = crlf_text ?ks"
    using fold_out_line [of "out (start_state sz)" ?ks] assms(1)
    by (simp_all add: st_def fold_out start_state_def zero_info_def)
  have kept: "candidates_kept (info (st ls)) = count is_candidate ?ks"
    by (simp add: st_def fold_info start_state_def zero_info_def)
  have info: "info (st ls) = counters ls ?ks"
    by (rule LpSdpAnswerInfo.equality) (simp_all add: st_def fold_info start_state_def zero_info_def counters_def)
  have flags: "complete_answer ls \<longleftrightarrow> have_version (st ls) \<and> have_video (st ls) \<and> have_ufrag (st ls) \<and>
      have_pwd (st ls) \<and> have_fingerprint (st ls) \<and> setup_active (st ls)"
    by (simp add: st_def fold_flags start_state_def complete_answer_def)
  show ?thesis
    using out kept info unfolding flags final_checks_def by auto
qed

lemma sanitize_iff:
  "lp_sdp_sanitize_answer (Some a) (Some sz) = Inr (t, i) \<longleftrightarrow>
     (let ls = input_lines a; ks = keep_lines 0 ls in
      a \<noteq> [] \<and> length a \<le> LP_SDP_MAX_INPUT \<and> list_all acceptable ls \<and> complete_answer ls \<and>
      0 < count is_candidate ks \<and> t = crlf_text ks \<and> length t < sz \<and> i = counters ls ks)"
proof (cases "sz = 0 \<or> a = [] \<or> length a > LP_SDP_MAX_INPUT")
  case True
  then show ?thesis by (auto simp: lp_sdp_sanitize_answer_def Let_def)
next
  case False
  then have pos: "0 < sz" by simp
  let ?r = "sanitize_loop 0 a (start_state sz)"
  have r: "succeeded ?r =
      (if list_all acceptable (input_lines a) then Some (foldl apply_line (start_state sz) (input_lines a)) else None)"
    by (rule sanitize_loop_spec)
  show ?thesis
  proof (cases "list_all acceptable (input_lines a)")
    case True
    then have "?r = Inr (foldl apply_line (start_state sz) (input_lines a))"
      using r by (simp add: succeeded_Some)
    then show ?thesis using False True final_checks_spec [OF pos, of "input_lines a" t i]
      by (simp add: lp_sdp_sanitize_answer_def Let_def)
  next
    case bad: False
    then obtain e where "?r = Inl e" using r by (cases ?r) simp_all
    then show ?thesis using False bad by (simp add: lp_sdp_sanitize_answer_def Let_def)
  qed
qed

lemma keep_lines_bound: "k \<le> LP_SDP_MAX_CANDIDATES \<Longrightarrow> k + count is_candidate (keep_lines k ls) \<le> LP_SDP_MAX_CANDIDATES"
  by (induction k ls rule: keep_lines.induct) (auto simp: canonical_candidate)

lemma keep_lines_usable: "l \<in> set (keep_lines k ls) \<Longrightarrow> is_candidate l \<Longrightarrow> usable_candidate l \<noteq> None"
  by (induction k ls rule: keep_lines.induct) (auto simp: canonical_candidate split: if_splits)

lemma keep_lines_source: "l \<in> set (keep_lines k ls) \<Longrightarrow> \<exists>m \<in> set ls. l = canonical m"
  by (induction k ls rule: keep_lines.induct) (auto simp: canonical_candidate split: if_splits)

lemma toupper_props: "control_char (toupper c) = control_char c" "isxdigit c \<Longrightarrow> isxdigit (toupper c)"
  "toupper (toupper c) = toupper c" "c = CHR '':'' \<Longrightarrow> toupper c = CHR '':''" "toupper c = LF \<longleftrightarrow> c = LF" "toupper c = CR \<longleftrightarrow> c = CR"
proof -
  have up: "of_char (toupper c) = (if 97 \<le> (of_char c :: nat) \<and> of_char c \<le> (122 :: nat) then of_char c - 32 else (of_char c :: nat))"
    by (auto simp: toupper_def Let_def)
  have eqc: "x = y \<longleftrightarrow> (of_char x :: nat) = of_char y" for x y :: char by simp
  show "control_char (toupper c) = control_char c"
    unfolding control_char_def eqc [of _ "CHR 0x09"] up by auto
  show "isxdigit c \<Longrightarrow> isxdigit (toupper c)"
    unfolding isxdigit_def xdigit_val_def Let_def up by (auto split: if_splits)
  show "toupper (toupper c) = toupper c"
    unfolding toupper_def [of "toupper c"] Let_def up by auto
  show "c = CHR '':'' \<Longrightarrow> toupper c = CHR '':''" by (simp add: toupper_def)
  show "toupper c = LF \<longleftrightarrow> c = LF" "toupper c = CR \<longleftrightarrow> c = CR"
    unfolding LF_def CR_def eqc [of _ "CHR 0x0A"] eqc [of _ "CHR 0x0D"] up by auto
qed

lemma valid_fingerprint_upper: "valid_fingerprint v \<Longrightarrow> valid_fingerprint (map toupper v)"
  unfolding valid_fingerprint_def list_all_length by (auto simp: toupper_props)

lemma prefix_take_iff: "prefix p l \<longleftrightarrow> take (length p) l = p"
  unfolding prefix_def by (metis append_eq_conv_conj)

lemma take_canonical: "n \<le> 22 \<Longrightarrow> take n (canonical l) = take n l"
  by (cases "length l \<le> 22") (simp_all add: canonical_def min_absorb1)

lemma prefix_canonical: "length p \<le> 22 \<Longrightarrow> prefix p (canonical l) = prefix p l"
  by (simp add: prefix_take_iff take_canonical)

lemma drop_canonical: "drop 22 (canonical l) = (if prefix ''a=fingerprint:'' l then map toupper (drop 22 l) else drop 22 l)"
  by (cases "length l \<le> 22") (simp_all add: canonical_def)

lemma canonical_idem: "canonical (canonical l) = canonical l"
proof (cases "prefix ''a=fingerprint:'' l")
  case True
  then have "canonical (canonical l) = take 22 l @ map toupper (map toupper (drop 22 l))"
    using prefix_canonical [of "''a=fingerprint:''" l] drop_canonical [of l] take_canonical [of 22 l]
    by (simp add: canonical_def [of "canonical l"])
  also have "\<dots> = canonical l"
    using True by (simp add: canonical_def toupper_props comp_def)
  finally show ?thesis .
qed (simp add: canonical_def)

lemma set_canonical: "c \<in> set (canonical l) \<Longrightarrow> \<exists>d \<in> set l. c = d \<or> c = toupper d"
  by (auto simp: canonical_def split: if_splits dest: in_set_takeD in_set_dropD)

lemma acceptable_canonical:
  assumes "acceptable l"
  shows "acceptable (canonical l)"
proof (cases "prefix ''a=fingerprint:'' l")
  case True
  then obtain z where l: "l = ''a=fingerprint:'' @ z" by (auto simp: prefix_def)
  have "length (canonical l) = length l" by (auto simp: canonical_def)
  moreover have "\<not> list_ex control_char (canonical l)"
    using assms set_canonical [of _ l] by (fastforce simp: acceptable_def list_ex_iff toupper_props)
  moreover have "prefix LP_FINGERPRINT_PREFIX (canonical l)" "valid_fingerprint (drop 22 (canonical l))"
    using assms True valid_fingerprint_upper
    by (simp_all add: acceptable_def prefix_canonical LP_FINGERPRINT_PREFIX_def drop_canonical)
  ultimately show ?thesis
    using assms unfolding acceptable_def by (simp add: prefix_canonical l)
qed (use assms in \<open>simp add: canonical_def\<close>)

lemma keep_lines_idem: "keep_lines k (keep_lines k ls) = keep_lines k ls"
  by (induction k ls rule: keep_lines.induct) (auto simp: canonical_candidate canonical_idem)

lemma acceptable_keep: "list_all acceptable ls \<Longrightarrow> list_all acceptable (keep_lines k ls)"
  by (induction k ls rule: keep_lines.induct) (auto simp: acceptable_canonical)

lemma keep_lines_prefix:
  assumes "length p \<le> 22" "\<not> prefix p ''a=candidate:''" "\<not> prefix ''a=candidate:'' p"
  shows "list_ex (prefix p) (keep_lines k ls) = list_ex (prefix p) ls"
proof -
  have "is_candidate l \<Longrightarrow> \<not> prefix p l" for l
    using assms(2,3) prefix_same_cases unfolding is_candidate_def by blast
  then show ?thesis
    by (induction k ls rule: keep_lines.induct) (auto simp: prefix_canonical assms(1) canonical_candidate)
qed

lemma complete_keep: "complete_answer ls \<Longrightarrow> complete_answer (keep_lines k ls)"
  by (simp add: complete_answer_def keep_lines_prefix)

lemma acceptable_no_break: "acceptable l \<Longrightarrow> LF \<notin> set l \<and> CR \<notin> set l"
  by (auto simp: acceptable_def list_ex_iff control_char_def LF_def CR_def)

lemma split_on_strip: "list_all (\<lambda>l. LF \<notin> set l \<and> CR \<notin> set l \<and> l \<noteq> []) ks \<Longrightarrow> input_lines (crlf_text ks) = ks"
proof (induction ks)
  case Nil
  then show ?case by (simp add: crlf_text_def input_lines_Nil)
next
  case (Cons l ks)
  have "crlf_text (l # ks) = (l @ [CR]) @ LF # crlf_text ks" by (simp add: crlf_text_def crlf_def)
  then have "split_on LF (crlf_text (l # ks)) = (l @ [CR]) # split_on LF (crlf_text ks)"
    using Cons.prems split_on_prefix [of LF "l @ [CR]" "crlf_text ks"] by (simp add: LF_def CR_def)
  then show ?case using Cons by (simp add: input_lines_def strip_cr_def)
qed

lemma input_lines_nonempty: "l \<in> set (input_lines a) \<Longrightarrow> l \<noteq> []"
  by (auto simp: input_lines_def)

lemma canonical_nonempty: "canonical l = [] \<longleftrightarrow> l = []"
  by (auto simp: canonical_def)

lemma keep_lines_readable:
  assumes "list_all acceptable (input_lines a)"
  shows "input_lines (crlf_text (keep_lines 0 (input_lines a))) = keep_lines 0 (input_lines a)"
proof (rule split_on_strip)
  have "l \<noteq> []" if "l \<in> set (keep_lines 0 (input_lines a))" for l
    using keep_lines_source [OF that] input_lines_nonempty canonical_nonempty by auto
  then show "list_all (\<lambda>l. LF \<notin> set l \<and> CR \<notin> set l \<and> l \<noteq> []) (keep_lines 0 (input_lines a))"
    using acceptable_keep [OF assms, of 0] acceptable_no_break by (auto simp: list_all_iff)
qed

section \<open>Properties\<close>

text \<open>
  C23: the sanitizer accepts an answer exactly when it is a nonempty text of at most 16384
  characters all of whose lines are acceptable, it has every required line and at least one
  usable candidate, and the kept lines fit the buffer with their CRLF and the terminator. The
  output is then precisely the kept lines (the fingerprint in upper case, the candidates that
  libpeer can use, at most eight of them) and the counters count the candidate lines kept, dropped
  and with an mDNS name.
\<close>

theorem lp_sdp_sanitize_answer_correct:
  "lp_sdp_sanitize_answer (Some a) (Some out_size) = Inr (t, i) \<longleftrightarrow>
     (let ls = input_lines a; ks = keep_lines 0 ls in
      a \<noteq> [] \<and> length a \<le> LP_SDP_MAX_INPUT \<and> list_all acceptable ls \<and> complete_answer ls \<and>
      0 < count is_candidate ks \<and> count is_candidate ks \<le> LP_SDP_MAX_CANDIDATES \<and>
      list_all (\<lambda>l. \<not> (is_candidate l \<and> usable_candidate l = None)) ks \<and>
      t = crlf_text ks \<and> length t < out_size \<and> i = counters ls ks)"
  using keep_lines_bound [of 0 "input_lines a"] keep_lines_usable [of _ 0 "input_lines a"]
  unfolding sanitize_iff Let_def list_all_iff by auto

text \<open>
  What the sanitizer returns is a fixed point of it: sanitizing the output again, with the
  same buffer, gives the same text and the same counters with nothing dropped.
\<close>

theorem lp_sdp_sanitize_answer_idempotent:
  assumes "lp_sdp_sanitize_answer (Some a) (Some out_size) = Inr (t, i)" "length t \<le> LP_SDP_MAX_INPUT"
  shows "lp_sdp_sanitize_answer (Some t) (Some out_size) = Inr (t, i\<lparr>candidates_dropped := 0\<rparr>)"
proof -
  define ks where "ks = keep_lines 0 (input_lines a)"
  have a: "list_all acceptable (input_lines a)" "complete_answer (input_lines a)"
    "0 < count is_candidate ks" "t = crlf_text ks" "length t < out_size" "i = counters (input_lines a) ks"
    using assms(1) unfolding sanitize_iff Let_def ks_def by auto
  have t: "input_lines t = ks" using keep_lines_readable [OF a(1)] a(4) by (simp add: ks_def)
  moreover have "keep_lines 0 ks = ks" by (simp add: ks_def keep_lines_idem)
  moreover have "list_all acceptable ks" "complete_answer ks"
    using a(1,2) by (simp_all add: ks_def acceptable_keep complete_keep)
  moreover have "t \<noteq> []" using a(3) t input_lines_Nil by auto
  ultimately show ?thesis
    using a(3-6) assms(2) by (simp add: sanitize_iff Let_def counters_def)
qed

text \<open>A concrete answer with a lower case fingerprint, one usable and one TCP candidate.\<close>

definition sample_fingerprint :: string where
  "sample_fingerprint = concat (replicate 31 ''ab:'') @ ''cd''"

definition sample_lines :: "string list" where
  "sample_lines =
    [''v=0'', ''m=video 9 UDP/TLS/RTP/SAVPF 96'', ''a=ice-ufrag:abcd'', ''a=ice-pwd:0123456789'',
     ''a=fingerprint:sha-256 '' @ sample_fingerprint, ''a=setup:active'',
     ''a=candidate:1 1 udp 2122260223 192.168.1.5 50000 typ host'',
     ''a=candidate:2 1 tcp 1518280447 192.168.1.5 9 typ host'']"

definition sample_answer :: string where
  "sample_answer = concat (map (\<lambda>l. l @ [LF]) sample_lines)"

lemma sample_fields:
  "strtok (CHR '' '') ''1 1 udp 2122260223 192.168.1.5 50000 typ host'' =
    [''1'', ''1'', ''udp'', ''2122260223'', ''192.168.1.5'', ''50000'', ''typ'', ''host'']"
  "strtok (CHR '' '') ''2 1 tcp 1518280447 192.168.1.5 9 typ host'' =
    [''2'', ''1'', ''tcp'', ''1518280447'', ''192.168.1.5'', ''9'', ''typ'', ''host'']"
  "inet_pton4 ''192.168.1.5''"
  by code_simp+

lemma sample_candidates:
  "usable_candidate ''a=candidate:1 1 udp 2122260223 192.168.1.5 50000 typ host'' = Some False"
  "usable_candidate ''a=candidate:2 1 tcp 1518280447 192.168.1.5 9 typ host'' = None"
  by (simp_all add: usable_candidate_def sample_fields valid_ice_token_def all_digits_def isdigit_def digit_val_def
      ice_char_def isalnum_def lp_consts)

lemma sample_keep:
  "keep_lines 0 sample_lines = map canonical (take 7 sample_lines)"
  "map canonical sample_lines ! 6 = ''a=candidate:1 1 udp 2122260223 192.168.1.5 50000 typ host''"
  by (simp_all add: sample_lines_def is_candidate_def sample_candidates LP_SDP_MAX_CANDIDATES_def canonical_def)

lemma sample_accepted:
  "input_lines sample_answer = sample_lines" "list_all acceptable sample_lines" "complete_answer sample_lines"
  "sample_answer \<noteq> []"
  by code_simp+

lemma sample_lengths:
  "length sample_answer \<le> 500" "length (crlf_text (map canonical (take 7 sample_lines))) \<le> 500"
  by code_simp+

lemma sample_counters:
  "counters sample_lines (map canonical (take 7 sample_lines)) =
    \<lparr>candidates_kept = 1, candidates_dropped = 1, mdns_candidates = 0\<rparr>"
  by (simp add: counters_def sample_lines_def is_candidate_def mdns_line_def sample_candidates canonical_def)

lemma sample_result:
  "lp_sdp_sanitize_answer (Some sample_answer) (Some 2048) =
    Inr (crlf_text (map canonical (take 7 sample_lines)), \<lparr>candidates_kept = 1, candidates_dropped = 1, mdns_candidates = 0\<rparr>)"
proof -
  have "0 < count is_candidate (map canonical (take 7 sample_lines))"
    by (simp add: sample_lines_def is_candidate_def canonical_def)
  then show ?thesis
    using sample_lengths by (simp add: sanitize_iff sample_accepted sample_keep sample_counters LP_SDP_MAX_INPUT_def)
qed

theorem lp_sdp_idempotent_witness:
  "lp_sdp_sanitize_answer (Some (crlf_text (map canonical (take 7 sample_lines)))) (Some 2048) =
    Inr (crlf_text (map canonical (take 7 sample_lines)), \<lparr>candidates_kept = 1, candidates_dropped = 0, mdns_candidates = 0\<rparr>)"
proof -
  have "length (crlf_text (map canonical (take 7 sample_lines))) \<le> LP_SDP_MAX_INPUT"
    using sample_lengths(2) by (simp add: LP_SDP_MAX_INPUT_def)
  from lp_sdp_sanitize_answer_idempotent [OF sample_result this] show ?thesis by simp
qed

end
