(* ===== verification/Dns_Codec.thy ===== *)
theory Dns_Codec
  imports C_String
begin

text \<open>
  The DNS message codec of the mDNS responder (\<open>src/src/net/mdns.c\<close>): names as length prefixed
  labels, names with compression pointers, resource records. Results are \<open>Some (Some r)\<close> for
  success, \<open>Some None\<close> for the \<open>-1\<close> of the code, and \<open>None\<close> for an access outside a buffer.
\<close>

section \<open>Bytes and characters\<close>

definition byte :: "char \<Rightarrow> u8" where "byte c = of_nat (of_char c)"
definition chr :: "u8 \<Rightarrow> char" where "chr b = char_of (unat b)"

lemma unat_byte: "unat (byte c) = of_char c"
proof -
  have "(of_char c :: nat) < 256" by (metis char_of_char of_char_of mod_less_divisor zero_less_numeral)
  then show ?thesis by (simp add: byte_def unsigned_of_nat take_bit_nat_eq_self)
qed

lemma chr_byte [simp]: "chr (byte c) = c"
  by (simp add: chr_def unat_byte)

lemma byte_chr [simp]: "byte (chr b) = b"
proof -
  have "unat b < 256" using unsigned_less [of b] by simp
  then show ?thesis by (simp add: byte_def chr_def)
qed

definition dot :: char where "dot = CHR ''.''"

section \<open>Names\<close>

text \<open>The label loop of \<open>dns_write_name\<close>.\<close>

function write_labels :: "bytes \<Rightarrow> nat \<Rightarrow> nat \<Rightarrow> string \<Rightarrow> (bytes \<times> nat) option option" where
  "write_labels buffer capacity offset label =
     (if label = [] then Some (Some (buffer, offset))
      else
        (let l = takeWhile (\<lambda>c. c \<noteq> dot) label; n = length l in
         if n = 0 \<or> n > 63 then Some None
         else if offset + 1 + n + 1 > capacity then Some None
         else do {
           b \<leftarrow> wr buffer offset (of_nat n);
           b \<leftarrow> memcpy_to b (offset + 1) (map byte l);
           if n = length label then Some (Some (b, offset + 1 + n))
           else write_labels b capacity (offset + 1 + n) (drop (n + 1) label) }))"
  by pat_completeness auto
termination
  by (relation "measure (\<lambda>(b, c, off, label). length label)") auto

declare write_labels.simps [simp del]

definition dns_write_name :: "bytes \<Rightarrow> nat \<Rightarrow> nat \<Rightarrow> string \<Rightarrow> (bytes \<times> nat) option option" where
  "dns_write_name buffer capacity offset name = do {
     r \<leftarrow> write_labels buffer capacity offset name;
     case r of
       None \<Rightarrow> Some None
     | Some (b, offset) \<Rightarrow>
         if offset + 1 > capacity then Some None
         else do { b \<leftarrow> wr b offset 0; Some (Some (b, offset + 1)) } }"

text \<open>
  The loop of \<open>dns_read_name\<close>. \<open>out\<close> is what the output array of \<open>out_size\<close> bytes holds,
  \<open>next\<close> the offset behind the name once a pointer was followed. A store past the end of the
  array is \<open>None\<close>.
\<close>

definition put :: "nat \<Rightarrow> string \<Rightarrow> string \<Rightarrow> string option" where
  "put out_size out s = (if length out + length s \<le> out_size then Some (out @ s) else None)"

function read_labels ::
  "bytes \<Rightarrow> nat \<Rightarrow> nat \<Rightarrow> string \<Rightarrow> nat \<Rightarrow> nat option \<Rightarrow> (string \<times> nat) option option" where
  "read_labels packet out_size position out jumps next =
     (if position \<ge> length packet then Some None
      else do {
        label_length \<leftarrow> rd packet position;
        if label_length = 0 then do {
          _ \<leftarrow> put out_size out [NUL];
          Some (Some (out, case next of None \<Rightarrow> position + 1 | Some n \<Rightarrow> n)) }
        else if label_length AND 0xC0 = 0xC0 then
          (if position + 1 \<ge> length packet \<or> jumps + 1 > 8 then Some None
           else do {
             low \<leftarrow> rd packet (position + 1);
             let pointer = unat (be16 (label_length AND 0x3F) low);
             if pointer \<ge> length packet then Some None
             else read_labels packet out_size pointer out (jumps + 1)
                    (case next of None \<Rightarrow> Some (position + 2) | Some n \<Rightarrow> Some n) })
        else if label_length AND 0xC0 \<noteq> 0 \<or> label_length > 63 \<or> position + 1 + unat label_length > length packet
        then Some None
        else if length out + (if length out > 0 then 1 else 0) + unat label_length + 1 > out_size then Some None
        else do {
          out1 \<leftarrow> (if length out > 0 then put out_size out [dot] else Some out);
          l \<leftarrow> rd_range packet (position + 1) (unat label_length);
          out2 \<leftarrow> put out_size out1 (map chr l);
          read_labels packet out_size (position + 1 + unat label_length) out2 jumps next } })"
  by pat_completeness auto

termination
  by (relation "measures [\<lambda>(packet, out_size, position, out, jumps, next). 9 - jumps,
      \<lambda>(packet, out_size, position, out, jumps, next). out_size - length out]")
    (auto simp: put_def unat_gt_0 split: if_splits)

declare read_labels.simps [simp del]

definition dns_read_name :: "bytes \<Rightarrow> nat \<Rightarrow> nat \<Rightarrow> (string \<times> nat) option option" where
  "dns_read_name packet offset out_size = read_labels packet out_size offset [] 0 None"

section \<open>Lemmas on names\<close>

text \<open>The reference encoding of a dotted name; \<open>None\<close> for an empty or too long label.\<close>

function enc_labels :: "string \<Rightarrow> bytes option" where
  "enc_labels label =
     (if label = [] then Some []
      else
        (let l = takeWhile (\<lambda>c. c \<noteq> dot) label; n = length l; bs = of_nat n # map byte l in
         if n = 0 \<or> n > 63 then None
         else if n = length label then Some bs
         else map_option ((@) bs) (enc_labels (drop (n + 1) label))))"
  by pat_completeness auto
termination
  by (relation "measure length") auto

declare enc_labels.simps [simp del]

definition enc_name :: "string \<Rightarrow> bytes option" where
  "enc_name name = map_option (\<lambda>bs. bs @ [0]) (enc_labels name)"

definition paste :: "bytes \<Rightarrow> nat \<Rightarrow> bytes \<Rightarrow> bytes" where
  "paste b off bs = take off b @ bs @ drop (off + length bs) b"

lemma paste_length: "off + length bs \<le> length b \<Longrightarrow> length (paste b off bs) = length b"
  by (simp add: paste_def)

lemma paste_Nil: "paste b off [] = b"
  by (simp add: paste_def)

lemma paste_paste:
  assumes "off + length x + length y \<le> length b"
  shows "paste (paste b off x) (off + length x) y = paste b off (x @ y)"
proof -
  have "off \<le> length b" using assms by simp
  then show ?thesis by (simp add: paste_def min_absorb2 add_ac)
qed

lemma memcpy_paste: "off + length bs \<le> length b \<Longrightarrow> memcpy_to b off bs = Some (paste b off bs)"
  by (simp add: paste_def)

lemma enc_labels_Nil: "enc_labels [] = Some []"
  by (simp add: enc_labels.simps)

lemma enc_labels_step:
  assumes "label \<noteq> []"
  defines "l \<equiv> takeWhile (\<lambda>c. c \<noteq> dot) label"
  shows "enc_labels label =
     (if length l = 0 \<or> length l > 63 then None
      else if length l = length label then Some (of_nat (length l) # map byte l)
      else map_option ((@) (of_nat (length l) # map byte l)) (enc_labels (drop (length l + 1) label)))"
  unfolding l_def using assms(1) by (subst enc_labels.simps) (simp only: Let_def if_False)

lemma write_labels_step:
  assumes "label \<noteq> []" "capacity \<le> length buffer"
  defines "l \<equiv> takeWhile (\<lambda>c. c \<noteq> dot) label"
  shows "write_labels buffer capacity offset label =
     (if length l = 0 \<or> length l > 63 \<or> offset + length l + 2 > capacity then Some None
      else let b = paste buffer offset (of_nat (length l) # map byte l) in
        if length l = length label then Some (Some (b, offset + 1 + length l))
        else write_labels b capacity (offset + 1 + length l) (drop (length l + 1) label))"
proof -
  have w: "do { b \<leftarrow> wr buffer offset v; b \<leftarrow> memcpy_to b (offset + 1) (map byte l); f b } =
      f (paste buffer offset (v # map byte l))"
    if "offset + length l + 2 \<le> capacity" for v and f :: "bytes \<Rightarrow> (bytes \<times> nat) option option"
  proof -
    have "wr buffer offset v = Some (paste buffer offset [v])"
      using that assms(2) by (simp add: wr_memcpy memcpy_paste del: memcpy_to_in)
    moreover have "memcpy_to (paste buffer offset [v]) (offset + 1) (map byte l) = Some (paste buffer offset (v # map byte l))"
      using that assms(2) paste_paste [of offset "[v]" "map byte l" buffer]
      by (simp add: memcpy_paste paste_length del: memcpy_to_in)
    ultimately show ?thesis by simp
  qed
  show ?thesis
    using assms(1) w unfolding l_def by (subst write_labels.simps) (auto simp: Let_def)
qed

lemma write_labels_spec:
  assumes "capacity \<le> length buffer" "offset \<le> length buffer"
  shows "write_labels buffer capacity offset label =
     Some (case enc_labels label of
       None \<Rightarrow> None
     | Some bs \<Rightarrow> if bs \<noteq> [] \<and> offset + length bs + 1 > capacity then None
         else Some (paste buffer offset bs, offset + length bs))"
  using assms
proof (induction buffer capacity offset label rule: write_labels.induct)
  case (1 buffer capacity offset label)
  show ?case
  proof (cases "label = []")
    case True
    then show ?thesis using 1 by (simp add: write_labels.simps enc_labels_Nil paste_Nil)
  next
    case False
    define l where "l = takeWhile (\<lambda>c. c \<noteq> dot) label"
    define bs where "bs = (of_nat (length l) :: u8) # map byte l"
    note step = write_labels_step [OF False "1.prems"(1), of offset, folded l_def, folded bs_def]
      and enc = enc_labels_step [OF False, folded l_def, folded bs_def]
    consider (bad) "length l = 0 \<or> length l > 63" | (full) "\<not> (length l = 0 \<or> length l > 63)" "offset + length l + 2 > capacity"
      | (fits) "\<not> (length l = 0 \<or> length l > 63)" "\<not> offset + length l + 2 > capacity" by blast
    then show ?thesis
    proof cases
      case bad then show ?thesis using step enc by auto
    next
      case full
      then show ?thesis using step enc by (auto simp: bs_def split: option.split)
    next
      case fits
      have b1: "wr buffer offset (of_nat (length l)) = Some (paste buffer offset [of_nat (length l)])"
        "memcpy_to (paste buffer offset [of_nat (length l)]) (offset + 1) (map byte l) = Some (paste buffer offset bs)"
        using fits(2) "1.prems" paste_paste [of offset "[of_nat (length l)]" "map byte l" buffer]
        by (simp_all add: wr_memcpy memcpy_paste paste_length bs_def del: memcpy_to_in)
      have len: "length (paste buffer offset bs) = length buffer" using fits(2) "1.prems" by (simp add: paste_length bs_def)
      show ?thesis
      proof (cases "length l = length label")
        case True
        then show ?thesis using step enc fits by (simp add: bs_def Let_def)
      next
        case more: False
        have IH: "write_labels (paste buffer offset bs) capacity (offset + 1 + length l) (drop (length l + 1) label) =
            Some (case enc_labels (drop (length l + 1) label) of None \<Rightarrow> None
              | Some cs \<Rightarrow> if cs \<noteq> [] \<and> offset + 1 + length l + length cs + 1 > capacity then None
                  else Some (paste (paste buffer offset bs) (offset + 1 + length l) cs, offset + 1 + length l + length cs))"
          using "1.IH" [OF False l_def refl _ _ b1] fits more len "1.prems" by simp
        have "paste (paste buffer offset bs) (offset + 1 + length l) cs = paste buffer offset (bs @ cs)"
          if "offset + length bs + length cs \<le> length buffer" for cs
          using paste_paste [OF that] by (simp add: bs_def)
        then show ?thesis
          using fits more "1.prems" IH by (auto simp: step enc Let_def bs_def paste_Nil split: option.split)
      qed
    qed
  qed
qed

lemma dns_write_name_spec:
  assumes "capacity \<le> length buffer" "offset \<le> length buffer"
  shows "dns_write_name buffer capacity offset name =
     Some (case enc_name name of
       None \<Rightarrow> None
     | Some bs \<Rightarrow> if offset + length bs > capacity then None else Some (paste buffer offset bs, offset + length bs))"
proof (cases "enc_labels name")
  case None
  then show ?thesis by (simp add: dns_write_name_def write_labels_spec [OF assms] enc_name_def)
next
  case (Some bs)
  show ?thesis
  proof (cases "offset + length bs + 1 > capacity")
    case True
    then show ?thesis using Some by (auto simp: dns_write_name_def write_labels_spec [OF assms] enc_name_def)
  next
    case False
    then have "wr (paste buffer offset bs) (offset + length bs) 0 = Some (paste buffer offset (bs @ [0]))"
      using assms paste_paste [of offset bs "[0]" buffer]
      by (simp add: wr_memcpy memcpy_paste paste_length del: memcpy_to_in)
    then show ?thesis using Some False by (simp add: dns_write_name_def write_labels_spec [OF assms] enc_name_def)
  qed
qed

text \<open>The two steps of the reader that go on.\<close>

lemma read_pointer_step:
  assumes "position < length packet" "packet ! position = ll" "ll \<noteq> 0" "ll AND 0xC0 = 0xC0"
    "\<not> (position + 1 \<ge> length packet \<or> jumps + 1 > 8)"
  shows "read_labels packet out_size position out jumps next =
    (let p = unat (be16 (ll AND 0x3F) (packet ! (position + 1))) in
     if p \<ge> length packet then Some None
     else read_labels packet out_size p out (jumps + 1) (case next of None \<Rightarrow> Some (position + 2) | Some n \<Rightarrow> Some n))"
  using assms by (subst read_labels.simps) (simp add: Let_def)

definition extend :: "string \<Rightarrow> string \<Rightarrow> string" where
  "extend out l = (if length out > 0 then out @ [dot] else out) @ l"

lemma read_label_step:
  assumes "position < length packet" "packet ! position = ll" "ll \<noteq> 0" "ll AND 0xC0 = 0" "\<not> ll > 63"
    "position + 1 + unat ll \<le> length packet" "l = map chr (take (unat ll) (drop (position + 1) packet))"
    "length (extend out l) < out_size"
  shows "read_labels packet out_size position out jumps next =
    read_labels packet out_size (position + 1 + unat ll) (extend out l) jumps next"
proof -
  have len: "length l = unat ll" using assms(6,7) by simp
  have "(if length out > 0 then put out_size out [dot] else Some out) = Some (extend out [])"
    "put out_size (extend out []) l = Some (extend out l)"
    using assms(8) by (cases "out = []"; auto simp: put_def extend_def)+
  then show ?thesis
    using assms len by (subst read_labels.simps) (cases "out = []"; auto simp: extend_def)
qed

text \<open>Reading never leaves the packet or the output array, and always ends.\<close>

lemma read_labels_safe:
  assumes "length out < out_size" "\<And>n. next = Some n \<Longrightarrow> n \<le> length packet"
  shows "\<exists>r. read_labels packet out_size position out jumps next = Some r \<and>
    (\<forall>name e. r = Some (name, e) \<longrightarrow> length name < out_size \<and> e \<le> length packet \<and>
       (case next of Some n \<Rightarrow> e = n | None \<Rightarrow> position < e))"
  using assms
proof (induction packet out_size position out jumps "next" rule: read_labels.induct)
  case (1 packet out_size position out jumps "next")
  show ?case
  proof (cases "position \<ge> length packet")
    case True
    then show ?thesis by (subst read_labels.simps) simp
  next
    case False
    then have pos: "position < length packet" by simp
    define ll where "ll = packet ! position"
    have rd: "rd packet position = Some ll" using pos by (simp add: ll_def)
    consider (zero) "ll = 0"
      | (bad_pointer) "ll \<noteq> 0" "ll AND 0xC0 = 0xC0" "position + 1 \<ge> length packet \<or> jumps + 1 > 8"
      | (pointer) "ll \<noteq> 0" "ll AND 0xC0 = 0xC0" "\<not> (position + 1 \<ge> length packet \<or> jumps + 1 > 8)"
      | (bad) "ll \<noteq> 0" "ll AND 0xC0 \<noteq> 0xC0" "ll AND 0xC0 \<noteq> 0 \<or> ll > 63 \<or> position + 1 + unat ll > length packet"
      | (full) "ll \<noteq> 0" "ll AND 0xC0 \<noteq> 0xC0" "\<not> (ll AND 0xC0 \<noteq> 0 \<or> ll > 63 \<or> position + 1 + unat ll > length packet)"
          "length out + (if length out > 0 then 1 else 0) + unat ll + 1 > out_size"
      | (label) "ll \<noteq> 0" "ll AND 0xC0 \<noteq> 0xC0" "\<not> (ll AND 0xC0 \<noteq> 0 \<or> ll > 63 \<or> position + 1 + unat ll > length packet)"
          "\<not> length out + (if length out > 0 then 1 else 0) + unat ll + 1 > out_size"
      by blast
    then show ?thesis
    proof cases
      case zero
      then show ?thesis using pos rd "1.prems" by (subst read_labels.simps) (auto simp: put_def split: option.split)
    next
      case pointer
      define p where "p = unat (be16 (ll AND 0x3F) (packet ! (position + 1)))"
      have low: "rd packet (position + 1) = Some (packet ! (position + 1))" using pointer by simp
      note step = read_pointer_step [OF pos ll_def [symmetric] pointer, unfolded Let_def, folded p_def]
      show ?thesis
      proof (cases "p \<ge> length packet")
        case True
        then show ?thesis using step by simp
      next
        case False
        have "n \<le> length packet" if "(case next of None \<Rightarrow> Some (position + 2) | Some n \<Rightarrow> Some n) = Some n" for n
          using that "1.prems"(2) pointer by (auto split: option.splits)
        from "1.IH"(1) [OF _ rd pointer low, unfolded Let_def, folded p_def, OF _ refl False "1.prems"(1) this] pos False step
        show ?thesis by (auto split: option.splits)
      qed
    next
      case label
      define l where "l = take (unat ll) (drop (position + 1) packet)"
      define out1 where "out1 = (if length out > 0 then out @ [dot] else out)"
      have f: "(if length out > 0 then put out_size out [dot] else Some out) = Some out1"
        "rd_range packet (position + 1) (unat ll) = Some l" "put out_size out1 (map chr l) = Some (out1 @ map chr l)"
        and len: "length (out1 @ map chr l) < out_size"
        using label by (auto simp: out1_def l_def put_def)
      have step: "read_labels packet out_size position out jumps next =
          read_labels packet out_size (position + 1 + unat ll) (out1 @ map chr l) jumps next"
        using read_label_step [OF pos ll_def [symmetric], of "map chr l" out out_size jumps "next"] label len
        by (cases "out = []") (simp_all add: extend_def out1_def l_def)
      from "1.IH"(2) [OF _ rd label f len "1.prems"(2)] pos step show ?thesis by (fastforce split: option.splits)
    qed (use pos rd in \<open>subst read_labels.simps, auto\<close>)+
  qed
qed

lemma length_byte_flags:
  assumes "n \<le> 63" "0 < n"
  shows "(of_nat n :: u8) \<noteq> 0" "(of_nat n :: u8) AND 0xC0 = 0" "\<not> (of_nat n :: u8) > 63" "unat (of_nat n :: u8) = n"
proof -
  show u: "unat (of_nat n :: u8) = n" using assms by (simp add: unsigned_of_nat take_bit_nat_eq_self)
  show "(of_nat n :: u8) \<noteq> 0" using u assms(2) by (metis less_irrefl unsigned_0)
  show "\<not> (of_nat n :: u8) > 63" using u assms(1) by (simp add: word_less_nat_alt)
  have "list_all (\<lambda>k. (of_nat k :: u8) AND 0xC0 = 0) [0..<64]" by code_simp
  then show "(of_nat n :: u8) AND 0xC0 = 0" using assms(1) by (auto simp: list_all_iff)
qed

lemma takeWhile_rest:
  assumes "takeWhile (\<lambda>c. c \<noteq> dot) s = l" "length l \<noteq> length s"
  shows "s = l @ dot # drop (length l + 1) s"
proof -
  have split: "l @ dropWhile (\<lambda>c. c \<noteq> dot) s = s" using assms(1) by (metis takeWhile_dropWhile_id)
  with assms(2) have ne: "dropWhile (\<lambda>c. c \<noteq> dot) s \<noteq> []" by (metis append_Nil2)
  then obtain r where r: "dropWhile (\<lambda>c. c \<noteq> dot) s = dot # r"
    using hd_dropWhile [OF ne] by (cases "dropWhile (\<lambda>c. c \<noteq> dot) s") auto
  then have "s = l @ dot # r" using split by simp
  then show ?thesis by simp
qed

text \<open>Reading back what the reference encoding put into a packet.\<close>

lemma read_labels_enc:
  assumes "enc_labels rest = Some bs" "rest \<noteq> []" "last rest \<noteq> dot"
    "take (length bs + 1) (drop position packet) = bs @ [0]" "length (extend out rest) < out_size"
  shows "read_labels packet out_size position out jumps None = Some (Some (extend out rest, position + length bs + 1))"
  using assms
proof (induction rest arbitrary: bs position out rule: enc_labels.induct)
  case (1 rest)
  define l where "l = takeWhile (\<lambda>c. c \<noteq> dot) rest"
  define ll where "ll = (of_nat (length l) :: u8)"
  note enc = enc_labels_step [OF "1.prems"(2), folded l_def, folded ll_def]
  have n: "0 < length l" "length l \<le> 63" using enc "1.prems"(1) by (auto split: if_splits)
  note flags = length_byte_flags [OF n(2,1), folded ll_def]
  obtain cs where bs: "bs = ll # map byte l @ cs"
    "if length l = length rest then cs = [] else enc_labels (drop (length l + 1) rest) = Some cs"
    using enc [symmetric] "1.prems"(1) n by (auto simp: map_option_eq_Some split: if_splits)
  have whole: "take (length l + length cs + 2) (drop position packet) = ll # map byte l @ cs @ [0]"
    using "1.prems"(4) bs(1) by simp
  have at: "position + length l + length cs + 2 \<le> length packet"
    using arg_cong [OF whole, of length] by simp
  have pos: "position < length packet" using at by simp
  have hd: "packet ! position = ll"
    using arg_cong [OF whole, of "\<lambda>x. x ! 0"] pos by simp
  have mid: "take (length l) (drop (position + 1) packet) = map byte l"
    using arg_cong [OF whole, of "\<lambda>x. take (length l) (drop 1 x)"] by (simp add: drop_take min_absorb1)
  have tail: "take (length cs + 1) (drop (position + 1 + length l) packet) = cs @ [0]"
    using arg_cong [OF whole, of "drop (1 + length l)"] by (simp add: drop_take add_ac)
  have ext: "length (extend out l) < out_size" if "length (extend out rest) < out_size"
    using that length_takeWhile_le [of "\<lambda>c. c \<noteq> dot" rest] by (auto simp: extend_def l_def)
  have chars: "l = map chr (take (unat ll) (drop (position + 1) packet))"
    using mid flags(4) by (simp add: comp_def)
  have step: "read_labels packet out_size position out jumps None =
      read_labels packet out_size (position + 1 + length l) (extend out l) jumps None"
    using read_label_step [OF pos hd flags(1-3) _ chars ext [OF "1.prems"(5)], of jumps None] at
    unfolding flags(4) by simp
  show ?case
  proof (cases "length l = length rest")
    case True
    then have "rest = l" unfolding l_def by (metis append_eq_append_conv takeWhile_dropWhile_id append_Nil2)
    moreover have cs: "cs = []" using bs(2) True by simp
    moreover have "packet ! (position + 1 + length l) = 0"
      using tail cs by (cases "drop (position + 1 + length l) packet") (auto dest: nth_via_drop)
    ultimately show ?thesis using step at bs(1) ext "1.prems"(5)
      by (subst step, subst read_labels.simps) (simp add: put_def)
  next
    case False
    let ?rest = "drop (length l + 1) rest"
    have rest: "rest = l @ dot # ?rest" using takeWhile_rest [OF l_def [symmetric] False] .
    have ne: "?rest \<noteq> []" using rest "1.prems"(3) by (metis last_snoc)
    have "extend (extend out l) ?rest = extend out rest"
      using n(1) by (subst (2) rest) (auto simp: extend_def)
    moreover have "last ?rest \<noteq> dot" using rest ne "1.prems"(3) by (metis last_appendR last_ConsR list.discI)
    ultimately show ?thesis
      using "1.IH" [OF "1.prems"(2) l_def refl refl _ False, of cs "position + 1 + length l" "extend out l"] n bs False ne tail
        "1.prems"(5) step by simp
  qed
qed

lemma read_name_enc:
  assumes "enc_name name = Some bs" "name = [] \<or> last name \<noteq> dot" "length name < out_size"
    "take (length bs) (drop position packet) = bs"
  shows "dns_read_name packet position out_size = Some (Some (name, position + length bs))"
proof (cases "name = []")
  case True
  then have bs: "bs = [0]" using assms(1) by (simp add: enc_name_def enc_labels_Nil)
  have "position < length packet \<and> packet ! position = 0"
    using assms(4) bs by (cases "position < length packet"; cases "drop position packet") (auto dest: nth_via_drop)
  then show ?thesis using True assms(3) bs unfolding dns_read_name_def
    by (subst read_labels.simps) (simp add: put_def)
next
  case False
  obtain cs where cs: "enc_labels name = Some cs" "bs = cs @ [0]" using assms(1) by (auto simp: enc_name_def)
  have "length (extend [] name) < out_size" using assms(3) by (simp add: extend_def)
  then show ?thesis
    using read_labels_enc [OF cs(1) False, of position packet "[]" out_size 0] assms(2,4) False cs(2)
    by (simp add: dns_read_name_def extend_def)
qed

lemma read_name_safe:
  assumes "0 < out_size"
  shows "\<exists>r. dns_read_name packet offset out_size = Some r \<and>
    (\<forall>name e. r = Some (name, e) \<longrightarrow> length name < out_size \<and> offset < e \<and> e \<le> length packet)"
  using read_labels_safe [of "[]" out_size None packet offset 0] assms by (auto simp: dns_read_name_def)

section \<open>Resource records\<close>

text \<open>The wire form of a record: name, type, class, time to live, data length and data.\<close>

definition append_record ::
  "bytes \<Rightarrow> nat \<Rightarrow> nat \<Rightarrow> string \<Rightarrow> u16 \<Rightarrow> u16 \<Rightarrow> u32 \<Rightarrow> bytes \<Rightarrow> nat \<Rightarrow> (bytes \<times> nat) option option" where
  "append_record buffer capacity offset name type klass ttl rdata rdata_length = do {
     r \<leftarrow> dns_write_name buffer capacity offset name;
     case r of
       None \<Rightarrow> Some None
     | Some (b, position) \<Rightarrow>
         if position + 10 + rdata_length > capacity then Some None
         else do {
           b \<leftarrow> write_be16 b position type;
           b \<leftarrow> write_be16 b (position + 2) klass;
           b \<leftarrow> write_be32 b (position + 4) ttl;
           b \<leftarrow> write_be16 b (position + 8) (of_nat rdata_length);
           src \<leftarrow> rd_range rdata 0 rdata_length;
           b \<leftarrow> memcpy_to b (position + 10) src;
           Some (Some (b, position + 10 + rdata_length)) } }"

text \<open>
  The head of a received record, as both record loops of the code read it: the name, type, time to
  live, and the place and length of the data.
\<close>

definition read_record :: "bytes \<Rightarrow> nat \<Rightarrow> nat \<Rightarrow> (string \<times> u16 \<times> u32 \<times> nat \<times> nat) option option" where
  "read_record packet offset name_max = do {
     r \<leftarrow> dns_read_name packet offset name_max;
     case r of
       None \<Rightarrow> Some None
     | Some (name, next) \<Rightarrow>
         if next + 10 > length packet then Some None
         else do {
           type \<leftarrow> read_be16 packet next;
           ttl \<leftarrow> read_be32 packet (next + 4);
           rdata_length \<leftarrow> read_be16 packet (next + 8);
           if next + 10 + unat rdata_length > length packet then Some None
           else Some (Some (name, type, ttl, next + 10, unat rdata_length)) } }"

record DnsRecord =
  rr_name :: string
  rr_type :: u16
  rr_class :: u16
  rr_ttl :: u32
  rr_data :: bytes

definition enc_record :: "DnsRecord \<Rightarrow> bytes option" where
  "enc_record r = map_option (\<lambda>n. n @ be16_bytes (rr_type r) @ be16_bytes (rr_class r) @ be32_bytes (rr_ttl r) @
     be16_bytes (of_nat (length (rr_data r))) @ rr_data r) (enc_name (rr_name r))"

lemma memcpy_paste_next:
  assumes "position = off + length xs" "off + length xs + length ys \<le> length b"
  shows "memcpy_to (paste b off xs) position ys = Some (paste b off (xs @ ys))"
  using assms paste_paste [OF assms(2)] by (simp add: memcpy_paste paste_length del: memcpy_to_in)

lemma append_record_spec:
  assumes "capacity \<le> length buffer" "offset \<le> length buffer" "rdata_length \<le> length rdata"
  shows "append_record buffer capacity offset name type klass ttl rdata rdata_length =
    Some (case enc_record \<lparr>rr_name = name, rr_type = type, rr_class = klass, rr_ttl = ttl, rr_data = take rdata_length rdata\<rparr> of
      None \<Rightarrow> None
    | Some bs \<Rightarrow> if offset + length bs > capacity then None else Some (paste buffer offset bs, offset + length bs))"
proof (cases "enc_name name")
  case None
  then show ?thesis by (simp add: append_record_def dns_write_name_spec [OF assms(1,2)] enc_record_def)
next
  case (Some n)
  have rd: "rd_range rdata 0 rdata_length = Some (take rdata_length rdata)" using assms(3) by simp
  show ?thesis
  proof (cases "offset + length n + 10 + rdata_length > capacity")
    case True
    then show ?thesis using Some assms(3)
      by (auto simp: append_record_def dns_write_name_spec [OF assms(1,2)] enc_record_def)
  next
    case False
    then have fit: "offset + length n + 10 + rdata_length \<le> length buffer" using assms(1) by simp
    show ?thesis
      using False Some fit assms(3)
      by (simp add: append_record_def dns_write_name_spec [OF assms(1,2)] enc_record_def write_be16_def write_be32_def
          memcpy_paste_next rd del: memcpy_to_in)
  qed
qed

text \<open>A field of a packet, read where the packet is known to hold its bytes.\<close>

lemma take_drop_split:
  assumes "take (length (xs @ ys)) (drop off p) = xs @ ys"
  shows "take (length xs) (drop off p) = xs" "take (length ys) (drop (off + length xs) p) = ys"
proof -
  obtain t where t: "drop off p = xs @ ys @ t"
    using append_take_drop_id [of "length (xs @ ys)" "drop off p"] assms by (metis append.assoc)
  then show "take (length xs) (drop off p) = xs" by simp
  have "drop (off + length xs) p = ys @ t" using t by (metis append_eq_conv_conj add.commute drop_drop)
  then show "take (length ys) (drop (off + length xs) p) = ys" by simp
qed

lemma read_be16_at_bytes: "take 2 (drop off p) = be16_bytes v \<Longrightarrow> read_be16 p off = Some v"
proof -
  assume a: "take 2 (drop off p) = be16_bytes v"
  have len: "off + 2 \<le> length p" using arg_cong [OF a, of length] by simp
  moreover have "p ! off = ucast (drop_bit 8 v)" "p ! (off + 1) = ucast v"
    using arg_cong [OF a, of "\<lambda>x. x ! 0"] arg_cong [OF a, of "\<lambda>x. x ! 1"] len by (simp_all add: be16_bytes_def)
  ultimately show ?thesis by (simp add: be16_bytes_inverse)
qed

lemma read_be32_at_bytes: "take 4 (drop off p) = be32_bytes v \<Longrightarrow> read_be32 p off = Some v"
proof -
  assume a: "take 4 (drop off p) = be32_bytes v"
  have len: "off + 4 \<le> length p" using arg_cong [OF a, of length] by simp
  moreover have "p ! off = ucast (drop_bit 24 v)" "p ! (off + 1) = ucast (drop_bit 16 v)"
    "p ! (off + 2) = ucast (drop_bit 8 v)" "p ! (off + 3) = ucast v"
    using arg_cong [OF a, of "\<lambda>x. x ! 0"] arg_cong [OF a, of "\<lambda>x. x ! 1"] arg_cong [OF a, of "\<lambda>x. x ! 2"]
      arg_cong [OF a, of "\<lambda>x. x ! 3"] len by (simp_all add: be32_bytes_def)
  ultimately show ?thesis by (simp add: be32_bytes_inverse)
qed

definition name_ok :: "string \<Rightarrow> bool" where
  "name_ok name \<longleftrightarrow> (name = [] \<or> last name \<noteq> dot) \<and> length name < 128"

lemma read_record_enc:
  assumes "enc_record r = Some bs" "name_ok (rr_name r)" "length (rr_data r) < 65536"
    "take (length bs) (drop offset packet) = bs"
  obtains data where "read_record packet offset 128 = Some (Some (rr_name r, rr_type r, rr_ttl r, data, length (rr_data r)))"
    "take (length (rr_data r)) (drop data packet) = rr_data r" "data + length (rr_data r) = offset + length bs"
    "offset + length bs \<le> length packet"
proof -
  let ?d = "rr_data r"
  obtain n where n: "enc_name (rr_name r) = Some n" "bs = n @ be16_bytes (rr_type r) @ be16_bytes (rr_class r) @
      be32_bytes (rr_ttl r) @ be16_bytes (of_nat (length ?d)) @ ?d"
    using assms(1) by (auto simp: enc_record_def)
  note p = assms(4) [unfolded n(2)]
  note s1 = take_drop_split [OF p]
  note s2 = take_drop_split [OF s1(2)]
  note s3 = take_drop_split [OF s2(2)]
  note s4 = take_drop_split [OF s3(2)]
  note s5 = take_drop_split [OF s4(2)]
  have len: "offset + length bs \<le> length packet"
    using arg_cong [OF assms(4), of length] n(1) by (auto simp: enc_name_def n(2))
  have name: "dns_read_name packet offset 128 = Some (Some (rr_name r, offset + length n))"
    by (rule read_name_enc [OF n(1) _ _ s1(1)]) (use assms(2) in \<open>auto simp: name_ok_def\<close>)
  have u: "unat (of_nat (length ?d) :: u16) = length ?d"
    using assms(3) by (simp add: unsigned_of_nat take_bit_nat_eq_self)
  have e: "offset + length n + 2 + 2 = offset + length n + 4" "offset + length n + 4 + 4 = offset + length n + 8"
    "offset + length n + 8 + 2 = offset + length n + 10" by simp_all
  have "read_record packet offset 128 =
      Some (Some (rr_name r, rr_type r, rr_ttl r, offset + length n + 10, length ?d))"
    using read_be16_at_bytes [OF s2(1) [unfolded length_be_bytes e]] read_be32_at_bytes [OF s4(1) [unfolded length_be_bytes e]]
      read_be16_at_bytes [OF s5(1) [unfolded length_be_bytes e]] name len u
    by (simp add: read_record_def n(2) del: read_be16_in read_be32_in)
  then show thesis
    using that [of "offset + length n + 10"] s5(2) [unfolded length_be_bytes e] len by (simp add: n(2))
qed

section \<open>Properties\<close>

text \<open>
  C34: reading a name from any packet at any offset, compression pointers included, ends without an
  access outside the packet or the 128 byte output; a name that is returned fits the output with
  its terminator, and the offset behind it lies inside the packet and strictly behind the start.
\<close>

theorem dns_read_name_safe:
  "\<exists>r. dns_read_name packet offset 128 = Some r \<and>
     (case r of None \<Rightarrow> True | Some (name, next) \<Rightarrow> length name < 128 \<and> offset < next \<and> next \<le> length packet)"
  using read_name_safe [of 128 packet offset] by (auto split: option.splits)

text \<open>
  C35: a name that was written is read back unchanged, with the offset the writer returned; the
  writer stays inside the capacity and touches nothing outside the name.
\<close>

theorem dns_name_roundtrip:
  assumes "capacity \<le> length buffer" "offset \<le> length buffer" "name_ok name"
    "dns_write_name buffer capacity offset name = Some (Some (b, e))"
  shows "dns_read_name b offset 128 = Some (Some (name, e)) \<and> offset < e \<and> e \<le> capacity \<and>
    length b = length buffer \<and> take offset b = take offset buffer \<and> drop e b = drop e buffer"
proof -
  obtain bs where bs: "enc_name name = Some bs" "offset + length bs \<le> capacity" "b = paste buffer offset bs"
    "e = offset + length bs"
    using assms(4) unfolding dns_write_name_spec [OF assms(1,2)] by (auto split: option.splits if_splits)
  have "bs \<noteq> []" using bs(1) by (auto simp: enc_name_def)
  then show ?thesis
    using bs assms(1-3) read_name_enc [OF bs(1), of 128 offset b]
    by (auto simp: paste_length name_ok_def paste_def)
qed

theorem dns_name_roundtrip_witness:
  "\<exists>b e. dns_write_name (replicate 40 7) 40 12 ''camstream.local'' = Some (Some (b, e)) \<and>
     dns_read_name b 12 128 = Some (Some (''camstream.local'', e))"
proof -
  have "enc_name ''camstream.local'' = Some ([9] @ map byte ''camstream'' @ [5] @ map byte ''local'' @ [0])"
    by code_simp
  then obtain b e where "dns_write_name (replicate 40 7) 40 12 ''camstream.local'' = Some (Some (b, e))"
    by (auto simp: dns_write_name_spec)
  moreover have "name_ok ''camstream.local''" by (simp add: name_ok_def dot_def)
  ultimately show ?thesis
    using dns_name_roundtrip [of 40 "replicate 40 7" 12 "''camstream.local''"] by auto
qed

end
