(* ===== verification/Mdns.thy ===== *)
theory Mdns
  imports Dns_Codec
begin

text \<open>
  The multicast DNS responder (\<open>src/src/net/mdns.c\<close>): record sets and messages, query answering
  with known answer suppression, conflict handling with renames, the probing and announcing state
  machine, the interface scan and the life cycle. The sockets are an environment: \<open>Net\<close> says which
  calls succeed, the interface list and the received datagrams are arguments, and what the
  responder sends and which groups it joins are logged in the fields \<open>wire\<close> and \<open>memberships\<close>.
\<close>

section \<open>Constants and state\<close>

definition MDNS_PORT :: u16 where "MDNS_PORT = 5353"
definition MDNS_TTL_UNIQUE :: u32 where "MDNS_TTL_UNIQUE = 120"
definition MDNS_TTL_SHARED :: u32 where "MDNS_TTL_SHARED = 4500"
definition MDNS_TTL_LEGACY :: u32 where "MDNS_TTL_LEGACY = 10"
definition MDNS_PROBE_COUNT :: nat where "MDNS_PROBE_COUNT = 3"
definition MDNS_PROBE_INTERVAL_MS :: u64 where "MDNS_PROBE_INTERVAL_MS = 250"
definition MDNS_ANNOUNCE_COUNT :: nat where "MDNS_ANNOUNCE_COUNT = 2"
definition MDNS_ANNOUNCE_INTERVAL_MS :: u64 where "MDNS_ANNOUNCE_INTERVAL_MS = 1000"
definition MDNS_REPLY_DELAY_MIN_MS :: u64 where "MDNS_REPLY_DELAY_MIN_MS = 20"
definition MDNS_REPLY_DELAY_SPAN_MS :: u32 where "MDNS_REPLY_DELAY_SPAN_MS = 100"
definition MDNS_RESCAN_INTERVAL_MS :: u64 where "MDNS_RESCAN_INTERVAL_MS = 2000"
definition MDNS_CONFLICT_INTERVAL_MS :: u64 where "MDNS_CONFLICT_INTERVAL_MS = 1000"
definition MDNS_NAME_SUFFIX_MAX :: nat where "MDNS_NAME_SUFFIX_MAX = 9"
definition MDNS_PACKET_MAX :: nat where "MDNS_PACKET_MAX = 1400"
definition MDNS_QUESTIONS_MAX :: u16 where "MDNS_QUESTIONS_MAX = 8"
definition MDNS_RECORDS_MAX :: u16 where "MDNS_RECORDS_MAX = 64"
definition MDNS_RDATA_MAX :: nat where "MDNS_RDATA_MAX = 256"
definition MDNS_TXT_STRING_MAX :: nat where "MDNS_TXT_STRING_MAX = 200"
definition MDNS_NAME_MAX :: nat where "MDNS_NAME_MAX = 128"
definition MDNS_MAX_ADDRESSES :: nat where "MDNS_MAX_ADDRESSES = 8"
definition MDNS_TYPE_A :: u16 where "MDNS_TYPE_A = 1"
definition MDNS_TYPE_PTR :: u16 where "MDNS_TYPE_PTR = 12"
definition MDNS_TYPE_TXT :: u16 where "MDNS_TYPE_TXT = 16"
definition MDNS_TYPE_SRV :: u16 where "MDNS_TYPE_SRV = 33"
definition MDNS_TYPE_ANY :: u16 where "MDNS_TYPE_ANY = 255"
definition MDNS_CLASS_IN :: u16 where "MDNS_CLASS_IN = 1"
definition MDNS_CLASS_ANY :: u16 where "MDNS_CLASS_ANY = 255"
definition MDNS_CLASS_FLUSH :: u16 where "MDNS_CLASS_FLUSH = 0x8000"
definition MDNS_QU_BIT :: u16 where "MDNS_QU_BIT = 0x8000"
definition MDNS_FLAG_RESPONSE :: u16 where "MDNS_FLAG_RESPONSE = 0x8000"
definition MDNS_FLAG_AUTHORITATIVE :: u16 where "MDNS_FLAG_AUTHORITATIVE = 0x0400"
definition MDNS_OPCODE_MASK :: u16 where "MDNS_OPCODE_MASK = 0x7800"
definition GROUP_A :: u16 where "GROUP_A = 0x01"
definition GROUP_PTR :: u16 where "GROUP_PTR = 0x02"
definition GROUP_SRV_TXT :: u16 where "GROUP_SRV_TXT = 0x04"
definition GROUP_SERVICE_TYPES :: u16 where "GROUP_SERVICE_TYPES = 0x08"
definition GROUP_ALL :: u16 where "GROUP_ALL = GROUP_A OR GROUP_PTR OR GROUP_SRV_TXT OR GROUP_SERVICE_TYPES"

lemmas ttl_consts = MDNS_TTL_UNIQUE_def MDNS_TTL_SHARED_def MDNS_TTL_LEGACY_def
lemmas type_consts = MDNS_TYPE_A_def MDNS_TYPE_PTR_def MDNS_TYPE_TXT_def MDNS_TYPE_SRV_def MDNS_TYPE_ANY_def
lemmas class_consts = MDNS_CLASS_IN_def MDNS_CLASS_ANY_def MDNS_CLASS_FLUSH_def MDNS_QU_BIT_def
lemmas flag_consts = MDNS_FLAG_RESPONSE_def MDNS_FLAG_AUTHORITATIVE_def MDNS_OPCODE_MASK_def
lemmas group_consts = GROUP_A_def GROUP_PTR_def GROUP_SRV_TXT_def GROUP_SERVICE_TYPES_def GROUP_ALL_def
lemmas size_consts = MDNS_PACKET_MAX_def MDNS_RDATA_MAX_def MDNS_TXT_STRING_MAX_def MDNS_NAME_MAX_def MDNS_MAX_ADDRESSES_def

definition http_type :: string where "http_type = ''_http._tcp.local''"
definition services_type :: string where "services_type = ''_services._dns-sd._udp.local''"

record MdnsConfig =
  host :: string
  model :: string
  port :: u16
  srv_port :: u16
  has_send :: bool

record MdnsStats =
  queries :: u64
  responses :: u64
  announcements :: u64
  conflicts :: u64
  parse_errors :: u64
  socket_errors :: u64
  stat_addresses :: nat
  renamed :: bool
  disabled :: bool
  stat_name :: string

datatype MdnsState = MDNS_PROBING | MDNS_ANNOUNCING | MDNS_IDLE | MDNS_OFF

text \<open>A datagram on the wire: to the group from an interface, to a peer, or handed to the send hook.\<close>

datatype Datagram =
    ToGroup string bytes
  | ToPeer bytes u16 bytes
  | HookGroup bytes
  | HookPeer bytes u16 bytes

record MdnsResponder =
  config :: MdnsConfig
  fd :: int
  state :: MdnsState
  label :: string
  suffix :: nat
  probes_left :: nat
  announces_left :: nat
  next_event_ms :: u64
  pending_mask :: u16
  pending_ms :: u64
  next_scan_ms :: u64
  last_conflict_ms :: u64
  random_state :: u32
  socket_warned :: bool
  addresses :: "string list"
  stats :: MdnsStats
  wire :: "Datagram list"
  memberships :: "(string \<times> bool) list"

text \<open>The environment: which socket calls succeed, and what the uninitialised arrays hold.\<close>

record Net =
  if_ok :: "string \<Rightarrow> bool"
  group_ok :: "string \<Rightarrow> bool"
  peer_ok :: bool
  packet_stack :: bytes
  rdata_stack :: bytes

text \<open>Counters.\<close>

definition bump_queries :: "MdnsResponder \<Rightarrow> MdnsResponder" where
  "bump_queries r = r\<lparr>stats := (stats r)\<lparr>queries := queries (stats r) + 1\<rparr>\<rparr>"
definition bump_responses :: "MdnsResponder \<Rightarrow> MdnsResponder" where
  "bump_responses r = r\<lparr>stats := (stats r)\<lparr>responses := responses (stats r) + 1\<rparr>\<rparr>"
definition bump_announcements :: "MdnsResponder \<Rightarrow> MdnsResponder" where
  "bump_announcements r = r\<lparr>stats := (stats r)\<lparr>announcements := announcements (stats r) + 1\<rparr>\<rparr>"
definition bump_parse_errors :: "MdnsResponder \<Rightarrow> MdnsResponder" where
  "bump_parse_errors r = r\<lparr>stats := (stats r)\<lparr>parse_errors := parse_errors (stats r) + 1\<rparr>\<rparr>"
definition bump_socket_errors :: "MdnsResponder \<Rightarrow> MdnsResponder" where
  "bump_socket_errors r = r\<lparr>stats := (stats r)\<lparr>socket_errors := socket_errors (stats r) + 1\<rparr>\<rparr>"

lemmas bump_defs = bump_queries_def bump_responses_def bump_announcements_def bump_parse_errors_def bump_socket_errors_def

section \<open>Record data\<close>

text \<open>Each writes into \<open>out\<close> and returns the number of bytes, 0 for failure.\<close>

definition build_a_rdata :: "bytes \<Rightarrow> nat \<Rightarrow> string \<Rightarrow> (bytes \<times> nat) option" where
  "build_a_rdata out capacity ip =
     (if capacity < 4 then Some (out, 0)
      else case inet_pton ip of
        None \<Rightarrow> Some (out, 0)
      | Some addr \<Rightarrow> do { o1 \<leftarrow> memcpy_to out 0 addr; Some (o1, 4) })"

definition build_name_rdata :: "bytes \<Rightarrow> nat \<Rightarrow> string \<Rightarrow> (bytes \<times> nat) option" where
  "build_name_rdata out capacity name = do {
     written \<leftarrow> dns_write_name out capacity 0 name;
     Some (case written of None \<Rightarrow> (out, 0) | Some (o1, n) \<Rightarrow> (o1, n)) }"

definition build_srv_rdata :: "bytes \<Rightarrow> nat \<Rightarrow> u16 \<Rightarrow> string \<Rightarrow> (bytes \<times> nat) option" where
  "build_srv_rdata out capacity p target =
     (if capacity < 8 then Some (out, 0)
      else do {
        o1 \<leftarrow> write_be16 out 0 0;
        o1 \<leftarrow> write_be16 o1 2 0;
        o1 \<leftarrow> write_be16 o1 4 p;
        written \<leftarrow> dns_write_name o1 capacity 6 target;
        Some (case written of None \<Rightarrow> (o1, 0) | Some (o2, n) \<Rightarrow> (o2, n)) })"

definition build_txt_rdata :: "bytes \<Rightarrow> nat \<Rightarrow> string \<Rightarrow> (bytes \<times> nat) option" where
  "build_txt_rdata out capacity mdl =
     (let entries = ''model='' @ mdl; model_length = length entries; path = ''path=/''; path_length = length path in
      if model_length \<ge> MDNS_TXT_STRING_MAX then Some (out, 0)
      else if model_length > 255 \<or> capacity < 2 + model_length + path_length then Some (out, 0)
      else do {
        o1 \<leftarrow> wr out 0 (of_nat model_length);
        o1 \<leftarrow> memcpy_to o1 1 (map byte entries);
        o1 \<leftarrow> wr o1 (1 + model_length) (of_nat path_length);
        o1 \<leftarrow> memcpy_to o1 (2 + model_length) (map byte path);
        Some (o1, 2 + model_length + path_length) })"

definition host_name :: "MdnsResponder \<Rightarrow> string" where
  "host_name r = fit MDNS_NAME_MAX (label r @ ''.local'')"

definition instance_name :: "MdnsResponder \<Rightarrow> string" where
  "instance_name r = fit MDNS_NAME_MAX (label r @ ''._http._tcp.local'')"

section \<open>Messages\<close>

text \<open>Sequencing of steps that may return \<open>-1\<close>.\<close>

definition andthen :: "'a option option \<Rightarrow> ('a \<Rightarrow> 'b option option) \<Rightarrow> 'b option option" where
  "andthen m f = (case m of None \<Rightarrow> None | Some None \<Rightarrow> Some None | Some (Some x) \<Rightarrow> f x)"

record Build =
  b_buffer :: bytes
  b_offset :: nat
  b_rdata :: bytes
  b_records :: u16

definition emit_record ::
  "nat \<Rightarrow> string \<Rightarrow> u16 \<Rightarrow> u16 \<Rightarrow> u32 \<Rightarrow> bytes \<times> nat \<Rightarrow> Build \<Rightarrow> Build option option" where
  "emit_record capacity name type klass ttl built s =
     (case built of (rdata, n) \<Rightarrow>
        andthen (append_record (b_buffer s) capacity (b_offset s) name type klass ttl rdata n)
          (\<lambda>(b, e). Some (Some (s\<lparr>b_buffer := b, b_offset := e, b_rdata := rdata, b_records := b_records s + 1\<rparr>))))"

fun a_records :: "nat \<Rightarrow> string \<Rightarrow> u32 \<Rightarrow> string list \<Rightarrow> Build \<Rightarrow> Build option option" where
  "a_records capacity hname ttl [] s = Some (Some s)"
| "a_records capacity hname ttl (ip # ips) s = do {
     built \<leftarrow> build_a_rdata (b_rdata s) MDNS_RDATA_MAX ip;
     if snd built = 0 then a_records capacity hname ttl ips (s\<lparr>b_rdata := fst built\<rparr>)
     else andthen (emit_record capacity hname MDNS_TYPE_A (MDNS_CLASS_IN OR MDNS_CLASS_FLUSH) ttl built s)
            (a_records capacity hname ttl ips) }"

text \<open>A record whose data must not be empty.\<close>

definition must_record ::
  "nat \<Rightarrow> string \<Rightarrow> u16 \<Rightarrow> u16 \<Rightarrow> u32 \<Rightarrow> (bytes \<Rightarrow> (bytes \<times> nat) option) \<Rightarrow> Build \<Rightarrow> Build option option" where
  "must_record capacity name type klass ttl build s = do {
     built \<leftarrow> build (b_rdata s);
     if snd built = 0 then Some None else emit_record capacity name type klass ttl built s }"

definition build_record_set ::
  "MdnsResponder \<Rightarrow> nat \<Rightarrow> u16 \<Rightarrow> u32 \<Rightarrow> u32 \<Rightarrow> Build \<Rightarrow> Build option option" where
  "build_record_set r capacity m ttl_unique ttl_shared s =
     (let hname = host_name r; inst = instance_name r; flush = MDNS_CLASS_IN OR MDNS_CLASS_FLUSH;
          none = (\<lambda>s. Some (Some s)) in
      andthen ((if m AND GROUP_A \<noteq> 0 then a_records capacity hname ttl_unique (addresses r) else none) s) (\<lambda>s.
      andthen ((if m AND GROUP_PTR \<noteq> 0 then
          must_record capacity http_type MDNS_TYPE_PTR MDNS_CLASS_IN ttl_shared
            (\<lambda>rd. build_name_rdata rd MDNS_RDATA_MAX inst) else none) s) (\<lambda>s.
      andthen ((if m AND GROUP_SRV_TXT \<noteq> 0 then (\<lambda>s.
          andthen (must_record capacity inst MDNS_TYPE_SRV flush ttl_unique
              (\<lambda>rd. build_srv_rdata rd MDNS_RDATA_MAX (srv_port (config r)) hname) s)
            (must_record capacity inst MDNS_TYPE_TXT flush ttl_unique
              (\<lambda>rd. build_txt_rdata rd MDNS_RDATA_MAX (model (config r))))) else none) s) (\<lambda>s.
      (if m AND GROUP_SERVICE_TYPES \<noteq> 0 then
          must_record capacity services_type MDNS_TYPE_PTR MDNS_CLASS_IN ttl_shared
            (\<lambda>rd. build_name_rdata rd MDNS_RDATA_MAX http_type) else none) s))))"

text \<open>\<open>rdata\<close> is what the uninitialised scratch array holds at entry.\<close>

definition build_response ::
  "MdnsResponder \<Rightarrow> bytes \<Rightarrow> nat \<Rightarrow> bytes \<Rightarrow> u16 \<Rightarrow> u16 \<Rightarrow> u32 \<Rightarrow> u32 \<Rightarrow> (bytes \<times> nat) option option" where
  "build_response r buffer capacity rdata qid m ttl_unique ttl_shared =
     (if capacity < 12 then Some None
      else do {
        b \<leftarrow> memcpy_to buffer 0 (replicate 12 0);
        b \<leftarrow> write_be16 b 0 qid;
        b \<leftarrow> write_be16 b 2 (MDNS_FLAG_RESPONSE OR MDNS_FLAG_AUTHORITATIVE);
        andthen (build_record_set r capacity m ttl_unique ttl_shared
            \<lparr>b_buffer = b, b_offset = 12, b_rdata = rdata, b_records = 0\<rparr>)
          (\<lambda>s. do { b \<leftarrow> write_be16 (b_buffer s) 6 (b_records s); Some (Some (b, b_offset s)) }) })"

definition build_probe :: "MdnsResponder \<Rightarrow> bytes \<Rightarrow> nat \<Rightarrow> bytes \<Rightarrow> (bytes \<times> nat) option option" where
  "build_probe r buffer capacity rdata =
     (if capacity < 12 then Some None
      else do {
        b \<leftarrow> memcpy_to buffer 0 (replicate 12 0);
        andthen (build_record_set r capacity (GROUP_A OR GROUP_SRV_TXT) MDNS_TTL_UNIQUE MDNS_TTL_SHARED
            \<lparr>b_buffer = b, b_offset = 12, b_rdata = rdata, b_records = 0\<rparr>)
          (\<lambda>s. do { b \<leftarrow> write_be16 (b_buffer s) 8 (b_records s); Some (Some (b, b_offset s)) }) })"

section \<open>Sending\<close>

definition socket_error :: "MdnsResponder \<Rightarrow> MdnsResponder" where
  "socket_error r = (bump_socket_errors r)\<lparr>socket_warned := True\<rparr>"

definition send_to_peer :: "Net \<Rightarrow> bytes \<Rightarrow> bytes \<Rightarrow> u16 \<Rightarrow> MdnsResponder \<Rightarrow> MdnsResponder" where
  "send_to_peer net data peer_ip peer_port r =
     (if has_send (config r) then r\<lparr>wire := wire r @ [HookPeer peer_ip peer_port data]\<rparr>
      else if fd r < 0 then r
      else if peer_ok net then r\<lparr>wire := wire r @ [ToPeer peer_ip peer_port data]\<rparr>
      else socket_error r)"

fun group_loop :: "Net \<Rightarrow> bytes \<Rightarrow> string list \<Rightarrow> MdnsResponder \<Rightarrow> MdnsResponder" where
  "group_loop net data [] r = r"
| "group_loop net data (a # as) r =
     (if inet_pton a = None then group_loop net data as r
      else if \<not> if_ok net a then group_loop net data as (socket_error r)
      else if \<not> group_ok net a then group_loop net data as (socket_error r)
      else group_loop net data as (r\<lparr>wire := wire r @ [ToGroup a data]\<rparr>))"

definition send_to_group :: "Net \<Rightarrow> bytes \<Rightarrow> MdnsResponder \<Rightarrow> MdnsResponder" where
  "send_to_group net data r =
     (if has_send (config r) then r\<lparr>wire := wire r @ [HookGroup data]\<rparr>
      else if fd r < 0 then r
      else group_loop net data (addresses r) r)"

section \<open>Interfaces\<close>

definition set_membership :: "string \<Rightarrow> bool \<Rightarrow> MdnsResponder \<Rightarrow> MdnsResponder" where
  "set_membership ip join r =
     (if fd r < 0 \<or> inet_pton ip = None then r else r\<lparr>memberships := memberships r @ [(ip, join)]\<rparr>)"

definition address_is_ours :: "MdnsResponder \<Rightarrow> bytes \<Rightarrow> bool" where
  "address_is_ours r ip \<longleftrightarrow> list_ex (\<lambda>a. inet_pton a = Some ip) (addresses r)"

record IfAddr =
  is_inet :: bool
  is_up :: bool
  is_loopback :: bool
  if_text :: string

text \<open>The distinct addresses of the usable interfaces, at most eight.\<close>

fun find_addresses :: "IfAddr list \<Rightarrow> string list \<Rightarrow> string list" where
  "find_addresses [] found = found"
| "find_addresses (i # is) found =
     (if \<not> length found < MDNS_MAX_ADDRESSES then found
      else if \<not> is_inet i \<or> \<not> is_up i \<or> is_loopback i then find_addresses is found
      else if if_text i \<in> set found then find_addresses is found
      else find_addresses is (found @ [if_text i]))"

text \<open>
  The loop over the old addresses. Its test compares \<open>found[i]\<close> with every \<open>found[n]\<close>;
  reading \<open>found[i]\<close> behind \<open>found_count\<close> reads an element that was never written, which
  is \<open>None\<close>.
\<close>

fun leave_loop :: "string list \<Rightarrow> nat \<Rightarrow> string list \<Rightarrow> MdnsResponder \<Rightarrow> MdnsResponder option" where
  "leave_loop found i [] r = Some r"
| "leave_loop found i (old # olds) r = do {
     still_there \<leftarrow> (if found = [] then Some False else do { f \<leftarrow> rd found i; Some (f \<in> set found) });
     leave_loop found (i + 1) olds (if still_there then r else set_membership old False r) }"

fun join_loop :: "string list \<Rightarrow> string list \<Rightarrow> MdnsResponder \<Rightarrow> MdnsResponder" where
  "join_loop olds [] r = r"
| "join_loop olds (f # fs) r = join_loop olds fs (if f \<in> set olds then r else set_membership f True r)"

text \<open>\<open>ifs\<close> is the list of \<open>getifaddrs\<close>, \<open>None\<close> when it failed.\<close>

definition scan_addresses :: "IfAddr list option \<Rightarrow> MdnsResponder \<Rightarrow> (bool \<times> MdnsResponder) option" where
  "scan_addresses ifs r = (case ifs of
       None \<Rightarrow> Some (False, socket_error r)
     | Some is \<Rightarrow>
         (let found = find_addresses is [];
              changed = (length found \<noteq> length (addresses r) \<or> \<not> list_all (\<lambda>f. f \<in> set (addresses r)) found) in
          if \<not> changed then Some (False, r)
          else do {
            r1 \<leftarrow> leave_loop found 0 (addresses r) r;
            let r2 = join_loop (addresses r) found r1;
            Some (True, r2\<lparr>addresses := found, stats := (stats r2)\<lparr>stat_addresses := length found\<rparr>\<rparr>) }))"

section \<open>Queries\<close>

definition answer_mask :: "MdnsResponder \<Rightarrow> string \<Rightarrow> u16 \<Rightarrow> u16" where
  "answer_mask r name qtype =
     (let wants_all = (qtype = MDNS_TYPE_ANY) in
      (if strcaseeq name (host_name r) \<and> (wants_all \<or> qtype = MDNS_TYPE_A) then GROUP_A else 0) OR
      (if strcaseeq name http_type \<and> (wants_all \<or> qtype = MDNS_TYPE_PTR) then GROUP_PTR OR GROUP_SRV_TXT else 0) OR
      (if strcaseeq name (instance_name r) \<and> (wants_all \<or> qtype = MDNS_TYPE_SRV \<or> qtype = MDNS_TYPE_TXT)
       then GROUP_SRV_TXT else 0) OR
      (if strcaseeq name services_type \<and> (wants_all \<or> qtype = MDNS_TYPE_PTR) then GROUP_SERVICE_TYPES else 0))"

text \<open>\<open>expected_length == rdata_length && memcmp(expected, packet + rdata_offset, rdata_length) == 0\<close>\<close>

definition same_data :: "(bytes \<times> nat) option \<Rightarrow> bytes \<Rightarrow> nat \<Rightarrow> nat \<Rightarrow> bool option" where
  "same_data built packet rdata_offset rdata_length = do {
     (expected, n) \<leftarrow> built;
     if n = rdata_length then do {
       a \<leftarrow> rd_range expected 0 n;
       b \<leftarrow> rd_range packet rdata_offset n;
       Some (a = b) }
     else Some False }"

fun any_address :: "bytes \<Rightarrow> string list \<Rightarrow> bytes \<Rightarrow> nat \<Rightarrow> nat \<Rightarrow> bool option" where
  "any_address expected [] packet off n = Some False"
| "any_address expected (a # as) packet off n = do {
     same \<leftarrow> same_data (build_a_rdata expected MDNS_RDATA_MAX a) packet off n;
     if same then Some True else any_address expected as packet off n }"

record Known =
  addresses_known :: nat
  ptr_known :: bool
  srv_known :: bool
  txt_known :: bool
  services_known :: bool

definition reads_as :: "bytes \<Rightarrow> nat \<Rightarrow> string \<Rightarrow> bool option" where
  "reads_as packet off name = do {
     t \<leftarrow> dns_read_name packet off MDNS_NAME_MAX;
     Some (case t of None \<Rightarrow> False | Some (target, _) \<Rightarrow> strcaseeq target name) }"

definition note_known ::
  "MdnsResponder \<Rightarrow> bytes \<Rightarrow> bytes \<Rightarrow> string \<Rightarrow> u16 \<Rightarrow> u32 \<Rightarrow> nat \<Rightarrow> nat \<Rightarrow> Known \<Rightarrow> Known option" where
  "note_known r expected packet name type ttl off n k =
     (if type = MDNS_TYPE_A \<and> strcaseeq name (host_name r) \<and> n = 4 \<and> ttl \<ge> MDNS_TTL_UNIQUE div 2 then do {
        hit \<leftarrow> any_address expected (addresses r) packet off 4;
        Some (if hit then k\<lparr>addresses_known := addresses_known k + 1\<rparr> else k) }
      else if type = MDNS_TYPE_PTR \<and> strcaseeq name http_type \<and> ttl \<ge> MDNS_TTL_SHARED div 2 \<and> n < MDNS_RDATA_MAX then do {
        hit \<leftarrow> reads_as packet off (instance_name r);
        Some (if hit then k\<lparr>ptr_known := True\<rparr> else k) }
      else if type = MDNS_TYPE_SRV \<and> strcaseeq name (instance_name r) \<and> ttl \<ge> MDNS_TTL_UNIQUE div 2 then do {
        hit \<leftarrow> same_data (build_srv_rdata expected MDNS_RDATA_MAX (srv_port (config r)) (host_name r)) packet off n;
        Some (if hit then k\<lparr>srv_known := True\<rparr> else k) }
      else if type = MDNS_TYPE_TXT \<and> strcaseeq name (instance_name r) \<and> ttl \<ge> MDNS_TTL_UNIQUE div 2 then do {
        hit \<leftarrow> same_data (build_txt_rdata expected MDNS_RDATA_MAX (model (config r))) packet off n;
        Some (if hit then k\<lparr>txt_known := True\<rparr> else k) }
      else if type = MDNS_TYPE_PTR \<and> strcaseeq name services_type \<and> ttl \<ge> MDNS_TTL_SHARED div 2 then do {
        hit \<leftarrow> reads_as packet off http_type;
        Some (if hit then k\<lparr>services_known := True\<rparr> else k) }
      else Some k)"

fun known_loop :: "MdnsResponder \<Rightarrow> bytes \<Rightarrow> bytes \<Rightarrow> nat \<Rightarrow> nat \<Rightarrow> Known \<Rightarrow> Known option" where
  "known_loop r expected packet 0 offset k = Some k"
| "known_loop r expected packet (Suc n) offset k = do {
     rec \<leftarrow> read_record packet offset MDNS_NAME_MAX;
     case rec of
       None \<Rightarrow> Some k
     | Some (name, type, ttl, rdata_offset, rdata_length) \<Rightarrow> do {
         k \<leftarrow> note_known r expected packet name type ttl rdata_offset rdata_length k;
         known_loop r expected packet n (rdata_offset + rdata_length) k } }"

definition suppress_known_answers :: "MdnsResponder \<Rightarrow> bytes \<Rightarrow> bytes \<Rightarrow> nat \<Rightarrow> u16 \<Rightarrow> u16 option" where
  "suppress_known_answers r expected packet offset n = do {
     k \<leftarrow> known_loop r expected packet (unat n) offset
       \<lparr>addresses_known = 0, ptr_known = False, srv_known = False, txt_known = False, services_known = False\<rparr>;
     Some ((if addresses_known k = length (addresses r) \<and> length (addresses r) > 0 then GROUP_A else 0) OR
       (if ptr_known k then GROUP_PTR else 0) OR
       (if srv_known k \<and> txt_known k then GROUP_SRV_TXT else 0) OR
       (if services_known k then GROUP_SERVICE_TYPES else 0)) }"

section \<open>Conflicts\<close>

definition record_matches_ours ::
  "MdnsResponder \<Rightarrow> bytes \<Rightarrow> bytes \<Rightarrow> string \<Rightarrow> u16 \<Rightarrow> nat \<Rightarrow> nat \<Rightarrow> bool option" where
  "record_matches_ours r expected packet name type off n =
     (if type = MDNS_TYPE_A \<and> strcaseeq name (host_name r) then any_address expected (addresses r) packet off n
      else if type = MDNS_TYPE_SRV \<and> strcaseeq name (instance_name r) then
        same_data (build_srv_rdata expected MDNS_RDATA_MAX (srv_port (config r)) (host_name r)) packet off n
      else if type = MDNS_TYPE_TXT \<and> strcaseeq name (instance_name r) then
        same_data (build_txt_rdata expected MDNS_RDATA_MAX (model (config r))) packet off n
      else Some False)"

definition count_conflict :: "MdnsResponder \<Rightarrow> MdnsResponder" where
  "count_conflict r = r\<lparr>stats := (stats r)\<lparr>conflicts := conflicts (stats r) + 1\<rparr>\<rparr>"

definition rename_after_conflict :: "u64 \<Rightarrow> MdnsResponder \<Rightarrow> MdnsResponder" where
  "rename_after_conflict time_now r0 =
     (let r = count_conflict r0 in
      if time_now - last_conflict_ms r < MDNS_CONFLICT_INTERVAL_MS then r
      else
        (let r = r\<lparr>last_conflict_ms := time_now\<rparr> in
         if suffix r \<ge> MDNS_NAME_SUFFIX_MAX then r\<lparr>state := MDNS_OFF, stats := (stats r)\<lparr>disabled := True\<rparr>\<rparr>
         else
           (let n = suffix r + 1 in
            r\<lparr>suffix := n, label := fit 80 (host (config r) @ ''-'' @ show_nat (n + 1)),
              stats := (stats r)\<lparr>renamed := True\<rparr>, state := MDNS_PROBING, probes_left := MDNS_PROBE_COUNT,
              next_event_ms := time_now + MDNS_PROBE_INTERVAL_MS\<rparr>)))"

text \<open>The question section is skipped; \<open>None\<close> inside: it does not parse.\<close>

fun skip_questions :: "bytes \<Rightarrow> nat \<Rightarrow> nat \<Rightarrow> nat option option" where
  "skip_questions packet 0 offset = Some (Some offset)"
| "skip_questions packet (Suc n) offset = do {
     q \<leftarrow> dns_read_name packet offset MDNS_NAME_MAX;
     case q of
       None \<Rightarrow> Some None
     | Some (_, next) \<Rightarrow> if next + 4 > length packet then Some None else skip_questions packet n (next + 4) }"

fun response_loop :: "u64 \<Rightarrow> bytes \<Rightarrow> bytes \<Rightarrow> nat \<Rightarrow> nat \<Rightarrow> MdnsResponder \<Rightarrow> MdnsResponder option" where
  "response_loop time_now expected packet 0 offset r = Some r"
| "response_loop time_now expected packet (Suc n) offset r = do {
     rec \<leftarrow> read_record packet offset MDNS_NAME_MAX;
     case rec of
       None \<Rightarrow> Some r
     | Some (name, type, ttl, rdata_offset, rdata_length) \<Rightarrow>
         if strcaseeq name (host_name r) \<and> type = MDNS_TYPE_A \<or>
            strcaseeq name (instance_name r) \<and> (type = MDNS_TYPE_SRV \<or> type = MDNS_TYPE_TXT)
         then do {
           ours \<leftarrow> record_matches_ours r expected packet name type rdata_offset rdata_length;
           if ours then response_loop time_now expected packet n (rdata_offset + rdata_length) r
           else Some (rename_after_conflict time_now r) }
         else response_loop time_now expected packet n (rdata_offset + rdata_length) r }"

definition handle_response :: "bytes \<Rightarrow> bytes \<Rightarrow> u16 \<Rightarrow> u16 \<Rightarrow> u64 \<Rightarrow> MdnsResponder \<Rightarrow> MdnsResponder option" where
  "handle_response expected packet question_count record_count time_now r = do {
     q \<leftarrow> skip_questions packet (unat question_count) 12;
     case q of
       None \<Rightarrow> Some r
     | Some offset \<Rightarrow> response_loop time_now expected packet (min (unat record_count) (unat MDNS_RECORDS_MAX)) offset r }"

section \<open>The responder\<close>

definition next_random :: "MdnsResponder \<Rightarrow> u32 \<times> MdnsResponder" where
  "next_random r =
     (let s = random_state r * 1103515245 + 12345 in (drop_bit 16 s AND 0x7FFF, r\<lparr>random_state := s\<rparr>))"

text \<open>Send the message that was built, or count the failure.\<close>

definition send_built :: "Net \<Rightarrow> (bytes \<times> nat) option \<Rightarrow> (MdnsResponder \<Rightarrow> MdnsResponder) \<Rightarrow> MdnsResponder \<Rightarrow> MdnsResponder option" where
  "send_built net built after r = (case built of
       None \<Rightarrow> Some (bump_socket_errors r)
     | Some (b, n) \<Rightarrow> do { data \<leftarrow> rd_range b 0 n; Some (after (send_to_group net data r)) })"

definition send_probe :: "Net \<Rightarrow> MdnsResponder \<Rightarrow> MdnsResponder option" where
  "send_probe net r = do {
     built \<leftarrow> build_probe r (packet_stack net) MDNS_PACKET_MAX (rdata_stack net);
     send_built net built bump_announcements r }"

definition send_announcement :: "Net \<Rightarrow> MdnsResponder \<Rightarrow> MdnsResponder option" where
  "send_announcement net r = do {
     built \<leftarrow> build_response r (packet_stack net) MDNS_PACKET_MAX (rdata_stack net) 0 GROUP_ALL MDNS_TTL_UNIQUE MDNS_TTL_SHARED;
     send_built net built bump_announcements r }"

definition send_goodbye :: "Net \<Rightarrow> MdnsResponder \<Rightarrow> MdnsResponder option" where
  "send_goodbye net r =
     (if state r = MDNS_OFF \<or> addresses r = [] then Some r
      else do {
        built \<leftarrow> build_response r (packet_stack net) MDNS_PACKET_MAX (rdata_stack net) 0 GROUP_ALL 0 0;
        send_built net built id r })"

definition maybe_answer_multicast :: "Net \<Rightarrow> u64 \<Rightarrow> MdnsResponder \<Rightarrow> MdnsResponder option" where
  "maybe_answer_multicast net time_now r =
     (if pending_ms r = 0 \<or> time_now < pending_ms r then Some r
      else do {
        built \<leftarrow> build_response r (packet_stack net) MDNS_PACKET_MAX (rdata_stack net) 0 (pending_mask r)
          MDNS_TTL_UNIQUE MDNS_TTL_SHARED;
        r \<leftarrow> send_built net built bump_responses r;
        Some (r\<lparr>pending_ms := 0, pending_mask := 0\<rparr>) })"

text \<open>The question loop: the groups asked for, the unicast flag and the offset behind; \<open>None\<close> inside: parse error.\<close>

fun question_loop :: "MdnsResponder \<Rightarrow> bytes \<Rightarrow> nat \<Rightarrow> nat \<Rightarrow> bool \<Rightarrow> u16 \<Rightarrow> (nat \<times> bool \<times> u16) option option" where
  "question_loop r packet 0 offset unicast m = Some (Some (offset, unicast, m))"
| "question_loop r packet (Suc n) offset unicast m = do {
     q \<leftarrow> dns_read_name packet offset MDNS_NAME_MAX;
     case q of
       None \<Rightarrow> Some None
     | Some (name, next) \<Rightarrow>
         if next + 4 > length packet then Some None
         else do {
           type \<leftarrow> read_be16 packet next;
           qclass \<leftarrow> read_be16 packet (next + 2);
           let unicast = (unicast \<or> qclass AND MDNS_QU_BIT \<noteq> 0);
           let klass = qclass AND 0x7FFF;
           question_loop r packet n (next + 4) unicast
             (if klass \<noteq> MDNS_CLASS_IN \<and> klass \<noteq> MDNS_CLASS_ANY then m else m OR answer_mask r name type) } }"

definition schedule_reply :: "u64 \<Rightarrow> u16 \<Rightarrow> MdnsResponder \<Rightarrow> MdnsResponder" where
  "schedule_reply time_now m r =
     (let r = (if pending_ms r = 0
               then (let (x, r) = next_random r; jitter = x mod MDNS_REPLY_DELAY_SPAN_MS in
                 r\<lparr>pending_ms := time_now + MDNS_REPLY_DELAY_MIN_MS + ucast jitter\<rparr>)
               else r)
      in r\<lparr>pending_mask := pending_mask r OR m\<rparr>)"

definition answer_query :: "Net \<Rightarrow> u16 \<Rightarrow> bool \<Rightarrow> u16 \<Rightarrow> bytes \<Rightarrow> u16 \<Rightarrow> u64 \<Rightarrow> MdnsResponder \<Rightarrow> MdnsResponder option" where
  "answer_query net qid unicast m peer_ip peer_port time_now r =
     (if m = 0 then Some r
      else if unicast then do {
        built \<leftarrow> build_response r (packet_stack net) MDNS_PACKET_MAX (rdata_stack net) qid m MDNS_TTL_LEGACY MDNS_TTL_LEGACY;
        case built of
          None \<Rightarrow> Some (bump_socket_errors r)
        | Some (b, n) \<Rightarrow> do {
            data \<leftarrow> rd_range b 0 n;
            Some (bump_responses (send_to_peer net data peer_ip peer_port r)) } }
      else Some (schedule_reply time_now m r))"

definition handle_query ::
  "Net \<Rightarrow> bytes \<Rightarrow> u16 \<Rightarrow> u16 \<Rightarrow> u16 \<Rightarrow> bytes \<Rightarrow> u16 \<Rightarrow> u64 \<Rightarrow> MdnsResponder \<Rightarrow> MdnsResponder option" where
  "handle_query net packet qid question_count answer_count peer_ip peer_port time_now r = do {
     q \<leftarrow> question_loop r packet (unat question_count) 12 (peer_port \<noteq> MDNS_PORT) 0;
     case q of
       None \<Rightarrow> Some (bump_parse_errors r)
     | Some (offset, unicast, m) \<Rightarrow>
         (let r = bump_queries r in
          if state r = MDNS_PROBING then Some r
          else if m = 0 then Some r
          else do {
            m \<leftarrow> (if answer_count > 0
              then do { known \<leftarrow> suppress_known_answers r (rdata_stack net) packet offset answer_count; Some (m AND NOT known) }
              else Some m);
            answer_query net qid unicast m peer_ip peer_port time_now r }) }"

definition handle_message :: "Net \<Rightarrow> bytes \<Rightarrow> bytes \<Rightarrow> u16 \<Rightarrow> u64 \<Rightarrow> MdnsResponder \<Rightarrow> MdnsResponder option" where
  "handle_message net packet peer_ip peer_port time_now r =
     (if state r = MDNS_OFF then Some r
      else if length packet < 12 \<or> length packet > MDNS_PACKET_MAX then Some (bump_parse_errors r)
      else do {
        qid \<leftarrow> read_be16 packet 0;
        flags \<leftarrow> read_be16 packet 2;
        question_count \<leftarrow> read_be16 packet 4;
        answer_count \<leftarrow> read_be16 packet 6;
        authority_count \<leftarrow> read_be16 packet 8;
        additional_count \<leftarrow> read_be16 packet 10;
        if flags AND MDNS_OPCODE_MASK \<noteq> 0 \<or> question_count > MDNS_QUESTIONS_MAX \<or>
           answer_count > MDNS_RECORDS_MAX \<or> authority_count > MDNS_RECORDS_MAX \<or> additional_count > MDNS_RECORDS_MAX
        then Some (bump_parse_errors r)
        else if flags AND MDNS_FLAG_RESPONSE \<noteq> 0
        then handle_response (rdata_stack net) packet question_count (answer_count + authority_count + additional_count) time_now r
        else if question_count = 0 then Some r
        else handle_query net packet qid question_count answer_count peer_ip peer_port time_now r })"

definition mdns_handle_packet ::
  "Net \<Rightarrow> bytes \<Rightarrow> bytes \<Rightarrow> u16 \<Rightarrow> u64 \<Rightarrow> MdnsResponder option \<Rightarrow> MdnsResponder option option" where
  "mdns_handle_packet net packet peer_ip peer_port time_now responder = (case responder of
       None \<Rightarrow> Some None
     | Some r \<Rightarrow> map_option Some (handle_message net packet peer_ip peer_port time_now r))"

text \<open>The timers: the rescan, the pending reply, then one step of the probe and announce machine.\<close>

definition rescan :: "IfAddr list option \<Rightarrow> u64 \<Rightarrow> MdnsResponder \<Rightarrow> MdnsResponder option" where
  "rescan ifs time_now r =
     (if time_now \<ge> next_scan_ms r then do {
        (changed, r) \<leftarrow> scan_addresses ifs (r\<lparr>next_scan_ms := time_now + MDNS_RESCAN_INTERVAL_MS\<rparr>);
        Some (if changed \<and> addresses r \<noteq> [] \<and> (state r = MDNS_IDLE \<or> state r = MDNS_ANNOUNCING)
          then r\<lparr>state := MDNS_ANNOUNCING, announces_left := MDNS_ANNOUNCE_COUNT, next_event_ms := time_now\<rparr>
          else r) }
      else Some r)"

definition probe_step :: "Net \<Rightarrow> u64 \<Rightarrow> MdnsResponder \<Rightarrow> MdnsResponder option" where
  "probe_step net time_now r =
     (if probes_left r > 0 then do {
        r \<leftarrow> send_probe net r;
        let r = r\<lparr>probes_left := probes_left r - 1, next_event_ms := time_now + MDNS_PROBE_INTERVAL_MS\<rparr>;
        Some (if probes_left r = 0
          then r\<lparr>state := MDNS_ANNOUNCING, announces_left := MDNS_ANNOUNCE_COUNT,
                 next_event_ms := time_now + MDNS_PROBE_INTERVAL_MS\<rparr>
          else r) }
      else Some r)"

definition announce_step :: "Net \<Rightarrow> u64 \<Rightarrow> MdnsResponder \<Rightarrow> MdnsResponder option" where
  "announce_step net time_now r = do {
     r \<leftarrow> (if announces_left r > 0 then do {
         r \<leftarrow> send_announcement net r;
         Some (r\<lparr>announces_left := announces_left r - 1, next_event_ms := time_now + MDNS_ANNOUNCE_INTERVAL_MS\<rparr>) }
       else Some r);
     Some (if announces_left r = 0 then r\<lparr>state := MDNS_IDLE\<rparr> else r) }"

definition timer_step :: "Net \<Rightarrow> u64 \<Rightarrow> MdnsResponder \<Rightarrow> MdnsResponder option" where
  "timer_step net time_now r =
     (if state r = MDNS_OFF then Some r
      else if time_now < next_event_ms r then Some r
      else case state r of
        MDNS_PROBING \<Rightarrow> probe_step net time_now r
      | MDNS_ANNOUNCING \<Rightarrow> announce_step net time_now r
      | _ \<Rightarrow> Some r)"

definition mdns_service :: "Net \<Rightarrow> IfAddr list option \<Rightarrow> u64 \<Rightarrow> MdnsResponder option \<Rightarrow> MdnsResponder option option" where
  "mdns_service net ifs time_now responder = (case responder of
       None \<Rightarrow> Some None
     | Some r \<Rightarrow> do {
         r \<leftarrow> rescan ifs time_now r;
         r \<leftarrow> maybe_answer_multicast net time_now r;
         r \<leftarrow> timer_step net time_now r;
         Some (Some r) })"

text \<open>What \<open>recvfrom\<close> returns: a datagram, nothing left, or an error.\<close>

datatype Received =
    Received bool bytes u16 bytes
  | ReceiveEmpty
  | ReceiveError

fun receive_loop :: "Net \<Rightarrow> u64 \<Rightarrow> Received list \<Rightarrow> MdnsResponder \<Rightarrow> MdnsResponder option" where
  "receive_loop net time_now [] r = Some r"
| "receive_loop net time_now (ReceiveEmpty # rest) r = Some r"
| "receive_loop net time_now (ReceiveError # rest) r = Some (socket_error r)"
| "receive_loop net time_now (Received inet ip p data # rest) r =
     (if data = [] \<or> \<not> inet then receive_loop net time_now rest r
      else if p = port (config r) \<and> address_is_ours r ip then receive_loop net time_now rest r
      else do {
        r \<leftarrow> handle_message net (take MDNS_PACKET_MAX data) ip p time_now r;
        receive_loop net time_now rest r })"

definition mdns_readable :: "Net \<Rightarrow> u64 \<Rightarrow> Received list \<Rightarrow> MdnsResponder option \<Rightarrow> MdnsResponder option option" where
  "mdns_readable net time_now arrivals responder = (case responder of
       None \<Rightarrow> Some None
     | Some r \<Rightarrow> if fd r < 0 then Some (Some r) else map_option Some (receive_loop net time_now arrivals r))"

section \<open>Life cycle\<close>

definition host_char :: "char \<Rightarrow> bool" where
  "host_char c \<longleftrightarrow> (let n = (of_char c :: nat) in 97 \<le> n \<and> n \<le> 122 \<or> 48 \<le> n \<and> n \<le> 57 \<or> c = CHR ''-'')"

definition sanitize_label :: "MdnsConfig \<Rightarrow> MdnsConfig" where
  "sanitize_label c =
     (let cleaned = takeWhile host_char (take 63 (map tolower (host c))) in
      c\<lparr>host := fit 64 (if cleaned = [] then ''camstream'' else cleaned)\<rparr>)"

definition zero_stats :: MdnsStats where
  "zero_stats = \<lparr>queries = 0, responses = 0, announcements = 0, conflicts = 0, parse_errors = 0, socket_errors = 0,
     stat_addresses = 0, renamed = False, disabled = False, stat_name = []\<rparr>"

fun join_all :: "string list \<Rightarrow> MdnsResponder \<Rightarrow> MdnsResponder" where
  "join_all [] r = r"
| "join_all (a # as) r = join_all as (set_membership a True r)"

definition fresh_responder :: "MdnsConfig \<Rightarrow> u32 \<Rightarrow> MdnsResponder" where
  "fresh_responder cfg seed =
     (let c = sanitize_label cfg; c = (if model c = [] then c\<lparr>model := fit 64 ''camstream''\<rparr> else c); l = fit 80 (host c) in
      \<lparr>config = c, fd = -1, state = MDNS_PROBING, label = l, suffix = 0, probes_left = MDNS_PROBE_COUNT,
       announces_left = 0, next_event_ms = 0, pending_mask = 0, pending_ms = 0, next_scan_ms = 0, last_conflict_ms = 0,
       random_state = seed, socket_warned = False, addresses = [],
       stats = zero_stats\<lparr>stat_name := fit MDNS_NAME_MAX (l @ ''.local'')\<rparr>, wire = [], memberships = []\<rparr>)"

text \<open>
  \<open>memory_ok\<close> is whether \<open>calloc\<close> succeeds, \<open>sock\<close> what \<open>socket\<close> returns, \<open>bind_ok\<close> whether
  \<open>bind\<close> succeeds, and \<open>seed\<close> the clock mixed with the process id.
\<close>

definition mdns_responder_create ::
  "bool \<Rightarrow> int \<Rightarrow> bool \<Rightarrow> u32 \<Rightarrow> u64 \<Rightarrow> IfAddr list option \<Rightarrow> MdnsConfig option \<Rightarrow> MdnsResponder option option" where
  "mdns_responder_create memory_ok sock bind_ok seed now ifs cfg = (case cfg of
       None \<Rightarrow> Some None
     | Some c \<Rightarrow>
         if \<not> memory_ok then Some None
         else do {
           (_, r) \<leftarrow> scan_addresses ifs (fresh_responder c seed);
           if port (config r) \<noteq> 0 then
             (if sock < 0 \<or> \<not> bind_ok then Some None
              else Some (Some ((join_all (addresses r) (r\<lparr>fd := sock\<rparr>))\<lparr>next_event_ms := now + MDNS_PROBE_INTERVAL_MS\<rparr>)))
           else Some (Some (r\<lparr>next_event_ms := now + MDNS_PROBE_INTERVAL_MS\<rparr>)) })"

text \<open>The last state of the responder, which is then freed.\<close>

definition mdns_responder_destroy :: "Net \<Rightarrow> MdnsResponder option \<Rightarrow> MdnsResponder option option" where
  "mdns_responder_destroy net responder = (case responder of
       None \<Rightarrow> Some None
     | Some r \<Rightarrow> do { r \<leftarrow> send_goodbye net r; Some (Some (r\<lparr>fd := -1\<rparr>)) })"

definition mdns_fd :: "MdnsResponder option \<Rightarrow> int" where
  "mdns_fd responder = (case responder of None \<Rightarrow> -1 | Some r \<Rightarrow> fd r)"

definition mdns_responder_name :: "MdnsResponder option \<Rightarrow> string" where
  "mdns_responder_name responder = (case responder of None \<Rightarrow> [] | Some r \<Rightarrow> stat_name (stats r))"

definition mdns_responder_get_stats :: "MdnsResponder option \<Rightarrow> (MdnsStats \<times> string list) option" where
  "mdns_responder_get_stats responder = (case responder of
       None \<Rightarrow> None
     | Some r \<Rightarrow> Some ((stats r)\<lparr>stat_name := fit MDNS_NAME_MAX (label r @ ''.local'')\<rparr>, addresses r))"

section \<open>Lemmas on messages\<close>

subsection \<open>Record data\<close>

text \<open>
  \<open>builds f d\<close>: into any scratch array, \<open>f\<close> writes the data \<open>d\<close> at the front and returns its
  length; empty data is failure.
\<close>

definition builds :: "(bytes \<Rightarrow> (bytes \<times> nat) option) \<Rightarrow> bytes \<Rightarrow> bool" where
  "builds f d \<longleftrightarrow> (\<forall>out. length out = MDNS_RDATA_MAX \<longrightarrow>
     (\<exists>o1. f out = Some (o1, length d) \<and> length o1 = MDNS_RDATA_MAX \<and> take (length d) o1 = d))"

lemma buildsE:
  assumes "builds f d" "length out = MDNS_RDATA_MAX"
  obtains o1 where "f out = Some (o1, length d)" "length o1 = MDNS_RDATA_MAX" "take (length d) o1 = d" "length d \<le> length o1"
proof -
  obtain o1 where o1: "f out = Some (o1, length d)" "length o1 = MDNS_RDATA_MAX" "take (length d) o1 = d"
    using assms unfolding builds_def by blast
  moreover from o1(3) have "length d \<le> length o1" by (metis nat_le_linear take_all)
  ultimately show thesis using that by blast
qed

definition a_data :: "string \<Rightarrow> bytes" where
  "a_data ip = (case inet_pton ip of None \<Rightarrow> [] | Some a \<Rightarrow> a)"

definition fits_rdata :: "bytes \<Rightarrow> bytes" where
  "fits_rdata d = (if length d \<le> MDNS_RDATA_MAX then d else [])"

definition name_data :: "string \<Rightarrow> bytes" where
  "name_data name = (case enc_name name of None \<Rightarrow> [] | Some bs \<Rightarrow> fits_rdata bs)"

definition srv_data :: "u16 \<Rightarrow> string \<Rightarrow> bytes" where
  "srv_data p target = (case enc_name target of
     None \<Rightarrow> [] | Some bs \<Rightarrow> fits_rdata (be16_bytes 0 @ be16_bytes 0 @ be16_bytes p @ bs))"

definition txt_data :: "string \<Rightarrow> bytes" where
  "txt_data mdl =
     (if length mdl + 6 < MDNS_TXT_STRING_MAX
      then of_nat (6 + length mdl) # map byte (''model='' @ mdl) @ 6 # map byte ''path=/'' else [])"

lemma length_inet_pton: "inet_pton ip = Some a \<Longrightarrow> length a = 4"
  by (auto simp: inet_pton_def inet_pton4_def Let_def split: if_splits)

lemma builds_a: "builds (\<lambda>rd. build_a_rdata rd MDNS_RDATA_MAX ip) (a_data ip)"
  unfolding builds_def build_a_rdata_def a_data_def
  by (auto simp: size_consts dest: length_inet_pton split: option.split)

lemma take_paste: "off + length bs \<le> length b \<Longrightarrow> take (off + length bs) (paste b off bs) = take off b @ bs"
  by (simp add: paste_def)

lemma builds_name: "builds (\<lambda>rd. build_name_rdata rd MDNS_RDATA_MAX name) (name_data name)"
  unfolding builds_def
proof (intro allI impI)
  fix out :: bytes assume len: "length out = MDNS_RDATA_MAX"
  show "\<exists>o1. build_name_rdata out MDNS_RDATA_MAX name = Some (o1, length (name_data name)) \<and> length o1 = MDNS_RDATA_MAX \<and>
      take (length (name_data name)) o1 = name_data name"
    using len take_paste [of 0 _ out]
    by (auto simp: build_name_rdata_def dns_write_name_spec name_data_def fits_rdata_def paste_length split: option.split)
qed

lemma builds_srv: "builds (\<lambda>rd. build_srv_rdata rd MDNS_RDATA_MAX p target) (srv_data p target)"
  unfolding builds_def
proof (intro allI impI)
  fix out :: bytes assume len: "length out = MDNS_RDATA_MAX"
  define hd where "hd = be16_bytes 0 @ be16_bytes 0 @ be16_bytes p"
  define o1 where "o1 = paste out 0 hd"
  have hd: "length hd = 6" by (simp add: hd_def)
  have l: "length out = 256" using len by (simp add: size_consts)
  have "do { a \<leftarrow> write_be16 out 0 0; a \<leftarrow> write_be16 a 2 0; write_be16 a 4 p } = Some o1"
    unfolding write_be16_def o1_def hd_def using l
    by (simp add: memcpy_paste memcpy_paste_next del: memcpy_to_in)
  then have h: "do { a \<leftarrow> write_be16 out 0 0; a \<leftarrow> write_be16 a 2 0; a \<leftarrow> write_be16 a 4 p; f a } = f o1" for f :: "bytes \<Rightarrow> (bytes \<times> nat) option"
    by (metis bind.bind_lunit bind_assoc)
  have lo: "length o1 = 256" using l hd by (simp add: o1_def paste_length)
  have pp: "paste o1 6 bs = paste out 0 (hd @ bs)" if "6 + length bs \<le> 256" for bs
    using paste_paste [of 0 hd bs out] that l hd by (simp add: o1_def)
  have srv: "srv_data p target = (case enc_name target of None \<Rightarrow> [] | Some bs \<Rightarrow> fits_rdata (hd @ bs))"
    by (simp add: srv_data_def hd_def split: option.split)
  show "\<exists>o1. build_srv_rdata out MDNS_RDATA_MAX p target = Some (o1, length (srv_data p target)) \<and>
      length o1 = MDNS_RDATA_MAX \<and> take (length (srv_data p target)) o1 = srv_data p target"
    using lo pp hd l take_paste [of 0 "hd @ _" out]
    by (auto simp: build_srv_rdata_def h dns_write_name_spec srv fits_rdata_def paste_length size_consts split: option.split)
qed

lemma builds_txt: "builds (\<lambda>rd. build_txt_rdata rd MDNS_RDATA_MAX mdl) (txt_data mdl)"
  unfolding builds_def
proof (intro allI impI)
  fix out :: bytes assume len: "length out = MDNS_RDATA_MAX"
  then have l: "length out = 256" by (simp add: size_consts)
  show "\<exists>o1. build_txt_rdata out MDNS_RDATA_MAX mdl = Some (o1, length (txt_data mdl)) \<and> length o1 = MDNS_RDATA_MAX \<and>
      take (length (txt_data mdl)) o1 = txt_data mdl"
  proof (cases "length mdl + 6 < MDNS_TXT_STRING_MAX")
    case False
    then show ?thesis using len by (auto simp: build_txt_rdata_def txt_data_def)
  next
    case True
    define e where "e = map byte (''model='' @ mdl)"
    define ml where "ml = length (''model='' @ mdl)"
    have m: "ml < 200" "length e = ml" "ml = 6 + length mdl" using True by (simp_all add: size_consts ml_def e_def)
    have "build_txt_rdata out MDNS_RDATA_MAX mdl = do {
        o1 \<leftarrow> memcpy_to out 0 [of_nat ml]; o1 \<leftarrow> memcpy_to o1 (1 :: nat) e; o1 \<leftarrow> memcpy_to o1 (1 + ml) [6];
        o1 \<leftarrow> memcpy_to o1 (2 + ml) (map byte ''path=/''); Some (o1, 2 + ml + 6) }"
      using m unfolding build_txt_rdata_def Let_def ml_def [symmetric] wr_memcpy e_def [symmetric]
      by (simp add: size_consts del: memcpy_to_in)
    also have "\<dots> = Some (paste out 0 (([of_nat ml] @ e) @ [6] @ map byte ''path=/''), 2 + ml + 6)"
      using m l memcpy_paste [of 0 "[of_nat ml]" out] memcpy_paste_next [of 1 0 "[of_nat ml]" e out]
        memcpy_paste_next [of "1 + ml" 0 "[of_nat ml] @ e" "[6]" out]
        memcpy_paste_next [of "2 + ml" 0 "([of_nat ml] @ e) @ [6]" "map byte ''path=/''" out]
      by (simp del: memcpy_to_in)
    finally have b: "build_txt_rdata out MDNS_RDATA_MAX mdl = Some (paste out 0 (txt_data mdl), length (txt_data mdl))"
      using True m(3) by (simp add: txt_data_def e_def)
    have "length (txt_data mdl) \<le> 256" using m(1,3) by (simp add: txt_data_def)
    then show ?thesis using b l take_paste [of 0 "txt_data mdl" out] by (simp add: paste_length size_consts)
  qed
qed

subsection \<open>Record sets\<close>

definition encodable :: "DnsRecord \<Rightarrow> bool" where
  "encodable R \<longleftrightarrow> enc_record R \<noteq> None \<and> rr_data R \<noteq> []"

definition wire_of :: "DnsRecord list \<Rightarrow> bytes" where
  "wire_of Rs = concat (map (\<lambda>R. the (enc_record R)) Rs)"

text \<open>Whether the records can be encoded and fit a packet behind its header.\<close>

definition fits_packet :: "DnsRecord list \<Rightarrow> bool" where
  "fits_packet Rs \<longleftrightarrow> list_all encodable Rs \<and> 12 + length (wire_of Rs) \<le> MDNS_PACKET_MAX"

text \<open>The state of the writer after the records \<open>Rs\<close>, with the header \<open>h0\<close> in front.\<close>

definition wrote :: "bytes \<Rightarrow> Build \<Rightarrow> DnsRecord list \<Rightarrow> bool" where
  "wrote h0 s Rs \<longleftrightarrow> fits_packet Rs \<and> length (b_buffer s) = MDNS_PACKET_MAX \<and> length (b_rdata s) = MDNS_RDATA_MAX \<and>
     length h0 = 12 \<and> b_offset s = 12 + length (wire_of Rs) \<and> take (b_offset s) (b_buffer s) = h0 @ wire_of Rs \<and>
     b_records s = of_nat (length Rs)"

text \<open>\<open>adds\<close>: a step of the writer appends exactly the records \<open>Rs\<close>, or returns \<open>-1\<close> when they do not fit.\<close>

definition adds :: "DnsRecord list \<Rightarrow> (Build \<Rightarrow> Build option option) \<Rightarrow> bool" where
  "adds Rs f \<longleftrightarrow> (\<forall>h0 s Qs. wrote h0 s Qs \<longrightarrow>
     (if fits_packet (Qs @ Rs) then \<exists>s'. f s = Some (Some s') \<and> wrote h0 s' (Qs @ Rs) else f s = Some None))"

lemma wire_of_append: "wire_of (Qs @ Rs) = wire_of Qs @ wire_of Rs"
  by (simp add: wire_of_def)

lemma fits_packet_prefix: "fits_packet (Qs @ Rs) \<Longrightarrow> fits_packet Qs"
  by (auto simp: fits_packet_def wire_of_append)

lemma adds_none: "adds [] (\<lambda>s. Some (Some s))"
  by (auto simp: adds_def wrote_def)

lemma adds_andthen:
  assumes "adds Rs f" "adds Ts g"
  shows "adds (Rs @ Ts) (\<lambda>s. andthen (f s) g)"
  unfolding adds_def
proof (intro allI impI)
  fix h0 s Qs assume w: "wrote h0 s Qs"
  show "if fits_packet (Qs @ Rs @ Ts) then \<exists>s'. andthen (f s) g = Some (Some s') \<and> wrote h0 s' (Qs @ Rs @ Ts)
    else andthen (f s) g = Some None"
  proof (cases "fits_packet (Qs @ Rs)")
    case True
    then obtain s1 where s1: "f s = Some (Some s1)" "wrote h0 s1 (Qs @ Rs)"
      using assms(1) w unfolding adds_def by metis
    with assms(2) have "if fits_packet ((Qs @ Rs) @ Ts) then \<exists>s'. g s1 = Some (Some s') \<and> wrote h0 s' ((Qs @ Rs) @ Ts)
        else g s1 = Some None" unfolding adds_def by blast
    then show ?thesis using s1(1) unfolding append_assoc by (simp add: andthen_def)
  next
    case False
    then have "f s = Some None" using assms(1) w unfolding adds_def by metis
    moreover have "\<not> fits_packet (Qs @ Rs @ Ts)" using False fits_packet_prefix [of "Qs @ Rs" Ts] by auto
    ultimately show ?thesis by (simp add: andthen_def)
  qed
qed

lemma adds_if: "(c \<Longrightarrow> adds Rs f) \<Longrightarrow> adds (if c then Rs else []) (if c then f else (\<lambda>s. Some (Some s)))"
  using adds_none by simp

lemma emit_record_wrote:
  assumes "wrote h0 s Qs" "length d \<le> length rdata" "take (length d) rdata = d" "d \<noteq> []" "length rdata = MDNS_RDATA_MAX"
  defines "R \<equiv> \<lambda>name type klass ttl. \<lparr>rr_name = name, rr_type = type, rr_class = klass, rr_ttl = ttl, rr_data = d\<rparr>"
  shows "if fits_packet (Qs @ [R name type klass ttl])
    then \<exists>s'. emit_record MDNS_PACKET_MAX name type klass ttl (rdata, length d) s = Some (Some s') \<and>
      wrote h0 s' (Qs @ [R name type klass ttl])
    else emit_record MDNS_PACKET_MAX name type klass ttl (rdata, length d) s = Some None"
proof -
  have s: "length (b_buffer s) = MDNS_PACKET_MAX" "b_offset s = 12 + length (wire_of Qs)" "b_offset s \<le> length (b_buffer s)"
    "take (b_offset s) (b_buffer s) = h0 @ wire_of Qs" "fits_packet Qs" "length h0 = 12"
    using assms(1) unfolding wrote_def fits_packet_def by auto
  note spec = append_record_spec [of MDNS_PACKET_MAX "b_buffer s" "b_offset s" "length d" rdata name type klass ttl,
      unfolded assms(3)]
  show ?thesis
  proof (cases "enc_record (R name type klass ttl)")
    case None
    then show ?thesis using spec s assms(2)
      by (simp add: emit_record_def andthen_def fits_packet_def encodable_def R_def)
  next
    case (Some bs)
    have w: "wire_of (Qs @ [R name type klass ttl]) = wire_of Qs @ bs" by (simp add: wire_of_def Some)
    have fit: "fits_packet (Qs @ [R name type klass ttl]) \<longleftrightarrow> b_offset s + length bs \<le> MDNS_PACKET_MAX"
      using s(2,5) assms(4) Some by (auto simp: fits_packet_def w [unfolded R_def] encodable_def R_def)
    show ?thesis
    proof (cases "b_offset s + length bs \<le> MDNS_PACKET_MAX")
      case True
      have "take (b_offset s + length bs) (paste (b_buffer s) (b_offset s) bs) = h0 @ wire_of Qs @ bs"
        using take_paste [of "b_offset s" bs "b_buffer s"] True s(1,4) by simp
      then show ?thesis using True fit spec s Some assms(1,2,5)
        by (auto simp: emit_record_def andthen_def R_def wrote_def w [unfolded R_def] paste_length)
    next
      case False
      then show ?thesis using fit spec s Some assms(2) by (simp add: emit_record_def andthen_def R_def)
    qed
  qed
qed

lemma adds_must:
  assumes "builds f d"
  shows "adds [\<lparr>rr_name = name, rr_type = type, rr_class = klass, rr_ttl = ttl, rr_data = d\<rparr>]
    (must_record MDNS_PACKET_MAX name type klass ttl f)"
  unfolding adds_def
proof (intro allI impI)
  fix h0 s Qs assume w: "wrote h0 s Qs"
  then have "length (b_rdata s) = MDNS_RDATA_MAX" by (simp add: wrote_def)
  then obtain o1 where o1: "f (b_rdata s) = Some (o1, length d)" "length o1 = MDNS_RDATA_MAX" "take (length d) o1 = d"
    "length d \<le> length o1" by (rule buildsE [OF assms])
  let ?R = "\<lparr>rr_name = name, rr_type = type, rr_class = klass, rr_ttl = ttl, rr_data = d\<rparr>"
  show "if fits_packet (Qs @ [?R])
    then \<exists>s'. must_record MDNS_PACKET_MAX name type klass ttl f s = Some (Some s') \<and> wrote h0 s' (Qs @ [?R])
    else must_record MDNS_PACKET_MAX name type klass ttl f s = Some None"
  proof (cases "d = []")
    case True
    then show ?thesis using o1(1) by (simp add: must_record_def fits_packet_def encodable_def)
  next
    case False
    then show ?thesis using emit_record_wrote [OF w o1(4,3) False o1(2)] o1(1) by (simp add: must_record_def)
  qed
qed

abbreviation unique_class :: u16 where
  "unique_class \<equiv> MDNS_CLASS_IN OR MDNS_CLASS_FLUSH"

definition host_records :: "MdnsResponder \<Rightarrow> u32 \<Rightarrow> DnsRecord list" where
  "host_records r ttl = map (\<lambda>d. \<lparr>rr_name = host_name r, rr_type = MDNS_TYPE_A, rr_class = unique_class, rr_ttl = ttl, rr_data = d\<rparr>)
     (filter (\<lambda>d. d \<noteq> []) (map a_data (addresses r)))"

text \<open>The records a message about the groups \<open>m\<close> carries.\<close>

definition wanted :: "MdnsResponder \<Rightarrow> u16 \<Rightarrow> u32 \<Rightarrow> u32 \<Rightarrow> DnsRecord list" where
  "wanted r m ttl_unique ttl_shared =
     (if m AND GROUP_A \<noteq> 0 then host_records r ttl_unique else []) @
     (if m AND GROUP_PTR \<noteq> 0 then [\<lparr>rr_name = http_type, rr_type = MDNS_TYPE_PTR, rr_class = MDNS_CLASS_IN,
        rr_ttl = ttl_shared, rr_data = name_data (instance_name r)\<rparr>] else []) @
     (if m AND GROUP_SRV_TXT \<noteq> 0 then
        [\<lparr>rr_name = instance_name r, rr_type = MDNS_TYPE_SRV, rr_class = unique_class, rr_ttl = ttl_unique,
          rr_data = srv_data (srv_port (config r)) (host_name r)\<rparr>] @
        [\<lparr>rr_name = instance_name r, rr_type = MDNS_TYPE_TXT, rr_class = unique_class, rr_ttl = ttl_unique,
          rr_data = txt_data (model (config r))\<rparr>] else []) @
     (if m AND GROUP_SERVICE_TYPES \<noteq> 0 then [\<lparr>rr_name = services_type, rr_type = MDNS_TYPE_PTR, rr_class = MDNS_CLASS_IN,
        rr_ttl = ttl_shared, rr_data = name_data http_type\<rparr>] else [])"

text \<open>One turn of the address loop: an address that does not parse adds nothing.\<close>

definition a_turn :: "string \<Rightarrow> u32 \<Rightarrow> string \<Rightarrow> Build \<Rightarrow> Build option option" where
  "a_turn hname ttl ip s = do {
     built \<leftarrow> build_a_rdata (b_rdata s) MDNS_RDATA_MAX ip;
     if snd built = 0 then Some (Some (s\<lparr>b_rdata := fst built\<rparr>))
     else emit_record MDNS_PACKET_MAX hname MDNS_TYPE_A unique_class ttl built s }"

lemma a_records_turn:
  "a_records MDNS_PACKET_MAX hname ttl (ip # ips) = (\<lambda>s. andthen (a_turn hname ttl ip s) (a_records MDNS_PACKET_MAX hname ttl ips))"
  by (rule ext) (auto simp: a_turn_def andthen_def split: bind_splits)

lemma adds_a_turn:
  "adds (if a_data ip = [] then [] else
      [\<lparr>rr_name = hname, rr_type = MDNS_TYPE_A, rr_class = unique_class, rr_ttl = ttl, rr_data = a_data ip\<rparr>]) (a_turn hname ttl ip)"
  unfolding adds_def
proof (intro allI impI)
  fix h0 s Qs assume w: "wrote h0 s Qs"
  then have len: "length (b_rdata s) = MDNS_RDATA_MAX" by (simp add: wrote_def)
  obtain o1 where o1: "build_a_rdata (b_rdata s) MDNS_RDATA_MAX ip = Some (o1, length (a_data ip))"
    "length o1 = MDNS_RDATA_MAX" "take (length (a_data ip)) o1 = a_data ip" "length (a_data ip) \<le> length o1"
    by (rule buildsE [OF builds_a len])
  have skip: "wrote h0 (s\<lparr>b_rdata := o1\<rparr>) Qs" using w o1(2) by (auto simp: wrote_def)
  have fit: "fits_packet Qs" using w by (simp add: wrote_def)
  let ?Rs = "if a_data ip = [] then [] else
    [\<lparr>rr_name = hname, rr_type = MDNS_TYPE_A, rr_class = unique_class, rr_ttl = ttl, rr_data = a_data ip\<rparr>]"
  show "if fits_packet (Qs @ ?Rs) then \<exists>s'. a_turn hname ttl ip s = Some (Some s') \<and> wrote h0 s' (Qs @ ?Rs)
    else a_turn hname ttl ip s = Some None"
  proof (cases "a_data ip = []")
    case True
    then show ?thesis using o1(1) skip fit by (simp add: a_turn_def)
  next
    case False
    then show ?thesis
      using emit_record_wrote [OF w o1(4,3) False o1(2), of hname MDNS_TYPE_A unique_class ttl] o1(1) by (simp add: a_turn_def)
  qed
qed

lemma adds_a_records:
  "adds (map (\<lambda>d. \<lparr>rr_name = hname, rr_type = MDNS_TYPE_A, rr_class = unique_class, rr_ttl = ttl, rr_data = d\<rparr>)
      (filter (\<lambda>d. d \<noteq> []) (map a_data ips)))
    (a_records MDNS_PACKET_MAX hname ttl ips)"
proof (induction ips)
  case Nil
  have "a_records MDNS_PACKET_MAX hname ttl [] = (\<lambda>s. Some (Some s))" by (rule ext) simp
  then show ?case by (simp add: adds_none)
next
  case (Cons ip ips)
  show ?case
    using adds_andthen [OF adds_a_turn [of ip hname ttl] Cons.IH] unfolding a_records_turn by (cases "a_data ip = []") simp_all
qed

lemma adds_record_set: "adds (wanted r m ttl_unique ttl_shared) (build_record_set r MDNS_PACKET_MAX m ttl_unique ttl_shared)"
  unfolding wanted_def build_record_set_def Let_def host_records_def
  by (intro adds_andthen adds_if adds_a_records adds_must builds_name builds_srv builds_txt)

text \<open>The header of a message.\<close>

definition header :: "u16 \<Rightarrow> u16 \<Rightarrow> nat \<Rightarrow> nat \<Rightarrow> bytes" where
  "header qid flags answers authorities =
     be16_bytes qid @ be16_bytes flags @ be16_bytes 0 @ be16_bytes (of_nat answers) @ be16_bytes (of_nat authorities) @ be16_bytes 0"

definition response_message :: "u16 \<Rightarrow> DnsRecord list \<Rightarrow> bytes" where
  "response_message qid Rs =
     header qid (MDNS_FLAG_RESPONSE OR MDNS_FLAG_AUTHORITATIVE) (length Rs) 0 @ wire_of Rs"

definition probe_message :: "DnsRecord list \<Rightarrow> bytes" where
  "probe_message Rs = header 0 0 0 (length Rs) @ wire_of Rs"

lemma wrote_start:
  assumes "length b = MDNS_PACKET_MAX" "length rdata = MDNS_RDATA_MAX"
  shows "wrote (take 12 b) \<lparr>b_buffer = b, b_offset = 12, b_rdata = rdata, b_records = 0\<rparr> []"
  using assms by (simp add: wrote_def fits_packet_def wire_of_def size_consts)

text \<open>Patching a count into the finished message.\<close>

lemma patch_header:
  assumes "wrote h0 s Rs" "k + 2 \<le> 12"
  obtains b where "write_be16 (b_buffer s) k v = Some b" "length b = MDNS_PACKET_MAX"
    "take (b_offset s) b = (take k h0 @ be16_bytes v @ drop (k + 2) h0) @ wire_of Rs"
proof -
  have s: "length (b_buffer s) = MDNS_PACKET_MAX" "b_offset s = 12 + length (wire_of Rs)" "length h0 = 12"
    "take (b_offset s) (b_buffer s) = h0 @ wire_of Rs" "b_offset s \<le> MDNS_PACKET_MAX"
    using assms(1) by (auto simp: wrote_def fits_packet_def)
  obtain t where t: "b_buffer s = h0 @ wire_of Rs @ t"
    using s(4) append_take_drop_id [of "b_offset s" "b_buffer s"] by (metis append_assoc)
  have "write_be16 (b_buffer s) k v = Some (take k h0 @ be16_bytes v @ drop (k + 2) h0 @ wire_of Rs @ t)"
    using assms(2) s(1,3) t by (simp add: write_be16_def size_consts)
  then show thesis
    using that s t assms(2) by (auto simp: size_consts)
qed

lemma finish_message:
  fixes r :: MdnsResponder and m :: u16 and tu ts :: u32
  assumes "length b = MDNS_PACKET_MAX" "length rdata = MDNS_RDATA_MAX" "k + 2 \<le> 12"
  defines "Rs \<equiv> wanted r m tu ts"
    and "res \<equiv> andthen (build_record_set r MDNS_PACKET_MAX m tu ts \<lparr>b_buffer = b, b_offset = 12, b_rdata = rdata, b_records = 0\<rparr>)
      (\<lambda>s. do { b \<leftarrow> write_be16 (b_buffer s) k (b_records s); Some (Some (b, b_offset s)) })"
  shows "if fits_packet Rs
    then \<exists>b' n. res = Some (Some (b', n)) \<and> length b' = MDNS_PACKET_MAX \<and> n \<le> MDNS_PACKET_MAX \<and>
      take n b' = (take k (take 12 b) @ be16_bytes (of_nat (length Rs)) @ drop (k + 2) (take 12 b)) @ wire_of Rs
    else res = Some None"
proof -
  let ?s = "\<lparr>b_buffer = b, b_offset = 12, b_rdata = rdata, b_records = 0\<rparr>"
  have w: "wrote (take 12 b) ?s []" using wrote_start [OF assms(1,2)] .
  have a: "if fits_packet ([] @ Rs) then \<exists>s'. build_record_set r MDNS_PACKET_MAX m tu ts ?s = Some (Some s') \<and> wrote (take 12 b) s' ([] @ Rs)
      else build_record_set r MDNS_PACKET_MAX m tu ts ?s = Some None"
    using adds_record_set [of r m tu ts] w unfolding adds_def Rs_def by blast
  show ?thesis
  proof (cases "fits_packet Rs")
    case True
    then obtain s' where s': "build_record_set r MDNS_PACKET_MAX m tu ts ?s = Some (Some s')" "wrote (take 12 b) s' Rs"
      using a by auto
    obtain b' where b': "write_be16 (b_buffer s') k (b_records s') = Some b'" "length b' = MDNS_PACKET_MAX"
      "take (b_offset s') b' = (take k (take 12 b) @ be16_bytes (b_records s') @ drop (k + 2) (take 12 b)) @ wire_of Rs"
      by (rule patch_header [OF s'(2) assms(3)])
    have "b_records s' = of_nat (length Rs)" "b_offset s' \<le> MDNS_PACKET_MAX"
      using s'(2) True by (auto simp: wrote_def fits_packet_def)
    then show ?thesis using True s'(1) b' by (auto simp: res_def andthen_def)
  next
    case False
    then show ?thesis using a by (simp add: res_def andthen_def)
  qed
qed

text \<open>What the two builders put into the packet, and when they fail.\<close>

lemma build_response_spec:
  fixes r :: MdnsResponder and m :: u16 and tu ts :: u32
  assumes "length buffer = MDNS_PACKET_MAX" "length rdata = MDNS_RDATA_MAX"
  defines "Rs \<equiv> wanted r m tu ts"
  shows "if fits_packet Rs
    then \<exists>b n. build_response r buffer MDNS_PACKET_MAX rdata qid m tu ts = Some (Some (b, n)) \<and> n \<le> length b \<and>
      length b = MDNS_PACKET_MAX \<and> take n b = response_message qid Rs
    else build_response r buffer MDNS_PACKET_MAX rdata qid m tu ts = Some None"
proof -
  define h0 where "h0 = header qid (MDNS_FLAG_RESPONSE OR MDNS_FLAG_AUTHORITATIVE) 0 0"
  define b0 where "b0 = h0 @ drop 12 buffer"
  have l: "length buffer = 1400" using assms(1) by (simp add: size_consts)
  have "do { b \<leftarrow> memcpy_to buffer 0 (replicate 12 0); b \<leftarrow> write_be16 b 0 qid;
      write_be16 b 2 (MDNS_FLAG_RESPONSE OR MDNS_FLAG_AUTHORITATIVE) } = Some b0"
    using l by (simp add: write_be16_def b0_def h0_def header_def be16_bytes_def numeral_eq_Suc)
  then have start: "do { b \<leftarrow> memcpy_to buffer 0 (replicate 12 0); b \<leftarrow> write_be16 b 0 qid;
      b \<leftarrow> write_be16 b 2 (MDNS_FLAG_RESPONSE OR MDNS_FLAG_AUTHORITATIVE); f b } = f b0"
    for f :: "bytes \<Rightarrow> (bytes \<times> nat) option option"
    by (metis bind.bind_lunit bind_assoc)
  have h: "length h0 = 12" "take 12 b0 = h0" "length b0 = MDNS_PACKET_MAX"
    using l by (simp_all add: h0_def header_def b0_def size_consts)
  have "take 6 h0 @ be16_bytes (of_nat (length Rs)) @ drop 8 h0 = header qid (MDNS_FLAG_RESPONSE OR MDNS_FLAG_AUTHORITATIVE) (length Rs) 0"
    by (simp add: h0_def header_def be16_bytes_def numeral_eq_Suc)
  then show ?thesis
    using finish_message [OF h(3) assms(2), of 6 r m tu ts] h(1,2) unfolding build_response_def start
    by (auto simp: Rs_def response_message_def size_consts)
qed

lemma build_probe_spec:
  fixes r :: MdnsResponder
  assumes "length buffer = MDNS_PACKET_MAX" "length rdata = MDNS_RDATA_MAX"
  defines "Rs \<equiv> wanted r (GROUP_A OR GROUP_SRV_TXT) MDNS_TTL_UNIQUE MDNS_TTL_SHARED"
  shows "if fits_packet Rs
    then \<exists>b n. build_probe r buffer MDNS_PACKET_MAX rdata = Some (Some (b, n)) \<and> n \<le> length b \<and>
      length b = MDNS_PACKET_MAX \<and> take n b = probe_message Rs
    else build_probe r buffer MDNS_PACKET_MAX rdata = Some None"
proof -
  define b0 where "b0 = replicate 12 0 @ drop 12 buffer"
  have l: "length buffer = 1400" using assms(1) by (simp add: size_consts)
  have start: "do { b \<leftarrow> memcpy_to buffer 0 (replicate 12 0); f b } = f b0" for f :: "bytes \<Rightarrow> (bytes \<times> nat) option option"
    using l by (simp add: b0_def)
  have h: "take 12 b0 = replicate 12 0" "length b0 = MDNS_PACKET_MAX"
    using l by (simp_all add: b0_def size_consts)
  have "take 8 (replicate 12 0) @ be16_bytes (of_nat (length Rs)) @ drop 10 (replicate 12 0) = header 0 0 0 (length Rs)"
    by (simp add: header_def be16_bytes_def numeral_eq_Suc)
  then show ?thesis
    using finish_message [OF h(2) assms(2), of 8 r "GROUP_A OR GROUP_SRV_TXT" MDNS_TTL_UNIQUE MDNS_TTL_SHARED] h(1)
    unfolding build_probe_def start by (auto simp: Rs_def probe_message_def size_consts)
qed

end
