(* ===== verification/Mdns_Props.thy ===== *)
theory Mdns_Props
  imports Mdns
begin

text \<open>
  Properties of the multicast DNS responder: no packet makes it read outside a buffer, every state
  it reaches is well formed, its answers carry exactly the records asked for and are read back
  record by record, a name it wants is probed and announced in finitely many timer steps, and
  where the code departs from its comments.
\<close>

section \<open>Reading packets\<close>

definition net_ok :: "Net \<Rightarrow> bool" where
  "net_ok net \<longleftrightarrow> length (packet_stack net) = MDNS_PACKET_MAX \<and> length (rdata_stack net) = MDNS_RDATA_MAX"

lemma read_name_cases:
  obtains (fail) "dns_read_name packet offset MDNS_NAME_MAX = Some None"
  | (name) name e where "dns_read_name packet offset MDNS_NAME_MAX = Some (Some (name, e))" "e \<le> length packet" "offset < e"
proof -
  obtain r where r: "dns_read_name packet offset MDNS_NAME_MAX = Some r"
    "\<And>name e. r = Some (name, e) \<Longrightarrow> offset < e \<and> e \<le> length packet"
    using read_name_safe [of MDNS_NAME_MAX packet offset] by (auto simp: size_consts)
  then show thesis using that by (cases r) auto
qed

lemma read_record_cases:
  obtains (fail) "read_record packet offset MDNS_NAME_MAX = Some None"
  | (entry) name type ttl off n where "read_record packet offset MDNS_NAME_MAX = Some (Some (name, type, ttl, off, n))"
      "off + n \<le> length packet" "offset < off"
proof (cases packet offset rule: read_name_cases)
  case fail
  then show ?thesis using that(1) by (simp add: read_record_def)
next
  case (name name e)
  show ?thesis
  proof (cases "e + 10 > length packet \<or> e + 10 + unat (be16 (packet ! (e + 8)) (packet ! (e + 8 + 1))) > length packet")
    case True
    then show ?thesis using name that(1) by (cases "e + 10 > length packet") (auto simp: read_record_def Let_def)
  next
    case False
    then show ?thesis using name that(2) by (auto simp: read_record_def Let_def)
  qed
qed

text \<open>Comparing data that was built with data of the packet.\<close>

lemma same_data_spec:
  assumes "builds f d" "length expected = MDNS_RDATA_MAX" "off + n \<le> length packet"
  shows "same_data (f expected) packet off n = Some (d = take n (drop off packet))"
proof -
  obtain o1 where o1: "f expected = Some (o1, length d)" "take (length d) o1 = d" "length d \<le> length o1"
    by (rule buildsE [OF assms(1,2)]) 
  show ?thesis
  proof (cases "length d = n")
    case True
    then show ?thesis using o1 assms(3) by (simp add: same_data_def rd_range_def)
  next
    case False
    then have "d \<noteq> take n (drop off packet)" using assms(3) by auto
    then show ?thesis using False o1(1) by (simp add: same_data_def)
  qed
qed

lemma any_address_spec:
  assumes "length expected = MDNS_RDATA_MAX" "off + n \<le> length packet"
  shows "any_address expected as packet off n = Some (take n (drop off packet) \<in> a_data ` set as)"
  by (induction as) (auto simp: same_data_spec [OF builds_a assms])

lemma reads_as_total: "\<exists>b. reads_as packet off name = Some b"
  by (cases packet off rule: read_name_cases) (auto simp: reads_as_def)

lemma note_known_total:
  assumes "length expected = MDNS_RDATA_MAX" "off + n \<le> length packet"
  shows "\<exists>k'. note_known r expected packet name type ttl off n k = Some k'"
proof -
  obtain b1 b2 where r: "reads_as packet off (instance_name r) = Some b1" "reads_as packet off http_type = Some b2"
    using reads_as_total by metis
  have a: "any_address expected as packet off 4 = Some (take 4 (drop off packet) \<in> a_data ` set as)" if "n = 4" for as
    using any_address_spec [of expected off 4] assms that by simp
  show ?thesis
    by (simp add: note_known_def a r same_data_spec [OF builds_srv assms] same_data_spec [OF builds_txt assms])
qed

lemma known_loop_total:
  assumes "length expected = MDNS_RDATA_MAX"
  shows "\<exists>k'. known_loop r expected packet n offset k = Some k'"
proof (induction n arbitrary: offset k)
  case (Suc n)
  show ?case
  proof (cases packet offset rule: read_record_cases)
    case fail
    then show ?thesis by simp
  next
    case (entry name type ttl off m)
    moreover obtain k' where "note_known r expected packet name type ttl off m k = Some k'"
      using note_known_total [OF assms entry(2)] by blast
    ultimately show ?thesis using Suc.IH by simp
  qed
qed simp

lemma suppress_known_answers_total:
  "length expected = MDNS_RDATA_MAX \<Longrightarrow> \<exists>m. suppress_known_answers r expected packet offset n = Some m"
  using known_loop_total [of expected r packet "unat n" offset
      "\<lparr>addresses_known = 0, ptr_known = False, srv_known = False, txt_known = False, services_known = False\<rparr>"]
  by (auto simp: suppress_known_answers_def)

lemma skip_questions_total: "\<exists>q. skip_questions packet n offset = Some q"
proof (induction n arbitrary: offset)
  case (Suc n)
  then show ?case by (cases packet offset rule: read_name_cases) auto
qed simp

text \<open>What counts as a record of our own.\<close>

definition our_data :: "MdnsResponder \<Rightarrow> string \<Rightarrow> u16 \<Rightarrow> bytes set" where
  "our_data r name type =
     (if type = MDNS_TYPE_A \<and> strcaseeq name (host_name r) then a_data ` set (addresses r)
      else if type = MDNS_TYPE_SRV \<and> strcaseeq name (instance_name r) then {srv_data (srv_port (config r)) (host_name r)}
      else if type = MDNS_TYPE_TXT \<and> strcaseeq name (instance_name r) then {txt_data (model (config r))}
      else {})"

lemma record_matches_ours_spec:
  assumes "length expected = MDNS_RDATA_MAX" "off + n \<le> length packet"
  shows "record_matches_ours r expected packet name type off n = Some (take n (drop off packet) \<in> our_data r name type)"
  by (auto simp: record_matches_ours_def our_data_def any_address_spec [OF assms] same_data_spec [OF builds_srv assms]
      same_data_spec [OF builds_txt assms])

lemma response_loop_cases:
  assumes "length expected = MDNS_RDATA_MAX"
  shows "response_loop t expected packet n offset r \<in> {Some r, Some (rename_after_conflict t r)}"
proof (induction n arbitrary: offset)
  case (Suc n)
  show ?case
  proof (cases packet offset rule: read_record_cases)
    case fail
    then show ?thesis by simp
  next
    case (entry name type ttl off m)
    then show ?thesis using Suc.IH by (auto simp: record_matches_ours_spec [OF assms])
  qed
qed simp

lemma handle_response_cases:
  assumes "length expected = MDNS_RDATA_MAX"
  shows "handle_response expected packet qc rc t r \<in> {Some r, Some (rename_after_conflict t r)}"
proof -
  obtain q where "skip_questions packet (unat qc) 12 = Some q" using skip_questions_total by blast
  then show ?thesis using response_loop_cases [OF assms] by (auto simp: handle_response_def split: option.split)
qed

lemma question_loop_total: "\<exists>q. question_loop r packet n offset unicast m = Some q"
proof (induction n arbitrary: offset unicast m)
  case (Suc n)
  show ?case
  proof (cases packet offset rule: read_name_cases)
    case fail
    then show ?thesis by simp
  next
    case (name name e)
    then show ?thesis using Suc.IH by (auto simp: Let_def)
  qed
qed simp

section \<open>Sending\<close>

fun payload :: "Datagram \<Rightarrow> bytes" where
  "payload (ToGroup _ d) = d"
| "payload (ToPeer _ _ d) = d"
| "payload (HookGroup d) = d"
| "payload (HookPeer _ _ d) = d"

text \<open>
  \<open>quiet r r'\<close>: between the two states only datagrams that fit a packet were sent, and only
  traffic counters moved.
\<close>

definition core :: "MdnsResponder \<Rightarrow> MdnsResponder" where
  "core r = r\<lparr>wire := [], socket_warned := False,
     stats := (stats r)\<lparr>queries := 0, responses := 0, announcements := 0, parse_errors := 0, socket_errors := 0\<rparr>\<rparr>"

definition small :: "Datagram \<Rightarrow> bool" where
  "small d \<longleftrightarrow> length (payload d) \<le> MDNS_PACKET_MAX"

definition quiet :: "MdnsResponder \<Rightarrow> MdnsResponder \<Rightarrow> bool" where
  "quiet r r' \<longleftrightarrow> core r' = core r \<and> (\<exists>ds. wire r' = wire r @ ds \<and> list_all small ds)"

lemma core_fields:
  assumes "core r' = core r"
  shows "config r' = config r" "fd r' = fd r" "state r' = state r" "label r' = label r" "suffix r' = suffix r"
    "probes_left r' = probes_left r" "announces_left r' = announces_left r" "next_event_ms r' = next_event_ms r"
    "pending_mask r' = pending_mask r" "pending_ms r' = pending_ms r" "next_scan_ms r' = next_scan_ms r"
    "last_conflict_ms r' = last_conflict_ms r" "addresses r' = addresses r" "memberships r' = memberships r"
    "renamed (stats r') = renamed (stats r)" "disabled (stats r') = disabled (stats r)"
    "stat_addresses (stats r') = stat_addresses (stats r)" "stat_name (stats r') = stat_name (stats r)"
    "conflicts (stats r') = conflicts (stats r)" "random_state r' = random_state r"
  using assms
  by (cases r, cases "stats r", cases r', cases "stats r'", simp add: core_def)+

lemma core_idem_simps [simp]:
  "core (r\<lparr>wire := w\<rparr>) = core r" "core (r\<lparr>socket_warned := b\<rparr>) = core r"
  "core (bump_queries r) = core r" "core (bump_responses r) = core r" "core (bump_announcements r) = core r"
  "core (bump_parse_errors r) = core r" "core (bump_socket_errors r) = core r" "core (socket_error r) = core r"
  by (simp_all add: core_def bump_defs socket_error_def)

lemma wire_bump [simp]:
  "wire (bump_queries r) = wire r" "wire (bump_responses r) = wire r" "wire (bump_announcements r) = wire r"
  "wire (bump_parse_errors r) = wire r" "wire (bump_socket_errors r) = wire r" "wire (socket_error r) = wire r"
  by (simp_all add: bump_defs socket_error_def)

lemma quiet_refl [simp, intro]: "quiet r r"
  by (simp add: quiet_def)

lemma quiet_trans [trans]: "quiet r r' \<Longrightarrow> quiet r' r'' \<Longrightarrow> quiet r r''"
  by (auto simp: quiet_def)

lemma quiet_bump [simp, intro]:
  "quiet r (bump_queries r)" "quiet r (bump_responses r)" "quiet r (bump_announcements r)"
  "quiet r (bump_parse_errors r)" "quiet r (bump_socket_errors r)" "quiet r (socket_error r)" "quiet r (id r)"
  by (simp_all add: quiet_def)

lemma quiet_send: "small d \<Longrightarrow> quiet r (r\<lparr>wire := wire r @ [d]\<rparr>)"
  by (simp add: quiet_def)

lemma quiet_peer: "length data \<le> MDNS_PACKET_MAX \<Longrightarrow> quiet r (send_to_peer net data ip p r)"
  by (auto simp: send_to_peer_def small_def intro: quiet_send)

lemma quiet_group_loop: "length data \<le> MDNS_PACKET_MAX \<Longrightarrow> quiet r (group_loop net data as r)"
proof (induction as arbitrary: r)
  case (Cons a as)
  have "small (ToGroup a data)" using Cons.prems by (simp add: small_def)
  then show ?case using Cons by (auto intro: quiet_trans quiet_send)
qed simp

lemma quiet_group: "length data \<le> MDNS_PACKET_MAX \<Longrightarrow> quiet r (send_to_group net data r)"
  by (auto simp: send_to_group_def small_def intro: quiet_send quiet_group_loop)

text \<open>The builders always return, with a message of at most a packet or with \<open>-1\<close>.\<close>

lemma build_response_total:
  assumes "net_ok net"
  obtains (fail) "build_response r (packet_stack net) MDNS_PACKET_MAX (rdata_stack net) qid m tu ts = Some None"
  | (message) b n where "build_response r (packet_stack net) MDNS_PACKET_MAX (rdata_stack net) qid m tu ts = Some (Some (b, n))"
      "n \<le> length b" "n \<le> MDNS_PACKET_MAX"
proof -
  have n: "length (packet_stack net) = MDNS_PACKET_MAX" "length (rdata_stack net) = MDNS_RDATA_MAX"
    using assms by (simp_all add: net_ok_def)
  show thesis using build_response_spec [OF n, of r m tu ts qid] that by (auto split: if_splits)
qed

lemma build_probe_total:
  assumes "net_ok net"
  obtains (fail) "build_probe r (packet_stack net) MDNS_PACKET_MAX (rdata_stack net) = Some None"
  | (message) b n where "build_probe r (packet_stack net) MDNS_PACKET_MAX (rdata_stack net) = Some (Some (b, n))"
      "n \<le> length b" "n \<le> MDNS_PACKET_MAX"
proof -
  have n: "length (packet_stack net) = MDNS_PACKET_MAX" "length (rdata_stack net) = MDNS_RDATA_MAX"
    using assms by (simp_all add: net_ok_def)
  show thesis using build_probe_spec [OF n, of r] that by (auto split: if_splits)
qed

lemma send_built_quiet:
  assumes "\<And>x. quiet x (after x)" "n \<le> length b" "n \<le> MDNS_PACKET_MAX"
  shows "\<exists>r'. send_built net (Some (b, n)) after r = Some r' \<and> quiet r r'"
  using assms by (auto simp: send_built_def intro: quiet_trans [OF quiet_group assms(1)])

lemma send_none_quiet: "\<exists>r'. send_built net None after r = Some r' \<and> quiet r r'"
  by (simp add: send_built_def)

lemma send_response_quiet:
  assumes "net_ok net" "\<And>x. quiet x (after x)"
  shows "\<exists>r'. do { built \<leftarrow> build_response r (packet_stack net) MDNS_PACKET_MAX (rdata_stack net) qid m tu ts;
      send_built net built after r } = Some r' \<and> quiet r r'"
  by (rule build_response_total [OF assms(1), of r qid m tu ts])
    (simp_all add: send_built_quiet [OF assms(2)] send_none_quiet)

lemma send_announcement_quiet: "net_ok net \<Longrightarrow> \<exists>r'. send_announcement net r = Some r' \<and> quiet r r'"
  unfolding send_announcement_def by (intro send_response_quiet quiet_bump)

lemma send_goodbye_quiet: "net_ok net \<Longrightarrow> \<exists>r'. send_goodbye net r = Some r' \<and> quiet r r'"
  using send_response_quiet [of net id r 0 GROUP_ALL 0 0] by (simp add: send_goodbye_def)

lemma send_probe_quiet: "net_ok net \<Longrightarrow> \<exists>r'. send_probe net r = Some r' \<and> quiet r r'"
  unfolding send_probe_def
  by (rule build_probe_total [of net r]) (simp_all add: send_built_quiet [OF quiet_bump(3)] send_none_quiet)

lemma answer_query_cases:
  assumes "net_ok net"
  shows "\<exists>r'. answer_query net qid unicast m ip p t r = Some r' \<and> (quiet r r' \<or> r' = schedule_reply t m r)"
proof (cases "m \<noteq> 0 \<and> unicast")
  case True
  show ?thesis
    using True by (cases rule: build_response_total [OF assms, of r qid m MDNS_TTL_LEGACY MDNS_TTL_LEGACY])
      (auto simp: answer_query_def intro: quiet_trans [OF quiet_peer quiet_bump(2)])
qed (auto simp: answer_query_def)

lemma handle_query_cases:
  assumes "net_ok net"
  shows "\<exists>r'. handle_query net packet qid qc ac ip p t r = Some r' \<and>
    (quiet r r' \<or> (\<exists>m. state r \<noteq> MDNS_PROBING \<and> r' = schedule_reply t m (bump_queries r)))"
proof -
  obtain q where q: "question_loop r packet (unat qc) 12 (p \<noteq> MDNS_PORT) 0 = Some q" using question_loop_total by blast
  have s: "state (bump_queries r) = state r" by (simp add: bump_defs)
  have fine: "\<exists>r'. answer_query net qid u m ip p t (bump_queries r) = Some r' \<and>
      (quiet r r' \<or> r' = schedule_reply t m (bump_queries r))" for u m
    using answer_query_cases [OF assms, of qid u m ip p t "bump_queries r"] quiet_trans [OF quiet_bump(1)] by blast
  show ?thesis
  proof (cases q)
    case None
    then show ?thesis using q by (simp add: handle_query_def)
  next
    case (Some x)
    obtain offset u m where x: "x = (offset, u, m)" by (metis prod_cases3)
    obtain known where k: "suppress_known_answers (bump_queries r) (rdata_stack net) packet offset ac = Some known"
      using suppress_known_answers_total assms unfolding net_ok_def by blast
    show ?thesis
      using q Some x k s fine [of u m] fine [of u "m AND NOT known"]
      by (auto simp: handle_query_def Let_def)
  qed
qed

text \<open>What a packet can do: only counters and datagrams, a conflict, or a scheduled reply.\<close>

lemma handle_message_cases:
  assumes "net_ok net"
  shows "\<exists>r'. handle_message net packet ip p t r = Some r' \<and>
    (quiet r r' \<or> r' = rename_after_conflict t r \<and> state r \<noteq> MDNS_OFF \<or>
     (\<exists>m. state r \<noteq> MDNS_PROBING \<and> state r \<noteq> MDNS_OFF \<and> r' = schedule_reply t m (bump_queries r)))"
proof (cases "state r = MDNS_OFF \<or> length packet < 12 \<or> length packet > MDNS_PACKET_MAX")
  case True
  then show ?thesis by (auto simp: handle_message_def)
next
  case False
  let ?ok = "\<lambda>res. \<exists>r'. res = Some r' \<and> (quiet r r' \<or> r' = rename_after_conflict t r \<and> state r \<noteq> MDNS_OFF \<or>
     (\<exists>m. state r \<noteq> MDNS_PROBING \<and> state r \<noteq> MDNS_OFF \<and> r' = schedule_reply t m (bump_queries r)))"
  have len: "length (rdata_stack net) = MDNS_RDATA_MAX" using assms by (simp add: net_ok_def)
  have "?ok (handle_response (rdata_stack net) packet qc rc t r)" for qc rc
    using handle_response_cases [OF len, of packet qc rc t r] False by auto
  moreover have "?ok (handle_query net packet qid qc ac ip p t r)" for qid qc ac
    using handle_query_cases [OF assms, of packet qid qc ac ip p t r] False by auto
  moreover have "?ok (Some (bump_parse_errors r))" "?ok (Some r)" by auto
  ultimately show ?thesis using False by (simp add: handle_message_def)
qed

section \<open>The states of a responder\<close>

definition host_label :: "string \<Rightarrow> bool" where
  "host_label h \<longleftrightarrow> h \<noteq> [] \<and> length h \<le> 63 \<and> list_all host_char h"

text \<open>The name wanted after \<open>n\<close> conflicts: the configured one, then with \<open>-2\<close> up to \<open>-10\<close>.\<close>

definition numbered :: "string \<Rightarrow> nat \<Rightarrow> string" where
  "numbered h n = (if n = 0 then h else h @ ''-'' @ show_nat (n + 1))"

definition mdns_inv :: "MdnsResponder \<Rightarrow> bool" where
  "mdns_inv r \<longleftrightarrow>
     host_label (host (config r)) \<and> model (config r) \<noteq> [] \<and>
     suffix r \<le> MDNS_NAME_SUFFIX_MAX \<and> label r = numbered (host (config r)) (suffix r) \<and>
     (renamed (stats r) \<longleftrightarrow> suffix r > 0) \<and>
     (disabled (stats r) \<longleftrightarrow> state r = MDNS_OFF) \<and> (state r = MDNS_OFF \<longrightarrow> suffix r = MDNS_NAME_SUFFIX_MAX) \<and>
     probes_left r \<le> MDNS_PROBE_COUNT \<and> (state r = MDNS_PROBING \<longrightarrow> 0 < probes_left r) \<and>
     announces_left r \<le> MDNS_ANNOUNCE_COUNT \<and> (state r = MDNS_ANNOUNCING \<longrightarrow> 0 < announces_left r) \<and>
     distinct (addresses r) \<and> length (addresses r) \<le> MDNS_MAX_ADDRESSES \<and> stat_addresses (stats r) = length (addresses r) \<and>
     list_all small (wire r)"

lemmas count_consts = MDNS_NAME_SUFFIX_MAX_def MDNS_PROBE_COUNT_def MDNS_ANNOUNCE_COUNT_def

lemma inv_quiet:
  assumes "quiet r r'" "mdns_inv r"
  shows "mdns_inv r'"
proof -
  note c = core_fields [of r' r]
  have "core r' = core r" "list_all small (wire r) \<Longrightarrow> list_all small (wire r')"
    using assms(1) by (auto simp: quiet_def)
  with assms(2) show ?thesis by (simp add: mdns_inv_def c)
qed

lemma length_show_nat_small: "n \<le> 10 \<Longrightarrow> length (show_nat n) \<le> 2"
  by (subst show_nat.simps, auto, subst show_nat.simps, auto)

lemma fit_numbered:
  assumes "host_label h" "n \<le> 9"
  shows "fit 80 (h @ ''-'' @ show_nat (n + 1)) = h @ ''-'' @ show_nat (n + 1)"
  using assms length_show_nat_small [of "n + 1"] by (auto simp: host_label_def intro!: fit_id)

lemma inv_rename:
  assumes "mdns_inv r" "state r \<noteq> MDNS_OFF"
  shows "mdns_inv (rename_after_conflict t r)"
proof (cases "t - last_conflict_ms r < MDNS_CONFLICT_INTERVAL_MS")
  case True
  then show ?thesis using assms(1) by (simp add: rename_after_conflict_def count_conflict_def mdns_inv_def)
next
  case False
  note fit = fit_numbered [of "host (config r)" "suffix r + 1"]
  show ?thesis
    using False assms fit
    by (cases "suffix r \<ge> MDNS_NAME_SUFFIX_MAX")
      (simp_all add: rename_after_conflict_def count_conflict_def mdns_inv_def count_consts numbered_def Let_def)
qed

lemma inv_schedule: "mdns_inv r \<Longrightarrow> mdns_inv (schedule_reply t m r)"
  by (simp add: schedule_reply_def next_random_def mdns_inv_def Let_def)

lemma inv_handle_message:
  assumes "net_ok net" "mdns_inv r" "handle_message net packet ip p t r = Some r'"
  shows "mdns_inv r'"
  using handle_message_cases [OF assms(1), of packet ip p t r] assms(2,3) inv_quiet [of r r'] inv_rename [of r t]
    inv_schedule [OF inv_quiet [OF quiet_bump(1) assms(2)]]
  by auto

text \<open>The interface scan.\<close>

lemma find_addresses_inv:
  "distinct found \<Longrightarrow> length found \<le> MDNS_MAX_ADDRESSES \<Longrightarrow>
    distinct (find_addresses is found) \<and> length (find_addresses is found) \<le> MDNS_MAX_ADDRESSES"
  by (induction "is" found rule: find_addresses.induct) auto

lemma set_membership_upd: "\<exists>ms. set_membership ip j r = r\<lparr>memberships := ms\<rparr>"
  by (auto simp: set_membership_def intro: exI [of _ "memberships r"])

lemma leave_loop_upd: "leave_loop found i olds r = Some r' \<Longrightarrow> \<exists>ms. r' = r\<lparr>memberships := ms\<rparr>"
proof (induction olds arbitrary: i r)
  case Nil
  then show ?case by (auto intro: exI [of _ "memberships r"])
next
  case (Cons old olds)
  then obtain s where "leave_loop found (i + 1) olds (if s then r else set_membership old False r) = Some r'"
    by (auto split: bind_splits if_splits)
  then show ?case using Cons.IH [of "i + 1"] set_membership_upd [of old False r] by (cases s) fastforce+
qed

lemma join_loop_upd: "\<exists>ms. join_loop olds fs r = r\<lparr>memberships := ms\<rparr>"
proof (induction fs arbitrary: r)
  case Nil
  then show ?case by (auto intro: exI [of _ "memberships r"])
next
  case (Cons f fs)
  obtain ms where "set_membership f True r = r\<lparr>memberships := ms\<rparr>" using set_membership_upd by blast
  then show ?case using Cons.IH [of r] Cons.IH [of "r\<lparr>memberships := ms\<rparr>"] by auto
qed

lemma join_all_loop: "join_all fs r = join_loop [] fs r"
  by (induction fs arbitrary: r) auto

lemma inv_memberships [simp]: "mdns_inv (r\<lparr>memberships := ms\<rparr>) = mdns_inv r"
  by (simp add: mdns_inv_def)

lemma scan_addresses_cases:
  assumes "scan_addresses ifs r = Some (changed, r')"
  obtains (fail) "ifs = None" "\<not> changed" "r' = socket_error r"
  | (same) "is" where "ifs = Some is" "\<not> changed" "r' = r" "length (find_addresses is []) = length (addresses r)"
      "set (find_addresses is []) \<subseteq> set (addresses r)"
  | (changed) "is" ms where "ifs = Some is" "changed"
      "r' = r\<lparr>memberships := ms, addresses := find_addresses is [],
        stats := (stats r)\<lparr>stat_addresses := length (find_addresses is [])\<rparr>\<rparr>"
proof (cases ifs)
  case None
  then show ?thesis using that(1) assms by (simp add: scan_addresses_def)
next
  case (Some "is")
  define found where "found = find_addresses is []"
  show ?thesis
  proof (cases changed)
    case False
    then show ?thesis using that(2) [OF Some] assms Some
      by (auto simp: scan_addresses_def Let_def list_all_iff split: if_splits bind_splits)
  next
    case True
    then obtain r1 where r1: "leave_loop found 0 (addresses r) r = Some r1"
      "r' = (join_loop (addresses r) found r1)\<lparr>addresses := found,
         stats := (stats (join_loop (addresses r) found r1))\<lparr>stat_addresses := length found\<rparr>\<rparr>"
      using assms Some by (auto simp: scan_addresses_def found_def [symmetric] Let_def split: if_splits bind_splits)
    obtain ms where "r1 = r\<lparr>memberships := ms\<rparr>" using leave_loop_upd [OF r1(1)] by blast
    moreover obtain ms' where "join_loop (addresses r) found r1 = r1\<lparr>memberships := ms'\<rparr>" using join_loop_upd by blast
    ultimately show ?thesis using that(3) [OF Some True, of ms'] r1(2) by (simp add: found_def)
  qed
qed

lemma inv_scan:
  assumes "scan_addresses ifs r = Some (changed, r')" "mdns_inv r"
  shows "mdns_inv r'"
  using assms(1)
proof (cases rule: scan_addresses_cases)
  case fail
  then show ?thesis using inv_quiet [OF quiet_bump(6)] assms(2) by simp
next
  case (changed "is" ms)
  then show ?thesis using assms(2) find_addresses_inv [of "[]" "is"] by (simp add: mdns_inv_def)
qed (use assms(2) in simp)

lemma inv_next_scan [simp]: "mdns_inv (r\<lparr>next_scan_ms := t\<rparr>) = mdns_inv r"
  by (simp add: mdns_inv_def)

lemma inv_rescan:
  assumes "mdns_inv r" "rescan ifs t r = Some r'"
  shows "mdns_inv r'"
proof (cases "t \<ge> next_scan_ms r")
  case True
  then obtain changed r1 where s: "scan_addresses ifs (r\<lparr>next_scan_ms := t + MDNS_RESCAN_INTERVAL_MS\<rparr>) = Some (changed, r1)"
    "r' = (if changed \<and> addresses r1 \<noteq> [] \<and> (state r1 = MDNS_IDLE \<or> state r1 = MDNS_ANNOUNCING)
       then r1\<lparr>state := MDNS_ANNOUNCING, announces_left := MDNS_ANNOUNCE_COUNT, next_event_ms := t\<rparr> else r1)"
    using assms(2) by (auto simp: rescan_def split: bind_splits)
  from inv_scan [OF s(1)] assms(1) have "mdns_inv r1" by simp
  then show ?thesis using s(2) by (auto simp: mdns_inv_def count_consts)
qed (use assms in \<open>simp add: rescan_def\<close>)

lemma maybe_answer_quiet:
  assumes "net_ok net" 
  shows "\<exists>r1. quiet r r1 \<and> maybe_answer_multicast net t r \<in> {Some r, Some (r1\<lparr>pending_ms := 0, pending_mask := 0\<rparr>)}"
proof (cases "pending_ms r = 0 \<or> t < pending_ms r")
  case False
  obtain r1 where "do { built \<leftarrow> build_response r (packet_stack net) MDNS_PACKET_MAX (rdata_stack net) 0 (pending_mask r)
      MDNS_TTL_UNIQUE MDNS_TTL_SHARED; send_built net built bump_responses r } = Some r1" "quiet r r1"
    using send_response_quiet [OF assms quiet_bump(2)] by blast
  then show ?thesis using False by (auto simp: maybe_answer_multicast_def split: bind_splits)
qed (auto simp: maybe_answer_multicast_def)

lemma inv_pending [simp]: "mdns_inv (r\<lparr>pending_ms := t, pending_mask := m\<rparr>) = mdns_inv r"
  by (simp add: mdns_inv_def)

lemma inv_maybe_answer:
  assumes "net_ok net" "mdns_inv r" "maybe_answer_multicast net t r = Some r'"
  shows "mdns_inv r'"
  using maybe_answer_quiet [OF assms(1), of r t] assms(2,3) inv_quiet [OF _ assms(2)] by auto

text \<open>One step of the probe and announce machine.\<close>

lemma probe_step_cases:
  assumes "net_ok net" "0 < probes_left r"
  obtains r1 where "quiet r r1" "send_probe net r = Some r1"
    "probe_step net t r = Some (if probes_left r = 1
       then r1\<lparr>probes_left := 0, state := MDNS_ANNOUNCING, announces_left := MDNS_ANNOUNCE_COUNT,
         next_event_ms := t + MDNS_PROBE_INTERVAL_MS\<rparr>
       else r1\<lparr>probes_left := probes_left r - 1, next_event_ms := t + MDNS_PROBE_INTERVAL_MS\<rparr>)"
proof -
  obtain r1 where r1: "send_probe net r = Some r1" "quiet r r1" using send_probe_quiet [OF assms(1)] by blast
  then have "probes_left r1 = probes_left r" by (auto simp: quiet_def dest: core_fields)
  then show thesis using that [OF r1(2,1)] r1(1) assms(2) by (auto simp: probe_step_def Let_def)
qed

lemma announce_step_cases:
  assumes "net_ok net" "0 < announces_left r"
  obtains r1 where "quiet r r1" "send_announcement net r = Some r1"
    "announce_step net t r = Some (if announces_left r = 1
       then r1\<lparr>announces_left := 0, next_event_ms := t + MDNS_ANNOUNCE_INTERVAL_MS, state := MDNS_IDLE\<rparr>
       else r1\<lparr>announces_left := announces_left r - 1, next_event_ms := t + MDNS_ANNOUNCE_INTERVAL_MS\<rparr>)"
proof -
  obtain r1 where r1: "send_announcement net r = Some r1" "quiet r r1" using send_announcement_quiet [OF assms(1)] by blast
  then have "announces_left r1 = announces_left r" by (auto simp: quiet_def dest: core_fields)
  then show thesis using that [OF r1(2,1)] r1(1) assms(2) by (auto simp: announce_step_def)
qed

lemma inv_timer_step:
  assumes "net_ok net" "mdns_inv r"
  shows "\<exists>r'. timer_step net t r = Some r' \<and> mdns_inv r'"
proof (cases "state r = MDNS_PROBING \<or> state r = MDNS_ANNOUNCING")
  case False
  then show ?thesis using assms(2) by (cases "state r") (auto simp: timer_step_def)
next
  case True
  consider (wait) "t < next_event_ms r" | (probe) "state r = MDNS_PROBING" "\<not> t < next_event_ms r"
    | (announce) "state r = MDNS_ANNOUNCING" "\<not> t < next_event_ms r"
    using True by blast
  then show ?thesis
  proof cases
    case wait
    then show ?thesis using assms(2) by (simp add: timer_step_def)
  next
    case probe
    then have "0 < probes_left r" using assms(2) by (simp add: mdns_inv_def)
    then obtain r1 where r1: "quiet r r1" "probe_step net t r = Some (if probes_left r = 1
       then r1\<lparr>probes_left := 0, state := MDNS_ANNOUNCING, announces_left := MDNS_ANNOUNCE_COUNT,
         next_event_ms := t + MDNS_PROBE_INTERVAL_MS\<rparr>
       else r1\<lparr>probes_left := probes_left r - 1, next_event_ms := t + MDNS_PROBE_INTERVAL_MS\<rparr>)"
      using probe_step_cases [OF assms(1)] by metis
    have "mdns_inv r1" "state r1 = MDNS_PROBING" "probes_left r1 = probes_left r"
      using inv_quiet [OF r1(1) assms(2)] core_fields [of r1 r] r1(1) probe(1) by (auto simp: quiet_def)
    then show ?thesis using probe r1(2) by (auto simp: timer_step_def mdns_inv_def count_consts)
  next
    case announce
    then have "0 < announces_left r" using assms(2) by (simp add: mdns_inv_def)
    then obtain r1 where r1: "quiet r r1" "announce_step net t r = Some (if announces_left r = 1
       then r1\<lparr>announces_left := 0, next_event_ms := t + MDNS_ANNOUNCE_INTERVAL_MS, state := MDNS_IDLE\<rparr>
       else r1\<lparr>announces_left := announces_left r - 1, next_event_ms := t + MDNS_ANNOUNCE_INTERVAL_MS\<rparr>)"
      using announce_step_cases [OF assms(1)] by metis
    have "mdns_inv r1" "state r1 = MDNS_ANNOUNCING" "announces_left r1 = announces_left r"
      using inv_quiet [OF r1(1) assms(2)] core_fields [of r1 r] r1(1) announce(1) by (auto simp: quiet_def)
    then show ?thesis using announce r1(2) by (auto simp: timer_step_def mdns_inv_def count_consts)
  qed
qed

lemma inv_service:
  assumes "net_ok net" "mdns_inv r" "mdns_service net ifs t (Some r) = Some (Some r')"
  shows "mdns_inv r'"
proof -
  obtain r1 r2 where s: "rescan ifs t r = Some r1" "maybe_answer_multicast net t r1 = Some r2" "timer_step net t r2 = Some r'"
    using assms(3) by (auto simp: mdns_service_def split: bind_splits)
  show ?thesis
    using inv_timer_step [OF assms(1) inv_maybe_answer [OF assms(1) inv_rescan [OF assms(2) s(1)] s(2)], of t] s(3) by simp
qed

lemma inv_receive_loop:
  assumes "net_ok net"
  shows "mdns_inv r \<Longrightarrow> \<exists>r'. receive_loop net t arrivals r = Some r' \<and> mdns_inv r'"
proof (induction arrivals arbitrary: r)
  case (Cons x rest)
  show ?case
  proof (cases x)
    case (Received inet ip p data)
    obtain r1 where "handle_message net (take MDNS_PACKET_MAX data) ip p t r = Some r1"
      using handle_message_cases [OF assms] by blast
    moreover from inv_handle_message [OF assms Cons.prems this] have "mdns_inv r1" .
    ultimately show ?thesis using Received Cons by simp
  next
    case ReceiveError
    then show ?thesis using Cons.prems inv_quiet [OF quiet_bump(6)] by simp
  qed (use Cons.prems in simp)
qed simp

lemma host_label_sanitized: "host_label (host (sanitize_label c))"
proof -
  define h where "h = takeWhile host_char (take 63 (map tolower (host c)))"
  have "length h \<le> 63"
    unfolding h_def by (rule order.trans [OF length_takeWhile_le]) simp
  moreover have "list_all host_char h" by (auto simp: h_def list_all_iff dest: set_takeWhileD)
  moreover have "host_label ''camstream''" by code_simp
  ultimately show ?thesis
    unfolding sanitize_label_def h_def [symmetric] Let_def by (auto simp: host_label_def fit_def)
qed

lemma inv_fresh: "mdns_inv (fresh_responder c seed)"
proof -
  have "host_label (host (config (fresh_responder c seed)))" "label (fresh_responder c seed) = fit 80 (host (config (fresh_responder c seed)))"
    using host_label_sanitized [of c] by (simp_all add: fresh_responder_def Let_def)
  moreover from this have "label (fresh_responder c seed) = host (config (fresh_responder c seed))"
    by (simp add: host_label_def fit_def)
  ultimately show ?thesis
    by (simp add: mdns_inv_def numbered_def fresh_responder_def Let_def count_consts zero_stats_def fit_def)
qed

lemma inv_create:
  assumes "mdns_responder_create memory_ok sock bind_ok seed now ifs cfg = Some (Some r)"
  shows "mdns_inv r"
proof -
  obtain c ch r1 where s: "scan_addresses ifs (fresh_responder c seed) = Some (ch, r1)"
    "r = (join_all (addresses r1) (r1\<lparr>fd := sock\<rparr>))\<lparr>next_event_ms := now + MDNS_PROBE_INTERVAL_MS\<rparr> \<or>
     r = r1\<lparr>next_event_ms := now + MDNS_PROBE_INTERVAL_MS\<rparr>"
    using assms by (auto simp: mdns_responder_create_def split: option.splits bind_splits if_splits)
  have "mdns_inv r1" using inv_scan [OF s(1) inv_fresh] .
  moreover obtain ms where "join_all (addresses r1) (r1\<lparr>fd := sock\<rparr>) = r1\<lparr>fd := sock, memberships := ms\<rparr>"
    using join_loop_upd [of "[]" "addresses r1" "r1\<lparr>fd := sock\<rparr>"] by (auto simp: join_all_loop)
  moreover have "mdns_inv (r1\<lparr>fd := s, memberships := ms, next_event_ms := t\<rparr>) = mdns_inv r1"
    "mdns_inv (r1\<lparr>next_event_ms := t\<rparr>) = mdns_inv r1" for s ms t
    by (simp_all add: mdns_inv_def)
  ultimately show ?thesis using s(2) by (elim disjE) simp_all
qed

section \<open>Reachable states\<close>

text \<open>The calls the event loop makes, with whatever the network and the interfaces do.\<close>

inductive mdns_step :: "MdnsResponder \<Rightarrow> MdnsResponder \<Rightarrow> bool" where
  packet: "net_ok net \<Longrightarrow> mdns_handle_packet net packet ip p t (Some r) = Some (Some r') \<Longrightarrow> mdns_step r r'"
| service: "net_ok net \<Longrightarrow> mdns_service net ifs t (Some r) = Some (Some r') \<Longrightarrow> mdns_step r r'"
| readable: "net_ok net \<Longrightarrow> mdns_readable net t arrivals (Some r) = Some (Some r') \<Longrightarrow> mdns_step r r'"

inductive mdns_reachable :: "MdnsResponder \<Rightarrow> bool" where
  create: "mdns_responder_create memory_ok sock bind_ok seed now ifs cfg = Some (Some r) \<Longrightarrow> mdns_reachable r"
| step: "mdns_reachable r \<Longrightarrow> mdns_step r r' \<Longrightarrow> mdns_reachable r'"

lemma inv_step:
  assumes "mdns_step r r'" "mdns_inv r"
  shows "mdns_inv r'"
  using assms(1)
proof cases
  case (packet net packet ip p t)
  then show ?thesis using inv_handle_message assms(2) by (auto simp: mdns_handle_packet_def)
next
  case (service net ifs t)
  then show ?thesis using inv_service assms(2) by blast
next
  case (readable net t arrivals)
  then show ?thesis using inv_receive_loop [of net r t arrivals] assms(2) by (auto simp: mdns_readable_def split: if_splits)
qed

lemma mdns_reachable_inv: "mdns_reachable r \<Longrightarrow> mdns_inv r"
  by (induction rule: mdns_reachable.induct) (auto intro: inv_create inv_step)

text \<open>
  C29: no packet, however malformed, makes the responder read outside a buffer: it always returns,
  and the responder it leaves either differs from the old one only in traffic counters and in
  datagrams of at most 1400 bytes that were sent, or has handled a name conflict, or (while it is
  neither probing nor off) has counted the query and scheduled a reply. In particular a packet never
  changes the configuration or the addresses.
\<close>

theorem mdns_handle_packet_safe:
  assumes "net_ok net"
  shows "\<exists>r'. mdns_handle_packet net packet ip p t (Some r) = Some (Some r') \<and>
    (quiet r r' \<or> state r \<noteq> MDNS_OFF \<and> r' = rename_after_conflict t r \<or>
     state r \<noteq> MDNS_PROBING \<and> state r \<noteq> MDNS_OFF \<and> (\<exists>m. r' = schedule_reply t m (bump_queries r)))"
  using handle_message_cases [OF assms, of packet ip p t r] by (auto simp: mdns_handle_packet_def)

text \<open>
  C30: every state the responder reaches, from its creation through any sequence of packets, timer
  calls and socket reads, is well formed: the name it wants is the configured one after \<open>suffix\<close>
  renames (at most nine, counted exactly by the \<open>renamed\<close> flag), it is disabled exactly when it
  ran out of names, at most three probes and two announcements are outstanding and at least one
  in the states that send them, it knows at most eight distinct addresses, and nothing longer than
  a packet was ever sent.
\<close>

theorem mdns_reachable_invariant:
  assumes "mdns_reachable r"
  shows "host_label (host (config r)) \<and> label r = numbered (host (config r)) (suffix r) \<and>
    suffix r \<le> MDNS_NAME_SUFFIX_MAX \<and> renamed (stats r) = (suffix r > 0) \<and>
    disabled (stats r) = (state r = MDNS_OFF) \<and> (state r = MDNS_OFF \<longrightarrow> suffix r = MDNS_NAME_SUFFIX_MAX) \<and>
    probes_left r \<le> MDNS_PROBE_COUNT \<and> (state r = MDNS_PROBING \<longrightarrow> 0 < probes_left r) \<and>
    announces_left r \<le> MDNS_ANNOUNCE_COUNT \<and> (state r = MDNS_ANNOUNCING \<longrightarrow> 0 < announces_left r) \<and>
    distinct (addresses r) \<and> length (addresses r) \<le> MDNS_MAX_ADDRESSES \<and> stat_addresses (stats r) = length (addresses r) \<and>
    (\<forall>d \<in> set (wire r). length (payload d) \<le> MDNS_PACKET_MAX)"
  using mdns_reachable_inv [OF assms] by (auto simp: mdns_inv_def small_def list_all_iff)

section \<open>The answers\<close>

lemma enc_labels_label:
  assumes "l \<noteq> []" "length l \<le> 63" "dot \<notin> set l"
  shows "enc_labels (l @ dot # rest) = map_option ((@) (of_nat (length l) # map byte l)) (enc_labels rest)"
proof -
  have "takeWhile (\<lambda>c. c \<noteq> dot) (l @ dot # rest) = l"
    using assms(3) by (induction l) auto
  then show ?thesis using assms(1,2) enc_labels_step [of "l @ dot # rest"] by simp
qed

lemma enc_name_label:
  assumes "l \<noteq> []" "length l \<le> 63" "dot \<notin> set l" "enc_name rest = Some bs"
  shows "enc_name (l @ dot # rest) = Some (of_nat (length l) # map byte l @ bs)"
  using enc_labels_label [OF assms(1-3)] assms(4) by (auto simp: enc_name_def)

lemma enc_fixed:
  "\<exists>bs. enc_name ''local'' = Some bs \<and> length bs = 7"
  "\<exists>bs. enc_name ''_http._tcp.local'' = Some bs \<and> length bs = 18"
  "\<exists>bs. enc_name services_type = Some bs \<and> length bs = 30"
proof -
  have "enc_name ''local'' = Some (5 # map byte ''local'' @ [0])" by code_simp
  then show "\<exists>bs. enc_name ''local'' = Some bs \<and> length bs = 7" by simp
  have "enc_name ''_http._tcp.local'' = Some ((5 # map byte ''_http'') @ (4 # map byte ''_tcp'') @ (5 # map byte ''local'') @ [0])"
    by code_simp
  then show "\<exists>bs. enc_name ''_http._tcp.local'' = Some bs \<and> length bs = 18" by simp
  have "enc_name services_type = Some ((9 # map byte ''_services'') @ (7 # map byte ''_dns-sd'') @ (4 # map byte ''_udp'') @
      (5 # map byte ''local'') @ [0])"
    by code_simp
  then show "\<exists>bs. enc_name services_type = Some bs \<and> length bs = 30" by simp
qed

text \<open>A label that DNS can carry.\<close>

definition dns_label :: "string \<Rightarrow> bool" where
  "dns_label l \<longleftrightarrow> l \<noteq> [] \<and> length l \<le> 63 \<and> dot \<notin> set l"

lemma host_name_enc:
  assumes "dns_label (label r)"
  shows "host_name r = label r @ ''.local''" "\<exists>bs. enc_name (host_name r) = Some bs \<and> length bs = length (label r) + 8"
    "name_ok (host_name r)"
proof -
  show h: "host_name r = label r @ ''.local''" using assms by (auto simp: host_name_def dns_label_def size_consts intro!: fit_id)
  obtain bs where "enc_name ''local'' = Some bs" "length bs = 7" using enc_fixed(1) by blast
  then show "\<exists>bs. enc_name (host_name r) = Some bs \<and> length bs = length (label r) + 8"
    using assms enc_name_label [of "label r" "''local''" bs] by (simp add: h dns_label_def dot_def)
  show "name_ok (host_name r)" using assms by (simp add: h name_ok_def dns_label_def dot_def)
qed

lemma instance_name_enc:
  assumes "dns_label (label r)"
  shows "instance_name r = label r @ ''._http._tcp.local''" "\<exists>bs. enc_name (instance_name r) = Some bs \<and> length bs = length (label r) + 19"
    "name_ok (instance_name r)"
proof -
  show h: "instance_name r = label r @ ''._http._tcp.local''" using assms by (auto simp: instance_name_def dns_label_def size_consts intro!: fit_id)
  obtain bs where "enc_name ''_http._tcp.local'' = Some bs" "length bs = 18" using enc_fixed(2) by blast
  then show "\<exists>bs. enc_name (instance_name r) = Some bs \<and> length bs = length (label r) + 19"
    using assms enc_name_label [of "label r" "''_http._tcp.local''" bs] by (simp add: h dns_label_def dot_def)
  show "name_ok (instance_name r)" using assms by (simp add: h name_ok_def dns_label_def dot_def)
qed

text \<open>A record that is encoded in at most \<open>n\<close> bytes and can be read back.\<close>

definition sound_record :: "nat \<Rightarrow> DnsRecord \<Rightarrow> bool" where
  "sound_record n R \<longleftrightarrow> encodable R \<and> name_ok (rr_name R) \<and> length (rr_data R) < 65536 \<and> length (the (enc_record R)) \<le> n"

lemma sound_recordI:
  assumes "\<exists>bs. enc_name (rr_name R) = Some bs \<and> length bs = k" "name_ok (rr_name R)" "rr_data R \<noteq> []"
    "length (rr_data R) < 65536" "k + 10 + length (rr_data R) \<le> n"
  shows "sound_record n R"
  using assms by (auto simp: sound_record_def encodable_def enc_record_def)

lemma wire_of_bound:
  "list_all (sound_record n) Rs \<Longrightarrow> length (wire_of Rs) \<le> n * length Rs"
  by (induction Rs) (auto simp: wire_of_def sound_record_def)

definition responder_ok :: "MdnsResponder \<Rightarrow> bool" where
  "responder_ok r \<longleftrightarrow> dns_label (label r) \<and> length (addresses r) \<le> MDNS_MAX_ADDRESSES \<and> length (model (config r)) < 64"

lemma sound_host_records:
  assumes "responder_ok r"
  shows "list_all (sound_record 85) (host_records r ttl)" "length (host_records r ttl) \<le> 8"
proof -
  have l: "dns_label (label r)" "length (label r) \<le> 63" using assms by (simp_all add: responder_ok_def dns_label_def)
  have a: "length (a_data ip) \<le> 4" for ip by (auto simp: a_data_def dest: length_inet_pton split: option.split)
  have "length (a_data ip) < 65536" "length (label r) + length (a_data ip) \<le> 67" for ip
    using a [of ip] l(2) by simp_all
  then show "list_all (sound_record 85) (host_records r ttl)"
    using host_name_enc [OF l(1)] by (auto simp: list_all_iff host_records_def intro!: sound_recordI)
  show "length (host_records r ttl) \<le> 8"
    using assms by (auto simp: host_records_def responder_ok_def size_consts intro: order.trans [OF length_filter_le])
qed

text \<open>The other record sets; \<open>sound_set n Rs\<close>: all can be read back, in at most \<open>n\<close> bytes together.\<close>

definition sound_set :: "nat \<Rightarrow> DnsRecord list \<Rightarrow> bool" where
  "sound_set n Rs \<longleftrightarrow> list_all (\<lambda>R. encodable R \<and> name_ok (rr_name R) \<and> length (rr_data R) < 65536) Rs \<and> length (wire_of Rs) \<le> n"

lemma sound_set_Nil: "sound_set n []"
  by (simp add: sound_set_def wire_of_def)

lemma sound_set_one: "sound_record n R \<Longrightarrow> sound_set n [R]"
  by (simp add: sound_set_def sound_record_def wire_of_def)

lemma sound_set_append: "sound_set n Rs \<Longrightarrow> sound_set k Ss \<Longrightarrow> sound_set (n + k) (Rs @ Ss)"
  by (simp add: sound_set_def wire_of_append)

lemma sound_set_if: "(c \<Longrightarrow> sound_set n Rs) \<Longrightarrow> sound_set n (if c then Rs else [])"
  by (simp add: sound_set_Nil)

lemma http_type_enc: "\<exists>bs. enc_name http_type = Some bs \<and> length bs = 18" "name_ok http_type" "name_ok services_type"
  using enc_fixed(2) by (simp_all add: http_type_def services_type_def name_ok_def dot_def)

lemma sound_wanted:
  assumes "responder_ok r"
  shows "sound_set 1186 (wanted r m tu ts)"
proof -
  have l: "dns_label (label r)" "length (label r) \<le> 63" and mo: "length (model (config r)) < 64"
    using assms by (simp_all add: responder_ok_def dns_label_def)
  note h = host_name_enc [OF l(1)] and i = instance_name_enc [OF l(1)]
  have d: "name_data (instance_name r) \<noteq> [] \<and> length (name_data (instance_name r)) \<le> 82"
    "srv_data (srv_port (config r)) (host_name r) \<noteq> [] \<and> length (srv_data (srv_port (config r)) (host_name r)) \<le> 77"
    "txt_data (model (config r)) \<noteq> [] \<and> length (txt_data (model (config r))) \<le> 77"
    "name_data http_type \<noteq> [] \<and> length (name_data http_type) \<le> 18"
    using h(2) i(2) http_type_enc(1) l(2) mo
    by (auto simp: name_data_def srv_data_def txt_data_def fits_rdata_def size_consts)
  have A: "sound_set 680 (host_records r tu)"
  proof -
    have "length (wire_of (host_records r tu)) \<le> 85 * 8"
      using wire_of_bound [OF sound_host_records(1) [OF assms], of tu] sound_host_records(2) [OF assms, of tu] by linarith
    then show ?thesis using sound_host_records(1) [OF assms, of tu]
      by (auto simp: sound_set_def sound_record_def list_all_iff)
  qed
  have P: "sound_set 110 [\<lparr>rr_name = http_type, rr_type = MDNS_TYPE_PTR, rr_class = MDNS_CLASS_IN, rr_ttl = ts,
      rr_data = name_data (instance_name r)\<rparr>]"
    using d(1) http_type_enc by (intro sound_set_one sound_recordI) auto
  have S: "sound_set 169 [\<lparr>rr_name = instance_name r, rr_type = MDNS_TYPE_SRV, rr_class = unique_class, rr_ttl = tu,
      rr_data = srv_data (srv_port (config r)) (host_name r)\<rparr>]"
    using d(2) i l(2) by (intro sound_set_one sound_recordI) auto
  have T: "sound_set 169 [\<lparr>rr_name = instance_name r, rr_type = MDNS_TYPE_TXT, rr_class = unique_class, rr_ttl = tu,
      rr_data = txt_data (model (config r))\<rparr>]"
    using d(3) i l(2) by (intro sound_set_one sound_recordI) auto
  have Y: "sound_set 58 [\<lparr>rr_name = services_type, rr_type = MDNS_TYPE_PTR, rr_class = MDNS_CLASS_IN, rr_ttl = ts,
      rr_data = name_data http_type\<rparr>]"
    using d(4) enc_fixed(3) http_type_enc by (intro sound_set_one sound_recordI) auto
  have "sound_set (680 + (110 + ((169 + 169) + 58))) (wanted r m tu ts)"
    unfolding wanted_def by (intro sound_set_append sound_set_if A P S T Y)
  then show ?thesis by simp
qed

lemma inv_responder_ok:
  assumes "mdns_inv r" "length (label r) \<le> 63" "length (model (config r)) < 64"
  shows "responder_ok r"
proof -
  have h: "host_label (host (config r))" "label r = numbered (host (config r)) (suffix r)"
    "length (addresses r) \<le> MDNS_MAX_ADDRESSES" using assms(1) by (simp_all add: mdns_inv_def)
  have "\<not> host_char dot" "\<not> isdigit dot" by (simp_all add: host_char_def isdigit_def dot_def)
  then have "dot \<notin> set (label r)"
    using h(1,2) show_nat_digits by (auto simp: numbered_def host_label_def list_all_iff dot_def)
  moreover have "label r \<noteq> []" using h(1,2) by (simp add: numbered_def host_label_def)
  ultimately show ?thesis using assms h(3) by (simp add: responder_ok_def dns_label_def)
qed

text \<open>
  Reading the records of a message back with the reader of the code. That skips the class, which
  stands eight bytes in front of the data: here it is read as well.
\<close>

fun decode_records :: "bytes \<Rightarrow> nat \<Rightarrow> nat \<Rightarrow> DnsRecord list option" where
  "decode_records packet offset 0 = Some []"
| "decode_records packet offset (Suc n) = do {
     rec \<leftarrow> read_record packet offset MDNS_NAME_MAX;
     (name, type, ttl, off, len) \<leftarrow> rec;
     klass \<leftarrow> read_be16 packet (off - 8);
     rest \<leftarrow> decode_records packet (off + len) n;
     Some (\<lparr>rr_name = name, rr_type = type, rr_class = klass, rr_ttl = ttl, rr_data = take len (drop off packet)\<rparr> # rest) }"

lemma read_class_enc:
  assumes "enc_record R = Some bs" "take (length bs) (drop offset packet) = bs" "d + length (rr_data R) = offset + length bs"
  shows "read_be16 packet (d - 8) = Some (rr_class R)"
proof -
  obtain n where n: "bs = n @ be16_bytes (rr_type R) @ be16_bytes (rr_class R) @
      be32_bytes (rr_ttl R) @ be16_bytes (of_nat (length (rr_data R))) @ rr_data R"
    using assms(1) by (auto simp: enc_record_def)
  note s = take_drop_split [OF assms(2) [unfolded n]]
  note s2 = take_drop_split [OF s(2)]
  have "d - 8 = offset + length n + 2" using assms(3) by (simp add: n)
  then show ?thesis using read_be16_at_bytes [OF take_drop_split(1) [OF s2(2), unfolded length_be_bytes]] by simp
qed

lemma wanted_class: "\<forall>R \<in> set (wanted r m tu ts). (rr_class R = 0x8001) = (rr_type R \<noteq> MDNS_TYPE_PTR)"
  by (auto simp: wanted_def host_records_def class_consts type_consts)

lemma decode_wire:
  assumes "sound_set n Rs" "take (length (wire_of Rs)) (drop offset packet) = wire_of Rs"
  shows "decode_records packet offset (length Rs) = Some Rs"
  using assms
proof (induction Rs arbitrary: offset n)
  case (Cons R Rs)
  obtain bs where bs: "enc_record R = Some bs" using Cons.prems(1) by (auto simp: sound_set_def encodable_def)
  have w: "wire_of (R # Rs) = bs @ wire_of Rs" by (simp add: wire_of_def bs)
  note t = take_drop_split [OF Cons.prems(2) [unfolded w]]
  have R: "name_ok (rr_name R)" "length (rr_data R) < 65536" and Rs: "sound_set (length (wire_of Rs)) Rs"
    using Cons.prems(1) by (simp_all add: sound_set_def)
  obtain d where d: "read_record packet offset 128 = Some (Some (rr_name R, rr_type R, rr_ttl R, d, length (rr_data R)))"
    "take (length (rr_data R)) (drop d packet) = rr_data R" "d + length (rr_data R) = offset + length bs"
    by (rule read_record_enc [OF bs R t(1)])
  moreover have "read_be16 packet (d - 8) = Some (rr_class R)" by (rule read_class_enc [OF bs t(1) d(3)])
  ultimately show ?case using Cons.IH [OF Rs t(2)] by (simp add: size_consts del: read_be16_in)
qed simp

text \<open>
  C32: in a reachable state whose label has at most 63 characters, a message about any set of groups
  can be built and takes at most 1198 of the 1400 bytes; read back with the reader of the code it is
  an authoritative answer that counts and carries exactly the wanted records: one address record per
  usable address, the service pointer, the SRV and TXT records and the service type, each with its
  class, so that the flush bit is on the unique records and not on the shared pointers, and its own
  time to live. (A host name of 62 or 63 characters that is renamed gets a longer label, and then no
  message with the name in it can be built.)
\<close>

theorem mdns_response_roundtrip:
  assumes "net_ok net" "mdns_reachable r" "length (label r) \<le> 63" "length (model (config r)) < 64"
  shows "\<exists>b n. build_response r (packet_stack net) MDNS_PACKET_MAX (rdata_stack net) qid m ttl_unique ttl_shared = Some (Some (b, n)) \<and>
    12 \<le> n \<and> n \<le> 1198 \<and> n \<le> length b \<and>
    take 12 b = header qid 0x8400 (length (wanted r m ttl_unique ttl_shared)) 0 \<and>
    decode_records (take n b) 12 (length (wanted r m ttl_unique ttl_shared)) = Some (wanted r m ttl_unique ttl_shared) \<and>
    (\<forall>R \<in> set (wanted r m ttl_unique ttl_shared). (rr_class R = 0x8001) = (rr_type R \<noteq> MDNS_TYPE_PTR))"
proof -
  let ?Rs = "wanted r m ttl_unique ttl_shared"
  have ok: "responder_ok r" using inv_responder_ok [OF mdns_reachable_inv [OF assms(2)] assms(3,4)] .
  have s: "sound_set 1186 ?Rs" by (rule sound_wanted [OF ok])
  have f: "fits_packet ?Rs" using s by (auto simp: fits_packet_def sound_set_def size_consts list_all_iff)
  obtain b n where b: "build_response r (packet_stack net) MDNS_PACKET_MAX (rdata_stack net) qid m ttl_unique ttl_shared = Some (Some (b, n))"
    "n \<le> length b" "take n b = response_message qid ?Rs"
    using build_response_spec [of "packet_stack net" "rdata_stack net" r m ttl_unique ttl_shared qid] f assms(1)
    by (auto simp: net_ok_def)
  have hl: "length (header a x y z) = 12" for a x y z by (simp add: header_def)
  have fl: "MDNS_FLAG_RESPONSE OR MDNS_FLAG_AUTHORITATIVE = 0x8400" by (simp add: flag_consts)
  have n: "n = 12 + length (wire_of ?Rs)"
    using arg_cong [OF b(3), of length] b(2) hl by (simp add: response_message_def)
  have "take 12 b = take 12 (take n b)" using n by simp
  then have "take 12 b = header qid 0x8400 (length ?Rs) 0" unfolding b(3) by (simp add: response_message_def hl fl)
  moreover have "drop 12 (take n b) = wire_of ?Rs" unfolding b(3) by (simp add: response_message_def hl)
  moreover have "\<forall>R \<in> set ?Rs. (rr_class R = 0x8001) = (rr_type R \<noteq> MDNS_TYPE_PTR)" by (rule wanted_class)
  ultimately show ?thesis using b(1,2) n s decode_wire [OF s, of 12 "take n b"] by (auto simp: sound_set_def)
qed

section \<open>An example responder\<close>

definition demo_net :: Net where
  "demo_net = \<lparr>if_ok = \<lambda>_. True, group_ok = \<lambda>_. True, peer_ok = True,
     packet_stack = replicate MDNS_PACKET_MAX 0, rdata_stack = replicate MDNS_RDATA_MAX 0\<rparr>"

definition demo_config :: MdnsConfig where
  "demo_config = \<lparr>host = ''Cam'', model = ''pi5'', port = 0, srv_port = 8080, has_send = True\<rparr>"

definition demo_ifs :: "IfAddr list" where
  "demo_ifs = [\<lparr>is_inet = True, is_up = True, is_loopback = False, if_text = ''192.168.1.9''\<rparr>]"

definition demo :: MdnsResponder where
  "demo = \<lparr>config = demo_config\<lparr>host := ''cam''\<rparr>, fd = -1, state = MDNS_PROBING, label = ''cam'', suffix = 0, probes_left = 3,
     announces_left = 0, next_event_ms = 1250, pending_mask = 0, pending_ms = 0, next_scan_ms = 0, last_conflict_ms = 0,
     random_state = 7, socket_warned = False, addresses = [''192.168.1.9''],
     stats = zero_stats\<lparr>stat_addresses := 1, stat_name := ''cam.local''\<rparr>, wire = [], memberships = []\<rparr>"

lemma demo_net_ok: "net_ok demo_net"
  by (simp add: net_ok_def demo_net_def)

lemma demo_created: "mdns_responder_create True (-1) True 7 1000 (Some demo_ifs) (Some demo_config) = Some (Some demo)"
proof -
  have s: "sanitize_label demo_config = demo_config\<lparr>host := ''cam''\<rparr>" by code_simp
  show ?thesis
    by (simp add: mdns_responder_create_def fresh_responder_def s [unfolded demo_config_def] scan_addresses_def demo_ifs_def Let_def size_consts
        set_membership_def demo_def demo_config_def zero_stats_def fit_def MDNS_PROBE_COUNT_def MDNS_PROBE_INTERVAL_MS_def)
qed

lemma demo_reachable: "mdns_reachable demo"
  using mdns_reachable.create [OF demo_created] .

text \<open>Applications of the properties to it.\<close>

theorem mdns_handle_packet_safe_witness:
  "net_ok demo_net \<and> (\<exists>r'. mdns_handle_packet demo_net (replicate 13 0xC0) [10, 0, 0, 1] 5353 2000 (Some demo) = Some (Some r'))"
  using mdns_handle_packet_safe [OF demo_net_ok, of "replicate 13 0xC0" "[10, 0, 0, 1]" 5353 2000 demo] demo_net_ok by blast

theorem mdns_reachable_invariant_witness:
  "mdns_reachable demo \<and> label demo = numbered (host (config demo)) (suffix demo) \<and> probes_left demo \<le> MDNS_PROBE_COUNT"
  using mdns_reachable_invariant [OF demo_reachable] demo_reachable by blast

theorem mdns_response_roundtrip_witness:
  "\<exists>b n. build_response demo (packet_stack demo_net) MDNS_PACKET_MAX (rdata_stack demo_net) 0 GROUP_A 120 4500 = Some (Some (b, n)) \<and>
    decode_records (take n b) 12 1 =
      Some [\<lparr>rr_name = ''cam.local'', rr_type = MDNS_TYPE_A, rr_class = 0x8001, rr_ttl = 120, rr_data = [192, 168, 1, 9]\<rparr>]"
proof -
  have "inet_pton ''192.168.1.9'' = Some [192, 168, 1, 9]" by code_simp
  then have w: "wanted demo GROUP_A 120 4500 = [\<lparr>rr_name = ''cam.local'', rr_type = MDNS_TYPE_A, rr_class = unique_class,
      rr_ttl = 120, rr_data = [192, 168, 1, 9]\<rparr>]"
    by (simp add: wanted_def group_consts host_records_def a_data_def demo_def host_name_def fit_def size_consts)
  have l: "length (label demo) \<le> 63" "length (model (config demo)) < 64" by (simp_all add: demo_def demo_config_def)
  show ?thesis
    using mdns_response_roundtrip [OF demo_net_ok demo_reachable l, of 0 GROUP_A 120 4500] by (auto simp: w class_consts)
qed

section \<open>Progress\<close>

text \<open>The timer calls at the times \<open>ts\<close>.\<close>

fun run_services :: "Net \<Rightarrow> IfAddr list option \<Rightarrow> u64 list \<Rightarrow> MdnsResponder \<Rightarrow> MdnsResponder option" where
  "run_services net ifs [] r = Some r"
| "run_services net ifs (t # ts) r = do {
     responder \<leftarrow> mdns_service net ifs t (Some r);
     r' \<leftarrow> responder;
     run_services net ifs ts r' }"

text \<open>
  The datagrams by which one message reaches the group: one call of the send hook, or one datagram
  on every interface whose socket calls succeed. Then what is left to send before the name is ours.
\<close>

definition group_datagrams :: "Net \<Rightarrow> MdnsResponder \<Rightarrow> bytes \<Rightarrow> Datagram list" where
  "group_datagrams net r data =
     (if has_send (config r) then [HookGroup data]
      else if fd r < 0 then []
      else map (\<lambda>a. ToGroup a data) (filter (\<lambda>a. inet_pton a \<noteq> None \<and> if_ok net a \<and> group_ok net a) (addresses r)))"

definition probe_datagrams :: "Net \<Rightarrow> MdnsResponder \<Rightarrow> Datagram list" where
  "probe_datagrams net r = group_datagrams net r (probe_message (wanted r (GROUP_A OR GROUP_SRV_TXT) MDNS_TTL_UNIQUE MDNS_TTL_SHARED))"

definition announce_datagrams :: "Net \<Rightarrow> MdnsResponder \<Rightarrow> Datagram list" where
  "announce_datagrams net r = group_datagrams net r (response_message 0 (wanted r GROUP_ALL MDNS_TTL_UNIQUE MDNS_TTL_SHARED))"

definition outstanding :: "Net \<Rightarrow> MdnsResponder \<Rightarrow> Datagram list list" where
  "outstanding net r = (case state r of
     MDNS_PROBING \<Rightarrow> replicate (probes_left r) (probe_datagrams net r) @ replicate MDNS_ANNOUNCE_COUNT (announce_datagrams net r)
   | MDNS_ANNOUNCING \<Rightarrow> replicate (announces_left r) (announce_datagrams net r)
   | _ \<Rightarrow> [])"

definition steady :: "IfAddr list option \<Rightarrow> MdnsResponder \<Rightarrow> bool" where
  "steady ifs r \<longleftrightarrow> (case ifs of None \<Rightarrow> False | Some is \<Rightarrow> find_addresses is [] = addresses r)"

text \<open>What the messages depend on.\<close>

definition same_identity :: "MdnsResponder \<Rightarrow> MdnsResponder \<Rightarrow> bool" where
  "same_identity r r' \<longleftrightarrow> config r' = config r \<and> fd r' = fd r \<and> label r' = label r \<and> addresses r' = addresses r"

lemma identity_messages:
  assumes "same_identity r r'"
  shows "wanted r' m tu ts = wanted r m tu ts" "probe_datagrams net r' = probe_datagrams net r" "announce_datagrams net r' = announce_datagrams net r"
    "responder_ok r' = responder_ok r" "steady ifs r' = steady ifs r"
proof -
  show w: "wanted r' m tu ts = wanted r m tu ts" for m tu ts
    using assms by (simp add: same_identity_def wanted_def host_records_def host_name_def instance_name_def)
  show "probe_datagrams net r' = probe_datagrams net r" "announce_datagrams net r' = announce_datagrams net r"
    using assms by (simp_all add: probe_datagrams_def announce_datagrams_def group_datagrams_def same_identity_def w)
  show "responder_ok r' = responder_ok r" "steady ifs r' = steady ifs r"
    using assms by (simp_all add: same_identity_def responder_ok_def steady_def split: option.split)
qed

lemma fits_wanted: "responder_ok r \<Longrightarrow> fits_packet (wanted r m tu ts)"
  using sound_wanted [of r m tu ts] by (auto simp: fits_packet_def sound_set_def size_consts list_all_iff)

text \<open>Failed socket calls are counted and warned about once; they change nothing else.\<close>

definition sent :: "Datagram list \<Rightarrow> MdnsResponder \<Rightarrow> MdnsResponder \<Rightarrow> bool" where
  "sent ds r r' \<longleftrightarrow> r' = r\<lparr>wire := wire r @ ds, stats := stats r', socket_warned := socket_warned r'\<rparr>"

lemma group_loop_sent:
  "sent (map (\<lambda>a. ToGroup a data) (filter (\<lambda>a. inet_pton a \<noteq> None \<and> if_ok net a \<and> group_ok net a) as)) r (group_loop net data as r)"
proof (induction as arbitrary: r)
  case (Cons a as)
  show ?case
    using Cons.IH [of r] Cons.IH [of "socket_error r"] Cons.IH [of "r\<lparr>wire := wire r @ [ToGroup a data]\<rparr>"]
    by (auto simp: sent_def socket_error_def bump_defs)
qed (simp add: sent_def)

lemma send_to_group_sent: "sent (group_datagrams net r data) r (send_to_group net data r)"
  using group_loop_sent [of data net "addresses r" r] by (simp add: send_to_group_def group_datagrams_def sent_def)

lemma sent_bump: "sent ds r r' \<Longrightarrow> sent ds r (bump_announcements r')"
  unfolding sent_def bump_defs by (cases r; cases r') simp

lemma send_probe_sent:
  assumes "net_ok net" "responder_ok r"
  shows "\<exists>r'. send_probe net r = Some r' \<and> sent (probe_datagrams net r) r r'"
proof -
  have n: "length (packet_stack net) = MDNS_PACKET_MAX" "length (rdata_stack net) = MDNS_RDATA_MAX"
    using assms(1) by (simp_all add: net_ok_def)
  show ?thesis
    using build_probe_spec [OF n, of r] fits_wanted [OF assms(2)] sent_bump [OF send_to_group_sent]
    by (auto simp: send_probe_def send_built_def probe_datagrams_def)
qed

lemma send_announcement_sent:
  assumes "net_ok net" "responder_ok r"
  shows "\<exists>r'. send_announcement net r = Some r' \<and> sent (announce_datagrams net r) r r'"
proof -
  have n: "length (packet_stack net) = MDNS_PACKET_MAX" "length (rdata_stack net) = MDNS_RDATA_MAX"
    using assms(1) by (simp_all add: net_ok_def)
  show ?thesis
    using build_response_spec [OF n, of r GROUP_ALL MDNS_TTL_UNIQUE MDNS_TTL_SHARED 0] fits_wanted [OF assms(2)]
      sent_bump [OF send_to_group_sent]
    by (auto simp: send_announcement_def send_built_def announce_datagrams_def)
qed

lemma rescan_steady:
  assumes "steady ifs r"
  obtains s where "rescan ifs t r = Some (r\<lparr>next_scan_ms := s\<rparr>)"
proof (cases "t \<ge> next_scan_ms r")
  case True
  have "rescan ifs t r = Some (r\<lparr>next_scan_ms := t + MDNS_RESCAN_INTERVAL_MS\<rparr>)"
    using True assms by (auto simp: rescan_def scan_addresses_def steady_def list_all_iff split: option.splits)
  then show ?thesis using that by blast
next
  case False
  then have "rescan ifs t r = Some (r\<lparr>next_scan_ms := next_scan_ms r\<rparr>)" by (simp add: rescan_def)
  then show ?thesis using that by blast
qed

text \<open>The states a timer call starts from: nothing pending, the addresses known.\<close>

definition ready :: "IfAddr list option \<Rightarrow> MdnsResponder \<Rightarrow> bool" where
  "ready ifs r \<longleftrightarrow> mdns_inv r \<and> responder_ok r \<and> steady ifs r \<and> pending_ms r = 0 \<and> state r \<noteq> MDNS_OFF"

lemma timer_step_progress:
  assumes "net_ok net" "ready ifs r" "\<not> t < next_event_ms r"
  obtains r' where "timer_step net t r = Some r'" "same_identity r r'" "pending_ms r' = 0" "state r' \<noteq> MDNS_OFF"
    "wire r' @ concat (outstanding net r') = wire r @ concat (outstanding net r)" "length (outstanding net r') = length (outstanding net r) - 1"
    "next_event_ms r' \<in> {next_event_ms r, t + MDNS_PROBE_INTERVAL_MS, t + MDNS_ANNOUNCE_INTERVAL_MS}"
proof -
  have r: "mdns_inv r" "responder_ok r" "pending_ms r = 0" using assms(2) by (simp_all add: ready_def)
  consider (probe) "state r = MDNS_PROBING" | (announce) "state r = MDNS_ANNOUNCING" | (idle) "state r = MDNS_IDLE"
    using assms(2) by (cases "state r") (auto simp: ready_def)
  then show thesis
  proof cases
    case probe
    obtain k where k: "probes_left r = Suc k" using r(1) probe by (cases "probes_left r") (auto simp: mdns_inv_def)
    obtain r0 where sent: "send_probe net r = Some r0" "sent (probe_datagrams net r) r r0" using send_probe_sent [OF assms(1) r(2)] by blast
    define r1 where "r1 = r\<lparr>wire := wire r @ probe_datagrams net r, stats := stats r0, socket_warned := socket_warned r0\<rparr>"
    have run0: "send_probe net r = Some r1" using sent by (simp add: sent_def r1_def)
    define r' where "r' = (if k = 0 then r1\<lparr>probes_left := 0, next_event_ms := t + MDNS_PROBE_INTERVAL_MS, state := MDNS_ANNOUNCING,
       announces_left := MDNS_ANNOUNCE_COUNT\<rparr> else r1\<lparr>probes_left := k, next_event_ms := t + MDNS_PROBE_INTERVAL_MS\<rparr>)"
    have run: "timer_step net t r = Some r'"
      using probe assms(3) k run0
      by (auto simp: timer_step_def probe_step_def r'_def r1_def bump_defs)
    have id: "same_identity r r'" by (simp add: same_identity_def r'_def r1_def bump_defs)
    have f: "wire r' = wire r @ probe_datagrams net r" "state r' = (if k = 0 then MDNS_ANNOUNCING else MDNS_PROBING)"
      "probes_left r' = k" "k = 0 \<Longrightarrow> announces_left r' = MDNS_ANNOUNCE_COUNT"
      using probe by (simp_all add: r'_def r1_def bump_defs)
    have "wire r' @ concat (outstanding net r') = wire r @ concat (outstanding net r)" "length (outstanding net r') = length (outstanding net r) - 1"
      using probe k f by (cases "k = 0"; simp add: outstanding_def identity_messages(2,3) [OF id])+
    then show ?thesis using that [OF run id] r(3) probe by (auto simp: r'_def r1_def bump_defs)
  next
    case announce
    obtain k where k: "announces_left r = Suc k" using r(1) announce by (cases "announces_left r") (auto simp: mdns_inv_def)
    obtain r0 where sent: "send_announcement net r = Some r0" "sent (announce_datagrams net r) r r0" using send_announcement_sent [OF assms(1) r(2)] by blast
    define r1 where "r1 = r\<lparr>wire := wire r @ announce_datagrams net r, stats := stats r0, socket_warned := socket_warned r0\<rparr>"
    have run0: "send_announcement net r = Some r1" using sent by (simp add: sent_def r1_def)
    define r' where "r' = (if k = 0 then r1\<lparr>announces_left := 0, next_event_ms := t + MDNS_ANNOUNCE_INTERVAL_MS, state := MDNS_IDLE\<rparr>
      else r1\<lparr>announces_left := k, next_event_ms := t + MDNS_ANNOUNCE_INTERVAL_MS\<rparr>)"
    have run: "timer_step net t r = Some r'"
      using announce assms(3) k run0
      by (auto simp: timer_step_def announce_step_def r'_def r1_def bump_defs)
    have id: "same_identity r r'" by (simp add: same_identity_def r'_def r1_def bump_defs)
    have f: "wire r' = wire r @ announce_datagrams net r" "state r' = (if k = 0 then MDNS_IDLE else MDNS_ANNOUNCING)"
      "announces_left r' = k"
      using announce by (simp_all add: r'_def r1_def bump_defs)
    have "wire r' @ concat (outstanding net r') = wire r @ concat (outstanding net r)" "length (outstanding net r') = length (outstanding net r) - 1"
      using announce k f by (cases "k = 0"; simp add: outstanding_def identity_messages(2,3) [OF id])+
    then show ?thesis using that [OF run id] r(3) announce by (auto simp: r'_def r1_def bump_defs)
  next
    case idle
    then show ?thesis using that [of r] r(3) by (simp add: timer_step_def same_identity_def outstanding_def)
  qed
qed

text \<open>Times that are far enough apart for every call to be due, and do not overflow.\<close>

fun spaced :: "u64 \<Rightarrow> u64 list \<Rightarrow> bool" where
  "spaced due [] = True"
| "spaced due (t # ts) \<longleftrightarrow> due \<le> t \<and> t \<le> 2 ^ 63 \<and> spaced (t + MDNS_ANNOUNCE_INTERVAL_MS) ts"

lemma spaced_earlier: "spaced due ts \<Longrightarrow> e \<le> due \<Longrightarrow> spaced e ts"
  by (cases ts) auto

lemma interval_le:
  assumes "t \<le> 2 ^ 63"
  shows "t + MDNS_PROBE_INTERVAL_MS \<le> t + MDNS_ANNOUNCE_INTERVAL_MS" "t \<le> t + MDNS_ANNOUNCE_INTERVAL_MS"
proof -
  have t: "unat t \<le> 2 ^ 63" using assms by (simp add: word_le_nat_alt)
  then have "unat (t + 250) = unat t + 250" "unat (t + 1000) = unat t + 1000"
    by (simp_all add: unat_word_ariths)
  then show "t + MDNS_PROBE_INTERVAL_MS \<le> t + MDNS_ANNOUNCE_INTERVAL_MS" "t \<le> t + MDNS_ANNOUNCE_INTERVAL_MS"
    by (simp_all add: MDNS_PROBE_INTERVAL_MS_def MDNS_ANNOUNCE_INTERVAL_MS_def word_le_nat_alt)
qed

lemma service_progress:
  assumes "net_ok net" "ready ifs r" "next_event_ms r \<le> t" "t \<le> 2 ^ 63"
  obtains r' where "mdns_service net ifs t (Some r) = Some (Some r')" "ready ifs r'" "same_identity r r'"
    "wire r' @ concat (outstanding net r') = wire r @ concat (outstanding net r)" "length (outstanding net r') = length (outstanding net r) - 1"
    "next_event_ms r' \<le> t + MDNS_ANNOUNCE_INTERVAL_MS"
proof -
  obtain s where s: "rescan ifs t r = Some (r\<lparr>next_scan_ms := s\<rparr>)"
    using rescan_steady assms(2) unfolding ready_def by blast
  define q where "q = r\<lparr>next_scan_ms := s\<rparr>"
  have q: "ready ifs q" "same_identity r q" "wire q = wire r" "next_event_ms q = next_event_ms r" "pending_ms q = 0"
    using assms(2) by (simp_all add: q_def ready_def same_identity_def responder_ok_def steady_def split: option.splits)
  have oq: "outstanding net q = outstanding net r"
    using identity_messages(2,3) [OF q(2)] by (simp add: outstanding_def q_def split: MdnsState.split)
  obtain r' where r': "timer_step net t q = Some r'" "same_identity q r'" "pending_ms r' = 0" "state r' \<noteq> MDNS_OFF"
    "wire r' @ concat (outstanding net r') = wire q @ concat (outstanding net q)" "length (outstanding net r') = length (outstanding net q) - 1"
    "next_event_ms r' \<in> {next_event_ms q, t + MDNS_PROBE_INTERVAL_MS, t + MDNS_ANNOUNCE_INTERVAL_MS}"
    by (rule timer_step_progress [OF assms(1) q(1), of t]) (use assms(3) q(4) in auto)
  have run: "mdns_service net ifs t (Some r) = Some (Some r')"
    using s r'(1) q(5) by (simp add: mdns_service_def maybe_answer_multicast_def q_def)
  have id: "same_identity r r'" using q(2) r'(2) by (simp add: same_identity_def)
  have "ready ifs r'"
    using inv_service [OF assms(1) _ run] assms(2) identity_messages(4,5) [OF id] id r'(3,4)
    by (auto simp: ready_def same_identity_def)
  moreover have "next_event_ms r' \<le> t + MDNS_ANNOUNCE_INTERVAL_MS"
    using r'(7) q(4) interval_le [OF assms(4)] assms(3) by auto
  ultimately show thesis using that [OF run _ id] r'(5,6) q(3) oq by auto
qed

lemma run_services_progress:
  assumes "net_ok net"
  shows "ready ifs r \<Longrightarrow> spaced (next_event_ms r) ts \<Longrightarrow>
    \<exists>r'. run_services net ifs ts r = Some r' \<and> ready ifs r' \<and> same_identity r r' \<and>
      wire r' @ concat (outstanding net r') = wire r @ concat (outstanding net r) \<and> length (outstanding net r') = length (outstanding net r) - length ts"
proof (induction ts arbitrary: r)
  case Nil
  then show ?case by (simp add: same_identity_def)
next
  case (Cons t ts)
  then obtain r1 where r1: "mdns_service net ifs t (Some r) = Some (Some r1)" "ready ifs r1" "same_identity r r1"
    "wire r1 @ concat (outstanding net r1) = wire r @ concat (outstanding net r)" "length (outstanding net r1) = length (outstanding net r) - 1"
    "next_event_ms r1 \<le> t + MDNS_ANNOUNCE_INTERVAL_MS"
    using service_progress [OF assms, of ifs r t] by auto
  have "spaced (next_event_ms r1) ts" using Cons.prems(2) r1(6) spaced_earlier by auto
  from Cons.IH [OF r1(2) this] r1 show ?case by (auto simp: same_identity_def)
qed

text \<open>
  C31: the responder gets its name: from any reachable state that is not off, with a label of at most
  63 characters, the interfaces steady, no reply pending and the socket calls answering alike, any
  sequence of at least five timer calls a second apart brings it to rest. On the way it has sent
  exactly what was outstanding, the remaining probes for the name and then two announcements of all
  its records, in that order and nothing else: each of them once on every interface on which the
  socket calls succeed, or once through the send hook when that is set.
\<close>

theorem mdns_probing_completes:
  assumes "net_ok net" "mdns_reachable r" "length (label r) \<le> 63" "length (model (config r)) < 64"
    "steady ifs r" "pending_ms r = 0" "state r \<noteq> MDNS_OFF" "spaced (next_event_ms r) ts" "5 \<le> length ts"
  shows "\<exists>r'. run_services net ifs ts r = Some r' \<and> state r' = MDNS_IDLE \<and> label r' = label r \<and>
    wire r' = wire r @ concat (outstanding net r)"
proof -
  note inv = mdns_reachable_inv [OF assms(2)]
  have "ready ifs r" using inv inv_responder_ok [OF inv assms(3,4)] assms(5-7) by (simp add: ready_def)
  then obtain r' where r': "run_services net ifs ts r = Some r'" "ready ifs r'" "same_identity r r'"
    "wire r' @ concat (outstanding net r') = wire r @ concat (outstanding net r)" "length (outstanding net r') = length (outstanding net r) - length ts"
    using run_services_progress [OF assms(1) _ assms(8)] by blast
  have "length (outstanding net r) \<le> 5" using inv by (auto simp: outstanding_def mdns_inv_def count_consts split: MdnsState.split)
  then have e: "outstanding net r' = []" using r'(5) assms(9) by simp
  then have "state r' = MDNS_IDLE"
    using r'(2) by (auto simp: outstanding_def ready_def mdns_inv_def count_consts split: MdnsState.splits)
  then show ?thesis using r' e by (simp add: same_identity_def)
qed

text \<open>A responder with a socket: the datagrams go out on its interface.\<close>

definition demo_socket :: MdnsResponder where
  "demo_socket = demo\<lparr>config := demo_config\<lparr>host := ''cam'', port := 5353, has_send := False\<rparr>, fd := 4,
     memberships := [(''192.168.1.9'', True)]\<rparr>"

lemma demo_socket_created:
  "mdns_responder_create True 4 True 7 1000 (Some demo_ifs) (Some (demo_config\<lparr>port := 5353, has_send := False\<rparr>)) = Some (Some demo_socket)"
proof -
  have s: "sanitize_label \<lparr>host = ''Cam'', model = ''pi5'', port = 5353, srv_port = 8080, has_send = False\<rparr> =
      \<lparr>host = ''cam'', model = ''pi5'', port = 5353, srv_port = 8080, has_send = False\<rparr>" by code_simp
  have "inet_pton ''192.168.1.9'' \<noteq> None" by code_simp
  then obtain ip where a: "inet_pton ''192.168.1.9'' = Some ip" by blast
  show ?thesis
    by (simp add: mdns_responder_create_def fresh_responder_def scan_addresses_def demo_ifs_def Let_def size_consts a demo_config_def s
        set_membership_def demo_socket_def demo_def zero_stats_def fit_def MDNS_PROBE_COUNT_def MDNS_PROBE_INTERVAL_MS_def)
qed

theorem mdns_probing_completes_witness:
  "\<exists>r' p a. run_services demo_net (Some demo_ifs) [1250, 2250, 3250, 4250, 5250] demo_socket = Some r' \<and> state r' = MDNS_IDLE \<and>
    wire r' = replicate 3 (ToGroup ''192.168.1.9'' p) @ replicate 2 (ToGroup ''192.168.1.9'' a)"
proof -
  let ?d = demo_socket
  have l: "length (label ?d) \<le> 63" "length (model (config ?d)) < 64" "steady (Some demo_ifs) ?d" "pending_ms ?d = 0" "state ?d \<noteq> MDNS_OFF"
    by (simp_all add: demo_socket_def demo_def demo_config_def steady_def demo_ifs_def size_consts)
  have "next_event_ms ?d = 1250" by (simp add: demo_socket_def demo_def)
  then have s: "spaced (next_event_ms ?d) [1250, 2250, 3250, 4250, 5250]" by (simp add: MDNS_ANNOUNCE_INTERVAL_MS_def)
  have a: "inet_pton ''192.168.1.9'' \<noteq> None" by code_simp
  have g: "group_datagrams demo_net ?d x = [ToGroup ''192.168.1.9'' x]" for x
    using a by (simp add: group_datagrams_def demo_socket_def demo_config_def demo_def demo_net_def)
  have o: "outstanding demo_net ?d = replicate 3 (probe_datagrams demo_net ?d) @ replicate 2 (announce_datagrams demo_net ?d)" "wire ?d = []"
    by (simp_all add: outstanding_def demo_socket_def demo_def count_consts)
  from mdns_probing_completes [OF demo_net_ok mdns_reachable.create [OF demo_socket_created] l s]
  show ?thesis by (simp add: o) (auto simp: probe_datagrams_def announce_datagrams_def g numeral_eq_Suc)
qed

section \<open>Where the code departs from its comments\<close>

lemma wanted_few: "responder_ok r \<Longrightarrow> length (wanted r m tu ts) \<le> 12"
  using sound_host_records(2) [of r tu] by (simp add: wanted_def)

text \<open>
  A probe is not seen by other responders: it is sent without a question, and the packet
  handler drops every query without questions before it looks at the authority section, so a
  responder that owns or wants the same name is left exactly as it was.
\<close>

theorem mdns_probe_ignored:
  assumes "net_ok net" "responder_ok prober" "build_probe prober (packet_stack net) MDNS_PACKET_MAX (rdata_stack net) = Some (Some (b, n))"
  shows "mdns_handle_packet net' (take n b) ip p t (Some r) = Some (Some r)"
proof -
  define Rs where "Rs = wanted prober (GROUP_A OR GROUP_SRV_TXT) MDNS_TTL_UNIQUE MDNS_TTL_SHARED"
  have n: "length (packet_stack net) = MDNS_PACKET_MAX" "length (rdata_stack net) = MDNS_RDATA_MAX"
    using assms(1) by (simp_all add: net_ok_def)
  have b: "take n b = probe_message Rs" and f: "fits_packet Rs"
    using build_probe_spec [OF n, of prober] fits_wanted [OF assms(2)] assms(3) unfolding Rs_def by auto
  have len: "length (probe_message Rs) \<ge> 12" "length (probe_message Rs) \<le> MDNS_PACKET_MAX"
    using f by (simp_all add: probe_message_def header_def fits_packet_def)
  have at: "read_be16 (probe_message Rs) 0 = Some 0" "read_be16 (probe_message Rs) 2 = Some 0" "read_be16 (probe_message Rs) 4 = Some 0"
    "read_be16 (probe_message Rs) 6 = Some 0" "read_be16 (probe_message Rs) 8 = Some (of_nat (length Rs))"
    "read_be16 (probe_message Rs) 10 = Some 0"
    by (rule read_be16_at_bytes, simp add: probe_message_def header_def)+
  have small: "length Rs \<le> 12" unfolding Rs_def by (rule wanted_few [OF assms(2)])
  then have "unat (of_nat (length Rs) :: u16) = length Rs" by (simp add: unsigned_of_nat take_bit_nat_eq_self)
  then have few: "\<not> (of_nat (length Rs) :: u16) > MDNS_RECORDS_MAX"
    using small by (simp add: word_less_nat_alt MDNS_RECORDS_MAX_def)
  show ?thesis
    using len few unfolding mdns_handle_packet_def handle_message_def b
    by (simp add: at del: read_be16_in)
qed

text \<open>Membership changes of the scan, one by one.\<close>

definition membership_changes :: "MdnsResponder \<Rightarrow> bool \<Rightarrow> string list \<Rightarrow> (string \<times> bool) list" where
  "membership_changes r j as = (if fd r < 0 then [] else map (\<lambda>a. (a, j)) (filter (\<lambda>a. inet_pton a \<noteq> None) as))"

lemma set_membership_log: "set_membership a j r = r\<lparr>memberships := memberships r @ membership_changes r j [a]\<rparr>"
  by (simp add: set_membership_def membership_changes_def)

lemma join_loop_log:
  "join_loop olds fs r = r\<lparr>memberships := memberships r @ membership_changes r True (filter (\<lambda>f. f \<notin> set olds) fs)\<rparr>"
  by (induction fs arbitrary: r) (auto simp: set_membership_log membership_changes_def)

lemma leave_loop_none: "leave_loop [] i olds r = Some (r\<lparr>memberships := memberships r @ membership_changes r False olds\<rparr>)"
  by (induction olds arbitrary: i r) (auto simp: set_membership_log membership_changes_def)

lemma leave_loop_in: "found \<noteq> [] \<Longrightarrow> i + length olds \<le> length found \<Longrightarrow> leave_loop found i olds r = Some r"
  by (induction olds arbitrary: i r) (auto simp: rd_def)

lemma leave_loop_out: "found \<noteq> [] \<Longrightarrow> length found < i + length olds \<Longrightarrow> i \<le> length found \<Longrightarrow> leave_loop found i olds r = None"
proof (induction olds arbitrary: i r)
  case (Cons old olds)
  then show ?case by (cases "i = length found") (auto simp: rd_def)
qed simp

text \<open>
  What the interface scan does to the group memberships when the addresses changed. It joins
  every new address, but it leaves an old one only when no interface is left at all: with as many
  addresses as before or more, no membership is dropped even for an address that is gone, and when
  some but fewer addresses are left the loop compares an array element that was never written.
\<close>

theorem scan_addresses_memberships:
  assumes "find_addresses is [] = found" "length found \<noteq> length (addresses r) \<or> \<not> set found \<subseteq> set (addresses r)"
  shows "map_option (\<lambda>(changed, r'). (changed, addresses r', memberships r')) (scan_addresses (Some is) r) =
    (if found = [] then Some (True, [], memberships r @ membership_changes r False (addresses r))
     else if length (addresses r) \<le> length found
     then Some (True, found, memberships r @ membership_changes r True (filter (\<lambda>f. f \<notin> set (addresses r)) found))
     else None)"
proof -
  have c: "length found \<noteq> length (addresses r) \<or> \<not> list_all (\<lambda>f. f \<in> set (addresses r)) found"
    using assms(2) by (auto simp: list_all_iff)
  show ?thesis
    using c leave_loop_none [of 0 "addresses r" r] leave_loop_in [of found 0 "addresses r" r] leave_loop_out [of found 0 "addresses r" r]
    by (auto simp: scan_addresses_def assms(1) join_loop_log Let_def membership_changes_def)
qed

theorem mdns_probe_ignored_witness:
  "\<exists>b n. build_probe demo (packet_stack demo_net) MDNS_PACKET_MAX (rdata_stack demo_net) = Some (Some (b, n)) \<and>
    mdns_handle_packet demo_net (take n b) [10, 0, 0, 1] 5353 2000 (Some demo) = Some (Some demo)"
proof -
  have ok: "responder_ok demo" by (rule inv_responder_ok [OF mdns_reachable_inv [OF demo_reachable]]) (simp_all add: demo_def demo_config_def)
  have n: "length (packet_stack demo_net) = MDNS_PACKET_MAX" "length (rdata_stack demo_net) = MDNS_RDATA_MAX"
    by (simp_all add: demo_net_def)
  obtain b n where b: "build_probe demo (packet_stack demo_net) MDNS_PACKET_MAX (rdata_stack demo_net) = Some (Some (b, n))"
    using build_probe_spec [OF n, of demo] fits_wanted [OF ok] by auto
  then show ?thesis using mdns_probe_ignored [OF demo_net_ok ok b] by blast
qed

theorem scan_addresses_memberships_witness:
  "map_option (\<lambda>(changed, r'). (changed, addresses r', memberships r'))
     (scan_addresses (Some demo_ifs) (demo\<lparr>fd := 5, addresses := [''10.0.0.7'']\<rparr>)) =
   Some (True, [''192.168.1.9''], [(''192.168.1.9'', True)])"
proof -
  have "inet_pton ''192.168.1.9'' \<noteq> None" by code_simp
  moreover have "find_addresses demo_ifs [] = [''192.168.1.9'']" by (simp add: demo_ifs_def size_consts)
  ultimately show ?thesis
    using scan_addresses_memberships [of demo_ifs "[''192.168.1.9'']" "demo\<lparr>fd := 5, addresses := [''10.0.0.7'']\<rparr>"]
    by (simp add: membership_changes_def demo_def)
qed

end
