(* ===== verification/H264_Bitstream.thy ===== *)
theory H264_Bitstream
  imports Cam_Prelude
begin

text \<open>
  Annex-B inspection (\<open>src/src/media/h264_bitstream.c\<close>): the NAL unit iterator,
  the access unit summary, and the SPS/PPS cache that completes an IDR before it is
  sent. The reference \<open>annexb_nals\<close> splits a buffer structurally; the index loops
  of the code are proved equal to it, hence memory safe and terminating.
\<close>

section \<open>Definitions\<close>

definition H264_NAL_SLICE :: nat where "H264_NAL_SLICE = 1"
definition H264_NAL_IDR :: nat where "H264_NAL_IDR = 5"
definition H264_NAL_SPS :: nat where "H264_NAL_SPS = 7"
definition H264_NAL_PPS :: nat where "H264_NAL_PPS = 8"
definition H264_PARAM_MAX :: nat where "H264_PARAM_MAX = 256"

lemmas nal_type_defs = H264_NAL_SLICE_def H264_NAL_IDR_def H264_NAL_SPS_def H264_NAL_PPS_def

record H264AuInfo =
  nal_count :: nat
  has_sps :: bool
  has_pps :: bool
  has_idr :: bool
  has_slice :: bool
  slice_count :: nat

record H264ParamCache =
  sps :: bytes
  sps_length :: nat
  pps :: bytes
  pps_length :: nat

text \<open>The start code search of \<open>next_nal\<close>: the first \<open>i\<close> with bytes 0, 0, 1.\<close>

function scan3 :: "bytes \<Rightarrow> nat \<Rightarrow> nat option option" where
  "scan3 data i =
     (if i + 3 \<le> length data then do {
        a \<leftarrow> rd data i;
        b \<leftarrow> rd data (i + 1);
        c \<leftarrow> rd data (i + 2);
        if a = 0 \<and> b = 0 \<and> c = 1 then Some (Some i) else scan3 data (i + 1) }
      else Some None)"
  by pat_completeness auto
termination
  by (relation "measure (\<lambda>(data, i). length data - i)") auto

text \<open>The padding loop: drop zero bytes before \<open>e\<close>, not before \<open>body\<close>.\<close>

function trim_zeros :: "bytes \<Rightarrow> nat \<Rightarrow> nat \<Rightarrow> nat option" where
  "trim_zeros data body e =
     (if body < e then do {
        x \<leftarrow> rd data (e - 1);
        if x = 0 then trim_zeros data body (e - 1) else Some e }
      else Some e)"
  by pat_completeness auto
termination
  by (relation "measure (\<lambda>(data, body, e). e)") auto

declare scan3.simps [simp del] trim_zeros.simps [simp del]

text \<open>
  \<open>next_nal data cursor\<close>: \<open>None\<close> for the C result 0, else the body offset, the
  NAL length and the new cursor.
\<close>

definition next_nal :: "bytes \<Rightarrow> nat \<Rightarrow> (nat \<times> nat \<times> nat) option option" where
  "next_nal data cursor = do {
     found \<leftarrow> scan3 data cursor;
     case found of
       None \<Rightarrow> Some None
     | Some i \<Rightarrow> do {
         let body = i + 3;
         next \<leftarrow> scan3 data body;
         let e = (case next of None \<Rightarrow> length data | Some j \<Rightarrow> j);
         e' \<leftarrow> trim_zeros data body e;
         Some (Some (body, e' - body, e')) } }"

definition note_nal :: "nat \<Rightarrow> H264AuInfo \<Rightarrow> H264AuInfo" where
  "note_nal type info =
     (let info = info\<lparr>nal_count := nal_count info + 1\<rparr> in
      if type = H264_NAL_SPS then info\<lparr>has_sps := True\<rparr>
      else if type = H264_NAL_PPS then info\<lparr>has_pps := True\<rparr>
      else if H264_NAL_SLICE \<le> type \<and> type \<le> H264_NAL_IDR then
        (let info = info\<lparr>has_slice := True, slice_count := slice_count info + 1\<rparr> in
         if type = H264_NAL_IDR then info\<lparr>has_idr := True\<rparr> else info)
      else info)"

definition nal_type :: "u8 \<Rightarrow> nat" where
  "nal_type b = unat (b AND 0x1F)"

subsection \<open>The structural reference\<close>

fun find_sc :: "bytes \<Rightarrow> nat option" where
  "find_sc (a # b # c # r) =
     (if a = 0 \<and> b = 0 \<and> c = 1 then Some 0 else map_option Suc (find_sc (b # c # r)))"
| "find_sc _ = None"

definition rstrip0 :: "bytes \<Rightarrow> bytes" where
  "rstrip0 xs = rev (dropWhile (\<lambda>x. x = 0) (rev xs))"

lemma find_sc_bound: "find_sc d = Some k \<Longrightarrow> k + 3 \<le> length d"
  by (induction d arbitrary: k rule: find_sc.induct) (fastforce split: if_splits)+

function annexb_nals :: "bytes \<Rightarrow> bytes list" where
  "annexb_nals d =
     (case find_sc d of
        None \<Rightarrow> []
      | Some k \<Rightarrow>
          (let r = drop (k + 3) d in
           case find_sc r of
             None \<Rightarrow> [rstrip0 r]
           | Some j \<Rightarrow> rstrip0 (take j r) # annexb_nals (drop j r)))"
  by pat_completeness auto
termination
  by (relation "measure length") (auto dest: find_sc_bound)

declare annexb_nals.simps [simp del]

subsection \<open>The index loops against the reference\<close>

lemma drop_3: "i + 3 \<le> length d \<Longrightarrow> drop i d = d ! i # d ! (i + 1) # d ! (i + 2) # drop (i + 3) d"
  by (simp add: Cons_nth_drop_Suc numeral_3_eq_3 flip: Suc_eq_plus1)

lemma find_sc_short [simp]: "length d < 3 \<Longrightarrow> find_sc d = None"
  by (induction d rule: find_sc.induct) auto

lemma scan3_find_sc: "scan3 data i = Some (map_option (\<lambda>k. i + k) (find_sc (drop i data)))"
proof (induction data i rule: scan3.induct)
  case (1 data i)
  show ?case
  proof (cases "i + 3 \<le> length data")
    case True
    then have "drop (i + 1) data = data ! (i + 1) # data ! (i + 2) # drop (i + 3) data"
      using drop_3 [OF True] by (metis drop_Suc_Cons drop_drop add.commute plus_1_eq_Suc drop0)
    with True 1 show ?thesis
      by (subst scan3.simps) (auto simp: drop_3 option.map_comp o_def)
  next
    case False
    then show ?thesis by (subst scan3.simps) auto
  qed
qed

lemma rstrip0_snoc [simp]:
  "rstrip0 (xs @ [x]) = (if x = 0 then rstrip0 xs else xs @ [x])"
  by (simp add: rstrip0_def)

lemma rstrip0_Nil [simp]: "rstrip0 [] = []"
  by (simp add: rstrip0_def)

lemma length_rstrip0: "length (rstrip0 xs) \<le> length xs"
  by (induction xs rule: rev_induct) auto

lemma rstrip0_zeros: "xs = rstrip0 xs @ replicate (length xs - length (rstrip0 xs)) 0"
proof (induction xs rule: rev_induct)
  case (snoc x xs)
  show ?case
  proof (cases "x = 0")
    case True
    have "length (rstrip0 xs) \<le> length xs" by (rule length_rstrip0)
    then have "Suc (length xs) - length (rstrip0 xs) = Suc (length xs - length (rstrip0 xs))"
      by simp
    then show ?thesis
      using snoc True by (simp add: replicate_append_same [symmetric])
  qed simp
qed simp

lemma rstrip0_last: "rstrip0 xs \<noteq> [] \<Longrightarrow> last (rstrip0 xs) \<noteq> 0"
  by (induction xs rule: rev_induct) auto

lemma rstrip0_id: "xs = [] \<or> last xs \<noteq> 0 \<Longrightarrow> rstrip0 xs = xs"
  by (cases xs rule: rev_cases) auto

lemma trim_zeros_rstrip0:
  assumes "body \<le> e" "e \<le> length data"
  shows "trim_zeros data body e = Some (body + length (rstrip0 (take (e - body) (drop body data))))"
  using assms
proof (induction data body e rule: trim_zeros.induct)
  case (1 data body e)
  show ?case
  proof (cases "body < e")
    case True
    then have "e - body = Suc (e - 1 - body)" by simp
    then have split: "take (e - body) (drop body data)
        = take (e - 1 - body) (drop body data) @ [data ! (e - 1)]"
      using 1(2,3) True by (simp add: take_Suc_conv_app_nth)
    show ?thesis
      using 1 True by (subst trim_zeros.simps) (auto simp: split)
  next
    case False
    with 1 show ?thesis by (subst trim_zeros.simps) auto
  qed
qed

text \<open>The bytes between a start code and the next one (or the end).\<close>

definition segment :: "bytes \<Rightarrow> bytes" where
  "segment r = (case find_sc r of None \<Rightarrow> r | Some j \<Rightarrow> take j r)"

lemma length_segment: "length (segment r) \<le> length r"
  by (simp add: segment_def split: option.split)

lemma next_nal_spec:
  "next_nal data cursor = Some
     (case find_sc (drop cursor data) of
        None \<Rightarrow> None
      | Some k \<Rightarrow>
          (let body = cursor + k + 3; n = rstrip0 (segment (drop body data))
           in Some (body, length n, body + length n)))"
proof (cases "find_sc (drop cursor data)")
  case None
  then show ?thesis by (simp add: next_nal_def scan3_find_sc)
next
  case (Some k)
  let ?body = "cursor + k + 3"
  have body: "?body \<le> length data"
    using find_sc_bound [OF Some] by (cases "cursor \<le> length data") auto
  show ?thesis
  proof (cases "find_sc (drop ?body data)")
    case None
    with Some body show ?thesis
      by (simp add: next_nal_def scan3_find_sc trim_zeros_rstrip0 segment_def Let_def)
  next
    case j: (Some j)
    then have "?body + j \<le> length data"
      using find_sc_bound [OF j] body by simp
    with Some j show ?thesis
      by (simp add: next_nal_def scan3_find_sc trim_zeros_rstrip0 segment_def Let_def)
  qed
qed

lemma next_nal_progress:
  assumes "next_nal data cursor = Some (Some (body, n, cursor'))"
  shows "cursor < cursor' \<and> cursor' \<le> length data \<and> body + n = cursor' \<and> cursor + 3 \<le> body"
proof -
  from assms obtain k where k: "find_sc (drop cursor data) = Some k"
    and body: "body = cursor + k + 3"
    and n: "n = length (rstrip0 (segment (drop body data)))" and c: "cursor' = body + n"
    by (auto simp: next_nal_spec Let_def split: option.splits)
  have "body \<le> length data"
    using find_sc_bound [OF k] body by (cases "cursor \<le> length data") auto
  moreover have "n \<le> length (drop body data)"
    unfolding n using length_rstrip0 length_segment order_trans by blast
  ultimately show ?thesis using body c by auto
qed

section \<open>Access unit summary\<close>

definition empty_info :: H264AuInfo where
  "empty_info = \<lparr>nal_count = 0, has_sps = False, has_pps = False, has_idr = False,
     has_slice = False, slice_count = 0\<rparr>"

function au_scan_loop :: "bytes \<Rightarrow> nat \<Rightarrow> H264AuInfo \<Rightarrow> H264AuInfo option" where
  "au_scan_loop data cursor info = do {
     r \<leftarrow> next_nal data cursor;
     case r of
       None \<Rightarrow> Some info
     | Some (nal, nal_length, cursor') \<Rightarrow>
         if nal_length = 0 then au_scan_loop data cursor' info
         else do {
           b \<leftarrow> rd data nal;
           au_scan_loop data cursor' (note_nal (nal_type b) info) } }"
  by pat_completeness auto
termination
  by (relation "measure (\<lambda>(data, cursor, info). length data - cursor)")
    (auto dest!: next_nal_progress)

definition h264_au_scan :: "bytes option \<Rightarrow> H264AuInfo option" where
  "h264_au_scan data =
     (case data of None \<Rightarrow> Some empty_info | Some d \<Rightarrow> au_scan_loop d 0 empty_info)"

section \<open>Parameter set cache\<close>

definition store :: "bytes \<Rightarrow> nat \<Rightarrow> bytes \<Rightarrow> (bytes \<times> nat) option" where
  "store slot slot_length nal =
     (if length nal + 4 > H264_PARAM_MAX then Some (slot, slot_length)
      else do {
        slot \<leftarrow> wr slot 0 0;
        slot \<leftarrow> wr slot 1 0;
        slot \<leftarrow> wr slot 2 0;
        slot \<leftarrow> wr slot 3 1;
        slot \<leftarrow> memcpy_to slot 4 nal;
        Some (slot, length nal + 4) })"

definition cache_nal :: "bytes \<Rightarrow> H264ParamCache \<Rightarrow> H264ParamCache option" where
  "cache_nal nal cache = do {
     b \<leftarrow> rd nal 0;
     let type = nal_type b;
     if type = H264_NAL_SPS then do {
       (s, n) \<leftarrow> store (sps cache) (sps_length cache) nal;
       Some (cache\<lparr>sps := s, sps_length := n\<rparr>) }
     else if type = H264_NAL_PPS then do {
       (s, n) \<leftarrow> store (pps cache) (pps_length cache) nal;
       Some (cache\<lparr>pps := s, pps_length := n\<rparr>) }
     else Some cache }"

function cache_update_loop :: "bytes \<Rightarrow> nat \<Rightarrow> H264ParamCache \<Rightarrow> H264ParamCache option" where
  "cache_update_loop data cursor cache = do {
     r \<leftarrow> next_nal data cursor;
     case r of
       None \<Rightarrow> Some cache
     | Some (nal, nal_length, cursor') \<Rightarrow>
         if nal_length = 0 then cache_update_loop data cursor' cache
         else do {
           n \<leftarrow> rd_range data nal nal_length;
           cache' \<leftarrow> cache_nal n cache;
           cache_update_loop data cursor' cache' } }"
  by pat_completeness auto
termination
  by (relation "measure (\<lambda>(data, cursor, cache). length data - cursor)")
    (auto dest!: next_nal_progress)

declare au_scan_loop.simps [simp del] cache_update_loop.simps [simp del]

definition h264_param_cache_update ::
  "H264ParamCache option \<Rightarrow> bytes option \<Rightarrow> H264ParamCache option option" where
  "h264_param_cache_update cache data =
     (case (cache, data) of
        (Some c, Some d) \<Rightarrow> map_option Some (cache_update_loop d 0 c)
      | _ \<Rightarrow> Some cache)"

text \<open>
  The result is the returned length and the output buffer; \<open>out\<close> has
  \<open>length out = out_capacity\<close>.
\<close>

definition h264_prepend_params ::
  "H264ParamCache option \<Rightarrow> bytes \<Rightarrow> bytes \<Rightarrow> (nat \<times> bytes) option" where
  "h264_prepend_params cache data out =
     (case cache of
        None \<Rightarrow> Some (0, out)
      | Some c \<Rightarrow>
          if sps_length c = 0 \<or> pps_length c = 0 then Some (0, out)
          else
            (let total = sps_length c + pps_length c + length data in
             if total > length out then Some (0, out)
             else do {
               s \<leftarrow> rd_range (sps c) 0 (sps_length c);
               p \<leftarrow> rd_range (pps c) 0 (pps_length c);
               out \<leftarrow> memcpy_to out 0 s;
               out \<leftarrow> memcpy_to out (sps_length c) p;
               out \<leftarrow> memcpy_to out (sps_length c + pps_length c) data;
               Some (total, out) }))"

section \<open>The loops visit exactly the NAL units of the reference\<close>

lemma segment_prefix: "r = segment r @ drop (length (segment r)) r"
  by (auto simp: segment_def min_def dest: find_sc_bound split: option.split)

lemma find_sc_drop: "find_sc d = Some k \<Longrightarrow> find_sc (drop k d) = Some 0"
  by (induction d arbitrary: k rule: find_sc.induct) (auto split: if_splits)

lemma find_sc_zero_shape: "find_sc d = Some 0 \<Longrightarrow> \<exists>r. d = 0 # 0 # 1 # r"
  by (cases d rule: find_sc.cases) (auto split: if_splits)

lemma find_sc_zeros: "find_sc xs = Some 0 \<Longrightarrow> find_sc (replicate z 0 @ xs) = Some z"
proof (induction z)
  case (Suc z)
  then obtain r where xs: "xs = 0 # 0 # 1 # r" using find_sc_zero_shape by blast
  have "\<exists>b c t. replicate z 0 @ xs = b # c # t \<and> b = 0 \<and> c = (0 :: u8)"
  proof (cases z)
    case (Suc y)
    then show ?thesis by (cases y) (auto simp: xs)
  qed (simp add: xs)
  then obtain t where t: "replicate z 0 @ xs = 0 # 0 # t" by blast
  then show ?case using Suc by simp
qed simp

lemma find_sc_only_zeros: "find_sc (replicate z 0) = None"
proof (induction z)
  case (Suc z)
  then show ?case
  proof (cases z)
    case (Suc y)
    with Suc.IH show ?thesis by (cases y) auto
  qed simp
qed simp

lemma annexb_nals_segment:
  assumes "find_sc d = Some k"
  shows "annexb_nals d = rstrip0 (segment (drop (k + 3) d))
           # annexb_nals (drop (length (segment (drop (k + 3) d))) (drop (k + 3) d))"
proof (cases "find_sc (drop (k + 3) d)")
  case None
  moreover have "annexb_nals [] = []" by (subst annexb_nals.simps) simp
  ultimately show ?thesis using assms
    by (subst annexb_nals.simps) (simp add: segment_def)
next
  case (Some j)
  moreover have "min (length d - (k + 3)) j = j"
    using find_sc_bound [OF Some] by simp
  ultimately show ?thesis using assms
    by (subst annexb_nals.simps) (simp add: segment_def Let_def)
qed

text \<open>Resuming behind the trimmed NAL unit finds the same following units.\<close>

lemma annexb_nals_resume:
  "annexb_nals (drop (length (rstrip0 (segment r))) r) = annexb_nals (drop (length (segment r)) r)"
proof -
  let ?s = "segment r" and ?t = "rstrip0 (segment r)"
  let ?z = "length ?s - length ?t" and ?rest = "drop (length (segment r)) r"
  have "r = ?t @ replicate ?z 0 @ ?rest"
    using segment_prefix [of r] rstrip0_zeros [of ?s] by (metis append_assoc)
  then have eq: "drop (length ?t) r = replicate ?z 0 @ ?rest"
    by (metis append_eq_conv_conj)
  show ?thesis
  proof (cases "find_sc r")
    case None
    then have "?rest = []" by (simp add: segment_def)
    then have "find_sc (drop (length ?t) r) = None" "find_sc ?rest = None"
      using eq find_sc_only_zeros by auto
    then show ?thesis by (subst (1 2) annexb_nals.simps) simp
  next
    case (Some j)
    then have "length ?s = j" using find_sc_bound [OF Some] by (simp add: segment_def)
    then have rest: "find_sc ?rest = Some 0" using find_sc_drop [OF Some] by simp
    then have "find_sc (drop (length ?t) r) = Some ?z"
      using eq find_sc_zeros by simp
    then show ?thesis
      using rest eq by (subst (1 2) annexb_nals.simps) simp
  qed
qed

lemma rstrip0_segment_take: "take (length (rstrip0 (segment r))) r = rstrip0 (segment r)"
  using segment_prefix [of r] rstrip0_zeros [of "segment r"]
  by (metis append.assoc append_eq_conv_conj)

lemma next_nal_cases:
  obtains (finished) "next_nal d c = Some None" "annexb_nals (drop c d) = []"
  | (nal) body n c' where "next_nal d c = Some (Some (body, n, c'))"
      "annexb_nals (drop c d) = take n (drop body d) # annexb_nals (drop c' d)"
      "body + n = c'" "c' \<le> length d"
proof (cases "find_sc (drop c d)")
  case None
  then have "annexb_nals (drop c d) = []" by (subst annexb_nals.simps) simp
  with None show ?thesis by (intro finished) (simp_all add: next_nal_spec)
next
  case (Some k)
  let ?r = "drop (c + k + 3) d"
  have eq: "drop (k + 3) (drop c d) = ?r" by (simp add: ac_simps)
  have "annexb_nals (drop c d)
      = rstrip0 (segment ?r) # annexb_nals (drop (length (rstrip0 (segment ?r))) ?r)"
    using annexb_nals_segment [OF Some] unfolding eq annexb_nals_resume .
  moreover have "next_nal d c = Some (Some (c + k + 3, length (rstrip0 (segment ?r)),
      c + k + 3 + length (rstrip0 (segment ?r))))"
    using Some by (simp add: next_nal_spec Let_def)
  ultimately show ?thesis
    using next_nal_progress
    by (intro nal) (auto simp: rstrip0_segment_take ac_simps)
qed

definition real_nals :: "bytes \<Rightarrow> bytes list" where
  "real_nals d = filter (\<lambda>n. n \<noteq> []) (annexb_nals d)"

lemma au_scan_loop_spec:
  "au_scan_loop d c info
     = Some (fold (\<lambda>n. note_nal (nal_type (hd n))) (real_nals (drop c d)) info)"
proof (induction d c info rule: au_scan_loop.induct)
  case (1 d c info)
  show ?case
  proof (rule next_nal_cases [of d c])
    assume "next_nal d c = Some None" "annexb_nals (drop c d) = []"
    then show ?thesis by (subst au_scan_loop.simps) (simp add: real_nals_def)
  next
    fix body n c'
    assume *: "next_nal d c = Some (Some (body, n, c'))"
      "annexb_nals (drop c d) = take n (drop body d) # annexb_nals (drop c' d)"
      "body + n = c'" "c' \<le> length d"
    show ?thesis
    proof (cases "n = 0")
      case True
      with * 1(1)[OF *(1) refl refl refl] show ?thesis
        by (subst au_scan_loop.simps) (simp add: real_nals_def)
    next
      case False
      then have "body < length d" "hd (take n (drop body d)) = d ! body"
        using * by (simp_all add: hd_drop_conv_nth)
      with False * 1(2)[OF *(1) refl refl refl False] show ?thesis
        by (subst au_scan_loop.simps) (simp add: real_nals_def)
    qed
  qed
qed

lemma cache_update_loop_spec:
  "cache_update_loop d c cache
     = fold (\<lambda>n r. Option.bind r (cache_nal n)) (real_nals (drop c d)) (Some cache)"
proof (induction d c cache rule: cache_update_loop.induct)
  case (1 d c cache)
  show ?case
  proof (rule next_nal_cases [of d c])
    assume "next_nal d c = Some None" "annexb_nals (drop c d) = []"
    then show ?thesis by (subst cache_update_loop.simps) (simp add: real_nals_def)
  next
    fix body n c'
    assume *: "next_nal d c = Some (Some (body, n, c'))"
      "annexb_nals (drop c d) = take n (drop body d) # annexb_nals (drop c' d)"
      "body + n = c'" "c' \<le> length d"
    show ?thesis
    proof (cases "n = 0")
      case True
      with * 1(1)[OF *(1) refl refl refl] show ?thesis
        by (subst cache_update_loop.simps) (simp add: real_nals_def)
    next
      case False
      have fold_None: "fold (\<lambda>n r. Option.bind r (cache_nal n)) ns None = None" for ns
        by (induction ns) auto
      from False * have "take n (drop body d) \<noteq> []" by auto
      with False * 1(2)[OF *(1) refl refl refl False] show ?thesis
        by (subst cache_update_loop.simps)
          (auto simp: real_nals_def fold_None split: Option.bind_splits)
    qed
  qed
qed

section \<open>Shape of the NAL units\<close>

definition nal_ok :: "bytes \<Rightarrow> bool" where
  "nal_ok n \<longleftrightarrow> n \<noteq> [] \<and> last n \<noteq> 0 \<and> find_sc n = None"

lemma find_sc_take: "find_sc (take m r) = Some i \<Longrightarrow> find_sc r = Some i"
proof (induction r arbitrary: m i rule: find_sc.induct)
  case (1 a b c r)
  show ?case
  proof (cases "m < 3")
    case True
    then have "length (take m (a # b # c # r)) < 3" by simp
    with 1(2) show ?thesis using find_sc_short by (metis option.distinct(1))
  next
    case False
    then have m: "m = Suc (Suc (Suc (m - 3)))" by simp
    have "find_sc (b # c # take (m - 3) r) = Some k \<Longrightarrow> find_sc (b # c # r) = Some k"
      if "\<not> (a = 0 \<and> b = 0 \<and> c = 1)" for k
      using 1(1)[OF that, of "Suc (Suc (m - 3))"] by simp
    moreover have "take m (a # b # c # r) = a # b # c # take (m - 3) r"
      by (subst m) simp
    ultimately show ?thesis using 1(2) by (auto split: if_splits)
  qed
qed (use find_sc_short in fastforce)+

lemma find_sc_prefix: "find_sc (xs @ ys) = None \<Longrightarrow> find_sc xs = None"
  using find_sc_take [of "length xs" "xs @ ys"] by (cases "find_sc xs") auto

lemma find_sc_segment: "find_sc (segment r) = None"
proof (cases "find_sc r")
  case (Some j)
  show ?thesis
  proof (cases "find_sc (take j r)")
    case (Some i)
    then have "i = j" using find_sc_take [OF Some] \<open>find_sc r = Some j\<close> by simp
    with find_sc_bound [OF Some] show ?thesis by simp
  qed (simp add: segment_def \<open>find_sc r = Some j\<close>)
qed (simp add: segment_def)

lemma annexb_nals_shape:
  "n \<in> set (annexb_nals d) \<Longrightarrow> find_sc n = None \<and> (n \<noteq> [] \<longrightarrow> last n \<noteq> 0)"
proof (induction d rule: annexb_nals.induct)
  case (1 d)
  have seg: "find_sc (rstrip0 (segment r)) = None" for r
    using find_sc_prefix rstrip0_zeros [of "segment r"] find_sc_segment by metis
  show ?case
  proof (cases "find_sc d")
    case None
    with 1(2) show ?thesis by (subst (asm) annexb_nals.simps) simp
  next
    case (Some k)
    let ?r = "drop (k + 3) d"
    from 1(2) consider "n = rstrip0 (segment ?r)" | j where "find_sc ?r = Some j" "n \<in> set (annexb_nals (drop j ?r))"
      using Some by (subst (asm) annexb_nals.simps) (auto simp: segment_def Let_def split: option.splits)
    then show ?thesis
    proof cases
      case 1
      then show ?thesis using seg rstrip0_last by auto
    next
      case 2
      show ?thesis by (rule 1(1)[OF Some refl 2])
    qed
  qed
qed

lemma real_nals_ok: "n \<in> set (real_nals d) \<Longrightarrow> nal_ok n"
  using annexb_nals_shape by (auto simp: real_nals_def nal_ok_def)

lemma find_sc_append:
  assumes "n = [] \<or> last n \<noteq> 0" "find_sc n = None"
  shows "find_sc (n @ r) = map_option (\<lambda>k. length n + k) (find_sc r)"
  using assms
proof (induction n rule: find_sc.induct [case_names long none one two])
  case (long a b c n)
  then show ?case by (auto simp: option.map_comp o_def split: if_splits)
next
  case (two a b)
  then show ?case by (cases r rule: find_sc.cases) (auto simp: option.map_comp o_def)
next
  case (one a)
  then show ?case by (cases r rule: find_sc.cases) (auto simp: option.map_comp o_def)
qed (cases "find_sc r"; simp)

lemma rstrip0_append: "n \<noteq> [] \<Longrightarrow> last n \<noteq> 0 \<Longrightarrow> rstrip0 (n @ x) = n @ rstrip0 x"
  by (induction x rule: rev_induct) (auto simp: rstrip0_id simp flip: append_assoc)

lemma annexb_nals_drop: "find_sc d = Some k \<Longrightarrow> annexb_nals (drop k d) = annexb_nals d"
  using annexb_nals_segment [of d k] annexb_nals_segment [OF find_sc_drop, of d k]
  by (simp add: add.commute)

text \<open>A start code, a NAL unit and arbitrary further data: the unit comes out first.\<close>

lemma annexb_nals_start_code:
  assumes "nal_ok n"
  shows "annexb_nals ([0, 0, 0, 1] @ n @ d) = (n @ rstrip0 (segment d)) # annexb_nals d"
proof -
  have n: "n \<noteq> []" "last n \<noteq> 0" "find_sc n = None" using assms by (simp_all add: nal_ok_def)
  have sc: "find_sc ([0, 0, 0, 1] @ n @ d) = Some 1" by simp
  have app: "find_sc (n @ d) = map_option (\<lambda>k. length n + k) (find_sc d)"
    using find_sc_append n by blast
  have seg: "segment (n @ d) = n @ segment d"
    by (simp add: segment_def app split: option.split)
  have "annexb_nals (drop (length (segment d)) d) = annexb_nals d"
  proof (cases "find_sc d")
    case None
    then show ?thesis by (subst (1 2) annexb_nals.simps) (simp add: segment_def)
  next
    case (Some k)
    then have "length (segment d) = k" using find_sc_bound [OF Some] by (simp add: segment_def)
    with Some show ?thesis by (simp add: annexb_nals_drop)
  qed
  then show ?thesis
    using annexb_nals_segment [OF sc] n by (simp add: seg rstrip0_append)
qed

fun annexb :: "bytes list \<Rightarrow> bytes" where
  "annexb [] = []"
| "annexb (n # ns) = [0, 0, 0, 1] @ n @ annexb ns"

lemma rstrip0_segment_annexb: "rstrip0 (segment (annexb ns)) = []"
  by (cases ns) (simp_all add: segment_def rstrip0_def)

lemma real_nals_annexb: "list_all nal_ok ns \<Longrightarrow> real_nals (annexb ns) = ns"
proof (induction ns)
  case Nil
  then show ?case by (simp add: real_nals_def annexb_nals.simps)
next
  case (Cons n ns)
  then show ?case
    using annexb_nals_start_code [of n "annexb ns"]
    by (simp add: real_nals_def rstrip0_segment_annexb) (simp add: nal_ok_def)
qed

section \<open>Properties\<close>

abbreviation nal_types :: "bytes \<Rightarrow> nat list" where
  "nal_types d \<equiv> map (\<lambda>n. nal_type (hd n)) (real_nals d)"

lemma fold_note_nal:
  "fold note_nal ts info = \<lparr>
     nal_count = nal_count info + length ts,
     has_sps = (has_sps info \<or> 7 \<in> set ts),
     has_pps = (has_pps info \<or> 8 \<in> set ts),
     has_idr = (has_idr info \<or> 5 \<in> set ts),
     has_slice = (has_slice info \<or> (\<exists>t \<in> set ts. 1 \<le> t \<and> t \<le> 5)),
     slice_count = slice_count info + length (filter (\<lambda>t. 1 \<le> t \<and> t \<le> 5) ts)\<rparr>"
  by (induction ts arbitrary: info) (auto simp: note_nal_def nal_type_defs Let_def)

definition summary :: "nat list \<Rightarrow> H264AuInfo" where
  "summary ts = \<lparr>
     nal_count = length ts,
     has_sps = (7 \<in> set ts),
     has_pps = (8 \<in> set ts),
     has_idr = (5 \<in> set ts),
     has_slice = (\<exists>t \<in> set ts. 1 \<le> t \<and> t \<le> 5),
     slice_count = length (filter (\<lambda>t. 1 \<le> t \<and> t \<le> 5) ts)\<rparr>"

lemma au_scan_summary: "h264_au_scan (Some d) = Some (summary (nal_types d))"
proof -
  have "fold (\<lambda>n. note_nal (nal_type (hd n))) ns = fold note_nal (map (\<lambda>n. nal_type (hd n)) ns)"
    for ns by (simp add: fold_map o_def)
  then show ?thesis
    by (simp only: h264_au_scan_def option.case au_scan_loop_spec fold_note_nal)
      (simp add: empty_info_def summary_def)
qed

text \<open>
  For every buffer, \<open>h264_au_scan\<close> returns without reading outside the buffer and
  its summary is that of the NAL units between start codes: the number of non-empty
  units, whether an SPS, a PPS, an IDR or any slice is among them, and the number of slices.
\<close>

theorem h264_au_scan_correct:
  "h264_au_scan (Some d) = Some \<lparr>
     nal_count = length (real_nals d),
     has_sps = (7 \<in> set (nal_types d)),
     has_pps = (8 \<in> set (nal_types d)),
     has_idr = (5 \<in> set (nal_types d)),
     has_slice = (\<exists>t \<in> set (nal_types d). 1 \<le> t \<and> t \<le> 5),
     slice_count = length (filter (\<lambda>t. 1 \<le> t \<and> t \<le> 5) (nal_types d))\<rparr>"
  by (simp add: au_scan_summary summary_def)

subsection \<open>Parameter set cache\<close>

definition cached_sps :: "H264ParamCache \<Rightarrow> bytes" where
  "cached_sps c = take (sps_length c) (sps c)"

definition cached_pps :: "H264ParamCache \<Rightarrow> bytes" where
  "cached_pps c = take (pps_length c) (pps c)"

definition slot_ok :: "nat \<Rightarrow> bytes \<Rightarrow> nat \<Rightarrow> bool" where
  "slot_ok t slot n \<longleftrightarrow> length slot = H264_PARAM_MAX \<and>
     (n = 0 \<or> 4 < n \<and> n \<le> H264_PARAM_MAX \<and> take 4 slot = [0, 0, 0, 1] \<and>
        nal_ok (drop 4 (take n slot)) \<and> nal_type (slot ! 4) = t)"

definition cache_ok :: "H264ParamCache \<Rightarrow> bool" where
  "cache_ok c \<longleftrightarrow> slot_ok H264_NAL_SPS (sps c) (sps_length c) \<and>
     slot_ok H264_NAL_PPS (pps c) (pps_length c)"

definition empty_cache :: H264ParamCache where
  "empty_cache = \<lparr>sps = replicate 256 0, sps_length = 0, pps = replicate 256 0, pps_length = 0\<rparr>"

lemma empty_cache_ok: "cache_ok empty_cache"
  by (simp add: cache_ok_def slot_ok_def empty_cache_def H264_PARAM_MAX_def)

lemma slot_nal:
  assumes "slot_ok t slot n" "n \<noteq> 0"
  obtains nal where "take n slot = [0, 0, 0, 1] @ nal" "nal_ok nal" "nal_type (hd nal) = t"
proof
  from assms have s: "4 < n" "n \<le> length slot" "take 4 slot = [0, 0, 0, 1]"
    "nal_ok (drop 4 (take n slot))" "nal_type (slot ! 4) = t"
    by (auto simp: slot_ok_def)
  show "take n slot = [0, 0, 0, 1] @ drop 4 (take n slot)"
    using s append_take_drop_id [of 4 "take n slot"] by (simp add: min_def)
  show "nal_ok (drop 4 (take n slot))" by (rule s(4))
  show "nal_type (hd (drop 4 (take n slot))) = t"
    using s by (simp add: hd_drop_conv_nth)
qed

definition stored :: "bytes \<Rightarrow> bytes \<Rightarrow> bytes" where
  "stored nal slot = [0, 0, 0, 1] @ nal @ drop (length nal + 4) slot"

lemma stored_take: "take (length nal + 4) (stored nal slot) = [0, 0, 0, 1] @ nal"
  "take 4 (stored nal slot) = [0, 0, 0, 1]"
  by (simp_all add: stored_def numeral_eq_Suc)

lemma stored_nth: "nal \<noteq> [] \<Longrightarrow> stored nal slot ! 4 = hd nal"
  by (simp add: stored_def nth_append hd_conv_nth)

lemma store_spec:
  assumes "length slot = H264_PARAM_MAX"
  shows "store slot n nal = Some
    (if length nal + 4 \<le> H264_PARAM_MAX then (stored nal slot, length nal + 4) else (slot, n))"
proof -
  from assms obtain a b c d r where "slot = a # b # c # d # r"
    by (auto simp: H264_PARAM_MAX_def length_Suc_conv numeral_eq_Suc)
  with assms show ?thesis by (auto simp: store_def memcpy_to_def stored_def numeral_eq_Suc)
qed

lemma store_slot_ok:
  assumes "length slot = H264_PARAM_MAX" "nal_ok nal" "nal_type (hd nal) = t"
    "length nal + 4 \<le> H264_PARAM_MAX"
  shows "slot_ok t (stored nal slot) (length nal + 4)"
proof -
  have "length (stored nal slot) = H264_PARAM_MAX" using assms by (simp add: stored_def)
  moreover have "nal \<noteq> []" using assms by (simp add: nal_ok_def)
  ultimately show ?thesis
    using assms by (simp add: slot_ok_def stored_take stored_nth)
qed

fun latest :: "nat \<Rightarrow> bytes list \<Rightarrow> bytes \<Rightarrow> bytes" where
  "latest t [] old = old"
| "latest t (n # ns) old =
     latest t ns (if nal_type (hd n) = t \<and> length n + 4 \<le> H264_PARAM_MAX
                  then [0, 0, 0, 1] @ n else old)"

lemma cache_nal_spec:
  assumes "cache_ok c" "nal_ok n"
  shows "\<exists>c'. cache_nal n c = Some c' \<and> cache_ok c' \<and>
     cached_sps c' = latest H264_NAL_SPS [n] (cached_sps c) \<and>
     cached_pps c' = latest H264_NAL_PPS [n] (cached_pps c)"
proof -
  have hd: "rd n 0 = Some (hd n)" using assms(2) by (auto simp: nal_ok_def hd_conv_nth rd_def)
  have len: "length (sps c) = H264_PARAM_MAX" "length (pps c) = H264_PARAM_MAX"
    using assms(1) by (auto simp: cache_ok_def slot_ok_def)
  consider (sps) "nal_type (hd n) = H264_NAL_SPS" | (pps) "nal_type (hd n) = H264_NAL_PPS"
    | (other) "nal_type (hd n) \<noteq> H264_NAL_SPS" "nal_type (hd n) \<noteq> H264_NAL_PPS" by blast
  then show ?thesis
  proof cases
    case sps
    then show ?thesis using assms len
      by (auto simp: cache_nal_def hd store_spec cache_ok_def store_slot_ok cached_sps_def
          cached_pps_def nal_type_defs stored_take)
  next
    case pps
    then show ?thesis using assms len
      by (auto simp: cache_nal_def hd store_spec cache_ok_def store_slot_ok cached_sps_def
          cached_pps_def nal_type_defs stored_take)
  next
    case other
    then show ?thesis using assms by (simp add: cache_nal_def hd)
  qed
qed

lemma cache_fold_spec:
  assumes "cache_ok c" "\<And>n. n \<in> set ns \<Longrightarrow> nal_ok n"
  shows "\<exists>c'. fold (\<lambda>n r. Option.bind r (cache_nal n)) ns (Some c) = Some c' \<and> cache_ok c' \<and>
     cached_sps c' = latest H264_NAL_SPS ns (cached_sps c) \<and>
     cached_pps c' = latest H264_NAL_PPS ns (cached_pps c)"
  using assms
proof (induction ns arbitrary: c)
  case (Cons n ns)
  then obtain c' where c': "cache_nal n c = Some c'" "cache_ok c'"
    "cached_sps c' = latest H264_NAL_SPS [n] (cached_sps c)"
    "cached_pps c' = latest H264_NAL_PPS [n] (cached_pps c)"
    using cache_nal_spec by (meson list.set_intros(1))
  then show ?case using Cons.IH [OF c'(2)] Cons.prems(2) by auto
qed simp

text \<open>
  Updating a well-formed cache from any buffer stays within the 256 byte slots, keeps
  the cache well-formed, and leaves in it the last SPS and the last PPS of the buffer that
  fit a slot, or the old ones when there is none.
\<close>

theorem h264_param_cache_update_correct:
  assumes "cache_ok c"
  shows "\<exists>c'. h264_param_cache_update (Some c) (Some d) = Some (Some c') \<and> cache_ok c' \<and>
     cached_sps c' = latest H264_NAL_SPS (real_nals d) (cached_sps c) \<and>
     cached_pps c' = latest H264_NAL_PPS (real_nals d) (cached_pps c)"
  using cache_fold_spec [OF assms, of "real_nals d"] real_nals_ok
  by (auto simp: h264_param_cache_update_def cache_update_loop_spec)

theorem h264_param_cache_update_witness:
  "cache_ok empty_cache \<and>
   (\<exists>c'. h264_param_cache_update (Some empty_cache)
            (Some [0, 0, 0, 1, 0x67, 0x42, 0, 0, 1, 0x68, 0xCE, 0, 0, 1, 0x65, 0x88]) = Some (Some c') \<and>
      cached_sps c' = [0, 0, 0, 1, 0x67, 0x42] \<and> cached_pps c' = [0, 0, 0, 1, 0x68, 0xCE])"
proof -
  have "real_nals [0, 0, 0, 1, 0x67, 0x42, 0, 0, 1, 0x68, 0xCE, 0, 0, 1, 0x65, 0x88]
      = [[0x67, 0x42], [0x68, 0xCE], [0x65, 0x88]]"
    by code_simp
  then show ?thesis
    using h264_param_cache_update_correct [OF empty_cache_ok,
        of "[0, 0, 0, 1, 0x67, 0x42, 0, 0, 1, 0x68, 0xCE, 0, 0, 1, 0x65, 0x88]"] empty_cache_ok
    by (auto simp: nal_type_defs nal_type_def H264_PARAM_MAX_def)
qed

lemma real_nals_params:
  assumes "nal_ok s" "nal_ok p"
  shows "real_nals (([0, 0, 0, 1] @ s) @ ([0, 0, 0, 1] @ p) @ d)
     = s # (p @ rstrip0 (segment d)) # real_nals d"
proof -
  have "annexb_nals ([0, 0, 0, 1] @ s @ [0, 0, 0, 1] @ p @ d)
      = (s @ rstrip0 (segment ([0, 0, 0, 1] @ p @ d))) # annexb_nals ([0, 0, 0, 1] @ p @ d)"
    by (rule annexb_nals_start_code [OF assms(1)])
  moreover have "rstrip0 (segment ([0, 0, 0, 1] @ p @ d)) = []"
    by (simp add: segment_def rstrip0_def)
  moreover have "s \<noteq> []" "p \<noteq> []" using assms by (simp_all add: nal_ok_def)
  ultimately show ?thesis
    using annexb_nals_start_code [OF assms(2), of d] by (simp add: real_nals_def)
qed

lemma memcpy_three:
  assumes "length a + length b + length c \<le> length out"
  shows "\<exists>o1 o2 o3. memcpy_to out 0 a = Some o1 \<and> memcpy_to o1 (length a) b = Some o2 \<and>
     memcpy_to o2 (length a + length b) c = Some o3 \<and>
     take (length a + length b + length c) o3 = a @ b @ c \<and> length o3 = length out"
  using assms by (auto simp: memcpy_to_def)

lemma prepend_params_run:
  assumes ok: "cache_ok c" and have_sps: "sps_length c \<noteq> 0" and have_pps: "pps_length c \<noteq> 0"
    and fits: "sps_length c + pps_length c + length d \<le> length out"
  obtains out' where "h264_prepend_params (Some c) d out = Some (sps_length c + pps_length c + length d, out')"
    "length out' = length out" "take (sps_length c + pps_length c + length d) out' = cached_sps c @ cached_pps c @ d"
proof -
  have len: "length (cached_sps c) = sps_length c" "length (cached_pps c) = pps_length c"
    "sps_length c \<le> length (sps c)" "pps_length c \<le> length (pps c)"
    using ok have_sps have_pps by (auto simp: cache_ok_def slot_ok_def cached_sps_def cached_pps_def)
  obtain o1 o2 o3 where cp: "memcpy_to out 0 (cached_sps c) = Some o1"
    "memcpy_to o1 (sps_length c) (cached_pps c) = Some o2"
    "memcpy_to o2 (sps_length c + pps_length c) d = Some o3"
    "take (sps_length c + pps_length c + length d) o3 = cached_sps c @ cached_pps c @ d" "length o3 = length out"
    using memcpy_three [of "cached_sps c" "cached_pps c" d out] fits len by auto
  have "h264_prepend_params (Some c) d out = Some (sps_length c + pps_length c + length d, o3)"
    using have_sps have_pps fits len cp
    by (simp add: h264_prepend_params_def Let_def flip: cached_sps_def cached_pps_def)
  then show thesis using that cp(4,5) by blast
qed

lemma cached_params_nals:
  assumes "cache_ok c" "sps_length c \<noteq> 0" "pps_length c \<noteq> 0"
  obtains s p where "cached_sps c = [0, 0, 0, 1] @ s" "nal_type (hd s) = H264_NAL_SPS" "cached_pps c = [0, 0, 0, 1] @ p"
    "nal_type (hd (p @ rstrip0 (segment d))) = H264_NAL_PPS"
    "real_nals (cached_sps c @ cached_pps c @ d) = s # (p @ rstrip0 (segment d)) # real_nals d"
proof -
  obtain s where s: "cached_sps c = [0, 0, 0, 1] @ s" "nal_ok s" "nal_type (hd s) = H264_NAL_SPS"
    using slot_nal assms unfolding cache_ok_def cached_sps_def by blast
  obtain p where p: "cached_pps c = [0, 0, 0, 1] @ p" "nal_ok p" "nal_type (hd p) = H264_NAL_PPS"
    using slot_nal assms unfolding cache_ok_def cached_pps_def by blast
  have "hd (p @ rstrip0 (segment d)) = hd p" using p(2) by (simp add: nal_ok_def)
  then show thesis using that [OF s(1,3) p(1)] p(3) real_nals_params [OF s(2) p(2), of d] s(1) p(1) by simp
qed

text \<open>
  C36: With both parameter sets cached and room in the output, \<open>h264_prepend_params\<close>
  returns the total length, stays within the output, and the completed access unit scans
  as one that has an SPS, a PPS and every slice (in particular the IDR) of the input.
\<close>

theorem h264_prepend_params_complete:
  assumes ok: "cache_ok c" and have_sps: "sps_length c \<noteq> 0" and have_pps: "pps_length c \<noteq> 0"
    and fits: "sps_length c + pps_length c + length d \<le> length out"
  shows "\<exists>total out' info di. h264_prepend_params (Some c) d out = Some (total, out') \<and>
     length out' = length out \<and> take total out' = cached_sps c @ cached_pps c @ d \<and>
     h264_au_scan (Some (take total out')) = Some info \<and> h264_au_scan (Some d) = Some di \<and>
     has_sps info \<and> has_pps info \<and> has_idr info = has_idr di \<and>
     slice_count info = slice_count di"
proof -
  let ?total = "sps_length c + pps_length c + length d"
  obtain o3 where o3: "h264_prepend_params (Some c) d out = Some (?total, o3)" "length o3 = length out"
    "take ?total o3 = cached_sps c @ cached_pps c @ d"
    by (rule prepend_params_run [OF assms])
  have types: "nal_types (take ?total o3) = [7, 8] @ nal_types d"
    by (rule cached_params_nals [OF ok have_sps have_pps, of d]) (simp add: o3(3) nal_type_defs)
  have "has_sps (summary ([7, 8] @ ts)) \<and> has_pps (summary ([7, 8] @ ts)) \<and>
      has_idr (summary ([7, 8] @ ts)) = has_idr (summary ts) \<and>
      slice_count (summary ([7, 8] @ ts)) = slice_count (summary ts)" for ts
    by (simp add: summary_def)
  moreover have "h264_au_scan (Some (take ?total o3)) = Some (summary ([7, 8] @ nal_types d))"
    by (simp only: au_scan_summary types)
  ultimately show ?thesis using o3 au_scan_summary by blast
qed

definition demo_cache :: H264ParamCache where
  "demo_cache = \<lparr>sps = [0, 0, 0, 1, 0x67, 0x42] @ replicate 250 0, sps_length = 6,
     pps = [0, 0, 0, 1, 0x68, 0xCE] @ replicate 250 0, pps_length = 6\<rparr>"

theorem h264_prepend_params_witness:
  "\<exists>total out' info. h264_prepend_params (Some demo_cache) [0, 0, 1, 0x65, 0x88] (replicate 20 0)
      = Some (total, out') \<and> h264_au_scan (Some (take total out')) = Some info \<and>
     has_sps info \<and> has_pps info"
proof -
  have ok: "cache_ok demo_cache"
    by (simp add: demo_cache_def cache_ok_def slot_ok_def nal_ok_def H264_PARAM_MAX_def
        nal_type_defs nal_type_def)
  have len: "sps_length demo_cache \<noteq> 0" "pps_length demo_cache \<noteq> 0"
    "sps_length demo_cache + pps_length demo_cache + length [0, 0, 1, 0x65, 0x88 :: u8]
      \<le> length (replicate 20 (0 :: u8))"
    by (simp_all add: demo_cache_def)
  show ?thesis using h264_prepend_params_complete [OF ok len] by blast
qed

end
