(* ===== verification/Bounded_Queue.thy ===== *)
theory Bounded_Queue
  imports Main
begin

text \<open>
  The interface of the bounded queues of the program: \<open>push\<close> never fails on an entry that
  fits and evicts the oldest entry when the queue is full. The access unit ring between encoder
  and server and the datagram queue between the socket and OpenSSL both implement it.
\<close>

text \<open>Index arithmetic of a circular buffer of \<open>n\<close> slots with its head at \<open>h\<close>.\<close>

lemma wrap_index: "(h :: nat) < n \<Longrightarrow> k \<le> n \<Longrightarrow> (h + k) mod n = (if h + k < n then h + k else h + k - n)"
  by (simp add: mod_if)

lemma slot_index_inj:
  "(h :: nat) < n \<Longrightarrow> j < n \<Longrightarrow> k < n \<Longrightarrow> (h + j) mod n = (h + k) mod n \<Longrightarrow> j = k"
  by (auto simp: wrap_index split: if_splits)

locale drop_oldest_queue =
  fixes inv :: "'s \<Rightarrow> bool"
    and contents :: "'s \<Rightarrow> 'a list"
    and bound :: "'s \<Rightarrow> nat"
    and fits :: "'s \<Rightarrow> 'a \<Rightarrow> bool"
    and push :: "'s \<Rightarrow> 'a \<Rightarrow> 's"
  assumes bound_pos: "inv s \<Longrightarrow> 0 < bound s"
    and contents_bound: "inv s \<Longrightarrow> length (contents s) \<le> bound s"
    and push_inv: "inv s \<Longrightarrow> fits s x \<Longrightarrow> inv (push s x)"
    and push_contents: "inv s \<Longrightarrow> fits s x \<Longrightarrow>
      contents (push s x) = (if length (contents s) = bound s then tl (contents s) else contents s) @ [x]"
    and push_bound: "inv s \<Longrightarrow> fits s x \<Longrightarrow> bound (push s x) = bound s"
    and push_fits: "inv s \<Longrightarrow> fits s x \<Longrightarrow> fits (push s x) y = fits s y"
begin

lemma push_contents_drop:
  assumes "inv s" "fits s x"
  shows "contents (push s x) = drop (Suc (length (contents s)) - bound s) (contents s @ [x])"
proof (cases "length (contents s) = bound s")
  case True
  then have "contents s \<noteq> []" "Suc 0 - bound s = 0" using bound_pos [OF assms(1)] by auto
  with True show ?thesis using push_contents [OF assms] by (simp add: drop_Suc)
next
  case False
  then have "Suc (length (contents s)) - bound s = 0" using contents_bound [OF assms(1)] by simp
  with False show ?thesis using push_contents [OF assms] by simp
qed

lemma push_all:
  assumes "inv s" "\<forall>x \<in> set xs. fits s x"
  shows "inv (foldl push s xs) \<and>
     contents (foldl push s xs) = drop (length (contents s) + length xs - bound s) (contents s @ xs)"
  using assms
proof (induction xs arbitrary: s)
  case Nil
  then show ?case using contents_bound [of s] by simp
next
  case (Cons x xs)
  then have x: "fits s x" by simp
  let ?s = "push s x" and ?c = "contents s"
  have "inv ?s" "\<forall>y \<in> set xs. fits ?s y"
    using Cons.prems push_inv push_fits by auto
  note IH = Cons.IH [OF this]
  let ?k = "Suc (length ?c) - bound s"
  have k: "?k \<le> length ?c" "Suc 0 - bound s = 0" using bound_pos [OF Cons.prems(1)] by auto
  have c: "contents ?s = drop ?k (?c @ [x])"
    by (rule push_contents_drop [OF Cons.prems(1) x])
  have "contents ?s @ xs = drop ?k (?c @ [x] @ xs)"
    using k by (simp add: c)
  then have "drop (length (contents ?s) + length xs - bound s) (contents ?s @ xs)
      = drop (length (contents ?s) + length xs - bound s + ?k) (?c @ x # xs)"
    by (simp only: drop_drop append_Cons append_Nil)
  moreover have "length (contents ?s) + length xs - bound s + ?k = length ?c + length (x # xs) - bound s"
    using contents_bound [OF Cons.prems(1)] bound_pos [OF Cons.prems(1)] by (simp add: c)
  ultimately show ?case
    using IH push_bound [OF Cons.prems(1) x] by simp
qed

end

end
