(* ===== verification/Au_Ring.thy ===== *)
theory Au_Ring
  imports Cam_Prelude Bounded_Queue
begin

text \<open>
  The ring of encoded access units between the encoder thread and the network thread
  (\<open>src/src/media/au_ring.c\<close>). The state keeps the flat backing store and the
  head/tail/count indices of the code; \<open>queue\<close> reads it as a list. The eventfd is
  its documented counter: a write adds, a read clears, readable means nonzero.
\<close>

section \<open>State\<close>

record AuMeta =
  pts_us :: u64
  m_sequence :: u64
  is_idr :: bool
  discontinuity :: bool
  m_size :: nat

record AuRing =
  backing :: bytes
  meta :: "AuMeta list"
  slot_capacity :: nat
  slot_count :: nat
  head :: nat
  tail :: nat
  count :: nat
  lost :: bool
  sequence :: u64
  dropped :: u64
  event_fd :: "u64 option"

definition zero_meta :: AuMeta where
  "zero_meta = \<lparr>pts_us = 0, m_sequence = 0, is_idr = False, discontinuity = False, m_size = 0\<rparr>"

section \<open>Operations\<close>

text \<open>
  \<open>mem_ok\<close> is the outcome of the three allocations, \<open>efd_ok\<close> that of
  \<open>eventfd\<close>, \<open>junk\<close> the indeterminate contents of the \<open>malloc\<close>ed backing
  store. The size given to \<open>malloc\<close> is a \<open>size_t\<close> product and wraps.
\<close>

definition au_ring_create ::
  "(nat \<Rightarrow> u8) \<Rightarrow> bool \<Rightarrow> bool \<Rightarrow> nat \<Rightarrow> nat \<Rightarrow> AuRing option" where
  "au_ring_create junk mem_ok efd_ok capacity slots =
     (if capacity = 0 \<or> slots = 0 then None
      else if \<not> mem_ok then None
      else Some \<lparr>backing = map junk [0..<(capacity * slots) mod 2 ^ 64],
                 meta = replicate slots zero_meta,
                 slot_capacity = capacity, slot_count = slots,
                 head = 0, tail = 0, count = 0, lost = False, sequence = 0, dropped = 0,
                 event_fd = (if efd_ok then Some 0 else None)\<rparr>)"

definition overwrite_oldest :: "AuRing \<Rightarrow> AuRing" where
  "overwrite_oldest ring =
     (if count ring = slot_count ring
      then ring\<lparr>head := (head ring + 1) mod slot_count ring, count := count ring - 1,
                lost := True, dropped := dropped ring + 1\<rparr>
      else ring)"

definition write_slot :: "AuRing \<Rightarrow> bytes \<Rightarrow> u64 \<Rightarrow> bool \<Rightarrow> AuRing option" where
  "write_slot ring data pts idr = do {
     let t = tail ring;
     b \<leftarrow> memcpy_to (backing ring) (t * slot_capacity ring) data;
     m \<leftarrow> wr (meta ring) t \<lparr>pts_us = pts, m_sequence = sequence ring, is_idr = idr,
                              discontinuity = lost ring, m_size = length data\<rparr>;
     Some (ring\<lparr>backing := b, meta := m, sequence := sequence ring + 1, lost := False,
                tail := (t + 1) mod slot_count ring, count := count ring + 1\<rparr>) }"

text \<open>The part of \<open>au_ring_push\<close> under the lock.\<close>

definition push_locked :: "AuRing \<Rightarrow> bytes \<Rightarrow> u64 \<Rightarrow> bool \<Rightarrow> (int \<times> AuRing) option" where
  "push_locked ring data pts idr =
     (if length data > slot_capacity ring
      then Some (-1, ring\<lparr>lost := True, dropped := dropped ring + 1\<rparr>)
      else do {
        ring' \<leftarrow> write_slot (overwrite_oldest ring) data pts idr;
        Some (0, ring') })"

text \<open>\<open>write\<close> of 1 to the eventfd; it is refused when the counter would overflow.\<close>

definition signal_event :: "AuRing \<Rightarrow> AuRing" where
  "signal_event ring =
     (case event_fd ring of
        None \<Rightarrow> ring
      | Some n \<Rightarrow> if n = - 2 then ring else ring\<lparr>event_fd := Some (n + 1)\<rparr>)"

definition au_ring_push ::
  "AuRing option \<Rightarrow> bytes option \<Rightarrow> u64 \<Rightarrow> bool \<Rightarrow> (int \<times> AuRing option) option" where
  "au_ring_push ring data pts idr =
     (case (ring, data) of
        (Some r, Some d) \<Rightarrow>
          if length d = 0 then Some (-1, ring)
          else do {
            (rc, r') \<leftarrow> push_locked r d pts idr;
            Some (rc, Some (if rc = 0 then signal_event r' else r')) }
      | _ \<Rightarrow> Some (-1, ring))"

text \<open>
  The loop of \<open>au_ring_pop\<close>; the result is the ring, the local discontinuity flag and
  the slot taken with its bytes. \<open>au_ring_pop\<close> returns the result code, the caller's
  buffer and the metadata it stores when \<open>meta\<close> is not NULL.
\<close>

function pop_loop ::
  "AuRing \<Rightarrow> nat \<Rightarrow> bool \<Rightarrow> (AuRing \<times> bool \<times> (AuMeta \<times> bytes) option) option" where
  "pop_loop ring capacity disc =
     (if count ring > 0 then do {
        let h = head ring;
        m \<leftarrow> rd (meta ring) h;
        let ring' = ring\<lparr>head := (h + 1) mod slot_count ring, count := count ring - 1\<rparr>;
        if m_size m > capacity
        then pop_loop (ring'\<lparr>dropped := dropped ring' + 1\<rparr>) capacity True
        else do {
          d \<leftarrow> rd_range (backing ring) (h * slot_capacity ring) (m_size m);
          Some (ring', disc, Some (m, d)) } }
      else Some (ring, disc, None))"
  by pat_completeness auto
termination
  by (relation "measure (\<lambda>(ring, capacity, disc). count ring)") auto

declare pop_loop.simps [simp del]

definition clear_event :: "AuRing \<Rightarrow> AuRing" where
  "clear_event ring = ring\<lparr>event_fd := map_option (\<lambda>_. 0) (event_fd ring)\<rparr>"

definition pop_locked ::
  "AuRing \<Rightarrow> bytes \<Rightarrow> bool \<Rightarrow> (int \<times> AuRing \<times> bytes \<times> AuMeta option) option" where
  "pop_locked ring buffer want_meta = do {
     (ring', disc, taken) \<leftarrow> pop_loop ring (length buffer) False;
     case taken of
       Some (m, d) \<Rightarrow> do {
         buffer' \<leftarrow> memcpy_to buffer 0 d;
         Some (1, ring', buffer',
               if want_meta then Some (m\<lparr>discontinuity := discontinuity m \<or> disc\<rparr>) else None) }
     | None \<Rightarrow>
         let ring' = clear_event ring' in
         Some (0, if disc then ring'\<lparr>lost := True\<rparr> else ring', buffer, None) }"

definition au_ring_pop ::
  "AuRing option \<Rightarrow> bytes \<Rightarrow> bool \<Rightarrow> (int \<times> AuRing option \<times> bytes \<times> AuMeta option) option" where
  "au_ring_pop ring buffer want_meta =
     (case ring of
        None \<Rightarrow> Some (0, None, buffer, None)
      | Some r \<Rightarrow> do {
          (rc, r', buffer', m) \<leftarrow> pop_locked r buffer want_meta;
          Some (rc, Some r', buffer', m) })"

definition au_ring_dropped :: "AuRing option \<Rightarrow> u64" where
  "au_ring_dropped ring = (case ring of Some r \<Rightarrow> dropped r | None \<Rightarrow> 0)"

section \<open>The ring as a queue\<close>

definition slot_index :: "AuRing \<Rightarrow> nat \<Rightarrow> nat" where
  "slot_index r k = (head r + k) mod slot_count r"

definition slot :: "AuRing \<Rightarrow> nat \<Rightarrow> AuMeta \<times> bytes" where
  "slot r i = (meta r ! i, take (m_size (meta r ! i)) (drop (i * slot_capacity r) (backing r)))"

definition queue :: "AuRing \<Rightarrow> (AuMeta \<times> bytes) list" where
  "queue r = map (\<lambda>k. slot r (slot_index r k)) [0..<count r]"

definition ring_inv :: "AuRing \<Rightarrow> bool" where
  "ring_inv r \<longleftrightarrow> 0 < slot_capacity r \<and> 0 < slot_count r \<and>
     length (backing r) = slot_capacity r * slot_count r \<and> length (meta r) = slot_count r \<and>
     head r < slot_count r \<and> count r \<le> slot_count r \<and>
     tail r = (head r + count r) mod slot_count r \<and>
     (\<forall>m \<in> set (meta r). m_size m \<le> slot_capacity r)"

lemma length_queue [simp]: "length (queue r) = count r"
  by (simp add: queue_def)

lemma ring_inv_create:
  assumes "capacity * slots < 2 ^ 64" "au_ring_create junk mem_ok efd_ok capacity slots = Some r"
  shows "ring_inv r \<and> queue r = []"
proof -
  have "(capacity * slots) mod 2 ^ 64 = capacity * slots" using assms(1) by simp
  with assms(2) show ?thesis
    by (auto simp: au_ring_create_def ring_inv_def queue_def zero_meta_def split: if_splits)
qed

lemma slot_index_bound: "ring_inv r \<Longrightarrow> slot_index r k < slot_count r"
  by (simp add: ring_inv_def slot_index_def)

subsection \<open>Dropping the oldest entry\<close>

definition advance :: "AuRing \<Rightarrow> AuRing" where
  "advance r = r\<lparr>head := (head r + 1) mod slot_count r, count := count r - 1\<rparr>"

lemma advance_inv [inv_intros]:
  assumes "ring_inv r" "0 < count r"
  shows "ring_inv (advance r)"
proof -
  have "(head r + count r) mod slot_count r = (Suc (head r) mod slot_count r + (count r - 1)) mod slot_count r"
    using assms(2) by (cases "count r") (simp_all add: mod_add_left_eq)
  with assms show ?thesis by (auto simp: ring_inv_def advance_def)
qed

lemma advance_queue:
  assumes "0 < count r"
  shows "queue r = slot r (head r mod slot_count r) # queue (advance r)"
proof -
  obtain c where c: "count r = Suc c" using assms by (cases "count r") auto
  have "slot_index (advance r) k = slot_index r (Suc k)" for k
    by (simp add: slot_index_def advance_def mod_add_left_eq)
  moreover have "slot (advance r) = slot r" by (simp add: slot_def advance_def fun_eq_iff)
  ultimately show ?thesis
    using c by (simp add: queue_def map_upt_Suc del: upt_Suc)
      (simp add: advance_def slot_index_def)
qed

lemma queue_cong:
  assumes "meta r' = meta r" "backing r' = backing r" "slot_capacity r' = slot_capacity r"
    "slot_count r' = slot_count r" "head r' = head r" "count r' = count r"
  shows "queue r' = queue r"
  using assms by (simp add: queue_def slot_index_def slot_def)

lemma ring_inv_cong:
  assumes "meta r' = meta r" "backing r' = backing r" "slot_capacity r' = slot_capacity r"
    "slot_count r' = slot_count r" "head r' = head r" "tail r' = tail r" "count r' = count r"
  shows "ring_inv r' = ring_inv r"
  using assms by (simp add: ring_inv_def)

lemma overwrite_oldest_spec:
  assumes "ring_inv r"
  defines "r' \<equiv> overwrite_oldest r"
  shows "ring_inv r' \<and> count r' < slot_count r' \<and>
    queue r' = (if count r = slot_count r then tl (queue r) else queue r) \<and>
    slot_count r' = slot_count r \<and> slot_capacity r' = slot_capacity r \<and> sequence r' = sequence r \<and>
    event_fd r' = event_fd r \<and> lost r' = (lost r \<or> count r = slot_count r) \<and>
    dropped r' = (if count r = slot_count r then dropped r + 1 else dropped r)"
proof (cases "count r = slot_count r")
  case True
  then have pos: "0 < count r" using assms(1) by (simp add: ring_inv_def)
  have r': "r' = (advance r)\<lparr>lost := True, dropped := dropped r + 1\<rparr>"
    using True by (simp add: r'_def overwrite_oldest_def advance_def)
  have "ring_inv r' = ring_inv (advance r)" "queue r' = queue (advance r)"
    unfolding r' by (rule ring_inv_cong queue_cong; simp)+
  then show ?thesis
    using True pos advance_inv [OF assms(1) pos] advance_queue [OF pos] unfolding r'
    by (simp add: advance_def)
next
  case False
  then show ?thesis using assms(1) by (auto simp: r'_def overwrite_oldest_def ring_inv_def)
qed

subsection \<open>Writing a slot\<close>

lemma slot_disjoint:
  assumes "i \<noteq> j" "n \<le> c" "m \<le> c"
  shows "i * c + n \<le> j * c \<or> j * c + m \<le> (i :: nat) * c"
proof (cases "i < j")
  case True
  then have "Suc i * c \<le> j * c" by (intro mult_le_mono1) simp
  with assms(2) show ?thesis by simp
next
  case False
  with assms(1) have "Suc j * c \<le> i * c" by (intro mult_le_mono1) simp
  with assms(3) show ?thesis by simp
qed

lemma slot_in_backing:
  assumes "i < n" "k \<le> c"
  shows "i * c + k \<le> c * (n :: nat)"
proof -
  have "Suc i * c \<le> n * c" using assms(1) by (intro mult_le_mono1) simp
  with assms(2) show ?thesis by (simp add: mult.commute)
qed

definition new_meta :: "AuRing \<Rightarrow> bytes \<Rightarrow> u64 \<Rightarrow> bool \<Rightarrow> AuMeta" where
  "new_meta r data pts idr = \<lparr>pts_us = pts, m_sequence = sequence r, is_idr = idr,
     discontinuity = lost r, m_size = length data\<rparr>"

lemma write_slot_spec:
  assumes inv: "ring_inv r" and room: "count r < slot_count r" and fits: "length data \<le> slot_capacity r"
  shows "\<exists>r'. write_slot r data pts idr = Some r' \<and> ring_inv r' \<and>
    queue r' = queue r @ [(new_meta r data pts idr, data)] \<and>
    count r' = count r + 1 \<and> slot_count r' = slot_count r \<and> slot_capacity r' = slot_capacity r \<and>
    sequence r' = sequence r + 1 \<and> \<not> lost r' \<and> dropped r' = dropped r \<and> event_fd r' = event_fd r"
proof -
  note [simp] = inv [unfolded ring_inv_def]
  let ?t = "tail r" and ?c = "slot_capacity r" and ?n = "slot_count r"
  have t: "?t = slot_index r (count r)" by (simp add: slot_index_def)
  then have tn: "?t < ?n" using slot_index_bound [OF inv] by simp
  then have in_range: "?t * ?c + length data \<le> length (backing r)"
    using fits slot_in_backing [of ?t ?n "length data" ?c] by simp
  then obtain b where b: "memcpy_to (backing r) (?t * ?c) data = Some b"
    using memcpy_to_Some_iff by blast
  define m where "m = (meta r)[?t := new_meta r data pts idr]"
  define r' where "r' = r\<lparr>backing := b, meta := m, sequence := sequence r + 1, lost := False,
    tail := (?t + 1) mod ?n, count := count r + 1\<rparr>"
  have run: "write_slot r data pts idr = Some r'"
    using b tn by (simp add: write_slot_def r'_def m_def new_meta_def Let_def)
  have inv': "ring_inv r'"
    using room fits memcpy_to_length [OF b] set_update_subset_insert [of "meta r" ?t "new_meta r data pts idr"]
    by (auto simp: ring_inv_def r'_def m_def new_meta_def mod_Suc_eq)
  have old: "slot r' (slot_index r' k) = slot r (slot_index r k)" if k: "k < count r" for k
  proof -
    let ?i = "slot_index r k"
    have i: "?i < ?n" by (rule slot_index_bound [OF inv])
    have ne: "?i \<noteq> ?t"
      using slot_index_inj [of "head r" ?n k "count r"] k room unfolding t slot_index_def by auto
    have sz: "m_size (meta r ! ?i) \<le> ?c" using i by simp
    have "take (m_size (meta r ! ?i)) (drop (?i * ?c) b) = take (m_size (meta r ! ?i)) (drop (?i * ?c) (backing r))"
      using slot_disjoint [OF ne sz fits] slot_in_backing [OF i sz]
      by (intro memcpy_to_frame [OF b]) auto
    then show ?thesis using ne by (simp add: slot_def r'_def m_def slot_index_def)
  qed
  have new: "slot r' (slot_index r' (count r)) = (new_meta r data pts idr, data)"
    using t tn memcpy_to_range [OF b] by (simp add: slot_def r'_def m_def slot_index_def new_meta_def)
  have "queue r' = queue r @ [(new_meta r data pts idr, data)]"
    using old new by (simp add: queue_def r'_def [THEN arg_cong [where f = count], simplified])
  with run inv' show ?thesis by (simp add: r'_def)
qed

subsection \<open>The locked operations\<close>

lemma push_locked_fits:
  assumes "ring_inv r" "length data \<le> slot_capacity r"
  shows "\<exists>r'. push_locked r data pts idr = Some (0, r') \<and> ring_inv r' \<and>
    queue r' = (if count r = slot_count r then tl (queue r) else queue r)
      @ [(new_meta (overwrite_oldest r) data pts idr, data)] \<and>
    slot_count r' = slot_count r \<and> slot_capacity r' = slot_capacity r \<and>
    sequence r' = sequence r + 1 \<and> \<not> lost r' \<and> event_fd r' = event_fd r \<and>
    dropped r' = (if count r = slot_count r then dropped r + 1 else dropped r)"
proof -
  note ow = overwrite_oldest_spec [OF assms(1)]
  obtain r' where "write_slot (overwrite_oldest r) data pts idr = Some r'" "ring_inv r'"
    "queue r' = queue (overwrite_oldest r) @ [(new_meta (overwrite_oldest r) data pts idr, data)]"
    "slot_count r' = slot_count r" "slot_capacity r' = slot_capacity r"
    "sequence r' = sequence r + 1" "\<not> lost r'" "dropped r' = dropped (overwrite_oldest r)"
    "event_fd r' = event_fd r"
    using write_slot_spec [of "overwrite_oldest r" data pts idr] ow assms(2) by auto
  then show ?thesis using ow assms(2) by (simp add: push_locked_def)
qed

lemma push_locked_too_big:
  assumes "length data > slot_capacity r"
  shows "push_locked r data pts idr = Some (-1, r\<lparr>lost := True, dropped := dropped r + 1\<rparr>)"
  using assms by (simp add: push_locked_def)

definition oversize :: "nat \<Rightarrow> AuMeta \<times> bytes \<Rightarrow> bool" where
  "oversize capacity = (\<lambda>(m, d). m_size m > capacity)"

lemma pop_loop_spec:
  assumes "ring_inv r"
  shows "\<exists>r'. pop_loop r capacity disc = Some (r',
      disc \<or> takeWhile (oversize capacity) (queue r) \<noteq> [],
      case dropWhile (oversize capacity) (queue r) of [] \<Rightarrow> None | x # _ \<Rightarrow> Some x) \<and>
    ring_inv r' \<and> queue r' = tl (dropWhile (oversize capacity) (queue r)) \<and>
    dropped r' = dropped r + of_nat (length (takeWhile (oversize capacity) (queue r))) \<and>
    lost r' = lost r \<and> sequence r' = sequence r \<and> event_fd r' = event_fd r \<and>
    slot_count r' = slot_count r \<and> slot_capacity r' = slot_capacity r"
  using assms
proof (induction r capacity disc rule: pop_loop.induct)
  case (1 r capacity disc)
  note inv = 1(2)
  show ?case
  proof (cases "0 < count r")
    case True
    let ?m = "meta r ! head r"
    have h: "head r < slot_count r" "length (meta r) = slot_count r" "m_size ?m \<le> slot_capacity r"
      "length (backing r) = slot_capacity r * slot_count r"
      using inv by (auto simp: ring_inv_def)
    have q: "queue r = slot r (head r) # queue (advance r)"
      using advance_queue [OF True] h by simp
    have rd: "rd (meta r) (head r) = Some ?m" using h by simp
    show ?thesis
    proof (cases "m_size ?m > capacity")
      case big: True
      define r1 where "r1 = (advance r)\<lparr>dropped := dropped (advance r) + 1\<rparr>"
      have "ring_inv r1 = ring_inv (advance r)" and q1: "queue r1 = queue (advance r)"
        unfolding r1_def by (rule ring_inv_cong queue_cong; simp)+
      then have "ring_inv r1" using advance_inv [OF inv True] by simp
      from 1(1)[OF True refl rd refl big, folded advance_def, folded r1_def, OF this]
      show ?thesis
        using big q q1 rd True
        by (subst pop_loop.simps)
          (auto simp: Let_def oversize_def slot_def r1_def advance_def algebra_simps)
    next
      case small: False
      have "head r * slot_capacity r + m_size ?m \<le> length (backing r)"
        using slot_in_backing [OF h(1) h(3)] h(4) by simp
      then show ?thesis
        using small q rd True advance_inv [OF inv True]
        by (subst pop_loop.simps)
          (auto simp: Let_def oversize_def slot_def advance_def)
    qed
  next
    case False
    then show ?thesis using inv by (subst pop_loop.simps) (simp add: queue_def)
  qed
qed

lemma queue_sizes:
  assumes "ring_inv r" "(m, d) \<in> set (queue r)"
  shows "length d = m_size m \<and> m_size m \<le> slot_capacity r"
proof -
  obtain i where i: "i < slot_count r" "m = meta r ! i"
    "d = take (m_size m) (drop (i * slot_capacity r) (backing r))"
    using assms slot_index_bound by (fastforce simp: queue_def slot_def)
  have sz: "m_size m \<le> slot_capacity r" using assms(1) i by (auto simp: ring_inv_def)
  then show ?thesis
    using slot_in_backing [OF i(1) sz] assms(1) i(3) by (auto simp: ring_inv_def)
qed

lemma pop_locked_spec:
  assumes inv: "ring_inv r"
  shows "case dropWhile (oversize (length buffer)) (queue r) of
      [] \<Rightarrow> \<exists>r'. pop_locked r buffer w = Some (0, r', buffer, None) \<and> ring_inv r' \<and> queue r' = [] \<and>
          event_fd r' = map_option (\<lambda>_. 0) (event_fd r) \<and>
          lost r' = (lost r \<or> queue r \<noteq> []) \<and>
          dropped r' = dropped r + of_nat (count r)
    | (m, d) # rest \<Rightarrow> \<exists>r'. pop_locked r buffer w = Some (1, r', d @ drop (length d) buffer,
            if w then Some (m\<lparr>discontinuity :=
              (discontinuity m \<or> count r \<noteq> Suc (length rest))\<rparr>) else None) \<and>
          ring_inv r' \<and> queue r' = rest \<and> event_fd r' = event_fd r \<and> lost r' = lost r \<and>
          dropped r' = dropped r + of_nat (count r - Suc (length rest))"
proof -
  let ?big = "oversize (length buffer)"
  obtain r' where r': "pop_loop r (length buffer) False = Some (r', takeWhile ?big (queue r) \<noteq> [],
      case dropWhile ?big (queue r) of [] \<Rightarrow> None | x # _ \<Rightarrow> Some x)"
    "ring_inv r'" "queue r' = tl (dropWhile ?big (queue r))"
    "dropped r' = dropped r + of_nat (length (takeWhile ?big (queue r)))"
    "lost r' = lost r" "event_fd r' = event_fd r"
    using pop_loop_spec [OF inv, of "length buffer" False] by auto
  have len: "length (takeWhile ?big (queue r)) + length (dropWhile ?big (queue r)) = count r"
    by (metis length_append length_queue takeWhile_dropWhile_id)
  show ?thesis
  proof (cases "dropWhile ?big (queue r)")
    case Nil
    define r1 where "r1 = (let q = clear_event r' in if takeWhile ?big (queue r) \<noteq> [] then q\<lparr>lost := True\<rparr> else q)"
    have same: "ring_inv r1 = ring_inv r'" "queue r1 = queue r'"
      unfolding r1_def Let_def clear_event_def
      by (cases "takeWhile ?big (queue r) = []"; (intro ring_inv_cong queue_cong; simp))+
    have tw: "takeWhile ?big (queue r) = queue r" using Nil by (metis append_Nil2 takeWhile_dropWhile_id)
    have "pop_locked r buffer w = Some (0, r1, buffer, None)"
      using r' Nil by (simp add: pop_locked_def r1_def Let_def)
    moreover have "event_fd r1 = map_option (\<lambda>_. 0) (event_fd r) \<and> lost r1 = (lost r \<or> queue r \<noteq> [])
        \<and> dropped r1 = dropped r + of_nat (count r)"
      using r'(4-6) unfolding r1_def tw Let_def clear_event_def by auto
    moreover have "queue r1 = []" using same(2) r'(3) unfolding Nil by simp
    ultimately show ?thesis
      using same(1) r'(2) unfolding Nil list.case by (intro exI [of _ r1]) simp
  next
    case (Cons x rest)
    obtain m d where x: "x = (m, d)" by (cases x)
    have mem: "(m, d) \<in> set (queue r)" using Cons x by (metis list.set_intros(1) set_dropWhileD)
    have small: "\<not> ?big (m, d)" using Cons x hd_dropWhile [of ?big "queue r"] by simp
    have "length d \<le> length buffer"
      using queue_sizes [OF inv mem] small by (simp add: oversize_def)
    then have "memcpy_to buffer 0 d = Some (d @ drop (length d) buffer)" by simp
    moreover have "(takeWhile ?big (queue r) \<noteq> []) = (count r \<noteq> Suc (length rest))"
      "length (takeWhile ?big (queue r)) = count r - Suc (length rest)"
      using len Cons by auto
    ultimately show ?thesis using r' Cons x by (simp add: pop_locked_def)
  qed
qed

section \<open>A queue that prefers the newest entries\<close>

text \<open>The ring implements the interface the encoder relies on, \<open>drop_oldest_queue\<close>.\<close>

definition ring_push :: "AuRing \<Rightarrow> bytes \<times> u64 \<times> bool \<Rightarrow> AuRing" where
  "ring_push r = (\<lambda>(data, pts, idr).
     case au_ring_push (Some r) (Some data) pts idr of Some (_, Some r') \<Rightarrow> r' | _ \<Rightarrow> r)"

definition ring_fits :: "AuRing \<Rightarrow> bytes \<times> u64 \<times> bool \<Rightarrow> bool" where
  "ring_fits r = (\<lambda>(data, pts, idr). data \<noteq> [] \<and> length data \<le> slot_capacity r)"

definition ring_contents :: "AuRing \<Rightarrow> (bytes \<times> u64 \<times> bool) list" where
  "ring_contents r = map (\<lambda>(m, d). (d, pts_us m, is_idr m)) (queue r)"

lemma signal_event_frame [simp]:
  "ring_inv (signal_event r) = ring_inv r" "queue (signal_event r) = queue r"
  "slot_count (signal_event r) = slot_count r" "slot_capacity (signal_event r) = slot_capacity r"
  "lost (signal_event r) = lost r" "dropped (signal_event r) = dropped r"
  "sequence (signal_event r) = sequence r" "count (signal_event r) = count r"
proof -
  define e where "e = map_option (\<lambda>n. if n = - 2 then n else n + 1) (event_fd r)"
  have e: "signal_event r = r\<lparr>event_fd := e\<rparr>"
    by (cases r) (auto simp: signal_event_def e_def split: option.split)
  show "ring_inv (signal_event r) = ring_inv r" "queue (signal_event r) = queue r"
    unfolding e by (rule ring_inv_cong queue_cong; simp)+
  show "slot_count (signal_event r) = slot_count r" "slot_capacity (signal_event r) = slot_capacity r"
    "lost (signal_event r) = lost r" "dropped (signal_event r) = dropped r"
    "sequence (signal_event r) = sequence r" "count (signal_event r) = count r"
    by (simp_all add: e)
qed

lemma push_fits_queue:
  assumes "ring_inv r" "data \<noteq> []" "length data \<le> slot_capacity r"
  shows "\<exists>r'. au_ring_push (Some r) (Some data) pts idr = Some (0, Some r') \<and> ring_inv r' \<and>
     queue r' = (if count r = slot_count r then tl (queue r) else queue r)
       @ [(new_meta (overwrite_oldest r) data pts idr, data)] \<and>
     slot_count r' = slot_count r \<and> slot_capacity r' = slot_capacity r \<and>
     sequence r' = sequence r + 1 \<and> \<not> lost r' \<and>
     dropped r' = (if count r = slot_count r then dropped r + 1 else dropped r)"
  using push_locked_fits [OF assms(1,3), of pts idr] assms(2) by (auto simp: au_ring_push_def)

interpretation au: drop_oldest_queue ring_inv ring_contents slot_count ring_fits ring_push
proof (unfold_locales, goal_cases)
  case (1 s)
  then show ?case by (simp add: ring_inv_def)
next
  case (2 s)
  then show ?case by (simp add: ring_inv_def ring_contents_def)
next
  case (3 s x)
  then show ?case
    using push_fits_queue [of s "fst x" "fst (snd x)" "snd (snd x)"]
    by (auto simp: ring_push_def ring_fits_def split: prod.splits)
next
  case (4 s x)
  obtain d p i where x: "x = (d, p, i)" by (cases x)
  with 4 obtain r' where "au_ring_push (Some s) (Some d) p i = Some (0, Some r')"
    "queue r' = (if count s = slot_count s then tl (queue s) else queue s)
       @ [(new_meta (overwrite_oldest s) d p i, d)]"
    using push_fits_queue [of s d p i] by (auto simp: ring_fits_def)
  then show ?case
    by (simp add: x ring_push_def ring_contents_def map_tl new_meta_def)
next
  case (5 s x)
  then show ?case
    using push_fits_queue [of s "fst x" "fst (snd x)" "snd (snd x)"]
    by (auto simp: ring_push_def ring_fits_def split: prod.splits)
next
  case (6 s x y)
  then show ?case
    using push_fits_queue [of s "fst x" "fst (snd x)" "snd (snd x)"]
    by (auto simp: ring_push_def ring_fits_def split: prod.splits)
qed

section \<open>Interleaving of producer and consumer\<close>

text \<open>
  \<open>au_ring_push\<close> signals the eventfd after it has released the lock, so a consumer can
  run in between. A state of the two threads is the ring and whether the producer stands
  between unlock and \<open>write\<close>; a step is one critical section or the late signal.
\<close>

record ring_sys =
  ring :: AuRing
  unsignalled :: bool

inductive ring_step :: "ring_sys \<Rightarrow> ring_sys \<Rightarrow> bool" where
  push: "\<lbrakk>\<not> unsignalled s; data \<noteq> []; push_locked (ring s) data pts idr = Some (0, r')\<rbrakk>
     \<Longrightarrow> ring_step s \<lparr>ring = r', unsignalled = True\<rparr>"
| reject: "\<lbrakk>\<not> unsignalled s; data \<noteq> []; push_locked (ring s) data pts idr = Some (-1, r')\<rbrakk>
     \<Longrightarrow> ring_step s \<lparr>ring = r', unsignalled = False\<rparr>"
| signal: "unsignalled s \<Longrightarrow> ring_step s \<lparr>ring = signal_event (ring s), unsignalled = False\<rparr>"
| pop: "pop_locked (ring s) buffer w = Some (rc, r', buffer', m) \<Longrightarrow> ring_step s (s\<lparr>ring := r'\<rparr>)"

inductive ring_reach :: "AuRing \<Rightarrow> ring_sys \<Rightarrow> bool" for r0 where
  init: "ring_reach r0 \<lparr>ring = r0, unsignalled = False\<rparr>"
| step: "ring_reach r0 s \<Longrightarrow> ring_step s t \<Longrightarrow> ring_reach r0 t"

inductive_cases ring_stepE: "ring_step s t"

definition wake_inv :: "ring_sys \<Rightarrow> bool" where
  "wake_inv s \<longleftrightarrow> ring_inv (ring s) \<and>
     (\<forall>n. event_fd (ring s) = Some n \<longrightarrow>
        n \<noteq> - 1 \<and> (0 < count (ring s) \<longrightarrow> n \<noteq> 0 \<or> unsignalled s))"

lemma signal_event_fd:
  "event_fd (signal_event r) = map_option (\<lambda>n. if n = - 2 then n else n + 1) (event_fd r)"
  by (simp add: signal_event_def split: option.split)

lemma bump_not_max: "n + 1 = (- 1 :: u64) \<longleftrightarrow> n = - 2"
  by (subst eq_diff_eq [symmetric]) simp

lemma bump_not_zero: "n + 1 = (0 :: u64) \<longleftrightarrow> n = - 1"
  by (simp add: eq_neg_iff_add_eq_0)

lemma pop_locked_wake:
  assumes "ring_inv r" "pop_locked r buffer w = Some (rc, r', buffer', m)"
  shows "ring_inv r' \<and>
    (event_fd r' = event_fd r \<and> 0 < count r \<or> event_fd r' = map_option (\<lambda>_. 0) (event_fd r) \<and> count r' = 0)"
proof (cases "dropWhile (oversize (length buffer)) (queue r)")
  case Nil
  then obtain r1 where "pop_locked r buffer w = Some (0, r1, buffer, None)" "ring_inv r1" "queue r1 = []"
    "event_fd r1 = map_option (\<lambda>_. 0) (event_fd r)"
    using pop_locked_spec [OF assms(1), of buffer w] unfolding Nil list.case by blast
  then show ?thesis using assms(2) by (metis Pair_inject length_0_conv length_queue option.inject)
next
  case (Cons x rest)
  obtain a d where x: "x = (a, d)" by (cases x)
  from Cons have "queue r \<noteq> []" by auto
  then have "0 < count r" by (metis length_greater_0_conv length_queue)
  then show ?thesis
    using pop_locked_spec [OF assms(1), of buffer w] assms(2) unfolding Cons x by auto
qed

lemma ring_step_wake: "ring_step s t \<Longrightarrow> wake_inv s \<Longrightarrow> wake_inv t"
proof (induction rule: ring_step.induct)
  case (push s data pts idr r')
  then have "length data \<le> slot_capacity (ring s)" by (auto simp: push_locked_def split: if_splits)
  then show ?case
    using push push_locked_fits [of "ring s" data pts idr] by (auto simp: wake_inv_def)
next
  case (reject s data pts idr r')
  then have "length data > slot_capacity (ring s)"
    by (auto simp: push_locked_def split: if_splits Option.bind_splits)
  then have "r' = (ring s)\<lparr>lost := True, dropped := dropped (ring s) + 1\<rparr>"
    using reject by (simp add: push_locked_too_big)
  then show ?case using reject by (auto simp: wake_inv_def ring_inv_def)
next
  case (signal s)
  then show ?case
    by (auto simp: wake_inv_def signal_event_fd bump_not_max bump_not_zero split: if_splits)
next
  case (pop s buffer w rc r' buffer' m)
  then show ?case
    using pop_locked_wake [of "ring s" buffer w rc r' buffer' m] by (auto simp: wake_inv_def)
qed

lemma ring_reach_wake:
  assumes "ring_reach r0 s" "capacity * slots < 2 ^ 64"
    "au_ring_create junk mem_ok efd_ok capacity slots = Some r0"
  shows "wake_inv s"
  using assms(1)
proof (induction rule: ring_reach.induct)
  case init
  have "event_fd r0 = (if efd_ok then Some 0 else None)" "count r0 = 0"
    using assms(3) by (auto simp: au_ring_create_def split: if_splits)
  then show ?case using ring_inv_create [OF assms(2,3)] by (simp add: wake_inv_def)
next
  case (step s t)
  then show ?case using ring_step_wake by blast
qed

section \<open>Accounting\<close>

text \<open>A run of the ring: pushes of non-empty access units and pops into a buffer.\<close>

datatype ring_op = Push bytes u64 bool | Pop nat

text \<open>State, pushes attempted, access units delivered.\<close>

fun run_op :: "ring_op \<Rightarrow> AuRing \<times> nat \<times> nat \<Rightarrow> (AuRing \<times> nat \<times> nat) option" where
  "run_op (Push data pts idr) (r, pushed, delivered) =
     (if data = [] then Some (r, pushed, delivered)
      else do {
        (rc, r') \<leftarrow> au_ring_push (Some r) (Some data) pts idr;
        r'' \<leftarrow> r';
        Some (r'', Suc pushed, delivered) })"
| "run_op (Pop n) (r, pushed, delivered) = do {
     (rc, r', b, m) \<leftarrow> au_ring_pop (Some r) (replicate n 0) True;
     r'' \<leftarrow> r';
     Some (r'', pushed, if rc = 1 then Suc delivered else delivered) }"

fun run_ops :: "ring_op list \<Rightarrow> AuRing \<times> nat \<times> nat \<Rightarrow> (AuRing \<times> nat \<times> nat) option" where
  "run_ops [] s = Some s"
| "run_ops (x # xs) s = do { s' \<leftarrow> run_op x s; run_ops xs s' }"

definition balanced :: "AuRing \<times> nat \<times> nat \<Rightarrow> bool" where
  "balanced = (\<lambda>(r, pushed, delivered). ring_inv r \<and>
     of_nat pushed = of_nat delivered + dropped r + of_nat (count r))"

lemma run_op_push:
  assumes "balanced (r, pushed, delivered)"
  shows "\<exists>s'. run_op (Push data pts idr) (r, pushed, delivered) = Some s' \<and> balanced s'"
proof (cases "data = []")
  case False
  from assms have inv: "ring_inv r" by (simp add: balanced_def)
  then have pos: "0 < slot_count r" by (simp add: ring_inv_def)
  show ?thesis
  proof (cases "length data \<le> slot_capacity r")
    case True
    obtain r' where r': "au_ring_push (Some r) (Some data) pts idr = Some (0, Some r')" "ring_inv r'"
      "queue r' = (if count r = slot_count r then tl (queue r) else queue r)
       @ [(new_meta (overwrite_oldest r) data pts idr, data)]"
      "dropped r' = (if count r = slot_count r then dropped r + 1 else dropped r)"
      using push_fits_queue [OF inv False True, of pts idr] by blast
    from arg_cong [OF r'(3), of length]
    have "count r' = (if count r = slot_count r then count r else Suc (count r))"
      using pos by (auto split: if_splits)
    then show ?thesis using r' assms False by (auto simp: balanced_def algebra_simps)
  next
    case big: False
    then show ?thesis using assms False
      by (auto simp: au_ring_push_def push_locked_too_big balanced_def ring_inv_def algebra_simps)
  qed
qed (use assms in simp)

lemma run_op_pop:
  assumes "balanced (r, pushed, delivered)"
  shows "\<exists>s'. run_op (Pop n) (r, pushed, delivered) = Some s' \<and> balanced s'"
proof -
  from assms have inv: "ring_inv r" by (simp add: balanced_def)
  note spec = pop_locked_spec [OF inv, of "replicate n 0" True, simplified]
  show ?thesis
  proof (cases "dropWhile (oversize n) (queue r)")
    case Nil
    then obtain r' where r': "pop_locked r (replicate n 0) True = Some (0, r', replicate n 0, None)"
      "ring_inv r'" "queue r' = []" "dropped r' = dropped r + of_nat (count r)"
      using spec unfolding Nil list.case by blast
    then have "count r' = 0" by (metis length_0_conv length_queue)
    then show ?thesis using r' assms by (simp add: au_ring_pop_def balanced_def)
  next
    case (Cons x rest)
    obtain a d where x: "x = (a, d)" by (cases x)
    obtain r' b m where r': "pop_locked r (replicate n 0) True = Some (1, r', b, m)"
      "ring_inv r'" "queue r' = rest" "dropped r' = dropped r + of_nat (count r - Suc (length rest))"
      using spec unfolding Cons x by auto
    have "length (dropWhile (oversize n) (queue r)) \<le> count r"
      by (metis length_dropWhile_le length_queue)
    then have "Suc (length rest) \<le> count r" "count r' = length rest"
      using Cons r'(3) by (simp, metis length_queue)
    then show ?thesis using r' assms by (simp add: au_ring_pop_def balanced_def of_nat_diff)
  qed
qed

lemma run_ops_balanced: "balanced s \<Longrightarrow> \<exists>s'. run_ops ops s = Some s' \<and> balanced s'"
proof (induction ops arbitrary: s)
  case (Cons x xs)
  obtain r p d where s: "s = (r, p, d)" by (cases s)
  have "\<exists>s'. run_op x s = Some s' \<and> balanced s'"
    using run_op_push run_op_pop Cons.prems unfolding s by (cases x) blast+
  then show ?case using Cons.IH by fastforce
qed simp

section \<open>Properties\<close>

definition demo_ring :: AuRing where
  "demo_ring = \<lparr>backing = [1, 0, 2, 0],
     meta = [\<lparr>pts_us = 10, m_sequence = 0, is_idr = True, discontinuity = False, m_size = 1\<rparr>,
             \<lparr>pts_us = 20, m_sequence = 1, is_idr = False, discontinuity = False, m_size = 1\<rparr>],
     slot_capacity = 2, slot_count = 2, head = 0, tail = 0, count = 2, lost = False,
     sequence = 2, dropped = 0, event_fd = Some 2\<rparr>"

lemma demo_ring_inv: "ring_inv demo_ring"
  by (simp add: demo_ring_def ring_inv_def)

text \<open>
  C15: a push of a non-empty access unit that fits never accesses memory outside the ring,
  keeps the invariant, evicts exactly the oldest entry when the ring is full, and appends
  the bytes with the next sequence number; one that does not fit changes no entry, is
  counted as dropped and marks the loss. The loss of an overwrite is flagged on the access unit
  just pushed, the newest, and on no other: the unit that is popped next, which follows the
  gap, stays as it was, contrary to what \<open>au_ring.h\<close> says of \<open>discontinuity\<close>.
\<close>

theorem au_ring_push_correct:
  assumes "ring_inv r" "data \<noteq> []"
  shows "\<exists>r'. ring_inv r' \<and>
    (if length data \<le> slot_capacity r then
       au_ring_push (Some r) (Some data) pts idr = Some (0, Some r') \<and>
       queue r' = (if count r = slot_count r then tl (queue r) else queue r)
         @ [(\<lparr>pts_us = pts, m_sequence = sequence r, is_idr = idr,
               discontinuity = (lost r \<or> count r = slot_count r), m_size = length data\<rparr>, data)] \<and>
       dropped r' = (if count r = slot_count r then dropped r + 1 else dropped r) \<and>
       sequence r' = sequence r + 1 \<and> \<not> lost r'
     else
       au_ring_push (Some r) (Some data) pts idr = Some (-1, Some r') \<and>
       queue r' = queue r \<and> dropped r' = dropped r + 1 \<and> lost r')"
proof (cases "length data \<le> slot_capacity r")
  case True
  then show ?thesis
    using push_fits_queue [OF assms True, of pts idr] overwrite_oldest_spec [OF assms(1)]
    by (auto simp: new_meta_def)
next
  case False
  define r' where "r' = r\<lparr>lost := True, dropped := dropped r + 1\<rparr>"
  have "ring_inv r' = ring_inv r" "queue r' = queue r"
    unfolding r'_def by (rule ring_inv_cong queue_cong; simp)+
  then show ?thesis using False assms
    by (intro exI [of _ r']) (simp add: au_ring_push_def push_locked_too_big r'_def)
qed

theorem au_ring_push_witness:
  "\<exists>r'. au_ring_push (Some demo_ring) (Some [7, 8]) 30 False = Some (0, Some r') \<and>
     map snd (queue r') = [[2], [7, 8]] \<and> dropped r' = 1"
proof -
  have q: "queue demo_ring = [(\<lparr>pts_us = 10, m_sequence = 0, is_idr = True, discontinuity = False,
      m_size = 1\<rparr>, [1]), (\<lparr>pts_us = 20, m_sequence = 1, is_idr = False, discontinuity = False,
      m_size = 1\<rparr>, [2])]"
    by code_simp
  show ?thesis
    using au_ring_push_correct [OF demo_ring_inv, of "[7, 8]" 30 False] q
    by (auto simp: demo_ring_def)
qed

text \<open>
  C16: a pop never accesses memory outside the ring or the buffer. It skips the entries
  larger than the buffer (counting each as dropped), delivers the first one that fits with
  its bytes at the start of the buffer, and marks it discontinuous when an entry was
  skipped in this call or its slot was flagged by the push. So a unit whose predecessor was
  overwritten in the ring is delivered without the flag, although \<open>au_ring.h\<close> says that the next
  unit popped after a loss carries it. When nothing is deliverable the ring is empty afterwards, the wakeup is cleared
  and a skipped entry marks the loss for the next push.
\<close>

theorem au_ring_pop_correct:
  assumes "ring_inv r"
  shows "case dropWhile (\<lambda>(m, d). m_size m > length buffer) (queue r) of
      [] \<Rightarrow> \<exists>r'. au_ring_pop (Some r) buffer w = Some (0, Some r', buffer, None) \<and> ring_inv r' \<and>
          queue r' = [] \<and> event_fd r' = map_option (\<lambda>_. 0) (event_fd r) \<and>
          lost r' = (lost r \<or> queue r \<noteq> []) \<and> dropped r' = dropped r + of_nat (count r)
    | (m, d) # rest \<Rightarrow> \<exists>r'. au_ring_pop (Some r) buffer w =
            Some (1, Some r', d @ drop (length d) buffer,
              if w then Some (m\<lparr>discontinuity :=
                (discontinuity m \<or> count r \<noteq> Suc (length rest))\<rparr>) else None) \<and>
          ring_inv r' \<and> queue r' = rest \<and> event_fd r' = event_fd r \<and> lost r' = lost r \<and>
          dropped r' = dropped r + of_nat (count r - Suc (length rest))"
proof (cases "dropWhile (oversize (length buffer)) (queue r)")
  case Nil
  show ?thesis
    using pop_locked_spec [OF assms, of buffer w] unfolding oversize_def [symmetric] Nil list.case
    by (auto simp: au_ring_pop_def)
next
  case (Cons x rest)
  obtain a d where x: "x = (a, d)" by (cases x)
  show ?thesis
    using pop_locked_spec [OF assms, of buffer w] unfolding oversize_def [symmetric] Cons x
    by (auto simp: au_ring_pop_def)
qed

theorem au_ring_pop_witness:
  "\<exists>r' m. au_ring_pop (Some demo_ring) [0, 0, 0] True = Some (1, Some r', [1, 0, 0], Some m) \<and>
     ring_inv r' \<and> map snd (queue r') = [[2]]"
proof -
  have q: "queue demo_ring = [(\<lparr>pts_us = 10, m_sequence = 0, is_idr = True, discontinuity = False,
      m_size = 1\<rparr>, [1]), (\<lparr>pts_us = 20, m_sequence = 1, is_idr = False, discontinuity = False,
      m_size = 1\<rparr>, [2])]"
    by code_simp
  show ?thesis
    using au_ring_pop_correct [OF demo_ring_inv, of "[0, 0, 0]" True] q by auto
qed

text \<open>
  Freshness over completeness. After any number of pushes into a new ring, it holds
  exactly the last \<open>slots\<close> access units pushed, in order and byte for byte.
\<close>

theorem au_ring_keeps_newest:
  assumes "0 < capacity" "0 < slots" "capacity * slots < 2 ^ 64"
    and "\<forall>(data, pts, idr) \<in> set aus. data \<noteq> [] \<and> length data \<le> capacity"
  shows "\<exists>r. au_ring_create junk True efd_ok capacity slots = Some r \<and>
     ring_contents (foldl ring_push r aus) = drop (length aus - slots) aus"
proof -
  obtain r where r: "au_ring_create junk True efd_ok capacity slots = Some r"
    "slot_capacity r = capacity" "slot_count r = slots"
    using assms(1,2) by (simp add: au_ring_create_def)
  have "ring_inv r" "queue r = []" using ring_inv_create [OF assms(3) r(1)] by auto
  moreover have "\<forall>x \<in> set aus. ring_fits r x"
    using assms(4) r(2) by (auto simp: ring_fits_def)
  ultimately show ?thesis
    using r au.push_all [of r aus] by (simp add: ring_contents_def)
qed

theorem au_ring_keeps_newest_witness:
  "\<exists>r. au_ring_create (\<lambda>_. 0) True True 4 2 = Some r \<and>
     ring_contents (foldl ring_push r [([1], 10, True), ([2, 3], 20, False), ([4], 30, False)])
       = [([2, 3], 20, False), ([4], 30, False)]"
  using au_ring_keeps_newest [of 4 2 "[([1], 10, True), ([2, 3], 20, False), ([4], 30, False)]"
      "\<lambda>_. 0" True] by simp

text \<open>
  C38: no wakeup is lost. In every interleaving of the producer and the consumer that starts
  from a new ring, a pop is memory safe and, whenever access units are waiting, either the
  eventfd is readable or the producer is about to signal it.
\<close>

theorem au_ring_no_lost_wakeup:
  assumes "au_ring_create junk mem_ok efd_ok capacity slots = Some r0" "capacity * slots < 2 ^ 64"
    and "ring_reach r0 s" "event_fd (ring s) = Some n" "0 < count (ring s)"
  shows "(n \<noteq> 0 \<or> unsignalled s) \<and> pop_locked (ring s) buffer w \<noteq> None"
proof -
  have wake: "wake_inv s" using ring_reach_wake assms(1-3) by blast
  then have "ring_inv (ring s)" by (simp add: wake_inv_def)
  from pop_locked_spec [OF this, of buffer w]
  have "pop_locked (ring s) buffer w \<noteq> None" by (auto split: list.splits)
  with wake assms(4,5) show ?thesis by (auto simp: wake_inv_def)
qed

definition demo_sys :: ring_sys where
  "demo_sys = \<lparr>ring = \<lparr>backing = [9, 0], meta = [\<lparr>pts_us = 5, m_sequence = 0, is_idr = True,
       discontinuity = False, m_size = 1\<rparr>, zero_meta],
     slot_capacity = 1, slot_count = 2, head = 0, tail = 1, count = 1, lost = False,
     sequence = 1, dropped = 0, event_fd = Some 0\<rparr>, unsignalled = True\<rparr>"

theorem au_ring_no_lost_wakeup_witness:
  "\<exists>r0. au_ring_create (\<lambda>_. 0) True True 1 2 = Some r0 \<and> ring_reach r0 demo_sys \<and>
     unsignalled demo_sys"
proof -
  define r0 where "r0 = \<lparr>backing = [0, 0], meta = [zero_meta, zero_meta], slot_capacity = 1,
     slot_count = 2, head = 0, tail = 0, count = 0, lost = False, sequence = 0, dropped = 0,
     event_fd = Some (0 :: u64)\<rparr>"
  have "map (\<lambda>_. 0 :: u8) [0..<2] = [0, 0]" "replicate 2 zero_meta = [zero_meta, zero_meta]"
    by (simp_all add: upt_rec numeral_2_eq_2)
  then have cr: "au_ring_create (\<lambda>_. 0) True True 1 2 = Some r0"
    by (simp add: au_ring_create_def r0_def)
  have "push_locked r0 [9] 5 True = Some (0, ring demo_sys)"
    by (simp add: r0_def push_locked_def overwrite_oldest_def write_slot_def demo_sys_def)
  then have "ring_step \<lparr>ring = r0, unsignalled = False\<rparr> \<lparr>ring = ring demo_sys, unsignalled = True\<rparr>"
    by (intro ring_step.push [where data = "[9]" and pts = 5 and idr = True]) auto
  then have reach: "ring_reach r0 demo_sys"
    using ring_reach.step [OF ring_reach.init] by (simp add: demo_sys_def)
  have "event_fd (ring demo_sys) = Some 0" "0 < count (ring demo_sys)"
    by (simp_all add: demo_sys_def)
  from au_ring_no_lost_wakeup [OF cr _ reach this, of "[]" True] cr reach show ?thesis by auto
qed

text \<open>
  Every access unit is accounted for. After any sequence of pushes and pops on a new
  ring, no memory fault has occurred and the non-empty units pushed are those delivered,
  those counted in \<open>dropped\<close> and those still queued (the counter is 64 bits wide).
\<close>

theorem au_ring_accounting:
  assumes "au_ring_create junk mem_ok efd_ok capacity slots = Some r0" "capacity * slots < 2 ^ 64"
  shows "\<exists>r pushed delivered. run_ops ops (r0, 0, 0) = Some (r, pushed, delivered) \<and>
     of_nat pushed = of_nat delivered + au_ring_dropped (Some r) + of_nat (length (queue r))"
proof -
  have "balanced (r0, 0, 0)"
    using ring_inv_create [OF assms(2,1)] assms(1)
    by (auto simp: balanced_def au_ring_create_def split: if_splits)
  from run_ops_balanced [OF this, of ops] show ?thesis
    by (auto simp: balanced_def au_ring_dropped_def)
qed

theorem au_ring_accounting_witness:
  "\<exists>r0 r pushed delivered. au_ring_create (\<lambda>_. 0) True True 2 1 = Some r0 \<and>
     run_ops [Push [1] 1 True, Push [2, 3, 4] 2 False, Push [5] 3 False, Pop 4] (r0, 0, 0)
       = Some (r, pushed, delivered) \<and>
     of_nat pushed = of_nat delivered + au_ring_dropped (Some r) + of_nat (length (queue r))"
proof -
  obtain r0 where r0: "au_ring_create (\<lambda>_. 0) True True 2 1 = Some r0"
    by (simp add: au_ring_create_def)
  show ?thesis
    using au_ring_accounting [OF r0, of "[Push [1] 1 True, Push [2, 3, 4] 2 False, Push [5] 3 False, Pop 4]"]
      r0 by auto
qed

text \<open>
  Where an overwrite is flagged. When a push into a full ring of at least two slots
  discards the oldest access unit, the unit that is delivered next, the successor of the
  lost one, keeps its flag as it was; the discontinuity is set on the unit just pushed,
  behind every unit that was already queued.
\<close>

theorem au_ring_overwrite_flags_newest:
  assumes "ring_inv r" "count r = slot_count r" "2 \<le> slot_count r"
    and "data \<noteq> []" "length data \<le> slot_capacity r"
  shows "\<exists>r'. au_ring_push (Some r) (Some data) pts idr = Some (0, Some r') \<and>
     hd (queue r') = queue r ! 1 \<and> discontinuity (fst (last (queue r')))"
proof -
  obtain r' where r': "au_ring_push (Some r) (Some data) pts idr = Some (0, Some r')"
    "queue r' = tl (queue r) @ [(new_meta (overwrite_oldest r) data pts idr, data)]"
    using push_fits_queue [OF assms(1,4,5), of pts idr] assms(2) by auto
  have "length (queue r) \<ge> 2" using assms(2,3) by simp
  then obtain a b q where "queue r = a # b # q"
    by (metis Suc_le_length_iff numeral_2_eq_2)
  moreover have "lost (overwrite_oldest r)" using overwrite_oldest_spec [OF assms(1)] assms(2) by simp
  ultimately show ?thesis using r' by (simp add: new_meta_def)
qed

theorem au_ring_overwrite_flags_newest_witness:
  "\<exists>r'. au_ring_push (Some demo_ring) (Some [7]) 30 False = Some (0, Some r') \<and>
     \<not> discontinuity (fst (hd (queue r'))) \<and> discontinuity (fst (last (queue r')))"
proof -
  have q: "queue demo_ring ! 1 = (\<lparr>pts_us = 20, m_sequence = 1, is_idr = False,
      discontinuity = False, m_size = 1\<rparr>, [2])"
    by code_simp
  show ?thesis
    using au_ring_overwrite_flags_newest [OF demo_ring_inv, of "[7]" 30 False] q
    by (auto simp: demo_ring_def)
qed

end
