(* ===== verification/Encoder_Worker.thy ===== *)
theory Encoder_Worker
  imports Frame_Hub Yuv_Convert H264_Bitstream Au_Ring
begin

text \<open>
  The encode worker (\<open>src/src/media/encoder_worker.c\<close>): it takes raw frames from the hub,
  converts them, has them encoded, completes keyframes with the cached parameter sets and pushes
  the access units into the ring. One turn of the thread's loop is a function of the state; what
  the encoder backend answers, the clock, and what the other threads do while the worker waits
  and while it encodes are given by a \<open>Turn\<close>.
\<close>

section \<open>State\<close>

definition AU_SCRATCH_CAPACITY :: nat where "AU_SCRATCH_CAPACITY = 512 * 1024"
definition AU_FIXUP_CAPACITY :: nat where "AU_FIXUP_CAPACITY = AU_SCRATCH_CAPACITY + 2 * H264_PARAM_MAX"
definition ENCODE_SCRATCH_MAX :: nat where "ENCODE_SCRATCH_MAX = 4096 * 4096 * 3 div 2"
definition STALL_WATCHDOG_FRAMES :: u64 where "STALL_WATCHDOG_FRAMES = 90"
definition STALL_FATAL_MS :: u64 where "STALL_FATAL_MS = 10000"
definition V4L2_PIX_FMT_YUYV :: u32 where "V4L2_PIX_FMT_YUYV = 0x56595559"

record EncoderWorker =
  w_hub :: FrameHub
  w_consumer :: "nat option"
  w_ring :: AuRing
  w_force_idr :: bool
  w_active :: "bool option"
  w_width :: u32
  w_height :: u32
  w_i420 :: bytes
  w_au_buffer :: bytes
  w_au_fixup :: bytes
  w_params :: H264ParamCache
  w_running :: bool
  w_started :: bool
  frames_in :: u64
  frames_encoded :: u64
  skipped_idle :: u64
  skipped_mismatch :: u64
  skipped_bad_size :: u64
  no_output :: u64
  keyframes :: u64
  params_prepended :: u64
  w_failed :: bool
  pending_bitrate_kbps :: u32
  applied_bitrate_kbps :: u32

text \<open>The local variables of the thread.\<close>

record Locals =
  was_active :: bool
  stall_warned :: bool
  mismatch_logged :: bool
  bad_size_logged :: bool
  ring_full_logged :: bool
  last_encode_at_seen :: u64
  last_output_ms :: u64

text \<open>
  One turn: the wake-ups while it waits for a frame, whether the encoder accepts a bitrate, the
  two readings of the clock, the answer of the encoder (its return value, the access unit and its
  timestamp), and what the other threads do to the shared state during the encoder call.
\<close>

record Turn =
  t_wakes :: "(bool \<times> FrameHub) list"
  t_bitrate_ok :: bool
  t_before_ms :: u64
  t_result :: int
  t_au :: bytes
  t_pts :: u64
  t_during :: "EncoderWorker \<Rightarrow> EncoderWorker"
  t_after_ms :: u64

section \<open>Operations\<close>

text \<open>The access unit to send and whether it is an IDR, or nothing.\<close>

definition finish_access_unit :: "EncoderWorker \<Rightarrow> nat \<Rightarrow> (EncoderWorker \<times> (bytes \<times> bool) option) option" where
  "finish_access_unit w au_size = do {
     d \<leftarrow> rd_range (w_au_buffer w) 0 au_size;
     info \<leftarrow> h264_au_scan (Some d);
     params \<leftarrow> (if has_sps info \<or> has_pps info then h264_param_cache_update (Some (w_params w)) (Some d) else Some (Some (w_params w)));
     params \<leftarrow> params;
     let w = w\<lparr>w_params := params\<rparr>;
     if \<not> has_slice info then Some (w, None)
     else if has_idr info \<and> \<not> (has_sps info \<and> has_pps info) then do {
       (fixed, out) \<leftarrow> h264_prepend_params (Some params) d (w_au_fixup w);
       let w = w\<lparr>w_au_fixup := out\<rparr>;
       if fixed > 0 then do {
         au \<leftarrow> rd_range out 0 fixed;
         Some (w\<lparr>params_prepended := params_prepended w + 1\<rparr>, Some (au, True)) }
       else Some (w, Some (d, True)) }
     else Some (w, Some (d, has_idr info)) }"

definition release :: "EncoderWorker \<Rightarrow> nat \<Rightarrow> EncoderWorker option" where
  "release w i = do { p \<leftarrow> pool_unref (pool (w_hub w)) i; Some (w\<lparr>w_hub := (w_hub w)\<lparr>pool := p\<rparr>\<rparr>) }"

definition apply_bitrate :: "bool \<Rightarrow> EncoderWorker \<Rightarrow> EncoderWorker" where
  "apply_bitrate accepted w =
     (let kbps = pending_bitrate_kbps w; w = w\<lparr>pending_bitrate_kbps := 0\<rparr> in
      if kbps \<noteq> 0 \<and> accepted then w\<lparr>applied_bitrate_kbps := kbps\<rparr> else w)"

text \<open>The memory of a pooled frame.\<close>

definition frame_memory :: "FramePool \<Rightarrow> Frame \<Rightarrow> bytes" where
  "frame_memory p f = take (capacity p) (drop (data f) (FramePool.backing p))"

text \<open>
  The three planes the encoder reads, and the scratch picture behind the conversion; \<open>None\<close>
  inside: the frame is too small. The encoder reads \<open>width * height\<close> bytes of luma and a quarter
  of that, rounded down in each direction, of either chroma plane.
\<close>

type_synonym picture = "bytes \<times> bytes \<times> bytes"

definition read_planes :: "nat \<Rightarrow> nat \<Rightarrow> bytes \<Rightarrow> bytes \<Rightarrow> bytes \<Rightarrow> picture option" where
  "read_planes w h y u v = do {
     y \<leftarrow> rd_range y 0 (w * h);
     u \<leftarrow> rd_range u 0 (w div 2 * (h div 2));
     v \<leftarrow> rd_range v 0 (w div 2 * (h div 2));
     Some (y, u, v) }"

definition scratch_planes :: "nat \<Rightarrow> bytes \<Rightarrow> picture" where
  "scratch_planes luma b = (take luma b, take (luma div 4) (drop luma b), drop (luma + luma div 4) b)"

definition min_stride :: "u32 \<Rightarrow> Frame \<Rightarrow> u32" where
  "min_stride w f = (if format f = V4L2_PIX_FMT_YUYV then w * 2 else w)"

definition row_bytes :: "u32 \<Rightarrow> Frame \<Rightarrow> nat" where
  "row_bytes w f = unat (if stride f \<noteq> 0 then stride f else min_stride w f)"

definition convert_frame :: "EncoderWorker \<Rightarrow> FramePool \<Rightarrow> Frame \<Rightarrow> (picture \<times> bytes) option option" where
  "convert_frame wk p f =
     (let w = unat (w_width wk); h = unat (w_height wk); luma = w * h; src = frame_memory p f in
      if f_size f = 0 \<or> f_size f < row_bytes (w_width wk) f * h then Some None
      else if format f = V4L2_PIX_FMT_YUYV then
        (case scratch_planes luma (w_i420 wk) of (y, u, v) \<Rightarrow> do {
           (y, u, v) \<leftarrow> yuyv_to_i420 src (unat (if stride f \<noteq> 0 then stride f else Frame.width f * 2)) y u v w h;
           pic \<leftarrow> read_planes w h y u v;
           Some (Some (pic, y @ u @ v)) })
      else
        (let y_stride = row_bytes (w_width wk) f; chroma_plane = y_stride div 2 * (h div 2);
             needed = y_stride * h + 2 * chroma_plane in
         if f_size f < needed then Some None
         else
           (let src_u = drop (y_stride * h) src; src_v = drop (y_stride * h + chroma_plane) src in
            if y_stride = w then do {
              pic \<leftarrow> read_planes w h src src_u src_v;
              Some (Some (pic, w_i420 wk)) }
            else (case scratch_planes luma (w_i420 wk) of (y, u, v) \<Rightarrow> do {
              (y, u, v) \<leftarrow> i420_copy src y_stride src_u src_v y u v w h;
              pic \<leftarrow> read_planes w h y u v;
              Some (Some (pic, y @ u @ v)) }))))"

text \<open>What the encoder was asked to do.\<close>

record EncodeCall =
  e_picture :: picture
  e_pts :: u64
  e_force :: bool

datatype Before =
    Skip EncoderWorker Locals
  | Encode EncoderWorker Locals nat EncodeCall

text \<open>The loop body up to the encoder call, from the frame that was taken.\<close>

definition rearm :: "u64 \<Rightarrow> bool \<Rightarrow> u64 \<Rightarrow> Locals \<Rightarrow> Locals" where
  "rearm n act ms l =
     (let l = (if act \<and> \<not> was_active l then l\<lparr>stall_warned := False, last_encode_at_seen := n, last_output_ms := ms\<rparr> else l)
      in l\<lparr>was_active := act\<rparr>)"

definition watchdog :: "u64 \<Rightarrow> Locals \<Rightarrow> Locals" where
  "watchdog n l = (if \<not> stall_warned l \<and> n - last_encode_at_seen l \<ge> STALL_WATCHDOG_FRAMES then l\<lparr>stall_warned := True\<rparr> else l)"

definition before_encode :: "bool \<Rightarrow> u64 \<Rightarrow> nat \<Rightarrow> EncoderWorker \<Rightarrow> Locals \<Rightarrow> Before option" where
  "before_encode accepted ms i w l = do {
     let w = w\<lparr>frames_in := frames_in w + 1\<rparr>;
     let n = frames_in w;
     let w = apply_bitrate accepted w;
     let act = (case w_active w of None \<Rightarrow> False | Some a \<Rightarrow> a);
     let l = rearm n act ms l;
     if \<not> act then do {
       w \<leftarrow> release (w\<lparr>skipped_idle := skipped_idle w + 1\<rparr>) i;
       Some (Skip w l) }
     else do {
       let l = watchdog n l;
       f \<leftarrow> rd (frames (pool (w_hub w))) i;
       if Frame.width f \<noteq> w_width w \<or> Frame.height f \<noteq> w_height w then do {
         w \<leftarrow> release (w\<lparr>skipped_mismatch := skipped_mismatch w + 1\<rparr>) i;
         Some (Skip w (l\<lparr>mismatch_logged := True\<rparr>)) }
       else do {
         converted \<leftarrow> convert_frame w (pool (w_hub w)) f;
         case converted of
           None \<Rightarrow> do {
             w \<leftarrow> release (w\<lparr>skipped_bad_size := skipped_bad_size w + 1\<rparr>) i;
             Some (Skip w (l\<lparr>bad_size_logged := True\<rparr>)) }
         | Some (pic, scratch) \<Rightarrow>
             Some (Encode (w\<lparr>w_i420 := scratch, w_force_idr := False\<rparr>) l i
               \<lparr>e_picture = pic, e_pts = timestamp_us f, e_force = w_force_idr w\<rparr>) } } }"

text \<open>The rest of the loop body; the flag says whether the loop goes on.\<close>

definition after_encode :: "Turn \<Rightarrow> bool \<Rightarrow> EncoderWorker \<Rightarrow> Locals \<Rightarrow> (EncoderWorker \<times> Locals \<times> bool) option" where
  "after_encode t force w l =
     (if t_result t < 0 then Some (w\<lparr>w_failed := True\<rparr>, l, False)
      else do {
        (w, out) \<leftarrow> (if t_result t = 0 then Some (w, None) else finish_access_unit w (length (t_au t)));
        case out of
          None \<Rightarrow>
            (let w = w\<lparr>no_output := no_output w + 1\<rparr>;
                 w = (if force then w\<lparr>w_force_idr := True\<rparr> else w) in
             if last_output_ms l \<noteq> 0 \<and> t_after_ms t - last_output_ms l > STALL_FATAL_MS
             then Some (w\<lparr>w_failed := True\<rparr>, l, False)
             else Some (w, l, True))
        | Some (au, idr) \<Rightarrow> do {
            let w = w\<lparr>frames_encoded := frames_encoded w + 1\<rparr>;
            let l = l\<lparr>last_encode_at_seen := frames_in w, last_output_ms := t_after_ms t, stall_warned := False\<rparr>;
            let w = (if idr then w\<lparr>keyframes := keyframes w + 1, w_force_idr := False\<rparr>
                     else if force then w\<lparr>w_force_idr := True\<rparr> else w);
            (rc, ring) \<leftarrow> au_ring_push (Some (w_ring w)) (Some au) (t_pts t) idr;
            ring \<leftarrow> ring;
            let w = w\<lparr>w_ring := ring\<rparr>;
            if rc \<noteq> 0 then Some (w\<lparr>w_force_idr := True\<rparr>, l\<lparr>ring_full_logged := True\<rparr>, True)
            else Some (w, l, True) } })"

definition encode_turn :: "Turn \<Rightarrow> EncoderWorker \<Rightarrow> Locals \<Rightarrow> (EncoderWorker \<times> Locals \<times> bool) option" where
  "encode_turn t w l = do {
     (frame, hub) \<leftarrow> frame_hub_take_wait (w_consumer w) (w_hub w) (t_wakes t);
     let w = w\<lparr>w_hub := hub\<rparr>;
     case frame of
       None \<Rightarrow> Some (w, l, True)
     | Some i \<Rightarrow> do {
         b \<leftarrow> before_encode (t_bitrate_ok t) (t_before_ms t) i w l;
         case b of
           Skip w l \<Rightarrow> Some (w, l, True)
         | Encode w l i call \<Rightarrow> do {
             buf \<leftarrow> (if t_result t > 0 then memcpy_to (w_au_buffer w) 0 (t_au t) else Some (w_au_buffer w));
             let w = t_during t (w\<lparr>w_au_buffer := buf\<rparr>);
             w \<leftarrow> release w i;
             after_encode t (e_force call) w l } } }"

fun encoder_loop :: "Turn list \<Rightarrow> EncoderWorker \<Rightarrow> Locals \<Rightarrow> (EncoderWorker \<times> Locals) option" where
  "encoder_loop [] w l = Some (w, l)"
| "encoder_loop (t # ts) w l =
     (if \<not> w_running w then Some (w, l)
      else do {
        (w, l, go_on) \<leftarrow> encode_turn t w l;
        if go_on then encoder_loop ts w l else Some (w, l) })"

definition fresh_locals :: Locals where
  "fresh_locals = \<lparr>was_active = False, stall_warned = False, mismatch_logged = False, bad_size_logged = False,
     ring_full_logged = False, last_encode_at_seen = 0, last_output_ms = 0\<rparr>"

definition encoder_thread :: "Turn list \<Rightarrow> EncoderWorker \<Rightarrow> EncoderWorker option" where
  "encoder_thread turns w = map_option fst (encoder_loop turns w fresh_locals)"

text \<open>
  Creation: \<open>mem\<close> is the address of the consumer object or \<open>NULL\<close>, the four flags are the outcomes of
  the other allocations, \<open>junk\<close> what fresh memory holds. The size is a \<open>size_t\<close> product.
\<close>

definition i420_size :: "u32 \<Rightarrow> u32 \<Rightarrow> nat" where
  "i420_size w h = (unat w * unat h * 3 mod 2 ^ 64) div 2"

definition encoder_worker_create ::
  "bool \<Rightarrow> nat option \<Rightarrow> bool \<Rightarrow> bool \<Rightarrow> bool \<Rightarrow> (nat \<Rightarrow> u8) \<Rightarrow> FrameHub \<Rightarrow> u32 \<Rightarrow> u32 \<Rightarrow> AuRing \<Rightarrow> bool \<Rightarrow> bool option
     \<Rightarrow> (EncoderWorker + FrameHub) option" where
  "encoder_worker_create worker_ok mem i420_ok au_ok fixup_ok junk hub w h au_ring force act =
     (if \<not> worker_ok then Some (Inr hub)
      else
        (case frame_hub_subscribe (Some hub) mem of
           (consumer, hub') \<Rightarrow> do {
             hub' \<leftarrow> hub';
             if i420_size w h > ENCODE_SCRATCH_MAX \<or> consumer = None \<or> \<not> i420_ok \<or> \<not> au_ok \<or> \<not> fixup_ok
             then (if consumer \<noteq> None
                   then do { hub'' \<leftarrow> frame_hub_unsubscribe (Some hub') consumer; hub'' \<leftarrow> hub''; Some (Inr hub'') }
                   else Some (Inr hub'))
             else Some (Inl \<lparr>w_hub = hub', w_consumer = consumer, w_ring = au_ring, w_force_idr = force, w_active = act,
               w_width = w, w_height = h, w_i420 = map junk [0..<i420_size w h], w_au_buffer = map junk [0..<AU_SCRATCH_CAPACITY],
               w_au_fixup = map junk [0..<AU_FIXUP_CAPACITY], w_params = empty_cache, w_running = True, w_started = False,
               frames_in = 0, frames_encoded = 0, skipped_idle = 0, skipped_mismatch = 0, skipped_bad_size = 0, no_output = 0,
               keyframes = 0, params_prepended = 0, w_failed = False, pending_bitrate_kbps = 0, applied_bitrate_kbps = 0\<rparr>) }))"

definition encoder_worker_start :: "bool \<Rightarrow> EncoderWorker option \<Rightarrow> int \<times> EncoderWorker option" where
  "encoder_worker_start thread_ok worker = (case worker of
       None \<Rightarrow> (-1, None)
     | Some w \<Rightarrow> if \<not> thread_ok then (-1, Some w) else (0, Some (w\<lparr>w_started := True\<rparr>)))"

definition encoder_worker_stop :: "EncoderWorker option \<Rightarrow> EncoderWorker option" where
  "encoder_worker_stop worker = map_option (\<lambda>w. w\<lparr>w_running := False\<rparr>) worker"

text \<open>Joining waits for the thread, which has the rest of its turns.\<close>

definition encoder_worker_join :: "Turn list \<Rightarrow> EncoderWorker option \<Rightarrow> EncoderWorker option option" where
  "encoder_worker_join turns worker = (case worker of
       None \<Rightarrow> Some None
     | Some w \<Rightarrow> if w_started w then do { w \<leftarrow> encoder_thread turns w; Some (Some (w\<lparr>w_started := False\<rparr>)) } else Some (Some w))"

definition encoder_worker_request_bitrate :: "EncoderWorker option \<Rightarrow> u32 \<Rightarrow> int \<times> EncoderWorker option" where
  "encoder_worker_request_bitrate worker kbps = (case worker of
       None \<Rightarrow> (-1, None)
     | Some w \<Rightarrow> if kbps = 0 then (-1, Some w) else (0, Some (w\<lparr>pending_bitrate_kbps := kbps\<rparr>)))"

definition encoder_worker_bitrate_kbps :: "EncoderWorker option \<Rightarrow> u32" where
  "encoder_worker_bitrate_kbps worker = (case worker of None \<Rightarrow> 0 | Some w \<Rightarrow> applied_bitrate_kbps w)"

definition encoder_worker_frames_encoded :: "EncoderWorker option \<Rightarrow> u64" where
  "encoder_worker_frames_encoded worker = (case worker of None \<Rightarrow> 0 | Some w \<Rightarrow> frames_encoded w)"

record EncoderWorkerStats =
  st_frames_seen :: u64
  st_frames_encoded :: u64
  st_skipped_idle :: u64
  st_skipped_mismatch :: u64
  st_skipped_bad_size :: u64
  st_no_output :: u64
  st_keyframes :: u64
  st_params_prepended :: u64

definition encoder_worker_get_stats :: "EncoderWorker option \<Rightarrow> EncoderWorkerStats" where
  "encoder_worker_get_stats worker = (case worker of
       None \<Rightarrow> \<lparr>st_frames_seen = 0, st_frames_encoded = 0, st_skipped_idle = 0, st_skipped_mismatch = 0,
         st_skipped_bad_size = 0, st_no_output = 0, st_keyframes = 0, st_params_prepended = 0\<rparr>
     | Some w \<Rightarrow> \<lparr>st_frames_seen = frames_in w, st_frames_encoded = frames_encoded w, st_skipped_idle = skipped_idle w,
         st_skipped_mismatch = skipped_mismatch w, st_skipped_bad_size = skipped_bad_size w, st_no_output = no_output w,
         st_keyframes = keyframes w, st_params_prepended = params_prepended w\<rparr>)"

definition encoder_worker_failed :: "EncoderWorker option \<Rightarrow> bool" where
  "encoder_worker_failed worker = (case worker of None \<Rightarrow> False | Some w \<Rightarrow> w_failed w)"

text \<open>The hub behind the destruction; the rest of the worker is freed.\<close>

definition encoder_worker_destroy :: "Turn list \<Rightarrow> EncoderWorker option \<Rightarrow> FrameHub option option" where
  "encoder_worker_destroy turns worker = do {
     joined \<leftarrow> encoder_worker_join turns worker;
     case joined of
       None \<Rightarrow> Some None
     | Some w \<Rightarrow> frame_hub_unsubscribe (Some (w_hub w)) (w_consumer w) }"

section \<open>Access units\<close>

lemma latest_unchanged: "t \<notin> (\<lambda>n. nal_type (hd n)) ` set ns \<Longrightarrow> latest t ns c = c"
  by (induction ns arbitrary: c) auto

text \<open>The parameter sets known behind an encoder output, and what is sent for it.\<close>

definition self_contained :: "bytes \<Rightarrow> bool" where
  "self_contained au \<longleftrightarrow> H264_NAL_SPS \<in> set (nal_types au) \<and> H264_NAL_PPS \<in> set (nal_types au)"

definition has_picture :: "bytes \<Rightarrow> bool" where
  "has_picture d \<longleftrightarrow> (\<exists>t \<in> set (nal_types d). 1 \<le> t \<and> t \<le> 5)"

definition keyframe :: "bytes \<Rightarrow> bool" where
  "keyframe d \<longleftrightarrow> H264_NAL_IDR \<in> set (nal_types d)"

definition to_send :: "bytes \<Rightarrow> bytes \<Rightarrow> bytes \<Rightarrow> bytes" where
  "to_send s p d = (if keyframe d \<and> \<not> self_contained d \<and> s \<noteq> [] \<and> p \<noteq> [] then s @ p @ d else d)"

text \<open>\<open>finished w w'\<close>: only the cached sets, the fix-up buffer and its counter differ.\<close>

definition finished :: "EncoderWorker \<Rightarrow> EncoderWorker \<Rightarrow> bool" where
  "finished w w' \<longleftrightarrow> (\<exists>c fx n. w' = w\<lparr>w_params := c, w_au_fixup := fx, params_prepended := n\<rparr> \<and>
     cache_ok c \<and> length fx = length (w_au_fixup w))"

lemma finishedI: "cache_ok c \<Longrightarrow> length fx = length (w_au_fixup w) \<Longrightarrow> w' = w\<lparr>w_params := c, w_au_fixup := fx, params_prepended := n\<rparr> \<Longrightarrow> finished w w'"
  unfolding finished_def by blast

lemma cached_empty: "cache_ok c \<Longrightarrow> cached_sps c = [] \<longleftrightarrow> sps_length c = 0" "cache_ok c \<Longrightarrow> cached_pps c = [] \<longleftrightarrow> pps_length c = 0"
  by (auto simp: cache_ok_def slot_ok_def cached_sps_def cached_pps_def)

lemma cached_length: "cache_ok c \<Longrightarrow> sps_length c + pps_length c \<le> 2 * H264_PARAM_MAX"
  by (auto simp: cache_ok_def slot_ok_def)

lemma update_params:
  assumes "cache_ok c"
  obtains c' where
    "(if has_sps (summary (nal_types d)) \<or> has_pps (summary (nal_types d)) then h264_param_cache_update (Some c) (Some d) else Some (Some c)) = Some (Some c')"
    "cache_ok c'" "cached_sps c' = latest H264_NAL_SPS (real_nals d) (cached_sps c)"
    "cached_pps c' = latest H264_NAL_PPS (real_nals d) (cached_pps c)"
proof (cases "has_sps (summary (nal_types d)) \<or> has_pps (summary (nal_types d))")
  case True
  obtain c' where "h264_param_cache_update (Some c) (Some d) = Some (Some c')" "cache_ok c'"
    "cached_sps c' = latest H264_NAL_SPS (real_nals d) (cached_sps c)" "cached_pps c' = latest H264_NAL_PPS (real_nals d) (cached_pps c)"
    using cache_fold_spec [OF assms, of "real_nals d"] real_nals_ok
    by (auto simp: h264_param_cache_update_def cache_update_loop_spec)
  then show ?thesis using that True by simp
next
  case False
  then have "latest t (real_nals d) c = c" if "t = 7 \<or> t = 8" for t c
    using that by (intro latest_unchanged) (auto simp: summary_def)
  then show ?thesis using that [of c] False assms by (simp add: nal_type_defs)
qed

lemma finish_access_unit_spec:
  assumes "cache_ok (w_params w)" "length (w_au_buffer w) = AU_SCRATCH_CAPACITY" "length (w_au_fixup w) = AU_FIXUP_CAPACITY"
    "n \<le> AU_SCRATCH_CAPACITY"
  defines "d \<equiv> take n (w_au_buffer w)"
  defines "s \<equiv> latest H264_NAL_SPS (real_nals d) (cached_sps (w_params w))"
    and "p \<equiv> latest H264_NAL_PPS (real_nals d) (cached_pps (w_params w))"
  obtains w' where "finish_access_unit w n = Some (w', if has_picture d then Some (to_send s p d, keyframe d) else None)"
    "finished w w'" "cached_sps (w_params w') = s" "cached_pps (w_params w') = p"
proof -
  let ?i = "summary (nal_types d)"
  obtain c where c: "(if has_sps ?i \<or> has_pps ?i then h264_param_cache_update (Some (w_params w)) (Some d) else Some (Some (w_params w))) = Some (Some c)"
    "cache_ok c" "cached_sps c = s" "cached_pps c = p"
    unfolding s_def p_def by (rule update_params [OF assms(1), of d])
  let ?w = "w\<lparr>w_params := c\<rparr>"
  have d: "rd_range (w_au_buffer w) 0 n = Some d" "length d \<le> AU_SCRATCH_CAPACITY" using assms(2,4) by (simp_all add: d_def)
  have fin: "finished w (w\<lparr>w_params := c, w_au_fixup := fx, params_prepended := k\<rparr>)" if "length fx = length (w_au_fixup w)" for fx k
    using c(2) that by (rule finishedI) simp
  have sets: "has_slice ?i = has_picture d" "has_idr ?i = keyframe d" "(has_sps ?i \<and> has_pps ?i) = self_contained d"
    by (simp_all add: summary_def has_picture_def keyframe_def self_contained_def nal_type_defs)
  have run: "finish_access_unit w n =
     (if \<not> has_picture d then Some (?w, None)
      else if keyframe d \<and> \<not> self_contained d then do {
        (fixed, out) \<leftarrow> h264_prepend_params (Some c) d (w_au_fixup ?w);
        if fixed > 0 then do { au \<leftarrow> rd_range out 0 fixed;
          Some (?w\<lparr>w_au_fixup := out, params_prepended := params_prepended (?w\<lparr>w_au_fixup := out\<rparr>) + 1\<rparr>, Some (au, True)) }
        else Some (?w\<lparr>w_au_fixup := out\<rparr>, Some (d, True)) }
      else Some (?w, Some (d, keyframe d)))"
    unfolding finish_access_unit_def d(1) bind.bind_lunit au_scan_summary c(1) Let_def by (simp add: sets)
  show thesis
  proof (cases "has_picture d \<and> keyframe d \<and> \<not> self_contained d \<and> s \<noteq> [] \<and> p \<noteq> []")
    case True
    have nz: "sps_length c \<noteq> 0" "pps_length c \<noteq> 0" using True cached_empty [OF c(2)] c(3,4) by auto
    have fits: "sps_length c + pps_length c + length d \<le> length (w_au_fixup w)"
      using cached_length [OF c(2)] d(2) assms(3) by (simp add: AU_FIXUP_CAPACITY_def)
    obtain out where out: "h264_prepend_params (Some c) d (w_au_fixup w) = Some (sps_length c + pps_length c + length d, out)"
      "length out = length (w_au_fixup w)" "take (sps_length c + pps_length c + length d) out = s @ p @ d"
      using prepend_params_run [OF c(2) nz fits] c(3,4) by metis
    show thesis
      by (rule that [of "w\<lparr>w_params := c, w_au_fixup := out, params_prepended := params_prepended w + 1\<rparr>"])
        (use True nz out fits fin c(3,4) in \<open>simp_all add: run to_send_def\<close>)
  next
    case False
    have none: "h264_prepend_params (Some c) d (w_au_fixup w) = Some (0, w_au_fixup w)" if "s = [] \<or> p = []"
      using that cached_empty [OF c(2)] c(3,4) by (auto simp: h264_prepend_params_def)
    have "finish_access_unit w n = Some (?w, if has_picture d then Some (to_send s p d, keyframe d) else None)"
    proof (cases "has_picture d \<and> keyframe d \<and> \<not> self_contained d")
      case True
      then have "s = [] \<or> p = []" using False by blast
      then show ?thesis using True none by (auto simp: run to_send_def)
    qed (auto simp: run to_send_def)
    moreover have "finished w ?w" using fin [of "w_au_fixup w" "params_prepended w"] by simp
    ultimately show thesis using that [of ?w] c(3,4) by simp
  qed
qed

lemma to_send_self_contained:
  assumes "cache_ok c" "s = cached_sps c" "p = cached_pps c" "keyframe d" "self_contained d \<or> s \<noteq> [] \<and> p \<noteq> []"
  shows "self_contained (to_send s p d) \<and> keyframe (to_send s p d)"
proof (cases "self_contained d")
  case False
  then have n: "sps_length c \<noteq> 0" "pps_length c \<noteq> 0" using assms cached_empty [OF assms(1)] by auto
  have "nal_types (s @ p @ d) = [H264_NAL_SPS, H264_NAL_PPS] @ nal_types d"
    unfolding assms(2,3) by (rule cached_params_nals [OF assms(1) n, of d]) simp
  then have "set (nal_types (s @ p @ d)) = {H264_NAL_SPS, H264_NAL_PPS} \<union> set (nal_types d)" by (metis list.set(1,2) set_append insert_is_Un)
  moreover have "to_send s p d = s @ p @ d" using False assms(4,5) by (simp add: to_send_def)
  ultimately show ?thesis using assms(4) by (simp add: self_contained_def keyframe_def del: list.set_map)
qed (use assms(4) in \<open>simp add: to_send_def\<close>)

section \<open>Pictures\<close>

text \<open>What the planes of a picture hold, sample by sample, for the two layouts of a frame.\<close>

definition luma_of :: "bool \<Rightarrow> bytes \<Rightarrow> nat \<Rightarrow> nat \<Rightarrow> nat \<Rightarrow> u8" where
  "luma_of yuyv src st w i = src ! (i div w * st + (if yuyv then 2 else 1) * (i mod w))"

definition chroma_of :: "bool \<Rightarrow> bytes \<Rightarrow> nat \<Rightarrow> nat \<Rightarrow> nat \<Rightarrow> bool \<Rightarrow> nat \<Rightarrow> u8" where
  "chroma_of yuyv src st w h is_v i =
     (let cw = w div 2; row = i div cw; col = i mod cw; k = (if is_v then 3 else 1) in
      if yuyv then avg2 (src ! (row * 2 * st + 4 * col + k)) (src ! ((row * 2 + 1) * st + 4 * col + k))
      else src ! (st * h + (if is_v then st div 2 * (h div 2) else 0) + (row * (st div 2) + col)))"

definition picture_of :: "bool \<Rightarrow> bytes \<Rightarrow> nat \<Rightarrow> nat \<Rightarrow> nat \<Rightarrow> picture \<Rightarrow> bool" where
  "picture_of yuyv src st w h pic \<longleftrightarrow>
     (case pic of (y, u, v) \<Rightarrow>
        y = map (luma_of yuyv src st w) [0..<w * h] \<and>
        u = map (chroma_of yuyv src st w h False) [0..<w div 2 * (h div 2)] \<and>
        v = map (chroma_of yuyv src st w h True) [0..<w div 2 * (h div 2)])"

text \<open>The sizes of the worker, and the rows a source promises.\<close>

definition geometry_ok :: "EncoderWorker \<Rightarrow> bool" where
  "geometry_ok w \<longleftrightarrow> 2 \<le> unat (w_width w) \<and> even (unat (w_width w)) \<and> unat (w_width w) < 2 ^ 31 \<and>
     length (w_i420 w) = unat (w_width w) * unat (w_height w) * 3 div 2"

definition rows_ok :: "u32 \<Rightarrow> Frame \<Rightarrow> bool" where
  "rows_ok w f \<longleftrightarrow> stride f = 0 \<or> min_stride w f \<le> stride f"

lemma quarter_product: "(h div 2) * (w div 2) \<le> (w * h) div (4 :: nat)"
proof -
  have "4 * ((h div 2) * (w div 2)) = (2 * (h div 2)) * (2 * (w div 2))" by simp
  also have "\<dots> \<le> h * w" by (intro mult_le_mono) simp_all
  finally show ?thesis by (simp add: mult.commute)
qed

lemma scratch_lengths:
  assumes "geometry_ok wk" "scratch_planes (unat (w_width wk) * unat (w_height wk)) (w_i420 wk) = (y, u, v)"
  defines "w \<equiv> unat (w_width wk)" and "h \<equiv> unat (w_height wk)"
  shows "length y = h * w" "(h div 2) * (w div 2) \<le> length u" "(h div 2) * (w div 2) \<le> length v"
    "length y + length u + length v = length (w_i420 wk)"
proof -
  have l: "length (w_i420 wk) = w * h * 3 div 2" using assms(1) by (simp add: geometry_ok_def w_def h_def)
  have yuv: "y = take (w * h) (w_i420 wk)" "u = take (w * h div 4) (drop (w * h) (w_i420 wk))"
    "v = drop (w * h + w * h div 4) (w_i420 wk)"
    using assms(2) by (simp_all add: scratch_planes_def w_def h_def)
  have a: "w * h + w * h div 4 + w * h div 4 \<le> w * h * 3 div 2" by presburger
  have room: "c \<le> T - k \<and> c \<le> T - (k + q)" if "k + q + q \<le> T" "c \<le> q" for c k q T :: nat using that by linarith
  show "length y = h * w" "length y + length u + length v = length (w_i420 wk)" using l a by (simp_all add: yuv mult.commute)
  show "(h div 2) * (w div 2) \<le> length u" "(h div 2) * (w div 2) \<le> length v"
    using room [OF a quarter_product [of h w]] quarter_product [of h w] l by (simp_all add: yuv)
qed

lemma read_planes_map:
  assumes "w * h \<le> length y" "w div 2 * (h div 2) \<le> length u" "w div 2 * (h div 2) \<le> length v"
    "\<And>i. i < w * h \<Longrightarrow> y ! i = luma_of b src st w i"
    "\<And>i. i < w div 2 * (h div 2) \<Longrightarrow> u ! i = chroma_of b src st w h False i"
    "\<And>i. i < w div 2 * (h div 2) \<Longrightarrow> v ! i = chroma_of b src st w h True i"
  shows "\<exists>pic. read_planes w h y u v = Some pic \<and> picture_of b src st w h pic"
proof -
  have "take n xs = map f [0..<n]" if "n \<le> length xs" "\<And>i. i < n \<Longrightarrow> xs ! i = f i" for n and xs :: bytes and f
    using that by (intro nth_equalityI) simp_all
  then show ?thesis using assms by (simp add: read_planes_def picture_of_def)
qed

text \<open>The conversion of a frame: dropped exactly when it is too small, else the picture it shows.\<close>

definition bytes_needed :: "EncoderWorker \<Rightarrow> Frame \<Rightarrow> nat" where
  "bytes_needed wk f =
     (let st = row_bytes (w_width wk) f; h = unat (w_height wk) in
      if format f = V4L2_PIX_FMT_YUYV then st * h else st * h + 2 * (st div 2 * (h div 2)))"

lemma row_bytes_min:
  assumes "geometry_ok wk" "rows_ok (w_width wk) f"
  shows "(if format f = V4L2_PIX_FMT_YUYV then 2 else 1) * unat (w_width wk) \<le> row_bytes (w_width wk) f"
proof -
  have "unat (w_width wk * 2) = 2 * unat (w_width wk)"
    using assms(1) by (simp add: geometry_ok_def unat_word_ariths)
  then show ?thesis using assms(2) by (auto simp: rows_ok_def row_bytes_def min_stride_def word_le_nat_alt)
qed

lemma convert_yuyv:
  assumes "geometry_ok wk" "rows_ok (w_width wk) f" "Frame.width f = w_width wk" "format f = V4L2_PIX_FMT_YUYV"
    "f_size f \<noteq> 0" "bytes_needed wk f \<le> f_size f" "f_size f \<le> length (frame_memory p f)"
  shows "\<exists>pic b. convert_frame wk p f = Some (Some (pic, b)) \<and> length b = length (w_i420 wk) \<and>
    picture_of True (frame_memory p f) (row_bytes (w_width wk) f) (unat (w_width wk)) (unat (w_height wk)) pic"
proof -
  let ?w = "unat (w_width wk)" and ?h = "unat (w_height wk)" and ?src = "frame_memory p f" and ?st = "row_bytes (w_width wk) f"
  obtain y u v where yuv: "scratch_planes (?w * ?h) (w_i420 wk) = (y, u, v)" by (metis prod_cases3)
  note len = scratch_lengths [OF assms(1) yuv]
  have w: "2 \<le> ?w" "even ?w" using assms(1) by (simp_all add: geometry_ok_def)
  have st: "4 * (?w div 2) \<le> ?st" using row_bytes_min [OF assms(1,2)] assms(4) by simp
  have size: "?h * ?st \<le> length ?src" "\<not> f_size f < ?st * ?h"
    using assms(4,6,7) by (auto simp: bytes_needed_def Let_def mult.commute)
  have st2: "unat (if stride f \<noteq> 0 then stride f else Frame.width f * 2) = ?st"
    using assms(3,4) by (simp add: row_bytes_def min_stride_def)
  obtain y' u' v' where c: "yuyv_to_i420 ?src ?st y u v ?w ?h = Some (y', u', v')"
    "length y' = length y" "length u' = length u" "length v' = length v"
    "\<forall>i < length y. y' ! i = (if i < ?h * ?w \<and> i mod ?w < 2 * (?w div 2) then ?src ! (i div ?w * ?st + 2 * (i mod ?w)) else y ! i)"
    "\<forall>i < length u. u' ! i = (if i < (?h div 2) * (?w div 2)
       then avg2 (?src ! (i div (?w div 2) * 2 * ?st + 4 * (i mod (?w div 2)) + 1))
                 (?src ! ((i div (?w div 2) * 2 + 1) * ?st + 4 * (i mod (?w div 2)) + 1)) else u ! i)"
    "\<forall>i < length v. v' ! i = (if i < (?h div 2) * (?w div 2)
       then avg2 (?src ! (i div (?w div 2) * 2 * ?st + 4 * (i mod (?w div 2)) + 3))
                 (?src ! ((i div (?w div 2) * 2 + 1) * ?st + 4 * (i mod (?w div 2)) + 3)) else v ! i)"
    using yuyv_planes [OF w(1) st size(1) _ len(2,3), of y] len(1) by auto
  have "i mod ?w < 2 * (?w div 2)" for i using w by simp
  then have "\<exists>pic. read_planes ?w ?h y' u' v' = Some pic \<and> picture_of True ?src ?st ?w ?h pic"
    using c(2-7) len(1-3) by (intro read_planes_map) (auto simp: luma_of_def chroma_of_def Let_def mult.commute)
  then show ?thesis
    using c(1-4) len(4) assms(4,5) size(2) yuv st2 by (auto simp: convert_frame_def Let_def)
qed

lemma convert_planar:
  assumes "geometry_ok wk" "rows_ok (w_width wk) f" "format f \<noteq> V4L2_PIX_FMT_YUYV"
    "f_size f \<noteq> 0" "bytes_needed wk f \<le> f_size f" "f_size f \<le> length (frame_memory p f)"
  shows "\<exists>pic b. convert_frame wk p f = Some (Some (pic, b)) \<and> length b = length (w_i420 wk) \<and>
    picture_of False (frame_memory p f) (row_bytes (w_width wk) f) (unat (w_width wk)) (unat (w_height wk)) pic"
proof -
  let ?w = "unat (w_width wk)" and ?h = "unat (w_height wk)" and ?src = "frame_memory p f" and ?st = "row_bytes (w_width wk) f"
  let ?cp = "?st div 2 * (?h div 2)"
  let ?u = "drop (?st * ?h) ?src" and ?v = "drop (?st * ?h + ?cp) ?src"
  have w: "2 \<le> ?w" "even ?w" using assms(1) by (simp_all add: geometry_ok_def)
  have st: "?w \<le> ?st" using row_bytes_min [OF assms(1,2)] assms(3) by simp
  have need: "?st * ?h + 2 * ?cp \<le> f_size f" using assms(3,5) by (simp add: bytes_needed_def Let_def)
  then have size: "?st * ?h + 2 * ?cp \<le> length ?src" "\<not> f_size f < ?st * ?h" using assms(6) by auto
  have lens: "?st * ?h \<le> length ?src" "?cp \<le> length ?u" "?cp \<le> length ?v" using size(1) by simp_all
  have cm: "?w div 2 * (?h div 2) \<le> ?cp" using st by (intro mult_le_mono1 div_le_mono)
  have run: "convert_frame wk p f = (if ?st = ?w then do { pic \<leftarrow> read_planes ?w ?h ?src ?u ?v; Some (Some (pic, w_i420 wk)) }
      else (case scratch_planes (?w * ?h) (w_i420 wk) of (y, u, v) \<Rightarrow> do {
        (y, u, v) \<leftarrow> i420_copy ?src ?st ?u ?v y u v ?w ?h; pic \<leftarrow> read_planes ?w ?h y u v; Some (Some (pic, y @ u @ v)) }))"
    using assms(3,4) size(2) need by (simp add: convert_frame_def Let_def)
  show ?thesis
  proof (cases "?st = ?w")
    case True
    have "\<exists>pic. read_planes ?w ?h ?src ?u ?v = Some pic \<and> picture_of False ?src ?st ?w ?h pic"
      using lens cm True size(1)
      by (intro read_planes_map) (auto simp: luma_of_def chroma_of_def Let_def nth_drop mult.commute)
    then show ?thesis using True by (auto simp: run)
  next
    case False
    obtain y u v where yuv: "scratch_planes (?w * ?h) (w_i420 wk) = (y, u, v)" by (metis prod_cases3)
    note len = scratch_lengths [OF assms(1) yuv]
    have s: "?h * ?st \<le> length ?src" "(?h div 2) * (?st div 2) \<le> length ?u" "(?h div 2) * (?st div 2) \<le> length ?v" "?h * ?w \<le> length y"
      using lens len(1) by (simp_all add: mult.commute)
    obtain y' u' v' where c: "i420_copy ?src ?st ?u ?v y u v ?w ?h = Some (y', u', v')"
      "length y' = length y" "length u' = length u" "length v' = length v"
      "\<forall>i < length y. y' ! i = (if i < ?h * ?w then ?src ! (i div ?w * ?st + i mod ?w) else y ! i)"
      "\<forall>i < length u. u' ! i = (if i < (?h div 2) * (?w div 2) then ?u ! (i div (?w div 2) * (?st div 2) + i mod (?w div 2)) else u ! i)"
      "\<forall>i < length v. v' ! i = (if i < (?h div 2) * (?w div 2) then ?v ! (i div (?w div 2) * (?st div 2) + i mod (?w div 2)) else v ! i)"
      using i420_copy_correct [OF w(1) st s len(2,3)] by auto
    have "\<exists>pic. read_planes ?w ?h y' u' v' = Some pic \<and> picture_of False ?src ?st ?w ?h pic"
      using c(2-7) len(1-3) size(1)
      by (intro read_planes_map) (auto simp: luma_of_def chroma_of_def Let_def nth_drop mult.commute)
    then show ?thesis using c(1-4) len(4) yuv False by (auto simp: run)
  qed
qed

lemma convert_too_small:
  assumes "f_size f = 0 \<or> f_size f < bytes_needed wk f"
  shows "convert_frame wk p f = Some None"
  using assms by (auto simp: convert_frame_def bytes_needed_def Let_def split: if_splits)

section \<open>One turn\<close>

definition frames_ok :: "u32 \<Rightarrow> FramePool \<Rightarrow> bool" where
  "frames_ok w p \<longleftrightarrow> (\<forall>i < p_count p. Frame.width (frames p ! i) = w \<longrightarrow> rows_ok w (frames p ! i))"

text \<open>The invariant of the worker while the other threads hold the frames \<open>others\<close>.\<close>

definition worker_ok :: "nat list \<Rightarrow> EncoderWorker \<Rightarrow> bool" where
  "worker_ok others w \<longleftrightarrow> hub_inv (w_hub w) others \<and> frames_ok (w_width w) (pool (w_hub w)) \<and> ring_inv (w_ring w) \<and>
     cache_ok (w_params w) \<and> geometry_ok w \<and> length (w_au_buffer w) = AU_SCRATCH_CAPACITY \<and> length (w_au_fixup w) = AU_FIXUP_CAPACITY"

lemma release_ok:
  assumes "worker_ok (i # others) w"
  obtains h where "release w i = Some (w\<lparr>w_hub := h\<rparr>)" "worker_ok others (w\<lparr>w_hub := h\<rparr>)"
proof -
  have inv: "hub_inv (w_hub w) (i # others)" using assms by (simp add: worker_ok_def)
  obtain p where p: "pool_unref (pool (w_hub w)) i = Some p" "hub_inv ((w_hub w)\<lparr>pool := p\<rparr>) others"
    "p_count p = p_count (pool (w_hub w))" "frame_view p = frame_view (pool (w_hub w))"
    using release_inv [OF inv, of i] by (auto simp: frame_unref_def)
  have "Frame.width (frames p ! j) = Frame.width (frames (pool (w_hub w)) ! j) \<and>
      rows_ok u (frames p ! j) = rows_ok u (frames (pool (w_hub w)) ! j)" for j u
    using fun_cong [OF p(4), of j] by (simp add: frame_view_def Let_def rows_ok_def min_stride_def)
  then have "frames_ok (w_width w) p" using assms p(3) by (simp add: worker_ok_def frames_ok_def)
  then show thesis using that [of "(w_hub w)\<lparr>pool := p\<rparr>"] p(1,2) assms by (simp add: release_def worker_ok_def geometry_ok_def)
qed

lemma push_total:
  assumes "ring_inv r"
  obtains rc r' where "au_ring_push (Some r) (Some d) pts idr = Some (rc, Some r')" "ring_inv r'"
    "rc = 0 \<longrightarrow> queue r' \<noteq> [] \<and> is_idr (fst (last (queue r'))) = idr \<and> snd (last (queue r')) = d"
proof (cases "d \<noteq> [] \<and> length d \<le> slot_capacity r")
  case True
  then show ?thesis using push_fits_queue [OF assms, of d pts idr] that by (auto simp: new_meta_def)
next
  case False
  define r' where "r' = r\<lparr>lost := True, dropped := dropped r + 1\<rparr>"
  have "ring_inv r' = ring_inv r" unfolding r'_def by (rule ring_inv_cong; simp)
  then have inv: "ring_inv r'" using assms by simp
  show ?thesis
  proof (cases "d = []")
    case True
    show ?thesis by (rule that [of "-1" r]) (use True assms in \<open>simp_all add: au_ring_push_def\<close>)
  next
    case ne: False
    show ?thesis
      by (rule that [of "-1" r']) (use ne False inv in \<open>simp_all add: au_ring_push_def push_locked_too_big flip: r'_def\<close>)
  qed
qed

text \<open>The frames that were accounted for.\<close>

definition accounted :: "EncoderWorker \<Rightarrow> u64" where
  "accounted w = skipped_idle w + skipped_mismatch w + skipped_bad_size w + no_output w + frames_encoded w"

lemma accounted_simps [simp]:
  "accounted (w\<lparr>skipped_idle := skipped_idle w + 1\<rparr>) = accounted w + 1"
  "accounted (w\<lparr>skipped_mismatch := skipped_mismatch w + 1\<rparr>) = accounted w + 1"
  "accounted (w\<lparr>skipped_bad_size := skipped_bad_size w + 1\<rparr>) = accounted w + 1"
  "accounted (w\<lparr>no_output := no_output w + 1\<rparr>) = accounted w + 1"
  "accounted (w\<lparr>frames_encoded := frames_encoded w + 1\<rparr>) = accounted w + 1"
  "accounted (w\<lparr>w_force_idr := b\<rparr>) = accounted w" "accounted (w\<lparr>w_failed := b\<rparr>) = accounted w"
  "accounted (w\<lparr>w_ring := q\<rparr>) = accounted w" "accounted (w\<lparr>w_hub := h\<rparr>) = accounted w"
  "accounted (w\<lparr>keyframes := k\<rparr>) = accounted w" "accounted (w\<lparr>frames_in := k\<rparr>) = accounted w"
  "accounted (w\<lparr>w_i420 := bs\<rparr>) = accounted w" "accounted (w\<lparr>w_au_buffer := bs\<rparr>) = accounted w"
  "accounted (w\<lparr>pending_bitrate_kbps := r\<rparr>) = accounted w" "accounted (w\<lparr>applied_bitrate_kbps := r\<rparr>) = accounted w"
  by (simp_all add: accounted_def)

definition newest_is_keyframe :: "EncoderWorker \<Rightarrow> bool" where
  "newest_is_keyframe w \<longleftrightarrow> queue (w_ring w) \<noteq> [] \<and> is_idr (fst (last (queue (w_ring w))))"

lemma worker_ok_finished: "finished w w' \<Longrightarrow> worker_ok others w \<Longrightarrow> worker_ok others w' \<and> accounted w' = accounted w \<and> frames_in w' = frames_in w"
  by (auto simp: finished_def worker_ok_def geometry_ok_def accounted_def)

text \<open>Fields the invariant does not look at.\<close>

lemma worker_ok_simps [simp]:
  "worker_ok others (w\<lparr>w_force_idr := b\<rparr>) = worker_ok others w" "worker_ok others (w\<lparr>w_failed := b\<rparr>) = worker_ok others w"
  "worker_ok others (w\<lparr>no_output := c\<rparr>) = worker_ok others w" "worker_ok others (w\<lparr>frames_encoded := c\<rparr>) = worker_ok others w"
  "worker_ok others (w\<lparr>keyframes := c\<rparr>) = worker_ok others w" "worker_ok others (w\<lparr>frames_in := c\<rparr>) = worker_ok others w"
  "worker_ok others (w\<lparr>skipped_idle := c\<rparr>) = worker_ok others w" "worker_ok others (w\<lparr>skipped_mismatch := c\<rparr>) = worker_ok others w"
  "worker_ok others (w\<lparr>skipped_bad_size := c\<rparr>) = worker_ok others w" "worker_ok others (w\<lparr>pending_bitrate_kbps := k\<rparr>) = worker_ok others w"
  "worker_ok others (w\<lparr>applied_bitrate_kbps := k\<rparr>) = worker_ok others w"
  by (simp_all add: worker_ok_def geometry_ok_def)

text \<open>Behind the encoder: the invariant, the count of the frame, and what becomes of a keyframe request.\<close>

definition turn_result :: "nat list \<Rightarrow> bool \<Rightarrow> EncoderWorker \<Rightarrow> EncoderWorker \<times> Locals \<times> bool \<Rightarrow> bool" where
  "turn_result others force w r \<longleftrightarrow>
     (case r of (w', l', go_on) \<Rightarrow> worker_ok others w' \<and> frames_in w' = frames_in w \<and>
        (if go_on then accounted w' = accounted w + 1 else w_failed w') \<and>
        (force \<longrightarrow> w_force_idr w' \<or> w_failed w' \<or> newest_is_keyframe w'))"

lemma after_encode_spec:
  assumes "worker_ok others w" "length (t_au t) \<le> AU_SCRATCH_CAPACITY"
  shows "\<exists>r. after_encode t force w l = Some r \<and> turn_result others force w r"
proof (cases "t_result t < 0")
  case True
  then show ?thesis using assms(1) by (simp add: after_encode_def turn_result_def)
next
  case False
  obtain w1 out where o: "(if t_result t = 0 then Some (w, None) else finish_access_unit w (length (t_au t))) = Some (w1, out)"
    and w1: "worker_ok others w1" "accounted w1 = accounted w" "frames_in w1 = frames_in w"
  proof (cases "t_result t = 0")
    case True
    then show ?thesis using that assms(1) by simp
  next
    case nz: False
    have ok: "cache_ok (w_params w)" "length (w_au_buffer w) = AU_SCRATCH_CAPACITY" "length (w_au_fixup w) = AU_FIXUP_CAPACITY"
      using assms(1) by (simp_all add: worker_ok_def)
    obtain w1 out where "finish_access_unit w (length (t_au t)) = Some (w1, out)" "finished w w1"
      using finish_access_unit_spec [OF ok assms(2)] by blast
    then show ?thesis using worker_ok_finished [OF _ assms(1)] nz that by simp
  qed
  show ?thesis
  proof (cases out)
    case None
    then show ?thesis
      using False o w1 by (auto simp: after_encode_def Let_def turn_result_def)
  next
    case (Some x)
    then obtain au idr where x: "out = Some (au, idr)" by fastforce
    have ri: "ring_inv (w_ring w1)" using w1(1) by (simp add: worker_ok_def)
    obtain rc r' where r: "au_ring_push (Some (w_ring w1)) (Some au) (t_pts t) idr = Some (rc, Some r')" "ring_inv r'"
      "rc = 0 \<longrightarrow> queue r' \<noteq> [] \<and> is_idr (fst (last (queue r'))) = idr \<and> snd (last (queue r')) = au"
      by (rule push_total [OF ri, of au "t_pts t" idr])
    define w2 where "w2 = (if idr then w1\<lparr>frames_encoded := frames_encoded w1 + 1, keyframes := keyframes w1 + 1, w_force_idr := False\<rparr>
      else if force then w1\<lparr>frames_encoded := frames_encoded w1 + 1, w_force_idr := True\<rparr>
      else w1\<lparr>frames_encoded := frames_encoded w1 + 1\<rparr>)\<lparr>w_ring := r'\<rparr>"
    define w3 where "w3 = (if rc \<noteq> 0 then w2\<lparr>w_force_idr := True\<rparr> else w2)"
    have "\<exists>l'. after_encode t force w l = Some (w3, l', True)"
      using False o x r(1) by (cases idr; cases force; simp add: after_encode_def Let_def w2_def w3_def)
    moreover have "worker_ok others w3" "frames_in w3 = frames_in w" "accounted w3 = accounted w + 1"
      using w1 r(2) by (simp_all add: w3_def w2_def worker_ok_def geometry_ok_def)
    moreover have "force \<Longrightarrow> w_force_idr w3 \<or> newest_is_keyframe w3"
      using r(3) by (auto simp: w3_def w2_def newest_is_keyframe_def)
    ultimately show ?thesis by (auto simp: turn_result_def)
  qed
qed

text \<open>Before the encoder.\<close>

definition before_result :: "nat \<Rightarrow> nat list \<Rightarrow> EncoderWorker \<Rightarrow> Before \<Rightarrow> bool" where
  "before_result i others w b \<longleftrightarrow> (case b of
       Skip w' l' \<Rightarrow> worker_ok others w' \<and> frames_in w' = frames_in w + 1 \<and> accounted w' = accounted w + 1 \<and>
         w_force_idr w' = w_force_idr w
     | Encode w' l' j call \<Rightarrow> j = i \<and> worker_ok (i # others) w' \<and> frames_in w' = frames_in w + 1 \<and> accounted w' = accounted w \<and>
         e_force call = w_force_idr w \<and>
         (let f = frames (pool (w_hub w)) ! i in
          picture_of (format f = V4L2_PIX_FMT_YUYV) (frame_memory (pool (w_hub w)) f) (row_bytes (w_width w) f)
            (unat (w_width w)) (unat (w_height w)) (e_picture call) \<and>
          e_pts call = timestamp_us f))"

lemma skip_result:
  assumes "worker_ok (i # others) w1" "w_force_idr w1 = w_force_idr w" "frames_in w1 = frames_in w + 1" "accounted w1 = accounted w + 1"
  shows "\<exists>b. do { w \<leftarrow> release w1 i; Some (Skip w l') } = Some b \<and> before_result i others w b"
  by (rule release_ok [OF assms(1)]) (use assms(2-4) in \<open>simp add: before_result_def\<close>)

lemma held_frame:
  assumes "worker_ok (i # others) w"
  defines "p \<equiv> pool (w_hub w)"
  shows "i < p_count p" "length (frames p) = p_count p" "f_size (frames p ! i) \<le> length (frame_memory p (frames p ! i))"
proof -
  have rep: "pool_rep p (hub_refs (w_hub w) (i # others))" using assms by (simp add: worker_ok_def hub_inv_def p_def)
  have "0 < hub_refs (w_hub w) (i # others) i" by (simp add: hub_refs_def)
  then show i: "i < p_count p" using fp.rep_live [OF rep] by simp
  show l: "length (frames p) = p_count p" using rep by (simp add: pool_rep_def)
  have "(i + 1) * capacity p \<le> p_count p * capacity p" using i by (intro mult_le_mono1) simp
  then have "length (frame_memory p (frames p ! i)) = capacity p"
    using rep i by (simp add: frame_memory_def pool_rep_def)
  then show "f_size (frames p ! i) \<le> length (frame_memory p (frames p ! i))" using rep i by (simp add: pool_rep_def)
qed

lemma convert_frame_spec:
  assumes "worker_ok (i # others) w"
  defines "p \<equiv> pool (w_hub w)" and "f \<equiv> frames (pool (w_hub w)) ! i"
  assumes "Frame.width f = w_width w"
  shows "convert_frame w p f = Some None \<or>
    (\<exists>pic b. convert_frame w p f = Some (Some (pic, b)) \<and> length b = length (w_i420 w) \<and>
       picture_of (format f = V4L2_PIX_FMT_YUYV) (frame_memory p f) (row_bytes (w_width w) f) (unat (w_width w)) (unat (w_height w)) pic)"
proof (cases "f_size f = 0 \<or> f_size f < bytes_needed w f")
  case True
  then show ?thesis using convert_too_small by blast
next
  case False
  have g: "geometry_ok w" "rows_ok (w_width w) f"
    using assms(1,4) held_frame(1) [OF assms(1)] by (auto simp: worker_ok_def frames_ok_def f_def)
  have m: "f_size f \<le> length (frame_memory p f)" using held_frame(3) [OF assms(1)] by (simp add: p_def f_def)
  show ?thesis
    using convert_yuyv [OF g assms(4) _ _ _ m] convert_planar [OF g _ _ _ m] False by (cases "format f = V4L2_PIX_FMT_YUYV") auto
qed

lemma before_encode_spec:
  assumes "worker_ok (i # others) w"
  shows "\<exists>b. before_encode accepted ms i w l = Some b \<and> before_result i others w b"
proof -
  define w1 where "w1 = apply_bitrate accepted (w\<lparr>frames_in := frames_in w + 1\<rparr>)"
  have w1: "worker_ok (i # others) w1" "w_force_idr w1 = w_force_idr w" "frames_in w1 = frames_in w + 1" "accounted w1 = accounted w"
    "w_hub w1 = w_hub w" "w_width w1 = w_width w" "w_height w1 = w_height w" "w_active w1 = w_active w" "length (w_i420 w1) = length (w_i420 w)"
    using assms by (simp_all add: w1_def apply_bitrate_def Let_def)
  define f where "f = frames (pool (w_hub w)) ! i"
  have rd: "rd (frames (pool (w_hub w))) i = Some f" using held_frame(1,2) [OF assms] by (simp add: f_def)
  have idle: "\<exists>b. do { w \<leftarrow> release (w1\<lparr>skipped_idle := skipped_idle w1 + 1\<rparr>) i; Some (Skip w l') } = Some b \<and> before_result i others w b"
    and mism: "\<exists>b. do { w \<leftarrow> release (w1\<lparr>skipped_mismatch := skipped_mismatch w1 + 1\<rparr>) i; Some (Skip w l') } = Some b \<and> before_result i others w b"
    and bad: "\<exists>b. do { w \<leftarrow> release (w1\<lparr>skipped_bad_size := skipped_bad_size w1 + 1\<rparr>) i; Some (Skip w l') } = Some b \<and> before_result i others w b"
    for l' using w1 by (auto intro!: skip_result)
  consider (none) "convert_frame w1 (pool (w_hub w)) f = Some None"
    | (pic) pic b where "convert_frame w1 (pool (w_hub w)) f = Some (Some (pic, b))" "length b = length (w_i420 w)"
      "picture_of (format f = V4L2_PIX_FMT_YUYV) (frame_memory (pool (w_hub w)) f) (row_bytes (w_width w) f) (unat (w_width w)) (unat (w_height w)) pic"
    | (width) "Frame.width f \<noteq> w_width w"
    using convert_frame_spec [OF w1(1)] w1 by (auto simp: f_def)
  then show ?thesis
  proof cases
    case none
    then show ?thesis using idle mism bad rd w1 unfolding before_encode_def Let_def w1_def [symmetric] by simp
  next
    case width
    then show ?thesis using idle mism rd w1 unfolding before_encode_def Let_def w1_def [symmetric] by simp
  next
    case (pic pic b)
    have "worker_ok (i # others) (w1\<lparr>w_i420 := b, w_force_idr := False\<rparr>)"
      using w1(1,9) pic(2) by (simp add: worker_ok_def geometry_ok_def)
    then have "before_result i others w (Encode (w1\<lparr>w_i420 := b, w_force_idr := False\<rparr>) l' i
        \<lparr>e_picture = pic, e_pts = timestamp_us f, e_force = w_force_idr w1\<rparr>)" for l'
      using pic(3) w1 by (simp add: before_result_def f_def Let_def)
    then show ?thesis using idle mism pic(1) rd w1 unfolding before_encode_def Let_def w1_def [symmetric] by simp
  qed
qed

text \<open>
  The contract of the other threads. While the worker waits they leave a consistent hub whose
  frames they hold themselves; while it encodes they may change the hub, the ring and the shared
  flags, but keep them consistent, keep the frame the worker holds, and do not touch its own fields.
\<close>

definition own_kept :: "EncoderWorker \<Rightarrow> EncoderWorker \<Rightarrow> bool" where
  "own_kept w w' \<longleftrightarrow> frames_in w' = frames_in w \<and> accounted w' = accounted w \<and> w_failed w' = w_failed w"

definition environment_ok :: "nat list \<Rightarrow> nat list \<Rightarrow> Turn \<Rightarrow> EncoderWorker \<Rightarrow> bool" where
  "environment_ok others others' t w \<longleftrightarrow>
     (\<exists>k h. w_consumer w = Some k \<and> wait_mailbox k (w_hub w) (t_wakes t) = Some h \<and> hub_inv h others \<and>
        frames_ok (w_width w) (pool h)) \<and>
     length (t_au t) \<le> AU_SCRATCH_CAPACITY \<and>
     (\<forall>i v. worker_ok (i # others) v \<longrightarrow> worker_ok (i # others') (t_during t v) \<and> own_kept v (t_during t v))"

lemma worker_ok_hub:
  "worker_ok others w \<Longrightarrow> hub_inv h others' \<Longrightarrow> frames_ok (w_width w) (pool h) \<Longrightarrow> worker_ok others' (w\<lparr>w_hub := h\<rparr>)"
  by (simp add: worker_ok_def geometry_ok_def)

lemma turn_taken:
  assumes "worker_ok any w" "environment_ok others others' t w"
  obtains frame h where "frame_hub_take_wait (w_consumer w) (w_hub w) (t_wakes t) = Some (frame, h)"
    "worker_ok (case frame of None \<Rightarrow> others | Some i \<Rightarrow> i # others) (w\<lparr>w_hub := h\<rparr>)"
proof -
  obtain k h0 where k: "w_consumer w = Some k" "wait_mailbox k (w_hub w) (t_wakes t) = Some h0" "hub_inv h0 others"
    "frames_ok (w_width w) (pool h0)"
    using assms(2) by (auto simp: environment_ok_def)
  obtain frame h where f: "frame_hub_take h0 (Some k) = (frame, h)" by fastforce
  from take_inv [OF k(3) f] have "hub_inv h (case frame of None \<Rightarrow> others | Some i \<Rightarrow> i # others)" "pool h = pool h0" by simp_all
  then show thesis
    using that [of frame h] k f worker_ok_hub [OF assms(1)] by (simp add: frame_hub_take_wait_def split: option.splits)
qed

definition turn_ok :: "nat list \<Rightarrow> nat list \<Rightarrow> EncoderWorker \<Rightarrow> EncoderWorker \<times> Locals \<times> bool \<Rightarrow> bool" where
  "turn_ok others others' w r \<longleftrightarrow> (case r of (w', l', go_on) \<Rightarrow>
     (worker_ok others w' \<or> worker_ok others' w') \<and>
     (if go_on then frames_in w' - accounted w' = frames_in w - accounted w else w_failed w') \<and>
     (w_force_idr w \<longrightarrow> w_force_idr w' \<or> w_failed w' \<or> newest_is_keyframe w'))"

lemma encode_turn_spec:
  assumes "worker_ok any w" "environment_ok others others' t w"
  shows "\<exists>r. encode_turn t w l = Some r \<and> turn_ok others others' w r"
proof -
  have env: "length (t_au t) \<le> AU_SCRATCH_CAPACITY"
    "\<And>i v. worker_ok (i # others) v \<Longrightarrow> worker_ok (i # others') (t_during t v) \<and> own_kept v (t_during t v)"
    using assms(2) by (simp_all add: environment_ok_def)
  obtain frame h where take: "frame_hub_take_wait (w_consumer w) (w_hub w) (t_wakes t) = Some (frame, h)"
    "worker_ok (case frame of None \<Rightarrow> others | Some i \<Rightarrow> i # others) (w\<lparr>w_hub := h\<rparr>)"
    by (rule turn_taken [OF assms])
  show ?thesis
  proof (cases frame)
    case None
    then show ?thesis using take by (simp add: encode_turn_def turn_ok_def)
  next
    case (Some i)
    then have ok: "worker_ok (i # others) (w\<lparr>w_hub := h\<rparr>)" using take(2) by simp
    obtain b where b: "before_encode (t_bitrate_ok t) (t_before_ms t) i (w\<lparr>w_hub := h\<rparr>) l = Some b"
      "before_result i others (w\<lparr>w_hub := h\<rparr>) b"
      using before_encode_spec [OF ok] by blast
    show ?thesis
    proof (cases b)
      case (Skip w1 l1)
      then show ?thesis using take(1) Some b by (simp add: encode_turn_def before_result_def turn_ok_def)
    next
      case (Encode w1 l1 j call)
      then have w1: "j = i" "worker_ok (i # others) w1" "frames_in w1 = frames_in w + 1" "accounted w1 = accounted w"
        "e_force call = w_force_idr w" using b(2) by (simp_all add: before_result_def)
      have "length (w_au_buffer w1) = AU_SCRATCH_CAPACITY" using w1(2) by (simp add: worker_ok_def)
      then obtain buf where buf: "(if t_result t > 0 then memcpy_to (w_au_buffer w1) 0 (t_au t) else Some (w_au_buffer w1)) = Some buf"
        "length buf = AU_SCRATCH_CAPACITY" using env(1) by (cases "t_result t > 0") auto
      define w2 where "w2 = t_during t (w1\<lparr>w_au_buffer := buf\<rparr>)"
      have "worker_ok (i # others) (w1\<lparr>w_au_buffer := buf\<rparr>)" using w1(2) buf(2) by (simp add: worker_ok_def geometry_ok_def)
      then have w2: "worker_ok (i # others') w2" "frames_in w2 = frames_in w + 1" "accounted w2 = accounted w"
        using env(2) w1(3,4) by (auto simp: w2_def own_kept_def)
      obtain h' where rel: "release w2 i = Some (w2\<lparr>w_hub := h'\<rparr>)" "worker_ok others' (w2\<lparr>w_hub := h'\<rparr>)"
        by (rule release_ok [OF w2(1)])
      obtain r where r: "after_encode t (w_force_idr w) (w2\<lparr>w_hub := h'\<rparr>) l1 = Some r"
        "turn_result others' (w_force_idr w) (w2\<lparr>w_hub := h'\<rparr>) r"
        using after_encode_spec [OF rel(2) env(1)] by blast
      have "encode_turn t w l = Some r"
        using take(1) Some b(1) Encode buf(1) rel(1) r(1) w1(1,5) by (simp add: encode_turn_def flip: w2_def)
      moreover have "turn_ok others others' w r"
        using r(2) w2(2,3) by (auto simp: turn_result_def turn_ok_def split: prod.splits if_splits)
      ultimately show ?thesis by blast
    qed
  qed
qed

section \<open>Properties\<close>

text \<open>
  C25: one turn of the encode thread never leaves a buffer and always returns, whatever frame it
  takes and whatever the encoder answers. It keeps the worker, the hub and the ring consistent
  with no frame left in the worker's hands on any branch (only the references of the other
  threads remain), every frame taken is counted under exactly one of idle, mismatch, bad size,
  no output or encoded, and the thread only ends when the worker is marked failed.
\<close>

theorem encode_turn_safe:
  assumes "worker_ok any w" "environment_ok others others' t w"
  shows "\<exists>w' l' go_on. encode_turn t w l = Some (w', l', go_on) \<and> (worker_ok others w' \<or> worker_ok others' w') \<and>
    (go_on \<longrightarrow> frames_in w' - accounted w' = frames_in w - accounted w) \<and> (\<not> go_on \<longrightarrow> w_failed w')"
  using encode_turn_spec [OF assms, of l] by (auto simp: turn_ok_def split: if_splits)

text \<open>
  C27: a keyframe request is never lost: when it was pending at the start of a turn, then at its end
  it is still pending, or the encoder has failed, or the newest access unit of the ring is a
  keyframe.
\<close>

theorem keyframe_request_kept:
  assumes "worker_ok any w" "environment_ok others others' t w" "w_force_idr w" "encode_turn t w l = Some (w', l', go_on)"
  shows "w_force_idr w' \<or> w_failed w' \<or> newest_is_keyframe w'"
  using encode_turn_spec [OF assms(1,2), of l] assms(3,4) by (auto simp: turn_ok_def)

text \<open>
  C26: what is sent for an encoder output \<open>d\<close>. Nothing without a picture; otherwise it is marked
  a keyframe exactly when it has an IDR slice, it is \<open>d\<close> itself or \<open>d\<close> behind the parameter sets
  last seen, and a keyframe is self-contained as soon as both parameter sets were ever seen.
\<close>

theorem finish_access_unit_correct:
  assumes "cache_ok (w_params w)" "length (w_au_buffer w) = AU_SCRATCH_CAPACITY" "length (w_au_fixup w) = AU_FIXUP_CAPACITY"
    "n \<le> AU_SCRATCH_CAPACITY" "d = take n (w_au_buffer w)"
    "s = latest H264_NAL_SPS (real_nals d) (cached_sps (w_params w))" "p = latest H264_NAL_PPS (real_nals d) (cached_pps (w_params w))"
  shows "\<exists>w' out. finish_access_unit w n = Some (w', out) \<and> cached_sps (w_params w') = s \<and> cached_pps (w_params w') = p \<and>
    (case out of
       None \<Rightarrow> \<not> has_picture d
     | Some (au, idr) \<Rightarrow> has_picture d \<and> idr = keyframe d \<and> (au = d \<or> au = s @ p @ d) \<and>
         (idr \<and> (self_contained d \<or> s \<noteq> [] \<and> p \<noteq> []) \<longrightarrow> self_contained au))"
proof -
  obtain w' where w': "finish_access_unit w n = Some (w', if has_picture d then Some (to_send s p d, keyframe d) else None)"
    "finished w w'" "cached_sps (w_params w') = s" "cached_pps (w_params w') = p"
    using finish_access_unit_spec [OF assms(1-4)] assms(5-7) by metis
  have "cache_ok (w_params w')" using w'(2) by (auto simp: finished_def)
  then show ?thesis
    using w' to_send_self_contained [of "w_params w'" s p d] by (auto simp: to_send_def)
qed

text \<open>
  C28: the picture the encoder is given is the one the frame shows: with the frame's size, sample by
  sample, for packed YUYV with its chroma averaged over two rows and for planar frames with any
  padding behind the rows; its timestamp is the frame's, and a keyframe is asked for when one is
  requested.
\<close>

theorem encoder_picture_correct:
  assumes "worker_ok (i # others) w" "before_encode accepted ms i w l = Some (Encode w' l' j call)"
    "f = frames (pool (w_hub w)) ! i"
  shows "j = i \<and> e_pts call = timestamp_us f \<and> e_force call = w_force_idr w \<and>
    picture_of (format f = V4L2_PIX_FMT_YUYV) (frame_memory (pool (w_hub w)) f) (row_bytes (w_width w) f)
      (unat (w_width w)) (unat (w_height w)) (e_picture call)"
  using before_encode_spec [OF assms(1), of accepted ms l] assms(2,3) by (auto simp: before_result_def Let_def)

section \<open>An example\<close>

definition demo_frame :: Frame where
  "demo_frame = \<lparr>width = 2, height = 1, format = V4L2_PIX_FMT_YUYV, stride = 4, f_size = 4, f_sequence = 9, timestamp_us = 100,
     data = 4, pool_index = 1, refcount = 1\<rparr>"

definition demo_frames :: FramePool where
  "demo_frames = \<lparr>frames = [zero_frame, demo_frame], backing = [0, 0, 0, 0, 16, 100, 32, 200], capacity = 4, p_count = 2,
     free_list = [0, 1], free_count = 1\<rparr>"

text \<open>The hub with the frame in the mailbox of the worker, and with the frame in its hands.\<close>

definition demo_camera :: "nat option \<Rightarrow> FrameHub" where
  "demo_camera s = \<lparr>pool = demo_frames, consumers = [\<lparr>cid = 7, slot = s, active = True\<rparr>]\<rparr>"

definition demo_worker :: "nat option \<Rightarrow> EncoderWorker" where
  "demo_worker s = \<lparr>w_hub = demo_camera s, w_consumer = Some 7, w_ring = demo_ring, w_force_idr = True, w_active = Some True,
     w_width = 2, w_height = 1, w_i420 = [0, 0, 0],
     w_au_buffer = [0, 0, 1, 0x65, 0x88] @ replicate (AU_SCRATCH_CAPACITY - 5) 0, w_au_fixup = replicate AU_FIXUP_CAPACITY 0,
     w_params = demo_cache, w_running = True, w_started = True, frames_in = 0, frames_encoded = 0, skipped_idle = 0,
     skipped_mismatch = 0, skipped_bad_size = 0, no_output = 0, keyframes = 0, params_prepended = 0, w_failed = False,
     pending_bitrate_kbps = 0, applied_bitrate_kbps = 0\<rparr>"

definition demo_turn :: Turn where
  "demo_turn = \<lparr>t_wakes = [], t_bitrate_ok = True, t_before_ms = 5, t_result = 1, t_au = [0, 0, 1, 0x65, 0x88], t_pts = 100,
     t_during = (\<lambda>w. w), t_after_ms = 20\<rparr>"

lemma demo_cache_ok: "cache_ok demo_cache"
  by (simp add: demo_cache_def cache_ok_def slot_ok_def nal_ok_def H264_PARAM_MAX_def nal_type_defs nal_type_def)

lemma demo_camera_inv: "hub_inv (demo_camera (Some 1)) []" "hub_inv (demo_camera None) [1]"
proof -
  have "hub_refs (demo_camera (Some 1)) [] = (\<lambda>i. if i = 1 then 1 else 0)" "hub_refs (demo_camera None) [1] = (\<lambda>i. if i = 1 then 1 else 0)"
    by (auto simp: hub_refs_def demo_camera_def)
  moreover have "pool_rep demo_frames (\<lambda>i. if i = 1 then 1 else 0)"
    by (auto simp: pool_rep_def demo_frames_def zero_frame_def demo_frame_def free_set_def less_2_cases_iff image_iff)
  ultimately show "hub_inv (demo_camera (Some 1)) []" "hub_inv (demo_camera None) [1]"
    by (simp_all add: hub_inv_def demo_camera_def)
qed

lemma demo_worker_ok: "worker_ok [] (demo_worker (Some 1))" "worker_ok [1] (demo_worker None)"
proof -
  have "frames_ok 2 demo_frames"
    by (auto simp: frames_ok_def demo_frames_def less_2_cases_iff zero_frame_def demo_frame_def rows_ok_def min_stride_def)
  moreover have "geometry_ok (demo_worker s)" for s by (simp add: geometry_ok_def demo_worker_def)
  moreover have "5 \<le> AU_SCRATCH_CAPACITY" by (simp add: AU_SCRATCH_CAPACITY_def)
  ultimately show "worker_ok [] (demo_worker (Some 1))" "worker_ok [1] (demo_worker None)"
    using demo_camera_inv demo_cache_ok demo_ring_inv
    by (simp_all add: worker_ok_def) (simp_all add: demo_worker_def demo_camera_def)
qed

lemma demo_environment: "environment_ok [] [] demo_turn (demo_worker (Some 1))"
proof -
  have "mailbox (demo_camera (Some 1)) 7 = Some 1" by (simp add: mailbox_def demo_camera_def)
  then have "wait_mailbox 7 (demo_camera (Some 1)) [] = Some (demo_camera (Some 1))" by (simp add: wait_mailbox.simps)
  then have "\<exists>k h. w_consumer (demo_worker (Some 1)) = Some k \<and>
      wait_mailbox k (w_hub (demo_worker (Some 1))) (t_wakes demo_turn) = Some h \<and> hub_inv h [] \<and>
      frames_ok (w_width (demo_worker (Some 1))) (pool h)"
    using demo_worker_ok(1) demo_camera_inv(1) by (simp add: worker_ok_def) (simp add: demo_worker_def demo_turn_def)
  then show ?thesis by (simp add: environment_ok_def demo_turn_def own_kept_def AU_SCRATCH_CAPACITY_def)
qed

theorem encode_turn_safe_witness:
  "\<exists>w' l' go_on. encode_turn demo_turn (demo_worker (Some 1)) fresh_locals = Some (w', l', go_on) \<and> worker_ok [] w'"
  using encode_turn_safe [OF demo_worker_ok(1) demo_environment, of fresh_locals] by blast

theorem keyframe_request_kept_witness:
  "\<exists>w' l' go_on. encode_turn demo_turn (demo_worker (Some 1)) fresh_locals = Some (w', l', go_on) \<and>
     (w_force_idr w' \<or> w_failed w' \<or> newest_is_keyframe w')"
proof -
  obtain w' l' go_on where r: "encode_turn demo_turn (demo_worker (Some 1)) fresh_locals = Some (w', l', go_on)"
    using encode_turn_spec [OF demo_worker_ok(1) demo_environment, of fresh_locals] by auto
  have "w_force_idr (demo_worker (Some 1))" by (simp add: demo_worker_def)
  from keyframe_request_kept [OF demo_worker_ok(1) demo_environment this r] r show ?thesis by blast
qed

theorem finish_access_unit_witness:
  "\<exists>w' au. finish_access_unit (demo_worker None) 5 = Some (w', Some (au, True)) \<and> self_contained au"
proof -
  let ?d = "[0, 0, 1, 0x65, 0x88] :: bytes"
  have l: "5 \<le> AU_SCRATCH_CAPACITY" by (simp add: AU_SCRATCH_CAPACITY_def)
  have ok: "cache_ok (w_params (demo_worker None))" "length (w_au_buffer (demo_worker None)) = AU_SCRATCH_CAPACITY"
    "length (w_au_fixup (demo_worker None)) = AU_FIXUP_CAPACITY" using demo_worker_ok(2) by (simp_all add: worker_ok_def)
  have d: "?d = take 5 (w_au_buffer (demo_worker None))" by (simp add: demo_worker_def)
  have n: "real_nals ?d = [[0x65, 0x88]]" by code_simp
  have t: "nal_type 0x65 = 5" by (simp add: nal_type_def)
  have k: "keyframe ?d" "has_picture ?d" by (auto simp: keyframe_def has_picture_def n t nal_type_defs)
  have "latest H264_NAL_SPS (real_nals ?d) (cached_sps demo_cache) \<noteq> []" "latest H264_NAL_PPS (real_nals ?d) (cached_pps demo_cache) \<noteq> []"
    by (simp_all add: n t nal_type_defs cached_sps_def cached_pps_def demo_cache_def)
  moreover have "w_params (demo_worker None) = demo_cache" by (simp add: demo_worker_def)
  ultimately show ?thesis
    using finish_access_unit_correct [OF ok l d refl refl] k by (fastforce split: option.splits)
qed

theorem encoder_picture_witness:
  "\<exists>w' l' call. before_encode True 5 1 (demo_worker None) fresh_locals = Some (Encode w' l' 1 call) \<and>
     (case e_picture call of (y, u, v) \<Rightarrow> y = [16, 32])"
proof -
  let ?w = "demo_worker None"
  define w1 where "w1 = apply_bitrate True (?w\<lparr>frames_in := frames_in ?w + 1\<rparr>)"
  have w1: "worker_ok [1] w1" "w_hub w1 = demo_camera None" "w_width w1 = 2" "w_height w1 = 1" "w_active w1 = Some True"
    using demo_worker_ok(2) by (simp_all add: w1_def apply_bitrate_def Let_def) (simp_all add: demo_worker_def)
  have f: "frames (pool (w_hub w1)) ! 1 = demo_frame" "rd (frames (pool (demo_camera None))) 1 = Some demo_frame"
    by (simp_all add: w1(2) demo_camera_def demo_frames_def)
  have g: "geometry_ok w1" "rows_ok (w_width w1) demo_frame" "Frame.width demo_frame = w_width w1" "format demo_frame = V4L2_PIX_FMT_YUYV"
    "f_size demo_frame \<noteq> 0" "bytes_needed w1 demo_frame \<le> f_size demo_frame"
    "f_size demo_frame \<le> length (frame_memory (pool (w_hub w1)) demo_frame)"
    using w1 by (simp_all add: worker_ok_def demo_frame_def rows_ok_def min_stride_def bytes_needed_def row_bytes_def frame_memory_def
        demo_camera_def demo_frames_def)
  obtain pic b where c: "convert_frame w1 (pool (demo_camera None)) demo_frame = Some (Some (pic, b))"
    using convert_yuyv [OF g] w1(2) by auto
  obtain w' l' call where e: "before_encode True 5 1 ?w fresh_locals = Some (Encode w' l' 1 call)"
    using c f w1(2-5) unfolding before_encode_def Let_def w1_def [symmetric] by (auto simp: demo_frame_def)
  have "frame_memory (pool (w_hub ?w)) demo_frame = [16, 100, 32, 200]" "frames (pool (w_hub ?w)) ! 1 = demo_frame"
    "unat (w_width ?w) = 2" "unat (w_height ?w) = 1"
    by (simp_all add: frame_memory_def demo_worker_def demo_camera_def demo_frames_def demo_frame_def)
  then have "e_picture call = ([16, 32], [], [])"
    using encoder_picture_correct [OF demo_worker_ok(2) e refl] g(4)
    by (auto simp: picture_of_def luma_of_def row_bytes_def demo_frame_def upt_rec)
  then show ?thesis using e by auto
qed

end
