(* ===== verification/Dtls_Srtp.thy ===== *)
theory Dtls_Srtp
  imports Cam_Prelude C_String Bounded_Queue
begin

text \<open>
  The DTLS server and SRTP engine of a viewer (\<open>src/src/webrtc/dtls_srtp.c\<close>): the certificate
  fingerprint, the queue of inbound datagrams behind the custom BIO, the handshake state machine,
  the split of the exported keying material and the media entry points.

  OpenSSL and libsrtp2 are not part of the repository: every answer they give to one call of the
  code (return codes, exported bytes, the certificate digest, new SRTP contexts) is an argument,
  collected in the record \<open>ssl_env\<close>, and the BIO calls OpenSSL makes while it runs are a list of
  \<open>bio_op\<close>. The theorems hold for every choice of these answers.

  The callbacks of \<open>DtlsSrtpCallbacks\<close> run in the middle of an operation and may call back into
  this engine (the session closes it from \<open>on_state\<close>). They are therefore functions on the whole
  \<open>dtls_world\<close>: the engine, the process wide counters and the state of the user. A pointer that
  the code checks against \<open>NULL\<close> is an option; an engine that was created always has its SSL
  object and its BIOs, so these are not fields. \<open>None\<close> is an access outside an object.
\<close>

section \<open>State\<close>

definition DTLS_RX_QUEUE :: nat where "DTLS_RX_QUEUE = 64"
definition DTLS_MTU :: int where "DTLS_MTU = 1200"
definition SRTP_KEY_MATERIAL_LEN :: nat where "SRTP_KEY_MATERIAL_LEN = 60"
definition SRTP_PROFILE_NAME :: string where "SRTP_PROFILE_NAME = ''SRTP_AES128_CM_SHA1_80''"

datatype DtlsSrtpState =
    DTLS_SRTP_INIT | DTLS_SRTP_HANDSHAKING | DTLS_SRTP_CONNECTED | DTLS_SRTP_FAILED | DTLS_SRTP_CLOSED

record DtlsSrtpGlobalStats =
  handshakes_started :: u64
  handshakes_completed :: u64
  handshake_failures :: u64
  fingerprint_mismatches :: u64

record DtlsRxPacket =
  rx_data :: "bytes option"
  rx_len :: nat

record 's DtlsSrtp =
  dtls_state :: DtlsSrtpState
  rxq :: "DtlsRxPacket list"
  rx_head :: nat
  rx_tail :: nat
  rx_count :: nat
  srtp_out :: "'s option"
  srtp_in :: "'s option"
  srtp_ready :: bool
  expected_fingerprint :: string
  failure_reason :: string
  handshake_started :: bool
  fingerprint_ok :: bool

record ('s, 'u) dtls_world =
  engine :: "'s DtlsSrtp"
  g_stats :: DtlsSrtpGlobalStats
  user :: 'u

record ('s, 'u) DtlsSrtpCallbacks =
  send_udp :: "(bytes \<Rightarrow> ('s, 'u) dtls_world \<Rightarrow> ('s, 'u) dtls_world option) option"
  on_connected :: "(('s, 'u) dtls_world \<Rightarrow> ('s, 'u) dtls_world option) option"
  on_state :: "(DtlsSrtpState \<Rightarrow> ('s, 'u) dtls_world \<Rightarrow> ('s, 'u) dtls_world option) option"

text \<open>The library's side of one call: BIO traffic, return code and \<open>SSL_get_error\<close>.\<close>

datatype bio_op = BioRead int | BioWrite bytes

record ssl_call =
  ssl_bio :: "bio_op list"
  ssl_rc :: int
  ssl_err :: int

datatype srtp_dir = ssrc_any_outbound | ssrc_any_inbound

record 's ssl_env =
  ssl_accept :: ssl_call
  ssl_read :: ssl_call
  init_finished :: bool
  selected_profile :: bool
  exported :: "bytes option"
  srtp_create :: "srtp_dir \<Rightarrow> bytes \<Rightarrow> 's option"
  peer_digest :: "bytes option option"
  dtls_timer :: "(nat \<times> nat) option"
  timeout_bio :: "bio_op list"
  shutdown_bio :: "bio_op list"

definition SSL_ERROR_SSL :: int where "SSL_ERROR_SSL = 1"
definition SSL_ERROR_WANT_READ :: int where "SSL_ERROR_WANT_READ = 2"
definition SSL_ERROR_WANT_WRITE :: int where "SSL_ERROR_WANT_WRITE = 3"
definition SSL_ERROR_SYSCALL :: int where "SSL_ERROR_SYSCALL = 5"

lemmas ssl_errors = SSL_ERROR_SSL_def SSL_ERROR_WANT_READ_def SSL_ERROR_WANT_WRITE_def SSL_ERROR_SYSCALL_def

section \<open>Certificate and global context\<close>

text \<open>\<open>%02X\<close>\<close>

definition hex_char :: "nat \<Rightarrow> char" where
  "hex_char n = char_of (if n < 10 then 48 + n else 55 + n)"

definition hex2 :: "u8 \<Rightarrow> string" where
  "hex2 b = [hex_char (unat b div 16), hex_char (unat b mod 16)]"

text \<open>
  The digest is appended with \<open>snprintf\<close> at a running offset of the 128 character array; an
  offset past the array makes the size argument wrap around.
\<close>

fun fingerprint_loop :: "bool \<Rightarrow> nat \<Rightarrow> string \<Rightarrow> bytes \<Rightarrow> string option" where
  "fingerprint_loop first offset acc [] = Some acc"
| "fingerprint_loop first offset acc (b # md) =
     (if offset > 128 then None
      else
        (let piece = (if first then '''' else '':'') @ hex2 b
         in fingerprint_loop False (offset + length piece) (acc @ take (128 - offset - 1) piece) md))"

definition format_fingerprint :: "bytes \<Rightarrow> string option" where
  "format_fingerprint md = fingerprint_loop True 8 ''sha-256 '' md"

record DtlsGlobals =
  g_ctx :: bool
  g_cert :: bool
  g_key :: bool
  g_fingerprint :: string
  g_srtp_initialized :: bool

record init_env =
  ec_gen_ok :: bool
  x509_new_ok :: bool
  x509_sign_ok :: bool
  x509_digest :: "bytes option"
  srtp_init_ok :: bool
  ctx_new_ok :: bool
  check_key_ok :: bool
  use_srtp_ok :: bool

definition generate_certificate :: "init_env \<Rightarrow> DtlsGlobals \<Rightarrow> (int \<times> DtlsGlobals) option" where
  "generate_certificate io g =
     (if \<not> ec_gen_ok io then Some (-1, g\<lparr>g_key := False\<rparr>)
      else if \<not> x509_new_ok io then Some (-1, g\<lparr>g_cert := False, g_key := False\<rparr>)
      else
        (let g = g\<lparr>g_cert := True, g_key := True\<rparr> in
         if \<not> x509_sign_ok io then Some (-1, g)
         else case x509_digest io of
           None \<Rightarrow> Some (-1, g)
         | Some md \<Rightarrow> do {
             fp \<leftarrow> format_fingerprint md;
             Some (0, g\<lparr>g_fingerprint := fp\<rparr>) }))"

definition dtls_srtp_global_init :: "init_env \<Rightarrow> DtlsGlobals \<Rightarrow> (int \<times> DtlsGlobals) option" where
  "dtls_srtp_global_init io g =
     (if g_ctx g then Some (0, g)
      else if \<not> g_srtp_initialized g \<and> \<not> srtp_init_ok io then Some (-1, g)
      else do {
        let g = g\<lparr>g_srtp_initialized := True\<rparr>;
        (rc, g) \<leftarrow> generate_certificate io g;
        if rc \<noteq> 0 then Some (-1, g)
        else if \<not> ctx_new_ok io then Some (-1, g)
        else
          (let g = g\<lparr>g_ctx := True\<rparr> in
           if \<not> check_key_ok io then Some (-1, g)
           else if \<not> use_srtp_ok io then Some (-1, g)
           else Some (0, g)) })"

definition dtls_srtp_global_shutdown :: "DtlsGlobals \<Rightarrow> DtlsGlobals" where
  "dtls_srtp_global_shutdown g = g\<lparr>g_ctx := False, g_cert := False, g_key := False\<rparr>"

definition dtls_srtp_local_fingerprint :: "DtlsGlobals \<Rightarrow> string" where
  "dtls_srtp_local_fingerprint g = g_fingerprint g"

section \<open>The custom BIO\<close>

definition bio_rx_write :: "bytes \<Rightarrow> int" where
  "bio_rx_write buf = -1"

definition pop_head :: "'s DtlsSrtp \<Rightarrow> 's DtlsSrtp option" where
  "pop_head session = do {
     pkt \<leftarrow> rd (rxq session) (rx_head session);
     q \<leftarrow> wr (rxq session) (rx_head session) (pkt\<lparr>rx_data := None\<rparr>);
     Some (session\<lparr>rxq := q, rx_count := rx_count session - 1,
                   rx_head := (rx_head session + 1) mod DTLS_RX_QUEUE\<rparr>) }"

text \<open>The return code, the bytes copied to the caller, and the engine.\<close>

definition bio_rx_read :: "int \<Rightarrow> 's DtlsSrtp \<Rightarrow> (int \<times> bytes \<times> 's DtlsSrtp) option" where
  "bio_rx_read n session =
     (if rx_count session = 0 then Some (-1, [], session)
      else do {
        pkt \<leftarrow> rd (rxq session) (rx_head session);
        if nat (n mod 2 ^ 64) < rx_len pkt then do {
          session \<leftarrow> pop_head session;
          Some (-1, [], session) }
        else do {
          d \<leftarrow> rx_data pkt;
          bs \<leftarrow> rd_range d 0 (rx_len pkt);
          session \<leftarrow> pop_head session;
          Some (int (rx_len pkt), bs, session) } })"

datatype bio_cmd = BIO_CTRL_PENDING | BIO_CTRL_FLUSH | BIO_CTRL_DGRAM_QUERY_MTU | BIO_CTRL_OTHER

definition bio_rx_ctrl :: "bio_cmd \<Rightarrow> 's DtlsSrtp \<Rightarrow> int" where
  "bio_rx_ctrl cmd session =
     (case cmd of
        BIO_CTRL_PENDING \<Rightarrow> if rx_count session > 0 then 1 else 0
      | BIO_CTRL_FLUSH \<Rightarrow> 1
      | _ \<Rightarrow> 0)"

definition bio_tx_write ::
  "('s, 'u) DtlsSrtpCallbacks \<Rightarrow> bytes \<Rightarrow> ('s, 'u) dtls_world \<Rightarrow> (int \<times> ('s, 'u) dtls_world) option" where
  "bio_tx_write cb buf w =
     (case send_udp cb of
        None \<Rightarrow> Some (-1, w)
      | Some f \<Rightarrow>
          if buf = [] then Some (-1, w)
          else do { w \<leftarrow> f buf w; Some (int (length buf), w) })"

definition bio_tx_read :: "int \<Rightarrow> int" where
  "bio_tx_read n = -1"

definition bio_tx_ctrl :: "bio_cmd \<Rightarrow> int" where
  "bio_tx_ctrl cmd =
     (case cmd of
        BIO_CTRL_FLUSH \<Rightarrow> 1
      | BIO_CTRL_DGRAM_QUERY_MTU \<Rightarrow> DTLS_MTU
      | BIO_CTRL_PENDING \<Rightarrow> 0
      | BIO_CTRL_OTHER \<Rightarrow> 0)"

text \<open>The BIO calls of one library call, in order; the datagrams the library received come back.\<close>

fun run_bio ::
  "('s, 'u) DtlsSrtpCallbacks \<Rightarrow> bio_op list \<Rightarrow> ('s, 'u) dtls_world \<Rightarrow> (bytes list \<times> ('s, 'u) dtls_world) option" where
  "run_bio cb [] w = Some ([], w)"
| "run_bio cb (BioRead n # ops) w = do {
     (rc, bs, e) \<leftarrow> bio_rx_read n (engine w);
     (got, w) \<leftarrow> run_bio cb ops (w\<lparr>engine := e\<rparr>);
     Some (if rc < 0 then got else bs # got, w) }"
| "run_bio cb (BioWrite b # ops) w = do {
     (rc, w) \<leftarrow> bio_tx_write cb b w;
     run_bio cb ops w }"

section \<open>Session\<close>

definition dtls_set_state ::
  "(DtlsSrtpState \<Rightarrow> ('s, 'u) dtls_world \<Rightarrow> ('s, 'u) dtls_world option) option \<Rightarrow> DtlsSrtpState \<Rightarrow>
     ('s, 'u) dtls_world \<Rightarrow> ('s, 'u) dtls_world option" where
  "dtls_set_state notify state w =
     (if dtls_state (engine w) = state then Some w
      else
        (let w = w\<lparr>engine := (engine w)\<lparr>dtls_state := state\<rparr>\<rparr> in
         case notify of None \<Rightarrow> Some w | Some f \<Rightarrow> f state w))"

definition fold_hex :: "char \<Rightarrow> char" where
  "fold_hex c = (let n = (of_char c :: nat) in if 97 \<le> n \<and> n \<le> 102 then char_of (n - 32) else c)"

definition after_space :: "string \<Rightarrow> string" where
  "after_space s = (case strchr s (CHR '' '') of None \<Rightarrow> s | Some r \<Rightarrow> tl r)"

text \<open>\<open>actual\<close> has 104 characters: a digest of 52 bytes or more runs past it.\<close>

definition fingerprint_hex_equal :: "string \<Rightarrow> bytes \<Rightarrow> bool option" where
  "fingerprint_hex_equal sdp_value md =
     (let normalized = take 127 (map fold_hex (filter (\<lambda>c. c \<noteq> CHR '':'') (after_space sdp_value)))
      in if 104 \<le> 2 * length md then None
         else Some (normalized = concat (map hex2 md)))"

definition note_failure :: "string \<Rightarrow> ('s, 'u) dtls_world \<Rightarrow> ('s, 'u) dtls_world" where
  "note_failure reason w = w\<lparr>engine := (engine w)\<lparr>failure_reason := fit 96 reason\<rparr>\<rparr>"

definition count_failure :: "('s, 'u) dtls_world \<Rightarrow> ('s, 'u) dtls_world" where
  "count_failure w = w\<lparr>g_stats := (g_stats w)\<lparr>handshake_failures := handshake_failures (g_stats w) + 1\<rparr>\<rparr>"

definition count_mismatch :: "('s, 'u) dtls_world \<Rightarrow> ('s, 'u) dtls_world" where
  "count_mismatch w =
     w\<lparr>g_stats := (g_stats w)\<lparr>fingerprint_mismatches := fingerprint_mismatches (g_stats w) + 1\<rparr>\<rparr>"

text \<open>The check of the certificate against the signalled fingerprint.\<close>

definition verify_peer :: "'s ssl_env \<Rightarrow> ('s, 'u) dtls_world \<Rightarrow> (int \<times> ('s, 'u) dtls_world) option" where
  "verify_peer io w =
     (if expected_fingerprint (engine w) = [] then Some (0, w)
      else case peer_digest io of
        None \<Rightarrow>
          Some (-1, count_failure (note_failure ''peer completed the handshake without a certificate'' w))
      | Some digest \<Rightarrow> do {
          ok \<leftarrow> (case digest of None \<Rightarrow> Some False | Some md \<Rightarrow> fingerprint_hex_equal (expected_fingerprint (engine w)) md);
          if ok then Some (0, w)
          else Some (-1, note_failure ''peer certificate does not match the a=fingerprint in the offer''
                           (count_failure (count_mismatch w))) })"

definition derive_srtp_keys :: "'s ssl_env \<Rightarrow> ('s, 'u) dtls_world \<Rightarrow> (int \<times> ('s, 'u) dtls_world) option" where
  "derive_srtp_keys io w =
     (if \<not> selected_profile io then
        Some (-1, note_failure (''peer negotiated no use_srtp profile (offered '' @ SRTP_PROFILE_NAME @ '')'') w)
      else case exported io of
        None \<Rightarrow> Some (-1, w)
      | Some material \<Rightarrow> do {
          client_write \<leftarrow> rd_range material 0 16;
          client_salt \<leftarrow> rd_range material 32 14;
          server_write \<leftarrow> rd_range material 16 16;
          server_salt \<leftarrow> rd_range material 46 14;
          case srtp_create io ssrc_any_outbound (server_write @ server_salt) of
            None \<Rightarrow> Some (-1, w)
          | Some out \<Rightarrow> do {
              let w = w\<lparr>engine := (engine w)\<lparr>srtp_out := Some out\<rparr>\<rparr>;
              case srtp_create io ssrc_any_inbound (client_write @ client_salt) of
                None \<Rightarrow> Some (-1, w)
              | Some inb \<Rightarrow> do {
                  let w = w\<lparr>engine := (engine w)\<lparr>srtp_in := Some inb\<rparr>\<rparr>;
                  (rc, w) \<leftarrow> verify_peer io w;
                  if rc \<noteq> 0 then Some (-1, w)
                  else Some (0, w\<lparr>engine := (engine w)\<lparr>fingerprint_ok := True, srtp_ready := True\<rparr>\<rparr>) } } })"

definition want_io :: "int \<Rightarrow> bool" where
  "want_io err \<longleftrightarrow> err = SSL_ERROR_WANT_READ \<or> err = SSL_ERROR_WANT_WRITE"

text \<open>The first call: \<open>SSL_accept\<close>. The flag says whether the function goes on.\<close>

definition pump_accept ::
  "'s ssl_env \<Rightarrow> ('s, 'u) DtlsSrtpCallbacks \<Rightarrow> ('s, 'u) dtls_world \<Rightarrow> (bool \<times> ('s, 'u) dtls_world) option" where
  "pump_accept io cb w = do {
     let w = w\<lparr>engine := (engine w)\<lparr>handshake_started := True\<rparr>,
               g_stats := (g_stats w)\<lparr>handshakes_started := handshakes_started (g_stats w) + 1\<rparr>\<rparr>;
     w \<leftarrow> dtls_set_state (on_state cb) DTLS_SRTP_HANDSHAKING w;
     (got, w) \<leftarrow> run_bio cb (ssl_bio (ssl_accept io)) w;
     if ssl_rc (ssl_accept io) = 1 then Some (True, w)
     else
       (let err = ssl_err (ssl_accept io) in
        if \<not> want_io err then do {
          let w = count_failure (note_failure (''SSL_accept: '' @
                    (if err = SSL_ERROR_SSL then ''protocol error''
                     else if err = SSL_ERROR_SYSCALL then ''unexpected EOF''
                     else ''handshake rejected'') @ '' ('' @ show_int err @ '')'') w);
          w \<leftarrow> dtls_set_state (on_state cb) DTLS_SRTP_FAILED w;
          Some (False, w) }
        else Some (True, w)) }"

text \<open>Every later call: \<open>SSL_read\<close>.\<close>

definition pump_read ::
  "'s ssl_env \<Rightarrow> ('s, 'u) DtlsSrtpCallbacks \<Rightarrow> ('s, 'u) dtls_world \<Rightarrow> (bool \<times> ('s, 'u) dtls_world) option" where
  "pump_read io cb w = do {
     (got, w) \<leftarrow> run_bio cb (ssl_bio (ssl_read io)) w;
     let rc = ssl_rc (ssl_read io);
     if rc < 0 then
       (let err = ssl_err (ssl_read io) in
        if \<not> want_io err then do {
          let w = note_failure (''SSL_read: error '' @ show_int err) w;
          w \<leftarrow> dtls_set_state (on_state cb) DTLS_SRTP_FAILED w;
          Some (False, w) }
        else Some (True, w))
     else if rc = 0 then do {
       w \<leftarrow> dtls_set_state (on_state cb) DTLS_SRTP_CLOSED w;
       Some (False, w) }
     else Some (True, w) }"

text \<open>The end of the handshake.\<close>

definition pump_finish ::
  "'s ssl_env \<Rightarrow> ('s, 'u) DtlsSrtpCallbacks \<Rightarrow> ('s, 'u) dtls_world \<Rightarrow> ('s, 'u) dtls_world option" where
  "pump_finish io cb w =
     (if \<not> srtp_ready (engine w) \<and> init_finished io then do {
        (rc, w) \<leftarrow> derive_srtp_keys io w;
        if rc \<noteq> 0 then do {
          let w = (if failure_reason (engine w) = [] then note_failure ''SRTP key derivation failed'' w else w);
          dtls_set_state (on_state cb) DTLS_SRTP_FAILED (count_failure w) }
        else do {
          let w = w\<lparr>engine := (engine w)\<lparr>failure_reason := []\<rparr>,
                    g_stats := (g_stats w)\<lparr>handshakes_completed := handshakes_completed (g_stats w) + 1\<rparr>\<rparr>;
          w \<leftarrow> dtls_set_state (on_state cb) DTLS_SRTP_CONNECTED w;
          case on_connected cb of None \<Rightarrow> Some w | Some f \<Rightarrow> f w } }
      else Some w)"

definition pump_ssl ::
  "'s ssl_env \<Rightarrow> ('s, 'u) DtlsSrtpCallbacks \<Rightarrow> ('s, 'u) dtls_world \<Rightarrow> ('s, 'u) dtls_world option" where
  "pump_ssl io cb w =
     (if dtls_state (engine w) = DTLS_SRTP_CLOSED \<or> dtls_state (engine w) = DTLS_SRTP_FAILED then Some w
      else do {
        (continue, w) \<leftarrow> (if \<not> handshake_started (engine w) then pump_accept io cb w else pump_read io cb w);
        if continue then pump_finish io cb w else Some w })"

record create_env =
  calloc_ok :: bool
  bio_new_ok :: bool
  ssl_new_ok :: bool

definition fresh_engine :: "'s DtlsSrtp" where
  "fresh_engine = \<lparr>dtls_state = DTLS_SRTP_INIT, rxq = replicate DTLS_RX_QUEUE \<lparr>rx_data = None, rx_len = 0\<rparr>,
     rx_head = 0, rx_tail = 0, rx_count = 0, srtp_out = None, srtp_in = None, srtp_ready = False,
     expected_fingerprint = [], failure_reason = [], handshake_started = False, fingerprint_ok = False\<rparr>"

definition dtls_srtp_session_create :: "create_env \<Rightarrow> DtlsGlobals \<Rightarrow> 's DtlsSrtp option" where
  "dtls_srtp_session_create io g =
     (if \<not> g_ctx g then None
      else if \<not> calloc_ok io then None
      else if \<not> bio_new_ok io then None
      else if \<not> ssl_new_ok io then None
      else Some fresh_engine)"

definition dtls_srtp_set_expected_fingerprint :: "string option \<Rightarrow> 's DtlsSrtp \<Rightarrow> 's DtlsSrtp" where
  "dtls_srtp_set_expected_fingerprint fp session =
     (case fp of None \<Rightarrow> session | Some f \<Rightarrow> session\<lparr>expected_fingerprint := fit 128 f\<rparr>)"

text \<open>The queue part of \<open>dtls_srtp_on_udp\<close>; \<open>mem_ok\<close> is the answer of \<open>malloc\<close>.\<close>

definition rx_enqueue :: "bool \<Rightarrow> bytes \<Rightarrow> 's DtlsSrtp \<Rightarrow> (bool \<times> 's DtlsSrtp) option" where
  "rx_enqueue mem_ok packet session = do {
     session \<leftarrow> (if rx_count session \<ge> DTLS_RX_QUEUE then pop_head session else Some session);
     let tail = rx_tail session;
     pkt \<leftarrow> rd (rxq session) tail;
     if \<not> mem_ok then do {
       q \<leftarrow> wr (rxq session) tail (pkt\<lparr>rx_data := None\<rparr>);
       Some (False, session\<lparr>rxq := q\<rparr>) }
     else do {
       q \<leftarrow> wr (rxq session) tail \<lparr>rx_data = Some packet, rx_len = length packet\<rparr>;
       Some (True, session\<lparr>rxq := q, rx_tail := (tail + 1) mod DTLS_RX_QUEUE,
                           rx_count := rx_count session + 1\<rparr>) } }"

definition dtls_srtp_on_udp ::
  "'s ssl_env \<Rightarrow> ('s, 'u) DtlsSrtpCallbacks \<Rightarrow> bool \<Rightarrow> bytes \<Rightarrow> ('s, 'u) dtls_world \<Rightarrow> ('s, 'u) dtls_world option" where
  "dtls_srtp_on_udp io cb mem_ok packet w =
     (if dtls_state (engine w) = DTLS_SRTP_FAILED \<or> dtls_state (engine w) = DTLS_SRTP_CLOSED then Some w
      else do {
        (queued, e) \<leftarrow> rx_enqueue mem_ok packet (engine w);
        let w = w\<lparr>engine := e\<rparr>;
        if queued then pump_ssl io cb w else Some w })"

definition dtls_srtp_tick ::
  "'s ssl_env \<Rightarrow> ('s, 'u) DtlsSrtpCallbacks \<Rightarrow> ('s, 'u) dtls_world \<Rightarrow> ('s, 'u) dtls_world option" where
  "dtls_srtp_tick io cb w =
     (if dtls_state (engine w) \<noteq> DTLS_SRTP_HANDSHAKING then Some w
      else do {
        w \<leftarrow> (if dtls_timer io = Some (0, 0) then do { (got, w) \<leftarrow> run_bio cb (timeout_bio io) w; Some w }
              else Some w);
        pump_ssl io cb w })"

text \<open>The sum is an \<open>int\<close> in C; the timer of a handshake is at most a minute.\<close>

definition dtls_srtp_next_timeout_ms :: "'s ssl_env \<Rightarrow> 's DtlsSrtp \<Rightarrow> int" where
  "dtls_srtp_next_timeout_ms io session =
     (if dtls_state session \<noteq> DTLS_SRTP_HANDSHAKING \<and> dtls_state session \<noteq> DTLS_SRTP_INIT then -1
      else case dtls_timer io of
        None \<Rightarrow> -1
      | Some (sec, usec) \<Rightarrow> sint (of_nat (sec * 1000 + (usec + 999) div 1000) :: 32 word))"

text \<open>
  libsrtp2 protects a packet in place. Its answer is an argument: the context it leaves (the
  rollover counter and the replay window are in there), and the packet, \<open>None\<close> for a status
  other than ok. \<open>cap\<close> is the size of the caller's array, in which the packet grows: an answer that
  does not fit is written past its end.
\<close>

type_synonym 's srtp_op = "'s \<Rightarrow> bytes \<Rightarrow> 's \<times> bytes option"

definition dtls_srtp_send ::
  "'s srtp_op \<Rightarrow> ('s, 'u) DtlsSrtpCallbacks \<Rightarrow> nat \<Rightarrow> bytes \<Rightarrow> ('s, 'u) dtls_world \<Rightarrow> (int \<times> bytes \<times> ('s, 'u) dtls_world) option" where
  "dtls_srtp_send protect cb cap pkt w =
     (if \<not> srtp_ready (engine w) then Some (-1, pkt, w)
      else do {
        ctx \<leftarrow> srtp_out (engine w);
        case protect ctx pkt of
          (ctx, None) \<Rightarrow> Some (-1, pkt, w\<lparr>engine := (engine w)\<lparr>srtp_out := Some ctx\<rparr>\<rparr>)
        | (ctx, Some pkt) \<Rightarrow>
            if length pkt > cap then None
            else do {
              f \<leftarrow> send_udp cb;
              w \<leftarrow> f pkt (w\<lparr>engine := (engine w)\<lparr>srtp_out := Some ctx\<rparr>\<rparr>);
              Some (0, pkt, w) } })"

definition dtls_srtp_send_rtp ::
  "'s srtp_op \<Rightarrow> ('s, 'u) DtlsSrtpCallbacks \<Rightarrow> nat \<Rightarrow> bytes \<Rightarrow> ('s, 'u) dtls_world \<Rightarrow> (int \<times> bytes \<times> ('s, 'u) dtls_world) option" where
  "dtls_srtp_send_rtp srtp_protect = dtls_srtp_send srtp_protect"

definition dtls_srtp_send_rtcp ::
  "'s srtp_op \<Rightarrow> ('s, 'u) DtlsSrtpCallbacks \<Rightarrow> nat \<Rightarrow> bytes \<Rightarrow> ('s, 'u) dtls_world \<Rightarrow> (int \<times> bytes \<times> ('s, 'u) dtls_world) option" where
  "dtls_srtp_send_rtcp srtp_protect_rtcp = dtls_srtp_send srtp_protect_rtcp"

definition dtls_srtp_unprotect_rtcp ::
  "'s srtp_op \<Rightarrow> bytes \<Rightarrow> 's DtlsSrtp \<Rightarrow> (int \<times> bytes \<times> 's DtlsSrtp) option" where
  "dtls_srtp_unprotect_rtcp unprotect pkt session =
     (if \<not> srtp_ready session then Some (-1, pkt, session)
      else do {
        ctx \<leftarrow> srtp_in session;
        case unprotect ctx pkt of
          (ctx, None) \<Rightarrow> Some (-1, pkt, session\<lparr>srtp_in := Some ctx\<rparr>)
        | (ctx, Some pkt) \<Rightarrow> Some (0, pkt, session\<lparr>srtp_in := Some ctx\<rparr>) })"

text \<open>The state callback is an argument of its own: it may close the engine again.\<close>

definition dtls_srtp_close ::
  "'s ssl_env \<Rightarrow> ('s, 'u) DtlsSrtpCallbacks \<Rightarrow>
     (DtlsSrtpState \<Rightarrow> ('s, 'u) dtls_world \<Rightarrow> ('s, 'u) dtls_world option) option \<Rightarrow>
     ('s, 'u) dtls_world \<Rightarrow> ('s, 'u) dtls_world option" where
  "dtls_srtp_close io cb notify w = do {
     w \<leftarrow> (if dtls_state (engine w) = DTLS_SRTP_CONNECTED
           then do { (got, w) \<leftarrow> run_bio cb (shutdown_bio io) w; Some w }
           else Some w);
     dtls_set_state notify DTLS_SRTP_CLOSED w }"

text \<open>The datagram buffers that \<open>dtls_srtp_session_destroy\<close> hands to \<open>free\<close>.\<close>

definition dtls_srtp_session_destroy :: "'s DtlsSrtp \<Rightarrow> bytes list" where
  "dtls_srtp_session_destroy session = List.map_filter rx_data (rxq session)"

definition dtls_srtp_global_stats :: "('s, 'u) dtls_world \<Rightarrow> DtlsSrtpGlobalStats" where
  "dtls_srtp_global_stats w = g_stats w"

definition dtls_srtp_failure_reason :: "'s DtlsSrtp option \<Rightarrow> string" where
  "dtls_srtp_failure_reason session = (case session of None \<Rightarrow> [] | Some s \<Rightarrow> failure_reason s)"

section \<open>The datagram queue\<close>

text \<open>
  \<open>rx_slot s i\<close> is the slot \<open>i\<close> places behind the head. The first \<open>rx_count\<close> of them hold a
  datagram each, every other slot holds no buffer: nothing leaks when a slot is written and
  nothing is freed twice.
\<close>

definition rx_slot :: "'s DtlsSrtp \<Rightarrow> nat \<Rightarrow> DtlsRxPacket" where
  "rx_slot s i = rxq s ! ((rx_head s + i) mod 64)"

definition slot_full :: "DtlsRxPacket \<Rightarrow> bool" where
  "slot_full p \<longleftrightarrow> (case rx_data p of None \<Rightarrow> False | Some d \<Rightarrow> rx_len p = length d)"

definition rx_ok :: "'s DtlsSrtp \<Rightarrow> bool" where
  "rx_ok s \<longleftrightarrow> length (rxq s) = 64 \<and> rx_head s < 64 \<and> rx_count s \<le> 64 \<and>
     rx_tail s = (rx_head s + rx_count s) mod 64 \<and>
     (\<forall>i < 64. if i < rx_count s then slot_full (rx_slot s i) else rx_data (rx_slot s i) = None)"

definition rx_contents :: "'s DtlsSrtp \<Rightarrow> bytes list" where
  "rx_contents s = map (\<lambda>i. the (rx_data (rx_slot s i))) [0..<rx_count s]"

lemma wrap_Suc: "((h + 1) mod 64 + i) mod 64 = (h + Suc i) mod (64 :: nat)"
  by presburger

lemma rx_ok_fresh: "rx_ok fresh_engine" "rx_contents fresh_engine = []"
  by (auto simp: rx_ok_def rx_contents_def fresh_engine_def rx_slot_def DTLS_RX_QUEUE_def)

lemma rx_full_data: "slot_full p \<Longrightarrow> rx_data p = Some (the (rx_data p)) \<and> rx_len p = length (the (rx_data p))"
  by (auto simp: slot_full_def split: option.splits)

lemma pop_head_spec:
  assumes "rx_ok s" "0 < rx_count s"
  shows "\<exists>q. pop_head s = Some (s\<lparr>rxq := q, rx_count := rx_count s - 1, rx_head := (rx_head s + 1) mod 64\<rparr>) \<and>
     rx_ok (s\<lparr>rxq := q, rx_count := rx_count s - 1, rx_head := (rx_head s + 1) mod 64\<rparr>) \<and>
     rx_contents (s\<lparr>rxq := q, rx_count := rx_count s - 1, rx_head := (rx_head s + 1) mod 64\<rparr>) = tl (rx_contents s)"
proof -
  let ?h = "rx_head s"
  define q where "q = (rxq s)[?h := (rxq s ! ?h)\<lparr>rx_data := None\<rparr>]"
  let ?t = "s\<lparr>rxq := q, rx_count := rx_count s - 1, rx_head := (?h + 1) mod 64\<rparr>"
  have b: "?h < length (rxq s)" "length q = 64" using assms by (auto simp: rx_ok_def q_def)
  have slot: "rx_slot ?t i = rx_slot s (Suc i)" if "i < 63" for i
  proof -
    have "(?h + Suc i) mod 64 \<noteq> ?h"
      using that assms(1) slot_index_inj [of ?h 64 "Suc i" 0] by (auto simp: rx_ok_def)
    then have "q ! ((?h + Suc i) mod 64) = rxq s ! ((?h + Suc i) mod 64)" by (simp add: q_def)
    moreover have "rx_slot ?t i = q ! (((?h + 1) mod 64 + i) mod 64)" by (simp add: rx_slot_def)
    ultimately show ?thesis by (simp only: rx_slot_def wrap_Suc)
  qed
  have last_slot: "rx_data (rx_slot ?t 63) = None"
  proof -
    have "((?h + 1) mod 64 + 63) mod 64 = (?h + 64) mod 64" by (subst wrap_Suc) simp
    then have "rx_slot ?t 63 = q ! ?h" using assms(1) by (simp add: rx_slot_def rx_ok_def)
    then show ?thesis using b by (simp add: q_def)
  qed
  have "rx_ok ?t"
    unfolding rx_ok_def
  proof (intro conjI allI impI)
    show "rx_tail ?t = (rx_head ?t + rx_count ?t) mod 64"
      using assms wrap_Suc [of ?h "rx_count s - 1"] by (simp add: rx_ok_def)
    fix i :: nat assume "i < 64"
    then consider "i < 63" | "i = 63" by linarith
    then show "if i < rx_count ?t then slot_full (rx_slot ?t i) else rx_data (rx_slot ?t i) = None"
    proof cases
      case 1
      then show ?thesis using assms slot [OF 1] by (auto simp: rx_ok_def dest: spec [of _ "Suc i"])
    next
      case 2
      then show ?thesis using last_slot assms by (auto simp: rx_ok_def)
    qed
  qed (use assms b in \<open>auto simp: rx_ok_def\<close>)
  moreover have "rx_contents ?t = tl (rx_contents s)"
  proof -
    have "rx_contents ?t = map (\<lambda>i. the (rx_data (rx_slot s (Suc i)))) [0..<rx_count s - 1]"
      unfolding rx_contents_def using assms slot by (intro map_cong) (auto simp: rx_ok_def)
    also have "\<dots> = map (\<lambda>i. the (rx_data (rx_slot s i))) [Suc 0..<rx_count s]"
      using assms(2) by (cases "rx_count s") (simp_all add: map_Suc_upt [symmetric] comp_def del: upt_Suc)
    finally show ?thesis using assms(2) by (simp add: rx_contents_def map_tl [symmetric] tl_upt)
  qed
  moreover have "pop_head s = Some ?t" using b by (simp add: pop_head_def q_def DTLS_RX_QUEUE_def)
  ultimately show ?thesis by blast
qed

lemma pop_head_frame:
  "pop_head s = Some s' \<Longrightarrow> s' = s\<lparr>rxq := rxq s', rx_count := rx_count s', rx_head := rx_head s'\<rparr>"
  by (cases s) (auto simp: pop_head_def split: bind_splits)

text \<open>A datagram is appended in the slot behind the last one.\<close>

lemma rx_append:
  fixes s :: "'s DtlsSrtp" and d :: bytes
  assumes "rx_ok s" "rx_count s < 64"
  defines "t \<equiv> s\<lparr>rxq := (rxq s)[rx_tail s := \<lparr>rx_data = Some d, rx_len = length d\<rparr>],
     rx_tail := (rx_tail s + 1) mod 64, rx_count := rx_count s + 1\<rparr>"
  shows "rx_ok t \<and> rx_contents t = rx_contents s @ [d]"
proof -
  let ?n = "rx_count s" and ?h = "rx_head s"
  have b: "length (rxq s) = 64" "?h < 64" "rx_tail s = (?h + ?n) mod 64" using assms(1) by (auto simp: rx_ok_def)
  have slot: "rx_slot t i = rx_slot s i" if "i < 64" "i \<noteq> ?n" for i
  proof -
    have "(?h + i) mod 64 \<noteq> rx_tail s" using that b assms(2) slot_index_inj [of ?h 64 i ?n] by auto
    then show ?thesis by (simp add: rx_slot_def t_def)
  qed
  have new: "rx_slot t ?n = \<lparr>rx_data = Some d, rx_len = length d\<rparr>"
    using b by (simp add: rx_slot_def t_def)
  have "rx_ok t"
    unfolding rx_ok_def
  proof (intro conjI allI impI)
    fix i :: nat assume i: "i < 64"
    show "if i < rx_count t then slot_full (rx_slot t i) else rx_data (rx_slot t i) = None"
    proof (cases "i = ?n")
      case True
      then show ?thesis using new by (simp add: t_def slot_full_def)
    next
      case False
      then have "if i < ?n then slot_full (rx_slot t i) else rx_data (rx_slot t i) = None"
        using assms(1) i slot [OF i False] by (auto simp: rx_ok_def)
      then show ?thesis using False by (simp add: t_def split: if_splits)
    qed
  qed (use assms b in \<open>auto simp: t_def mod_simps add.assoc\<close>)
  moreover have "rx_contents t = rx_contents s @ [d]"
  proof -
    have "map (\<lambda>i. the (rx_data (rx_slot t i))) [0..<?n] = map (\<lambda>i. the (rx_data (rx_slot s i))) [0..<?n]"
      using assms(2) slot by (intro map_cong) auto
    moreover have "rx_contents t = map (\<lambda>i. the (rx_data (rx_slot t i))) [0..<?n] @ [the (rx_data (rx_slot t ?n))]"
      by (simp add: rx_contents_def t_def)
    ultimately show ?thesis by (simp add: rx_contents_def new)
  qed
  ultimately show ?thesis ..
qed

text \<open>What the queue part of an operation may change.\<close>

definition same_engine :: "'s DtlsSrtp \<Rightarrow> 's DtlsSrtp \<Rightarrow> bool" where
  "same_engine s t \<longleftrightarrow> t = s\<lparr>rxq := rxq t, rx_head := rx_head t, rx_tail := rx_tail t, rx_count := rx_count t\<rparr>"

lemma same_engine_refl [simp]: "same_engine s s"
  by (simp add: same_engine_def)

lemma same_engine_trans: "same_engine s t \<Longrightarrow> same_engine t u \<Longrightarrow> same_engine s u"
  by (cases s; cases t; cases u) (auto simp: same_engine_def)

lemma same_engine_queue [simp]:
  "same_engine s (t\<lparr>rxq := q, rx_tail := n, rx_count := k\<rparr>) = same_engine s t"
  by (cases s; cases t) (auto simp: same_engine_def)

lemma length_contents: "length (rx_contents s) = rx_count s"
  by (simp add: rx_contents_def)

lemma rx_enqueue_spec:
  assumes "rx_ok s"
  shows "\<exists>t. rx_enqueue mem_ok d s = Some (mem_ok, t) \<and> rx_ok t \<and> same_engine s t \<and>
     rx_contents t = (if length (rx_contents s) = 64 then tl (rx_contents s) else rx_contents s) @ (if mem_ok then [d] else [])"
proof -
  obtain r where r: "(if rx_count s \<ge> 64 then pop_head s else Some s) = Some r" "rx_ok r" "rx_count r < 64"
    "rx_contents r = (if rx_count s = 64 then tl (rx_contents s) else rx_contents s)" "same_engine s r"
  proof (cases "rx_count s = 64")
    case True
    then obtain q where "pop_head s = Some (s\<lparr>rxq := q, rx_count := rx_count s - 1, rx_head := (rx_head s + 1) mod 64\<rparr>)"
      "rx_ok (s\<lparr>rxq := q, rx_count := rx_count s - 1, rx_head := (rx_head s + 1) mod 64\<rparr>)"
      "rx_contents (s\<lparr>rxq := q, rx_count := rx_count s - 1, rx_head := (rx_head s + 1) mod 64\<rparr>) = tl (rx_contents s)"
      using pop_head_spec [OF assms] by auto
    with True show ?thesis by (intro that) (auto simp: same_engine_def)
  next
    case False
    then show ?thesis using assms by (intro that [of s]) (auto simp: rx_ok_def)
  qed
  have tl: "rx_tail r < length (rxq r)" using r(2) by (auto simp: rx_ok_def)
  have free: "rx_data (rxq r ! rx_tail r) = None"
    using r(2,3) by (auto simp: rx_ok_def rx_slot_def dest!: spec [of _ "rx_count r"])
  show ?thesis
  proof (cases mem_ok)
    case True
    then have "rx_enqueue mem_ok d s = Some (True, r\<lparr>rxq := (rxq r)[rx_tail r := \<lparr>rx_data = Some d, rx_len = length d\<rparr>],
        rx_tail := (rx_tail r + 1) mod 64, rx_count := rx_count r + 1\<rparr>)"
      using r(1) tl by (simp add: rx_enqueue_def DTLS_RX_QUEUE_def Let_def)
    with True show ?thesis
      using rx_append [OF r(2,3), of d] r(4,5) by (auto simp: length_contents)
  next
    case False
    have "(rxq r ! rx_tail r)\<lparr>rx_data := None\<rparr> = rxq r ! rx_tail r"
      using free by (cases "rxq r ! rx_tail r") simp
    then have "rx_enqueue mem_ok d s = Some (False, r)"
      using False r(1) tl by (simp add: rx_enqueue_def DTLS_RX_QUEUE_def Let_def)
    with False show ?thesis using r by (auto simp: length_contents)
  qed
qed

lemma bio_rx_read_spec:
  assumes "rx_ok s"
  shows "\<exists>rc bs t. bio_rx_read n s = Some (rc, bs, t) \<and> rx_ok t \<and> same_engine s t \<and> rx_contents t = tl (rx_contents s) \<and>
     (case rx_contents s of
        [] \<Rightarrow> rc = - 1
      | d # ds \<Rightarrow> if nat (n mod 2 ^ 64) < length d then rc = - 1 else rc = int (length d) \<and> bs = d)"
proof (cases "rx_count s = 0")
  case True
  then show ?thesis using assms by (simp add: bio_rx_read_def rx_contents_def)
next
  case False
  then obtain t where t: "pop_head s = Some t" "rx_ok t" "rx_contents t = tl (rx_contents s)" "same_engine s t"
    using pop_head_spec [OF assms] by (auto simp: same_engine_def)
  let ?p = "rxq s ! rx_head s"
  have hd: "rx_head s < length (rxq s)" "rx_slot s 0 = ?p" using assms by (auto simp: rx_ok_def rx_slot_def)
  then have "slot_full ?p" using assms False by (auto simp: rx_ok_def dest!: spec [of _ "0 :: nat"])
  from rx_full_data [OF this] obtain d where d: "rx_data ?p = Some d" "rx_len ?p = length d" by auto
  moreover have "rx_contents s = d # tl (rx_contents s)"
    using False d hd(2) by (simp add: rx_contents_def upt_conv_Cons)
  moreover have "rd (rxq s) (rx_head s) = Some ?p" using hd by simp
  ultimately show ?thesis
    using t False by (cases "nat (n mod 2 ^ 64) < length d") (auto simp: bio_rx_read_def split: list.splits)
qed

definition rx_push :: "'s DtlsSrtp \<Rightarrow> bytes \<Rightarrow> 's DtlsSrtp" where
  "rx_push s d = (case rx_enqueue True d s of Some (_, t) \<Rightarrow> t | None \<Rightarrow> s)"

interpretation rx: drop_oldest_queue rx_ok rx_contents "\<lambda>_. 64" "\<lambda>_ _. True" rx_push
proof (unfold_locales, goal_cases)
  case (2 s)
  then show ?case by (simp add: rx_ok_def length_contents)
next
  case (3 s x)
  then show ?case using rx_enqueue_spec [of s True x] by (auto simp: rx_push_def)
next
  case (4 s x)
  then show ?case using rx_enqueue_spec [of s True x] by (auto simp: rx_push_def)
qed simp_all

section \<open>Fingerprints\<close>

definition hex_text :: "bytes \<Rightarrow> string" where
  "hex_text md = concat (map hex2 md)"

definition fingerprint_text :: "bytes \<Rightarrow> string" where
  "fingerprint_text md = ''sha-256 '' @ (case md of [] \<Rightarrow> [] | b # r \<Rightarrow> hex2 b @ concat (map (\<lambda>b. CHR '':'' # hex2 b) r))"

lemma fingerprint_loop_rest:
  "offset + 3 * length md < 128 \<Longrightarrow>
     fingerprint_loop False offset acc md = Some (acc @ concat (map (\<lambda>b. CHR '':'' # hex2 b) md))"
proof (induction md arbitrary: offset acc)
  case (Cons b md)
  then have "take (128 - offset - 1) (CHR '':'' # hex2 b) = CHR '':'' # hex2 b" by (simp add: hex2_def)
  then show ?case using Cons by (simp add: Let_def hex2_def)
qed simp

lemma format_fingerprint_text: "length md = 32 \<Longrightarrow> format_fingerprint md = Some (fingerprint_text md)"
  by (cases md) (simp_all add: format_fingerprint_def fingerprint_text_def Let_def fingerprint_loop_rest hex2_def)

lemma hex_char_code: "n < 16 \<Longrightarrow> of_char (hex_char n) = (if n < 10 then 48 + n else 55 + n)"
  by (simp add: hex_char_def)

lemma char_eq_code: "c = d \<longleftrightarrow> (of_char c :: nat) = of_char d"
  by simp

lemma hex_char_facts:
  assumes "n < 16"
  shows "hex_char n \<noteq> CHR '':''" "hex_char n \<noteq> CHR '' ''" "fold_hex (hex_char n) = hex_char n"
    "fold_hex (tolower (hex_char n)) = hex_char n" "tolower (hex_char n) \<noteq> CHR '':''"
proof -
  note code = hex_char_code [OF assms]
  have low: "of_char (tolower (hex_char n)) = (if n < 10 then 48 + n else 87 + n)"
    using assms by (simp add: tolower_def Let_def code)
  have "of_char (hex_char n) \<noteq> (58 :: nat)" "of_char (hex_char n) \<noteq> (32 :: nat)"
    "of_char (tolower (hex_char n)) \<noteq> (58 :: nat)"
    using assms by (auto simp: code low)
  then show "hex_char n \<noteq> CHR '':''" "hex_char n \<noteq> CHR '' ''" "tolower (hex_char n) \<noteq> CHR '':''"
    by (auto simp: char_eq_code simp del: of_char_eq_iff)
  show "fold_hex (hex_char n) = hex_char n"
    using assms by (simp add: fold_hex_def code Let_def)
  show "fold_hex (tolower (hex_char n)) = hex_char n"
    using assms by (auto simp: char_eq_code fold_hex_def low code Let_def simp del: of_char_eq_iff)
qed

lemma hex_char_inj:
  assumes "m < 16" "n < 16" "hex_char m = hex_char n"
  shows "m = n"
proof -
  have "(of_char (hex_char m) :: nat) = of_char (hex_char n)" by (simp only: assms(3))
  then show ?thesis using assms(1,2) unfolding hex_char_code [OF assms(1)] hex_char_code [OF assms(2)]
    by (simp split: if_splits)
qed

lemma nibbles: "unat (b :: u8) div 16 < 16" "unat (b :: u8) mod 16 < 16"
proof -
  have "unat b < 2 ^ 8" using unsigned_less [of b] by simp
  then show "unat b div 16 < 16" "unat b mod 16 < 16" by (simp_all add: less_mult_imp_div_less)
qed

lemma hex2_inj: "hex2 a = hex2 b \<Longrightarrow> a = b"
proof -
  assume "hex2 a = hex2 b"
  then have "unat a div 16 = unat b div 16" "unat a mod 16 = unat b mod 16"
    using hex_char_inj nibbles by (auto simp: hex2_def)
  then have "unat a = unat b" by (metis div_mult_mod_eq)
  then show "a = b" by (simp add: word_unat_eq_iff)
qed

lemma hex_text_inj: "hex_text a = hex_text b \<Longrightarrow> a = b"
proof (induction a arbitrary: b)
  case Nil
  then show ?case by (cases b) (auto simp: hex_text_def hex2_def)
next
  case (Cons x a)
  then obtain y c where b: "b = y # c" by (cases b) (auto simp: hex_text_def hex2_def)
  with Cons.prems have "hex2 x = hex2 y" "hex_text a = hex_text c" by (auto simp: hex_text_def hex2_def)
  with Cons.IH b hex2_inj show ?case by auto
qed

lemma hex_text_length [simp]: "length (hex_text md) = 2 * length md"
  by (induction md) (auto simp: hex_text_def hex2_def)

text \<open>Dropping the colons and folding the case gives the digits back, from either case.\<close>

lemma normal_digits:
  "map fold_hex (filter (\<lambda>c. c \<noteq> CHR '':'') (concat (map (\<lambda>b. CHR '':'' # hex2 b) md))) = hex_text md"
  "map fold_hex (filter (\<lambda>c. c \<noteq> CHR '':'') (map tolower (concat (map (\<lambda>b. CHR '':'' # hex2 b) md)))) = hex_text md"
proof (induction md)
  case (Cons b md)
  {
    case 1
    show ?case using Cons(1) nibbles [of b] by (simp add: hex_text_def hex2_def hex_char_facts)
  next
    case 2
    have "tolower (CHR '':'') = CHR '':''" by code_simp
    then show ?case using Cons(2) nibbles [of b] by (simp add: hex_text_def hex2_def hex_char_facts)
  }
qed (simp_all add: hex_text_def)

lemma after_space_prefix:
  assumes "CHR '' '' \<notin> set a"
  shows "after_space (a @ CHR '' '' # t) = t"
proof -
  have "dropWhile (\<lambda>x. x \<noteq> CHR '' '') (a @ CHR '' '' # t) = CHR '' '' # t" using assms by (induction a) auto
  then show ?thesis by (simp add: after_space_def strchr_def)
qed

lemma normal_fingerprint:
  assumes "length md = 32"
  shows "map fold_hex (filter (\<lambda>c. c \<noteq> CHR '':'') (after_space (fingerprint_text md))) = hex_text md"
    "map fold_hex (filter (\<lambda>c. c \<noteq> CHR '':'') (after_space (map tolower (fingerprint_text md)))) = hex_text md"
proof -
  obtain b r where md: "md = b # r" using assms by (cases md) auto
  let ?t = "hex2 b @ concat (map (\<lambda>b. CHR '':'' # hex2 b) r)"
  have "fingerprint_text md = ''sha-256'' @ CHR '' '' # ?t" by (simp add: fingerprint_text_def md)
  moreover have "map tolower (''sha-256'' @ CHR '' '' # ?t) = ''sha-256'' @ CHR '' '' # map tolower ?t"
  proof -
    have "map tolower ''sha-256'' = ''sha-256''" "tolower (CHR '' '') = CHR '' ''" by code_simp+
    then show ?thesis by simp
  qed
  ultimately have a: "after_space (fingerprint_text md) = ?t" "after_space (map tolower (fingerprint_text md)) = map tolower ?t"
    by (simp_all only: after_space_prefix) (simp_all add: after_space_prefix [of "''sha-256''", simplified])
  show "map fold_hex (filter (\<lambda>c. c \<noteq> CHR '':'') (after_space (fingerprint_text md))) = hex_text md"
    "map fold_hex (filter (\<lambda>c. c \<noteq> CHR '':'') (after_space (map tolower (fingerprint_text md)))) = hex_text md"
    unfolding a using nibbles [of b] normal_digits [of r]
    by (simp_all add: md hex_text_def hex2_def hex_char_facts)
qed

section \<open>Key derivation\<close>

text \<open>
  What the code relies on: \<open>SSL_export_keying_material\<close> fills the 60 bytes it was asked for and a
  SHA-256 digest has 32 bytes.
\<close>

definition env_ok :: "'s ssl_env \<Rightarrow> bool" where
  "env_ok io \<longleftrightarrow> (case exported io of None \<Rightarrow> True | Some m \<Rightarrow> length m = SRTP_KEY_MATERIAL_LEN) \<and>
     (case peer_digest io of Some (Some md) \<Rightarrow> length md = 32 | _ \<Rightarrow> True)"

text \<open>The peer proved the certificate that the offer announced; an empty fingerprint is not checked.\<close>

definition peer_verified :: "'s ssl_env \<Rightarrow> string \<Rightarrow> bool" where
  "peer_verified io fp \<longleftrightarrow> fp = [] \<or>
     (case peer_digest io of Some (Some md) \<Rightarrow> fingerprint_hex_equal fp md = Some True | _ \<Rightarrow> False)"

text \<open>The layout of RFC 5764: client key, server key, client salt, server salt.\<close>

definition server_master :: "bytes \<Rightarrow> bytes" where
  "server_master m = take 16 (drop 16 m) @ take 14 (drop 46 m)"

definition client_master :: "bytes \<Rightarrow> bytes" where
  "client_master m = take 16 m @ take 14 (drop 32 m)"

definition keys_from :: "'s ssl_env \<Rightarrow> 's DtlsSrtp \<Rightarrow> bool" where
  "keys_from io e \<longleftrightarrow> (case exported io of
       None \<Rightarrow> False
     | Some m \<Rightarrow> srtp_out e = srtp_create io ssrc_any_outbound (server_master m) \<and> srtp_out e \<noteq> None \<and>
         srtp_in e = srtp_create io ssrc_any_inbound (client_master m) \<and> srtp_in e \<noteq> None)"

lemma world_update_order [simp]: "w\<lparr>g_stats := g, engine := e\<rparr> = w\<lparr>engine := e, g_stats := g\<rparr>"
  by simp

lemma verify_peer_cases:
  assumes "env_ok io"
  obtains (ok) "verify_peer io w = Some (0, w)" "peer_verified io (expected_fingerprint (engine w))"
  | (bad) g r where "verify_peer io w = Some (- 1, w\<lparr>engine := (engine w)\<lparr>failure_reason := r\<rparr>, g_stats := g\<rparr>)"
      "\<not> peer_verified io (expected_fingerprint (engine w))"
      "handshake_failures g = handshake_failures (g_stats w) + 1"
proof -
  have fp: "\<exists>b. fingerprint_hex_equal f md = Some b" if "length md = 32" for f md
    using that by (simp add: fingerprint_hex_equal_def Let_def)
  consider "expected_fingerprint (engine w) = []"
    | "expected_fingerprint (engine w) \<noteq> []" "peer_digest io = None"
    | "expected_fingerprint (engine w) \<noteq> []" "peer_digest io = Some None"
    | md where "expected_fingerprint (engine w) \<noteq> []" "peer_digest io = Some (Some md)" "length md = 32"
    using assms by (auto simp: env_ok_def split: option.splits)
  then show ?thesis
  proof cases
    case 1
    then show ?thesis by (intro ok) (auto simp: verify_peer_def peer_verified_def)
  next
    case 2
    then show ?thesis
      by (intro bad) (auto simp: verify_peer_def peer_verified_def count_failure_def note_failure_def)
  next
    case 3
    then show ?thesis
      by (intro bad) (auto simp: verify_peer_def peer_verified_def count_failure_def note_failure_def count_mismatch_def)
  next
    case 4
    from fp [OF 4(3), of "expected_fingerprint (engine w)"]
    obtain b where "fingerprint_hex_equal (expected_fingerprint (engine w)) md = Some b" ..
    with 4 show ?thesis
    proof (cases b)
      case True
      with 4 \<open>fingerprint_hex_equal _ md = Some b\<close> show ?thesis
        by (intro ok) (auto simp: verify_peer_def peer_verified_def)
    next
      case False
      with 4 \<open>fingerprint_hex_equal _ md = Some b\<close> show ?thesis
        by (intro bad) (auto simp: verify_peer_def peer_verified_def count_failure_def note_failure_def count_mismatch_def)
    qed
  qed
qed

text \<open>What a failed derivation may leave behind: contexts and a reason, but never readiness.\<close>

lemma derive_srtp_keys_cases:
  assumes "env_ok io"
  obtains (ok) e where "derive_srtp_keys io w = Some (0, w\<lparr>engine := e\<rparr>)" "selected_profile io"
      "keys_from io e" "peer_verified io (expected_fingerprint (engine w))"
      "e = (engine w)\<lparr>srtp_out := srtp_out e, srtp_in := srtp_in e, fingerprint_ok := True, srtp_ready := True\<rparr>"
  | (bad) e g where "derive_srtp_keys io w = Some (- 1, w\<lparr>engine := e, g_stats := g\<rparr>)"
      "e = (engine w)\<lparr>srtp_out := srtp_out e, srtp_in := srtp_in e, failure_reason := failure_reason e\<rparr>"
      "\<not> (selected_profile io \<and> exported io \<noteq> None \<and>
         srtp_create io ssrc_any_outbound (server_master (the (exported io))) \<noteq> None \<and>
         srtp_create io ssrc_any_inbound (client_master (the (exported io))) \<noteq> None \<and>
         peer_verified io (expected_fingerprint (engine w)))"
proof (cases "selected_profile io \<and> exported io \<noteq> None")
  case False
  then show ?thesis
    by (intro bad [where e = "if selected_profile io then engine w else engine (note_failure
          (''peer negotiated no use_srtp profile (offered '' @ SRTP_PROFILE_NAME @ '')'') w)" and g = "g_stats w"])
      (auto simp: derive_srtp_keys_def note_failure_def split: option.splits)
next
  case True
  then obtain m where m: "exported io = Some m" "length m = 60"
    using assms by (auto simp: env_ok_def SRTP_KEY_MATERIAL_LEN_def)
  note run = derive_srtp_keys_def m True server_master_def client_master_def
  show ?thesis
  proof (cases "srtp_create io ssrc_any_outbound (server_master m)")
    case None
    then show ?thesis using m by (intro bad [where e = "engine w" and g = "g_stats w"]) (auto simp: run)
  next
    case (Some out)
    note out = this
    show ?thesis
    proof (cases "srtp_create io ssrc_any_inbound (client_master m)")
      case None
      then show ?thesis using m out
        by (intro bad [where e = "(engine w)\<lparr>srtp_out := Some out\<rparr>" and g = "g_stats w"]) (auto simp: run)
    next
      case (Some inb)
      let ?w = "w\<lparr>engine := (engine w)\<lparr>srtp_out := Some out, srtp_in := Some inb\<rparr>\<rparr>"
      have d: "derive_srtp_keys io w = do { (rc, w) \<leftarrow> verify_peer io ?w;
          if rc \<noteq> 0 then Some (-1, w)
          else Some (0, w\<lparr>engine := (engine w)\<lparr>fingerprint_ok := True, srtp_ready := True\<rparr>\<rparr>) }"
        using out Some by (simp add: run)
      show ?thesis
      proof (rule verify_peer_cases [OF assms, of ?w])
        assume "verify_peer io ?w = Some (0, ?w)" "peer_verified io (expected_fingerprint (engine ?w))"
        with d True m out Some show ?thesis
          by (intro ok [where e = "(engine w)\<lparr>srtp_out := Some out, srtp_in := Some inb, fingerprint_ok := True, srtp_ready := True\<rparr>"])
            (auto simp: keys_from_def)
      next
        fix g r
        assume "verify_peer io ?w = Some (- 1, ?w\<lparr>engine := (engine ?w)\<lparr>failure_reason := r\<rparr>, g_stats := g\<rparr>)"
          "\<not> peer_verified io (expected_fingerprint (engine ?w))"
        with d show ?thesis
          by (intro bad [where e = "(engine w)\<lparr>srtp_out := Some out, srtp_in := Some inb, failure_reason := r\<rparr>" and g = g]) auto
      qed
    qed
  qed
qed

section \<open>The state machine\<close>

definition dtls_edge :: "DtlsSrtpState \<Rightarrow> DtlsSrtpState \<Rightarrow> bool" where
  "dtls_edge a b \<longleftrightarrow> a = DTLS_SRTP_INIT \<and> b = DTLS_SRTP_HANDSHAKING \<or>
     a = DTLS_SRTP_HANDSHAKING \<and> b = DTLS_SRTP_CONNECTED \<or>
     a \<in> {DTLS_SRTP_HANDSHAKING, DTLS_SRTP_CONNECTED} \<and> b = DTLS_SRTP_FAILED \<or>
     a \<noteq> DTLS_SRTP_CLOSED \<and> b = DTLS_SRTP_CLOSED"

definition dtls_inv :: "'s DtlsSrtp \<Rightarrow> bool" where
  "dtls_inv s \<longleftrightarrow> rx_ok s \<and>
     (srtp_ready s \<longrightarrow> fingerprint_ok s \<and> srtp_out s \<noteq> None \<and> srtp_in s \<noteq> None \<and> handshake_started s) \<and>
     (dtls_state s = DTLS_SRTP_INIT \<longrightarrow> \<not> handshake_started s) \<and>
     (dtls_state s = DTLS_SRTP_HANDSHAKING \<longrightarrow> handshake_started s \<and> \<not> srtp_ready s) \<and>
     (dtls_state s = DTLS_SRTP_CONNECTED \<longrightarrow> srtp_ready s)"

lemma rx_ok_cong:
  "rxq s = rxq t \<Longrightarrow> rx_head s = rx_head t \<Longrightarrow> rx_tail s = rx_tail t \<Longrightarrow> rx_count s = rx_count t \<Longrightarrow> rx_ok s = rx_ok t"
  by (simp add: rx_ok_def rx_slot_def)

lemma rx_ok_updates [simp]:
  "rx_ok (s\<lparr>dtls_state := st\<rparr>) = rx_ok s" "rx_ok (s\<lparr>srtp_out := x\<rparr>) = rx_ok s" "rx_ok (s\<lparr>srtp_in := x\<rparr>) = rx_ok s"
  "rx_ok (s\<lparr>srtp_ready := b\<rparr>) = rx_ok s" "rx_ok (s\<lparr>expected_fingerprint := f\<rparr>) = rx_ok s"
  "rx_ok (s\<lparr>failure_reason := f\<rparr>) = rx_ok s" "rx_ok (s\<lparr>handshake_started := b\<rparr>) = rx_ok s"
  "rx_ok (s\<lparr>fingerprint_ok := b\<rparr>) = rx_ok s"
  by (rule rx_ok_cong; simp)+

lemma dtls_inv_fresh: "dtls_inv (fresh_engine\<lparr>expected_fingerprint := f\<rparr>)"
  using rx_ok_fresh by (simp add: dtls_inv_def) (simp add: fresh_engine_def)

lemma same_engine_fields:
  assumes "same_engine s t"
  shows "dtls_state t = dtls_state s" "srtp_ready t = srtp_ready s" "srtp_out t = srtp_out s" "srtp_in t = srtp_in s"
    "handshake_started t = handshake_started s" "fingerprint_ok t = fingerprint_ok s"
    "expected_fingerprint t = expected_fingerprint s"
  by (subst assms [unfolded same_engine_def], simp)+

lemma dtls_inv_same: "dtls_inv s \<Longrightarrow> same_engine s t \<Longrightarrow> rx_ok t \<Longrightarrow> dtls_inv t"
  by (simp add: dtls_inv_def same_engine_fields)

subsection \<open>The contract of the callbacks\<close>

text \<open>
  \<open>I\<close> is what the user keeps about itself in every state of the engine, \<open>C\<close> what it has set up
  once it was told that the handshake is complete. \<open>send_udp\<close> and \<open>on_connected\<close> leave the engine
  alone; \<open>on_state\<close> may close it, but only when it is told that the engine failed or closed.
\<close>

definition client_ok :: "(DtlsSrtpState \<Rightarrow> 'u \<Rightarrow> bool) \<Rightarrow> ('u \<Rightarrow> bool) \<Rightarrow> ('s, 'u) dtls_world \<Rightarrow> bool" where
  "client_ok I C w \<longleftrightarrow> dtls_inv (engine w) \<and> I (dtls_state (engine w)) (user w) \<and>
     (dtls_state (engine w) = DTLS_SRTP_CONNECTED \<longrightarrow> C (user w))"

fun dtls_rank :: "DtlsSrtpState \<Rightarrow> nat" where
  "dtls_rank DTLS_SRTP_INIT = 0"
| "dtls_rank DTLS_SRTP_HANDSHAKING = 1"
| "dtls_rank DTLS_SRTP_CONNECTED = 2"
| "dtls_rank DTLS_SRTP_FAILED = 3"
| "dtls_rank DTLS_SRTP_CLOSED = 4"

lemma dtls_rank_le: "dtls_rank st \<le> 4"
  by (cases st) auto

text \<open>
  The engine only moves forward, keeps its keys once it has them, and gets them only from a
  finished handshake with the peer that the offer announced.
\<close>

definition keeps_keys :: "'s DtlsSrtp \<Rightarrow> 's DtlsSrtp \<Rightarrow> bool" where
  "keeps_keys e e' \<longleftrightarrow> expected_fingerprint e' = expected_fingerprint e \<and> srtp_ready e' = srtp_ready e \<and>
     srtp_out e' = srtp_out e \<and> srtp_in e' = srtp_in e \<and> dtls_rank (dtls_state e) \<le> dtls_rank (dtls_state e')"

definition engine_step :: "'s ssl_env \<Rightarrow> 's DtlsSrtp \<Rightarrow> 's DtlsSrtp \<Rightarrow> bool" where
  "engine_step io e e' \<longleftrightarrow> expected_fingerprint e' = expected_fingerprint e \<and>
     dtls_rank (dtls_state e) \<le> dtls_rank (dtls_state e') \<and>
     (srtp_ready e \<longrightarrow> srtp_ready e' \<and> srtp_out e' = srtp_out e \<and> srtp_in e' = srtp_in e) \<and>
     (\<not> srtp_ready e \<and> srtp_ready e' \<longrightarrow> init_finished io \<and> selected_profile io \<and> keys_from io e' \<and>
        peer_verified io (expected_fingerprint e))"

lemma keeps_keys_trans: "keeps_keys e e' \<Longrightarrow> keeps_keys e' e'' \<Longrightarrow> keeps_keys e e''"
  by (auto simp: keeps_keys_def)

lemma keeps_keys_step: "keeps_keys e e' \<Longrightarrow> engine_step io e' e'' \<Longrightarrow> engine_step io e e''"
  by (auto simp: keeps_keys_def engine_step_def)

lemma engine_step_refl [simp]: "engine_step io e e"
  by (simp add: engine_step_def)

locale dtls_client =
  fixes cb :: "('s, 'u) DtlsSrtpCallbacks"
    and I :: "DtlsSrtpState \<Rightarrow> 'u \<Rightarrow> bool"
    and C :: "'u \<Rightarrow> bool"
    and send :: "bytes \<Rightarrow> ('s, 'u) dtls_world \<Rightarrow> ('s, 'u) dtls_world option"
    and notify :: "DtlsSrtpState \<Rightarrow> ('s, 'u) dtls_world \<Rightarrow> ('s, 'u) dtls_world option"
    and connected :: "('s, 'u) dtls_world \<Rightarrow> ('s, 'u) dtls_world option"
  assumes registered: "send_udp cb = Some send" "on_state cb = Some notify" "on_connected cb = Some connected"
    and send: "I (dtls_state (engine w)) (user w) \<Longrightarrow>
      \<exists>u. send p w = Some (w\<lparr>user := u\<rparr>) \<and> I (dtls_state (engine w)) u \<and> (C (user w) \<longrightarrow> C u)"
    and notify: "I old (user w) \<Longrightarrow> dtls_edge old (dtls_state (engine w)) \<Longrightarrow>
      \<exists>u st. notify (dtls_state (engine w)) w = Some (w\<lparr>engine := (engine w)\<lparr>dtls_state := st\<rparr>, user := u\<rparr>) \<and> I st u \<and>
        (st = dtls_state (engine w) \<or> dtls_state (engine w) = DTLS_SRTP_FAILED \<and> st = DTLS_SRTP_CLOSED)"
    and connected: "I DTLS_SRTP_CONNECTED (user w) \<Longrightarrow> dtls_state (engine w) = DTLS_SRTP_CONNECTED \<Longrightarrow>
      \<exists>u. connected w = Some (w\<lparr>user := u\<rparr>) \<and> I DTLS_SRTP_CONNECTED u \<and> C u"
begin

text \<open>OpenSSL receives the queued datagrams in order, each at most once.\<close>

lemma run_bio_ok:
  assumes "rx_ok (engine w)" "I (dtls_state (engine w)) (user w)"
  shows "\<exists>got e u n. run_bio cb ops w = Some (got, w\<lparr>engine := e, user := u\<rparr>) \<and> same_engine (engine w) e \<and> rx_ok e \<and>
     I (dtls_state (engine w)) u \<and> (C (user w) \<longrightarrow> C u) \<and>
     rx_contents e = drop n (rx_contents (engine w)) \<and> subseq got (take n (rx_contents (engine w)))"
  using assms
proof (induction ops arbitrary: w)
  case Nil
  then show ?case by (intro exI [of _ "[]"] exI [of _ "engine w"] exI [of _ "user w"] exI [of _ "0 :: nat"]) auto
next
  case (Cons op ops)
  show ?case
  proof (cases op)
    case (BioRead n)
    obtain rc bs t where t: "bio_rx_read n (engine w) = Some (rc, bs, t)" "rx_ok t" "same_engine (engine w) t"
      "rx_contents t = tl (rx_contents (engine w))"
      "case rx_contents (engine w) of [] \<Rightarrow> rc = - 1
        | d # ds \<Rightarrow> if nat (n mod 2 ^ 64) < length d then rc = - 1 else rc = int (length d) \<and> bs = d"
      using bio_rx_read_spec [OF Cons.prems(1), of n] by blast
    from Cons.IH [of "w\<lparr>engine := t\<rparr>"] Cons.prems t(2,3) obtain got e u k where
      IH: "run_bio cb ops (w\<lparr>engine := t\<rparr>) = Some (got, w\<lparr>engine := e, user := u\<rparr>)" "same_engine t e" "rx_ok e"
      "I (dtls_state (engine w)) u" "C (user w) \<longrightarrow> C u" "rx_contents e = drop k (rx_contents t)"
      "subseq got (take k (rx_contents t))"
      by (auto simp: same_engine_fields)
    let ?got = "if rc < 0 then got else bs # got"
    have "run_bio cb (op # ops) w = Some (?got, w\<lparr>engine := e, user := u\<rparr>)"
      using BioRead t(1) IH(1) by simp
    moreover have "\<exists>m. rx_contents e = drop m (rx_contents (engine w)) \<and> subseq ?got (take m (rx_contents (engine w)))"
    proof (cases "rx_contents (engine w)")
      case Nil
      then have "rc < 0" "rx_contents e = []" "got = []" using t(4,5) IH(6,7) by auto
      then show ?thesis using Nil by (intro exI [of _ 0]) simp
    next
      case (Cons d ds)
      then show ?thesis using t(4,5) IH(6,7)
        by (intro exI [of _ "Suc k"]) (auto split: if_splits)
    qed
    ultimately show ?thesis using IH(3,4,5) same_engine_trans [OF t(3) IH(2)] by blast
  next
    case (BioWrite b)
    show ?thesis
    proof (cases "b = []")
      case True
      then show ?thesis using BioWrite Cons by (simp add: bio_tx_write_def registered)
    next
      case False
      from send [OF Cons.prems(2), of b] obtain u where
        u: "send b w = Some (w\<lparr>user := u\<rparr>)" "I (dtls_state (engine w)) u" "C (user w) \<longrightarrow> C u" by blast
      from Cons.IH [of "w\<lparr>user := u\<rparr>"] Cons.prems u(2) obtain got e u' k where
        "run_bio cb ops (w\<lparr>user := u\<rparr>) = Some (got, w\<lparr>engine := e, user := u'\<rparr>)" "same_engine (engine w) e" "rx_ok e"
        "I (dtls_state (engine w)) u'" "C u \<longrightarrow> C u'" "rx_contents e = drop k (rx_contents (engine w))"
        "subseq got (take k (rx_contents (engine w)))"
        by auto
      with False BioWrite u show ?thesis by (auto simp: bio_tx_write_def registered)
    qed
  qed
qed

text \<open>A change of state reports once; a callback that closes the engine leaves it closed.\<close>

lemma set_state_ok:
  assumes "I (dtls_state (engine w)) (user w)" "dtls_edge (dtls_state (engine w)) new"
  shows "\<exists>u st. dtls_set_state (on_state cb) new w = Some (w\<lparr>engine := (engine w)\<lparr>dtls_state := st\<rparr>, user := u\<rparr>) \<and> I st u \<and>
     (st = new \<or> new = DTLS_SRTP_FAILED \<and> st = DTLS_SRTP_CLOSED)"
proof -
  have "dtls_state (engine w) \<noteq> new" using assms(2) by (auto simp: dtls_edge_def)
  then show ?thesis
    using notify [of "dtls_state (engine w)" "w\<lparr>engine := (engine w)\<lparr>dtls_state := new\<rparr>\<rparr>"] assms
    by (auto simp: dtls_set_state_def registered)
qed
lemma fail_ok:
  assumes "client_ok I C w" "dtls_edge (dtls_state (engine w)) new" "new \<in> {DTLS_SRTP_FAILED, DTLS_SRTP_CLOSED}"
  shows "\<exists>w'. dtls_set_state (on_state cb) new w = Some w' \<and> client_ok I C w' \<and> keeps_keys (engine w) (engine w')"
proof -
  obtain st u where "dtls_set_state (on_state cb) new w = Some (w\<lparr>engine := (engine w)\<lparr>dtls_state := st\<rparr>, user := u\<rparr>)"
    "I st u" "st = new \<or> st = DTLS_SRTP_CLOSED"
    using set_state_ok [of w new] assms(1,2) by (auto simp: client_ok_def)
  moreover have "dtls_rank (dtls_state (engine w)) \<le> dtls_rank st"
    using calculation(3) assms(2,3) dtls_rank_le [of "dtls_state (engine w)"] by (auto simp: dtls_edge_def)
  ultimately show ?thesis
    using assms(1,3) by (auto simp: client_ok_def dtls_inv_def keeps_keys_def)
qed

lemma client_ok_note [simp]:
  "client_ok I C (note_failure s w) = client_ok I C w" "client_ok I C (count_failure w) = client_ok I C w"
  "keeps_keys e (engine (note_failure s w)) = keeps_keys e (engine w)" "engine (count_failure w) = engine w"
  "dtls_state (engine (note_failure s w)) = dtls_state (engine w)"
  by (simp_all add: client_ok_def dtls_inv_def keeps_keys_def note_failure_def count_failure_def)

lemma pump_accept_ok:
  assumes "client_ok I C w" "dtls_state (engine w) = DTLS_SRTP_INIT"
  shows "\<exists>c w'. pump_accept io cb w = Some (c, w') \<and> client_ok I C w' \<and> keeps_keys (engine w) (engine w') \<and>
     (c \<longrightarrow> dtls_state (engine w') = DTLS_SRTP_HANDSHAKING)"
proof -
  let ?w1 = "w\<lparr>engine := (engine w)\<lparr>handshake_started := True\<rparr>,
    g_stats := (g_stats w)\<lparr>handshakes_started := handshakes_started (g_stats w) + 1\<rparr>\<rparr>"
  have inv: "rx_ok (engine w)" "\<not> srtp_ready (engine w)" "I DTLS_SRTP_INIT (user w)"
    using assms by (auto simp: client_ok_def dtls_inv_def)
  obtain u1 where u1: "dtls_set_state (on_state cb) DTLS_SRTP_HANDSHAKING ?w1 =
      Some (?w1\<lparr>engine := (engine ?w1)\<lparr>dtls_state := DTLS_SRTP_HANDSHAKING\<rparr>, user := u1\<rparr>)" "I DTLS_SRTP_HANDSHAKING u1"
    using set_state_ok [of ?w1 DTLS_SRTP_HANDSHAKING] assms(2) inv(3) by (auto simp: dtls_edge_def)
  let ?w2 = "?w1\<lparr>engine := (engine ?w1)\<lparr>dtls_state := DTLS_SRTP_HANDSHAKING\<rparr>, user := u1\<rparr>"
  obtain got e u where r: "run_bio cb (ssl_bio (ssl_accept io)) ?w2 = Some (got, ?w2\<lparr>engine := e, user := u\<rparr>)"
    "same_engine (engine ?w2) e" "rx_ok e" "I DTLS_SRTP_HANDSHAKING u"
    using run_bio_ok [of ?w2 "ssl_bio (ssl_accept io)"] inv(1) u1(2) by auto
  let ?w3 = "?w2\<lparr>engine := e, user := u\<rparr>"
  have ok: "client_ok I C ?w3" "keeps_keys (engine w) (engine ?w3)" "dtls_state (engine ?w3) = DTLS_SRTP_HANDSHAKING"
    using r inv(2) assms(2) by (auto simp: client_ok_def dtls_inv_def keeps_keys_def same_engine_fields [OF r(2)])
  show ?thesis
  proof (cases "ssl_rc (ssl_accept io) = 1 \<or> want_io (ssl_err (ssl_accept io))")
    case True
    then have "pump_accept io cb w = Some (True, ?w3)" using u1 r by (auto simp: pump_accept_def Let_def)
    with ok show ?thesis by blast
  next
    case False
    then obtain s where "pump_accept io cb w =
        do { w \<leftarrow> dtls_set_state (on_state cb) DTLS_SRTP_FAILED (count_failure (note_failure s ?w3)); Some (False, w) }"
      using u1 r by (auto simp: pump_accept_def Let_def)
    moreover have "client_ok I C (count_failure (note_failure s ?w3))"
      "dtls_edge (dtls_state (engine (count_failure (note_failure s ?w3)))) DTLS_SRTP_FAILED"
      using ok by (auto simp: dtls_edge_def)
    from fail_ok [OF this] obtain w' where
      w': "dtls_set_state (on_state cb) DTLS_SRTP_FAILED (count_failure (note_failure s ?w3)) = Some w'" "client_ok I C w'"
      "keeps_keys (engine (count_failure (note_failure s ?w3))) (engine w')" by auto
    moreover have "keeps_keys (engine w) (engine w')"
      using keeps_keys_trans [OF _ w'(3)] ok(2) by simp
    ultimately show ?thesis by auto
  qed
qed

lemma pump_read_ok:
  assumes "client_ok I C w" "dtls_state (engine w) \<in> {DTLS_SRTP_HANDSHAKING, DTLS_SRTP_CONNECTED}"
  shows "\<exists>c w'. pump_read io cb w = Some (c, w') \<and> client_ok I C w' \<and> keeps_keys (engine w) (engine w') \<and>
     (c \<longrightarrow> dtls_state (engine w') = dtls_state (engine w))"
proof -
  obtain got e u where r: "run_bio cb (ssl_bio (ssl_read io)) w = Some (got, w\<lparr>engine := e, user := u\<rparr>)"
    "same_engine (engine w) e" "rx_ok e" "I (dtls_state (engine w)) u" "C (user w) \<longrightarrow> C u"
    using run_bio_ok [of w "ssl_bio (ssl_read io)"] assms(1) by (auto simp: client_ok_def dtls_inv_def)
  let ?w = "w\<lparr>engine := e, user := u\<rparr>"
  have ok: "client_ok I C ?w" "keeps_keys (engine w) (engine ?w)" "dtls_state (engine ?w) = dtls_state (engine w)"
    using assms(1) r dtls_inv_same [OF _ r(2,3)]
    by (auto simp: client_ok_def keeps_keys_def same_engine_fields [OF r(2)])
  have edge: "dtls_edge (dtls_state (engine ?w)) DTLS_SRTP_FAILED" "dtls_edge (dtls_state (engine ?w)) DTLS_SRTP_CLOSED"
    using assms(2) ok(3) by (auto simp: dtls_edge_def)
  let ?rc = "ssl_rc (ssl_read io)" and ?err = "ssl_err (ssl_read io)"
  consider "?rc < 0" "\<not> want_io ?err" | "?rc = 0" | "?rc < 0 \<and> want_io ?err \<or> 0 < ?rc" by linarith
  then show ?thesis
  proof cases
    case 1
    let ?v = "note_failure (''SSL_read: error '' @ show_int ?err) ?w"
    obtain w' where "dtls_set_state (on_state cb) DTLS_SRTP_FAILED ?v = Some w'" "client_ok I C w'" "keeps_keys (engine ?v) (engine w')"
      using fail_ok [of ?v DTLS_SRTP_FAILED] ok edge by auto
    moreover have "keeps_keys (engine w) (engine w')"
      using keeps_keys_trans [OF _ calculation(3)] ok(2) by simp
    ultimately show ?thesis using 1 r(1) by (auto simp: pump_read_def Let_def)
  next
    case 2
    obtain w' where "dtls_set_state (on_state cb) DTLS_SRTP_CLOSED ?w = Some w'" "client_ok I C w'" "keeps_keys (engine ?w) (engine w')"
      using fail_ok [of ?w DTLS_SRTP_CLOSED] ok edge by auto
    moreover have "keeps_keys (engine w) (engine w')" using keeps_keys_trans [OF ok(2) calculation(3)] .
    ultimately show ?thesis using 2 r(1) by (auto simp: pump_read_def Let_def)
  next
    case 3
    then have "pump_read io cb w = Some (True, ?w)" using r(1) by (auto simp: pump_read_def Let_def)
    with ok show ?thesis by blast
  qed
qed
lemma pump_finish_ok:
  assumes "env_ok io" "client_ok I C w" "dtls_state (engine w) \<in> {DTLS_SRTP_HANDSHAKING, DTLS_SRTP_CONNECTED}"
  shows "\<exists>w'. pump_finish io cb w = Some w' \<and> client_ok I C w' \<and> engine_step io (engine w) (engine w')"
proof (cases "\<not> srtp_ready (engine w) \<and> init_finished io")
  case False
  then show ?thesis using assms(2) by (auto simp: pump_finish_def)
next
  case True
  then have st: "dtls_state (engine w) = DTLS_SRTP_HANDSHAKING" and inv: "dtls_inv (engine w)" "I DTLS_SRTP_HANDSHAKING (user w)"
    using assms(2,3) by (auto simp: client_ok_def dtls_inv_def)
  show ?thesis
  proof (rule derive_srtp_keys_cases [OF assms(1), of w])
    fix e
    assume d: "derive_srtp_keys io w = Some (0, w\<lparr>engine := e\<rparr>)" "selected_profile io" "keys_from io e"
      "peer_verified io (expected_fingerprint (engine w))"
      "e = (engine w)\<lparr>srtp_out := srtp_out e, srtp_in := srtp_in e, fingerprint_ok := True, srtp_ready := True\<rparr>"
    let ?w1 = "w\<lparr>engine := e\<lparr>failure_reason := []\<rparr>,
      g_stats := (g_stats w)\<lparr>handshakes_completed := handshakes_completed (g_stats w) + 1\<rparr>\<rparr>"
    have e: "dtls_state e = DTLS_SRTP_HANDSHAKING" "rx_ok e" "srtp_ready e" "fingerprint_ok e" "handshake_started e"
      "expected_fingerprint e = expected_fingerprint (engine w)"
      using st inv by (subst d(5); simp add: dtls_inv_def)+
    have k: "srtp_out e \<noteq> None" "srtp_in e \<noteq> None" using d(3) by (cases "exported io"; simp only: keys_from_def option.case; blast)+
    obtain u1 where u1: "dtls_set_state (on_state cb) DTLS_SRTP_CONNECTED ?w1 =
        Some (?w1\<lparr>engine := (engine ?w1)\<lparr>dtls_state := DTLS_SRTP_CONNECTED\<rparr>, user := u1\<rparr>)" "I DTLS_SRTP_CONNECTED u1"
      using set_state_ok [of ?w1 DTLS_SRTP_CONNECTED] e(1) inv(2) by (auto simp: dtls_edge_def)
    let ?w2 = "?w1\<lparr>engine := (engine ?w1)\<lparr>dtls_state := DTLS_SRTP_CONNECTED\<rparr>, user := u1\<rparr>"
    obtain u where u: "connected ?w2 = Some (?w2\<lparr>user := u\<rparr>)" "I DTLS_SRTP_CONNECTED u" "C u"
      using connected [of ?w2] u1(2) by auto
    have "pump_finish io cb w = Some (?w2\<lparr>user := u\<rparr>)"
      using True d(1) u1(1) u(1) by (simp add: pump_finish_def registered Let_def)
    moreover have "client_ok I C (?w2\<lparr>user := u\<rparr>)"
      using e u k by (simp add: client_ok_def dtls_inv_def)
    moreover have "engine_step io (engine w) (engine (?w2\<lparr>user := u\<rparr>))"
    proof -
      have "keys_from io (engine (?w2\<lparr>user := u\<rparr>))" using d(3) by (simp add: keys_from_def cong: option.case_cong)
      then show ?thesis using True d(2,4) e(6) st by (auto simp: engine_step_def)
    qed
    ultimately show ?thesis by blast
  next
    fix e g
    assume d: "derive_srtp_keys io w = Some (- 1, w\<lparr>engine := e, g_stats := g\<rparr>)"
      "e = (engine w)\<lparr>srtp_out := srtp_out e, srtp_in := srtp_in e, failure_reason := failure_reason e\<rparr>"
    let ?w1 = "w\<lparr>engine := e, g_stats := g\<rparr>"
    let ?w2 = "count_failure (if failure_reason e = [] then note_failure ''SRTP key derivation failed'' ?w1 else ?w1)"
    have e: "dtls_state e = DTLS_SRTP_HANDSHAKING" "rx_ok e" "\<not> srtp_ready e" "handshake_started e"
      "expected_fingerprint e = expected_fingerprint (engine w)"
      using st inv by (subst d(2); simp add: dtls_inv_def)+
    have "client_ok I C ?w1" using e inv(2) by (simp add: client_ok_def dtls_inv_def)
    then have "client_ok I C ?w2" "dtls_edge (dtls_state (engine ?w2)) DTLS_SRTP_FAILED"
      using e(1) by (auto simp: dtls_edge_def)
    from fail_ok [OF this] obtain w' where w': "dtls_set_state (on_state cb) DTLS_SRTP_FAILED ?w2 = Some w'"
      "client_ok I C w'" "keeps_keys (engine ?w2) (engine w')" by auto
    have "pump_finish io cb w = Some w'" using True d(1) w'(1) by (simp add: pump_finish_def Let_def)
    moreover have "engine_step io (engine w) (engine w')"
      using w'(3) e(1,3,5) True st by (cases "failure_reason e = []") (auto simp: keeps_keys_def engine_step_def note_failure_def)
    ultimately show ?thesis using w'(2) by blast
  qed
qed

lemma pump_ssl_ok:
  assumes "env_ok io" "client_ok I C w"
  shows "\<exists>w'. pump_ssl io cb w = Some w' \<and> client_ok I C w' \<and> engine_step io (engine w) (engine w')"
proof -
  let ?st = "dtls_state (engine w)"
  consider "?st = DTLS_SRTP_CLOSED \<or> ?st = DTLS_SRTP_FAILED"
    | "?st = DTLS_SRTP_INIT" "\<not> handshake_started (engine w)"
    | "?st \<in> {DTLS_SRTP_HANDSHAKING, DTLS_SRTP_CONNECTED}" "handshake_started (engine w)"
    using assms(2) by (cases ?st) (auto simp: client_ok_def dtls_inv_def)
  then show ?thesis
  proof cases
    case 1
    then show ?thesis using assms(2) by (auto simp: pump_ssl_def)
  next
    case 2
    obtain c w1 where a: "pump_accept io cb w = Some (c, w1)" "client_ok I C w1" "keeps_keys (engine w) (engine w1)"
      "c \<longrightarrow> dtls_state (engine w1) = DTLS_SRTP_HANDSHAKING"
      using pump_accept_ok [OF assms(2) 2(1), of io] by blast
    with 2 keeps_keys_step [OF a(3)] pump_finish_ok [OF assms(1) a(2)] show ?thesis
      by (cases c) (auto simp: pump_ssl_def)
  next
    case 3
    obtain c w1 where a: "pump_read io cb w = Some (c, w1)" "client_ok I C w1" "keeps_keys (engine w) (engine w1)"
      "c \<longrightarrow> dtls_state (engine w1) = ?st"
      using pump_read_ok [OF assms(2) 3(1), of io] by blast
    with 3 keeps_keys_step [OF a(3)] pump_finish_ok [OF assms(1) a(2)] show ?thesis
      by (cases c) (auto simp: pump_ssl_def)
  qed
qed

lemma client_ok_engine:
  assumes "client_ok I C w" "same_engine (engine w) e" "rx_ok e" "I (dtls_state (engine w)) u" "C (user w) \<longrightarrow> C u"
  shows "client_ok I C (w\<lparr>engine := e, user := u\<rparr>)" "keeps_keys (engine w) e"
  using assms dtls_inv_same [OF _ assms(2,3)]
  by (auto simp: client_ok_def keeps_keys_def same_engine_fields [OF assms(2)])

lemma dtls_srtp_on_udp_ok:
  assumes "env_ok io" "client_ok I C w"
  shows "\<exists>w'. dtls_srtp_on_udp io cb mem_ok packet w = Some w' \<and> client_ok I C w' \<and> engine_step io (engine w) (engine w')"
proof (cases "dtls_state (engine w) = DTLS_SRTP_FAILED \<or> dtls_state (engine w) = DTLS_SRTP_CLOSED")
  case True
  then show ?thesis using assms(2) by (auto simp: dtls_srtp_on_udp_def)
next
  case False
  have "rx_ok (engine w)" using assms(2) by (simp add: client_ok_def dtls_inv_def)
  from rx_enqueue_spec [OF this, of mem_ok packet] obtain e where
    e: "rx_enqueue mem_ok packet (engine w) = Some (mem_ok, e)" "rx_ok e" "same_engine (engine w) e" by blast
  have c: "client_ok I C (w\<lparr>engine := e\<rparr>)" "keeps_keys (engine w) (engine (w\<lparr>engine := e\<rparr>))"
    using client_ok_engine [OF assms(2) e(3,2), of "user w"] assms(2) by (auto simp: client_ok_def)
  show ?thesis
    using pump_ssl_ok [OF assms(1) c(1)] keeps_keys_step [OF c(2)] keeps_keys_step [OF c(2) engine_step_refl] False e(1) c(1)
    by (cases mem_ok) (auto simp: dtls_srtp_on_udp_def)
qed

lemma dtls_srtp_tick_ok:
  assumes "env_ok io" "client_ok I C w"
  shows "\<exists>w'. dtls_srtp_tick io cb w = Some w' \<and> client_ok I C w' \<and> engine_step io (engine w) (engine w')"
proof (cases "dtls_state (engine w) = DTLS_SRTP_HANDSHAKING")
  case False
  then show ?thesis using assms(2) by (auto simp: dtls_srtp_tick_def)
next
  case True
  obtain got e u where r: "run_bio cb (timeout_bio io) w = Some (got, w\<lparr>engine := e, user := u\<rparr>)"
    "same_engine (engine w) e" "rx_ok e" "I (dtls_state (engine w)) u" "C (user w) \<longrightarrow> C u"
    using run_bio_ok [of w "timeout_bio io"] assms(2) by (auto simp: client_ok_def dtls_inv_def)
  note c = client_ok_engine [OF assms(2) r(2-5)]
  show ?thesis
    using pump_ssl_ok [OF assms(1) c(1)] pump_ssl_ok [OF assms] keeps_keys_step [OF c(2)] r(1) True
    by (cases "dtls_timer io = Some (0, 0)") (auto simp: dtls_srtp_tick_def)
qed

text \<open>Sending needs the keys; it leaves everything but the SRTP context as it was.\<close>

lemma dtls_srtp_send_ok:
  assumes "client_ok I C w" and fits: "\<And>c q. snd (protect c packet) = Some q \<Longrightarrow> length q \<le> cap"
  shows "\<exists>rc p w'. dtls_srtp_send protect cb cap packet w = Some (rc, p, w') \<and> client_ok I C w' \<and>
     (rc = 0 \<longleftrightarrow> srtp_ready (engine w) \<and> snd (protect (the (srtp_out (engine w))) packet) \<noteq> None) \<and>
     engine w' = (engine w)\<lparr>srtp_out := srtp_out (engine w')\<rparr> \<and>
     (\<not> srtp_ready (engine w) \<longrightarrow> w' = w)"
proof (cases "srtp_ready (engine w)")
  case False
  then show ?thesis using assms(1) by (simp add: dtls_srtp_send_def)
next
  case True
  then obtain ctx where ctx: "srtp_out (engine w) = Some ctx" using assms(1) by (auto simp: client_ok_def dtls_inv_def)
  obtain ctx' r where p: "protect ctx packet = (ctx', r)" by (cases "protect ctx packet")
  let ?w = "w\<lparr>engine := (engine w)\<lparr>srtp_out := Some ctx'\<rparr>\<rparr>"
  have ok: "client_ok I C ?w" using assms(1) by (simp add: client_ok_def dtls_inv_def)
  show ?thesis
  proof (cases r)
    case None
    then show ?thesis using True ctx p ok by (simp add: dtls_srtp_send_def)
  next
    case (Some q)
    obtain u where u: "send q ?w = Some (?w\<lparr>user := u\<rparr>)" "I (dtls_state (engine ?w)) u" "C (user ?w) \<longrightarrow> C u"
      using send [of ?w q] ok by (auto simp: client_ok_def)
    have "client_ok I C (?w\<lparr>user := u\<rparr>)" using ok u by (auto simp: client_ok_def)
    moreover have "\<not> cap < length q" using fits [of ctx q] p Some by simp
    ultimately show ?thesis using u Some True ctx p by (simp add: dtls_srtp_send_def registered)
  qed
qed

end

section \<open>Properties\<close>

text \<open>
  C9: The fingerprint that the server puts into its answer and the comparison it runs on the
  fingerprint of an offer agree: a certificate digest formatted by the one is accepted by the
  other exactly when the digests are equal, in upper and in lower case.
\<close>

theorem dtls_fingerprint_roundtrip:
  assumes "length md = 32" "length md' = 32"
  shows "\<exists>fp. format_fingerprint md = Some fp \<and> fingerprint_hex_equal fp md' = Some (md = md') \<and>
     fingerprint_hex_equal (map tolower fp) md' = Some (md = md')"
proof -
  have "take 127 (hex_text md) = hex_text md" using assms(1) by simp
  moreover have "hex_text md = hex_text md' \<longleftrightarrow> md = md'" using hex_text_inj by blast
  moreover have "concat (map hex2 md') = hex_text md'" by (simp add: hex_text_def)
  ultimately show ?thesis
    using assms by (simp add: format_fingerprint_text fingerprint_hex_equal_def normal_fingerprint)
qed

theorem dtls_fingerprint_witness:
  "\<exists>fp. format_fingerprint (replicate 32 0xAB) = Some fp \<and> fingerprint_hex_equal fp (replicate 32 0xAB) = Some True \<and>
     fingerprint_hex_equal (map tolower fp) (replicate 32 0xAB) = Some True"
  using dtls_fingerprint_roundtrip [of "replicate 32 0xAB" "replicate 32 0xAB"] by simp

text \<open>
  C8: \<open>derive_srtp_keys\<close> never reads outside the exported material, and it succeeds exactly when an
  SRTP profile was negotiated, OpenSSL exported the key material, both SRTP contexts could be
  created from it and the peer's certificate matches the announced fingerprint (or none was
  announced). Then the outbound context has the server's write key and salt and the inbound
  context the client's, in the layout of RFC 5764; otherwise the engine does not become ready for
  media.
\<close>

theorem derive_srtp_keys_correct:
  assumes "env_ok io"
  defines "layout \<equiv> \<lambda>ck sk cs ss. exported io = Some (ck @ sk @ cs @ ss) \<and>
     length ck = 16 \<and> length sk = 16 \<and> length cs = 14 \<and> length ss = 14"
  shows "\<exists>rc w'. derive_srtp_keys io w = Some (rc, w') \<and>
     (rc = 0 \<longleftrightarrow> selected_profile io \<and> peer_verified io (expected_fingerprint (engine w)) \<and>
        (\<exists>ck sk cs ss. layout ck sk cs ss \<and> srtp_create io ssrc_any_outbound (sk @ ss) \<noteq> None \<and>
           srtp_create io ssrc_any_inbound (ck @ cs) \<noteq> None)) \<and>
     (rc = 0 \<longrightarrow> srtp_ready (engine w') \<and>
        (\<exists>ck sk cs ss. layout ck sk cs ss \<and> srtp_out (engine w') = srtp_create io ssrc_any_outbound (sk @ ss) \<and>
           srtp_in (engine w') = srtp_create io ssrc_any_inbound (ck @ cs))) \<and>
     (rc \<noteq> 0 \<longrightarrow> srtp_ready (engine w') = srtp_ready (engine w))"
proof -
  have unique: "server_master (the (exported io)) = sk @ ss" "client_master (the (exported io)) = ck @ cs"
    if "layout ck sk cs ss" for ck sk cs ss using that by (simp_all add: layout_def server_master_def client_master_def)
  have split: "\<exists>ck sk cs ss. layout ck sk cs ss" if "exported io = Some m" for m
  proof -
    have "length m = 60" using assms(1) that by (auto simp: env_ok_def SRTP_KEY_MATERIAL_LEN_def)
    moreover have "drop 16 m = take 16 (drop 16 m) @ drop 32 m" "drop 32 m = take 14 (drop 32 m) @ drop 46 m"
      using append_take_drop_id [of 16 "drop 16 m"] append_take_drop_id [of 14 "drop 32 m"] by simp_all
    then have "m = take 16 m @ take 16 (drop 16 m) @ take 14 (drop 32 m) @ drop 46 m" using append_take_drop_id [of 16 m] by simp
    ultimately show ?thesis using that unfolding layout_def
      by (intro exI [of _ "take 16 m"] exI [of _ "take 16 (drop 16 m)"] exI [of _ "take 14 (drop 32 m)"] exI [of _ "drop 46 m"]) simp
  qed
  show ?thesis
  proof (rule derive_srtp_keys_cases [OF assms(1), of w])
    fix e
    assume run: "derive_srtp_keys io w = Some (0, w\<lparr>engine := e\<rparr>)" "selected_profile io" "keys_from io e"
      "peer_verified io (expected_fingerprint (engine w))"
      and e: "e = (engine w)\<lparr>srtp_out := srtp_out e, srtp_in := srtp_in e, fingerprint_ok := True, srtp_ready := True\<rparr>"
    have ready: "srtp_ready e" by (subst e) simp
    obtain m where e0: "exported io = Some m" using run(3) by (auto simp: keys_from_def split: option.splits)
    have m: "exported io = Some m" "srtp_out e = srtp_create io ssrc_any_outbound (server_master m)" "srtp_out e \<noteq> None"
      "srtp_in e = srtp_create io ssrc_any_inbound (client_master m)" "srtp_in e \<noteq> None"
      using run(3) unfolding keys_from_def e0 option.case by blast+
    obtain ck sk cs ss where l: "layout ck sk cs ss" using split [OF m(1)] by blast
    have "srtp_out e = srtp_create io ssrc_any_outbound (sk @ ss)" "srtp_in e = srtp_create io ssrc_any_inbound (ck @ cs)"
      using m unique [OF l] by simp_all
    then have "\<exists>ck sk cs ss. layout ck sk cs ss \<and> srtp_create io ssrc_any_outbound (sk @ ss) \<noteq> None \<and>
           srtp_create io ssrc_any_inbound (ck @ cs) \<noteq> None"
      "\<exists>ck sk cs ss. layout ck sk cs ss \<and> srtp_out e = srtp_create io ssrc_any_outbound (sk @ ss) \<and>
           srtp_in e = srtp_create io ssrc_any_inbound (ck @ cs)" using l m(3,5) by metis+
    then show ?thesis using run(1,2,4) ready
      by (intro exI [of _ 0] exI [of _ "w\<lparr>engine := e\<rparr>"]) simp
  next
    fix e g
    assume run: "derive_srtp_keys io w = Some (- 1, w\<lparr>engine := e, g_stats := g\<rparr>)"
      and e: "e = (engine w)\<lparr>srtp_out := srtp_out e, srtp_in := srtp_in e, failure_reason := failure_reason e\<rparr>"
      and n: "\<not> (selected_profile io \<and> exported io \<noteq> None \<and>
         srtp_create io ssrc_any_outbound (server_master (the (exported io))) \<noteq> None \<and>
         srtp_create io ssrc_any_inbound (client_master (the (exported io))) \<noteq> None \<and>
         peer_verified io (expected_fingerprint (engine w)))"
    have "srtp_ready e = srtp_ready (engine w)" by (subst e) simp
    moreover have "\<not> (selected_profile io \<and> peer_verified io (expected_fingerprint (engine w)) \<and>
        (\<exists>ck sk cs ss. layout ck sk cs ss \<and> srtp_create io ssrc_any_outbound (sk @ ss) \<noteq> None \<and>
           srtp_create io ssrc_any_inbound (ck @ cs) \<noteq> None))"
    proof (rule notI, elim conjE exE)
      fix ck sk cs ss
      assume "selected_profile io" "peer_verified io (expected_fingerprint (engine w))" "srtp_create io ssrc_any_outbound (sk @ ss) \<noteq> None"
        "srtp_create io ssrc_any_inbound (ck @ cs) \<noteq> None" and l: "layout ck sk cs ss"
      then show False using n unique [OF l] by (auto simp: layout_def)
    qed
    ultimately show ?thesis using run by (intro exI [of _ "- 1"] exI [of _ "w\<lparr>engine := e, g_stats := g\<rparr>"]) simp
  qed
qed

text \<open>A library whose SRTP contexts are their master keys, for the witnesses.\<close>

definition demo_env :: "bytes \<Rightarrow> bytes ssl_env" where
  "demo_env md = \<lparr>ssl_accept = \<lparr>ssl_bio = [BioRead 4096, BioWrite [22]], ssl_rc = 1, ssl_err = 0\<rparr>,
     ssl_read = \<lparr>ssl_bio = [], ssl_rc = - 1, ssl_err = SSL_ERROR_WANT_READ\<rparr>, init_finished = True,
     selected_profile = True, exported = Some (replicate 16 1 @ replicate 16 2 @ replicate 14 3 @ replicate 14 4),
     srtp_create = (\<lambda>d k. Some k), peer_digest = Some (Some md), dtls_timer = None, timeout_bio = [], shutdown_bio = []\<rparr>"

definition zero_stats :: DtlsSrtpGlobalStats where
  "zero_stats = \<lparr>handshakes_started = 0, handshakes_completed = 0, handshake_failures = 0, fingerprint_mismatches = 0\<rparr>"

definition demo_world :: "string \<Rightarrow> 'u \<Rightarrow> (bytes, 'u) dtls_world" where
  "demo_world fp u = \<lparr>engine = fresh_engine\<lparr>expected_fingerprint := fp\<rparr>, g_stats = zero_stats, user = u\<rparr>"

lemma demo_env_ok: "length md = 32 \<Longrightarrow> env_ok (demo_env md)"
  by (simp add: env_ok_def demo_env_def SRTP_KEY_MATERIAL_LEN_def)

lemma demo_verified: "length md = 32 \<Longrightarrow> peer_verified (demo_env md) (fingerprint_text md)"
  by (simp add: peer_verified_def demo_env_def fingerprint_hex_equal_def normal_fingerprint Let_def)
    (simp add: hex_text_def)

theorem derive_srtp_keys_witness:
  "\<exists>w'. derive_srtp_keys (demo_env (replicate 32 7)) (demo_world (fingerprint_text (replicate 32 7)) ()) = Some (0, w') \<and>
     srtp_out (engine w') = Some (replicate 16 2 @ replicate 14 4) \<and>
     srtp_in (engine w') = Some (replicate 16 1 @ replicate 14 3)"
proof -
  let ?io = "demo_env (replicate 32 7)" and ?w = "demo_world (fingerprint_text (replicate 32 7)) ()"
  have io: "exported ?io = Some (ck @ sk @ cs @ ss) \<and> length ck = 16 \<and> length sk = 16 \<and> length cs = 14 \<and> length ss = 14 \<longleftrightarrow>
      ck = replicate 16 1 \<and> sk = replicate 16 2 \<and> cs = replicate 14 3 \<and> ss = replicate 14 4" for ck sk cs ss
    by (auto simp: demo_env_def append_eq_append_conv)
  have "selected_profile ?io" "srtp_create ?io = (\<lambda>d k. Some k)" by (simp_all add: demo_env_def)
  moreover have "peer_verified ?io (expected_fingerprint (engine ?w))"
    using demo_verified [of "replicate 32 7"] by (simp add: demo_world_def)
  ultimately show ?thesis
    using derive_srtp_keys_correct [OF demo_env_ok [of "replicate 32 7"], of ?w] unfolding io by auto
qed

lemma run_bio_reads:
  assumes "rx_ok (engine w)" "length (rx_contents (engine w)) \<le> k" "\<forall>d \<in> set (rx_contents (engine w)). length d \<le> 4096"
  shows "\<exists>e. run_bio cb (replicate k (BioRead 4096)) w = Some (rx_contents (engine w), w\<lparr>engine := e\<rparr>) \<and>
     rx_ok e \<and> rx_contents e = [] \<and> same_engine (engine w) e"
  using assms
proof (induction k arbitrary: w)
  case 0
  then show ?case by (intro exI [of _ "engine w"]) auto
next
  case (Suc k)
  obtain rc bs t where t: "bio_rx_read 4096 (engine w) = Some (rc, bs, t)" "rx_ok t" "same_engine (engine w) t"
    "rx_contents t = tl (rx_contents (engine w))"
    "case rx_contents (engine w) of [] \<Rightarrow> rc = - 1
      | d # ds \<Rightarrow> if nat (4096 mod 2 ^ 64) < length d then rc = - 1 else rc = int (length d) \<and> bs = d"
    using bio_rx_read_spec [OF Suc.prems(1), of 4096] by blast
  have "length (rx_contents t) \<le> k" "\<forall>d \<in> set (rx_contents t). length d \<le> 4096"
    using Suc.prems(2,3) t(4) by (cases "rx_contents (engine w)"; auto)+
  with Suc.IH [of "w\<lparr>engine := t\<rparr>"] t(2) obtain e where
    e: "run_bio cb (replicate k (BioRead 4096)) (w\<lparr>engine := t\<rparr>) = Some (rx_contents t, w\<lparr>engine := e\<rparr>)"
    "rx_ok e" "rx_contents e = []" "same_engine t e" by auto
  have "(if rc < 0 then rx_contents t else bs # rx_contents t) = rx_contents (engine w)"
    using t(4,5) Suc.prems(3) by (auto split: list.splits)
  with e t(1) same_engine_trans [OF t(3) e(4)] show ?case by auto
qed

text \<open>
  C10: The queue between the socket and OpenSSL holds the newest 64 datagrams: after any burst of
  datagrams, reads with a buffer that is large enough deliver the last 64 of them, each once and
  in the order of arrival, and leave the queue empty.
\<close>

theorem dtls_rx_queue_newest:
  fixes w :: "('s, 'u) dtls_world"
  assumes "\<forall>d \<in> set ds. length d \<le> 4096"
  shows "\<exists>e. run_bio cb (replicate DTLS_RX_QUEUE (BioRead 4096)) (w\<lparr>engine := foldl rx_push fresh_engine ds\<rparr>) =
     Some (drop (length ds - DTLS_RX_QUEUE) ds, w\<lparr>engine := e\<rparr>) \<and> rx_ok e \<and> rx_contents e = []"
proof -
  let ?e = "foldl rx_push fresh_engine ds :: 's DtlsSrtp"
  have q: "rx_ok ?e" "rx_contents ?e = drop (length ds - 64) ds"
    using rx.push_all [OF rx_ok_fresh(1), of ds] by (auto simp: rx_ok_fresh(2))
  have "length (rx_contents ?e) \<le> 64" "\<forall>d \<in> set (rx_contents ?e). length d \<le> 4096"
    using assms by (auto simp: q(2) dest: in_set_dropD)
  with q(1) run_bio_reads [of "w\<lparr>engine := ?e\<rparr>" 64 cb] obtain e where
    "run_bio cb (replicate 64 (BioRead 4096)) (w\<lparr>engine := ?e\<rparr>) = Some (rx_contents ?e, w\<lparr>engine := e\<rparr>)"
    "rx_ok e" "rx_contents e = []" by auto
  then show ?thesis by (auto simp: DTLS_RX_QUEUE_def q(2))
qed

theorem dtls_rx_queue_witness:
  "\<exists>e. run_bio \<lparr>send_udp = None, on_connected = None, on_state = None\<rparr> (replicate 64 (BioRead 4096))
     ((demo_world [] ())\<lparr>engine := foldl rx_push fresh_engine (map (\<lambda>i. [of_nat i]) [0..<66])\<rparr>) =
     Some (map (\<lambda>i. [of_nat i]) [Suc (Suc 0)..<66], (demo_world [] ())\<lparr>engine := e\<rparr>)"
  using dtls_rx_queue_newest [of "map (\<lambda>i. [of_nat i]) [0..<66]"
      "\<lparr>send_udp = None, on_connected = None, on_state = None\<rparr>" "demo_world [] ()"]
  by (auto simp: DTLS_RX_QUEUE_def drop_map simp del: upt_rec_numeral)

end
