(* ===== verification/Ice_Lite.thy ===== *)
theory Ice_Lite
  imports Cam_Prelude
begin

text \<open>
  STUN for the ICE-lite agent (\<open>src/src/webrtc/ice_lite.c\<close>): datagram classification,
  attribute search, binding requests and indications, USERNAME matching, the binding and the
  error response, MESSAGE-INTEGRITY verification and the FINGERPRINT CRC. C strings
  (\<open>ice-ufrag\<close>, \<open>ice-pwd\<close>) are byte lists without a terminator. OpenSSL's HMAC-SHA1 is the
  parameter \<open>hmac\<close> (key, message); \<open>None\<close> is its NULL result.
\<close>

section \<open>Types and constants\<close>

definition STUN_MAGIC_COOKIE :: u32 where "STUN_MAGIC_COOKIE = 0x2112A442"
definition STUN_HEADER_SIZE :: nat where "STUN_HEADER_SIZE = 20"

lemmas stun_consts = STUN_MAGIC_COOKIE_def STUN_HEADER_SIZE_def

datatype RtcPacketClass = RTC_PKT_STUN | RTC_PKT_DTLS | RTC_PKT_RTP | RTC_PKT_OTHER

text \<open>A socket address: port and IPv4 address in host order, or another family.\<close>

datatype Sockaddr = AF_INET u16 u32 | AF_OTHER

section \<open>Operations\<close>

definition rtc_classify_packet :: "bytes \<Rightarrow> RtcPacketClass option" where
  "rtc_classify_packet buf =
     (if length buf < 1 then Some RTC_PKT_OTHER
      else do {
        b \<leftarrow> rd buf 0;
        Some (if b \<le> 3 then RTC_PKT_STUN
              else if b \<ge> 20 \<and> b \<le> 63 then RTC_PKT_DTLS
              else if b \<ge> 128 then RTC_PKT_RTP
              else RTC_PKT_OTHER) })"

subsection \<open>CRC-32\<close>

definition crc_bit :: "u32 \<Rightarrow> u32" where
  "crc_bit crc = (if crc AND 1 \<noteq> 0 then drop_bit 1 crc XOR 0xEDB88320 else drop_bit 1 crc)"

definition g_crc32_table :: "u32 list" where
  "g_crc32_table = map (\<lambda>i. (crc_bit ^^ 8) (of_nat i)) [0..<256]"

fun crc32_loop :: "bytes \<Rightarrow> u32 \<Rightarrow> u32 option" where
  "crc32_loop [] crc = Some crc"
| "crc32_loop (d # ds) crc = do {
     t \<leftarrow> rd g_crc32_table (unat ((crc XOR ucast d) AND 0xFF));
     crc32_loop ds (t XOR drop_bit 8 crc) }"

definition crc32_stun :: "bytes \<Rightarrow> nat \<Rightarrow> u32 option" where
  "crc32_stun data len = do {
     d \<leftarrow> rd_range data 0 len;
     crc \<leftarrow> crc32_loop d 0xFFFFFFFF;
     Some (crc XOR 0xFFFFFFFF) }"

subsection \<open>Attributes\<close>

text \<open>\<open>(attr_len + 3) & ~3u\<close>\<close>

definition pad4 :: "nat \<Rightarrow> nat" where
  "pad4 n = (n + 3) div 4 * 4"

function find_attr_loop :: "bytes \<Rightarrow> u16 \<Rightarrow> nat \<Rightarrow> nat \<Rightarrow> (nat \<times> nat) option option" where
  "find_attr_loop buf wanted e offset =
     (if offset + 4 \<le> e then do {
        type \<leftarrow> read_be16 buf offset;
        attr_len \<leftarrow> read_be16 buf (offset + 2);
        if offset + 4 + unat attr_len > e then Some None
        else if type = wanted then Some (Some (offset + 4, unat attr_len))
        else find_attr_loop buf wanted e (offset + 4 + pad4 (unat attr_len)) }
      else Some None)"
  by pat_completeness auto
termination
  by (relation "measure (\<lambda>(buf, wanted, e, offset). e - offset)") auto

declare find_attr_loop.simps [simp del]

text \<open>\<open>Some (Some (offset, len))\<close>: the attribute is there and its value starts at \<open>offset\<close>.\<close>

definition stun_find_attribute :: "bytes \<Rightarrow> u16 \<Rightarrow> (nat \<times> nat) option option" where
  "stun_find_attribute buf wanted =
     (if length buf < STUN_HEADER_SIZE then Some None
      else do {
        message_len \<leftarrow> read_be16 buf 2;
        if unat message_len + STUN_HEADER_SIZE > length buf then Some None
        else find_attr_loop buf wanted (STUN_HEADER_SIZE + unat message_len) STUN_HEADER_SIZE })"

text \<open>The result 1 is \<open>Some (Some tid)\<close>.\<close>

definition stun_is_binding_request :: "bytes \<Rightarrow> bytes option option" where
  "stun_is_binding_request buf =
     (if length buf < STUN_HEADER_SIZE then Some None
      else do {
        type \<leftarrow> read_be16 buf 0;
        message_len \<leftarrow> read_be16 buf 2;
        cookie \<leftarrow> read_be32 buf 4;
        if type \<noteq> 0x0001 then Some None
        else if cookie \<noteq> STUN_MAGIC_COOKIE then Some None
        else if unat message_len + STUN_HEADER_SIZE > length buf then Some None
        else do { tid \<leftarrow> rd_range buf 8 12; Some (Some tid) } })"

definition stun_is_binding_indication :: "bytes \<Rightarrow> bool option" where
  "stun_is_binding_indication buf =
     (if length buf < STUN_HEADER_SIZE then Some False
      else do {
        type \<leftarrow> read_be16 buf 0;
        message_len \<leftarrow> read_be16 buf 2;
        cookie \<leftarrow> read_be32 buf 4;
        Some (type = 0x0011 \<and> cookie = STUN_MAGIC_COOKIE \<and>
              unat message_len + STUN_HEADER_SIZE \<le> length buf) })"

definition stun_copy_username :: "bytes \<Rightarrow> bytes option \<Rightarrow> (int \<times> bytes option) option" where
  "stun_copy_username buf dst =
     (case dst of
        None \<Rightarrow> Some (-1, dst)
      | Some out \<Rightarrow>
          if length out = 0 then Some (-1, dst)
          else do {
            out \<leftarrow> wr out 0 0;
            found \<leftarrow> stun_find_attribute buf 0x0006;
            case found of
              None \<Rightarrow> Some (-1, Some out)
            | Some (username, username_len) \<Rightarrow> do {
                let n = (if username_len \<ge> length out then length out - 1 else username_len);
                u \<leftarrow> rd_range buf username n;
                out \<leftarrow> memcpy_to out 0 u;
                out \<leftarrow> wr out n 0;
                Some (0, Some out) } })"

text \<open>\<open>memchr\<close>: the index of the first occurrence.\<close>

fun memchr :: "bytes \<Rightarrow> u8 \<Rightarrow> nat option" where
  "memchr [] c = None"
| "memchr (x # xs) c = (if x = c then Some 0 else map_option Suc (memchr xs c))"

definition colon :: u8 where "colon = 58"

definition stun_username_matches :: "bytes \<Rightarrow> bytes option \<Rightarrow> bool option" where
  "stun_username_matches buf local_ufrag =
     (case local_ufrag of
        None \<Rightarrow> Some False
      | Some ufrag \<Rightarrow>
          if ufrag = [] then Some False
          else do {
            found \<leftarrow> stun_find_attribute buf 0x0006;
            case found of
              None \<Rightarrow> Some False
            | Some (off, username_len) \<Rightarrow> do {
                let ufrag_len = length ufrag;
                username \<leftarrow> rd_range buf off username_len;
                first \<leftarrow> (if username_len > ufrag_len then do {
                            c \<leftarrow> rd username ufrag_len;
                            if c = colon then do { p \<leftarrow> rd_range username 0 ufrag_len; Some (p = ufrag) }
                            else Some False }
                          else Some False);
                if first then Some True
                else case memchr username colon of
                  None \<Rightarrow> Some False
                | Some k \<Rightarrow> do {
                    let second_len = username_len - (k + 1);
                    if second_len = ufrag_len then do {
                      p \<leftarrow> rd_range username (k + 1) ufrag_len;
                      Some (p = ufrag) }
                    else Some False } } })"

subsection \<open>Messages\<close>

text \<open>
  The results are the C return value, the output buffer (\<open>length out = out_capacity\<close>) and
  \<open>*out_len\<close>. \<open>mac_stack\<close> is what the local array \<open>mac\<close> holds before the HMAC.
\<close>

definition stun_build_binding_response ::
  "(bytes \<Rightarrow> bytes \<Rightarrow> bytes option) \<Rightarrow> bytes \<Rightarrow> bytes option \<Rightarrow> bytes \<Rightarrow> Sockaddr option \<Rightarrow> bytes \<Rightarrow> nat
     \<Rightarrow> (int \<times> bytes \<times> nat) option" where
  "stun_build_binding_response hmac mac_stack local_pwd request peer out out_len =
     (case (peer, local_pwd) of
        (Some (AF_INET sin_port sin_addr), Some pwd) \<Rightarrow>
          if length request < STUN_HEADER_SIZE \<or> length out < 64 then Some (-1, out, out_len)
          else do {
            out \<leftarrow> wr out 0 0x01;
            out \<leftarrow> wr out 1 0x01;
            cookie_tid \<leftarrow> rd_range request 4 16;
            out \<leftarrow> memcpy_to out 4 cookie_tid;
            let attr = STUN_HEADER_SIZE;
            out \<leftarrow> write_be16 out attr 0x0020;
            out \<leftarrow> write_be16 out (attr + 2) 8;
            out \<leftarrow> wr out (attr + 4) 0;
            out \<leftarrow> wr out (attr + 5) 0x01;
            out \<leftarrow> write_be16 out (attr + 6) (sin_port XOR 0x2112);
            out \<leftarrow> write_be32 out (attr + 8) (sin_addr XOR STUN_MAGIC_COOKIE);
            let payload = 4 + 8;
            let attr = STUN_HEADER_SIZE + payload;
            out \<leftarrow> write_be16 out attr 0x0008;
            out \<leftarrow> write_be16 out (attr + 2) 20;
            out \<leftarrow> write_be16 out 2 (of_nat (payload + 24));
            msg \<leftarrow> rd_range out 0 (STUN_HEADER_SIZE + payload);
            let mac = (case hmac pwd msg of None \<Rightarrow> mac_stack | Some m \<Rightarrow> m);
            mac \<leftarrow> rd_range mac 0 20;
            out \<leftarrow> memcpy_to out (attr + 4) mac;
            let payload = payload + 24;
            let attr = STUN_HEADER_SIZE + payload;
            out \<leftarrow> write_be16 out attr 0x8028;
            out \<leftarrow> write_be16 out (attr + 2) 4;
            out \<leftarrow> write_be16 out 2 (of_nat (payload + 8));
            crc \<leftarrow> crc32_stun out (STUN_HEADER_SIZE + payload);
            out \<leftarrow> write_be32 out (attr + 4) (crc XOR 0x5354554E);
            let payload = payload + 8;
            Some (0, out, STUN_HEADER_SIZE + payload) }
      | _ \<Rightarrow> Some (-1, out, out_len))"

text \<open>\<open>stack_scratch\<close> and \<open>heap\<close> are the two scratch buffers; \<open>heap = None\<close> when \<open>malloc\<close> fails.\<close>

definition stun_verify_mi ::
  "(bytes \<Rightarrow> bytes \<Rightarrow> bytes option) \<Rightarrow> bytes \<Rightarrow> (nat \<Rightarrow> bytes option) \<Rightarrow> bytes option \<Rightarrow> bytes option \<Rightarrow> bool option" where
  "stun_verify_mi hmac stack_scratch heap buffer password =
     (case (buffer, password) of
        (Some buf, Some pw) \<Rightarrow>
          if pw = [] \<or> length buf < STUN_HEADER_SIZE + 24 then Some False
          else do {
            found \<leftarrow> stun_find_attribute buf 0x0008;
            case found of
              None \<Rightarrow> Some False
            | Some (mi, mi_len) \<Rightarrow>
                if mi_len \<noteq> 20 then Some False
                else
                  (let mi_header = mi - 4 in
                   if mi_header < STUN_HEADER_SIZE \<or> mi_header + 24 > length buf then Some False
                   else case (if mi_header > 512 then heap mi_header else Some stack_scratch) of
                     None \<Rightarrow> Some False
                   | Some scratch \<Rightarrow> do {
                       msg \<leftarrow> rd_range buf 0 mi_header;
                       scratch \<leftarrow> memcpy_to scratch 0 msg;
                       scratch \<leftarrow> write_be16 scratch 2 (of_nat (mi_header + 24 - STUN_HEADER_SIZE));
                       msg \<leftarrow> rd_range scratch 0 mi_header;
                       case hmac pw msg of
                         None \<Rightarrow> Some False
                       | Some mac \<Rightarrow>
                           if length mac \<noteq> 20 then Some False
                           else do { v \<leftarrow> rd_range buf mi 20; Some (mac = v) } }) }
      | _ \<Rightarrow> Some False)"

definition software :: bytes where
  "software = [99, 97, 109, 115, 116, 114, 101, 97, 109]"

definition stun_build_error_response ::
  "bytes option \<Rightarrow> u16 \<Rightarrow> bytes option \<Rightarrow> nat \<Rightarrow> (int \<times> bytes option \<times> nat) option" where
  "stun_build_error_response tid error_code dst out_len =
     (case dst of
        None \<Rightarrow> Some (-1, dst, out_len)
      | Some out \<Rightarrow>
          if length out < 44 then Some (-1, dst, out_len)
          else do {
            out \<leftarrow> memcpy_to out 0 (replicate 44 0);
            out \<leftarrow> wr out 0 0x01;
            out \<leftarrow> wr out 1 0x11;
            out \<leftarrow> wr out 4 0x21;
            out \<leftarrow> wr out 5 0x12;
            out \<leftarrow> wr out 6 0xA4;
            out \<leftarrow> wr out 7 0x42;
            out \<leftarrow> (case tid of None \<Rightarrow> Some out
                   | Some t \<Rightarrow> do { t \<leftarrow> rd_range t 0 12; memcpy_to out 8 t });
            let attr = STUN_HEADER_SIZE;
            out \<leftarrow> write_be16 out attr 0x8022;
            out \<leftarrow> write_be16 out (attr + 2) (of_nat (length software));
            out \<leftarrow> memcpy_to out (attr + 4) software;
            let payload = 4 + pad4 (length software);
            let attr = STUN_HEADER_SIZE + payload;
            out \<leftarrow> write_be16 out attr 0x0009;
            out \<leftarrow> write_be16 out (attr + 2) 8;
            out \<leftarrow> wr out (attr + 4) 0;
            out \<leftarrow> wr out (attr + 5) (ucast (error_code div 100));
            out \<leftarrow> write_be16 out (attr + 6) (error_code mod 100);
            let payload = payload + 12;
            out \<leftarrow> write_be16 out 2 (of_nat payload);
            Some (0, Some out, STUN_HEADER_SIZE + payload) })"

section \<open>The CRC table against the bitwise CRC\<close>

definition crc32_ref :: "bytes \<Rightarrow> u32" where
  "crc32_ref data = fold (\<lambda>d crc. (crc_bit ^^ 8) (crc XOR ucast d)) data 0xFFFFFFFF XOR 0xFFFFFFFF"

lemma crc_bit_alt: "crc_bit x = drop_bit 1 x XOR (if bit x 0 then 0xEDB88320 else 0)"
proof -
  have "x AND 1 \<noteq> 0 \<longleftrightarrow> bit x 0" by (simp add: and_one_eq mod_2_eq_odd bit_0)
  then show ?thesis by (auto simp: crc_bit_def)
qed

lemma crc_bit_xor: "crc_bit (x XOR y) = crc_bit x XOR crc_bit y"
  by (auto simp: crc_bit_alt bit_xor_iff drop_bit_xor xor.assoc xor.left_commute xor.commute)

lemma crc_bits_xor: "(crc_bit ^^ k) (x XOR y) = (crc_bit ^^ k) x XOR (crc_bit ^^ k) y"
  by (induction k arbitrary: x y) (simp_all add: crc_bit_xor)

lemma crc_bits_shift: "\<forall>i < k. \<not> bit x i \<Longrightarrow> (crc_bit ^^ k) x = drop_bit k x"
proof (induction k)
  case (Suc k)
  then have "(crc_bit ^^ k) x = drop_bit k x" by simp
  moreover have "\<not> bit (drop_bit k x) 0" using Suc.prems by (simp add: bit_drop_bit_eq)
  ultimately show ?case by (simp add: crc_bit_alt [of "drop_bit k x"])
qed simp

lemma crc_step:
  fixes x :: u32
  shows "(crc_bit ^^ 8) (x AND 0xFF) XOR drop_bit 8 x = (crc_bit ^^ 8) x"
proof -
  let ?h = "x AND NOT 0xFF"
  have m: "(0xFF :: u32) = mask 8" by (simp add: mask_eq_exp_minus_1)
  have "x = (x AND 0xFF) XOR ?h" by (rule bit_word_eqI) (auto simp: bit_simps)
  moreover have "(crc_bit ^^ 8) ?h = drop_bit 8 ?h"
    by (rule crc_bits_shift) (auto simp: m bit_simps)
  moreover have "drop_bit 8 ?h = drop_bit 8 x"
    unfolding m by (rule bit_word_eqI) (auto simp: bit_simps dest: bit_imp_le_length)
  ultimately show ?thesis using crc_bits_xor [of 8 "x AND 0xFF" ?h] by simp
qed

lemma table_lookup:
  "rd g_crc32_table (unat (x AND 0xFF)) = Some ((crc_bit ^^ 8) (x AND 0xFF))"
proof -
  have "x AND 0xFF = take_bit 8 x" by (simp add: take_bit_eq_mask mask_eq_exp_minus_1)
  then have lt: "unat (x AND 0xFF) < 256"
    using take_bit_nat_less_exp [of 8 "unat x"] by (simp add: unsigned_take_bit_eq)
  then have "unat (x AND 0xFF) < length g_crc32_table" by (simp add: g_crc32_table_def)
  then show ?thesis using lt by (simp add: g_crc32_table_def)
qed

lemma crc32_loop_ref:
  "crc32_loop ds crc = Some (fold (\<lambda>d crc. (crc_bit ^^ 8) (crc XOR ucast d)) ds crc)"
proof (induction ds arbitrary: crc)
  case (Cons d ds)
  let ?x = "crc XOR ucast d"
  have "drop_bit 8 ?x = drop_bit 8 crc"
    by (rule bit_word_eqI) (auto simp: bit_simps dest: bit_imp_le_length)
  then have "(crc_bit ^^ 8) (?x AND 0xFF) XOR drop_bit 8 crc = (crc_bit ^^ 8) ?x"
    using crc_step [of ?x] by simp
  then show ?case using Cons by (simp add: table_lookup)
qed simp

section \<open>Attribute search\<close>

lemma pad4_ge: "n \<le> pad4 n"
  by (simp add: pad4_def)

lemma find_attr_loop_safe:
  assumes "e \<le> length buf"
  shows "\<exists>r. find_attr_loop buf wanted e offset = Some r \<and>
     (\<forall>off n. r = Some (off, n) \<longrightarrow> offset + 4 \<le> off \<and> off + n \<le> e \<and>
        read_be16 buf (off - 4) = Some wanted \<and> read_be16 buf (off - 2) = Some (of_nat n))"
proof (induction "e - offset" arbitrary: offset rule: less_induct)
  case less
  show ?case
  proof (cases "offset + 4 \<le> e")
    case True
    let ?t = "be16 (buf ! offset) (buf ! (offset + 1))"
    let ?n = "be16 (buf ! (offset + 2)) (buf ! (offset + 3))"
    let ?next = "offset + 4 + pad4 (unat ?n)"
    have step: "find_attr_loop buf wanted e offset =
        (if offset + 4 + unat ?n > e then Some None
         else if ?t = wanted then Some (Some (offset + 4, unat ?n))
         else find_attr_loop buf wanted e ?next)"
      using True assms by (subst find_attr_loop.simps) (auto simp: numeral_3_eq_3)
    have "e - ?next < e - offset" using True by simp
    from less [OF this] obtain r where r: "find_attr_loop buf wanted e ?next = Some r"
      "\<forall>off n. r = Some (off, n) \<longrightarrow> ?next + 4 \<le> off \<and> off + n \<le> e \<and>
        read_be16 buf (off - 4) = Some wanted \<and> read_be16 buf (off - 2) = Some (of_nat n)" by blast
    show ?thesis
    proof (cases "offset + 4 + unat ?n \<le> e \<and> ?t \<noteq> wanted")
      case go: True
      then have "find_attr_loop buf wanted e offset = Some r" using step r(1) by auto
      then show ?thesis using r(2) by fastforce
    next
      case stop: False
      have hdr: "read_be16 buf offset = Some ?t" "read_be16 buf (offset + 2) = Some ?n"
        using True assms by (simp_all add: numeral_3_eq_3)
      from stop show ?thesis unfolding step using hdr by auto
    qed
  next
    case False
    then show ?thesis by (subst find_attr_loop.simps) auto
  qed
qed

lemma find_attribute_safe:
  "\<exists>r. stun_find_attribute buf wanted = Some r \<and>
     (\<forall>off n. r = Some (off, n) \<longrightarrow> 24 \<le> off \<and> off + n \<le> length buf \<and>
        read_be16 buf (off - 4) = Some wanted \<and> read_be16 buf (off - 2) = Some (of_nat n))"
proof (cases "length buf < 20 \<or> unat (be16 (buf ! 2) (buf ! 3)) + 20 > length buf")
  case True
  then show ?thesis by (auto simp: stun_find_attribute_def stun_consts numeral_3_eq_3)
next
  case False
  let ?e = "20 + unat (be16 (buf ! 2) (buf ! 3))"
  have e: "?e \<le> length buf" using False by simp
  have "stun_find_attribute buf wanted = find_attr_loop buf wanted ?e 20"
    using False by (auto simp: stun_find_attribute_def stun_consts numeral_3_eq_3)
  then show ?thesis using find_attr_loop_safe [OF e, of wanted 20] e by fastforce
qed

subsection \<open>Encoded attribute lists\<close>

definition encode_attr :: "u16 \<times> bytes \<Rightarrow> bytes" where
  "encode_attr a = be16_bytes (fst a) @ be16_bytes (of_nat (length (snd a))) @ snd a @
     replicate (pad4 (length (snd a)) - length (snd a)) 0"

definition encode_attrs :: "(u16 \<times> bytes) list \<Rightarrow> bytes" where
  "encode_attrs as = concat (map encode_attr as)"

lemma encode_attrs_simps [simp]:
  "encode_attrs [] = []" "encode_attrs (a # as) = encode_attr a @ encode_attrs as"
  by (simp_all add: encode_attrs_def)

lemma length_encode_attr [simp]: "length (encode_attr a) = 4 + pad4 (length (snd a))"
  using pad4_ge [of "length (snd a)"] by (simp add: encode_attr_def)

lemma read_be16_at: "k = length xs \<Longrightarrow> read_be16 (xs @ be16_bytes v @ ys) k = Some v"
  by (simp add: read_be16_def be16_bytes_def be16_bytes_inverse nth_append)

lemma find_attr_loop_encoded:
  assumes "list_all (\<lambda>a. length (snd a) < 2 ^ 16) as"
  shows "find_attr_loop (pre @ encode_attrs as @ rest) t (length pre + length (encode_attrs as)) (length pre) =
     Some (case map_of as t of None \<Rightarrow> None
       | Some v \<Rightarrow> Some (length pre + 4 + length (encode_attrs (takeWhile (\<lambda>a. fst a \<noteq> t) as)), length v))"
  using assms
proof (induction as arbitrary: pre)
  case Nil
  then show ?case by (simp add: find_attr_loop.simps)
next
  case (Cons a as)
  obtain ty v where a: "a = (ty, v)" by fastforce
  let ?buf = "pre @ encode_attrs (a # as) @ rest" and ?e = "length pre + length (encode_attrs (a # as))"
  have len: "unat (of_nat (length v) :: u16) = length v"
    using Cons.prems a by (simp add: unsigned_of_nat take_bit_nat_def)
  have shape: "?buf = pre @ be16_bytes ty @ be16_bytes (of_nat (length v)) @
      (v @ replicate (pad4 (length v) - length v) 0 @ encode_attrs as @ rest)"
    by (simp add: a encode_attr_def)
  have r1: "read_be16 ?buf (length pre) = Some ty" unfolding shape by (rule read_be16_at) simp
  have r2: "read_be16 ?buf (length pre + 2) = Some (of_nat (length v))"
    unfolding shape using read_be16_at [of "length pre + 2" "pre @ be16_bytes ty"] by simp
  have fits: "length pre + 4 + length v \<le> ?e" using pad4_ge [of "length v"] a by simp
  show ?case
  proof (cases "ty = t")
    case True
    then show ?thesis using r1 r2 fits len a by (subst find_attr_loop.simps) simp
  next
    case False
    let ?pre = "pre @ encode_attr a"
    have "find_attr_loop ?buf t ?e (length pre) = find_attr_loop ?buf t ?e (length ?pre)"
      using False r1 r2 fits len a by (subst find_attr_loop.simps) (simp add: add.assoc)
    also have "\<dots> = find_attr_loop (?pre @ encode_attrs as @ rest) t (length ?pre + length (encode_attrs as)) (length ?pre)"
      by (simp add: add.assoc)
    also have "\<dots> = Some (case map_of as t of None \<Rightarrow> None
        | Some v \<Rightarrow> Some (length ?pre + 4 + length (encode_attrs (takeWhile (\<lambda>a. fst a \<noteq> t) as)), length v))"
      using Cons.prems by (intro Cons.IH) simp
    finally show ?thesis using False a by (simp add: add.assoc add.left_commute split: option.split)
  qed
qed

lemma encoded_value:
  assumes "map_of as t = Some v"
  shows "take (length v) (drop (4 + length (encode_attrs (takeWhile (\<lambda>a. fst a \<noteq> t) as))) (encode_attrs as @ rest)) = v"
  using assms
proof (induction as)
  case (Cons a as)
  have skip: "drop (length xs + n) (xs @ ys) = drop n ys" for n and xs ys :: bytes by simp
  show ?case
  proof (cases "fst a = t")
    case True
    with Cons.prems have "snd a = v" by (cases a) auto
    with True show ?thesis by (simp add: encode_attr_def be16_bytes_def)
  next
    case False
    let ?tw = "encode_attrs (takeWhile (\<lambda>a. fst a \<noteq> t) as)"
    have "4 + length (encode_attrs (takeWhile (\<lambda>a. fst a \<noteq> t) (a # as))) = length (encode_attr a) + (4 + length ?tw)"
      using False by simp
    moreover have "map_of as t = Some v" using False Cons.prems by (cases a) auto
    ultimately show ?thesis using Cons.IH skip by (simp only: encode_attrs_simps append_assoc)
  qed
qed simp

text \<open>A message: the type, the body length, cookie and transaction id, the attributes.\<close>

definition stun_message :: "u16 \<Rightarrow> bytes \<Rightarrow> (u16 \<times> bytes) list \<Rightarrow> bytes" where
  "stun_message ty ct as = be16_bytes ty @ be16_bytes (of_nat (length (encode_attrs as))) @ ct @ encode_attrs as"

lemma find_attribute_message:
  assumes "length ct = 16" "length (encode_attrs as) < 2 ^ 16"
  shows "stun_find_attribute (stun_message ty ct as @ rest) t =
     Some (case map_of as t of None \<Rightarrow> None
       | Some v \<Rightarrow> Some (24 + length (encode_attrs (takeWhile (\<lambda>a. fst a \<noteq> t) as)), length v))"
proof -
  let ?n = "length (encode_attrs as)"
  let ?pre = "be16_bytes ty @ be16_bytes (of_nat ?n) @ ct"
  let ?m = "stun_message ty ct as @ rest"
  have m: "?m = ?pre @ encode_attrs as @ rest" and pre: "length ?pre = 20"
    using assms(1) by (simp_all add: stun_message_def)
  have len: "read_be16 ?m 2 = Some (of_nat ?n)"
    unfolding stun_message_def using read_be16_at [of 2 "be16_bytes ty"] by simp
  have n: "unat (of_nat ?n :: u16) = ?n" using assms(2) by (simp add: unsigned_of_nat take_bit_nat_def)
  have "list_all (\<lambda>a. length (snd a) < 2 ^ 16) as"
  proof -
    have "length (snd a) \<le> ?n" if "a \<in> set as" for a
    proof -
      have "length (snd a) \<le> length (encode_attr a)" using pad4_ge [of "length (snd a)"] by simp
      also have "\<dots> \<le> ?n" using member_le_sum_list [of "length (encode_attr a)" "map (length \<circ> encode_attr) as"] that
        by (simp add: encode_attrs_def length_concat)
      finally show ?thesis .
    qed
    then show ?thesis using assms(2) by (auto simp: list_all_iff intro: le_less_trans)
  qed
  from find_attr_loop_encoded [of as ?pre rest t] this
  have "find_attr_loop ?m t (20 + ?n) 20 = Some (case map_of as t of None \<Rightarrow> None
       | Some v \<Rightarrow> Some (24 + length (encode_attrs (takeWhile (\<lambda>a. fst a \<noteq> t) as)), length v))"
    unfolding m pre by (simp split: option.split)
  then show ?thesis using len n pre unfolding stun_find_attribute_def stun_consts m
    by (simp add: m)
qed

section \<open>The binding response\<close>

definition xor_mapped :: "u16 \<Rightarrow> u32 \<Rightarrow> bytes" where
  "xor_mapped port addr = [0, 1] @ be16_bytes (port XOR 0x2112) @ be32_bytes (addr XOR 0x2112A442)"

text \<open>The message that the MAC covers: the attributes before it, the length counting it.\<close>

definition response_head :: "u16 \<Rightarrow> bytes \<Rightarrow> u16 \<Rightarrow> u32 \<Rightarrow> bytes" where
  "response_head len ct port addr = be16_bytes 0x0101 @ be16_bytes len @ ct @ encode_attr (0x0020, xor_mapped port addr)"

definition response_crc :: "bytes \<Rightarrow> u16 \<Rightarrow> u32 \<Rightarrow> bytes \<Rightarrow> bytes" where
  "response_crc ct port addr mac = be32_bytes (crc32_ref (response_head 44 ct port addr @ encode_attr (0x0008, mac)) XOR 0x5354554E)"

definition response_attrs :: "bytes \<Rightarrow> u16 \<Rightarrow> u32 \<Rightarrow> bytes \<Rightarrow> (u16 \<times> bytes) list" where
  "response_attrs ct port addr mac =
     [(0x0020, xor_mapped port addr), (0x0008, mac), (0x8028, response_crc ct port addr mac)]"

lemma response_lengths [simp]:
  "length (xor_mapped port addr) = 8" "length (response_crc ct port addr mac) = 4"
  "length ct = 16 \<Longrightarrow> length (response_head len ct port addr) = 32"
  by (simp_all add: xor_mapped_def response_crc_def response_head_def pad4_def)

lemma crc32_stun_prefix: "len \<le> length out \<Longrightarrow> crc32_stun out len = Some (crc32_ref (take len out))"
  by (simp add: crc32_stun_def crc32_loop_ref crc32_ref_def)

lemma be16_consts:
  "be16_bytes 0x0101 = [1, 1]" "be16_bytes 0x0020 = [0, 0x20]" "be16_bytes 8 = [0, 8]" "be16_bytes 20 = [0, 20]"
  "be16_bytes 36 = [0, 36]" "be16_bytes 0x8028 = [0x80, 0x28]" "be16_bytes 4 = [0, 4]" "be16_bytes 44 = [0, 44]"
  by (simp_all add: be16_bytes_def drop_bit_eq_div)

lemma build_binding_response_ok:
  assumes req: "20 \<le> length request" and out: "64 \<le> length out"
    and mac: "hmac pwd (response_head 36 (take 16 (drop 4 request)) port addr) = Some mac" "length mac = 20"
  shows "stun_build_binding_response hmac mac_stack (Some pwd) request (Some (AF_INET port addr)) out out_len =
     Some (0, stun_message 0x0101 (take 16 (drop 4 request)) (response_attrs (take 16 (drop 4 request)) port addr mac) @ drop 64 out, 64)"
proof -
  let ?ct = "take 16 (drop 4 request)"
  have ct: "length ?ct = 16" "rd_range request 4 16 = Some ?ct" using req by simp_all
  obtain ct where ct': "?ct = ct" "length ct = 16" using ct(1) by blast
  obtain a b c d t where t: "out = a # b # c # d # t" "60 \<le> length t"
    using four_cells [of out] out by fastforce
  show ?thesis
    using ct mac unfolding ct'(1)
    using t ct'(2) req
    by (simp add: stun_build_binding_response_def stun_consts write_be16_def write_be32_def be16_consts
        response_head_def encode_attr_def xor_mapped_def pad4_def crc32_stun_prefix
        stun_message_def response_attrs_def response_crc_def wr_memcpy del: wr_in)
qed

section \<open>MESSAGE-INTEGRITY\<close>

text \<open>The bytes that the MAC of an attribute whose header is at \<open>h\<close> covers, length field patched.\<close>

definition mi_input :: "bytes \<Rightarrow> nat \<Rightarrow> bytes" where
  "mi_input buf h = take 2 buf @ be16_bytes (of_nat (h + 4)) @ take (h - 4) (drop 4 buf)"

definition scratch_ok :: "bytes \<Rightarrow> (nat \<Rightarrow> bytes option) \<Rightarrow> bool" where
  "scratch_ok stack_scratch heap \<longleftrightarrow> length stack_scratch = 512 \<and> (\<forall>n b. heap n = Some b \<longrightarrow> length b = n)"

lemma patch_length:
  assumes "20 \<le> h" "h \<le> length buf" "h \<le> length scr"
  shows "Option.bind (memcpy_to scr 0 (take h buf)) (\<lambda>scr.
      Option.bind (write_be16 scr 2 v) (\<lambda>scr. rd_range scr 0 h)) =
    Some (take 2 buf @ be16_bytes v @ take (h - 4) (drop 4 buf))"
proof -
  have "take 2 (take h buf @ drop h scr) = take 2 buf" using assms by simp
  moreover have "drop 4 (take h buf @ drop h scr) = take (h - 4) (drop 4 buf) @ drop h scr"
    using assms by (simp add: drop_take)
  ultimately show ?thesis using assms by (simp add: write_be16_def)
qed

lemma verify_mi_char:
  assumes "scratch_ok scr heap"
  shows "\<exists>r. stun_verify_mi hmac scr heap (Some buf) (Some pw) = Some r \<and>
     (r \<longleftrightarrow> pw \<noteq> [] \<and> 44 \<le> length buf \<and>
        (\<exists>off. stun_find_attribute buf 0x0008 = Some (Some (off, 20)) \<and>
           (512 < off - 4 \<longrightarrow> heap (off - 4) \<noteq> None) \<and>
           hmac pw (mi_input buf (off - 4)) = Some (take 20 (drop off buf))))"
proof -
  obtain f where f: "stun_find_attribute buf 0x0008 = Some f"
    "\<And>off n. f = Some (off, n) \<Longrightarrow> 24 \<le> off \<and> off + n \<le> length buf"
    using find_attribute_safe [of buf "0x0008"] by blast
  show ?thesis
  proof (cases "pw \<noteq> [] \<and> 44 \<le> length buf \<and> (\<exists>off. f = Some (off, 20))")
    case False
    then show ?thesis using f(1) by (auto simp: stun_verify_mi_def stun_consts split: option.split)
  next
    case True
    then obtain off where off: "f = Some (off, 20)" by blast
    let ?h = "off - 4"
    have b: "20 \<le> ?h" "off + 20 \<le> length buf" "?h \<le> length buf" using f(2) [OF off] by auto
    show ?thesis
    proof (cases "if ?h > 512 then heap ?h else Some scr")
      case None
      then show ?thesis using True f(1) off b
        by (auto simp: stun_verify_mi_def stun_consts Let_def split: if_splits)
    next
      case (Some s)
      have "?h \<le> length s" using Some assms by (auto simp: scratch_ok_def split: if_splits)
      note p = patch_length [OF b(1,3) this, of "of_nat (?h + 4)"]
      have heap: "512 < ?h \<longrightarrow> heap ?h \<noteq> None" using Some by auto
      have "stun_verify_mi hmac scr heap (Some buf) (Some pw) =
          Option.bind (Option.bind (memcpy_to s 0 (take ?h buf)) (\<lambda>scr.
            Option.bind (write_be16 scr 2 (of_nat (?h + 4))) (\<lambda>scr. rd_range scr 0 ?h)))
          (\<lambda>msg. case hmac pw msg of None \<Rightarrow> Some False
             | Some mac \<Rightarrow> if length mac \<noteq> 20 then Some False else Option.bind (rd_range buf off 20) (\<lambda>v. Some (mac = v)))"
        using True f(1) off b Some
        by (simp add: stun_verify_mi_def stun_consts Let_def)
      also have "\<dots> = (case hmac pw (mi_input buf ?h) of None \<Rightarrow> Some False
             | Some mac \<Rightarrow> if length mac \<noteq> 20 then Some False else Option.bind (rd_range buf off 20) (\<lambda>v. Some (mac = v)))"
        unfolding p by (simp add: mi_input_def)
      finally show ?thesis using True f(1) off b heap by (auto split: option.splits)
    qed
  qed
qed

lemma response_find_mac:
  assumes "length ct = 16" "length mac = 20"
  shows "stun_find_attribute (stun_message 0x0101 ct (response_attrs ct port addr mac) @ rest) 0x0008 = Some (Some (36, 20))"
    "take 20 (drop 36 (stun_message 0x0101 ct (response_attrs ct port addr mac) @ rest)) = mac"
    "mi_input (stun_message 0x0101 ct (response_attrs ct port addr mac) @ rest) 32 = response_head 36 ct port addr"
    "length (stun_message 0x0101 ct (response_attrs ct port addr mac)) = 64"
proof -
  have len: "length (encode_attrs (response_attrs ct port addr mac)) = 44"
    using assms by (simp add: response_attrs_def pad4_def)
  show "stun_find_attribute (stun_message 0x0101 ct (response_attrs ct port addr mac) @ rest) 0x0008 = Some (Some (36, 20))"
    using find_attribute_message [OF assms(1), of "response_attrs ct port addr mac" "0x0101" rest "0x0008"] len assms(2)
    by (simp add: response_attrs_def pad4_def)
  show "take 20 (drop 36 (stun_message 0x0101 ct (response_attrs ct port addr mac) @ rest)) = mac"
    "mi_input (stun_message 0x0101 ct (response_attrs ct port addr mac) @ rest) 32 = response_head 36 ct port addr"
    "length (stun_message 0x0101 ct (response_attrs ct port addr mac)) = 64"
    using assms by (simp_all add: stun_message_def mi_input_def response_attrs_def encode_attr_def pad4_def
        response_head_def be16_bytes_def xor_mapped_def)
qed

section \<open>Attributes on the wire\<close>

lemma be16_bytes_be16: "be16_bytes (be16 a b) = [a, b]"
proof -
  have "ucast (drop_bit 8 (be16 a b)) = a" by (rule bit_word_eqI) (auto simp: be16_def bit_simps dest: bit_imp_le_length)
  moreover have "ucast (be16 a b) = b" by (rule bit_word_eqI) (auto simp: be16_def bit_simps)
  ultimately show ?thesis by (simp add: be16_bytes_def)
qed

text \<open>An attribute on the wire: type, length, value and the padding, whatever bytes that has.\<close>

type_synonym wire = "u16 \<times> bytes \<times> bytes"

fun wire_attr :: "wire \<Rightarrow> bytes" where
  "wire_attr (ty, v, pad) = be16_bytes ty @ be16_bytes (of_nat (length v)) @ v @ pad"

fun skipped :: "u16 \<Rightarrow> wire \<Rightarrow> bool" where
  "skipped t (ty, v, pad) \<longleftrightarrow> ty \<noteq> t \<and> length v < 2 ^ 16 \<and> length pad = pad4 (length v) - length v"

lemma find_attr_found:
  assumes "\<forall>a \<in> set as. skipped t a" "length v < 2 ^ 16" "body = concat (map wire_attr as) @ wire_attr (t, v, post)"
  shows "find_attr_loop (pre @ body @ rest) t (length pre + length body) (length pre) =
     Some (Some (length pre + length (concat (map wire_attr as)) + 4, length v))"
  using assms(1,3)
proof (induction as arbitrary: pre body)
  case Nil
  let ?buf = "pre @ body @ rest"
  have n: "unat (of_nat (length v) :: u16) = length v" using assms(2) by (simp add: unsigned_of_nat take_bit_nat_def)
  have "read_be16 ?buf (length pre) = Some t" using Nil.prems(2) read_be16_at [of "length pre" pre t] by simp
  moreover have "read_be16 ?buf (length pre + 2) = Some (of_nat (length v))"
    using Nil.prems(2) read_be16_at [of "length pre + 2" "pre @ be16_bytes t" "of_nat (length v)"] by simp
  ultimately show ?case using n Nil.prems(2) by (subst find_attr_loop.simps) simp
next
  case (Cons a as)
  obtain ty u pad where a: "a = (ty, u, pad)" by (cases a)
  let ?buf = "pre @ body @ rest" and ?pre = "pre @ wire_attr a" and ?body = "concat (map wire_attr as) @ wire_attr (t, v, post)"
  have sk: "ty \<noteq> t" "length u < 2 ^ 16" "length pad = pad4 (length u) - length u" using Cons.prems(1) a by auto
  have n: "unat (of_nat (length u) :: u16) = length u" using sk(2) by (simp add: unsigned_of_nat take_bit_nat_def)
  have b: "?buf = ?pre @ ?body @ rest" "length pre + length body = length ?pre + length ?body" using Cons.prems(2) by simp_all
  have len: "length ?pre = length pre + 4 + pad4 (length u)" using sk(3) pad4_ge [of "length u"] a by simp
  have "read_be16 ?buf (length pre) = Some ty" using Cons.prems(2) a read_be16_at [of "length pre" pre ty] by simp
  moreover have "read_be16 ?buf (length pre + 2) = Some (of_nat (length u))"
    using Cons.prems(2) a read_be16_at [of "length pre + 2" "pre @ be16_bytes ty" "of_nat (length u)"] by simp
  moreover have "length pre + 4 + length u \<le> length pre + length body" using b(2) len pad4_ge [of "length u"] by simp
  ultimately have "find_attr_loop ?buf t (length pre + length body) (length pre) =
      find_attr_loop ?buf t (length pre + length body) (length ?pre)"
    using sk(1) n len by (subst find_attr_loop.simps) (simp add: add.assoc del: read_be16_in)
  also have "\<dots> = find_attr_loop (?pre @ ?body @ rest) t (length ?pre + length ?body) (length ?pre)" unfolding b ..
  also have "\<dots> = Some (Some (length ?pre + length (concat (map wire_attr as)) + 4, length v))"
    using Cons.prems(1) by (intro Cons.IH) auto
  finally show ?case by simp
qed

lemma find_attr_parsed:
  assumes "find_attr_loop (pre @ body @ rest) t (length pre + length body) (length pre) = Some (Some (off, n))"
  shows "\<exists>as v post. body = concat (map wire_attr as) @ wire_attr (t, v, post) \<and> (\<forall>a \<in> set as. skipped t a) \<and>
     length v = n \<and> n < 2 ^ 16 \<and> off = length pre + length (concat (map wire_attr as)) + 4"
  using assms
proof (induction "length body" arbitrary: pre body rule: less_induct)
  case less
  have "4 \<le> length body" using less.prems by (subst (asm) find_attr_loop.simps) (auto split: if_splits)
  then obtain a b c d b' where body: "body = a # b # c # d # b'" using four_cells by blast
  let ?ty = "be16 a b" and ?n = "be16 c d"
  have hd: "body = be16_bytes ?ty @ be16_bytes ?n @ b'" by (simp add: be16_bytes_be16 body)
  have n16: "unat ?n < 2 ^ 16" using unsigned_less [of ?n, where ?'a = nat] by simp
  have r: "read_be16 (pre @ body @ rest) (length pre) = Some ?ty" "read_be16 (pre @ body @ rest) (length pre + 2) = Some ?n"
    using read_be16_at [of "length pre" pre ?ty] read_be16_at [of "length pre + 2" "pre @ be16_bytes ?ty" ?n] by (simp_all add: hd)
  have lb: "length body = 4 + length b'" by (simp add: body)
  have loop: "(if unat ?n > length b' then Some None else if ?ty = t then Some (Some (length pre + 4, unat ?n))
      else find_attr_loop (pre @ body @ rest) t (length pre + length body) (length pre + 4 + pad4 (unat ?n))) = Some (Some (off, n))"
    using less.prems r by (subst (asm) find_attr_loop.simps) (simp add: lb add.assoc del: read_be16_in)
  then have fits: "unat ?n \<le> length b'" by (simp split: if_splits)
  show ?case
  proof (cases "?ty = t")
    case True
    then have "off = length pre + 4" "n = unat ?n" using loop fits by auto
    moreover have "body = wire_attr (t, take (unat ?n) b', drop (unat ?n) b')" using True fits by (simp add: hd)
    ultimately show ?thesis using fits n16 by (intro exI [of _ "[]"] exI [of _ "take (unat ?n) b'"] exI [of _ "drop (unat ?n) b'"]) simp
  next
    case False
    then have l: "find_attr_loop (pre @ body @ rest) t (length pre + length body) (length pre + 4 + pad4 (unat ?n)) = Some (Some (off, n))"
      using loop fits by simp
    then have "length pre + 4 + pad4 (unat ?n) + 4 \<le> length pre + length body"
      by (subst (asm) find_attr_loop.simps) (auto split: if_splits)
    then have pb: "pad4 (unat ?n) \<le> length b'" by (simp add: body)
    have sp: "unat ?n \<le> pad4 (unat ?n)" by (rule pad4_ge)
    obtain u pad b where cat: "b' = u @ pad @ b" "length u = unat ?n" "length pad = pad4 (unat ?n) - unat ?n"
    proof (rule that)
      show "b' = take (unat ?n) b' @ take (pad4 (unat ?n) - unat ?n) (drop (unat ?n) b') @ drop (pad4 (unat ?n) - unat ?n) (drop (unat ?n) b')"
        by (simp only: append_take_drop_id)
      show "length (take (unat ?n) b') = unat ?n" using fits by simp
      show "length (take (pad4 (unat ?n) - unat ?n) (drop (unat ?n) b')) = pad4 (unat ?n) - unat ?n" using pb by simp
    qed
    define w where "w = (?ty, u, pad)"
    have w: "body = wire_attr w @ b" using cat by (simp add: hd w_def)
    have wl: "length (wire_attr w) = 4 + pad4 (unat ?n)" using cat(2,3) sp by (simp add: w_def)
    have "find_attr_loop ((pre @ wire_attr w) @ b @ rest) t (length (pre @ wire_attr w) + length b) (length (pre @ wire_attr w)) = Some (Some (off, n))"
      using l wl by (simp add: w add.assoc)
    moreover have "length b < length body" by (simp add: w wl)
    ultimately obtain as v post where as: "b = concat (map wire_attr as) @ wire_attr (t, v, post)"
      "\<forall>a \<in> set as. skipped t a" "length v = n" "n < 2 ^ 16" "off = length (pre @ wire_attr w) + length (concat (map wire_attr as)) + 4"
      using less.hyps by blast
    have "skipped t w" using False cat n16 by (simp add: w_def)
    moreover have "body = concat (map wire_attr (w # as)) @ wire_attr (t, v, post)" using w as(1) by simp
    moreover have "off = length pre + length (concat (map wire_attr (w # as))) + 4" using as(5) by simp
    ultimately show ?thesis using as(2,3,4) by (metis set_ConsD)
  qed
qed

lemma find_attribute_parsed:
  "stun_find_attribute buf t = Some (Some (off, n)) \<longleftrightarrow>
     (\<exists>ty len ct as v post rest. buf = be16_bytes ty @ be16_bytes len @ ct @ concat (map wire_attr as) @ wire_attr (t, v, post) @ rest \<and>
        length ct = 16 \<and> unat len = length (concat (map wire_attr as)) + 4 + n + length post \<and>
        (\<forall>a \<in> set as. skipped t a) \<and> length v = n \<and> off = 24 + length (concat (map wire_attr as)))" (is "?l \<longleftrightarrow> ?r")
proof
  assume f: ?l
  then have l: "20 \<le> length buf" by (simp add: stun_find_attribute_def stun_consts split: if_splits)
  obtain a b c d t' where buf: "buf = a # b # c # d # t'" using l four_cells [of buf] by fastforce
  let ?len = "be16 c d" and ?pre = "take 20 buf"
  have r: "read_be16 buf 2 = Some ?len" by (simp add: buf)
  have fit: "unat ?len + 20 \<le> length buf" and loop: "find_attr_loop buf t (20 + unat ?len) 20 = Some (Some (off, n))"
    using f r l by (simp_all add: stun_find_attribute_def stun_consts del: read_be16_in split: if_splits)
  let ?body = "take (unat ?len) (drop 20 buf)" and ?rest = "drop (unat ?len) (drop 20 buf)"
  have parts: "?pre @ ?body @ ?rest = buf" by (simp only: append_take_drop_id)
  have lens: "length ?pre = 20" "length ?body = unat ?len" using l fit by auto
  have "find_attr_loop (?pre @ ?body @ ?rest) t (length ?pre + length ?body) (length ?pre) = Some (Some (off, n))"
    unfolding parts lens by (rule loop)
  from find_attr_parsed [OF this] obtain as v post where as: "?body = concat (map wire_attr as) @ wire_attr (t, v, post)"
    "\<forall>a \<in> set as. skipped t a" "length v = n" "off = length ?pre + length (concat (map wire_attr as)) + 4" by blast
  have pre: "?pre = be16_bytes (be16 a b) @ be16_bytes ?len @ take 16 t'" by (simp add: buf be16_bytes_be16)
  have "buf = be16_bytes (be16 a b) @ be16_bytes ?len @ take 16 t' @ concat (map wire_attr as) @ wire_attr (t, v, post) @ ?rest"
    using parts unfolding as(1) pre by simp
  moreover have "length (take 16 t') = 16" using l by (simp add: buf)
  moreover have "unat ?len = length (concat (map wire_attr as)) + 4 + n + length post"
    using lens(2) as(3) unfolding as(1) by simp
  moreover have "off = 24 + length (concat (map wire_attr as))" using as(4) lens(1) by simp
  ultimately show ?r using as(2,3) by blast
next
  assume ?r
  then obtain ty len ct as v post rest where r: "buf = be16_bytes ty @ be16_bytes len @ ct @ concat (map wire_attr as) @ wire_attr (t, v, post) @ rest"
    "length ct = 16" "unat len = length (concat (map wire_attr as)) + 4 + n + length post"
    "\<forall>a \<in> set as. skipped t a" "length v = n" "off = 24 + length (concat (map wire_attr as))" by blast
  let ?pre = "be16_bytes ty @ be16_bytes len @ ct" and ?body = "concat (map wire_attr as) @ wire_attr (t, v, post)"
  have n16: "length v < 2 ^ 16" using r(3,5) unsigned_less [of len, where ?'a = nat] by simp
  have pre: "length ?pre = 20" "length ?body = unat len" using r(2,3,5) by simp_all
  have buf: "buf = ?pre @ ?body @ rest" using r(1) by simp
  have "find_attr_loop (?pre @ ?body @ rest) t (length ?pre + length ?body) (length ?pre) =
      Some (Some (length ?pre + length (concat (map wire_attr as)) + 4, length v))"
    by (rule find_attr_found [OF r(4) n16 refl])
  then have "find_attr_loop buf t (20 + unat len) 20 = Some (Some (off, n))" unfolding pre buf [symmetric] r(5,6)
    by (simp add: add.commute)
  moreover have "read_be16 buf 2 = Some len" unfolding r(1) using read_be16_at [of 2 "be16_bytes ty" len] by simp
  moreover have "20 \<le> length buf" "unat len + 20 \<le> length buf" unfolding buf using pre by simp_all
  ultimately show ?l by (simp add: stun_find_attribute_def stun_consts del: read_be16_in)
qed

lemma mi_covers:
  assumes "buf = be16_bytes ty @ be16_bytes len @ ct @ body @ wire_attr (0x0008, mac, post) @ rest" "length ct = 16" "length mac = 20"
  shows "mi_input buf (20 + length body) = be16_bytes ty @ be16_bytes (of_nat (length body + 24)) @ ct @ body"
    "take 20 (drop (24 + length body) buf) = mac" "44 \<le> length buf"
proof -
  have "drop 4 buf = (ct @ body) @ wire_attr (0x0008, mac, post) @ rest" "take 2 buf = be16_bytes ty"
    using assms(1) by (simp_all add: be16_bytes_def)
  then show "mi_input buf (20 + length body) = be16_bytes ty @ be16_bytes (of_nat (length body + 24)) @ ct @ body"
    using assms(2) by (simp add: mi_input_def add.commute)
  have "length (be16_bytes ty @ be16_bytes len @ ct @ body @ be16_bytes 0x0008 @ be16_bytes 20) = 24 + length body" using assms(2) by simp
  moreover have "buf = (be16_bytes ty @ be16_bytes len @ ct @ body @ be16_bytes 0x0008 @ be16_bytes 20) @ mac @ post @ rest"
    using assms(1,3) by simp
  ultimately show "take 20 (drop (24 + length body) buf) = mac" using assms(3) by (metis append_eq_conv_conj)
  show "44 \<le> length buf" using assms by simp
qed

text \<open>
  A message whose first MESSAGE-INTEGRITY attribute has 20 bytes and is the HMAC of everything in
  front of the attribute, the length field counting the message up to the end of the attribute.
\<close>

definition mi_authentic :: "(bytes \<Rightarrow> bytes \<Rightarrow> bytes option) \<Rightarrow> (nat \<Rightarrow> bytes option) \<Rightarrow> bytes \<Rightarrow> bytes \<Rightarrow> bool" where
  "mi_authentic hmac heap pw buf \<longleftrightarrow>
     (\<exists>ty len ct as mac post rest. let body = concat (map wire_attr as) in
        buf = be16_bytes ty @ be16_bytes len @ ct @ body @ wire_attr (0x0008, mac, post) @ rest \<and>
        length ct = 16 \<and> length mac = 20 \<and> unat len = length body + 24 + length post \<and>
        (\<forall>a \<in> set as. skipped 0x0008 a) \<and> (512 < 20 + length body \<longrightarrow> heap (20 + length body) \<noteq> None) \<and>
        hmac pw (be16_bytes ty @ be16_bytes (of_nat (length body + 24)) @ ct @ body) = Some mac)"

lemma mi_authentic_found:
  "mi_authentic hmac heap pw buf \<longleftrightarrow> 44 \<le> length buf \<and> (\<exists>off. stun_find_attribute buf 0x0008 = Some (Some (off, 20)) \<and>
     (512 < off - 4 \<longrightarrow> heap (off - 4) \<noteq> None) \<and> hmac pw (mi_input buf (off - 4)) = Some (take 20 (drop off buf)))" (is "?l \<longleftrightarrow> ?r")
proof
  assume ?l
  then obtain ty len ct as mac post rest where m:
    "buf = be16_bytes ty @ be16_bytes len @ ct @ concat (map wire_attr as) @ wire_attr (0x0008, mac, post) @ rest"
    "length ct = 16" "length mac = 20" "unat len = length (concat (map wire_attr as)) + 24 + length post" "\<forall>a \<in> set as. skipped 0x0008 a"
    "512 < 20 + length (concat (map wire_attr as)) \<longrightarrow> heap (20 + length (concat (map wire_attr as))) \<noteq> None"
    "hmac pw (be16_bytes ty @ be16_bytes (of_nat (length (concat (map wire_attr as)) + 24)) @ ct @ concat (map wire_attr as)) = Some mac"
    unfolding mi_authentic_def Let_def by blast
  let ?off = "24 + length (concat (map wire_attr as))"
  have before: "?off - 4 = 20 + length (concat (map wire_attr as))" by simp
  have "unat len = length (concat (map wire_attr as)) + 4 + 20 + length post" using m(4) by simp
  then have "stun_find_attribute buf 0x0008 = Some (Some (?off, 20))" unfolding find_attribute_parsed using m(1,2,3,5) by blast
  moreover note cover = mi_covers [OF m(1,2,3)]
  moreover have "hmac pw (mi_input buf (?off - 4)) = Some (take 20 (drop ?off buf))" unfolding before cover by (rule m(7))
  ultimately show ?r using m(6) before by metis
next
  assume ?r
  then obtain off ty len ct as mac post rest where
    m: "buf = be16_bytes ty @ be16_bytes len @ ct @ concat (map wire_attr as) @ wire_attr (0x0008, mac, post) @ rest"
    "length ct = 16" "unat len = length (concat (map wire_attr as)) + 4 + 20 + length post" "\<forall>a \<in> set as. skipped 0x0008 a"
    "length mac = 20" "off = 24 + length (concat (map wire_attr as))"
    "512 < off - 4 \<longrightarrow> heap (off - 4) \<noteq> None" "hmac pw (mi_input buf (off - 4)) = Some (take 20 (drop off buf))"
    unfolding find_attribute_parsed by blast
  have before: "off - 4 = 20 + length (concat (map wire_attr as))" using m(6) by simp
  note cover = mi_covers [OF m(1,2,5)]
  have "hmac pw (be16_bytes ty @ be16_bytes (of_nat (length (concat (map wire_attr as)) + 24)) @ ct @ concat (map wire_attr as)) = Some mac"
    using m(8) unfolding before unfolding m(6) cover .
  moreover have "unat len = length (concat (map wire_attr as)) + 24 + length post" using m(3) by simp
  ultimately show ?l unfolding mi_authentic_def Let_def using m(1,2,4,5,7) unfolding before by blast
qed

section \<open>Properties\<close>

text \<open>
  C13: whatever bytes arrive, the verification of MESSAGE-INTEGRITY reads nothing outside the
  datagram and overruns neither scratch buffer, and it succeeds exactly when the password is not
  empty and the datagram parses as a header, attributes of other types, and a 20 byte
  MESSAGE-INTEGRITY attribute whose value is the HMAC of the message in front of that attribute,
  with the length field patched to end behind it (and the heap copy of an oversized message could be
  allocated). The attribute itself is not covered, as RFC 5389 has it, although the header file
  says that it is.
\<close>

theorem stun_verify_mi_correct:
  assumes "scratch_ok stack_scratch heap"
  shows "\<exists>r. stun_verify_mi hmac stack_scratch heap (Some buf) (Some pw) = Some r \<and>
     (r \<longleftrightarrow> pw \<noteq> [] \<and>
        (\<exists>ty len ct as mac post rest. let body = concat (map wire_attr as) in
           buf = be16_bytes ty @ be16_bytes len @ ct @ body @ wire_attr (0x0008, mac, post) @ rest \<and>
           length ct = 16 \<and> length mac = 20 \<and> unat len = length body + 24 + length post \<and>
           (\<forall>a \<in> set as. skipped 0x0008 a) \<and> (512 < 20 + length body \<longrightarrow> heap (20 + length body) \<noteq> None) \<and>
           hmac pw (be16_bytes ty @ be16_bytes (of_nat (length body + 24)) @ ct @ body) = Some mac))"
  using verify_mi_char [OF assms, of hmac buf pw] unfolding mi_authentic_found [symmetric] mi_authentic_def .

definition demo_hmac :: "bytes \<Rightarrow> bytes \<Rightarrow> bytes option" where
  "demo_hmac k m = Some (take 20 (k @ m @ replicate 20 0))"

lemma demo_hmac_length: "demo_hmac k m = Some mac \<Longrightarrow> length mac = 20"
  by (auto simp: demo_hmac_def)

theorem stun_verify_mi_witness:
  "stun_verify_mi demo_hmac (replicate 512 0) (\<lambda>n. None)
     (Some (stun_message 1 (replicate 16 5) [(0x0006, [97, 58, 98]), (0x0008, replicate 20 7)])) (Some (replicate 20 7)) = Some True \<and>
   stun_verify_mi demo_hmac (replicate 512 0) (\<lambda>n. None) (Some (replicate 44 0)) (Some []) = Some False"
proof
  let ?m = "stun_message 1 (replicate 16 5) [(0x0006, [97, 58, 98]), (0x0008, replicate 20 7)]"
  let ?as = "[(0x0006, [97, 58, 98], [0])] :: wire list"
  have ok: "scratch_ok (replicate 512 0) (\<lambda>n. None)" by (simp add: scratch_ok_def)
  obtain r where r: "stun_verify_mi demo_hmac (replicate 512 0) (\<lambda>n. None) (Some ?m) (Some (replicate 20 7)) = Some r"
    "(\<exists>ty len ct as mac post rest. let body = concat (map wire_attr as) in
           ?m = be16_bytes ty @ be16_bytes len @ ct @ body @ wire_attr (0x0008, mac, post) @ rest \<and>
           length ct = 16 \<and> length mac = 20 \<and> unat len = length body + 24 + length post \<and>
           (\<forall>a \<in> set as. skipped 0x0008 a) \<and> (512 < 20 + length body \<longrightarrow> (\<lambda>n. None :: bytes option) (20 + length body) \<noteq> None) \<and>
           demo_hmac (replicate 20 7) (be16_bytes ty @ be16_bytes (of_nat (length body + 24)) @ ct @ body) = Some mac) \<Longrightarrow> r"
    using stun_verify_mi_correct [OF ok, of demo_hmac ?m "replicate 20 7"] by force
  have r
  proof (rule r(2), intro exI)
    let ?b = "concat (map wire_attr ?as)"
    show "let body = ?b in ?m = be16_bytes 1 @ be16_bytes 32 @ replicate 16 5 @ body @ wire_attr (0x0008, replicate 20 7, []) @ [] \<and>
           length (replicate 16 (5 :: u8)) = 16 \<and> length (replicate 20 (7 :: u8)) = 20 \<and> unat (32 :: u16) = length body + 24 + length ([] :: bytes) \<and>
           (\<forall>a \<in> set ?as. skipped 0x0008 a) \<and> (512 < 20 + length body \<longrightarrow> (\<lambda>n. None :: bytes option) (20 + length body) \<noteq> None) \<and>
           demo_hmac (replicate 20 7) (be16_bytes 1 @ be16_bytes (of_nat (length body + 24)) @ replicate 16 5 @ body) = Some (replicate 20 7)"
      by (simp add: Let_def stun_message_def encode_attr_def pad4_def demo_hmac_def)
  qed
  with r(1) show "stun_verify_mi demo_hmac (replicate 512 0) (\<lambda>n. None) (Some ?m) (Some (replicate 20 7)) = Some True" by simp
  show "stun_verify_mi demo_hmac (replicate 512 0) (\<lambda>n. None) (Some (replicate 44 0)) (Some []) = Some False"
    using stun_verify_mi_correct [OF ok, of demo_hmac "replicate 44 0" "[]"] by auto
qed

text \<open>
  C14: the answer to a binding request is a complete STUN message of 64 bytes, written inside its
  buffer: it echoes cookie and transaction id, reports the peer's address, and passes the
  program's own MESSAGE-INTEGRITY check under the same password; its FINGERPRINT is the CRC-32
  of the preceding bytes.
\<close>

theorem stun_binding_response_verifies:
  assumes "STUN_HEADER_SIZE \<le> length request" "64 \<le> length out" "pwd \<noteq> []"
    and hmac: "\<And>m. \<exists>mac. hmac pwd m = Some mac \<and> length mac = 20"
    and "scratch_ok stack_scratch heap"
  shows "\<exists>out'. stun_build_binding_response hmac mac_stack (Some pwd) request (Some (AF_INET port addr)) out out_len
       = Some (0, out', 64) \<and>
     length out' = length out \<and> drop 64 out' = drop 64 out \<and>
     take 2 out' = [0x01, 0x01] \<and> take 16 (drop 4 out') = take 16 (drop 4 request) \<and>
     stun_find_attribute (take 64 out') 0x0020 = Some (Some (24, 8)) \<and>
     take 8 (drop 24 out') = [0, 1] @ be16_bytes (port XOR 0x2112) @ be32_bytes (addr XOR STUN_MAGIC_COOKIE) \<and>
     stun_verify_mi hmac stack_scratch heap (Some (take 64 out')) (Some pwd) = Some True \<and>
     take 8 (drop 56 out') = [0x80, 0x28, 0, 4] @ be32_bytes (crc32_ref (take 56 out') XOR 0x5354554E)"
proof -
  let ?ct = "take 16 (drop 4 request)"
  have ct: "length ?ct = 16" using assms(1) by (simp add: stun_consts)
  obtain mac where mac: "hmac pwd (response_head 36 ?ct port addr) = Some mac" "length mac = 20"
    using hmac by blast
  let ?msg = "stun_message 0x0101 ?ct (response_attrs ?ct port addr mac)"
  have run: "stun_build_binding_response hmac mac_stack (Some pwd) request (Some (AF_INET port addr)) out out_len =
      Some (0, ?msg @ drop 64 out, 64)"
    using build_binding_response_ok [of request out hmac pwd port addr mac] assms(1,2) mac by (simp add: stun_consts)
  note m = response_find_mac(1-3) [OF ct mac(2), of port addr "[]", unfolded append_Nil2]
    response_find_mac(4) [OF ct mac(2), of port addr]
  have "stun_verify_mi hmac stack_scratch heap (Some ?msg) (Some pwd) = Some True"
    using verify_mi_char [OF assms(5), of hmac ?msg pwd] assms(3) m mac by auto
  moreover have "length (encode_attrs (response_attrs ?ct port addr mac)) = 44"
    using mac by (simp add: response_attrs_def pad4_def)
  then have "stun_find_attribute ?msg 0x0020 = Some (Some (24, 8))"
    using find_attribute_message [OF ct, of "response_attrs ?ct port addr mac" "0x0101" "[]" "0x0020"]
    by (simp add: response_attrs_def)
  moreover have "take 2 ?msg = [1, 1]" "take 16 (drop 4 ?msg) = ?ct" "take 8 (drop 24 ?msg) = xor_mapped port addr"
    "take 56 ?msg = response_head 44 ?ct port addr @ encode_attr (0x0008, mac)"
    "drop 56 ?msg = [0x80, 0x28, 0, 4] @ response_crc ?ct port addr mac"
    using ct mac(2)
    by (simp_all add: stun_message_def response_attrs_def encode_attr_def pad4_def response_head_def be16_consts
        xor_mapped_def)
  ultimately show ?thesis using run m(4) assms(2)
    by (simp add: xor_mapped_def stun_consts response_crc_def)
qed

theorem stun_binding_response_witness:
  "\<exists>out'. stun_build_binding_response demo_hmac [] (Some [112, 119]) (replicate 20 0) (Some (AF_INET 5000 0xC0A80101))
       (replicate 128 0) 0 = Some (0, out', 64) \<and>
     stun_verify_mi demo_hmac (replicate 512 0) (\<lambda>n. None) (Some (take 64 out')) (Some [112, 119]) = Some True"
proof -
  have "\<exists>mac. demo_hmac [112, 119] m = Some mac \<and> length mac = 20" for m
    using demo_hmac_length by (simp add: demo_hmac_def)
  with stun_binding_response_verifies [of "replicate 20 0" "replicate 128 0" "[112, 119]" demo_hmac "replicate 512 0"
      "\<lambda>n. None" "[]" 5000 "0xC0A80101" 0]
  show ?thesis by (auto simp: stun_consts scratch_ok_def)
qed

text \<open>
  The attribute search is safe on every datagram, and what it reports is an attribute of the
  wanted type that lies inside it; on a message built from a list of attributes it finds exactly
  the first one of that type, and nothing when there is none.
\<close>

theorem stun_find_attribute_correct:
  assumes "length ct = 16" "length (encode_attrs as) < 2 ^ 16"
  shows "(\<exists>r. stun_find_attribute buf wanted = Some r \<and>
       (\<forall>off n. r = Some (off, n) \<longrightarrow> 24 \<le> off \<and> off + n \<le> length buf \<and>
          read_be16 buf (off - 4) = Some wanted \<and> read_be16 buf (off - 2) = Some (of_nat n))) \<and>
     (case map_of as t of
        None \<Rightarrow> stun_find_attribute (stun_message ty ct as @ rest) t = Some None
      | Some v \<Rightarrow> \<exists>off. stun_find_attribute (stun_message ty ct as @ rest) t = Some (Some (off, length v)) \<and>
                        take (length v) (drop off (stun_message ty ct as @ rest)) = v)"
proof (intro conjI find_attribute_safe)
  let ?msg = "stun_message ty ct as @ rest"
  let ?off = "24 + length (encode_attrs (takeWhile (\<lambda>a. fst a \<noteq> t) as))"
  have found: "stun_find_attribute ?msg t = Some (case map_of as t of None \<Rightarrow> None | Some v \<Rightarrow> Some (?off, length v))"
    by (rule find_attribute_message [OF assms])
  have "drop ?off ?msg = drop (4 + length (encode_attrs (takeWhile (\<lambda>a. fst a \<noteq> t) as))) (encode_attrs as @ rest)"
    using assms(1) by (simp add: stun_message_def)
  then have "take (length v) (drop ?off ?msg) = v" if "map_of as t = Some v" for v
    using encoded_value [OF that, of rest] by simp
  with found show "case map_of as t of None \<Rightarrow> stun_find_attribute ?msg t = Some None
      | Some v \<Rightarrow> \<exists>off. stun_find_attribute ?msg t = Some (Some (off, length v)) \<and> take (length v) (drop off ?msg) = v"
    by (auto split: option.split)
qed

theorem stun_find_attribute_witness:
  "\<exists>off. stun_find_attribute (stun_message 1 (replicate 16 0) [(0x0024, [1, 2, 3]), (0x0006, [97, 58, 98])] @ []) 0x0006 = Some (Some (off, 3))"
proof -
  let ?as = "[(0x0024, [1, 2, 3]), (0x0006, [97, 58, 98])] :: (u16 \<times> bytes) list"
  have "length (replicate 16 0 :: bytes) = 16" "length (encode_attrs ?as) < 2 ^ 16" "map_of ?as 0x0006 = Some [97, 58, 98]"
    by (simp_all add: pad4_def)
  with stun_find_attribute_correct [where ct = "replicate 16 0" and as = ?as and t = "0x0006" and ty = 1 and rest = "[]"]
  have "\<exists>off. stun_find_attribute (stun_message 1 (replicate 16 0) ?as @ []) 0x0006 = Some (Some (off, length [97 :: u8, 58, 98]))"
    by fastforce
  moreover have "length [97 :: u8, 58, 98] = 3" by simp
  ultimately show ?thesis by metis
qed

text \<open>The table driven CRC of the FINGERPRINT equals the bit by bit CRC-32 on every message.\<close>

theorem crc32_stun_correct: "crc32_stun data (length data) = Some (crc32_ref data)"
  using crc32_stun_prefix [of "length data" data] by simp

lemma memchr_spec:
  "memchr xs c = Some k \<Longrightarrow> k < length xs \<and> xs ! k = c \<and> c \<notin> set (take k xs)"
  by (induction xs arbitrary: k) (auto simp: nth_Cons split: if_splits nat.splits)

lemma memchr_None: "memchr xs c = None \<longleftrightarrow> c \<notin> set xs"
  by (induction xs) auto

lemma memchr_append: "c \<notin> set xs \<Longrightarrow> memchr (xs @ c # ys) c = Some (length xs)"
  by (induction xs) auto

lemma prefix_form:
  "(\<exists>x. u = f @ c # x) \<longleftrightarrow> length f < length u \<and> u ! length f = c \<and> take (length f) u = f"
proof
  assume "length f < length u \<and> u ! length f = c \<and> take (length f) u = f"
  then show "\<exists>x. u = f @ c # x" using id_take_nth_drop [of "length f" u] by metis
qed auto

lemma suffix_form:
  "(\<exists>x. c \<notin> set x \<and> u = x @ c # f) \<longleftrightarrow>
     (case memchr u c of None \<Rightarrow> False
      | Some k \<Rightarrow> length u - (k + 1) = length f \<and> take (length f) (drop (k + 1) u) = f)"
proof (cases "memchr u c")
  case None
  then show ?thesis using memchr_None [of u c] by auto
next
  case (Some k)
  note k = memchr_spec [OF Some]
  have split: "u = take k u @ c # drop (k + 1) u" using k id_take_nth_drop [of k u] by simp
  have "k = length x" if "c \<notin> set x" "u = x @ c # f" for x
    using memchr_append [OF that(1), of f] Some that(2) by simp
  moreover have "\<exists>x. c \<notin> set x \<and> u = x @ c # f"
    if "length u - (k + 1) = length f" "take (length f) (drop (k + 1) u) = f"
  proof -
    have "drop (k + 1) u = f" using that by simp
    then show ?thesis using split k by (intro exI [of _ "take k u"]) simp
  qed
  ultimately show ?thesis using Some by auto
qed

text \<open>
  The USERNAME check never reads outside the datagram and accepts exactly the names that are
  our fragment, a colon and anything, or a fragment without colon, a colon and our fragment.
\<close>

theorem stun_username_matches_correct:
  assumes "ufrag \<noteq> []"
  shows "stun_username_matches buf (Some ufrag) = Some
     (case stun_find_attribute buf 0x0006 of
        Some (Some (off, n)) \<Rightarrow>
          (\<exists>x. take n (drop off buf) = ufrag @ colon # x) \<or>
          (\<exists>x. colon \<notin> set x \<and> take n (drop off buf) = x @ colon # ufrag)
      | _ \<Rightarrow> False)"
proof -
  obtain f where f: "stun_find_attribute buf 0x0006 = Some f"
    "\<And>off n. f = Some (off, n) \<Longrightarrow> off + n \<le> length buf"
    using find_attribute_safe [of buf "0x0006"] by blast
  show ?thesis
  proof (cases f)
    case None
    then show ?thesis using f(1) assms by (simp add: stun_username_matches_def)
  next
    case (Some p)
    obtain off n where p: "p = (off, n)" by fastforce
    obtain u where u: "rd_range buf off n = Some u" "take n (drop off buf) = u" "length u = n"
      using f(2) Some p by simp
    have second: "rd_range u (Suc k) (length ufrag) = Some (take (length ufrag) (drop (Suc k) u))"
      if "length u - Suc k = length ufrag" for k
    proof -
      have "0 < length ufrag" using assms by simp
      then show ?thesis using that by (intro rd_range_in) linarith
    qed
    have "stun_username_matches buf (Some ufrag) = Some
        (length ufrag < length u \<and> u ! length ufrag = colon \<and> take (length ufrag) u = ufrag \<or>
         (case memchr u colon of None \<Rightarrow> False
          | Some k \<Rightarrow> length u - (k + 1) = length ufrag \<and> take (length ufrag) (drop (k + 1) u) = ufrag))"
      using f(1) Some p u(1,3) assms
      by (auto simp: stun_username_matches_def Let_def second split: option.split)
    then have "stun_username_matches buf (Some ufrag) = Some
        ((\<exists>x. u = ufrag @ colon # x) \<or> (\<exists>x. colon \<notin> set x \<and> u = x @ colon # ufrag))"
      unfolding prefix_form suffix_form .
    then show ?thesis using f(1) Some p u(2) by simp
  qed
qed

theorem stun_username_matches_witness:
  "stun_username_matches (stun_message 1 (replicate 16 0) [(0x0006, [97, 58, 98])]) (Some [98]) = Some True"
proof -
  let ?m = "stun_message 1 (replicate 16 0) [(0x0006, [97, 58, 98])]"
  have "stun_find_attribute ?m 0x0006 = Some (Some (24, 3))"
    using find_attribute_message [of "replicate 16 0" "[(0x0006, [97, 58, 98])]" 1 "[]" "0x0006"] by (simp add: pad4_def)
  moreover have "take 3 (drop 24 ?m) = [97, 58, 98]" by (simp add: stun_message_def encode_attr_def be16_bytes_def)
  moreover have "\<exists>x. colon \<notin> set x \<and> [97, 58, 98] = x @ colon # [98]"
    by (rule exI [of _ "[97]"]) (simp add: colon_def)
  ultimately show ?thesis using stun_username_matches_correct [of "[98]" ?m] by simp
qed

definition error_head :: "bytes \<Rightarrow> u16 \<Rightarrow> bytes" where
  "error_head tid code = [0x01, 0x11, 0, 28, 0x21, 0x12, 0xA4, 0x42] @ tid @
     [0x80, 0x22, 0, 9] @ software @ [0, 0, 0] @ [0, 9, 0, 8, 0, ucast (code div 100)] @ be16_bytes (code mod 100)"

lemma error_response_bytes:
  assumes "length tid = 12" "44 \<le> length out"
  shows "stun_build_error_response (Some tid) code (Some out) n =
     Some (0, Some (error_head tid code @ drop 44 out), 48) \<and> length (error_head tid code) = 44"
proof -
  have fields: "be16_bytes 0x8022 = [0x80, 0x22]" "be16_bytes 9 = [0, 9]" "be16_bytes 8 = [0, 8]" "be16_bytes 28 = [0, 28]"
    by (simp_all add: be16_bytes_def drop_bit_eq_div)
  have zeros: "replicate 44 (0 :: u8) = replicate 8 0 @ replicate 12 0 @ replicate 24 0"
    by (simp flip: replicate_add)
  have cells: "replicate 8 (0 :: u8) = [0, 0, 0, 0, 0, 0, 0, 0]"
    "replicate 24 (0 :: u8) = [0, 0, 0, 0, 0, 0, 0, 0, 0, 0, 0, 0, 0, 0, 0, 0, 0, 0, 0, 0, 0, 0, 0, 0]"
    by (simp_all add: numeral_eq_Suc)
  show ?thesis
    using assms
    by (simp add: stun_build_error_response_def stun_consts write_be16_def fields zeros cells error_head_def
        software_def pad4_def wr_memcpy del: wr_in)
qed

text \<open>
  C40: the error response is built without a fault in every buffer of at least 44 bytes: header with
  cookie and transaction id, SOFTWARE and ERROR-CODE. But the length it announces, in the header and
  to the caller, is 48: the last 4 announced bytes are never written, and in a 44 byte buffer they
  do not exist.
\<close>

theorem stun_error_response_short:
  assumes "length tid = 12" "44 \<le> length out"
  shows "stun_build_error_response (Some tid) code (Some out) n =
     Some (0, Some (error_head tid code @ drop 44 out), 48) \<and> length (error_head tid code) = 44"
  by (rule error_response_bytes [OF assms])

theorem stun_error_response_witness:
  "\<exists>out'. stun_build_error_response (Some (replicate 12 7)) 401 (Some (replicate 44 0)) 0 = Some (0, Some out', 48) \<and>
     length out' = 44"
  using stun_error_response_short [of "replicate 12 7" "replicate 44 0" 401 0] by simp

lemma stun_reads_total:
  "\<exists>b. stun_is_binding_indication buf = Some b"
  "\<exists>r. stun_is_binding_request buf = Some r \<and> (\<forall>tid. r = Some tid \<longrightarrow> length tid = 12 \<and> 20 \<le> length buf)"
  "\<exists>b. stun_username_matches buf (Some ufrag) = Some b"
  "out \<noteq> [] \<Longrightarrow> \<exists>r. stun_copy_username buf (Some out) = Some r"
proof -
  show "\<exists>b. stun_is_binding_indication buf = Some b"
    by (cases "length buf < 20") (auto simp: stun_is_binding_indication_def stun_consts)
  show "\<exists>r. stun_is_binding_request buf = Some r \<and> (\<forall>tid. r = Some tid \<longrightarrow> length tid = 12 \<and> 20 \<le> length buf)"
    by (cases "length buf < 20") (auto simp: stun_is_binding_request_def stun_consts)
  show "\<exists>b. stun_username_matches buf (Some ufrag) = Some b"
    using stun_username_matches_correct [of ufrag buf] by (cases "ufrag = []") (simp_all add: stun_username_matches_def, blast)
  assume out: "out \<noteq> []"
  obtain r where r: "stun_find_attribute buf 0x0006 = Some r"
    "\<forall>off n. r = Some (off, n) \<longrightarrow> off + n \<le> length buf" using find_attribute_safe [of buf "0x0006"] by blast
  show "\<exists>r. stun_copy_username buf (Some out) = Some r"
  proof (cases r)
    case None
    then show ?thesis using out r(1) by (simp add: stun_copy_username_def)
  next
    case (Some x)
    then obtain off n where x: "r = Some (off, n)" by (cases x) auto
    then show ?thesis using out r by (cases "n \<ge> length out") (auto simp: stun_copy_username_def Let_def)
  qed
qed

text \<open>The response only depends on the 20 bytes that end up in the MAC field.\<close>

lemma build_response_mac:
  assumes "\<And>m. rd_range (case h pwd m of None \<Rightarrow> ms | Some x \<Rightarrow> x) 0 20 = rd_range (case h' pwd m of None \<Rightarrow> ms' | Some x \<Rightarrow> x) 0 20"
  shows "stun_build_binding_response h ms (Some pwd) request p out n = stun_build_binding_response h' ms' (Some pwd) request p out n"
  by (cases p; simp add: stun_build_binding_response_def assms split: Sockaddr.split)

lemma build_binding_response_total:
  assumes "20 \<le> length request" "64 \<le> length out" "20 \<le> length ms" "\<And>k m x. h k m = Some x \<Longrightarrow> length x = 20"
  shows "\<exists>rc out' k. stun_build_binding_response h ms (Some pwd) request (Some src) out n = Some (rc, out', k) \<and>
     (rc = 0 \<longrightarrow> k = 64 \<and> 64 \<le> length out')"
proof (cases src)
  case (AF_INET port addr)
  let ?h = "\<lambda>k m. Some (case h k m of None \<Rightarrow> take 20 ms | Some x \<Rightarrow> x)"
  let ?mac = "case h pwd (response_head 36 (take 16 (drop 4 request)) port addr) of None \<Rightarrow> take 20 ms | Some x \<Rightarrow> x"
  have mac: "length ?mac = 20" using assms(3,4) by (auto split: option.split)
  have "stun_build_binding_response h ms (Some pwd) request (Some src) out n =
      stun_build_binding_response ?h ms (Some pwd) request (Some src) out n"
    using assms(3) by (intro build_response_mac) (auto split: option.split)
  also have "\<dots> = Some (0, stun_message 0x0101 (take 16 (drop 4 request)) (response_attrs (take 16 (drop 4 request)) port addr ?mac) @ drop 64 out, 64)"
    unfolding AF_INET by (rule build_binding_response_ok) (use assms(1,2) mac in simp_all)
  finally show ?thesis
    using response_find_mac(4) [of "take 16 (drop 4 request)" ?mac port addr] mac assms(1) by simp
next
  case AF_OTHER
  then show ?thesis by (simp add: stun_build_binding_response_def)
qed

lemma request_is_stun:
  assumes "stun_is_binding_request buf = Some (Some tid)"
  shows "stun_is_binding_indication buf = Some False" "rtc_classify_packet buf = Some RTC_PKT_STUN"
proof -
  have r: "20 \<le> length buf" "be16 (buf ! 0) (buf ! 1) = 1"
    using assms by (auto simp: stun_is_binding_request_def stun_consts split: if_splits)
  then show "stun_is_binding_indication buf = Some False"
    by (simp add: stun_is_binding_indication_def stun_consts)
  have "buf ! 0 = ucast (drop_bit 8 (be16 (buf ! 0) (buf ! 1)))"
    by (rule bit_word_eqI) (auto simp: be16_def bit_simps dest: bit_imp_le_length)
  also have "\<dots> = 0" unfolding r(2) by (simp add: drop_bit_eq_div)
  finally have "buf ! 0 = 0" .
  moreover have "0 < length buf" using r(1) by linarith
  ultimately have "rd buf 0 = Some 0" by simp
  then show "rtc_classify_packet buf = Some RTC_PKT_STUN" using r(1) by (auto simp: rtc_classify_packet_def)
qed

end
