(* ===== verification/Rtp_H264.thy ===== *)
theory Rtp_H264
  imports H264_Bitstream
begin

text \<open>
  RTP packetization of H.264 access units (\<open>src/src/webrtc/rtp_h264.c\<close>): start code
  search, single NAL unit packets and FU-A fragments in a 1200 byte stack buffer, and the
  counters of the sender report. The packet sink is modelled by the list of its calls.
  The reference is a list of payloads per NAL unit and an RFC 6184 receiver
  (\<open>depacketize\<close>) that puts the NAL units together again.
\<close>

section \<open>State\<close>

definition RTP_HEADER_SIZE :: nat where "RTP_HEADER_SIZE = 12"
definition RTP_MAX_PACKET :: nat where "RTP_MAX_PACKET = 1200"
definition H264_NALU_TYPE_MASK :: u8 where "H264_NALU_TYPE_MASK = 0x1F"
definition H264_NALU_FU_A :: u8 where "H264_NALU_FU_A = 28"

lemmas rtp_consts = RTP_HEADER_SIZE_def RTP_MAX_PACKET_def H264_NALU_TYPE_MASK_def H264_NALU_FU_A_def

record RtpH264 =
  ssrc :: u32
  payload_type :: u32
  sequence :: u16
  base_pts_us :: u64
  have_base :: bool
  packets :: u32
  octets :: u32

text \<open>One call of the sink: the packet bytes, the marker flag and the sequence number.\<close>

record RtpSent =
  pkt :: bytes
  marker :: bool
  seq_no :: u16

text \<open>The locals of \<open>rtp_h264_packetize\<close> that change: the packetizer, the stack buffer, the
  sink calls so far and \<open>emitted\<close>.\<close>

record RtpRun =
  rtp :: RtpH264
  packet :: bytes
  sent :: "RtpSent list"
  emitted :: int

section \<open>Operations\<close>

definition rtp_h264_create :: "bool \<Rightarrow> RtpH264 option" where
  "rtp_h264_create mem_ok =
     (if mem_ok then Some \<lparr>ssrc = 0, payload_type = 0, sequence = 0, base_pts_us = 0, have_base = False,
                         packets = 0, octets = 0\<rparr> else None)"

definition rtp_h264_reset :: "RtpH264 option \<Rightarrow> u32 \<Rightarrow> u32 \<Rightarrow> RtpH264 option" where
  "rtp_h264_reset packetizer s pt =
     (case packetizer of
        None \<Rightarrow> None
      | Some p \<Rightarrow> Some (p\<lparr>ssrc := s, payload_type := pt, sequence := 0, have_base := False,
                         packets := 0, octets := 0\<rparr>))"

function scan_start_code :: "bytes \<Rightarrow> nat \<Rightarrow> (nat \<times> nat) option option" where
  "scan_start_code data i =
     (if i + 3 \<le> length data then do {
        a \<leftarrow> rd data i;
        b \<leftarrow> rd data (i + 1);
        if a \<noteq> 0 \<or> b \<noteq> 0 then scan_start_code data (i + 1)
        else do {
          c \<leftarrow> rd data (i + 2);
          if c = 1 then Some (Some (i, 3))
          else if i + 4 \<le> length data \<and> c = 0 then do {
            d \<leftarrow> rd data (i + 3);
            if d = 1 then Some (Some (i, 4)) else scan_start_code data (i + 1) }
          else scan_start_code data (i + 1) } }
      else Some None)"
  by pat_completeness auto
termination
  by (relation "measure (\<lambda>(data, i). length data - i)") auto

declare scan_start_code.simps [simp del]

definition rtp_next_nal :: "bytes \<Rightarrow> nat \<Rightarrow> (nat \<times> nat) option option" where
  "rtp_next_nal data cursor = do {
     found \<leftarrow> scan_start_code data cursor;
     case found of
       None \<Rightarrow> Some None
     | Some (code_offset, code_length) \<Rightarrow> do {
         let body = code_offset + code_length;
         next \<leftarrow> scan_start_code data body;
         let e = (case next of None \<Rightarrow> length data | Some (next_code, _) \<Rightarrow> next_code);
         e \<leftarrow> trim_zeros data body e;
         Some (Some (body, if e > body then e - body else 0)) } }"

text \<open>The first 4 byte code at \<open>k\<close> is the first 3 byte code at \<open>k + 1\<close>.\<close>

definition code_at :: "bytes \<Rightarrow> nat \<Rightarrow> nat \<Rightarrow> nat \<times> nat" where
  "code_at data i k = (if 0 < k \<and> data ! (i + k - 1) = 0 then (i + k - 1, 4) else (i + k, 3))"

lemma code_at_end: "code_at data i k = (off, len) \<Longrightarrow> off + len = i + k + 3"
  by (auto simp: code_at_def split: if_splits)

lemma scan_start_code_find:
  "scan_start_code data i = Some (map_option (code_at data i) (find_sc (drop i data)))"
proof (induction "length data - i" arbitrary: i rule: less_induct)
  case less
  show ?case
  proof (cases "i + 3 \<le> length data")
    case False
    then show ?thesis by (subst scan_start_code.simps) auto
  next
    case True
    then have IH: "scan_start_code data (i + 1) = Some (map_option (code_at data (i + 1)) (find_sc (drop (i + 1) data)))"
      by (intro less) simp
    let ?a = "data ! i" and ?b = "data ! (i + 1)" and ?c = "data ! (i + 2)"
    have d1: "drop (i + 1) data = ?b # ?c # drop (i + 3) data"
      using drop_3 [OF True] by (metis drop_Suc_Cons drop_drop add.commute plus_1_eq_Suc drop0)
    have fs: "find_sc (drop i data) = (if ?a = 0 \<and> ?b = 0 \<and> ?c = 1 then Some 0
        else map_option Suc (find_sc (drop (i + 1) data)))"
      using drop_3 [OF True] d1 by simp
    have shift: "code_at data (i + 1) k = code_at data i (Suc k)"
      if "\<not> (k = 0 \<and> ?a = 0)" for k
      using that by (auto simp: code_at_def)
    show ?thesis
    proof (cases "?a = 0 \<and> ?b = 0")
      case False
      have "\<not> (k = 0 \<and> ?a = 0)" if "find_sc (drop (i + 1) data) = Some k" for k
        using that False find_sc_zero_shape [of "drop (i + 1) data"] d1 by auto
      then have "map_option (code_at data (i + 1)) (find_sc (drop (i + 1) data)) =
          map_option (code_at data i) (map_option Suc (find_sc (drop (i + 1) data)))"
        using shift by (cases "find_sc (drop (i + 1) data)") auto
      then show ?thesis using True False IH fs by (subst scan_start_code.simps) auto
    next
      case ab: True
      let ?four = "i + 4 \<le> length data \<and> ?c = 0 \<and> data ! (i + 3) = 1"
      have four: "find_sc (drop (i + 1) data) = Some 0 \<longleftrightarrow> ?four"
      proof
        assume "find_sc (drop (i + 1) data) = Some 0"
        from find_sc_zero_shape [OF this] obtain r where r: "?c = 0" "drop (i + 3) data = 1 # r"
          unfolding d1 by auto
        then have "i + 3 < length data" by (metis drop_eq_Nil list.distinct(1) not_le)
        moreover have "data ! (i + 3) = 1" using r(2) calculation by (metis Cons_nth_drop_Suc list.inject)
        ultimately show ?four using r(1) by simp
      next
        assume ?four
        then show "find_sc (drop (i + 1) data) = Some 0" using drop_3 [of "i + 1" data] ab by (simp add: numeral_eq_Suc)
      qed
      show ?thesis
      proof (cases "?c = 1 \<or> ?four")
        case stop: True
        with True ab four fs show ?thesis
          by (subst scan_start_code.simps) (auto simp: code_at_def)
      next
        case go: False
        have "k \<noteq> 0" if "find_sc (drop (i + 1) data) = Some k" for k
          using that four go by auto
        then have "map_option (code_at data (i + 1)) (find_sc (drop (i + 1) data)) =
            map_option (code_at data i) (map_option Suc (find_sc (drop (i + 1) data)))"
          using shift by (cases "find_sc (drop (i + 1) data)") auto
        moreover have "scan_start_code data i = scan_start_code data (i + 1)"
          using True ab go by (subst scan_start_code.simps) auto
        ultimately show ?thesis using IH go ab fs by auto
      qed
    qed
  qed
qed

text \<open>Both iterators of the program, this one and the one of the encoder side, find the same units.\<close>

lemma rtp_next_nal_eq:
  "rtp_next_nal data cursor = map_option (map_option (\<lambda>(body, n, c). (body, n))) (next_nal data cursor)"
proof (cases "find_sc (drop cursor data)")
  case None
  then show ?thesis by (simp add: rtp_next_nal_def scan_start_code_find next_nal_spec)
next
  case (Some k)
  let ?body = "cursor + k + 3"
  obtain off len where ol: "code_at data cursor k = (off, len)" "off + len = ?body"
    using code_at_end by (metis surj_pair)
  have body: "?body \<le> length data"
    using find_sc_bound [OF Some] by (cases "cursor \<le> length data") auto
  show ?thesis
  proof (cases "find_sc (drop ?body data)")
    case None
    with Some ol body show ?thesis
      by (simp add: rtp_next_nal_def scan_start_code_find next_nal_spec trim_zeros_rstrip0 segment_def Let_def)
  next
    case j: (Some j)
    let ?r = "drop ?body data"
    obtain off' len' where ol': "code_at data ?body j = (off', len')" by fastforce
    have jb: "?body + j \<le> length data" using find_sc_bound [OF j] body by simp
    have "rstrip0 (take (off' - ?body) ?r) = rstrip0 (take j ?r) \<and> ?body \<le> off' \<and> off' \<le> length data"
    proof (cases "0 < j \<and> data ! (?body + j - 1) = 0")
      case True
      then obtain i where i: "j = Suc i" by (cases j) auto
      then have "take j ?r = take i ?r @ [0]" using True jb by (simp add: take_Suc_conv_app_nth ac_simps)
      with True ol' i jb show ?thesis by (auto simp: code_at_def)
    next
      case False
      with ol' jb show ?thesis by (auto simp: code_at_def)
    qed
    with Some j ol ol' show ?thesis
      by (simp add: rtp_next_nal_def scan_start_code_find next_nal_spec trim_zeros_rstrip0 segment_def Let_def)
  qed
qed

lemma rtp_next_nal_progress:
  "rtp_next_nal data cursor = Some (Some (off, n)) \<Longrightarrow> cursor < off + n \<and> off + n \<le> length data"
  by (auto simp: rtp_next_nal_eq dest!: next_nal_progress)

lemma rtp_next_nal_cases:
  obtains (finished) "rtp_next_nal d c = Some None" "annexb_nals (drop c d) = []"
  | (nal) body n where "rtp_next_nal d c = Some (Some (body, n))"
      "annexb_nals (drop c d) = take n (drop body d) # annexb_nals (drop (body + n) d)"
      "body + n \<le> length d"
  by (rule next_nal_cases [of d c]) (auto simp: rtp_next_nal_eq)

text \<open>\<open>packet[1] = ...; write_be16(packet + 2, ++p->sequence)\<close>\<close>

definition start_packet :: "RtpRun \<Rightarrow> bool \<Rightarrow> RtpRun option" where
  "start_packet r is_last = do {
     pk \<leftarrow> wr (packet r) 1 ((if is_last then 0x80 else 0) OR ucast (payload_type (rtp r) AND 0x7F));
     let p = (rtp r)\<lparr>sequence := sequence (rtp r) + 1\<rparr>;
     pk \<leftarrow> write_be16 pk 2 (sequence p);
     Some (r\<lparr>rtp := p, packet := pk\<rparr>) }"

text \<open>\<open>sink(user, packet, len, last, p->sequence)\<close> and the counters behind it.\<close>

definition finish_packet :: "RtpRun \<Rightarrow> nat \<Rightarrow> bool \<Rightarrow> nat \<Rightarrow> RtpRun option" where
  "finish_packet r len is_last octs = do {
     bs \<leftarrow> rd_range (packet r) 0 len;
     Some (r\<lparr>sent := sent r @ [\<lparr>pkt = bs, marker = is_last, seq_no = sequence (rtp r)\<rparr>],
             rtp := (rtp r)\<lparr>packets := packets (rtp r) + 1, octets := octets (rtp r) + of_nat octs\<rparr>,
             emitted := emitted r + 1\<rparr>) }"

definition send_single :: "bytes \<Rightarrow> nat \<Rightarrow> nat \<Rightarrow> bool \<Rightarrow> RtpRun \<Rightarrow> RtpRun option" where
  "send_single au nal nal_length has_more r = do {
     let is_last = (\<not> has_more);
     r \<leftarrow> start_packet r is_last;
     bs \<leftarrow> rd_range au nal nal_length;
     pk \<leftarrow> memcpy_to (packet r) RTP_HEADER_SIZE bs;
     finish_packet (r\<lparr>packet := pk\<rparr>) (RTP_HEADER_SIZE + nal_length) is_last nal_length }"

definition send_fragment ::
  "bytes \<Rightarrow> nat \<Rightarrow> u8 \<Rightarrow> nat \<Rightarrow> nat \<Rightarrow> bool \<Rightarrow> bool \<Rightarrow> RtpRun \<Rightarrow> RtpRun option" where
  "send_fragment au nal nal_header offset n last_fragment is_last r = do {
     r \<leftarrow> start_packet r is_last;
     pk \<leftarrow> wr (packet r) RTP_HEADER_SIZE ((nal_header AND 0x60) OR H264_NALU_FU_A);
     pk \<leftarrow> wr pk (RTP_HEADER_SIZE + 1)
            ((if offset = 1 then 0x80 else 0) OR (if last_fragment then 0x40 else 0) OR
             (nal_header AND H264_NALU_TYPE_MASK));
     bs \<leftarrow> rd_range au (nal + offset) n;
     pk \<leftarrow> memcpy_to pk (RTP_HEADER_SIZE + 2) bs;
     finish_packet (r\<lparr>packet := pk\<rparr>) (RTP_HEADER_SIZE + 2 + n) is_last (2 + n) }"

function send_fragments ::
  "bytes \<Rightarrow> nat \<Rightarrow> nat \<Rightarrow> bool \<Rightarrow> u8 \<Rightarrow> nat \<Rightarrow> RtpRun \<Rightarrow> RtpRun option" where
  "send_fragments au nal nal_length has_more nal_header offset r =
     (if offset < nal_length then do {
        let chunk = RTP_MAX_PACKET - RTP_HEADER_SIZE - 2;
        let rest = nal_length - offset;
        let n = (if rest > chunk then chunk else rest);
        let last_fragment = (\<not> rest > chunk);
        r \<leftarrow> send_fragment au nal nal_header offset n last_fragment (last_fragment \<and> \<not> has_more) r;
        send_fragments au nal nal_length has_more nal_header (offset + n) r }
      else Some r)"
  by pat_completeness auto
termination
  by (relation "measure (\<lambda>(au, nal, nal_length, has_more, hdr, offset, r). nal_length - offset)")
    (auto simp: rtp_consts)

function packetize_loop :: "bytes \<Rightarrow> nat \<Rightarrow> RtpRun \<Rightarrow> RtpRun option" where
  "packetize_loop au cursor r = do {
     found \<leftarrow> rtp_next_nal au cursor;
     case found of
       None \<Rightarrow> Some r
     | Some (nal_offset, nal_length) \<Rightarrow>
         if nal_length = 0 then packetize_loop au (nal_offset + nal_length) r
         else do {
           probe \<leftarrow> rtp_next_nal au (nal_offset + nal_length);
           let has_more = (case probe of None \<Rightarrow> False | Some (_, probe_length) \<Rightarrow> probe_length > 0);
           r \<leftarrow> (if nal_length \<le> RTP_MAX_PACKET - RTP_HEADER_SIZE
                 then send_single au nal_offset nal_length has_more r
                 else do {
                   nal_header \<leftarrow> rd au nal_offset;
                   send_fragments au nal_offset nal_length has_more nal_header 1 r });
           packetize_loop au (nal_offset + nal_length) r } }"
  by pat_completeness auto
termination
  by (relation "measure (\<lambda>(au, cursor, r). length au - cursor)")
    (auto dest!: rtp_next_nal_progress)

declare send_fragments.simps [simp del] packetize_loop.simps [simp del]

text \<open>The 90 kHz timestamp of the instant \<open>clock_us\<close>, in \<open>uint64_t\<close> arithmetic.\<close>

definition rtp_clock :: "u64 \<Rightarrow> u64 \<Rightarrow> u32" where
  "rtp_clock base clock_us =
     (let delta_us = (if clock_us \<ge> base then clock_us - base else 0)
      in ucast (delta_us * 90000 div 1000000))"

text \<open>
  The result: the returned count, the packetizer and the calls of the sink. \<open>stack\<close> is
  what the uninitialised array \<open>packet\<close> holds at entry.
\<close>

definition rtp_h264_packetize ::
  "bytes \<Rightarrow> RtpH264 option \<Rightarrow> bytes option \<Rightarrow> u64 \<Rightarrow> bool \<Rightarrow> (int \<times> RtpH264 option \<times> RtpSent list) option" where
  "rtp_h264_packetize stack packetizer access_unit pts_us has_sink =
     (case (packetizer, access_unit) of
        (Some p, Some au) \<Rightarrow>
          if length au = 0 \<or> \<not> has_sink then Some (-1, packetizer, [])
          else do {
            let p = (if have_base p then p else p\<lparr>base_pts_us := pts_us, have_base := True\<rparr>);
            let rtp_ts = rtp_clock (base_pts_us p) pts_us;
            pk \<leftarrow> wr stack 0 0x80;
            pk \<leftarrow> write_be32 pk 4 rtp_ts;
            pk \<leftarrow> write_be32 pk 8 (ssrc p);
            r \<leftarrow> packetize_loop au 0 \<lparr>rtp = p, packet = pk, sent = [], emitted = 0\<rparr>;
            Some (emitted r, Some (rtp r), sent r) }
      | _ \<Rightarrow> Some (-1, packetizer, []))"

definition rtp_h264_packet_count :: "RtpH264 option \<Rightarrow> u32" where
  "rtp_h264_packet_count packetizer = (case packetizer of None \<Rightarrow> 0 | Some p \<Rightarrow> packets p)"

definition rtp_h264_octet_count :: "RtpH264 option \<Rightarrow> u32" where
  "rtp_h264_octet_count packetizer = (case packetizer of None \<Rightarrow> 0 | Some p \<Rightarrow> octets p)"

definition rtp_h264_ssrc :: "RtpH264 option \<Rightarrow> u32" where
  "rtp_h264_ssrc packetizer = (case packetizer of None \<Rightarrow> 0 | Some p \<Rightarrow> ssrc p)"

definition rtp_h264_timestamp_at :: "RtpH264 option \<Rightarrow> u64 \<Rightarrow> u32" where
  "rtp_h264_timestamp_at packetizer clock_us =
     (case packetizer of
        None \<Rightarrow> 0
      | Some p \<Rightarrow> if \<not> have_base p then 0 else rtp_clock (base_pts_us p) clock_us)"

section \<open>Reference: payloads and packets\<close>

definition rtp_header :: "RtpH264 \<Rightarrow> u32 \<Rightarrow> bool \<Rightarrow> u16 \<Rightarrow> bytes" where
  "rtp_header p ts m sq =
     [0x80, (if m then 0x80 else 0) OR ucast (payload_type p AND 0x7F)] @ be16_bytes sq @
     be32_bytes ts @ be32_bytes (ssrc p)"

fun emit :: "u32 \<Rightarrow> (bytes \<times> bool) list \<Rightarrow> RtpH264 \<Rightarrow> RtpH264 \<times> RtpSent list" where
  "emit ts [] p = (p, [])"
| "emit ts ((payload, m) # rest) p =
     (let sq = sequence p + 1;
          p1 = p\<lparr>sequence := sq, packets := packets p + 1, octets := octets p + of_nat (length payload)\<rparr>;
          (p', ss) = emit ts rest p1
      in (p', \<lparr>pkt = rtp_header p ts m sq @ payload, marker = m, seq_no = sq\<rparr> # ss))"

definition FU_CHUNK :: nat where "FU_CHUNK = 1186"

definition fu_header :: "u8 \<Rightarrow> bool \<Rightarrow> bool \<Rightarrow> bytes" where
  "fu_header h s e = [(h AND 0x60) OR 28, (if s then 0x80 else 0) OR (if e then 0x40 else 0) OR (h AND 0x1F)]"

function fu_payloads :: "u8 \<Rightarrow> bool \<Rightarrow> bytes \<Rightarrow> bytes list" where
  "fu_payloads h s body =
     (if body = [] then []
      else (fu_header h s (length body \<le> FU_CHUNK) @ take FU_CHUNK body) # fu_payloads h False (drop FU_CHUNK body))"
  by pat_completeness auto
termination
  by (relation "measure (\<lambda>(h, s, body). length body)") (auto simp: FU_CHUNK_def)

declare fu_payloads.simps [simp del]

definition payloads :: "bytes \<Rightarrow> bytes list" where
  "payloads n = (if length n \<le> 1188 then [n] else fu_payloads (hd n) True (tl n))"

text \<open>The payloads with their marker: on the last one unless more NAL units follow.\<close>

fun mark :: "bool \<Rightarrow> bytes list \<Rightarrow> (bytes \<times> bool) list" where
  "mark cont [] = []"
| "mark cont [x] = [(x, \<not> cont)]"
| "mark cont (x # y # r) = (x, False) # mark cont (y # r)"

lemma map_fst_mark [simp]: "map fst (mark cont xs) = xs"
  by (induction cont xs rule: mark.induct) auto

fun plan :: "bytes list \<Rightarrow> (bytes \<times> bool) list" where
  "plan [] = []"
| "plan (n # ns) =
     (if n = [] then plan ns else mark (ns \<noteq> [] \<and> hd ns \<noteq> []) (payloads n) @ plan ns)"

lemma emit_append:
  "emit ts (xs @ ys) p =
     (let (p1, s1) = emit ts xs p; (p2, s2) = emit ts ys p1 in (p2, s1 @ s2))"
  by (induction xs arbitrary: p) (auto simp: Let_def split: prod.splits)

section \<open>The stack buffer\<close>

definition hdr_ok :: "u32 \<Rightarrow> RtpRun \<Rightarrow> bool" where
  "hdr_ok ts r \<longleftrightarrow> length (packet r) = 1200 \<and>
     (\<exists>a b c t. packet r = 0x80 # a # b # c # be32_bytes ts @ be32_bytes (ssrc (rtp r)) @ t)"

text \<open>One packet: whatever payload the code has written behind the header is what is sent.\<close>

definition sends :: "u32 \<Rightarrow> (bytes \<times> bool) list \<Rightarrow> (RtpRun \<Rightarrow> RtpRun option) \<Rightarrow> bool" where
  "sends ts xs f \<longleftrightarrow> (\<forall>r. hdr_ok ts r \<longrightarrow> (\<exists>r'. f r = Some r' \<and> hdr_ok ts r' \<and>
     rtp r' = fst (emit ts xs (rtp r)) \<and> sent r' = sent r @ snd (emit ts xs (rtp r)) \<and>
     emitted r' = emitted r + int (length xs)))"

lemma sends_Nil: "sends ts [] Some"
  by (simp add: sends_def)

lemma sends_bind:
  assumes "sends ts xs f" "sends ts ys g"
  shows "sends ts (xs @ ys) (\<lambda>r. Option.bind (f r) g)"
  unfolding sends_def
proof (intro allI impI)
  fix r assume "hdr_ok ts r"
  with assms(1) obtain r1 where r1: "f r = Some r1" "hdr_ok ts r1" "rtp r1 = fst (emit ts xs (rtp r))"
    "sent r1 = sent r @ snd (emit ts xs (rtp r))" "emitted r1 = emitted r + int (length xs)"
    unfolding sends_def by blast
  with assms(2) obtain r2 where "g r1 = Some r2" "hdr_ok ts r2" "rtp r2 = fst (emit ts ys (rtp r1))"
    "sent r2 = sent r1 @ snd (emit ts ys (rtp r1))" "emitted r2 = emitted r1 + int (length ys)"
    unfolding sends_def by blast
  with r1 show "\<exists>r'. Option.bind (f r) g = Some r' \<and> hdr_ok ts r' \<and>
      rtp r' = fst (emit ts (xs @ ys) (rtp r)) \<and> sent r' = sent r @ snd (emit ts (xs @ ys) (rtp r)) \<and>
      emitted r' = emitted r + int (length (xs @ ys))"
    by (auto simp: emit_append Let_def split: prod.splits)
qed

lemma start_packet_ok:
  assumes "hdr_ok ts r"
  shows "\<exists>t. start_packet r m = Some (r\<lparr>rtp := (rtp r)\<lparr>sequence := sequence (rtp r) + 1\<rparr>,
     packet := rtp_header (rtp r) ts m (sequence (rtp r) + 1) @ t\<rparr>) \<and> length t = 1188"
proof -
  obtain a b c t where p: "packet r = 0x80 # a # b # c # be32_bytes ts @ be32_bytes (ssrc (rtp r)) @ t"
    and "length (packet r) = 1200" using assms unfolding hdr_ok_def by blast
  then have "length t = 1188" by simp
  with p show ?thesis
    by (intro exI [of _ t])
      (simp add: start_packet_def write_be16_def rtp_header_def be16_bytes_def numeral_eq_Suc)
qed

lemma packet_sent:
  assumes "length (rtp_header p ts m sq) = 12" "length payload \<le> 1188" "length t = 1188"
  shows "finish_packet (r\<lparr>packet := rtp_header p ts m sq @ payload @ drop (length payload) t\<rparr>)
      (12 + length payload) m octs =
     Some (r\<lparr>packet := rtp_header p ts m sq @ payload @ drop (length payload) t,
       sent := sent r @ [\<lparr>pkt = rtp_header p ts m sq @ payload, marker = m, seq_no = sequence (rtp r)\<rparr>],
       rtp := (rtp r)\<lparr>packets := packets (rtp r) + 1, octets := octets (rtp r) + of_nat octs\<rparr>,
       emitted := emitted r + 1\<rparr>)"
  using assms by (simp add: finish_packet_def)

lemma rtp_header_length [simp]: "length (rtp_header p ts m sq) = 12"
  by (simp add: rtp_header_def)

lemma hdr_ok_header:
  assumes "packet r = rtp_header p ts m sq @ t" "length t = 1188" "ssrc (rtp r) = ssrc p"
  shows "hdr_ok ts r"
  using assms by (auto simp: hdr_ok_def rtp_header_def be16_bytes_def)

section \<open>The loops send the planned packets\<close>

lemma mark_Cons: "mark cont (x # r) = (x, r = [] \<and> \<not> cont) # mark cont r"
  by (cases r) auto

lemma send_one:
  assumes ok: "hdr_ok ts r" and len: "length payload \<le> 1188"
    and put: "\<And>r1 t. start_packet r m = Some r1 \<Longrightarrow> length t = 1188 \<Longrightarrow>
        packet r1 = rtp_header (rtp r) ts m (sequence (rtp r) + 1) @ t \<Longrightarrow>
        f r1 = finish_packet (r1\<lparr>packet := rtp_header (rtp r) ts m (sequence (rtp r) + 1) @ payload @
          drop (length payload) t\<rparr>) (12 + length payload) m (length payload)"
  shows "\<exists>r'. Option.bind (start_packet r m) f = Some r' \<and> hdr_ok ts r' \<and>
      rtp r' = fst (emit ts [(payload, m)] (rtp r)) \<and> sent r' = sent r @ snd (emit ts [(payload, m)] (rtp r)) \<and>
      emitted r' = emitted r + 1"
proof -
  let ?hd = "rtp_header (rtp r) ts m (sequence (rtp r) + 1)"
  obtain t where t: "start_packet r m = Some (r\<lparr>rtp := (rtp r)\<lparr>sequence := sequence (rtp r) + 1\<rparr>,
      packet := ?hd @ t\<rparr>)" "length t = 1188" using start_packet_ok [OF ok] by blast
  let ?r1 = "r\<lparr>rtp := (rtp r)\<lparr>sequence := sequence (rtp r) + 1\<rparr>, packet := ?hd @ t\<rparr>"
  have "f ?r1 = finish_packet (?r1\<lparr>packet := ?hd @ payload @ drop (length payload) t\<rparr>) (12 + length payload) m (length payload)"
    by (rule put) (use t in simp_all)
  with packet_sent [OF _ len t(2), of "rtp r" ts m "sequence (rtp r) + 1" ?r1 "length payload"] t
  show ?thesis using len
    by (auto simp: Let_def intro!: hdr_ok_header [of _ "rtp r" ts m "sequence (rtp r) + 1"])
qed

lemma send_single_sends:
  assumes "nal + n \<le> length au" "n \<le> 1188"
  shows "sends ts [(take n (drop nal au), \<not> has_more)] (send_single au nal n has_more)"
  unfolding sends_def
proof (intro allI impI)
  fix r assume ok: "hdr_ok ts r"
  let ?pl = "take n (drop nal au)"
  have len: "length ?pl = n" using assms(1) by simp
  have eq: "send_single au nal n has_more r = Option.bind (start_packet r (\<not> has_more)) (\<lambda>r.
      Option.bind (memcpy_to (packet r) 12 ?pl) (\<lambda>pk. finish_packet (r\<lparr>packet := pk\<rparr>) (12 + n) (\<not> has_more) n))"
    using assms(1) by (simp add: send_single_def rtp_consts Let_def)
  show "\<exists>r'. send_single au nal n has_more r = Some r' \<and> hdr_ok ts r' \<and>
      rtp r' = fst (emit ts [(?pl, \<not> has_more)] (rtp r)) \<and>
      sent r' = sent r @ snd (emit ts [(?pl, \<not> has_more)] (rtp r)) \<and>
      emitted r' = emitted r + int (length [(?pl, \<not> has_more)])"
    unfolding eq using send_one [OF ok, of ?pl "\<not> has_more"] len assms by simp
qed

lemma send_fragment_sends:
  assumes "nal + offset + n \<le> length au" "n \<le> 1186"
  shows "sends ts [(fu_header h (offset = 1) lf @ take n (drop (nal + offset) au), m)]
     (send_fragment au nal h offset n lf m)"
  unfolding sends_def
proof (intro allI impI)
  fix r assume ok: "hdr_ok ts r"
  let ?bs = "take n (drop (nal + offset) au)" and ?i = "(h AND 0x60) OR 28"
  let ?h = "(if offset = 1 then 0x80 else 0) OR (if lf then 0x40 else 0) OR (h AND 0x1F)"
  let ?pl = "fu_header h (offset = 1) lf @ ?bs"
  let ?f = "\<lambda>r. Option.bind (wr (packet r) 12 ?i) (\<lambda>pk. Option.bind (wr pk 13 ?h) (\<lambda>pk.
    Option.bind (memcpy_to pk 14 ?bs) (\<lambda>pk. finish_packet (r\<lparr>packet := pk\<rparr>) (14 + n) m (2 + n))))"
  have len: "length ?bs = n" "length ?pl = 2 + n" using assms by (simp_all add: fu_header_def)
  have eq: "send_fragment au nal h offset n lf m r = Option.bind (start_packet r m) ?f"
    using assms(1) by (simp add: send_fragment_def rtp_consts)
  have put: "Option.bind (wr (hd12 @ t) 12 ?i) (\<lambda>pk. Option.bind (wr pk 13 ?h) (\<lambda>pk. memcpy_to pk 14 ?bs)) =
      Some (hd12 @ ?pl @ drop (length ?pl) t)" if l: "length hd12 = 12" "length t = 1188" for hd12 t
  proof -
    obtain x y t' where "t = x # y # t'"
      using l(2) by (cases t; cases "tl t") auto
    with l len assms(2) show ?thesis
      by (simp add: fu_header_def list_update_append)
  qed
  show "\<exists>r'. send_fragment au nal h offset n lf m r = Some r' \<and> hdr_ok ts r' \<and>
      rtp r' = fst (emit ts [(?pl, m)] (rtp r)) \<and> sent r' = sent r @ snd (emit ts [(?pl, m)] (rtp r)) \<and>
      emitted r' = emitted r + int (length [(?pl, m)])"
    unfolding eq using send_one [OF ok, of ?pl m ?f] len assms put by (simp flip: bind_assoc)
qed

lemma send_fragments_sends:
  assumes "nal + n \<le> length au" "1 \<le> offset"
  shows "sends ts (mark has_more (fu_payloads h (offset = 1) (take (n - offset) (drop (nal + offset) au))))
     (send_fragments au nal n has_more h offset)"
  using assms
proof (induction "n - offset" arbitrary: offset rule: less_induct)
  case less
  let ?body = "take (n - offset) (drop (nal + offset) au)"
  show ?case
  proof (cases "offset < n")
    case False
    then show ?thesis using sends_Nil
      by (simp add: sends_def send_fragments.simps fu_payloads.simps)
  next
    case True
    let ?k = "if n - offset > 1186 then 1186 else n - offset" and ?lastf = "\<not> n - offset > 1186"
    let ?m = "?lastf \<and> \<not> has_more"
    let ?pl = "fu_header h (offset = 1) ?lastf @ take ?k (drop (nal + offset) au)"
    let ?rest = "take (n - (offset + ?k)) (drop (nal + (offset + ?k)) au)"
    have len: "length ?body = n - offset" using less.prems True by simp
    have fu: "fu_payloads h (offset = 1) ?body = ?pl # fu_payloads h False ?rest"
      by (subst fu_payloads.simps) (use True less.prems len in \<open>auto simp: FU_CHUNK_def min_def drop_take ac_simps\<close>)
    have rest: "fu_payloads h False ?rest = [] \<longleftrightarrow> ?lastf"
      using True less.prems by (auto simp: fu_payloads.simps)
    have IH: "sends ts (mark has_more (fu_payloads h False ?rest)) (send_fragments au nal n has_more h (offset + ?k))"
      using less.hyps [of "offset + ?k"] less.prems True by (auto split: if_splits)
    have "sends ts ([(?pl, ?m)] @ mark has_more (fu_payloads h False ?rest))
        (\<lambda>r. Option.bind (send_fragment au nal h offset ?k ?lastf ?m r) (send_fragments au nal n has_more h (offset + ?k)))"
      by (intro sends_bind send_fragment_sends IH) (use less.prems True in auto)
    moreover have "send_fragments au nal n has_more h offset =
        (\<lambda>r. Option.bind (send_fragment au nal h offset ?k ?lastf ?m r) (send_fragments au nal n has_more h (offset + ?k)))"
      using True by (intro ext) (subst send_fragments.simps, simp add: rtp_consts Let_def)
    ultimately show ?thesis using fu rest by (simp add: mark_Cons)
  qed
qed

lemma send_nal_sends:
  assumes "off + n \<le> length au" "0 < n"
  shows "sends ts (mark cont (payloads (take n (drop off au)))) (\<lambda>r.
     if n \<le> 1188 then send_single au off n cont r
     else Option.bind (rd au off) (\<lambda>h. send_fragments au off n cont h 1 r))"
proof (cases "n \<le> 1188")
  case True
  then show ?thesis using send_single_sends [OF assms(1) True, of ts cont] assms(1) by (simp add: payloads_def)
next
  case False
  let ?nal = "take n (drop off au)"
  have "hd ?nal = au ! off" "tl ?nal = take (n - 1) (drop (off + 1) au)"
    using assms by (simp_all add: hd_drop_conv_nth tl_take tl_drop drop_Suc)
  then show ?thesis using send_fragments_sends [OF assms(1), of 1 ts cont "au ! off"] False assms
    by (simp add: payloads_def)
qed

lemma packetize_loop_sends: "sends ts (plan (annexb_nals (drop c au))) (packetize_loop au c)"
proof (induction "length au - c" arbitrary: c rule: less_induct)
  case less
  show ?case
  proof (rule rtp_next_nal_cases [of au c])
    assume "rtp_next_nal au c = Some None" "annexb_nals (drop c au) = []"
    then show ?thesis by (simp add: sends_def packetize_loop.simps)
  next
    fix off n
    let ?c = "off + n" and ?nal = "take n (drop off au)"
    assume *: "rtp_next_nal au c = Some (Some (off, n))"
      "annexb_nals (drop c au) = ?nal # annexb_nals (drop (off + n) au)" "off + n \<le> length au"
    have "c < ?c" using rtp_next_nal_progress [OF *(1)] by simp
    then have IH: "sends ts (plan (annexb_nals (drop ?c au))) (packetize_loop au ?c)"
      using less [of ?c] *(3) by simp
    show ?thesis
    proof (cases "n = 0")
      case True
      then have "packetize_loop au c = packetize_loop au ?c"
        using * by (intro ext) (subst packetize_loop.simps, simp)
      with True *(2) IH show ?thesis by simp
    next
      case False
      let ?more = "annexb_nals (drop ?c au) \<noteq> [] \<and> hd (annexb_nals (drop ?c au)) \<noteq> []"
      have probe: "\<exists>pr. rtp_next_nal au ?c = Some pr \<and>
          (case pr of None \<Rightarrow> False | Some (_, probe_length) \<Rightarrow> probe_length > 0) = ?more"
        by (rule rtp_next_nal_cases [of au ?c]) auto
      have "sends ts (mark ?more (payloads ?nal) @ plan (annexb_nals (drop ?c au)))
          (\<lambda>r. Option.bind (if n \<le> 1188 then send_single au off n ?more r
             else Option.bind (rd au off) (\<lambda>h. send_fragments au off n ?more h 1 r)) (packetize_loop au ?c))"
        by (intro sends_bind send_nal_sends IH) (use *(3) False in auto)
      moreover have "packetize_loop au c = (\<lambda>r. Option.bind (if n \<le> 1188 then send_single au off n ?more r
             else Option.bind (rd au off) (\<lambda>h. send_fragments au off n ?more h 1 r)) (packetize_loop au ?c))"
        using probe * False by (intro ext) (subst packetize_loop.simps, auto simp: rtp_consts Let_def)
      moreover have "?nal \<noteq> []" using False *(3) by auto
      ultimately show ?thesis using *(2) by simp
    qed
  qed
qed

text \<open>The base of the timeline and the timestamp of one access unit.\<close>

definition with_base :: "RtpH264 \<Rightarrow> u64 \<Rightarrow> RtpH264" where
  "with_base p pts = (if have_base p then p else p\<lparr>base_pts_us := pts, have_base := True\<rparr>)"

lemma packetize_emit:
  assumes "length stack = 1200" "au \<noteq> []"
  shows "rtp_h264_packetize stack (Some p) (Some au) pts True =
     (let (p', ss) = emit (rtp_clock (base_pts_us (with_base p pts)) pts) (plan (annexb_nals au)) (with_base p pts)
      in Some (int (length ss), Some p', ss))"
proof -
  let ?p = "with_base p pts"
  let ?ts = "rtp_clock (base_pts_us ?p) pts"
  obtain a0 a1 a2 a3 b0 b1 b2 b3 c0 c1 c2 c3 t where st:
    "stack = [a0, a1, a2, a3, b0, b1, b2, b3, c0, c1, c2, c3] @ t"
  proof -
    have "stack = [stack ! 0, stack ! 1, stack ! 2, stack ! 3, stack ! 4, stack ! 5, stack ! 6, stack ! 7,
        stack ! 8, stack ! 9, stack ! 10, stack ! 11] @ drop 12 stack"
      using assms(1) by (simp add: numeral_eq_Suc Cons_nth_drop_Suc)
    then show thesis by (rule that)
  qed
  let ?pk = "[0x80, a1, a2, a3] @ be32_bytes ?ts @ be32_bytes (ssrc ?p) @ t"
  have pk: "Option.bind (wr stack 0 0x80) (\<lambda>pk. Option.bind (write_be32 pk 4 ?ts) (\<lambda>pk. write_be32 pk 8 (ssrc ?p))) = Some ?pk"
    using st assms(1) by (simp add: write_be32_def be32_bytes_def)
  have ok: "hdr_ok ?ts \<lparr>rtp = ?p, packet = ?pk, sent = [], emitted = 0\<rparr>"
    using assms(1) st by (auto simp: hdr_ok_def)
  have len: "length (snd (emit ts xs q)) = length xs" for ts xs q
    by (induction ts xs q rule: emit.induct) (auto simp: Let_def split: prod.splits)
  from packetize_loop_sends [of ?ts 0 au] ok obtain r where r:
    "packetize_loop au 0 \<lparr>rtp = ?p, packet = ?pk, sent = [], emitted = 0\<rparr> = Some r"
    "rtp r = fst (emit ?ts (plan (annexb_nals au)) ?p)" "sent r = snd (emit ?ts (plan (annexb_nals au)) ?p)"
    "emitted r = int (length (plan (annexb_nals au)))"
    unfolding sends_def by fastforce
  have "rtp_h264_packetize stack (Some p) (Some au) pts True =
      Option.bind (Option.bind (wr stack 0 0x80) (\<lambda>pk. Option.bind (write_be32 pk 4 ?ts) (\<lambda>pk. write_be32 pk 8 (ssrc ?p))))
        (\<lambda>pk. Option.bind (packetize_loop au 0 \<lparr>rtp = ?p, packet = pk, sent = [], emitted = 0\<rparr>)
          (\<lambda>r. Some (emitted r, Some (rtp r), sent r)))"
    using assms(2) by (simp add: rtp_h264_packetize_def Let_def with_base_def)
  then show ?thesis unfolding pk using r by (simp add: len case_prod_beta)
qed

section \<open>What the packets are\<close>

lemma rtp_header_cong: "ssrc p = ssrc q \<Longrightarrow> payload_type p = payload_type q \<Longrightarrow> rtp_header p = rtp_header q"
  by (intro ext) (simp add: rtp_header_def)

lemma emit_nth:
  assumes "emit ts xs p = (p', ss)"
  shows "length ss = length xs \<and> (\<forall>i < length xs. ss ! i =
     \<lparr>pkt = rtp_header p ts (snd (xs ! i)) (sequence p + of_nat (Suc i)) @ fst (xs ! i),
      marker = snd (xs ! i), seq_no = sequence p + of_nat (Suc i)\<rparr>)"
  using assms
proof (induction xs arbitrary: p p' ss)
  case (Cons x xs)
  obtain payload m where x: "x = (payload, m)" by fastforce
  let ?p = "p\<lparr>sequence := sequence p + 1, packets := packets p + 1, octets := octets p + of_nat (length payload)\<rparr>"
  obtain q ss' where q: "emit ts xs ?p = (q, ss')" by fastforce
  have ss: "ss = \<lparr>pkt = rtp_header p ts m (sequence p + 1) @ payload, marker = m, seq_no = sequence p + 1\<rparr> # ss'"
    using Cons.prems x q by (simp add: Let_def)
  have "rtp_header ?p = rtp_header p" by (rule rtp_header_cong) simp_all
  with Cons.IH [OF q] ss x show ?case by (auto simp: nth_Cons ac_simps split: nat.split)
qed simp

lemma emit_state:
  assumes "emit ts xs p = (p', ss)"
  shows "p' = p\<lparr>sequence := sequence p + of_nat (length xs), packets := packets p + of_nat (length xs),
     octets := octets p + of_nat (sum_list (map (length \<circ> fst) xs))\<rparr>"
  using assms
  by (induction xs arbitrary: p p' ss) (fastforce simp: Let_def split: prod.splits)+

lemma map_fst_plan: "map fst (plan ns) = concat (map payloads (filter (\<lambda>n. n \<noteq> []) ns))"
  by (induction ns) auto

lemma fu_payloads_length: "x \<in> set (fu_payloads h s body) \<Longrightarrow> length x \<le> 1188"
  by (induction h s body rule: fu_payloads.induct)
    (subst (asm) fu_payloads.simps, auto simp: fu_header_def FU_CHUNK_def split: if_splits)

lemma payloads_length: "x \<in> set (payloads n) \<Longrightarrow> length x \<le> 1188"
  by (auto simp: payloads_def dest: fu_payloads_length split: if_splits)

section \<open>An RFC 6184 receiver\<close>

fun depacketize :: "bytes option \<Rightarrow> bytes list \<Rightarrow> bytes list option" where
  "depacketize acc [] = (if acc = None then Some [] else None)"
| "depacketize acc ([] # r) = None"
| "depacketize acc ((b0 # rest) # r) =
     (if b0 AND 0x1F \<noteq> 28 then
        (if acc = None then map_option ((#) (b0 # rest)) (depacketize None r) else None)
      else case rest of
        [] \<Rightarrow> None
      | fh # frag \<Rightarrow> do {
          buf \<leftarrow> (if bit fh 7 then (if acc = None then Some (((b0 AND 0xE0) OR (fh AND 0x1F)) # frag) else None)
                  else map_option (\<lambda>a. a @ frag) acc);
          if bit fh 6 then map_option ((#) buf) (depacketize None r) else depacketize (Some buf) r })"

definition nal_header_ok :: "u8 \<Rightarrow> bool" where
  "nal_header_ok h \<longleftrightarrow> h AND 0x80 = 0 \<and> nal_type h < 24"

lemma nal_header_ok_type: "nal_header_ok h \<Longrightarrow> h AND 0x1F \<noteq> 28"
  by (auto simp: nal_header_ok_def nal_type_def)

text \<open>The fields of the two FU octets, bit by bit.\<close>

lemma fu_indicator: "((h AND 0x60) OR 28) AND 0x1F = (28 :: u8)"
  by (rule bit_word_eqI) (auto simp: bit_simps bit_numeral_rec less_Suc_eq numeral_eq_Suc)

lemma fu_restore:
  assumes "h AND 0x80 = 0"
  shows "(((h AND 0x60) OR 28) AND 0xE0) OR (((if s then 0x80 else 0) OR (if e then 0x40 else 0) OR (h AND 0x1F)) AND 0x1F)
     = (h :: u8)"
proof (rule bit_word_eqI)
  have h7: "\<not> bit h 7"
    using arg_cong [OF assms, of "\<lambda>w. bit w 7"] by (simp add: bit_simps bit_numeral_rec)
  fix n assume "n < LENGTH(8)"
  then consider "n = 0" | "n = 1" | "n = 2" | "n = 3" | "n = 4" | "n = 5" | "n = 6" | "n = 7"
    by fastforce
  then show "bit ((((h AND 0x60) OR 28) AND 0xE0) OR
      (((if s then 0x80 else 0) OR (if e then 0x40 else 0) OR (h AND 0x1F)) AND 0x1F)) n = bit h n"
    by cases (use h7 in \<open>auto simp: bit_simps bit_numeral_rec\<close>)
qed

lemma fu_bits:
  "bit ((if s then 0x80 else 0) OR (if e then 0x40 else 0) OR (h AND 0x1F) :: u8) 7 = s"
  "bit ((if s then 0x80 else 0) OR (if e then 0x40 else 0) OR (h AND 0x1F) :: u8) 6 = e"
  by (auto simp: bit_simps bit_numeral_rec)

lemma depacketize_fragment:
  assumes "h AND 0x80 = 0"
  shows "depacketize (if s then None else Some a) ((fu_header h s e @ frag) # r) =
     (if e then map_option ((#) ((if s then [h] else a) @ frag)) (depacketize None r)
      else depacketize (Some ((if s then [h] else a) @ frag)) r)"
  using fu_restore [OF assms, of s e] fu_bits [of s e h]
  unfolding fu_header_def append_Cons append_Nil depacketize.simps
  by (cases s; cases e) (simp_all add: fu_indicator)

lemma depacketize_fu:
  assumes "h AND 0x80 = 0" "body \<noteq> []"
  shows "depacketize (if s then None else Some a) (fu_payloads h s body @ r) =
     map_option ((#) ((if s then [h] else a) @ body)) (depacketize None r)"
  using assms(2)
proof (induction "length body" arbitrary: body s a rule: less_induct)
  case less
  let ?rest = "drop FU_CHUNK body" and ?e = "length body \<le> FU_CHUNK"
  let ?acc = "(if s then [h] else a) @ take FU_CHUNK body"
  have fu: "fu_payloads h s body = (fu_header h s ?e @ take FU_CHUNK body) # fu_payloads h False ?rest"
    using less.prems by (subst fu_payloads.simps) simp
  show ?case
  proof (cases ?e)
    case True
    then show ?thesis unfolding fu using depacketize_fragment [OF assms(1), of s a ?e]
      by (simp add: fu_payloads.simps)
  next
    case False
    then have rest: "?rest \<noteq> []" "length ?rest < length body" by (auto simp: FU_CHUNK_def)
    have "depacketize (if s then None else Some a) (fu_payloads h s body @ r) =
        depacketize (Some ?acc) (fu_payloads h False ?rest @ r)"
      unfolding fu using depacketize_fragment [OF assms(1), of s a ?e] False by simp
    also have "\<dots> = map_option ((#) (?acc @ ?rest)) (depacketize None r)"
      using less.hyps [OF rest(2,1), of False ?acc] by simp
    finally show ?thesis by simp
  qed
qed

lemma depacketize_payloads:
  assumes "n \<noteq> []" "nal_header_ok (hd n)"
  shows "depacketize None (payloads n @ r) = map_option ((#) n) (depacketize None r)"
proof (cases "length n \<le> 1188")
  case True
  with assms nal_header_ok_type [OF assms(2)] show ?thesis by (cases n) (auto simp: payloads_def)
next
  case False
  then have "tl n \<noteq> []" by (cases n) auto
  moreover have "hd n AND 0x80 = 0" using assms(2) by (simp add: nal_header_ok_def)
  ultimately show ?thesis using depacketize_fu [of "hd n" "tl n" True] False assms(1)
    by (simp add: payloads_def)
qed

lemma depacketize_nals:
  "\<forall>n \<in> set ns. n \<noteq> [] \<and> nal_header_ok (hd n) \<Longrightarrow> depacketize None (concat (map payloads ns)) = Some ns"
  by (induction ns) (auto simp: depacketize_payloads)

section \<open>Properties\<close>

text \<open>
  C12: On every non-empty access unit the packetizer stays inside the access unit and its 1200
  byte buffer and returns the number of packets it handed to the sink. Their payloads are, in
  order, those of the NAL units of the access unit (the unit itself up to 1188 bytes, FU-A
  fragments beyond); no packet is longer than 1200 bytes; every packet starts with the RTP
  header of the stream with consecutive sequence numbers (modulo \<open>2 ^ 16\<close>); and the sender
  report counters grow by the packets and payload octets sent.
\<close>

theorem rtp_h264_packetize_correct:
  assumes "length stack = RTP_MAX_PACKET" "au \<noteq> []"
  shows "\<exists>p' ss. rtp_h264_packetize stack (Some p) (Some au) pts True = Some (int (length ss), Some p', ss) \<and>
     map (\<lambda>s. drop RTP_HEADER_SIZE (pkt s)) ss = concat (map payloads (real_nals au)) \<and>
     (\<forall>i < length ss. length (pkt (ss ! i)) \<le> RTP_MAX_PACKET \<and>
        seq_no (ss ! i) = sequence p + of_nat (Suc i) \<and>
        take RTP_HEADER_SIZE (pkt (ss ! i)) =
          rtp_header p (rtp_clock (base_pts_us p') pts) (marker (ss ! i)) (seq_no (ss ! i))) \<and>
     rtp_h264_packet_count (Some p') = packets p + of_nat (length ss) \<and>
     rtp_h264_octet_count (Some p') = octets p + of_nat (sum_list (map length (concat (map payloads (real_nals au))))) \<and>
     sequence p' = sequence p + of_nat (length ss)"
proof -
  let ?p = "with_base p pts" and ?xs = "plan (annexb_nals au)"
  let ?ts = "rtp_clock (base_pts_us ?p) pts"
  have st: "length stack = 1200" using assms(1) by (simp add: rtp_consts)
  obtain p' ss where e: "emit ?ts ?xs ?p = (p', ss)" by fastforce
  have fst_xs: "map fst ?xs = concat (map payloads (real_nals au))"
    by (simp add: map_fst_plan real_nals_def)
  have len: "length ss = length ?xs" and nth: "\<And>i. i < length ?xs \<Longrightarrow> ss ! i =
     \<lparr>pkt = rtp_header p ?ts (snd (?xs ! i)) (sequence p + of_nat (Suc i)) @ fst (?xs ! i),
      marker = snd (?xs ! i), seq_no = sequence p + of_nat (Suc i)\<rparr>"
    using emit_nth [OF e] rtp_header_cong [of ?p p] by (auto simp: with_base_def)
  have small: "length (fst (?xs ! i)) \<le> 1188" if "i < length ?xs" for i
  proof -
    have "fst (?xs ! i) \<in> set (map fst ?xs)" using that by force
    then show ?thesis unfolding fst_xs using payloads_length by auto
  qed
  have "map (\<lambda>s. drop RTP_HEADER_SIZE (pkt s)) ss = map fst ?xs"
    using len nth by (intro nth_equalityI) (simp_all add: rtp_consts)
  moreover have "\<forall>i < length ss. length (pkt (ss ! i)) \<le> RTP_MAX_PACKET \<and>
      seq_no (ss ! i) = sequence p + of_nat (Suc i) \<and>
      take RTP_HEADER_SIZE (pkt (ss ! i)) = rtp_header p ?ts (marker (ss ! i)) (seq_no (ss ! i))"
    using len nth small by (auto simp: rtp_consts)
  moreover have "p' = ?p\<lparr>sequence := sequence p + of_nat (length ss), packets := packets p + of_nat (length ss),
      octets := octets p + of_nat (sum_list (map length (map fst ?xs)))\<rparr>"
    using emit_state [OF e] len by (simp add: with_base_def)
  moreover have "rtp_h264_packetize stack (Some p) (Some au) pts True = Some (int (length ss), Some p', ss)"
    using packetize_emit [OF st assms(2), of p pts] e by simp
  ultimately show ?thesis unfolding fst_xs
    by (auto simp: rtp_h264_packet_count_def rtp_h264_octet_count_def with_base_def)
qed

theorem rtp_h264_packetize_witness:
  "\<exists>p' ss. rtp_h264_packetize (replicate 1200 0) (rtp_h264_create True) (Some [0, 0, 0, 1, 0x65, 7, 0, 0, 1, 0x41]) 40 True
     = Some (2, Some p', ss) \<and> map (\<lambda>s. drop 12 (pkt s)) ss = [[0x65, 7], [0x41]] \<and> sequence p' = 2"
proof -
  let ?au = "[0, 0, 0, 1, 0x65, 7, 0, 0, 1, 0x41] :: bytes"
  obtain p where p: "rtp_h264_create True = Some p" "sequence p = 0" by (simp add: rtp_h264_create_def)
  have nals: "real_nals ?au = [[0x65, 7], [0x41]]"
    by (simp add: real_nals_def annexb_nals.simps rstrip0_def)
  obtain p' ss where r:
    "rtp_h264_packetize (replicate 1200 0) (Some p) (Some ?au) 40 True = Some (int (length ss), Some p', ss)"
    "map (\<lambda>s. drop 12 (pkt s)) ss = [[0x65, 7], [0x41]]" "sequence p' = of_nat (length ss)"
    using rtp_h264_packetize_correct [of "replicate 1200 0" ?au p 40] p(2)
    unfolding nals by (auto simp: rtp_consts payloads_def)
  have "length ss = 2" using arg_cong [OF r(2), of length] by simp
  with r p show ?thesis by auto
qed

text \<open>
  C11: a receiver that follows RFC 6184 gets back exactly the NAL units of the access unit, in
  order, from the packets sent, for every access unit whose NAL headers are those of H.264
  NAL units (forbidden bit clear, type below 24), whatever their sizes.
\<close>

theorem rtp_h264_packetize_roundtrip:
  assumes "length stack = RTP_MAX_PACKET" "au \<noteq> []"
    and "\<forall>n \<in> set (real_nals au). nal_header_ok (hd n)"
  shows "\<exists>n p' ss. rtp_h264_packetize stack (Some p) (Some au) pts True = Some (n, Some p', ss) \<and>
     depacketize None (map (\<lambda>s. drop RTP_HEADER_SIZE (pkt s)) ss) = Some (real_nals au)"
proof -
  let ?p = "with_base p pts" and ?xs = "plan (annexb_nals au)"
  let ?ts = "rtp_clock (base_pts_us ?p) pts"
  obtain p' ss where e: "emit ?ts ?xs ?p = (p', ss)" by fastforce
  have "map (\<lambda>s. drop RTP_HEADER_SIZE (pkt s)) ss = map fst ?xs"
    using emit_nth [OF e] by (intro nth_equalityI) (simp_all add: rtp_consts)
  also have "\<dots> = concat (map payloads (real_nals au))" by (simp add: map_fst_plan real_nals_def)
  finally have "depacketize None (map (\<lambda>s. drop RTP_HEADER_SIZE (pkt s)) ss) = Some (real_nals au)"
    using depacketize_nals [of "real_nals au"] assms(3) by (auto simp: real_nals_def)
  moreover have "rtp_h264_packetize stack (Some p) (Some au) pts True = Some (int (length ss), Some p', ss)"
    using packetize_emit [of stack au p pts] e assms(1,2) by (simp add: rtp_consts)
  ultimately show ?thesis by blast
qed

theorem rtp_h264_roundtrip_witness:
  "\<exists>n p' ss. rtp_h264_packetize (replicate 1200 0) (rtp_h264_create True) (Some (annexb [0x65 # replicate 3000 7])) 40 True
     = Some (n, Some p', ss) \<and>
     depacketize None (map (\<lambda>s. drop 12 (pkt s)) ss) = Some [0x65 # replicate 3000 7]"
proof -
  let ?n = "0x65 # replicate 3000 7 :: bytes"
  obtain p where p: "rtp_h264_create True = Some p" by (simp add: rtp_h264_create_def)
  have no_sc: "find_sc (replicate k (7 :: u8)) = None" for k
  proof (induction k)
    case (Suc k)
    then show ?case by (cases k; cases "k - 1") auto
  qed simp
  have "find_sc ?n = None"
  proof -
    have "?n = [0x65] @ replicate 3000 7" by simp
    then show ?thesis using find_sc_append [of "[0x65]" "replicate 3000 7"] no_sc by simp
  qed
  then have "nal_ok ?n" by (simp add: nal_ok_def)
  then have nals: "real_nals (annexb [?n]) = [?n]" by (intro real_nals_annexb) simp
  have "\<forall>n \<in> set (real_nals (annexb [?n])). nal_header_ok (hd n)"
    unfolding nals by (simp add: nal_header_ok_def nal_type_def)
  then show ?thesis
    using rtp_h264_packetize_roundtrip [of "replicate 1200 0" "annexb [?n]" p 40] p
    unfolding nals by (auto simp: rtp_consts)
qed

lemma payloads_nonempty: "n \<noteq> [] \<Longrightarrow> payloads n \<noteq> []"
  by (cases n) (auto simp: payloads_def fu_payloads.simps)

lemma snd_mark: "xs \<noteq> [] \<Longrightarrow> map snd (mark cont xs) = replicate (length xs - 1) False @ [\<not> cont]"
  by (induction cont xs rule: mark.induct) auto

lemma snd_plan:
  assumes "ns \<noteq> []" "[] \<notin> set ns"
  shows "map snd (plan ns) = replicate (length (plan ns) - 1) False @ [True]"
  using assms
proof (induction ns)
  case (Cons n ns)
  have n: "n \<noteq> []" using Cons.prems by auto
  let ?m = "mark (ns \<noteq> [] \<and> hd ns \<noteq> []) (payloads n)"
  have len: "length ?m = length (payloads n)" using map_fst_mark by (metis length_map)
  obtain k where k: "length (payloads n) = Suc k" using payloads_nonempty [OF n] by (cases "payloads n") auto
  show ?case
  proof (cases "ns = []")
    case True
    then show ?thesis using n snd_mark [OF payloads_nonempty [OF n], of False] len by simp
  next
    case False
    then have "hd ns \<noteq> []" using Cons.prems by (cases ns) auto
    then have m: "map snd ?m = replicate (Suc k) False"
      using False snd_mark [OF payloads_nonempty [OF n], of True] k by (simp add: replicate_append_same)
    have IH: "map snd (plan ns) = replicate (length (plan ns) - 1) False @ [True]"
      using Cons False by auto
    then have "plan ns \<noteq> []" by auto
    then obtain j where "length (plan ns) = Suc j" by (cases "plan ns") auto
    with IH m n k len show ?thesis by (simp add: replicate_add)
  qed
qed simp

text \<open>
  When every start code of the access unit is followed by a NAL unit, the marker bit is on
  the last packet of the access unit and on no other.
\<close>

theorem rtp_h264_marker_last:
  assumes "length stack = RTP_MAX_PACKET" "real_nals au = annexb_nals au" "real_nals au \<noteq> []"
  shows "\<exists>n p' ss. rtp_h264_packetize stack (Some p) (Some au) pts True = Some (n, Some p', ss) \<and>
     ss \<noteq> [] \<and> marker (last ss) \<and> (\<forall>s \<in> set (butlast ss). \<not> marker s)"
proof -
  let ?p = "with_base p pts" and ?xs = "plan (annexb_nals au)"
  let ?ts = "rtp_clock (base_pts_us ?p) pts"
  obtain p' ss where e: "emit ?ts ?xs ?p = (p', ss)" by fastforce
  have ns: "[] \<notin> set (annexb_nals au)" "annexb_nals au \<noteq> []"
    using assms(2,3) unfolding real_nals_def by (auto simp: filter_id_conv)
  have "map marker ss = map snd ?xs"
    using emit_nth [OF e] by (intro nth_equalityI) simp_all
  also have "\<dots> = replicate (length ?xs - 1) False @ [True]" by (rule snd_plan [OF ns(2,1)])
  finally have m: "map marker ss = replicate (length ?xs - 1) False @ [True]" .
  then have ne: "ss \<noteq> []" by auto
  have "map marker (butlast ss) = replicate (length ?xs - 1) False"
    using m by (simp add: map_butlast)
  then have "\<forall>s \<in> set (butlast ss). \<not> marker s"
    by (metis (no_types, lifting) image_eqI in_set_replicate set_map)
  moreover have "marker (last ss)" using m ne last_map [of ss marker] by simp
  moreover have "au \<noteq> []" using ns by (auto simp: annexb_nals.simps)
  then have "rtp_h264_packetize stack (Some p) (Some au) pts True = Some (int (length ss), Some p', ss)"
    using packetize_emit [of stack au p pts] e assms(1) by (simp add: rtp_consts)
  ultimately show ?thesis using ne by blast
qed

theorem rtp_h264_marker_witness:
  "\<exists>n p' ss. rtp_h264_packetize (replicate 1200 0) (rtp_h264_create True) (Some [0, 0, 1, 0x65, 0, 0, 1, 0x41]) 0 True
     = Some (n, Some p', ss) \<and> marker (last ss)"
proof -
  obtain p where p: "rtp_h264_create True = Some p" by (simp add: rtp_h264_create_def)
  have "real_nals [0, 0, 1, 0x65, 0, 0, 1, 0x41] = [[0x65], [0x41]]"
    "annexb_nals [0, 0, 1, 0x65, 0, 0, 1, 0x41] = [[0x65], [0x41]]"
    by (simp_all add: real_nals_def annexb_nals.simps rstrip0_def)
  with p rtp_h264_marker_last [of "replicate 1200 0" "[0, 0, 1, 0x65, 0, 0, 1, 0x41]" p 0]
  show ?thesis by (auto simp: rtp_consts)
qed

text \<open>
  The look-ahead inspects only the next start code. With an empty unit between two NAL
  units, the first NAL unit is sent with the marker bit although packets of the same access
  unit follow it.
\<close>

theorem rtp_h264_marker_before_empty_unit:
  "map_option (\<lambda>(n, p, ss). map marker ss)
     (rtp_h264_packetize (replicate 1200 0) (rtp_h264_create True) (Some [0, 0, 1, 0x65, 0, 0, 1, 0, 0, 1, 0x41]) 0 True)
   = Some [True, True]"
proof -
  have "annexb_nals [0, 0, 1, 0x65, 0, 0, 1, 0, 0, 1, 0x41] = [[0x65], [], [0x41]]"
    by (simp add: annexb_nals.simps rstrip0_def)
  then have "plan (annexb_nals [0, 0, 1, 0x65, 0, 0, 1, 0, 0, 1, 0x41]) = [([0x65], True), ([0x41], True)]"
    by (simp add: payloads_def)
  then show ?thesis
    by (simp add: rtp_h264_create_def packetize_emit Let_def)
qed

text \<open>
  The RTP timestamp of an access unit is the 90 kHz reading of its capture time relative to
  the first one, modulo \<open>2 ^ 32\<close>, as long as the stream is younger than 2 ^ 64 / 90000
  microseconds (about 6.5 years); and \<open>rtp_h264_timestamp_at\<close> gives the sender report the
  same reading at the same instant.
\<close>

theorem rtp_h264_timestamp_correct:
  assumes "rtp_h264_packetize stack (Some p) (Some au) pts True = Some (n, Some p', ss)" "au \<noteq> []"
    and "length stack = RTP_MAX_PACKET" "s \<in> set ss"
    and "base_pts_us p' \<le> pts" "(unat pts - unat (base_pts_us p')) * 90000 < 2 ^ 64"
  shows "take 4 (drop 4 (pkt s)) = be32_bytes (rtp_h264_timestamp_at (Some p') pts) \<and>
     unat (rtp_h264_timestamp_at (Some p') pts) = (unat pts - unat (base_pts_us p')) * 90 div 1000 mod 2 ^ 32"
proof -
  let ?p = "with_base p pts" and ?xs = "plan (annexb_nals au)"
  let ?ts = "rtp_clock (base_pts_us ?p) pts"
  have e: "emit ?ts ?xs ?p = (p', ss)"
    using packetize_emit [of stack au p pts] assms(1-3) by (auto simp: rtp_consts split: prod.splits)
  have p': "have_base p'" "base_pts_us p' = base_pts_us ?p"
    using emit_state [OF e] by (auto simp: with_base_def)
  then have at: "rtp_h264_timestamp_at (Some p') pts = ?ts" by (simp add: rtp_h264_timestamp_at_def)
  obtain i where "i < length ss" "ss ! i = s" using assms(4) by (auto simp: in_set_conv_nth)
  then have "take 4 (drop 4 (pkt s)) = be32_bytes ?ts"
    using emit_nth [OF e] by (auto simp: rtp_header_def be16_bytes_def be32_bytes_def)
  moreover have "unat ?ts = (unat pts - unat (base_pts_us ?p)) * 90 div 1000 mod 2 ^ 32"
  proof -
    let ?d = "unat pts - unat (base_pts_us ?p)"
    have mul: "unat x * 90000 < 2 ^ 64 \<Longrightarrow> unat (x * 90000) = unat x * 90000" for x :: u64
      by (simp add: unat_word_ariths)
    have d: "unat (pts - base_pts_us ?p) = ?d" using assms(5) p'(2) by (simp add: unat_sub)
    have "unat ((pts - base_pts_us ?p) * 90000) = ?d * 90000"
      using mul [of "pts - base_pts_us ?p"] assms(6) p'(2) d by simp
    then have "unat ((pts - base_pts_us ?p) * 90000 div 1000000) = ?d * 90000 div 1000000"
      by (simp add: unat_div)
    moreover have "?d * 90000 div 1000000 = ?d * 90 div 1000"
      using div_mult_mult2 [of 1000 "?d * 90" 1000] by simp
    ultimately show ?thesis
      using assms(5) p'(2) by (simp add: rtp_clock_def unsigned_ucast_eq take_bit_nat_def)
  qed
  ultimately show ?thesis using at p'(2) by simp
qed

theorem rtp_h264_timestamp_witness:
  "\<exists>n p' s. rtp_h264_packetize (replicate 1200 0)
       (Some \<lparr>ssrc = 9, payload_type = 96, sequence = 65535, base_pts_us = 1000, have_base = True, packets = 0, octets = 0\<rparr>)
       (Some [0, 0, 1, 0x65]) 1001000 True = Some (n, Some p', [s]) \<and>
     unat (rtp_h264_timestamp_at (Some p') 1001000) = 90000"
proof -
  let ?p = "\<lparr>ssrc = 9, payload_type = 96, sequence = 65535, base_pts_us = 1000, have_base = True, packets = 0, octets = 0\<rparr>"
  have pl: "plan (annexb_nals [0, 0, 1, 0x65]) = [([0x65], True)]"
    by (simp add: annexb_nals.simps rstrip0_def payloads_def)
  obtain n p' s where r: "rtp_h264_packetize (replicate 1200 0) (Some ?p) (Some [0, 0, 1, 0x65]) 1001000 True
      = Some (n, Some p', [s])" "base_pts_us p' = 1000"
    using packetize_emit [of "replicate 1200 0" "[0, 0, 1, 0x65]" ?p 1001000] pl
    by (simp add: with_base_def Let_def)
  have "unat (rtp_h264_timestamp_at (Some p') 1001000) = (unat (1001000 :: u64) - unat (base_pts_us p')) * 90 div 1000 mod 2 ^ 32"
    using rtp_h264_timestamp_correct [OF r(1), of s] r(2) by (simp add: rtp_consts)
  then have "unat (rtp_h264_timestamp_at (Some p') 1001000) = 90000" using r(2) by simp
  with r(1) show ?thesis by blast
qed

end
