(* ===== verification/Rtcp.thy ===== *)
theory Rtcp
  imports Cam_Prelude
begin

text \<open>
  RTCP for the video sender (\<open>src/src/webrtc/rtcp.c\<close>): sender reports, the round trip
  time, and the parser of inbound compound packets. The reference splits the buffer into
  packets, report blocks and NACK entries; the parser's index loops are proved to compute
  its summary for every buffer, hence never to read outside it.
\<close>

section \<open>State\<close>

definition RTCP_PT_SR :: u8 where "RTCP_PT_SR = 200"
definition RTCP_PT_RR :: u8 where "RTCP_PT_RR = 201"
definition RTCP_PT_BYE :: u8 where "RTCP_PT_BYE = 203"
definition RTCP_PT_RTPFB :: u8 where "RTCP_PT_RTPFB = 205"
definition RTCP_PT_PSFB :: u8 where "RTCP_PT_PSFB = 206"
definition RTCP_FMT_NACK :: u8 where "RTCP_FMT_NACK = 1"
definition RTCP_FMT_PLI :: u8 where "RTCP_FMT_PLI = 1"
definition RTCP_FMT_FIR :: u8 where "RTCP_FMT_FIR = 4"
definition RTCP_HEADER_SIZE :: nat where "RTCP_HEADER_SIZE = 8"
definition RTCP_REPORT_BLOCK_SIZE :: nat where "RTCP_REPORT_BLOCK_SIZE = 24"
definition RTCP_SENDER_INFO_SIZE :: nat where "RTCP_SENDER_INFO_SIZE = 20"
definition RTCP_SR_SIZE :: nat where "RTCP_SR_SIZE = 28"
definition RTCP_MAX_NACK_SEQS :: nat where "RTCP_MAX_NACK_SEQS = 128"

lemmas rtcp_consts = RTCP_PT_SR_def RTCP_PT_RR_def RTCP_PT_BYE_def RTCP_PT_RTPFB_def RTCP_PT_PSFB_def
  RTCP_FMT_NACK_def RTCP_FMT_PLI_def RTCP_FMT_FIR_def RTCP_HEADER_SIZE_def RTCP_REPORT_BLOCK_SIZE_def
  RTCP_SENDER_INFO_SIZE_def RTCP_SR_SIZE_def RTCP_MAX_NACK_SEQS_def

record RtcpFeedback =
  pli :: int
  fir :: int
  bye :: bool
  nack_seqs :: nat
  nack_seq :: "u16 list"
  has_rr :: bool
  rr_ssrc :: u32
  rr_fraction_lost :: u8
  rr_highest_seq :: u32
  rr_jitter :: u32
  rr_last_sr :: u32
  rr_delay_since_sr :: u32

definition zero_feedback :: RtcpFeedback where
  "zero_feedback = \<lparr>pli = 0, fir = 0, bye = False, nack_seqs = 0,
     nack_seq = replicate RTCP_MAX_NACK_SEQS 0, has_rr = False, rr_ssrc = 0, rr_fraction_lost = 0,
     rr_highest_seq = 0, rr_jitter = 0, rr_last_sr = 0, rr_delay_since_sr = 0\<rparr>"

section \<open>Operations\<close>

definition rtcp_build_sender_report ::
  "bytes \<Rightarrow> u32 \<Rightarrow> u64 \<Rightarrow> u32 \<Rightarrow> u32 \<Rightarrow> u32 \<Rightarrow> (nat \<times> bytes) option" where
  "rtcp_build_sender_report out ssrc ntp_wall_us rtp_ts packet_count octet_count = do {
     let ntp_secs = ntp_wall_us div 1000000 + 2208988800;
     let ntp_frac = (ucast (push_bit 32 (ntp_wall_us mod 1000000) div 1000000) :: u32);
     out \<leftarrow> wr out 0 0x80;
     out \<leftarrow> wr out 1 RTCP_PT_SR;
     out \<leftarrow> write_be16 out 2 6;
     out \<leftarrow> write_be32 out 4 ssrc;
     out \<leftarrow> write_be32 out 8 (ucast (ntp_secs AND 0xFFFFFFFF));
     out \<leftarrow> write_be32 out 12 ntp_frac;
     out \<leftarrow> write_be32 out 16 rtp_ts;
     out \<leftarrow> write_be32 out 20 packet_count;
     out \<leftarrow> write_be32 out 24 octet_count;
     Some (RTCP_SR_SIZE, out) }"

definition rtcp_rtt_ms :: "u32 \<Rightarrow> u32 \<Rightarrow> u32 \<Rightarrow> int" where
  "rtcp_rtt_ms now_ntp_msw rr_last rr_delay =
     (if rr_last = 0 then -1
      else
        (let elapsed = sint (now_ntp_msw - rr_last - rr_delay) in
         if elapsed < 0 then (if elapsed > - (65536 div 100) then 0 else -1)
         else (elapsed * 1000 + 32768) div 65536))"

definition note_block :: "bytes \<Rightarrow> nat \<Rightarrow> RtcpFeedback \<Rightarrow> RtcpFeedback option" where
  "note_block buffer block feedback = do {
     block_ssrc \<leftarrow> read_be32 buffer block;
     lost \<leftarrow> rd buffer (block + 4);
     seq \<leftarrow> read_be32 buffer (block + 8);
     jitter \<leftarrow> read_be32 buffer (block + 12);
     lsr \<leftarrow> read_be32 buffer (block + 16);
     dlsr \<leftarrow> read_be32 buffer (block + 20);
     Some (feedback\<lparr>has_rr := True, rr_ssrc := block_ssrc, rr_fraction_lost := lost, rr_highest_seq := seq,
                    rr_jitter := jitter, rr_last_sr := lsr, rr_delay_since_sr := dlsr\<rparr>) }"

function report_loop ::
  "bytes \<Rightarrow> nat \<Rightarrow> nat \<Rightarrow> nat \<Rightarrow> u32 \<Rightarrow> nat \<Rightarrow> nat \<Rightarrow> RtcpFeedback \<Rightarrow> RtcpFeedback option" where
  "report_loop buffer offset body_len first media_ssrc count i feedback =
     (if i < count then
        (let at = first + i * RTCP_REPORT_BLOCK_SIZE in
         if at + RTCP_REPORT_BLOCK_SIZE > body_len then Some feedback
         else if has_rr feedback \<and> rr_ssrc feedback = media_ssrc then Some feedback
         else do {
           feedback \<leftarrow> note_block buffer (offset + at) feedback;
           report_loop buffer offset body_len first media_ssrc count (i + 1) feedback })
      else Some feedback)"
  by pat_completeness auto
termination
  by (relation "measure (\<lambda>(buffer, offset, body_len, first, media_ssrc, count, i, feedback). count - i)") auto

definition push_nack :: "u16 \<Rightarrow> RtcpFeedback \<Rightarrow> RtcpFeedback option" where
  "push_nack s feedback = do {
     ns \<leftarrow> wr (nack_seq feedback) (nack_seqs feedback) s;
     Some (feedback\<lparr>nack_seq := ns, nack_seqs := nack_seqs feedback + 1\<rparr>) }"

function nack_bits :: "u16 \<Rightarrow> u16 \<Rightarrow> nat \<Rightarrow> RtcpFeedback \<Rightarrow> RtcpFeedback option" where
  "nack_bits pid blp k feedback =
     (if k < 16 \<and> nack_seqs feedback < RTCP_MAX_NACK_SEQS then do {
        feedback \<leftarrow> (if bit blp k then push_nack (pid + of_nat k + 1) feedback else Some feedback);
        nack_bits pid blp (k + 1) feedback }
      else Some feedback)"
  by pat_completeness auto
termination
  by (relation "measure (\<lambda>(pid, blp, k, feedback). 16 - k)") auto

function nack_loop :: "bytes \<Rightarrow> nat \<Rightarrow> nat \<Rightarrow> RtcpFeedback \<Rightarrow> RtcpFeedback option" where
  "nack_loop buffer e i feedback =
     (if i + 4 \<le> e \<and> nack_seqs feedback < RTCP_MAX_NACK_SEQS then do {
        pid \<leftarrow> read_be16 buffer i;
        blp \<leftarrow> read_be16 buffer (i + 2);
        feedback \<leftarrow> (if nack_seqs feedback < RTCP_MAX_NACK_SEQS then push_nack pid feedback else Some feedback);
        feedback \<leftarrow> nack_bits pid blp 0 feedback;
        nack_loop buffer e (i + 4) feedback }
      else Some feedback)"
  by pat_completeness auto
termination
  by (relation "measure (\<lambda>(buffer, e, i, feedback). e - i)") auto

text \<open>The \<open>switch\<close> over the packet type.\<close>

definition rtcp_packet ::
  "bytes \<Rightarrow> nat \<Rightarrow> nat \<Rightarrow> u8 \<Rightarrow> u8 \<Rightarrow> u32 \<Rightarrow> RtcpFeedback \<Rightarrow> RtcpFeedback option" where
  "rtcp_packet buffer offset packet_len count_or_fmt packet_type media_ssrc feedback =
     (if packet_type = RTCP_PT_SR \<or> packet_type = RTCP_PT_RR then
        (let first = RTCP_HEADER_SIZE + (if packet_type = RTCP_PT_SR then RTCP_SENDER_INFO_SIZE else 0)
         in report_loop buffer offset packet_len first media_ssrc (unat count_or_fmt) 0 feedback)
      else if packet_type = RTCP_PT_BYE then Some (feedback\<lparr>bye := True\<rparr>)
      else if packet_type = RTCP_PT_RTPFB then
        (if count_or_fmt \<noteq> RTCP_FMT_NACK then Some feedback
         else nack_loop buffer (offset + packet_len) (offset + 12) feedback)
      else if packet_type = RTCP_PT_PSFB then
        (if count_or_fmt = RTCP_FMT_PLI then Some (feedback\<lparr>pli := pli feedback + 1\<rparr>)
         else if count_or_fmt = RTCP_FMT_FIR then Some (feedback\<lparr>fir := fir feedback + 1\<rparr>)
         else Some feedback)
      else Some feedback)"

function rtcp_parse_loop :: "bytes \<Rightarrow> u32 \<Rightarrow> nat \<Rightarrow> RtcpFeedback \<Rightarrow> RtcpFeedback option" where
  "rtcp_parse_loop buffer media_ssrc offset feedback =
     (if offset + 4 \<le> length buffer then do {
        b0 \<leftarrow> rd buffer offset;
        if drop_bit 6 b0 \<noteq> 2 then Some feedback
        else do {
          packet_type \<leftarrow> rd buffer (offset + 1);
          words \<leftarrow> read_be16 buffer (offset + 2);
          let packet_len = (unat words + 1) * 4;
          if offset + packet_len > length buffer \<or> packet_len < 4 then Some feedback
          else do {
            feedback \<leftarrow> rtcp_packet buffer offset packet_len (b0 AND 0x1F) packet_type media_ssrc feedback;
            rtcp_parse_loop buffer media_ssrc (offset + packet_len) feedback } } }
      else Some feedback)"
  by pat_completeness auto
termination
  by (relation "measure (\<lambda>(buffer, media_ssrc, offset, feedback). length buffer - offset)") auto

declare report_loop.simps [simp del] nack_bits.simps [simp del] nack_loop.simps [simp del]
  rtcp_parse_loop.simps [simp del]

definition rtcp_parse :: "bytes \<Rightarrow> u32 \<Rightarrow> RtcpFeedback option" where
  "rtcp_parse buffer media_ssrc = rtcp_parse_loop buffer media_ssrc 0 zero_feedback"

section \<open>Reference\<close>

definition packet_size :: "bytes \<Rightarrow> nat" where
  "packet_size b = (unat (be16 (b ! 2) (b ! 3)) + 1) * 4"

function rtcp_split :: "bytes \<Rightarrow> bytes list" where
  "rtcp_split b =
     (if length b < 4 \<or> drop_bit 6 (b ! 0) \<noteq> 2 \<or> length b < packet_size b then []
      else take (packet_size b) b # rtcp_split (drop (packet_size b) b))"
  by pat_completeness auto
termination
  by (relation "measure length") (auto simp: packet_size_def)

declare rtcp_split.simps [simp del]

definition fmt_of :: "bytes \<Rightarrow> u8" where "fmt_of pk = pk ! 0 AND 0x1F"
definition type_of :: "bytes \<Rightarrow> u8" where "type_of pk = pk ! 1"

definition first_block :: "bytes \<Rightarrow> nat" where
  "first_block pk = (if type_of pk = 200 then 28 else 8)"

text \<open>The report blocks that the packet really contains, and the sequence numbers it asks for.\<close>

definition report_blocks :: "bytes \<Rightarrow> bytes list" where
  "report_blocks pk =
     (if type_of pk = 200 \<or> type_of pk = 201
      then map (\<lambda>i. take 24 (drop (first_block pk + i * 24) pk))
             (filter (\<lambda>i. first_block pk + i * 24 + 24 \<le> length pk) [0..<unat (fmt_of pk)])
      else [])"

definition nack_expand :: "u16 \<Rightarrow> u16 \<Rightarrow> u16 list" where
  "nack_expand pid blp = pid # map (\<lambda>k. pid + of_nat k + 1) (filter (bit blp) [0..<16])"

fun nack_entries :: "bytes \<Rightarrow> u16 list" where
  "nack_entries (a # b # c # d # r) = nack_expand (be16 a b) (be16 c d) @ nack_entries r"
| "nack_entries _ = []"

definition nack_requests :: "bytes \<Rightarrow> u16 list" where
  "nack_requests pk = (if type_of pk = 205 \<and> fmt_of pk = 1 then nack_entries (drop 12 pk) else [])"

definition be32_at :: "bytes \<Rightarrow> nat \<Rightarrow> u32" where
  "be32_at b i = be32 (b ! i) (b ! (i + 1)) (b ! (i + 2)) (b ! (i + 3))"

text \<open>The block kept: the first one about our stream, otherwise the last one.\<close>

definition pick_block :: "u32 \<Rightarrow> bytes list \<Rightarrow> bytes option" where
  "pick_block media bs =
     (case find (\<lambda>b. be32_at b 0 = media) bs of
        Some b \<Rightarrow> Some b
      | None \<Rightarrow> if bs = [] then None else Some (last bs))"

section \<open>Report blocks\<close>

definition cnt_part :: "RtcpFeedback \<Rightarrow> int \<times> int \<times> bool" where
  "cnt_part fb = (pli fb, fir fb, bye fb)"

definition nack_part :: "RtcpFeedback \<Rightarrow> nat \<times> u16 list" where
  "nack_part fb = (nack_seqs fb, nack_seq fb)"

definition rr_part :: "RtcpFeedback \<Rightarrow> bool \<times> u32 \<times> u8 \<times> u32 \<times> u32 \<times> u32 \<times> u32" where
  "rr_part fb = (has_rr fb, rr_ssrc fb, rr_fraction_lost fb, rr_highest_seq fb, rr_jitter fb, rr_last_sr fb,
     rr_delay_since_sr fb)"

definition rr_of :: "bytes option \<Rightarrow> bool \<times> u32 \<times> u8 \<times> u32 \<times> u32 \<times> u32 \<times> u32" where
  "rr_of block = (case block of
       None \<Rightarrow> (False, 0, 0, 0, 0, 0, 0)
     | Some b \<Rightarrow> (True, be32_at b 0, b ! 4, be32_at b 8, be32_at b 12, be32_at b 16, be32_at b 20))"

lemmas part_defs = cnt_part_def nack_part_def rr_part_def

lemma note_block_ok:
  assumes "block + 24 \<le> length buffer"
  shows "\<exists>fb'. note_block buffer block fb = Some fb' \<and> rr_part fb' = rr_of (Some (take 24 (drop block buffer))) \<and>
     cnt_part fb' = cnt_part fb \<and> nack_part fb' = nack_part fb"
  using assms by (simp add: note_block_def part_defs rr_of_def be32_at_def add.assoc)
    (simp add: add.commute)

lemma pick_block_matched:
  assumes "pick_block media bs = Some b" "be32_at b 0 = media"
  shows "pick_block media (bs @ cs) = Some b"
proof -
  have "find (\<lambda>b. be32_at b 0 = media) bs = Some b"
  proof (cases "find (\<lambda>b. be32_at b 0 = media) bs")
    case None
    with assms have "bs \<noteq> []" "b = last bs" by (auto simp: pick_block_def split: if_splits)
    with None assms(2) show ?thesis by (auto simp: find_None_iff)
  qed (use assms in \<open>auto simp: pick_block_def\<close>)
  moreover have "find P bs = Some x \<Longrightarrow> find P (bs @ cs) = Some x" for P and x :: bytes
    by (induction bs) auto
  ultimately show ?thesis by (simp add: pick_block_def)
qed

lemma pick_block_snoc:
  assumes "\<And>c. pick_block media bs = Some c \<Longrightarrow> be32_at c 0 \<noteq> media"
  shows "pick_block media (bs @ [b]) = Some b"
proof -
  have "find (\<lambda>b. be32_at b 0 = media) bs = None"
  proof (cases "find (\<lambda>b. be32_at b 0 = media) bs")
    case (Some c)
    then have "be32_at c 0 = media" by (auto simp: find_Some_iff)
    with Some assms [of c] show ?thesis by (simp add: pick_block_def)
  qed
  then have "find (\<lambda>b. be32_at b 0 = media) (bs @ [b]) = (if be32_at b 0 = media then Some b else None)"
    by (induction bs) (auto split: if_splits)
  then show ?thesis by (simp add: pick_block_def)
qed

definition blocks_from :: "bytes \<Rightarrow> nat \<Rightarrow> nat \<Rightarrow> nat \<Rightarrow> nat \<Rightarrow> nat \<Rightarrow> bytes list" where
  "blocks_from buffer offset len first count i =
     map (\<lambda>i. take 24 (drop (offset + (first + i * 24)) buffer)) (filter (\<lambda>i. first + i * 24 + 24 \<le> len) [i..<count])"

lemma report_loop_ok:
  assumes "offset + len \<le> length buffer" "rr_part fb = rr_of (pick_block media bs)"
  shows "\<exists>fb'. report_loop buffer offset len first media count i fb = Some fb' \<and>
     rr_part fb' = rr_of (pick_block media (bs @ blocks_from buffer offset len first count i)) \<and>
     cnt_part fb' = cnt_part fb \<and> nack_part fb' = nack_part fb"
  using assms(2)
proof (induction "count - i" arbitrary: i fb bs rule: less_induct)
  case less
  let ?at = "first + i * 24"
  show ?case
  proof (cases "i < count \<and> ?at + 24 \<le> len")
    case False
    have "blocks_from buffer offset len first count i = []"
    proof (cases "i < count")
      case True
      then have "\<not> first + j * 24 + 24 \<le> len" if "i \<le> j" for j using False that by auto
      then show ?thesis by (simp add: blocks_from_def)
    qed (simp add: blocks_from_def)
    with False less.prems show ?thesis by (subst report_loop.simps) (auto simp: rtcp_consts Let_def)
  next
    case True
    let ?b = "take 24 (drop (offset + ?at) buffer)"
    have bl: "blocks_from buffer offset len first count i = ?b # blocks_from buffer offset len first count (i + 1)"
      using True by (simp add: blocks_from_def upt_conv_Cons)
    show ?thesis
    proof (cases "has_rr fb \<and> rr_ssrc fb = media")
      case matched: True
      then obtain c where c: "pick_block media bs = Some c" "be32_at c 0 = media"
        using less.prems by (cases "pick_block media bs") (auto simp: rr_part_def rr_of_def)
      with matched less.prems True show ?thesis
        by (subst report_loop.simps) (simp add: rtcp_consts Let_def pick_block_matched [OF c])
    next
      case unmatched: False
      have in_buf: "offset + ?at + 24 \<le> length buffer" using True assms(1) by simp
      obtain fb1 where fb1: "note_block buffer (offset + ?at) fb = Some fb1" "rr_part fb1 = rr_of (Some ?b)"
        "cnt_part fb1 = cnt_part fb" "nack_part fb1 = nack_part fb"
        using note_block_ok [OF in_buf] by blast
      have "pick_block media (bs @ [?b]) = Some ?b"
        by (rule pick_block_snoc) (use unmatched less.prems in \<open>auto simp: rr_part_def rr_of_def\<close>)
      then have "rr_part fb1 = rr_of (pick_block media (bs @ [?b]))" using fb1(2) by simp
      moreover have "count - (i + 1) < count - i" using True by auto
      ultimately obtain fb' where
        "report_loop buffer offset len first media count (i + 1) fb1 = Some fb'"
        "rr_part fb' = rr_of (pick_block media ((bs @ [?b]) @ blocks_from buffer offset len first count (i + 1)))"
        "cnt_part fb' = cnt_part fb1" "nack_part fb' = nack_part fb1" using less.hyps by blast
      with fb1 bl True unmatched show ?thesis
        by (subst report_loop.simps) (auto simp: rtcp_consts Let_def)
    qed
  qed
qed

section \<open>NACK lists\<close>

definition nack_rep :: "RtcpFeedback \<Rightarrow> u16 list \<Rightarrow> bool" where
  "nack_rep fb ns \<longleftrightarrow> nack_seqs fb = min 128 (length ns) \<and> length (nack_seq fb) = 128 \<and>
     take (nack_seqs fb) (nack_seq fb) = take 128 ns"

lemma nack_rep_cong: "nack_part fb = nack_part fb' \<Longrightarrow> nack_rep fb = nack_rep fb'"
  by (intro ext) (simp add: nack_rep_def nack_part_def)

lemma nack_rep_full: "nack_rep fb ns \<Longrightarrow> \<not> nack_seqs fb < 128 \<Longrightarrow> nack_rep fb (ns @ ms)"
  by (auto simp: nack_rep_def min_def split: if_splits)

lemma push_nack_ok:
  assumes "nack_rep fb ns" "nack_seqs fb < 128"
  shows "\<exists>fb'. push_nack s fb = Some fb' \<and> nack_rep fb' (ns @ [s]) \<and> rr_part fb' = rr_part fb \<and> cnt_part fb' = cnt_part fb"
  using assms by (auto simp: push_nack_def nack_rep_def part_defs take_Suc_conv_app_nth)

lemma nack_bits_ok:
  assumes "nack_rep fb ns"
  shows "\<exists>fb'. nack_bits pid blp k fb = Some fb' \<and>
     nack_rep fb' (ns @ map (\<lambda>k. pid + of_nat k + 1) (filter (bit blp) [k..<16])) \<and>
     rr_part fb' = rr_part fb \<and> cnt_part fb' = cnt_part fb"
  using assms
proof (induction "16 - k" arbitrary: k fb ns rule: less_induct)
  case less
  show ?case
  proof (cases "k < 16 \<and> nack_seqs fb < 128")
    case False
    then show ?thesis using less.prems nack_rep_full [OF less.prems]
      by (subst nack_bits.simps) (auto simp: rtcp_consts)
  next
    case True
    let ?fb1 = "if bit blp k then push_nack (pid + of_nat k + 1) fb else Some fb"
    obtain fb1 where fb1: "?fb1 = Some fb1"
      "nack_rep fb1 (ns @ (if bit blp k then [pid + of_nat k + 1] else []))"
      "rr_part fb1 = rr_part fb" "cnt_part fb1 = cnt_part fb"
      using push_nack_ok [OF less.prems, of "pid + of_nat k + 1"] less.prems True by (cases "bit blp k") auto
    have "16 - (k + 1) < 16 - k" using True by auto
    from less.hyps [OF this fb1(2)] obtain fb' where
      "nack_bits pid blp (k + 1) fb1 = Some fb'"
      "nack_rep fb' ((ns @ (if bit blp k then [pid + of_nat k + 1] else [])) @
         map (\<lambda>k. pid + of_nat k + 1) (filter (bit blp) [k + 1..<16]))"
      "rr_part fb' = rr_part fb1" "cnt_part fb' = cnt_part fb1" by blast
    moreover have "[k..<16] = k # [k + 1..<16]" using True by (simp add: upt_conv_Cons)
    ultimately show ?thesis using fb1 True
      by (subst nack_bits.simps) (auto simp: rtcp_consts)
  qed
qed

lemma nack_loop_ok:
  assumes "e \<le> length buffer" "nack_rep fb ns"
  shows "\<exists>fb'. nack_loop buffer e i fb = Some fb' \<and>
     nack_rep fb' (ns @ nack_entries (take (e - i) (drop i buffer))) \<and>
     rr_part fb' = rr_part fb \<and> cnt_part fb' = cnt_part fb"
  using assms(2)
proof (induction "e - i" arbitrary: i fb ns rule: less_induct)
  case less
  let ?rest = "\<lambda>i. take (e - i) (drop i buffer)"
  show ?case
  proof (cases "i + 4 \<le> e \<and> nack_seqs fb < 128")
    case False
    have "nack_entries (?rest i) = []" if "\<not> i + 4 \<le> e"
    proof -
      have "length (?rest i) < 4" using that by simp
      then show ?thesis by (cases "?rest i" rule: nack_entries.cases) auto
    qed
    with False show ?thesis using less.prems nack_rep_full [OF less.prems]
      by (subst nack_loop.simps) (cases "i + 4 \<le> e"; simp add: rtcp_consts)
  next
    case True
    let ?pid = "be16 (buffer ! i) (buffer ! (i + 1))" and ?blp = "be16 (buffer ! (i + 2)) (buffer ! (i + 3))"
    have "drop i buffer = buffer ! i # buffer ! (i + 1) # buffer ! (i + 2) # buffer ! (i + 3) # drop (i + 4) buffer"
      using True assms(1) by (simp add: Cons_nth_drop_Suc numeral_eq_Suc)
    then have rest: "?rest i = buffer ! i # buffer ! (i + 1) # buffer ! (i + 2) # buffer ! (i + 3) # ?rest (i + 4)"
      using True by (simp add: take_Cons' numeral_eq_Suc)
    obtain fb1 where fb1: "push_nack ?pid fb = Some fb1" "nack_rep fb1 (ns @ [?pid])"
      "rr_part fb1 = rr_part fb" "cnt_part fb1 = cnt_part fb" using push_nack_ok [OF less.prems] True by blast
    obtain fb2 where fb2: "nack_bits ?pid ?blp 0 fb1 = Some fb2" "nack_rep fb2 (ns @ nack_expand ?pid ?blp)"
      "rr_part fb2 = rr_part fb" "cnt_part fb2 = cnt_part fb"
      using nack_bits_ok [OF fb1(2), of ?pid ?blp 0] fb1(3,4) by (auto simp: nack_expand_def)
    have "e - (i + 4) < e - i" using True by auto
    from less.hyps [OF this fb2(2)] obtain fb' where
      "nack_loop buffer e (i + 4) fb2 = Some fb'"
      "nack_rep fb' ((ns @ nack_expand ?pid ?blp) @ nack_entries (?rest (i + 4)))"
      "rr_part fb' = rr_part fb2" "cnt_part fb' = cnt_part fb2" by blast
    with fb1 fb2 True assms(1) rest show ?thesis
      by (subst nack_loop.simps) (simp add: rtcp_consts numeral_3_eq_3)
  qed
qed

section \<open>The compound packet\<close>

definition pli_count :: "bytes list \<Rightarrow> nat" where
  "pli_count pks = length (filter (\<lambda>pk. type_of pk = 206 \<and> fmt_of pk = 1) pks)"

definition fir_count :: "bytes list \<Rightarrow> nat" where
  "fir_count pks = length (filter (\<lambda>pk. type_of pk = 206 \<and> fmt_of pk = 4) pks)"

definition feedback_rep :: "u32 \<Rightarrow> RtcpFeedback \<Rightarrow> bytes list \<Rightarrow> bool" where
  "feedback_rep media fb pks \<longleftrightarrow>
     cnt_part fb = (int (pli_count pks), int (fir_count pks), \<exists>pk \<in> set pks. type_of pk = 203) \<and>
     nack_rep fb (concat (map nack_requests pks)) \<and>
     rr_part fb = rr_of (pick_block media (concat (map report_blocks pks)))"

lemma feedback_rep_zero: "feedback_rep media zero_feedback []"
  by (simp add: feedback_rep_def part_defs zero_feedback_def nack_rep_def rr_of_def pick_block_def
      pli_count_def fir_count_def rtcp_consts)

lemma rtcp_packet_ok:
  assumes rep: "feedback_rep media fb pks" and len: "4 \<le> len" "offset + len \<le> length buffer"
    and pk: "pk = take len (drop offset buffer)"
  shows "\<exists>fb'. rtcp_packet buffer offset len (fmt_of pk) (type_of pk) media fb = Some fb' \<and>
     feedback_rep media fb' (pks @ [pk])"
proof -
  have plen: "length pk = len" using len pk by simp
  consider (rr) "type_of pk = 200 \<or> type_of pk = 201" | (nack) "type_of pk = 205" "fmt_of pk = 1"
    | (other) "\<not> (type_of pk = 200 \<or> type_of pk = 201)" "\<not> (type_of pk = 205 \<and> fmt_of pk = 1)" by blast
  then show ?thesis
  proof cases
    case rr
    have blocks: "report_blocks pk = blocks_from buffer offset len (first_block pk) (unat (fmt_of pk)) 0"
      using rr plen by (auto simp: report_blocks_def blocks_from_def pk take_drop ac_simps min_def)
    have "rr_part fb = rr_of (pick_block media (concat (map report_blocks pks)))"
      using rep by (simp add: feedback_rep_def)
    from report_loop_ok [OF len(2) this, of "first_block pk" "unat (fmt_of pk)" 0] obtain fb' where
      fb': "report_loop buffer offset len (first_block pk) media (unat (fmt_of pk)) 0 fb = Some fb'"
      "rr_part fb' = rr_of (pick_block media (concat (map report_blocks pks) @ report_blocks pk))"
      "cnt_part fb' = cnt_part fb" "nack_part fb' = nack_part fb"
      unfolding blocks by blast
    have "rtcp_packet buffer offset len (fmt_of pk) (type_of pk) media fb = Some fb'"
      using rr fb'(1) by (auto simp: rtcp_packet_def rtcp_consts first_block_def Let_def)
    moreover have "feedback_rep media fb' (pks @ [pk])"
      using rr rep fb'(2,3) nack_rep_cong [OF fb'(4)]
      by (auto simp: feedback_rep_def pli_count_def fir_count_def nack_requests_def)
    ultimately show ?thesis by blast
  next
    case nack
    have "nack_rep fb (concat (map nack_requests pks))" using rep by (simp add: feedback_rep_def)
    from nack_loop_ok [OF len(2) this, of "offset + 12"] obtain fb' where
      fb': "nack_loop buffer (offset + len) (offset + 12) fb = Some fb'"
      "nack_rep fb' (concat (map nack_requests pks) @ nack_entries (take (len - 12) (drop (offset + 12) buffer)))"
      "rr_part fb' = rr_part fb" "cnt_part fb' = cnt_part fb" by auto
    have "nack_requests pk = nack_entries (take (len - 12) (drop (offset + 12) buffer))"
      using nack by (simp add: nack_requests_def pk drop_take ac_simps)
    then show ?thesis
      using nack rep fb'
      by (auto simp: rtcp_packet_def rtcp_consts feedback_rep_def pli_count_def fir_count_def report_blocks_def)
  next
    case other
    then have "nack_requests pk = []" "report_blocks pk = []"
      by (auto simp: nack_requests_def report_blocks_def)
    then show ?thesis
      using other rep
      by (auto simp: rtcp_packet_def rtcp_consts feedback_rep_def part_defs nack_rep_def pli_count_def fir_count_def)
  qed
qed

lemma rtcp_parse_loop_ok:
  assumes "feedback_rep media fb pks"
  shows "\<exists>fb'. rtcp_parse_loop buffer media offset fb = Some fb' \<and>
     feedback_rep media fb' (pks @ rtcp_split (drop offset buffer))"
  using assms
proof (induction "length buffer - offset" arbitrary: offset fb pks rule: less_induct)
  case less
  let ?b = "drop offset buffer"
  show ?case
  proof (cases "offset + 4 \<le> length buffer \<and> drop_bit 6 (buffer ! offset) = 2 \<and> offset + packet_size ?b \<le> length buffer")
    case False
    then have "rtcp_split ?b = []"
      by (cases "offset + 4 \<le> length buffer") (subst rtcp_split.simps, auto)+
    then show ?thesis using False less.prems
      by (subst rtcp_parse_loop.simps) (auto simp: packet_size_def Let_def numeral_3_eq_3)
  next
    case True
    let ?n = "packet_size ?b"
    let ?pk = "take ?n ?b"
    have size: "?n = (unat (be16 (buffer ! (offset + 2)) (buffer ! (offset + 3))) + 1) * 4"
      using True by (simp add: packet_size_def)
    have n: "4 \<le> ?n" by (simp add: packet_size_def)
    have pk: "fmt_of ?pk = buffer ! offset AND 0x1F" "type_of ?pk = buffer ! (offset + 1)"
      using True n by (simp_all add: fmt_of_def type_of_def)
    have bounds: "offset + ?n \<le> length buffer" using True by simp
    obtain fb1 where fb1: "rtcp_packet buffer offset ?n (fmt_of ?pk) (type_of ?pk) media fb = Some fb1"
      "feedback_rep media fb1 (pks @ [?pk])"
      using rtcp_packet_ok [OF less.prems n bounds refl] by blast
    have "length buffer - (offset + ?n) < length buffer - offset" using True n by auto
    from less.hyps [OF this fb1(2)] obtain fb' where fb':
      "rtcp_parse_loop buffer media (offset + ?n) fb1 = Some fb'"
      "feedback_rep media fb' ((pks @ [?pk]) @ rtcp_split (drop (offset + ?n) buffer))" by blast
    have split: "rtcp_split ?b = ?pk # rtcp_split (drop (offset + ?n) buffer)"
      by (subst rtcp_split.simps) (use True in \<open>auto simp: ac_simps\<close>)
    have "rtcp_parse_loop buffer media offset fb = rtcp_parse_loop buffer media (offset + ?n) fb1"
      using True n fb1(1) unfolding pk unfolding size
      by (subst rtcp_parse_loop.simps) (auto simp: Let_def numeral_3_eq_3)
    with fb' split show ?thesis by auto
  qed
qed

section \<open>Properties\<close>

text \<open>
  C24: for every buffer the parser returns without reading outside it, and the feedback is the
  summary of the RTCP packets it contains: PLI, FIR and BYE packets counted, the first 128
  sequence numbers requested by its generic NACKs in order (the array is never overrun), and
  the report block about our stream. When no block names our stream the feedback holds the last
  block of the compound packet, where \<open>rtcp.h\<close> promises the first.
\<close>

theorem rtcp_parse_correct:
  "\<exists>fb. rtcp_parse buffer media = Some fb \<and>
     pli fb = int (pli_count (rtcp_split buffer)) \<and> fir fb = int (fir_count (rtcp_split buffer)) \<and>
     bye fb = (\<exists>pk \<in> set (rtcp_split buffer). type_of pk = 203) \<and>
     nack_seqs fb = min RTCP_MAX_NACK_SEQS (length (concat (map nack_requests (rtcp_split buffer)))) \<and>
     length (nack_seq fb) = RTCP_MAX_NACK_SEQS \<and>
     take (nack_seqs fb) (nack_seq fb) =
       take RTCP_MAX_NACK_SEQS (concat (map nack_requests (rtcp_split buffer))) \<and>
     rr_part fb = rr_of (pick_block media (concat (map report_blocks (rtcp_split buffer))))"
  using rtcp_parse_loop_ok [OF feedback_rep_zero, of buffer media 0]
  by (auto simp: rtcp_parse_def feedback_rep_def nack_rep_def cnt_part_def rtcp_consts)

text \<open>
  When no report block is about our stream the feedback holds the last block of the
  compound packet: with two foreign blocks the second one wins.
\<close>

theorem rtcp_parse_keeps_last_block:
  "map_option (\<lambda>fb. (has_rr fb, rr_ssrc fb))
     (rtcp_parse ([0x82, 201, 0, 13, 0, 0, 0, 9] @ [0, 0, 0, 1] @ replicate 20 0 @ [0, 0, 0, 2] @ replicate 20 0) 5)
   = Some (True, 2)"
proof -
  let ?b = "[0x82, 201, 0, 13, 0, 0, 0, 9] @ [0, 0, 0, 1] @ replicate 20 0 @ [0, 0, 0, 2] @ replicate 20 0 :: bytes"
  have size: "packet_size ?b = 56" "packet_size [] = (unat (be16 ([] ! 2) ([] ! 3)) + 1) * 4"
    by (simp_all add: packet_size_def be16_def)
  have split: "rtcp_split ?b = [?b]"
    using size by (subst rtcp_split.simps) (simp add: rtcp_split.simps drop_bit_eq_div)
  have "fmt_of ?b = 2" "type_of ?b = 201" by (simp_all add: fmt_of_def type_of_def)
  then have blocks: "report_blocks ?b = [[0, 0, 0, 1] @ replicate 20 0, [0, 0, 0, 2] @ replicate 20 0]"
    by (simp add: report_blocks_def first_block_def upt_rec)
  have "pick_block 5 (concat (map report_blocks (rtcp_split ?b))) = Some ([0, 0, 0, 2] @ replicate 20 0)"
    unfolding split using blocks by (simp add: pick_block_def be32_at_def be32_def)
  with rtcp_parse_loop_ok [OF feedback_rep_zero, of ?b 5 0] show ?thesis
    by (auto simp: rtcp_parse_def feedback_rep_def rr_part_def rr_of_def be32_at_def be32_def)
qed

definition sr_bytes :: "u32 \<Rightarrow> u32 \<Rightarrow> u32 \<Rightarrow> u32 \<Rightarrow> u32 \<Rightarrow> u32 \<Rightarrow> bytes" where
  "sr_bytes ssrc msw lsw ts pc oc = [0x80, 200, 0, 6] @ be32_bytes ssrc @ be32_bytes msw @ be32_bytes lsw @
     be32_bytes ts @ be32_bytes pc @ be32_bytes oc"

lemma ntp_fraction:
  "unat (ucast (push_bit 32 (us mod 1000000) div 1000000 :: u64) :: u32) = (unat us mod 1000000) * 2 ^ 32 div 1000000"
proof -
  have m: "unat (us mod 1000000) = unat us mod 1000000" by (simp add: unat_mod)
  have lt: "unat us mod 1000000 < 1000000" by simp
  have "unat (push_bit 32 (us mod 1000000)) = (unat us mod 1000000) * 2 ^ 32"
    using lt m by (simp add: push_bit_eq_mult unat_word_ariths)
  then have "unat (push_bit 32 (us mod 1000000) div 1000000 :: u64) = (unat us mod 1000000) * 2 ^ 32 div 1000000"
    by (simp add: unat_div)
  moreover have "(unat us mod 1000000) * 2 ^ 32 div 1000000 < 2 ^ 32"
    using lt by (simp add: div_less_iff_less_mult)
  ultimately show ?thesis by (simp add: unsigned_ucast_eq take_bit_nat_def)
qed

text \<open>
  A sender report is written inside the 28 bytes of its buffer and carries the stream
  identity, the counters and the wall clock as NTP time: whole seconds since 1900 modulo
  \<open>2 ^ 32\<close> and the fraction of a second rounded down to \<open>2 ^ - 32\<close>.
\<close>

theorem rtcp_sender_report_correct:
  assumes "RTCP_SR_SIZE \<le> length out"
  shows "\<exists>msw lsw. rtcp_build_sender_report out ssrc us ts pc oc =
       Some (RTCP_SR_SIZE, sr_bytes ssrc msw lsw ts pc oc @ drop RTCP_SR_SIZE out) \<and>
     unat msw = (unat us div 1000000 + 2208988800) mod 2 ^ 32 \<and>
     unat lsw = (unat us mod 1000000) * 2 ^ 32 div 1000000"
proof -
  let ?msw = "ucast ((us div 1000000 + 2208988800) AND 0xFFFFFFFF) :: u32"
  let ?lsw = "ucast (push_bit 32 (us mod 1000000) div 1000000) :: u32"
  have six: "be16_bytes 6 = [0, 6]" by (simp add: be16_bytes_def)
  have run: "rtcp_build_sender_report out ssrc us ts pc oc =
      Option.bind (memcpy_to out 0 (sr_bytes ssrc ?msw ?lsw ts pc oc)) (\<lambda>out. Some (RTCP_SR_SIZE, out))"
    unfolding rtcp_build_sender_report_def Let_def wr_memcpy write_be16_def write_be32_def six
    by (simp add: memcpy_chain sr_bytes_def rtcp_consts del: memcpy_to_in)
  have "unat ?msw = (unat us div 1000000 + 2208988800) mod 2 ^ 32"
  proof -
    have "(us div 1000000 + 2208988800) AND 0xFFFFFFFF = take_bit 32 (us div 1000000 + 2208988800)"
      by (simp add: take_bit_eq_mask mask_eq_exp_minus_1)
    moreover have "unat us div 1000000 < 2 ^ 64 - 2208988800"
      using unsigned_less [of us, where 'a = nat] by (simp add: div_less_iff_less_mult)
    then have "unat (us div 1000000 + 2208988800) = unat us div 1000000 + 2208988800"
      by (simp add: unat_word_ariths unat_div)
    ultimately show ?thesis by (simp add: unsigned_ucast_eq unsigned_take_bit_eq take_bit_nat_def)
  qed
  moreover have "length (sr_bytes ssrc ?msw ?lsw ts pc oc) = 28" by (simp add: sr_bytes_def)
  ultimately show ?thesis using run assms ntp_fraction [of us] by (fastforce simp: rtcp_consts)
qed

theorem rtcp_sender_report_witness:
  "\<exists>msw lsw out. rtcp_build_sender_report (replicate 28 0) 7 1500000 90 1 100 = Some (28, out) \<and>
     out = sr_bytes 7 msw lsw 90 1 100 \<and> unat msw = 2208988801 \<and> unat lsw = 2 ^ 31"
  using rtcp_sender_report_correct [of "replicate 28 0" 7 1500000 90 1 100] by (simp add: rtcp_consts)

text \<open>
  The round trip time of a consistent report is the elapsed time since the sender report
  minus the peer's delay, rounded to the nearest millisecond, also across the wrap-around of
  the compact NTP clock; it is unknown (-1) before the first report and for a report more
  than 10 ms in the future.
\<close>

theorem rtcp_rtt_ms_correct:
  assumes "lsr \<noteq> 0" "d < 2 ^ 31"
  shows "rtcp_rtt_ms (lsr + dlsr + of_nat d) lsr dlsr = (int d * 1000 + 32768) div 65536 \<and>
     rtcp_rtt_ms now 0 dlsr = -1 \<and>
     (655 \<le> d \<longrightarrow> rtcp_rtt_ms (lsr + dlsr - of_nat d) lsr dlsr = -1) \<and>
     (0 < d \<and> d < 655 \<longrightarrow> rtcp_rtt_ms (lsr + dlsr - of_nat d) lsr dlsr = 0)"
proof -
  have signed: "sint (of_int k :: u32) = k" if "- (2 ^ 31) \<le> k" "k < 2 ^ 31" for k
    using that by (simp add: signed_of_int signed_take_bit_int_eq_self)
  have pos: "sint (of_nat d :: u32) = int d" using signed [of "int d"] assms(2) by simp
  have neg: "sint (- of_nat d :: u32) = - int d" using signed [of "- int d"] assms(2) by simp
  have "lsr + dlsr + of_nat d - lsr - dlsr = of_nat d" "lsr + dlsr - of_nat d - lsr - dlsr = - of_nat d" by simp_all
  then show ?thesis using assms pos neg by (simp add: rtcp_rtt_ms_def Let_def)
qed

theorem rtcp_rtt_ms_witness: "rtcp_rtt_ms (0xFFFFFFF0 + 0x20 + 65536) 0xFFFFFFF0 0x20 = 1000"
  using rtcp_rtt_ms_correct [of "0xFFFFFFF0" 65536 "0x20"] by simp

end
