(* ===== verification/Sdp.thy ===== *)
theory Sdp
  imports C_String
begin

text \<open>
  SDP of the send-only video path (\<open>src/src/webrtc/sdp.c\<close>): the line iterator, the offer
  parser with its choice of an H264 format, and the answer generator. Character arrays of the
  structs are strings shorter than the array; stores into the fixed arrays \<open>mlines\<close> and \<open>h264\<close>
  are checked (\<open>None\<close> is an access out of bounds). A rejected offer is a value of \<open>SdpError\<close>
  with the message of the code.
\<close>

section \<open>Data\<close>

definition SDP_LINE_MAX :: nat where "SDP_LINE_MAX = 512"
definition SDP_MAX_MLINES :: nat where "SDP_MAX_MLINES = 8"
definition SDP_MAX_H264 :: nat where "SDP_MAX_H264 = 16"

lemmas sdp_consts = SDP_LINE_MAX_def SDP_MAX_MLINES_def SDP_MAX_H264_def

record SdpMediaLine =
  kind :: string
  proto :: string
  fmt :: string
  mid :: string

record SdpH264Format =
  payload_type :: int
  packetization_mode :: int
  profile_level_id :: string

record SdpOffer =
  ice_ufrag :: string
  ice_pwd :: string
  fingerprint :: string
  setup_role :: string
  video_mid :: string
  mlines :: "SdpMediaLine list"
  mline_count :: nat
  video_mline :: int
  h264 :: "SdpH264Format list"
  h264_count :: nat
  h264_payload_type :: int
  h264_profile_level_id :: string

record ParseContext =
  offer :: SdpOffer
  have_ufrag :: bool
  have_pwd :: bool
  have_fingerprint :: bool
  too_many_mlines :: bool

record SdpAnswerConfig =
  cfg_fingerprint :: string
  cfg_ice_ufrag :: string
  cfg_ice_pwd :: string
  candidate_ips :: "string option list"
  udp_port :: u16
  cfg_ssrc :: u32

datatype SdpError =
    TooManyMediaSections
  | NoIceCredentials
  | NoFingerprint
  | NoVideoSection
  | NoBaselineH264 nat
  | NoH264
  | SetupPassive

definition empty_mline :: SdpMediaLine where
  "empty_mline = \<lparr>kind = [], proto = [], fmt = [], mid = []\<rparr>"

definition empty_format :: SdpH264Format where
  "empty_format = \<lparr>payload_type = 0, packetization_mode = 0, profile_level_id = []\<rparr>"

section \<open>Lines\<close>

definition copy_value :: "string \<Rightarrow> string \<Rightarrow> string \<Rightarrow> nat \<Rightarrow> string" where
  "copy_value line pre out out_size =
     (if \<not> prefix pre line then out
      else fit out_size (takeWhile (\<lambda>c. c \<noteq> CR \<and> c \<noteq> LF) (drop (length pre) line)))"

text \<open>The second inner loop: carriage returns and line feeds at the end of the line go.\<close>

definition strip_eol :: "string \<Rightarrow> string" where
  "strip_eol s = rev (dropWhile (\<lambda>c. c = CR \<or> c = LF) (rev s))"

function sdp_for_each_line ::
  "string \<Rightarrow> (string \<Rightarrow> int \<Rightarrow> 's \<Rightarrow> 's option) \<Rightarrow> int \<Rightarrow> 's \<Rightarrow> 's option" where
  "sdp_for_each_line sdp visit media user =
     (if sdp = [] then Some user
      else do {
        let raw = takeWhile (\<lambda>c. c \<noteq> LF) sdp;
        let next = drop (length raw + 1) sdp;
        let line = strip_eol raw;
        if length line \<ge> SDP_LINE_MAX then sdp_for_each_line next visit media user
        else do {
          let line = c_str line;
          let media = (if prefix ''m='' line then media + 1 else media);
          user \<leftarrow> visit line media user;
          sdp_for_each_line next visit media user } })"
  by pat_completeness auto
termination
  by (relation "measure (\<lambda>(sdp, visit, media, user). length sdp)") auto

declare sdp_for_each_line.simps [simp del]

fun copy_token :: "string \<Rightarrow> nat \<Rightarrow> nat \<Rightarrow> string" where
  "copy_token s n out_size =
     (if s = [] then []
      else
        (let s = dropWhile (\<lambda>c. c = CHR '' '') s; len = strcspn s '' '' in
         case n of
           0 \<Rightarrow> fit out_size (take len s)
         | Suc m \<Rightarrow> copy_token (drop len s) m out_size))"

declare copy_token.simps [simp del]

section \<open>H264 formats\<close>

fun find_format :: "SdpH264Format list \<Rightarrow> int \<Rightarrow> nat option" where
  "find_format [] pt = None"
| "find_format (f # fs) pt = (if payload_type f = pt then Some 0 else map_option Suc (find_format fs pt))"

definition h264_format :: "SdpOffer \<Rightarrow> int \<Rightarrow> nat option" where
  "h264_format off pt = find_format (take (h264_count off) (h264 off)) pt"

function parse_h264_fmtp :: "SdpH264Format \<Rightarrow> string \<Rightarrow> SdpH264Format" where
  "parse_h264_fmtp format params =
     (if params = [] then format
      else
        (let params = dropWhile (\<lambda>c. c = CHR '' '' \<or> c = CHR '';'') params;
             len = strcspn params '';'';
             format =
               (if prefix ''packetization-mode='' params
                then format\<lparr>packetization_mode := atoi (drop 19 params)\<rparr>
                else if prefix ''profile-level-id='' params \<and> len = 17 + 6
                then format\<lparr>profile_level_id := take 6 (drop 17 params)\<rparr>
                else format)
         in parse_h264_fmtp format (drop len params)))"
  by pat_completeness auto
termination
proof (relation "measure (\<lambda>(format, params). length params)", goal_cases)
  case (2 format params p len f)
  let ?P = "\<lambda>c. c = CHR '' '' \<or> c = CHR '';''"
  have le: "length p \<le> length params" using 2 by (simp add: length_dropWhile_le)
  show ?case
  proof (cases "p = []")
    case True
    then show ?thesis using 2(1) by simp
  next
    case False
    then have "\<not> ?P (hd p)" using 2(2) hd_dropWhile [of ?P params] by simp
    then have "0 < len" using False 2(3) by (cases p) (auto simp: strcspn_def)
    then show ?thesis using le False by (cases p) auto
  qed
qed simp

declare parse_h264_fmtp.simps [simp del]

definition h264_rank :: "SdpH264Format \<Rightarrow> nat" where
  "h264_rank format =
     (if packetization_mode format \<noteq> 1 then 0
      else
        (let plid = profile_level_id format in
         if plid = [] then 1
         else
           (let v = strtoul16 plid;
                profile_idc = drop_bit 16 v AND 0xFF;
                iop = drop_bit 8 v AND 0xFF
            in if profile_idc = 0x42 \<or> (profile_idc = 0x4D \<and> iop AND 0x80 \<noteq> 0)
               then (if iop AND 0x40 \<noteq> 0 then 3 else 2)
               else 0)))"

fun choose_loop :: "SdpH264Format list \<Rightarrow> nat \<Rightarrow> SdpOffer \<Rightarrow> SdpOffer" where
  "choose_loop [] best_rank off = off"
| "choose_loop (f # fs) best_rank off =
     (let rank = h264_rank f in
      if rank > best_rank
      then choose_loop fs rank
             (off\<lparr>h264_payload_type := payload_type f,
                  h264_profile_level_id := fit 8 (profile_level_id f)\<rparr>)
      else choose_loop fs best_rank off)"

definition choose_h264 :: "SdpOffer \<Rightarrow> SdpOffer" where
  "choose_h264 off = choose_loop (take (h264_count off) (h264 off)) 0 off"

section \<open>The offer parser\<close>

definition visit_mline :: "string \<Rightarrow> int \<Rightarrow> ParseContext \<Rightarrow> ParseContext option" where
  "visit_mline line media ctx =
     (if media \<ge> int SDP_MAX_MLINES then Some (ctx\<lparr>too_many_mlines := True\<rparr>)
      else if media < 0 then None
      else do {
        let off = offer ctx;
        m \<leftarrow> rd (mlines off) (nat media);
        let m = m\<lparr>kind := copy_token (drop 2 line) 0 16, proto := copy_token (drop 2 line) 2 32,
                  fmt := copy_token (drop 2 line) 3 32\<rparr>;
        ms \<leftarrow> wr (mlines off) (nat media) m;
        let off = off\<lparr>mlines := ms, mline_count := nat media + 1\<rparr>;
        let off = (if video_mline off < 0 \<and> kind m = ''video'' then off\<lparr>video_mline := media\<rparr> else off);
        Some (ctx\<lparr>offer := off\<rparr>) })"

definition visit_mid :: "string \<Rightarrow> int \<Rightarrow> SdpOffer \<Rightarrow> SdpOffer option" where
  "visit_mid line media off = do {
     m \<leftarrow> rd (mlines off) (nat media);
     ms \<leftarrow> wr (mlines off) (nat media) (m\<lparr>mid := copy_value line ''a=mid:'' (mid m) 24\<rparr>);
     let off = off\<lparr>mlines := ms\<rparr>;
     Some (if media = video_mline off
           then off\<lparr>video_mid := copy_value line ''a=mid:'' (video_mid off) 24\<rparr> else off) }"

definition visit_rtpmap :: "string \<Rightarrow> SdpOffer \<Rightarrow> SdpOffer option" where
  "visit_rtpmap line off =
     (let pt = atoi (drop 9 line) in
      if pt > 0 \<and> pt < 128 \<and> h264_count off < SDP_MAX_H264 \<and> h264_format off pt = None then do {
        fs \<leftarrow> wr (h264 off) (h264_count off) (empty_format\<lparr>payload_type := pt\<rparr>);
        Some (off\<lparr>h264 := fs, h264_count := h264_count off + 1\<rparr>) }
      else Some off)"

definition visit_fmtp :: "string \<Rightarrow> SdpOffer \<Rightarrow> SdpOffer option" where
  "visit_fmtp line off =
     (case (h264_format off (atoi (drop 7 line)), strchr line (CHR '' '')) of
        (Some i, Some params) \<Rightarrow> do {
          f \<leftarrow> rd (h264 off) i;
          fs \<leftarrow> wr (h264 off) i (parse_h264_fmtp f (drop 1 params));
          Some (off\<lparr>h264 := fs\<rparr>) }
      | _ \<Rightarrow> Some off)"

definition parse_visit :: "string \<Rightarrow> int \<Rightarrow> ParseContext \<Rightarrow> ParseContext option" where
  "parse_visit line media ctx =
     (let off = offer ctx in
      if prefix ''m='' line then visit_mline line media ctx
      else if prefix ''a=ice-ufrag:'' line then
        Some (ctx\<lparr>offer := off\<lparr>ice_ufrag := copy_value line ''a=ice-ufrag:'' (ice_ufrag off) 80\<rparr>, have_ufrag := True\<rparr>)
      else if prefix ''a=ice-pwd:'' line then
        Some (ctx\<lparr>offer := off\<lparr>ice_pwd := copy_value line ''a=ice-pwd:'' (ice_pwd off) 128\<rparr>, have_pwd := True\<rparr>)
      else if prefix ''a=fingerprint:'' line then
        Some (ctx\<lparr>offer := off\<lparr>fingerprint := copy_value line ''a=fingerprint:'' (fingerprint off) 128\<rparr>,
                  have_fingerprint := True\<rparr>)
      else if prefix ''a=setup:'' line then
        Some (ctx\<lparr>offer := off\<lparr>setup_role := copy_value line ''a=setup:'' (setup_role off) 24\<rparr>\<rparr>)
      else if media \<ge> 0 \<and> media < int SDP_MAX_MLINES then do {
        off \<leftarrow> (if prefix ''a=mid:'' line then visit_mid line media off
               else if media = video_mline off \<and> prefix ''a=rtpmap:'' line \<and> strstr line '' H264/90000''
               then visit_rtpmap line off
               else if media = video_mline off \<and> prefix ''a=fmtp:'' line then visit_fmtp line off
               else Some off);
        Some (ctx\<lparr>offer := off\<rparr>) }
      else Some ctx)"

definition empty_offer :: SdpOffer where
  "empty_offer = \<lparr>ice_ufrag = [], ice_pwd = [], fingerprint = [], setup_role = [], video_mid = [],
     mlines = replicate SDP_MAX_MLINES empty_mline, mline_count = 0, video_mline = -1,
     h264 = replicate SDP_MAX_H264 empty_format, h264_count = 0, h264_payload_type = -1,
     h264_profile_level_id = []\<rparr>"

definition empty_context :: ParseContext where
  "empty_context = \<lparr>offer = empty_offer, have_ufrag = False, have_pwd = False, have_fingerprint = False,
     too_many_mlines = False\<rparr>"

text \<open>The checks behind the line loop; the offer is filled in also when it is rejected.\<close>

definition check_offer :: "ParseContext \<Rightarrow> SdpError option \<times> SdpOffer" where
  "check_offer ctx =
     (let off = offer ctx in
      if too_many_mlines ctx then (Some TooManyMediaSections, off)
      else if \<not> have_ufrag ctx \<or> \<not> have_pwd ctx then (Some NoIceCredentials, off)
      else if \<not> have_fingerprint ctx then (Some NoFingerprint, off)
      else if video_mline off < 0 then (Some NoVideoSection, off)
      else
        (let off = choose_h264 off in
         if h264_payload_type off < 0 then
           (Some (if h264_count off > 0 then NoBaselineH264 (h264_count off) else NoH264), off)
         else
           (let off = (if setup_role off = [] then off\<lparr>setup_role := ''actpass''\<rparr> else off) in
            if setup_role off = ''passive'' then (Some SetupPassive, off)
            else (None, off))))"

definition error_message :: "SdpError \<Rightarrow> string" where
  "error_message e = (case e of
       TooManyMediaSections \<Rightarrow> ''offer has more than 8 media sections''
     | NoIceCredentials \<Rightarrow> ''offer has no ICE credentials (a=ice-ufrag/a=ice-pwd)''
     | NoFingerprint \<Rightarrow> ''offer has no DTLS fingerprint (a=fingerprint)''
     | NoVideoSection \<Rightarrow> ''offer has no video media section '' @
         ''(the page must add a recvonly video transceiver)''
     | NoBaselineH264 n \<Rightarrow> ''offer has H264 but no packetization-mode=1 '' @
         ''baseline profile ('' @ show_nat n @ '' H264 formats offered)''
     | NoH264 \<Rightarrow> ''offer advertises no H264/90000 video codec (browser '' @ ''without H264 support?)''
     | SetupPassive \<Rightarrow> ''offer requests setup:passive; camstream always answers '' @
         ''setup:passive and needs a DTLS client'')"

text \<open>\<open>fail\<close>: the message through its 256 byte buffer into the caller's.\<close>

definition fail :: "SdpError \<Rightarrow> nat \<Rightarrow> string" where
  "fail e reason_size = fit reason_size (fit 256 (error_message e))"

definition parse_text :: "string \<Rightarrow> (SdpError option \<times> SdpOffer) option" where
  "parse_text sdp = do {
     ctx \<leftarrow> sdp_for_each_line sdp parse_visit (-1) empty_context;
     Some (check_offer ctx) }"

text \<open>The result: the return value, the offer and the reason (\<open>None\<close> when it is not written).\<close>

definition sdp_parse_offer ::
  "string option \<Rightarrow> SdpOffer option \<Rightarrow> nat option \<Rightarrow> (int \<times> SdpOffer option \<times> string option) option" where
  "sdp_parse_offer sdp dst reason_size =
     (case (sdp, dst) of
        (Some s, Some _) \<Rightarrow> do {
          (e, off) \<leftarrow> parse_text s;
          Some (case e of
              None \<Rightarrow> (0, Some off, None)
            | Some err \<Rightarrow> (-1, Some off,
                case reason_size of None \<Rightarrow> None | Some n \<Rightarrow> if n > 0 then Some (fail err n) else None)) }
      | _ \<Rightarrow> Some (-1, dst, None))"

section \<open>The answer\<close>

text \<open>\<open>out\<close> is the text written so far; the \<open>offset\<close> is \<open>limit\<close> once something did not fit.\<close>

definition append_fmt :: "nat \<Rightarrow> string \<Rightarrow> string \<times> nat \<Rightarrow> string \<times> nat" where
  "append_fmt limit s st =
     (case st of (out, offset) \<Rightarrow>
        if offset \<ge> limit then (out, limit)
        else (take offset out @ fit (limit - offset) s, min (offset + length s) limit))"

definition text_lines :: "string list \<Rightarrow> string" where
  "text_lines ls = concat (map (\<lambda>l. l @ crlf) ls)"

definition or_default :: "string \<Rightarrow> string \<Rightarrow> string" where
  "or_default s d = (if s \<noteq> [] then s else d)"

definition session_lines :: "SdpOffer \<Rightarrow> SdpAnswerConfig \<Rightarrow> string \<Rightarrow> string list" where
  "session_lines off cfg address =
     [''v=0'', ''o=- 1 1 IN IP4 '' @ address, ''s=camstream'', ''t=0 0'', ''a=ice-lite'',
      ''a=group:BUNDLE '' @ or_default (video_mid off) ''video'', ''a=msid-semantic: WMS camstream'',
      ''a=fingerprint:'' @ cfg_fingerprint cfg, ''a=setup:passive'', ''a=ice-ufrag:'' @ cfg_ice_ufrag cfg,
      ''a=ice-pwd:'' @ cfg_ice_pwd cfg]"

definition rejected_lines :: "SdpMediaLine \<Rightarrow> string list" where
  "rejected_lines line =
     [''m='' @ or_default (kind line) ''audio'' @ '' 0 '' @ or_default (proto line) ''UDP/TLS/RTP/SAVPF'' @ '' '' @
        or_default (fmt line) ''0'',
      ''c=IN IP4 0.0.0.0'', ''a=inactive'']"

definition video_lines :: "SdpOffer \<Rightarrow> SdpAnswerConfig \<Rightarrow> string \<Rightarrow> string list" where
  "video_lines off cfg address =
     (let pt = show_int (h264_payload_type off); ss = show_nat (unat (cfg_ssrc cfg)) in
      [''m=video 9 UDP/TLS/RTP/SAVPF '' @ pt, ''c=IN IP4 '' @ address,
       ''a=mid:'' @ or_default (video_mid off) ''video'', ''a=ice-ufrag:'' @ cfg_ice_ufrag cfg,
       ''a=ice-pwd:'' @ cfg_ice_pwd cfg, ''a=fingerprint:'' @ cfg_fingerprint cfg, ''a=setup:passive'',
       ''a=sendonly'', ''a=rtcp-mux'', ''a=msid:camstream camstream-video'',
       ''a=ssrc:'' @ ss @ '' cname:camstream'', ''a=ssrc:'' @ ss @ '' msid:camstream camstream-video'',
       ''a=rtpmap:'' @ pt @ '' H264/90000'',
       ''a=fmtp:'' @ pt @ '' level-asymmetry-allowed=1;packetization-mode=1;profile-level-id='' @
         or_default (h264_profile_level_id off) ''42e01f'',
       ''a=rtcp-fb:'' @ pt @ '' nack'', ''a=rtcp-fb:'' @ pt @ '' nack pli'', ''a=rtcp-fb:'' @ pt @ '' ccm fir''])"

definition candidate_line :: "nat \<Rightarrow> u32 \<Rightarrow> string \<Rightarrow> u16 \<Rightarrow> string" where
  "candidate_line foundation priority ip port =
     ''a=candidate:'' @ show_nat foundation @ '' 1 udp '' @ show_nat (unat priority) @ '' '' @ ip @ '' '' @
       show_nat (unat port) @ '' typ host generation 0''"

fun candidate_loop ::
  "nat \<Rightarrow> string \<Rightarrow> u16 \<Rightarrow> nat \<Rightarrow> string option list \<Rightarrow> string \<times> nat \<Rightarrow> string \<times> nat" where
  "candidate_loop limit address port i [] st = st"
| "candidate_loop limit address port i (None # ips) st = candidate_loop limit address port (i + 1) ips st"
| "candidate_loop limit address port i (Some ip # ips) st =
     (if ip = [] \<or> ip = address then candidate_loop limit address port (i + 1) ips st
      else candidate_loop limit address port (i + 1) ips
             (append_fmt limit
                (text_lines [candidate_line (i + 1) (2130706431 - of_nat i * 10) ip port]) st))"

fun section_loop ::
  "nat \<Rightarrow> SdpOffer \<Rightarrow> SdpAnswerConfig \<Rightarrow> string \<Rightarrow> nat \<Rightarrow> nat \<Rightarrow> string \<times> nat \<Rightarrow> (string \<times> nat) option" where
  "section_loop limit off cfg address m 0 st = Some st"
| "section_loop limit off cfg address m (Suc n) st =
     (if mline_count off > 0 \<and> int m \<noteq> video_mline off then do {
        line \<leftarrow> rd (mlines off) m;
        let st = append_fmt limit (text_lines (rejected_lines line)) st;
        let st = (if mid line \<noteq> [] then append_fmt limit (text_lines [''a=mid:'' @ mid line]) st else st);
        section_loop limit off cfg address (m + 1) n st }
      else
        (let st = append_fmt limit (text_lines (video_lines off cfg address)) st;
             st = append_fmt limit (text_lines [candidate_line 1 2130706431 address (udp_port cfg)]) st;
             st = candidate_loop limit address (udp_port cfg) 1 (tl (candidate_ips cfg)) st;
             st = append_fmt limit (text_lines [''a=end-of-candidates'']) st
         in section_loop limit off cfg address (m + 1) n st))"

text \<open>The result: the returned length and the text in \<open>out\<close> (\<open>candidate_ips\<close> has \<open>candidate_count\<close> entries).\<close>

definition sdp_build_answer ::
  "SdpOffer option \<Rightarrow> SdpAnswerConfig option \<Rightarrow> string option \<Rightarrow> nat \<Rightarrow> (nat \<times> string option) option" where
  "sdp_build_answer offer_p config out_p out_capacity =
     (case (offer_p, config, out_p) of
        (Some off, Some cfg, Some _) \<Rightarrow>
          (case candidate_ips cfg of
             Some address # _ \<Rightarrow>
               if out_capacity = 0 then Some (0, out_p)
               else do {
                 let st = append_fmt out_capacity (text_lines (session_lines off cfg address)) ([], 0);
                 let sections = (if mline_count off > 0 then mline_count off else 1);
                 (out, offset) \<leftarrow> section_loop out_capacity off cfg address 0 sections st;
                 if offset \<ge> out_capacity then Some (0, Some []) else Some (offset, Some out) }
           | _ \<Rightarrow> Some (0, out_p))
      | _ \<Rightarrow> Some (0, out_p))"

section \<open>The lines of a text\<close>

function sdp_lines :: "string \<Rightarrow> string list" where
  "sdp_lines sdp =
     (if sdp = [] then []
      else
        (let raw = takeWhile (\<lambda>c. c \<noteq> LF) sdp; line = strip_eol raw; rest = sdp_lines (drop (length raw + 1) sdp)
         in if length line < 512 then c_str line # rest else rest))"
  by pat_completeness auto
termination
  by (relation "measure length") auto

declare sdp_lines.simps [simp del]

fun run_lines :: "string list \<Rightarrow> (string \<Rightarrow> int \<Rightarrow> 's \<Rightarrow> 's option) \<Rightarrow> int \<Rightarrow> 's \<Rightarrow> 's option" where
  "run_lines [] visit media user = Some user"
| "run_lines (l # ls) visit media user =
     (let media = (if prefix ''m='' l then media + 1 else media) in
      Option.bind (visit l media user) (run_lines ls visit media))"

lemma for_each_line_run: "sdp_for_each_line sdp visit media user = run_lines (sdp_lines sdp) visit media user"
proof (induction "length sdp" arbitrary: sdp media user rule: less_induct)
  case less
  show ?case
  proof (cases "sdp = []")
    case True
    then show ?thesis by (simp add: sdp_for_each_line.simps sdp_lines.simps)
  next
    case False
    let ?rest = "drop (length (takeWhile (\<lambda>c. c \<noteq> LF) sdp) + 1) sdp"
    have IH: "sdp_for_each_line ?rest visit m = run_lines (sdp_lines ?rest) visit m" for m
      using less [of ?rest] False by (intro ext) simp
    show ?thesis using False IH
      by (subst sdp_for_each_line.simps, subst sdp_lines.simps) (simp add: Let_def sdp_consts)
  qed
qed

lemma takeWhile_line: "LF \<notin> set l \<Longrightarrow> takeWhile (\<lambda>c. c \<noteq> LF) (l @ LF # r) = l"
  by (induction l) auto

lemma strip_eol_cr: "strip_eol (l @ [CR]) = strip_eol l"
  by (simp add: strip_eol_def)

text \<open>A text made of lines splits into these lines.\<close>

lemma sdp_lines_text:
  "\<forall>l \<in> set ls. LF \<notin> set l \<Longrightarrow>
     sdp_lines (text_lines ls) = map c_str (filter (\<lambda>l. length l < 512) (map strip_eol ls))"
proof (induction ls)
  case Nil
  then show ?case by (simp add: text_lines_def sdp_lines.simps)
next
  case (Cons l ls)
  have eq: "text_lines (l # ls) = (l @ [CR]) @ LF # text_lines ls" by (simp add: text_lines_def crlf_def)
  have "LF \<notin> set (l @ [CR])" using Cons.prems by (simp add: CR_def LF_def)
  then have tw: "takeWhile (\<lambda>c. c \<noteq> LF) (text_lines (l # ls)) = l @ [CR]"
    unfolding eq by (rule takeWhile_line)
  have "drop (length (l @ [CR]) + 1) (text_lines (l # ls)) = text_lines ls" unfolding eq by simp
  then show ?case using Cons tw
    by (subst sdp_lines.simps) (simp add: strip_eol_cr Let_def eq)
qed

lemma strip_eol_subset: "set (strip_eol l) \<subseteq> set l"
  using set_dropWhile_subset [of _ "rev l"] by (simp add: strip_eol_def)

lemma sdp_lines_no_lf: "l \<in> set (sdp_lines s) \<Longrightarrow> LF \<notin> set l"
proof (induction s rule: sdp_lines.induct)
  case (1 s)
  let ?raw = "takeWhile (\<lambda>c. c \<noteq> LF) s"
  have "LF \<notin> set (c_str (strip_eol ?raw))"
    using set_c_str(1) [of "strip_eol ?raw"] strip_eol_subset [of ?raw] by (auto dest: set_takeWhileD)
  then show ?case using 1 by (subst (asm) sdp_lines.simps) (auto simp: Let_def split: if_splits)
qed

section \<open>The offer stays well formed\<close>

definition str_ok :: "nat \<Rightarrow> string \<Rightarrow> bool" where
  "str_ok n s \<longleftrightarrow> length s < n \<and> LF \<notin> set s"

definition mline_ok :: "SdpMediaLine \<Rightarrow> bool" where
  "mline_ok m \<longleftrightarrow> str_ok 16 (kind m) \<and> str_ok 32 (proto m) \<and> str_ok 32 (fmt m) \<and> str_ok 24 (mid m)"

definition formats :: "SdpOffer \<Rightarrow> SdpH264Format list" where
  "formats off = take (h264_count off) (h264 off)"

definition format_ok :: "SdpH264Format \<Rightarrow> bool" where
  "format_ok f \<longleftrightarrow> 1 \<le> payload_type f \<and> payload_type f < 128 \<and> str_ok 8 (profile_level_id f)"

definition offer_ok :: "SdpOffer \<Rightarrow> bool" where
  "offer_ok off \<longleftrightarrow>
     str_ok 80 (ice_ufrag off) \<and> str_ok 128 (ice_pwd off) \<and> str_ok 128 (fingerprint off) \<and>
     str_ok 24 (setup_role off) \<and> str_ok 24 (video_mid off) \<and> str_ok 8 (h264_profile_level_id off) \<and>
     length (mlines off) = SDP_MAX_MLINES \<and> list_all mline_ok (mlines off) \<and> mline_count off \<le> SDP_MAX_MLINES \<and>
     length (h264 off) = SDP_MAX_H264 \<and> h264_count off \<le> SDP_MAX_H264 \<and>
     list_all format_ok (formats off) \<and> distinct (map payload_type (formats off)) \<and>
     - 1 \<le> video_mline off \<and> video_mline off < int (mline_count off) \<and>
     (0 \<le> video_mline off \<longrightarrow> kind (mlines off ! nat (video_mline off)) = ''video'')"

definition ctx_ok :: "int \<Rightarrow> ParseContext \<Rightarrow> bool" where
  "ctx_ok media ctx \<longleftrightarrow> -1 \<le> media \<and> offer_ok (offer ctx) \<and> int (mline_count (offer ctx)) = min 8 (media + 1) \<and>
     h264_payload_type (offer ctx) = -1"

lemma copy_value_ok: "str_ok n out \<Longrightarrow> 0 < n \<Longrightarrow> str_ok n (copy_value line pre out n)"
proof -
  assume a: "str_ok n out" "0 < n"
  have "LF \<notin> set (takeWhile (\<lambda>c. c \<noteq> CR \<and> c \<noteq> LF) xs)" for xs by (auto dest: set_takeWhileD)
  then have "LF \<notin> set (fit n (takeWhile (\<lambda>c. c \<noteq> CR \<and> c \<noteq> LF) xs))" for xs using set_fit by blast
  then show ?thesis using a length_fit by (simp add: copy_value_def str_ok_def)
qed

lemma copy_token_ok: "LF \<notin> set s \<Longrightarrow> 0 < sz \<Longrightarrow> str_ok sz (copy_token s n sz)"
proof (induction s n sz rule: copy_token.induct)
  case (1 s n sz)
  let ?s = "dropWhile (\<lambda>c. c = CHR '' '') s"
  have s: "LF \<notin> set ?s" using 1(2) set_dropWhile_subset by fast
  show ?case
  proof (cases "s = []")
    case True
    then show ?thesis using 1(3) by (simp add: copy_token.simps str_ok_def)
  next
    case False
    show ?thesis
    proof (cases n)
      case 0
      have "LF \<notin> set (fit sz (take (strcspn ?s '' '') ?s))"
        using s set_fit set_take_subset by (metis subsetD)
      then show ?thesis using False 0 1(3) length_fit [OF 1(3)] by (simp add: copy_token.simps str_ok_def Let_def)
    next
      case (Suc m)
      have "LF \<notin> set (drop (strcspn ?s '' '') ?s)" using s set_drop_subset by fast
      then show ?thesis using 1(1) [OF False refl refl Suc] 1(3) False Suc
        by (subst copy_token.simps) (simp add: Let_def)
    qed
  qed
qed

lemma find_format_spec:
  "find_format fs pt = Some i \<Longrightarrow> i < length fs \<and> payload_type (fs ! i) = pt"
  "find_format fs pt = None \<Longrightarrow> pt \<notin> payload_type ` set fs"
  by (induction fs arbitrary: i) (auto split: if_splits)

lemma fmtp_ok:
  assumes "LF \<notin> set params" "str_ok 8 (profile_level_id f)"
  shows "payload_type (parse_h264_fmtp f params) = payload_type f \<and> str_ok 8 (profile_level_id (parse_h264_fmtp f params))"
  using assms
proof (induction f params rule: parse_h264_fmtp.induct)
  case (1 f params)
  let ?p = "dropWhile (\<lambda>c. c = CHR '' '' \<or> c = CHR '';'') params"
  let ?len = "strcspn ?p '';''"
  let ?f = "if prefix ''packetization-mode='' ?p then f\<lparr>packetization_mode := atoi (drop 19 ?p)\<rparr>
    else if prefix ''profile-level-id='' ?p \<and> ?len = 17 + 6 then f\<lparr>profile_level_id := take 6 (drop 17 ?p)\<rparr> else f"
  show ?case
  proof (cases "params = []")
    case True
    then show ?thesis using 1 by (simp add: parse_h264_fmtp.simps)
  next
    case False
    have p: "LF \<notin> set ?p" using 1(2) set_dropWhile_subset by fast
    have "set (take 6 (drop 17 ?p)) \<subseteq> set ?p" by (auto dest: in_set_takeD in_set_dropD)
    then have "str_ok 8 (profile_level_id ?f)" "payload_type ?f = payload_type f"
      using p 1(3) by (auto simp: str_ok_def)
    moreover have "LF \<notin> set (drop ?len ?p)" using p set_drop_subset by fast
    moreover have "parse_h264_fmtp f params = parse_h264_fmtp ?f (drop ?len ?p)"
      using False by (subst parse_h264_fmtp.simps) (simp add: Let_def)
    ultimately show ?thesis using 1(1) [OF False refl refl refl] by simp
  qed
qed

lemma visit_mline_ok:
  assumes ok: "ctx_ok (media - 1) ctx" "0 \<le> media" and line: "LF \<notin> set line"
  shows "\<exists>ctx'. visit_mline line media ctx = Some ctx' \<and> ctx_ok media ctx'"
proof (cases "media \<ge> 8")
  case True
  then show ?thesis using ok by (auto simp: visit_mline_def ctx_ok_def sdp_consts)
next
  case False
  let ?off = "offer ctx" and ?i = "nat media"
  let ?m = "(mlines ?off ! ?i)\<lparr>kind := copy_token (drop 2 line) 0 16, proto := copy_token (drop 2 line) 2 32,
    fmt := copy_token (drop 2 line) 3 32\<rparr>"
  have off: "offer_ok ?off" "length (mlines ?off) = 8" "int (mline_count ?off) = media" and i: "?i < 8"
    using ok False by (auto simp: ctx_ok_def offer_ok_def sdp_consts)
  have l2: "LF \<notin> set (drop 2 line)" using line set_drop_subset by fast
  have "mline_ok (mlines ?off ! ?i)" using off i by (auto simp: offer_ok_def list_all_length)
  then have m: "mline_ok ?m" using copy_token_ok [OF l2] by (simp add: mline_ok_def)
  let ?ms = "(mlines ?off)[?i := ?m]"
  have ms: "list_all mline_ok ?ms"
    using off m by (intro list_all_update) (simp_all add: offer_ok_def)
  let ?o1 = "?off\<lparr>mlines := ?ms, mline_count := ?i + 1\<rparr>"
  let ?o2 = "if video_mline ?o1 < 0 \<and> kind ?m = ''video'' then ?o1\<lparr>video_mline := media\<rparr> else ?o1"
  have run: "visit_mline line media ctx = Some (ctx\<lparr>offer := ?o2\<rparr>)"
    using off(2) i False ok(2) by (simp add: visit_mline_def sdp_consts Let_def)
  have fm: "formats ?o2 = formats ?off" by (simp add: formats_def)
  have vid: "video_mline ?off < media" using off by (simp add: offer_ok_def)
  then have "nat (video_mline ?off) \<noteq> ?i \<or> video_mline ?off < 0" using ok(2) by auto
  then have "0 \<le> video_mline ?o2 \<longrightarrow> kind (mlines ?o2 ! nat (video_mline ?o2)) = ''video''"
    using off i by (auto simp: offer_ok_def)
  then have "offer_ok ?o2"
    using off i ms fm vid ok(2) by (auto simp: offer_ok_def sdp_consts)
  then show ?thesis using run off(3) i ok by (auto simp: ctx_ok_def)
qed

lemma offer_ok_video_mid: "offer_ok off \<Longrightarrow> str_ok 24 s \<Longrightarrow> offer_ok (off\<lparr>video_mid := s\<rparr>)"
  by (simp add: offer_ok_def formats_def)

lemma offer_ok_mlines:
  "offer_ok off \<Longrightarrow> length ms = length (mlines off) \<Longrightarrow> list_all mline_ok ms \<Longrightarrow>
     (\<And>j. kind (ms ! j) = kind (mlines off ! j)) \<Longrightarrow> offer_ok (off\<lparr>mlines := ms\<rparr>)"
  by (simp add: offer_ok_def formats_def)

lemma visit_mid_ok:
  assumes "offer_ok off" "0 \<le> media" "media < 8"
  shows "\<exists>off'. visit_mid line media off = Some off' \<and> offer_ok off' \<and> mline_count off' = mline_count off \<and>
     h264_payload_type off' = h264_payload_type off"
proof -
  let ?i = "nat media"
  let ?m = "(mlines off ! ?i)\<lparr>mid := copy_value line ''a=mid:'' (mid (mlines off ! ?i)) 24\<rparr>"
  have i: "?i < length (mlines off)" using assms by (simp add: offer_ok_def sdp_consts)
  have "mline_ok (mlines off ! ?i)" using assms(1) i by (auto simp: offer_ok_def list_all_length)
  then have "mline_ok ?m" using copy_value_ok by (simp add: mline_ok_def)
  then have ms: "list_all mline_ok ((mlines off)[?i := ?m])"
    using assms(1) by (intro list_all_update) (simp_all add: offer_ok_def)
  have kinds: "kind ((mlines off)[?i := ?m] ! j) = kind (mlines off ! j)" for j
    using i by (cases "j = ?i") auto
  let ?o1 = "off\<lparr>mlines := (mlines off)[?i := ?m]\<rparr>"
  let ?o2 = "if media = video_mline ?o1 then ?o1\<lparr>video_mid := copy_value line ''a=mid:'' (video_mid ?o1) 24\<rparr> else ?o1"
  have run: "visit_mid line media off = Some ?o2" using i by (simp add: visit_mid_def Let_def)
  have o1: "offer_ok ?o1" using offer_ok_mlines [OF assms(1) _ ms kinds] by simp
  then have "str_ok 24 (video_mid ?o1)" by (simp add: offer_ok_def)
  then have v: "offer_ok (?o1\<lparr>video_mid := copy_value line ''a=mid:'' (video_mid ?o1) 24\<rparr>)"
    by (intro offer_ok_video_mid o1 copy_value_ok) simp_all
  have either: "offer_ok a \<Longrightarrow> offer_ok b \<Longrightarrow> offer_ok (if c then a else b)" for a b c by simp
  have "offer_ok ?o2" by (rule either [OF v o1])
  moreover have "mline_count ?o2 = mline_count off" "h264_payload_type ?o2 = h264_payload_type off" by simp_all
  ultimately show ?thesis using run by blast
qed

lemma visit_rtpmap_ok:
  assumes "offer_ok off"
  shows "\<exists>off'. visit_rtpmap line off = Some off' \<and> offer_ok off' \<and> mline_count off' = mline_count off \<and>
     h264_payload_type off' = h264_payload_type off"
proof (cases "atoi (drop 9 line) > 0 \<and> atoi (drop 9 line) < 128 \<and> h264_count off < 16 \<and>
    h264_format off (atoi (drop 9 line)) = None")
  case False
  then show ?thesis using assms by (auto simp: visit_rtpmap_def sdp_consts Let_def)
next
  case True
  let ?pt = "atoi (drop 9 line)" and ?n = "h264_count off"
  let ?f = "empty_format\<lparr>payload_type := ?pt\<rparr>"
  let ?o = "off\<lparr>h264 := (h264 off)[?n := ?f], h264_count := ?n + 1\<rparr>"
  have len: "length (h264 off) = 16" using assms by (simp add: offer_ok_def sdp_consts)
  have run: "visit_rtpmap line off = Some ?o" using True len by (simp add: visit_rtpmap_def sdp_consts Let_def)
  have fm: "formats ?o = formats off @ [?f]" using True len by (simp add: formats_def take_Suc_conv_app_nth)
  have "?pt \<notin> payload_type ` set (formats off)"
    using True find_format_spec(2) by (simp add: h264_format_def formats_def)
  then have "offer_ok ?o"
    using assms fm True by (auto simp: offer_ok_def sdp_consts format_ok_def empty_format_def str_ok_def)
  then show ?thesis using run by simp
qed

lemma visit_fmtp_ok:
  assumes "offer_ok off" "LF \<notin> set line"
  shows "\<exists>off'. visit_fmtp line off = Some off' \<and> offer_ok off' \<and> mline_count off' = mline_count off \<and>
     h264_payload_type off' = h264_payload_type off"
proof (cases "\<exists>i params. h264_format off (atoi (drop 7 line)) = Some i \<and> strchr line (CHR '' '') = Some params")
  case False
  then show ?thesis using assms by (auto simp: visit_fmtp_def split: option.splits)
next
  case True
  then obtain i params where ip: "h264_format off (atoi (drop 7 line)) = Some i" "strchr line (CHR '' '') = Some params"
    by blast
  have len: "length (h264 off) = 16" "h264_count off \<le> 16" using assms by (auto simp: offer_ok_def sdp_consts)
  have i: "i < length (formats off)" "i < 16" "i < h264_count off"
    using find_format_spec(1) ip(1) len by (fastforce simp: h264_format_def formats_def)+
  have "set params \<subseteq> set line" using ip(2) set_dropWhile_subset [of _ line] by (auto simp: strchr_def split: list.splits)
  then have p: "LF \<notin> set (drop 1 params)" using assms(2) set_drop_subset [of 1 params] by blast
  let ?g = "parse_h264_fmtp (h264 off ! i) (drop 1 params)"
  let ?o = "off\<lparr>h264 := (h264 off)[i := ?g]\<rparr>"
  have fi: "formats off ! i = h264 off ! i" using i by (simp add: formats_def)
  have ok: "format_ok (h264 off ! i)" using assms(1) i fi by (metis list_all_length offer_ok_def)
  then have g: "payload_type ?g = payload_type (h264 off ! i)" "format_ok ?g"
    using fmtp_ok [OF p] by (auto simp: format_ok_def)
  have fm: "formats ?o = (formats off)[i := ?g]" by (simp add: formats_def take_update_swap)
  have "map payload_type (formats ?o) = map payload_type (formats off)"
    unfolding fm using g(1) fi by (simp add: map_update list_update_same_conv i)
  moreover have "list_all format_ok (formats ?o)"
    unfolding fm using assms(1) g(2) by (intro list_all_update) (simp_all add: offer_ok_def)
  ultimately have "offer_ok ?o" using assms(1) by (simp add: offer_ok_def)
  moreover have "visit_fmtp line off = Some ?o" using ip i len by (simp add: visit_fmtp_def)
  ultimately show ?thesis by simp
qed

lemma parse_visit_ok:
  assumes "ctx_ok (if prefix ''m='' line then media - 1 else media) ctx" "LF \<notin> set line"
  shows "\<exists>ctx'. parse_visit line media ctx = Some ctx' \<and> ctx_ok media ctx'"
proof (cases "prefix ''m='' line")
  case True
  then have "0 \<le> media" using assms(1) by (simp add: ctx_ok_def)
  with True visit_mline_ok assms show ?thesis by (simp add: parse_visit_def)
next
  case False
  let ?off = "offer ctx"
  have ctx: "ctx_ok media ctx" and off: "offer_ok ?off" using assms(1) False by (simp_all add: ctx_ok_def)
  consider (attr) "prefix ''a=ice-ufrag:'' line \<or> prefix ''a=ice-pwd:'' line \<or> prefix ''a=fingerprint:'' line \<or>
      prefix ''a=setup:'' line"
    | (outside) "\<not> (prefix ''a=ice-ufrag:'' line \<or> prefix ''a=ice-pwd:'' line \<or> prefix ''a=fingerprint:'' line \<or>
      prefix ''a=setup:'' line)" "\<not> (media \<ge> 0 \<and> media < 8)"
    | (media) "\<not> (prefix ''a=ice-ufrag:'' line \<or> prefix ''a=ice-pwd:'' line \<or> prefix ''a=fingerprint:'' line \<or>
      prefix ''a=setup:'' line)" "media \<ge> 0" "media < 8" by blast
  then show ?thesis
  proof cases
    case attr
    have "offer_ok (?off\<lparr>ice_ufrag := copy_value line ''a=ice-ufrag:'' (ice_ufrag ?off) 80\<rparr>)"
      "offer_ok (?off\<lparr>ice_pwd := copy_value line ''a=ice-pwd:'' (ice_pwd ?off) 128\<rparr>)"
      "offer_ok (?off\<lparr>fingerprint := copy_value line ''a=fingerprint:'' (fingerprint ?off) 128\<rparr>)"
      "offer_ok (?off\<lparr>setup_role := copy_value line ''a=setup:'' (setup_role ?off) 24\<rparr>)"
      using off copy_value_ok by (simp_all add: offer_ok_def formats_def)
    then show ?thesis using False attr ctx by (auto simp: parse_visit_def ctx_ok_def Let_def)
  next
    case outside
    then consider "media < 0" | "8 \<le> media" by linarith
    then have "parse_visit line media ctx = Some ctx"
      using False outside(1) by cases (simp_all add: parse_visit_def sdp_consts Let_def)
    then show ?thesis using ctx by simp
  next
    case media
    let ?r = "if prefix ''a=mid:'' line then visit_mid line media ?off
        else if media = video_mline ?off \<and> prefix ''a=rtpmap:'' line \<and> strstr line '' H264/90000'' then visit_rtpmap line ?off
        else if media = video_mline ?off \<and> prefix ''a=fmtp:'' line then visit_fmtp line ?off else Some ?off"
    have "\<exists>off'. ?r = Some off' \<and> offer_ok off' \<and> mline_count off' = mline_count ?off \<and>
        h264_payload_type off' = h264_payload_type ?off"
      using visit_mid_ok [OF off media(2,3)] visit_rtpmap_ok [OF off] visit_fmtp_ok [OF off assms(2)] off by simp
    then obtain off' where off': "?r = Some off'" "offer_ok off'" "mline_count off' = mline_count ?off"
      "h264_payload_type off' = h264_payload_type ?off" by blast
    have "parse_visit line media ctx = Some (ctx\<lparr>offer := off'\<rparr>)"
      using False media off'(1) by (simp add: parse_visit_def sdp_consts Let_def)
    then show ?thesis using off' ctx by (simp add: ctx_ok_def)
  qed
qed

lemma empty_ctx_ok: "ctx_ok (-1) empty_context"
  by (simp add: ctx_ok_def empty_context_def empty_offer_def offer_ok_def formats_def str_ok_def sdp_consts
      mline_ok_def empty_mline_def list_all_iff)

lemma run_lines_ok:
  assumes "ctx_ok media ctx" "\<forall>l \<in> set ls. LF \<notin> set l"
  shows "\<exists>ctx'. run_lines ls parse_visit media ctx = Some ctx' \<and> (\<exists>media'. ctx_ok media' ctx')"
  using assms
proof (induction ls arbitrary: media ctx)
  case (Cons l ls)
  let ?media = "if prefix ''m='' l then media + 1 else media"
  obtain ctx1 where "parse_visit l ?media ctx = Some ctx1" "ctx_ok ?media ctx1"
    using parse_visit_ok [of l ?media ctx] Cons.prems by (cases "prefix ''m='' l") auto
  with Cons.IH [of ?media ctx1] Cons.prems show ?case by (simp add: Let_def)
qed auto

section \<open>The chosen format\<close>

text \<open>Position of the first format of the best rank.\<close>

definition best_format :: "SdpH264Format list \<Rightarrow> nat \<Rightarrow> bool" where
  "best_format fs i \<longleftrightarrow> i < length fs \<and> 0 < h264_rank (fs ! i) \<and>
     (\<forall>j < length fs. h264_rank (fs ! j) \<le> h264_rank (fs ! i)) \<and> (\<forall>j < i. h264_rank (fs ! j) < h264_rank (fs ! i))"

lemma choose_loop_spec:
  "(\<forall>f \<in> set fs. h264_rank f \<le> best) \<and> choose_loop fs best off = off \<or>
   (\<exists>i < length fs. best < h264_rank (fs ! i) \<and> (\<forall>j < length fs. h264_rank (fs ! j) \<le> h264_rank (fs ! i)) \<and>
      (\<forall>j < i. h264_rank (fs ! j) < h264_rank (fs ! i)) \<and>
      choose_loop fs best off = off\<lparr>h264_payload_type := payload_type (fs ! i),
        h264_profile_level_id := fit 8 (profile_level_id (fs ! i))\<rparr>)"
proof (induction fs arbitrary: best off)
  case (Cons f fs)
  let ?off = "off\<lparr>h264_payload_type := payload_type f, h264_profile_level_id := fit 8 (profile_level_id f)\<rparr>"
  show ?case
  proof (cases "best < h264_rank f")
    case True
    show ?thesis
    proof (cases "(\<forall>g \<in> set fs. h264_rank g \<le> h264_rank f) \<and> choose_loop fs (h264_rank f) ?off = ?off")
      case stay: True
      then show ?thesis using True
        by (intro disjI2 exI [of _ 0]) (auto simp: Let_def nth_Cons split: nat.split)
    next
      case False
      with Cons.IH [of "h264_rank f" ?off] obtain i where i: "i < length fs" "h264_rank f < h264_rank (fs ! i)"
        "\<forall>j < length fs. h264_rank (fs ! j) \<le> h264_rank (fs ! i)" "\<forall>j < i. h264_rank (fs ! j) < h264_rank (fs ! i)"
        "choose_loop fs (h264_rank f) ?off = ?off\<lparr>h264_payload_type := payload_type (fs ! i),
          h264_profile_level_id := fit 8 (profile_level_id (fs ! i))\<rparr>" by blast
      then show ?thesis using True
        by (intro disjI2 exI [of _ "Suc i"]) (auto simp: Let_def nth_Cons split: nat.split)
    qed
  next
    case False
    then have step: "choose_loop (f # fs) best off = choose_loop fs best off" by (simp add: Let_def)
    show ?thesis
    proof (cases "(\<forall>g \<in> set fs. h264_rank g \<le> best) \<and> choose_loop fs best off = off")
      case True
      then show ?thesis using False step by auto
    next
      case go: False
      with Cons.IH [of best off] obtain i where i: "i < length fs" "best < h264_rank (fs ! i)"
        "\<forall>j < length fs. h264_rank (fs ! j) \<le> h264_rank (fs ! i)" "\<forall>j < i. h264_rank (fs ! j) < h264_rank (fs ! i)"
        "choose_loop fs best off = off\<lparr>h264_payload_type := payload_type (fs ! i),
          h264_profile_level_id := fit 8 (profile_level_id (fs ! i))\<rparr>" by blast
      then show ?thesis using False step
        by (intro disjI2 exI [of _ "Suc i"]) (auto simp: nth_Cons split: nat.split)
    qed
  qed
qed simp

lemma choose_h264_ok:
  assumes "offer_ok off"
  shows "offer_ok (choose_h264 off) \<and> h264_count (choose_h264 off) = h264_count off \<and>
     formats (choose_h264 off) = formats off \<and> mlines (choose_h264 off) = mlines off \<and>
     setup_role (choose_h264 off) = setup_role off"
  using choose_loop_spec [of "take (h264_count off) (h264 off)" 0 off]
proof (elim disjE exE conjE)
  assume "choose_loop (take (h264_count off) (h264 off)) 0 off = off"
  then show ?thesis using assms by (simp add: choose_h264_def)
next
  let ?fs = "take (h264_count off) (h264 off)"
  fix i
  assume i: "i < length ?fs" and c: "choose_loop ?fs 0 off = off\<lparr>h264_payload_type := payload_type (?fs ! i),
    h264_profile_level_id := fit 8 (profile_level_id (?fs ! i))\<rparr>"
  have "format_ok (?fs ! i)" using assms i by (auto simp: offer_ok_def formats_def list_all_length)
  then have "str_ok 8 (fit 8 (profile_level_id (?fs ! i)))"
    using set_fit length_fit by (auto simp: format_ok_def str_ok_def)
  then show ?thesis using assms c by (auto simp: choose_h264_def offer_ok_def formats_def)
qed

lemma check_offer_ok:
  assumes "offer_ok (offer ctx)"
  shows "offer_ok (snd (check_offer ctx))"
proof -
  have act: "offer_ok (off\<lparr>setup_role := ''actpass''\<rparr>)" if "offer_ok off" for off
    using that by (simp add: offer_ok_def formats_def str_ok_def LF_def)
  show ?thesis using assms choose_h264_ok [OF assms] act by (simp add: check_offer_def Let_def)
qed

lemma parse_text_ctx:
  "\<exists>media ctx. run_lines (sdp_lines s) parse_visit (-1) empty_context = Some ctx \<and> ctx_ok media ctx \<and>
     parse_text s = Some (check_offer ctx)"
  using run_lines_ok [OF empty_ctx_ok, of "sdp_lines s"] sdp_lines_no_lf [of _ s]
  by (auto simp: parse_text_def for_each_line_run)

text \<open>The flags of the context record that a line of the kind was seen.\<close>

lemma parse_visit_flags:
  assumes "parse_visit line media ctx = Some ctx'"
  shows "have_ufrag ctx' \<longleftrightarrow> have_ufrag ctx \<or> prefix ''a=ice-ufrag:'' line"
    "have_pwd ctx' \<longleftrightarrow> have_pwd ctx \<or> prefix ''a=ice-pwd:'' line"
    "have_fingerprint ctx' \<longleftrightarrow> have_fingerprint ctx \<or> prefix ''a=fingerprint:'' line"
proof -
  have excl: "\<not> (prefix (a # b # p) line \<and> prefix (c # d # q) line)" if "(a, b) \<noteq> (c, d)" for a b c d p q
    using that by (auto simp: prefix_def)
  have 1: "\<not> prefix ''a=ice-ufrag:'' line \<and> \<not> prefix ''a=ice-pwd:'' line \<and> \<not> prefix ''a=fingerprint:'' line"
    if "prefix ''m='' line"
    using that by (auto simp: prefix_def)
  have 2: "\<not> (prefix ''a=ice-ufrag:'' line \<and> prefix ''a=ice-pwd:'' line)"
    "\<not> (prefix ''a=ice-ufrag:'' line \<and> prefix ''a=fingerprint:'' line)"
    "\<not> (prefix ''a=ice-pwd:'' line \<and> prefix ''a=fingerprint:'' line)" by (auto simp: prefix_def)
  have "(have_ufrag ctx' \<longleftrightarrow> have_ufrag ctx \<or> prefix ''a=ice-ufrag:'' line) \<and>
    (have_pwd ctx' \<longleftrightarrow> have_pwd ctx \<or> prefix ''a=ice-pwd:'' line) \<and>
    (have_fingerprint ctx' \<longleftrightarrow> have_fingerprint ctx \<or> prefix ''a=fingerprint:'' line)"
  proof (cases "prefix ''m='' line")
    case True
    then have "have_ufrag ctx' = have_ufrag ctx" "have_pwd ctx' = have_pwd ctx" "have_fingerprint ctx' = have_fingerprint ctx"
      using assms by (auto simp: parse_visit_def visit_mline_def Let_def split: if_splits bind_splits)
    with 1 [OF True] show ?thesis by blast
  next
    case False
    then show ?thesis using assms 2
      by (auto simp: parse_visit_def Let_def split: if_splits bind_splits)
  qed
  then show "have_ufrag ctx' \<longleftrightarrow> have_ufrag ctx \<or> prefix ''a=ice-ufrag:'' line"
    "have_pwd ctx' \<longleftrightarrow> have_pwd ctx \<or> prefix ''a=ice-pwd:'' line"
    "have_fingerprint ctx' \<longleftrightarrow> have_fingerprint ctx \<or> prefix ''a=fingerprint:'' line" by auto
qed

lemma run_lines_flags:
  assumes "run_lines ls parse_visit media ctx = Some ctx'"
  shows "(have_ufrag ctx' \<longleftrightarrow> have_ufrag ctx \<or> (\<exists>l \<in> set ls. prefix ''a=ice-ufrag:'' l)) \<and>
    (have_pwd ctx' \<longleftrightarrow> have_pwd ctx \<or> (\<exists>l \<in> set ls. prefix ''a=ice-pwd:'' l)) \<and>
    (have_fingerprint ctx' \<longleftrightarrow> have_fingerprint ctx \<or> (\<exists>l \<in> set ls. prefix ''a=fingerprint:'' l))"
  using assms
proof (induction ls arbitrary: media ctx)
  case (Cons l ls)
  let ?media = "if prefix ''m='' l then media + 1 else media"
  obtain ctx1 where 1: "parse_visit l ?media ctx = Some ctx1" "run_lines ls parse_visit ?media ctx1 = Some ctx'"
    using Cons.prems by (auto simp: Let_def split: bind_splits)
  from Cons.IH [OF 1(2)] parse_visit_flags [OF 1(1)] show ?case by auto
qed simp

section \<open>Properties of the parser\<close>

lemma sdp_parse_offer_total:
  "\<exists>rc off reason. sdp_parse_offer (Some s) (Some dst) (Some n) = Some (rc, Some off, reason) \<and>
     offer_ok off \<and> (rc = 0 \<and> reason = None \<or> rc = -1 \<and> (case reason of None \<Rightarrow> True | Some r \<Rightarrow> length r < n))"
proof -
  obtain media ctx where p: "parse_text s = Some (check_offer ctx)" "ctx_ok media ctx"
    using parse_text_ctx by blast
  obtain e off where e: "check_offer ctx = (e, off)" by fastforce
  have "offer_ok off" using check_offer_ok [of ctx] p(2) e by (simp add: ctx_ok_def)
  then show ?thesis using p(1) e length_fit
    by (auto simp: sdp_parse_offer_def fail_def split: option.split)
qed

text \<open>
  C21: whatever text the browser posts, the parser returns 0 or -1 without an access outside the
  fixed arrays of the offer, and leaves the offer well formed: every string fits its array and
  holds no line feed, at most 8 media sections and 16 H264 formats with distinct payload types in
  1..127, and a video index that names a video section. The reason fits the caller's buffer.
\<close>

theorem sdp_parse_offer_safe:
  "\<exists>rc off reason. sdp_parse_offer (Some s) (Some dst) (Some n) = Some (rc, Some off, reason) \<and>
     offer_ok off \<and> (rc = 0 \<and> reason = None \<or> rc = -1 \<and> (case reason of None \<Rightarrow> True | Some r \<Rightarrow> length r < n))"
  by (rule sdp_parse_offer_total)

text \<open>
  C22: an offer is accepted only if it can be answered: the text has ICE credentials and a
  fingerprint, at most 8 media sections, one of them video; the payload type chosen belongs to
  the first offered H264 format of the best rank (packetization mode 1, constrained baseline
  before baseline before unspecified); and the peer does not ask to be the DTLS server.
\<close>

theorem sdp_parse_offer_accepts:
  assumes "sdp_parse_offer (Some s) (Some dst) n = Some (0, Some off, reason)"
  shows "(\<exists>l \<in> set (sdp_lines s). prefix ''a=ice-ufrag:'' l) \<and> (\<exists>l \<in> set (sdp_lines s). prefix ''a=ice-pwd:'' l) \<and>
     (\<exists>l \<in> set (sdp_lines s). prefix ''a=fingerprint:'' l) \<and>
     0 \<le> video_mline off \<and> nat (video_mline off) < mline_count off \<and>
     kind (mlines off ! nat (video_mline off)) = ''video'' \<and>
     setup_role off \<noteq> ''passive'' \<and> setup_role off \<noteq> [] \<and>
     (\<exists>i. best_format (formats off) i \<and> packetization_mode (formats off ! i) = 1 \<and>
        h264_payload_type off = payload_type (formats off ! i) \<and> 1 \<le> h264_payload_type off \<and>
        h264_payload_type off < 128 \<and> h264_profile_level_id off = profile_level_id (formats off ! i))"
proof -
  obtain media ctx where p: "parse_text s = Some (check_offer ctx)" "ctx_ok media ctx"
    and run: "run_lines (sdp_lines s) parse_visit (-1) empty_context = Some ctx"
    using parse_text_ctx by blast
  have "check_offer ctx = (None, off)"
    using assms p(1) by (auto simp: sdp_parse_offer_def split: prod.splits option.splits)
  then have chk: "have_ufrag ctx" "have_pwd ctx" "have_fingerprint ctx" "\<not> video_mline (offer ctx) < 0"
    "\<not> h264_payload_type (choose_h264 (offer ctx)) < 0" "setup_role off \<noteq> ''passive''" "setup_role off \<noteq> []"
    "formats off = formats (choose_h264 (offer ctx))" "h264_payload_type off = h264_payload_type (choose_h264 (offer ctx))"
    "h264_profile_level_id off = h264_profile_level_id (choose_h264 (offer ctx))"
    "video_mline off = video_mline (choose_h264 (offer ctx))"
    by (auto simp: check_offer_def Let_def formats_def split: if_splits)
  have ok: "offer_ok (offer ctx)" "offer_ok off"
    using p(2) check_offer_ok [of ctx] \<open>check_offer ctx = (None, off)\<close> by (auto simp: ctx_ok_def)
  have flags: "(\<exists>l \<in> set (sdp_lines s). prefix ''a=ice-ufrag:'' l)" "(\<exists>l \<in> set (sdp_lines s). prefix ''a=ice-pwd:'' l)"
    "(\<exists>l \<in> set (sdp_lines s). prefix ''a=fingerprint:'' l)"
    using run_lines_flags [OF run] chk(1-3) by (simp_all add: empty_context_def)
  let ?fs = "formats (offer ctx)" and ?c = "choose_h264 (offer ctx)"
  have "h264_payload_type (offer ctx) = -1" using p(2) by (simp add: ctx_ok_def)
  then have "?c \<noteq> offer ctx" using chk(5) by auto
  then obtain i where i: "best_format ?fs i" "?c = (offer ctx)\<lparr>h264_payload_type := payload_type (?fs ! i),
      h264_profile_level_id := fit 8 (profile_level_id (?fs ! i))\<rparr>"
    using choose_loop_spec [of ?fs 0 "offer ctx"] unfolding choose_h264_def formats_def [symmetric] best_format_def by auto
  have "format_ok (?fs ! i)" using ok(1) i(1) by (auto simp: offer_ok_def list_all_length best_format_def)
  then have f: "1 \<le> payload_type (?fs ! i)" "payload_type (?fs ! i) < 128"
    "fit 8 (profile_level_id (?fs ! i)) = profile_level_id (?fs ! i)"
    by (auto simp: format_ok_def str_ok_def fit_id)
  have mode: "packetization_mode (?fs ! i) = 1"
    using i(1) by (auto simp: best_format_def h264_rank_def split: if_splits)
  have fs: "formats off = ?fs" using chk(8) choose_h264_ok [OF ok(1)] by simp
  have vid: "0 \<le> video_mline off" using chk(4,11) i(2) by simp
  then have "nat (video_mline off) < mline_count off" "kind (mlines off ! nat (video_mline off)) = ''video''"
    using ok(2) by (auto simp: offer_ok_def)
  then show ?thesis using flags chk(6,7,9,10) i fs f mode vid by auto
qed

definition demo_lines :: "string list" where
  "demo_lines = [''m=video 9 X 96'', ''a=ice-ufrag:u'', ''a=ice-pwd:p'', ''a=fingerprint:f'',
     ''a=rtpmap:96 H264/90000'', ''a=fmtp:96 packetization-mode=1'']"

lemma demo_run:
  "map_option (\<lambda>c. (too_many_mlines c, have_ufrag c, have_pwd c, have_fingerprint c, video_mline (offer c),
       h264_count (offer c), take 1 (h264 (offer c)), setup_role (offer c)))
     (run_lines demo_lines parse_visit (-1) empty_context) =
   Some (False, True, True, True, 0, 1,
     [\<lparr>payload_type = 96, packetization_mode = 1, profile_level_id = []\<rparr>], [])"
  unfolding demo_lines_def by code_simp

lemma demo_sdp_lines: "sdp_lines (text_lines demo_lines) = demo_lines"
proof -
  have "\<forall>l \<in> set demo_lines. LF \<notin> set l" by (simp add: demo_lines_def LF_def)
  from sdp_lines_text [OF this] show ?thesis
    by (simp add: demo_lines_def strip_eol_def c_str_def CR_def LF_def NUL_def)
qed

lemma demo_accepted: "\<exists>off. sdp_parse_offer (Some (text_lines demo_lines)) (Some empty_offer) None = Some (0, Some off, None)"
proof -
  obtain c where c: "run_lines demo_lines parse_visit (-1) empty_context = Some c"
    "\<not> too_many_mlines c" "have_ufrag c" "have_pwd c" "have_fingerprint c" "video_mline (offer c) = 0"
    "h264_count (offer c) = 1" "take 1 (h264 (offer c)) = [\<lparr>payload_type = 96, packetization_mode = 1, profile_level_id = []\<rparr>]"
    "setup_role (offer c) = []"
    using demo_run by (auto simp del: take_Suc_conv_app_nth)
  then have "fst (check_offer c) = None"
    by (simp add: check_offer_def choose_h264_def h264_rank_def Let_def)
  then show ?thesis using c(1)
    by (simp add: sdp_parse_offer_def parse_text_def for_each_line_run demo_sdp_lines split_beta)
qed
theorem sdp_parse_offer_accepts_witness:
  "\<exists>off. sdp_parse_offer (Some (text_lines demo_lines)) (Some empty_offer) None = Some (0, Some off, None) \<and>
     kind (mlines off ! nat (video_mline off)) = ''video'' \<and> 1 \<le> h264_payload_type off"
proof -
  obtain off where "sdp_parse_offer (Some (text_lines demo_lines)) (Some empty_offer) None = Some (0, Some off, None)"
    using demo_accepted by blast
  with sdp_parse_offer_accepts [OF this] show ?thesis by blast
qed

section \<open>The answer as a list of lines\<close>

fun candidate_lines :: "string \<Rightarrow> u16 \<Rightarrow> nat \<Rightarrow> string option list \<Rightarrow> string list" where
  "candidate_lines address port i [] = []"
| "candidate_lines address port i (ip # ips) =
     (case ip of None \<Rightarrow> [] | Some a \<Rightarrow>
        if a = [] \<or> a = address then [] else [candidate_line (i + 1) (2130706431 - of_nat i * 10) a port]) @
     candidate_lines address port (i + 1) ips"

definition section_lines :: "SdpOffer \<Rightarrow> SdpAnswerConfig \<Rightarrow> string \<Rightarrow> nat \<Rightarrow> string list" where
  "section_lines off cfg address m =
     (if mline_count off > 0 \<and> int m \<noteq> video_mline off
      then rejected_lines (mlines off ! m) @ (if mid (mlines off ! m) \<noteq> [] then [''a=mid:'' @ mid (mlines off ! m)] else [])
      else video_lines off cfg address @ [candidate_line 1 2130706431 address (udp_port cfg)] @
           candidate_lines address (udp_port cfg) 1 (tl (candidate_ips cfg)) @ [''a=end-of-candidates''])"

definition sections :: "SdpOffer \<Rightarrow> nat" where
  "sections off = (if mline_count off > 0 then mline_count off else 1)"

definition answer_lines :: "SdpOffer \<Rightarrow> SdpAnswerConfig \<Rightarrow> string \<Rightarrow> string list" where
  "answer_lines off cfg address =
     session_lines off cfg address @ concat (map (section_lines off cfg address) [0..<sections off])"

text \<open>The builder state stands for the text \<open>T\<close>: all of it, or the mark that it does not fit.\<close>

definition builds :: "nat \<Rightarrow> string \<times> nat \<Rightarrow> string \<Rightarrow> bool" where
  "builds limit st T \<longleftrightarrow> (if length T < limit then st = (T, length T) else snd st = limit)"

lemma builds_append: "builds limit st T \<Longrightarrow> builds limit (append_fmt limit s st) (T @ s)"
  by (cases st; cases "length T < limit") (auto simp: builds_def append_fmt_def fit_def min_def)

lemma text_lines_append [simp]: "text_lines (xs @ ys) = text_lines xs @ text_lines ys"
  by (simp add: text_lines_def)

lemma text_lines_Nil [simp]: "text_lines [] = []"
  by (simp add: text_lines_def)

lemma builds_lines: "builds limit st (text_lines T) \<Longrightarrow> builds limit (append_fmt limit (text_lines s) st) (text_lines (T @ s))"
  using builds_append by simp

lemma builds_candidates:
  "builds limit st (text_lines T) \<Longrightarrow>
     builds limit (candidate_loop limit address port i ips st) (text_lines (T @ candidate_lines address port i ips))"
proof (induction limit address port i ips st arbitrary: T rule: candidate_loop.induct)
  case (3 limit address port i ip ips st)
  then show ?case using builds_lines [OF 3(3), of "[candidate_line (i + 1) (2130706431 - of_nat i * 10) ip port]"]
    by (auto simp del: text_lines_append) (metis append_Cons append_Nil append_assoc)
qed auto

lemma builds_sections:
  assumes "m + n \<le> length (mlines off) \<or> mline_count off = 0" "builds limit st (text_lines T)"
  shows "\<exists>st'. section_loop limit off cfg address m n st = Some st' \<and>
     builds limit st' (text_lines (T @ concat (map (section_lines off cfg address) [m..<m + n])))"
  using assms
proof (induction n arbitrary: m st T)
  case (Suc n)
  let ?S = "section_lines off cfg address m"
  have up: "[m..<m + Suc n] = m # [m + 1..<(m + 1) + n]" by (simp add: upt_conv_Cons)
  show ?case
  proof (cases "mline_count off > 0 \<and> int m \<noteq> video_mline off")
    case True
    let ?l = "mlines off ! m"
    let ?st = "append_fmt limit (text_lines (rejected_lines ?l)) st"
    let ?st2 = "if mid ?l \<noteq> [] then append_fmt limit (text_lines [''a=mid:'' @ mid ?l]) ?st else ?st"
    have "rd (mlines off) m = Some ?l" using True Suc.prems(1) by simp
    then have run: "section_loop limit off cfg address m (Suc n) st = section_loop limit off cfg address (m + 1) n ?st2"
      using True by (simp add: Let_def)
    have b: "builds limit ?st (text_lines (T @ rejected_lines ?l))" by (rule builds_lines [OF Suc.prems(2)])
    have "builds limit ?st2 (text_lines (T @ ?S))"
      using b builds_lines [OF b, of "[''a=mid:'' @ mid ?l]"] True by (simp add: section_lines_def)
    from Suc.IH [OF _ this, of "m + 1"] Suc.prems(1) run up show ?thesis by auto
  next
    case False
    let ?st = "append_fmt limit (text_lines (video_lines off cfg address)) st"
    let ?st2 = "append_fmt limit (text_lines [candidate_line 1 2130706431 address (udp_port cfg)]) ?st"
    let ?st3 = "candidate_loop limit address (udp_port cfg) 1 (tl (candidate_ips cfg)) ?st2"
    let ?st4 = "append_fmt limit (text_lines [''a=end-of-candidates'']) ?st3"
    have run: "section_loop limit off cfg address m (Suc n) st = section_loop limit off cfg address (m + 1) n ?st4"
      using False unfolding section_loop.simps Let_def by (simp only: if_False)
    have "builds limit ?st4 (text_lines ((((T @ video_lines off cfg address) @
        [candidate_line 1 2130706431 address (udp_port cfg)]) @
        candidate_lines address (udp_port cfg) 1 (tl (candidate_ips cfg))) @ [''a=end-of-candidates'']))"
      by (intro builds_lines builds_candidates Suc.prems(2))
    moreover have "?S = video_lines off cfg address @ [candidate_line 1 2130706431 address (udp_port cfg)] @
        candidate_lines address (udp_port cfg) 1 (tl (candidate_ips cfg)) @ [''a=end-of-candidates'']"
      using False unfolding section_lines_def by (simp only: if_False)
    ultimately have "builds limit ?st4 (text_lines (T @ ?S))" by (simp only: append_assoc)
    from Suc.IH [OF _ this, of "m + 1"] Suc.prems(1) run up show ?thesis by auto
  qed
qed simp

lemma build_answer_lines:
  assumes "mline_count off \<le> length (mlines off)" "0 < cap" "candidate_ips cfg = Some address # ips"
  shows "sdp_build_answer (Some off) (Some cfg) (Some dst) cap = Some
     (let T = text_lines (answer_lines off cfg address)
      in if length T < cap then (length T, Some T) else (0, Some []))"
proof -
  have "builds cap ([], 0) (text_lines [])" using assms(2) by (simp add: builds_def)
  from builds_lines [OF this, of "session_lines off cfg address"]
  have b: "builds cap (append_fmt cap (text_lines (session_lines off cfg address)) ([], 0))
      (text_lines (session_lines off cfg address))" by simp
  have "0 + sections off \<le> length (mlines off) \<or> mline_count off = 0" using assms(1) by (simp add: sections_def)
  from builds_sections [OF this b, of cfg address] obtain out offset where st:
    "section_loop cap off cfg address 0 (sections off)
       (append_fmt cap (text_lines (session_lines off cfg address)) ([], 0)) = Some (out, offset)"
    "builds cap (out, offset) (text_lines (answer_lines off cfg address))"
    by (auto simp: answer_lines_def simp del: text_lines_append)
  have "sdp_build_answer (Some off) (Some cfg) (Some dst) cap =
      (if offset \<ge> cap then Some (0, Some []) else Some (offset, Some out))"
    using assms(2,3) st(1) by (simp add: sdp_build_answer_def sections_def Let_def)
  then show ?thesis using st(2) by (auto simp: builds_def Let_def split: if_splits)
qed

section \<open>The media sections of the answer\<close>

definition section_mline :: "SdpOffer \<Rightarrow> nat \<Rightarrow> string" where
  "section_mline off m =
     (if mline_count off > 0 \<and> int m \<noteq> video_mline off then hd (rejected_lines (mlines off ! m))
      else ''m=video 9 UDP/TLS/RTP/SAVPF '' @ show_int (h264_payload_type off))"

lemma strip_eol_prefix: "prefix (strip_eol l) l"
  by (metis strip_eol_def suffix_dropWhile suffix_to_prefix rev_rev_ident)

lemma c_str_prefix: "prefix (c_str l) l"
  by (simp add: c_str_def takeWhile_is_prefix)

lemma not_mline: "\<not> prefix ''m='' l \<Longrightarrow> \<not> prefix ''m='' (c_str (strip_eol l))"
  using strip_eol_prefix c_str_prefix prefix_order.order_trans by metis

lemma strip_eol_append: "strip_eol w \<noteq> [] \<or> strip_eol v = v \<Longrightarrow> strip_eol (v @ w) = v @ strip_eol w"
proof (induction w rule: rev_induct)
  case (snoc x w)
  then show ?case by (auto simp: strip_eol_def simp flip: append_assoc)
qed (simp add: strip_eol_def)

lemma mline_kept: "prefix ''m='' (c_str (strip_eol (''m='' @ w)))"
proof -
  have "strip_eol ''m='' = ''m=''" by (simp add: strip_eol_def CR_def LF_def)
  then have "strip_eol (''m='' @ w) = ''m='' @ strip_eol w" using strip_eol_append by blast
  then show ?thesis by (simp add: c_str_def NUL_def)
qed

definition visible :: "string list \<Rightarrow> string list" where
  "visible ls = map c_str (filter (\<lambda>l. length l < 512) (map strip_eol ls))"

lemma visible_append: "visible (xs @ ys) = visible xs @ visible ys"
  by (simp add: visible_def)

lemma visible_other:
  "\<forall>l \<in> set ls. \<not> prefix ''m='' l \<Longrightarrow> filter (prefix ''m='') (visible ls) = []"
  using not_mline by (auto simp: visible_def filter_empty_conv)

lemma show_nat_no_lf: "LF \<notin> set (show_nat n)"
  using show_nat_digits [of LF n] by (auto simp: isdigit_def LF_def)

lemma show_nat_length: "length (show_nat n) \<le> n + 1"
proof (induction n rule: show_nat.induct)
  case (1 n)
  then show ?case by (cases "n < 10") (subst show_nat.simps, auto)+
qed

definition clean_config :: "SdpAnswerConfig \<Rightarrow> bool" where
  "clean_config cfg \<longleftrightarrow> LF \<notin> set (cfg_fingerprint cfg) \<and> LF \<notin> set (cfg_ice_ufrag cfg) \<and> LF \<notin> set (cfg_ice_pwd cfg) \<and>
     (\<forall>ip. Some ip \<in> set (candidate_ips cfg) \<longrightarrow> LF \<notin> set ip)"

abbreviation plain_line :: "string \<Rightarrow> bool" where
  "plain_line l \<equiv> LF \<notin> set l \<and> \<not> prefix ''m='' l"

lemma plain_candidate: "LF \<notin> set ip \<Longrightarrow> plain_line (candidate_line n p ip port)"
  using show_nat_no_lf [of n] show_nat_no_lf [of "unat p"] show_nat_no_lf [of "unat port"]
  by (simp add: candidate_line_def LF_def)

lemma candidate_lines_shape:
  "(\<forall>ip. Some ip \<in> set ips \<longrightarrow> LF \<notin> set ip) \<Longrightarrow> list_all plain_line (candidate_lines address port i ips)"
proof (induction address port i ips rule: candidate_lines.induct)
  case (2 address port i ip ips)
  then have IH: "list_all plain_line (candidate_lines address port (i + 1) ips)" by simp
  show ?case
  proof (cases ip)
    case (Some a)
    then have "LF \<notin> set a" using 2(2) by simp
    then show ?thesis using IH Some plain_candidate by simp
  qed (use IH in simp)
qed simp

lemma session_lines_shape:
  assumes "clean_config cfg" "offer_ok off" "LF \<notin> set address"
  shows "list_all plain_line (session_lines off cfg address)"
proof -
  have "LF \<notin> set (or_default (video_mid off) ''video'')"
    using assms(2) by (simp add: or_default_def offer_ok_def str_ok_def LF_def)
  then show ?thesis using assms(1,3) by (simp add: session_lines_def clean_config_def LF_def)
qed

lemma video_lines_shape:
  assumes "clean_config cfg" "offer_ok off" "LF \<notin> set address"
  shows "video_lines off cfg address =
      (''m=video 9 UDP/TLS/RTP/SAVPF '' @ show_int (h264_payload_type off)) # tl (video_lines off cfg address)"
    "LF \<notin> set (''m=video 9 UDP/TLS/RTP/SAVPF '' @ show_int (h264_payload_type off))"
    "list_all plain_line (tl (video_lines off cfg address))"
proof -
  have i: "LF \<notin> set (show_int (h264_payload_type off))"
    using show_nat_no_lf by (simp add: show_int_def LF_def)
  have m: "LF \<notin> set (or_default (video_mid off) ''video'')" "LF \<notin> set (or_default (h264_profile_level_id off) ''42e01f'')"
    using assms(2) by (simp_all add: or_default_def offer_ok_def str_ok_def LF_def)
  show "video_lines off cfg address =
      (''m=video 9 UDP/TLS/RTP/SAVPF '' @ show_int (h264_payload_type off)) # tl (video_lines off cfg address)"
    by (simp add: video_lines_def Let_def)
  show "LF \<notin> set (''m=video 9 UDP/TLS/RTP/SAVPF '' @ show_int (h264_payload_type off))"
    using i by (simp add: LF_def)
  show "list_all plain_line (tl (video_lines off cfg address))"
    using assms(1,3) i m show_nat_no_lf [of "unat (cfg_ssrc cfg)"]
    by (simp add: video_lines_def clean_config_def LF_def Let_def)
qed

lemma section_lines_shape:
  assumes "clean_config cfg" "offer_ok off" "LF \<notin> set address" "m < 8"
  shows "\<exists>t. section_lines off cfg address m = section_mline off m # t \<and> LF \<notin> set (section_mline off m) \<and> list_all plain_line t"
proof (cases "mline_count off > 0 \<and> int m \<noteq> video_mline off")
  case True
  let ?l = "mlines off ! m"
  have "mline_ok ?l" using assms(2,4) by (auto simp: offer_ok_def list_all_length sdp_consts)
  then have l: "LF \<notin> set (or_default (kind ?l) ''audio'')" "LF \<notin> set (or_default (proto ?l) ''UDP/TLS/RTP/SAVPF'')"
    "LF \<notin> set (or_default (fmt ?l) ''0'')" "LF \<notin> set (mid ?l)"
    by (simp_all add: mline_ok_def str_ok_def or_default_def LF_def)
  obtain h t where ht: "rejected_lines ?l = h # t" "section_mline off m = h" "LF \<notin> set h" "list_all plain_line t"
  proof (rule that [of "hd (rejected_lines ?l)" "tl (rejected_lines ?l)"])
    show "LF \<notin> set (hd (rejected_lines ?l))" "list_all plain_line (tl (rejected_lines ?l))"
      "rejected_lines ?l = hd (rejected_lines ?l) # tl (rejected_lines ?l)"
      using l by (simp_all add: rejected_lines_def LF_def)
    show "section_mline off m = hd (rejected_lines ?l)" using True by (simp add: section_mline_def)
  qed
  have mid: "plain_line (''a=mid:'' @ mid ?l)" using l(4) by (simp add: LF_def)
  have S: "section_lines off cfg address m = h # t @ (if mid ?l \<noteq> [] then [''a=mid:'' @ mid ?l] else [])"
    using True ht(1) by (simp add: section_lines_def)
  have "list_all plain_line (t @ (if mid ?l \<noteq> [] then [''a=mid:'' @ mid ?l] else []))"
    using ht(4) mid by (cases "mid ?l = []") (simp_all only: list_all_append list.pred_inject simp_thms if_True if_False)
  then show ?thesis using S ht(2,3) by blast
next
  case False
  have S: "section_lines off cfg address m = video_lines off cfg address @
      [candidate_line 1 2130706431 address (udp_port cfg)] @
      candidate_lines address (udp_port cfg) 1 (tl (candidate_ips cfg)) @ [''a=end-of-candidates'']"
    and M: "section_mline off m = ''m=video 9 UDP/TLS/RTP/SAVPF '' @ show_int (h264_payload_type off)"
    using False unfolding section_lines_def section_mline_def by (simp_all only: if_False)
  note v = video_lines_shape [OF assms(1-3)]
  have "\<forall>ip. Some ip \<in> set (tl (candidate_ips cfg)) \<longrightarrow> LF \<notin> set ip"
    using assms(1) by (cases "candidate_ips cfg") (auto simp: clean_config_def)
  note cl = candidate_lines_shape [OF this, of address "udp_port cfg" 1]
  have "plain_line ''a=end-of-candidates''" by (simp add: LF_def)
  then have "list_all plain_line (tl (video_lines off cfg address) @ [candidate_line 1 2130706431 address (udp_port cfg)] @
      candidate_lines address (udp_port cfg) 1 (tl (candidate_ips cfg)) @ [''a=end-of-candidates''])"
    using v(3) cl plain_candidate [OF assms(3)] by (simp only: list_all_append list.pred_inject simp_thms)
  moreover have "section_lines off cfg address m = section_mline off m # tl (video_lines off cfg address) @
      [candidate_line 1 2130706431 address (udp_port cfg)] @
      candidate_lines address (udp_port cfg) 1 (tl (candidate_ips cfg)) @ [''a=end-of-candidates'']"
    unfolding S M by (subst v(1)) (simp only: append_Cons)
  ultimately show ?thesis using v(2) unfolding M by blast
qed

lemma section_mline_short:
  assumes "offer_ok off" "m < 8" "0 \<le> h264_payload_type off" "h264_payload_type off < 128"
  shows "\<exists>w. section_mline off m = ''m='' @ w \<and> length (section_mline off m) < 512"
proof (cases "mline_count off > 0 \<and> int m \<noteq> video_mline off")
  case True
  have "mline_ok (mlines off ! m)" using assms(1,2) by (auto simp: offer_ok_def list_all_length sdp_consts)
  then show ?thesis using True
    by (auto simp: section_mline_def rejected_lines_def or_default_def mline_ok_def str_ok_def)
next
  case False
  have "length (show_int (h264_payload_type off)) \<le> 129"
    using assms(3,4) show_nat_length [of "nat (h264_payload_type off)"] by (simp add: show_int_def)
  moreover have "section_mline off m = ''m=video 9 UDP/TLS/RTP/SAVPF '' @ show_int (h264_payload_type off)"
    using False unfolding section_mline_def by (simp only: if_False)
  ultimately show ?thesis by simp
qed

lemma visible_section:
  assumes "clean_config cfg" "offer_ok off" "LF \<notin> set address" "m < 8"
    "0 \<le> h264_payload_type off" "h264_payload_type off < 128"
  shows "filter (prefix ''m='') (visible (section_lines off cfg address m)) = [c_str (strip_eol (section_mline off m))]"
proof -
  let ?h = "section_mline off m"
  obtain t where t: "section_lines off cfg address m = [?h] @ t" "list_all plain_line t"
    using section_lines_shape [OF assms(1-4)] by auto
  obtain w where w: "?h = ''m='' @ w" "length ?h < 512" using section_mline_short [OF assms(2,4-6)] by blast
  have "length (strip_eol ?h) < 512" using w(2) prefix_length_le [OF strip_eol_prefix [of ?h]] by simp
  then have "filter (prefix ''m='') (visible [?h]) = [c_str (strip_eol ?h)]"
    using mline_kept [of w] w(1) by (simp add: visible_def)
  moreover have "filter (prefix ''m='') (visible t) = []"
    using t(2) by (intro visible_other) (auto simp: list_all_iff)
  ultimately show ?thesis unfolding t(1) visible_append by simp
qed

lemma visible_sections:
  assumes "clean_config cfg" "offer_ok off" "LF \<notin> set address" "0 \<le> h264_payload_type off" "h264_payload_type off < 128"
    and "\<forall>m \<in> set ms. m < 8"
  shows "filter (prefix ''m='') (visible (concat (map (section_lines off cfg address) ms))) =
     map (\<lambda>m. c_str (strip_eol (section_mline off m))) ms"
  using assms(6)
proof (induction ms)
  case (Cons m ms)
  then show ?case using visible_section [OF assms(1-3) _ assms(4,5), of m] by (simp add: visible_append)
qed (simp add: visible_def)

section \<open>Properties of the answer\<close>

text \<open>
  C39: the answer is never truncated. For every well formed offer the builder stays inside the
  arrays and either returns the complete text and its length, when it fits the buffer with its
  terminator, or 0 and an empty string. The text has the session part and one section per media
  section of the offer, in offer order.
\<close>

theorem sdp_build_answer_complete:
  assumes "offer_ok off" "0 < cap" "candidate_ips cfg = Some address # ips"
  shows "sdp_build_answer (Some off) (Some cfg) (Some dst) cap = Some
     (let T = text_lines (answer_lines off cfg address)
      in if length T < cap then (length T, Some T) else (0, Some []))"
  by (rule build_answer_lines) (use assms in \<open>auto simp: offer_ok_def\<close>)

definition demo_config :: SdpAnswerConfig where
  "demo_config = \<lparr>cfg_fingerprint = ''sha-256 AA'', cfg_ice_ufrag = ''uf'', cfg_ice_pwd = ''pw'',
     candidate_ips = [Some ''10.0.0.1''], udp_port = 5000, cfg_ssrc = 7\<rparr>"

lemma empty_offer_ok: "offer_ok empty_offer"
  using empty_ctx_ok by (simp add: ctx_ok_def empty_context_def)

theorem sdp_build_answer_witness:
  "sdp_build_answer (Some empty_offer) (Some demo_config) (Some []) 1 = Some (0, Some [])"
proof -
  have "\<not> length (text_lines (answer_lines empty_offer demo_config ''10.0.0.1'')) < 1"
    by (simp add: answer_lines_def session_lines_def text_lines_def)
  with sdp_build_answer_complete [OF empty_offer_ok, of 1 demo_config "''10.0.0.1''" "[]" "[]"]
  show ?thesis by (simp add: demo_config_def)
qed

text \<open>
  An answer that fits repeats the media sections of the offer exactly (JSEP): read back line by
  line it has one media line per offered section, in the same order, port 0 for every section but
  the chosen video one. No field of the offer can add a line to it.
\<close>

theorem sdp_answer_media_sections:
  assumes "offer_ok off" "clean_config cfg" "candidate_ips cfg = Some address # ips"
    and "0 \<le> h264_payload_type off" "h264_payload_type off < 128"
    and "sdp_build_answer (Some off) (Some cfg) (Some dst) cap = Some (n, Some T)" "0 < n"
  shows "filter (prefix ''m='') (sdp_lines T) = map (\<lambda>m. c_str (strip_eol (section_mline off m))) [0..<sections off] \<and>
     n = length T"
proof -
  have cap: "0 < cap" using assms(6,7) by (cases cap) (auto simp: sdp_build_answer_def assms(3))
  have T: "T = text_lines (answer_lines off cfg address)" "n = length T"
    using build_answer_lines [OF _ cap assms(3), of off dst] assms(1,6,7)
    by (auto simp: offer_ok_def Let_def split: if_splits)
  have addr: "LF \<notin> set address" using assms(2,3) by (simp add: clean_config_def)
  have le: "sections off \<le> 8" using assms(1) by (simp add: sections_def offer_ok_def sdp_consts)
  have "LF \<notin> set l" if l: "l \<in> set (answer_lines off cfg address)" for l
  proof (cases "l \<in> set (session_lines off cfg address)")
    case True
    then show ?thesis using session_lines_shape [OF assms(2,1) addr] by (auto simp: list_all_iff)
  next
    case False
    then obtain m where "m < sections off" and lm: "l \<in> set (section_lines off cfg address m)"
      using l by (auto simp: answer_lines_def)
    then have m: "m < 8" "l \<in> set (section_lines off cfg address m)" using le by simp_all
    then show ?thesis using section_lines_shape [OF assms(2,1) addr m(1)] by (auto simp: list_all_iff)
  qed
  then have lines: "sdp_lines T = visible (answer_lines off cfg address)"
    unfolding T(1) visible_def by (intro sdp_lines_text) blast
  have "filter (prefix ''m='') (visible (session_lines off cfg address)) = []"
    using session_lines_shape [OF assms(2,1) addr] by (intro visible_other) (auto simp: list_all_iff)
  moreover have "\<forall>m \<in> set [0..<sections off]. m < 8" using le by auto
  note visible_sections [OF assms(2,1) addr assms(4,5) this]
  ultimately show ?thesis unfolding lines answer_lines_def visible_append using T(2) by simp
qed

theorem sdp_answer_media_witness:
  "\<exists>n T. sdp_build_answer (Some (empty_offer\<lparr>h264_payload_type := 96\<rparr>)) (Some demo_config) (Some []) 4096 = Some (n, Some T) \<and>
     length (filter (prefix ''m='') (sdp_lines T)) = 1"
proof -
  let ?o = "empty_offer\<lparr>h264_payload_type := 96\<rparr>"
  let ?T = "text_lines (answer_lines ?o demo_config ''10.0.0.1'')"
  have ok: "offer_ok ?o" using empty_offer_ok by (simp add: offer_ok_def formats_def)
  have cfg: "clean_config demo_config" "candidate_ips demo_config = Some ''10.0.0.1'' # []"
    by (auto simp: clean_config_def demo_config_def LF_def)
  have len: "length ?T < 4096" "0 < length ?T"
    by (simp_all add: text_lines_def crlf_def answer_lines_def session_lines_def sections_def empty_offer_def
        section_lines_def video_lines_def candidate_line_def demo_config_def or_default_def show_int_def
        show_nat.simps Let_def)
  have run: "sdp_build_answer (Some ?o) (Some demo_config) (Some []) 4096 = Some (length ?T, Some ?T)"
    using build_answer_lines [of ?o 4096 demo_config "''10.0.0.1''" "[]" "[]"] ok cfg(2) len
    by (simp add: offer_ok_def Let_def)
  from sdp_answer_media_sections [OF ok cfg _ _ run len(2)] have
    "length (filter (prefix ''m='') (sdp_lines ?T)) = length (map (\<lambda>m. c_str (strip_eol (section_mline ?o m))) [0..<sections ?o])"
    by simp
  then have "length (filter (prefix ''m='') (sdp_lines ?T)) = 1" by (simp add: sections_def empty_offer_def)
  with run show ?thesis by blast
qed

end
