(* ===== verification/Rtc_Session.thy ===== *)
theory Rtc_Session
  imports Dtls_Srtp Ice_Lite Rtp_H264 Rtcp Sdp
begin

text \<open>
  One browser viewer (\<open>src/src/webrtc/webrtc_session.c\<close>): the session state machine that ties
  ICE-lite, DTLS-SRTP, the RTP packetizer and RTCP together, with its callbacks into and out of
  the DTLS engine, the retransmission cache and the timers.

  The state of an operation is a \<open>dtls_world\<close> whose user is the \<open>RtcSession\<close>; the pointers
  \<open>session->dtls\<close> and \<open>cb.user\<close> of the code become its two parts. What the operating system and
  the libraries answer (clocks, \<open>sendto\<close>, HMAC, OpenSSL, libsrtp2, uninitialised stack buffers)
  is the record \<open>rtc_env\<close>; successive calls of a clock or of \<open>sendto\<close> are numbered by the
  counters \<open>reads\<close> and \<open>sends\<close>. Everything the session does to the outside is an entry of its
  \<open>trace\<close>: datagrams, keyframe requests to the encoder and the close hook of the server. Log
  output is left out, the counters that limit it are kept. A session handle is never \<open>NULL\<close>.
\<close>

section \<open>State\<close>

definition SESSION_IDLE_TIMEOUT_MS :: u64 where "SESSION_IDLE_TIMEOUT_MS = 15000"
definition SESSION_DTLS_WATCHDOG_MS :: u64 where "SESSION_DTLS_WATCHDOG_MS = 30000"
definition IDR_MIN_INTERVAL_MS :: u64 where "IDR_MIN_INTERVAL_MS = 400"
definition RTCP_SR_INTERVAL_MS :: u64 where "RTCP_SR_INTERVAL_MS = 1000"
definition RETX_CACHE_SIZE :: nat where "RETX_CACHE_SIZE = 512"
definition MAX_SEND_ERROR_LOGS :: u32 where "MAX_SEND_ERROR_LOGS = 5"
definition SDP_MAX_CANDIDATES :: nat where "SDP_MAX_CANDIDATES = 8"

lemmas session_consts = SESSION_IDLE_TIMEOUT_MS_def SESSION_DTLS_WATCHDOG_MS_def IDR_MIN_INTERVAL_MS_def
  RTCP_SR_INTERVAL_MS_def RETX_CACHE_SIZE_def MAX_SEND_ERROR_LOGS_def

datatype RtcSessionState = RTC_NEW | RTC_ICE | RTC_DTLS | RTC_STREAMING | RTC_CLOSED

record RtcSessionConfig =
  rc_id :: u32
  rc_udp_port :: u16
  rc_candidate_ips :: "string list"
  rc_candidate_count :: nat
  rc_offer :: SdpOffer
  rc_signaling_peer :: string
  rc_on_idr_request :: bool
  rc_on_closed :: bool

record RtcSessionStats =
  datagrams_rx :: u64
  packets_sent :: u64
  bytes_sent :: u64
  retransmissions :: u64
  send_errors :: u64
  pli_received :: u32
  nacks_received :: u32
  rtcp_sent :: u32
  stun_rx :: u32
  stun_ok :: u32
  stun_bad :: u32
  peer_moved :: u32
  frames_sent :: u64
  keyframes_sent :: u64
  frames_held :: u64
  last_media_ms :: u64
  rr_received :: u32
  last_rr_ms :: u64
  waiting_keyframe :: bool
  rtt_ms :: int
  fraction_lost :: u8
  jitter :: u32
  peer :: string
  signaling_peer :: string
  stat_payload_type :: u8
  stat_profile_level_id :: string

datatype rtc_event = SentTo bytes Sockaddr | IdrRequest | SessionClosed

record RtcSession =
  config :: RtcSessionConfig
  rtc_state :: RtcSessionState
  udp_fd :: int
  local_ufrag :: string
  local_pwd :: string
  remote :: Sockaddr
  have_remote :: bool
  packetizer :: "RtpH264 option"
  created_ms :: u64
  last_rx_ms :: u64
  last_idr_ms :: u64
  next_sr_ms :: u64
  idr_requested :: bool
  streaming_announced :: bool
  datagrams_logged :: u32
  send_errors_logged :: u32
  stats :: RtcSessionStats
  retx_data :: "bytes list"
  retx_len :: "u16 list"
  retx_seq :: "u16 list"
  reads :: nat
  sends :: nat
  trace :: "rtc_event list"

type_synonym 's rtc_world = "('s, RtcSession) dtls_world"

record 's rtc_env =
  mono_clock :: "nat \<Rightarrow> u64 \<times> u64"
  wall_clock :: "nat \<Rightarrow> u64 \<times> u64"
  sendto :: "nat \<Rightarrow> int"
  hmac :: "bytes \<Rightarrow> bytes \<Rightarrow> bytes option"
  mac_stack :: bytes
  stack_scratch :: bytes
  heap :: "nat \<Rightarrow> bytes option"
  response_stack :: bytes
  rtp_stack :: bytes
  rx_mem_ok :: bool
  tls :: "'s ssl_env"
  srtp_protect :: "'s srtp_op"
  srtp_protect_rtcp :: "'s srtp_op"
  srtp_unprotect_rtcp :: "'s srtp_op"

section \<open>Clocks and helpers\<close>

definition now_ms :: "'s rtc_env \<Rightarrow> RtcSession \<Rightarrow> u64 \<times> RtcSession" where
  "now_ms env s =
     (let (tv_sec, tv_nsec) = mono_clock env (reads s)
      in (tv_sec * 1000 + tv_nsec div 1000000, s\<lparr>reads := reads s + 1\<rparr>))"

definition wall_us :: "'s rtc_env \<Rightarrow> RtcSession \<Rightarrow> u64 \<times> RtcSession" where
  "wall_us env s =
     (let (tv_sec, tv_nsec) = wall_clock env (reads s)
      in (tv_sec * 1000000 + tv_nsec div 1000, s\<lparr>reads := reads s + 1\<rparr>))"

definition ntp_msw :: "u64 \<Rightarrow> u32" where
  "ntp_msw us =
     (let ntp_seconds = us div 1000000 + 2208988800;
          ntp_fraction = (ucast (push_bit 32 (us mod 1000000) div 1000000) :: u32)
      in ucast (push_bit 16 (ntp_seconds AND 0xFFFF)) OR drop_bit 16 ntp_fraction)"

definition set_state :: "RtcSessionState \<Rightarrow> RtcSession \<Rightarrow> RtcSession" where
  "set_state state s = (if rtc_state s = state then s else s\<lparr>rtc_state := state\<rparr>)"

text \<open>\<open>inet_ntop(AF_INET, ..)\<close>; a 16 character array holds every result.\<close>

definition inet_ntop4 :: "u32 \<Rightarrow> string" where
  "inet_ntop4 a =
     show_nat (unat (drop_bit 24 a)) @ ''.'' @ show_nat (unat (drop_bit 16 a AND 0xFF)) @ ''.'' @
     show_nat (unat (drop_bit 8 a AND 0xFF)) @ ''.'' @ show_nat (unat (a AND 0xFF))"

definition format_peer :: "Sockaddr \<Rightarrow> string \<times> u16" where
  "format_peer source =
     (case source of
        AF_INET port addr \<Rightarrow> (inet_ntop4 addr, port)
      | AF_OTHER \<Rightarrow> (''?'', 0))"

definition peer_text :: "string \<Rightarrow> u16 \<Rightarrow> string" where
  "peer_text ip port = fit 32 (ip @ '':'' @ show_nat (unat port))"

definition str_bytes :: "string \<Rightarrow> bytes" where
  "str_bytes s = map (\<lambda>c. of_nat (of_char c)) s"

definition upd_stats :: "(RtcSessionStats \<Rightarrow> RtcSessionStats) \<Rightarrow> RtcSession \<Rightarrow> RtcSession" where
  "upd_stats f s = s\<lparr>stats := f (stats s)\<rparr>"

definition session_sendto :: "'s rtc_env \<Rightarrow> bytes \<Rightarrow> Sockaddr \<Rightarrow> RtcSession \<Rightarrow> int \<times> RtcSession" where
  "session_sendto env data destination s =
     (let sent = sendto env (sends s);
          s = s\<lparr>sends := sends s + 1, trace := trace s @ [SentTo data destination]\<rparr>
      in if sent = int (length data) then (0, s)
         else
           (let s = upd_stats (\<lambda>st. st\<lparr>send_errors := send_errors st + 1\<rparr>) s;
                s = (if send_errors_logged s < MAX_SEND_ERROR_LOGS
                     then s\<lparr>send_errors_logged := send_errors_logged s + 1\<rparr>
                     else if send_errors_logged s = MAX_SEND_ERROR_LOGS
                     then s\<lparr>send_errors_logged := send_errors_logged s + 1\<rparr>
                     else s)
            in (-1, s)))"

definition stun_send_error :: "'s rtc_env \<Rightarrow> bytes \<Rightarrow> u16 \<Rightarrow> Sockaddr \<Rightarrow> RtcSession \<Rightarrow> RtcSession option" where
  "stun_send_error env tid code source s = do {
     (rc, out, n) \<leftarrow> stun_build_error_response (Some tid) code (Some (response_stack env)) 0;
     if rc = 0 then do {
       out \<leftarrow> out;
       bs \<leftarrow> rd_range out 0 n;
       Some (snd (session_sendto env bs source s)) }
     else Some s }"

section \<open>DTLS callbacks\<close>

definition dtls_send_udp :: "'s rtc_env \<Rightarrow> bytes \<Rightarrow> 's rtc_world \<Rightarrow> 's rtc_world option" where
  "dtls_send_udp env dgram w =
     (let s = user w in
      if udp_fd s < 0 \<or> \<not> have_remote s then Some w
      else Some (w\<lparr>user := snd (session_sendto env dgram (remote s) s)\<rparr>))"

definition rtc_session_request_idr :: "'s rtc_env \<Rightarrow> RtcSession \<Rightarrow> RtcSession" where
  "rtc_session_request_idr env s =
     (if \<not> rc_on_idr_request (config s) then s
      else
        (let (now, s) = now_ms env s in
         if last_idr_ms s \<noteq> 0 \<and> now - last_idr_ms s < IDR_MIN_INTERVAL_MS then s
         else s\<lparr>last_idr_ms := now, idr_requested := True, trace := trace s @ [IdrRequest]\<rparr>))"

definition dtls_on_connected :: "'s rtc_env \<Rightarrow> 's rtc_world \<Rightarrow> 's rtc_world option" where
  "dtls_on_connected env w =
     (let s = set_state RTC_STREAMING (user w);
          s = upd_stats (\<lambda>st. st\<lparr>waiting_keyframe := True\<rparr>) s;
          s = rtc_session_request_idr env s;
          (now, s) = now_ms env s
      in Some (w\<lparr>user := s\<lparr>next_sr_ms := now + RTCP_SR_INTERVAL_MS\<rparr>\<rparr>))"

text \<open>
  \<open>rtc_session_close\<close> closes the engine, whose state callback calls \<open>rtc_session_close\<close> again.
  The callback is therefore defined over the close operation, and the recursion is justified by
  the congruence rules: the callback only ever runs on a session that is marked closed. The BIO
  methods that \<open>SSL_shutdown\<close> may run use \<open>send_udp\<close> only.
\<close>

definition dtls_on_state_with ::
  "('s rtc_world \<Rightarrow> 's rtc_world option) \<Rightarrow> DtlsSrtpState \<Rightarrow> 's rtc_world \<Rightarrow> 's rtc_world option" where
  "dtls_on_state_with close state w =
     (if state = DTLS_SRTP_HANDSHAKING then Some (w\<lparr>user := set_state RTC_DTLS (user w)\<rparr>)
      else if state = DTLS_SRTP_FAILED then close w
      else if state = DTLS_SRTP_CLOSED then close w
      else Some w)"

definition bio_callbacks :: "'s rtc_env \<Rightarrow> ('s, RtcSession) DtlsSrtpCallbacks" where
  "bio_callbacks env = \<lparr>send_udp = Some (dtls_send_udp env), on_connected = None, on_state = None\<rparr>"

lemma dtls_on_state_with_cong [fundef_cong]:
  "state = state' \<Longrightarrow> w = w' \<Longrightarrow> close w' = close' w' \<Longrightarrow> dtls_on_state_with close state w = dtls_on_state_with close' state' w'"
  by (simp add: dtls_on_state_with_def)

text \<open>The worlds on which \<open>dtls_srtp_close\<close> runs its callback.\<close>

definition after_shutdown :: "'s ssl_env \<Rightarrow> ('s, 'u) DtlsSrtpCallbacks \<Rightarrow> ('s, 'u) dtls_world \<Rightarrow> ('s, 'u) dtls_world \<Rightarrow> bool" where
  "after_shutdown io cb w v \<longleftrightarrow>
     (\<exists>w'. (w' = w \<or> (\<exists>got. run_bio cb (shutdown_bio io) w = Some (got, w'))) \<and> user v = user w')"

lemma dtls_srtp_close_cong [fundef_cong]:
  assumes "io = io'" "cb = cb'" "w = w'"
    and "\<And>st v. after_shutdown io' cb' w' v \<Longrightarrow> f st v = g st v"
  shows "dtls_srtp_close io cb (Some f) w = dtls_srtp_close io' cb' (Some g) w'"
proof -
  have "dtls_set_state (Some f) DTLS_SRTP_CLOSED v = dtls_set_state (Some g) DTLS_SRTP_CLOSED v"
    if "v = w' \<or> (\<exists>got. run_bio cb' (shutdown_bio io') w' = Some (got, v))" for v
  proof -
    have "after_shutdown io' cb' w' (v\<lparr>engine := e\<rparr>)" for e
      using that unfolding after_shutdown_def by (intro exI [of _ v]) simp
    then show ?thesis using assms(4) by (simp add: dtls_set_state_def Let_def)
  qed
  then show ?thesis
    by (auto simp: dtls_srtp_close_def assms(1-3) split: Option.bind_splits)
qed

lemma session_sendto_fields [simp]:
  "rtc_state (snd (session_sendto env d a s)) = rtc_state s"
  by (simp add: session_sendto_def upd_stats_def Let_def)

lemma run_bio_rtc_state:
  "run_bio (bio_callbacks env) ops w = Some (got, w') \<Longrightarrow> rtc_state (user w') = rtc_state (user w)"
proof (induction ops arbitrary: w got)
  case (Cons op ops)
  show ?case
  proof (cases op)
    case (BioRead n)
    with Cons show ?thesis by (fastforce split: Option.bind_splits)
  next
    case (BioWrite b)
    with Cons show ?thesis
      by (fastforce simp: bio_tx_write_def bio_callbacks_def dtls_send_udp_def Let_def split: Option.bind_splits if_splits)
  qed
qed simp

function rtc_session_close :: "'s rtc_env \<Rightarrow> 's rtc_world \<Rightarrow> 's rtc_world option" where
  "rtc_session_close env w =
     (if rtc_state (user w) = RTC_CLOSED then Some w
      else do {
        let w = w\<lparr>user := set_state RTC_CLOSED (user w)\<rparr>;
        w \<leftarrow> dtls_srtp_close (tls env) (bio_callbacks env)
               (Some (\<lambda>state v. dtls_on_state_with (rtc_session_close env) state v)) w;
        Some (if rc_on_closed (config (user w))
              then w\<lparr>user := (user w)\<lparr>trace := trace (user w) @ [SessionClosed]\<rparr>\<rparr> else w) })"
  by pat_completeness auto
termination
  by (relation "measure (\<lambda>(env, w). if rtc_state (user w) = RTC_CLOSED then 0 else 1)")
    (auto simp: after_shutdown_def set_state_def dest: run_bio_rtc_state)

declare rtc_session_close.simps [simp del]

definition dtls_on_state :: "'s rtc_env \<Rightarrow> DtlsSrtpState \<Rightarrow> 's rtc_world \<Rightarrow> 's rtc_world option" where
  "dtls_on_state env = dtls_on_state_with (rtc_session_close env)"

definition rtc_callbacks :: "'s rtc_env \<Rightarrow> ('s, RtcSession) DtlsSrtpCallbacks" where
  "rtc_callbacks env = \<lparr>send_udp = Some (dtls_send_udp env), on_connected = Some (dtls_on_connected env),
     on_state = Some (dtls_on_state env)\<rparr>"

definition retx_slot :: "u16 \<Rightarrow> nat" where
  "retx_slot seq = unat seq mod RETX_CACHE_SIZE"

fun nack_answers :: "'s rtc_env \<Rightarrow> u16 list \<Rightarrow> RtcSession \<Rightarrow> RtcSession option" where
  "nack_answers env [] s = Some s"
| "nack_answers env (seq # seqs) s = do {
     n \<leftarrow> rd (retx_len s) (retx_slot seq);
     q \<leftarrow> rd (retx_seq s) (retx_slot seq);
     if n = 0 \<or> q \<noteq> seq then nack_answers env seqs s
     else do {
       d \<leftarrow> rd (retx_data s) (retx_slot seq);
       bs \<leftarrow> rd_range d 0 (unat n);
       let (rc, s) = session_sendto env bs (remote s) s;
       let s = (if rc = 0 then upd_stats (\<lambda>st. st\<lparr>retransmissions := retransmissions st + 1\<rparr>) s else s);
       nack_answers env seqs s } }"

definition handle_nacks :: "'s rtc_env \<Rightarrow> RtcpFeedback \<Rightarrow> RtcSession \<Rightarrow> RtcSession option" where
  "handle_nacks env feedback s = do {
     seqs \<leftarrow> rd_range (nack_seq feedback) 0 (nack_seqs feedback);
     nack_answers env seqs s }"

text \<open>A receiver report about our own stream.\<close>

definition note_report :: "'s rtc_env \<Rightarrow> RtcpFeedback \<Rightarrow> RtcSession \<Rightarrow> RtcSession" where
  "note_report env feedback s =
     (let s = upd_stats (\<lambda>st. st\<lparr>rr_received := rr_received st + 1\<rparr>) s;
          (now, s) = now_ms env s;
          s = upd_stats (\<lambda>st. st\<lparr>last_rr_ms := now, fraction_lost := rr_fraction_lost feedback,
                                 jitter := rr_jitter feedback\<rparr>) s;
          (wall, s) = wall_us env s;
          rtt = rtcp_rtt_ms (ntp_msw wall) (rr_last_sr feedback) (rr_delay_since_sr feedback)
      in if rtt \<ge> 0 then upd_stats (\<lambda>st. st\<lparr>rtt_ms := rtt\<rparr>) s else s)"

definition dtls_on_rtcp :: "'s rtc_env \<Rightarrow> bytes \<Rightarrow> 's rtc_world \<Rightarrow> 's rtc_world option" where
  "dtls_on_rtcp env plain w = do {
     let media = rtp_h264_ssrc (packetizer (user w));
     feedback \<leftarrow> rtcp_parse plain media;
     if bye feedback then rtc_session_close env w
     else do {
       let s = user w;
       let s = (if pli feedback > 0 \<or> fir feedback > 0
                then rtc_session_request_idr env
                       (upd_stats (\<lambda>st. st\<lparr>pli_received := pli_received st + (of_int (pli feedback) + of_int (fir feedback))\<rparr>) s)
                else s);
       let s = (if has_rr feedback \<and> rr_ssrc feedback = media then note_report env feedback s else s);
       s \<leftarrow> (if nack_seqs feedback > 0
             then handle_nacks env feedback
                    (upd_stats (\<lambda>st. st\<lparr>nacks_received := nacks_received st + of_nat (nack_seqs feedback)\<rparr>) s)
             else Some s);
       Some (w\<lparr>user := s\<rparr>) } }"

section \<open>RTP send path\<close>

definition rtp_packet_sink :: "'s rtc_env \<Rightarrow> RtpSent \<Rightarrow> 's rtc_world \<Rightarrow> 's rtc_world option" where
  "rtp_packet_sink env p w =
     (if length (pkt p) > RTP_MAX_PACKET + 64 \<or> length (pkt p) < RTP_HEADER_SIZE then Some w
      else do {
        (rc, buffer, w) \<leftarrow> dtls_srtp_send_rtp (srtp_protect env) (rtc_callbacks env) (RTP_MAX_PACKET + 64) (pkt p) w;
        if rc \<noteq> 0 then Some w
        else do {
          let s = user w;
          let slot = retx_slot (seq_no p);
          row \<leftarrow> rd (retx_data s) slot;
          row \<leftarrow> memcpy_to row 0 buffer;
          data \<leftarrow> wr (retx_data s) slot row;
          lens \<leftarrow> wr (retx_len s) slot (of_nat (length buffer));
          seqs \<leftarrow> wr (retx_seq s) slot (seq_no p);
          let s = s\<lparr>retx_data := data, retx_len := lens, retx_seq := seqs\<rparr>;
          let s = upd_stats (\<lambda>st. st\<lparr>packets_sent := packets_sent st + 1,
                                     bytes_sent := bytes_sent st + of_nat (length (pkt p))\<rparr>) s;
          Some (w\<lparr>user := s\<rparr>) } })"

fun sink_all :: "'s rtc_env \<Rightarrow> RtpSent list \<Rightarrow> 's rtc_world \<Rightarrow> 's rtc_world option" where
  "sink_all env [] w = Some w"
| "sink_all env (p # ps) w = do { w \<leftarrow> rtp_packet_sink env p w; sink_all env ps w }"

section \<open>Session API\<close>

definition alphabet :: string where
  "alphabet = ''abcdefghijklmnopqrstuvwxyzABCDEFGHIJKLMNOPQRSTUVWXYZ0123456789''"

definition pick :: "u8 \<Rightarrow> char" where
  "pick b = alphabet ! (unat b mod 52)"

text \<open>\<open>raw\<close> is what \<open>RAND_bytes\<close> wrote into the 32 byte array, \<open>None\<close> when it failed.\<close>

definition generate_credentials :: "bytes option \<Rightarrow> nat \<Rightarrow> nat \<Rightarrow> (string \<times> string) option" where
  "generate_credentials raw ufrag_size pwd_size =
     (case raw of
        None \<Rightarrow> None
      | Some r \<Rightarrow> Some (map pick (take (min 8 (ufrag_size - 1)) r),
                        map pick (take (min 24 (pwd_size - 1)) (drop 8 r))))"

definition session_free :: "'s rtc_world \<Rightarrow> bytes list" where
  "session_free w = dtls_srtp_session_destroy (engine w)"

record rtc_create_env =
  ce_calloc_ok :: bool
  ce_retx :: "bytes list option"
  ce_rand :: "bytes option"
  ce_socket :: "int \<times> u16"
  ce_globals :: DtlsGlobals
  ce_dtls :: create_env
  ce_rtp_ok :: bool
  ce_ssrc :: "u32 option"
  ce_clock :: "u64 \<times> u64"

definition zero_session_stats :: RtcSessionStats where
  "zero_session_stats = \<lparr>datagrams_rx = 0, packets_sent = 0, bytes_sent = 0, retransmissions = 0, send_errors = 0,
     pli_received = 0, nacks_received = 0, rtcp_sent = 0, stun_rx = 0, stun_ok = 0, stun_bad = 0, peer_moved = 0,
     frames_sent = 0, keyframes_sent = 0, frames_held = 0, last_media_ms = 0, rr_received = 0, last_rr_ms = 0,
     waiting_keyframe = False, rtt_ms = - 1, fraction_lost = 0, jitter = 0, peer = ''-'', signaling_peer = [],
     stat_payload_type = 0, stat_profile_level_id = []\<rparr>"

text \<open>
  \<open>candidate_count\<close> is the length of the list \<open>candidate_ips\<close>; the pointers that the copy loop does
  not reach are null.
\<close>

definition answer_config :: "RtcSessionConfig \<Rightarrow> string \<Rightarrow> string \<Rightarrow> string \<Rightarrow> u16 \<Rightarrow> u32 \<Rightarrow> SdpAnswerConfig" where
  "answer_config cfg fp ufrag pwd port media =
     \<lparr>cfg_fingerprint = fp, cfg_ice_ufrag = ufrag, cfg_ice_pwd = pwd,
      candidate_ips = map (\<lambda>i. if i < SDP_MAX_CANDIDATES then Some (rc_candidate_ips cfg ! i) else None)
                        [0..<rc_candidate_count cfg],
      udp_port = port, cfg_ssrc = media\<rparr>"

text \<open>
  The result: the return code, the session with the new engine, and the answer text. Every
  failing branch releases what it has allocated so far and reports no session.
\<close>

definition rtc_session_create ::
  "rtc_create_env \<Rightarrow> RtcSessionConfig \<Rightarrow> nat \<Rightarrow> string \<Rightarrow> DtlsSrtpGlobalStats \<Rightarrow> (int \<times> 's rtc_world option \<times> string) option" where
  "rtc_session_create ce cfg answer_capacity answer gs =
     (if \<not> ce_calloc_ok ce then Some (-1, None, answer)
      else case ce_retx ce of
        None \<Rightarrow> Some (-1, None, answer)
      | Some rows \<Rightarrow>
      case generate_credentials (ce_rand ce) 16 44 of
        None \<Rightarrow> Some (-1, None, answer)
      | Some (ufrag, pwd) \<Rightarrow>
      let (fd, bound_port) = ce_socket ce in
      if fd < 0 then Some (-1, None, answer)
      else case dtls_srtp_session_create (ce_dtls ce) (ce_globals ce) of
        None \<Rightarrow> Some (-1, None, answer)
      | Some e \<Rightarrow> do {
          let e = dtls_srtp_set_expected_fingerprint (Some (fingerprint (rc_offer cfg))) e;
          case rtp_h264_create (ce_rtp_ok ce) of
            None \<Rightarrow> Some (-1, None, answer)
          | Some r \<Rightarrow>
            if ce_ssrc ce = None \<or> ce_ssrc ce = Some 0 then Some (-1, None, answer)
            else do {
              let media = the (ce_ssrc ce);
              let r = rtp_h264_reset (Some r) media (of_int (h264_payload_type (rc_offer cfg)));
              let now = fst (ce_clock ce) * 1000 + snd (ce_clock ce) div 1000000;
              (built, out) \<leftarrow> sdp_build_answer (Some (rc_offer cfg))
                 (Some (answer_config cfg (dtls_srtp_local_fingerprint (ce_globals ce)) ufrag pwd bound_port media))
                 (Some answer) answer_capacity;
              if built = 0 then Some (-1, None, case out of None \<Rightarrow> answer | Some a \<Rightarrow> a)
              else do {
                let plid = h264_profile_level_id (rc_offer cfg);
                let s = \<lparr>config = cfg, rtc_state = RTC_NEW, udp_fd = fd, local_ufrag = ufrag, local_pwd = pwd,
                  remote = AF_OTHER, have_remote = False, packetizer = r, created_ms = now, last_rx_ms = now,
                  last_idr_ms = 0, next_sr_ms = 0, idr_requested = False, streaming_announced = False,
                  datagrams_logged = 0, send_errors_logged = 0,
                  stats = zero_session_stats\<lparr>
                    signaling_peer := fit 48 (if rc_signaling_peer cfg \<noteq> [] then rc_signaling_peer cfg else ''-''),
                    stat_payload_type := of_int (h264_payload_type (rc_offer cfg)),
                    stat_profile_level_id := fit 8 (if plid \<noteq> [] then plid else ''42e01f'')\<rparr>,
                  retx_data = rows, retx_len = replicate RETX_CACHE_SIZE 0, retx_seq = replicate RETX_CACHE_SIZE 0,
                  reads = 0, sends = 0, trace = []\<rparr>;
                Some (0, Some \<lparr>engine = e, g_stats = gs, user = s\<rparr>, case out of None \<Rightarrow> answer | Some a \<Rightarrow> a) } } })"

definition rtc_session_fd :: "RtcSession option \<Rightarrow> int" where
  "rtc_session_fd session = (case session of None \<Rightarrow> -1 | Some s \<Rightarrow> udp_fd s)"

text \<open>The source of an authenticated check becomes the destination of the media.\<close>

definition track_peer :: "Sockaddr \<Rightarrow> string \<Rightarrow> u16 \<Rightarrow> RtcSession \<Rightarrow> RtcSession" where
  "track_peer source ip port s =
     (if \<not> have_remote s
      then upd_stats (\<lambda>st. st\<lparr>peer := peer_text ip port\<rparr>) (s\<lparr>remote := source, have_remote := True\<rparr>)
      else
        (let (old_ip, old_port) = format_peer (remote s) in
         if old_ip \<noteq> ip \<or> old_port \<noteq> port
         then upd_stats (\<lambda>st. st\<lparr>peer_moved := peer_moved st + 1, peer := peer_text ip port\<rparr>) (s\<lparr>remote := source\<rparr>)
         else s))"

definition send_binding_response :: "'s rtc_env \<Rightarrow> bytes \<Rightarrow> Sockaddr \<Rightarrow> RtcSession \<Rightarrow> RtcSession option" where
  "send_binding_response env buffer source s = do {
     (rc, out, n) \<leftarrow> stun_build_binding_response (hmac env) (mac_stack env) (Some (str_bytes (local_pwd s))) buffer
        (Some source) (response_stack env) 0;
     if rc = 0 then do {
       bs \<leftarrow> rd_range out 0 n;
       Some (snd (session_sendto env bs source s)) }
     else Some s }"

definition handle_stun :: "'s rtc_env \<Rightarrow> bytes \<Rightarrow> Sockaddr \<Rightarrow> string \<Rightarrow> u16 \<Rightarrow> RtcSession \<Rightarrow> RtcSession option" where
  "handle_stun env buffer source ip port s = do {
     let s = upd_stats (\<lambda>st. st\<lparr>stun_rx := stun_rx st + 1\<rparr>) s;
     let (now, s) = now_ms env s;
     let s = s\<lparr>last_rx_ms := now\<rparr>;
     indication \<leftarrow> stun_is_binding_indication buffer;
     if indication then Some s
     else do {
       request \<leftarrow> stun_is_binding_request buffer;
       case request of
         None \<Rightarrow> Some s
       | Some tid \<Rightarrow> do {
           username \<leftarrow> stun_copy_username buffer (Some (replicate 160 0));
           authentic \<leftarrow> stun_verify_mi (hmac env) (stack_scratch env) (heap env) (Some buffer) (Some (str_bytes (local_pwd s)));
           if \<not> authentic then stun_send_error env tid 401 source (upd_stats (\<lambda>st. st\<lparr>stun_bad := stun_bad st + 1\<rparr>) s)
           else do {
             known \<leftarrow> stun_username_matches buffer (Some (str_bytes (local_ufrag s)));
             if \<not> known then stun_send_error env tid 401 source (upd_stats (\<lambda>st. st\<lparr>stun_bad := stun_bad st + 1\<rparr>) s)
             else do {
               let s = upd_stats (\<lambda>st. st\<lparr>stun_ok := stun_ok st + 1\<rparr>) s;
               let s = track_peer source ip port s;
               let s = (if rtc_state s = RTC_NEW then set_state RTC_ICE s else s);
               send_binding_response env buffer source s } } } } }"

text \<open>
  \<open>buffer\<close> is the datagram; a read past its length is an access outside of it, although the
  server loop's array is larger.
\<close>

definition on_rtp :: "'s rtc_env \<Rightarrow> bytes \<Rightarrow> 's rtc_world \<Rightarrow> 's rtc_world option" where
  "on_rtp env buffer w = do {
     b \<leftarrow> rd buffer 1;
     let pt = b AND 0x7F;
     if pt \<ge> 64 \<and> pt \<le> 95 \<and> rtc_state (user w) = RTC_STREAMING then do {
       let (now, s) = now_ms env (user w);
       let w = w\<lparr>user := s\<lparr>last_rx_ms := now\<rparr>\<rparr>;
       if length buffer > 1500 then Some w
       else do {
         (rc, plain, e) \<leftarrow> dtls_srtp_unprotect_rtcp (srtp_unprotect_rtcp env) buffer (engine w);
         let w = w\<lparr>engine := e\<rparr>;
         if rc = 0 then dtls_on_rtcp env plain w else Some w } }
     else Some w }"

definition rtc_session_on_udp :: "'s rtc_env \<Rightarrow> bytes \<Rightarrow> Sockaddr \<Rightarrow> 's rtc_world \<Rightarrow> 's rtc_world option" where
  "rtc_session_on_udp env buffer source w =
     (if rtc_state (user w) = RTC_CLOSED then Some w
      else do {
        let s = upd_stats (\<lambda>st. st\<lparr>datagrams_rx := datagrams_rx st + 1\<rparr>) (user w);
        let (ip, port) = format_peer source;
        kind \<leftarrow> rtc_classify_packet buffer;
        let s = (if datagrams_logged s < 8 then s\<lparr>datagrams_logged := datagrams_logged s + 1\<rparr> else s);
        let w = w\<lparr>user := s\<rparr>;
        case kind of
          RTC_PKT_STUN \<Rightarrow> do {
            s \<leftarrow> handle_stun env buffer source ip port s;
            Some (w\<lparr>user := s\<rparr>) }
        | RTC_PKT_DTLS \<Rightarrow>
            if \<not> have_remote s then Some w
            else do {
              let (now, s) = now_ms env s;
              dtls_srtp_on_udp (tls env) (rtc_callbacks env) (rx_mem_ok env) buffer (w\<lparr>user := s\<lparr>last_rx_ms := now\<rparr>\<rparr>) }
        | RTC_PKT_RTP \<Rightarrow> on_rtp env buffer w
        | RTC_PKT_OTHER \<Rightarrow> Some w })"

definition elapsed :: "u64 \<Rightarrow> u64 \<Rightarrow> u64" where
  "elapsed now since = (if now \<ge> since then now - since else 0)"

definition send_report :: "'s rtc_env \<Rightarrow> 's rtc_world \<Rightarrow> 's rtc_world option" where
  "send_report env w = do {
     let s = user w;
     let (tv_sec, tv_nsec) = mono_clock env (reads s);
     let mono_us = tv_sec * 1000000 + tv_nsec div 1000;
     let (wall, s) = wall_us env (s\<lparr>reads := reads s + 1\<rparr>);
     (n, sr) \<leftarrow> rtcp_build_sender_report (replicate (RTCP_SR_SIZE + 16) 0) (rtp_h264_ssrc (packetizer s)) wall
        (rtp_h264_timestamp_at (packetizer s) mono_us) (rtp_h264_packet_count (packetizer s))
        (rtp_h264_octet_count (packetizer s));
     let w = w\<lparr>user := s\<rparr>;
     if frames_sent (stats s) > 0 then do {
       report \<leftarrow> rd_range sr 0 RTCP_SR_SIZE;
       (rc, report, w) \<leftarrow> dtls_srtp_send_rtcp (srtp_protect_rtcp env) (rtc_callbacks env) (length sr) report w;
       Some (if rc = 0 then w\<lparr>user := upd_stats (\<lambda>st. st\<lparr>rtcp_sent := rtcp_sent st + 1\<rparr>) (user w)\<rparr> else w) }
     else Some w }"

definition rtc_session_tick :: "'s rtc_env \<Rightarrow> u64 \<Rightarrow> 's rtc_world \<Rightarrow> 's rtc_world option" where
  "rtc_session_tick env now w =
     (if rtc_state (user w) = RTC_CLOSED then Some w
      else if elapsed now (last_rx_ms (user w)) > SESSION_IDLE_TIMEOUT_MS then rtc_session_close env w
      else if rtc_state (user w) = RTC_ICE \<and> elapsed now (created_ms (user w)) > SESSION_DTLS_WATCHDOG_MS
      then rtc_session_close env w
      else do {
        w \<leftarrow> dtls_srtp_tick (tls env) (rtc_callbacks env) w;
        if rtc_state (user w) = RTC_STREAMING \<and> now \<ge> next_sr_ms (user w) then do {
          w \<leftarrow> send_report env w;
          Some (w\<lparr>user := (user w)\<lparr>next_sr_ms := now + RTCP_SR_INTERVAL_MS\<rparr>\<rparr>) }
        else Some w })"

text \<open>The packetizer and the sink: the packets of one access unit, in order.\<close>

definition send_packets :: "'s rtc_env \<Rightarrow> bytes \<Rightarrow> u64 \<Rightarrow> bool \<Rightarrow> 's rtc_world \<Rightarrow> (int \<times> 's rtc_world) option" where
  "send_packets env access_unit pts_us is_idr w = do {
     (count, p, ps) \<leftarrow> rtp_h264_packetize (rtp_stack env) (packetizer (user w)) (Some access_unit) pts_us True;
     w \<leftarrow> sink_all env ps w;
     let s = (user w)\<lparr>packetizer := p\<rparr>;
     let s = (if count > 0
              then (let s = upd_stats (\<lambda>st. st\<lparr>frames_sent := frames_sent st + 1\<rparr>) s;
                        (now, s) = now_ms env s
                    in upd_stats (\<lambda>st. st\<lparr>last_media_ms := now,
                         keyframes_sent := (if is_idr then keyframes_sent st + 1 else keyframes_sent st)\<rparr>) s)
              else s);
     let s = (if \<not> streaming_announced s \<and> count > 0 then s\<lparr>streaming_announced := True\<rparr> else s);
     Some (count, w\<lparr>user := s\<rparr>) }"

definition rtc_session_send_access_unit ::
  "'s rtc_env \<Rightarrow> bytes \<Rightarrow> u64 \<Rightarrow> bool \<Rightarrow> 's rtc_world \<Rightarrow> (int \<times> 's rtc_world) option" where
  "rtc_session_send_access_unit env access_unit pts_us is_idr w =
     (let s = user w in
      if rtc_state s \<noteq> RTC_STREAMING then Some (0, w)
      else if is_idr then
        send_packets env access_unit pts_us is_idr
          (w\<lparr>user := upd_stats (\<lambda>st. st\<lparr>waiting_keyframe := False\<rparr>) (s\<lparr>idr_requested := False\<rparr>)\<rparr>)
      else if waiting_keyframe (stats s) then
        Some (0, w\<lparr>user := rtc_session_request_idr env (upd_stats (\<lambda>st. st\<lparr>frames_held := frames_held st + 1\<rparr>) s)\<rparr>)
      else send_packets env access_unit pts_us is_idr w)"

definition rtc_session_state :: "RtcSession option \<Rightarrow> RtcSessionState" where
  "rtc_session_state session = (case session of None \<Rightarrow> RTC_CLOSED | Some s \<Rightarrow> rtc_state s)"

definition rtc_session_state_name :: "RtcSession option \<Rightarrow> string" where
  "rtc_session_state_name session =
     (case session of
        None \<Rightarrow> ''closed''
      | Some s \<Rightarrow>
          (case rtc_state s of
             RTC_NEW \<Rightarrow> ''new'' | RTC_ICE \<Rightarrow> ''ice'' | RTC_DTLS \<Rightarrow> ''dtls'' | RTC_STREAMING \<Rightarrow> ''streaming''
           | RTC_CLOSED \<Rightarrow> ''closed''))"

definition rtc_session_get_stats :: "RtcSession option \<Rightarrow> RtcSessionStats \<Rightarrow> RtcSessionStats" where
  "rtc_session_get_stats session out = (case session of None \<Rightarrow> out | Some s \<Rightarrow> stats s)"

definition rtc_session_id :: "RtcSession option \<Rightarrow> u32" where
  "rtc_session_id session = (case session of None \<Rightarrow> 0 | Some s \<Rightarrow> rc_id (config s))"

definition rtc_session_destroy :: "'s rtc_env \<Rightarrow> 's rtc_world \<Rightarrow> (rtc_event list \<times> bytes list) option" where
  "rtc_session_destroy env w = do {
     w \<leftarrow> (if rtc_state (user w) \<noteq> RTC_CLOSED then rtc_session_close env w else Some w);
     Some (trace (user w), session_free w) }"

definition rtc_session_dtls_timeout_ms :: "'s rtc_env \<Rightarrow> 's rtc_world \<Rightarrow> int" where
  "rtc_session_dtls_timeout_ms env w = dtls_srtp_next_timeout_ms (tls env) (engine w)"

end
