(* ===== verification/App_Config.thy ===== *)
theory App_Config
  imports C_String
begin

text \<open>
  Command line and configuration file (\<open>src/src/app/app_config.c\<close>): the defaults, the key
  table that file and command line share, the file reader, both passes over \<open>argv\<close> and the
  final validation. The file system is a parameter: \<open>fs path\<close> is the content of the file that
  \<open>fopen\<close> opens, \<open>None\<close> when it fails. A configuration that an error leaves half updated is
  returned with the error.
\<close>

section \<open>Data\<close>

datatype SourceKind = SOURCE_V4L2 | SOURCE_CSI | SOURCE_STDIN | SOURCE_TEST

record AppConfig =
  source_kind :: SourceKind
  source_name :: string
  device :: string
  rpicam_bin :: string
  listen :: string
  mdns_name :: string
  encoder :: string
  config_path :: string
  cfg_width :: u32
  cfg_height :: u32
  fps :: u32
  bitrate_kbps :: u32
  keyframe_seconds :: u32
  http_port :: u16
  udp_base_port :: u16
  mdns_port :: u16
  mdns :: bool
  verbose :: bool

type_synonym file_system = "string \<Rightarrow> string option"

datatype FileError =
    CannotOpen | PathTooLong
  | ExpectedKeyValue nat string
  | EmptyKeyOrValue nat
  | BadSetting nat string string

datatype ConfigProblem =
    BadWidth u32 | BadHeight u32 | BadFps u32 | BadBitrate u32 | BadKeyframe u32
  | NoHttpPort | NoUdpPort | NoListen | NoEncoder
  | MdnsLength nat | MdnsDash string | MdnsChar string

datatype ParseOutcome =
    Parsed | HelpShown | VersionShown
  | FileFailed string FileError
  | UnknownOption string | MissingValue string | InvalidValue string string
  | Invalid ConfigProblem

section \<open>Settings\<close>

definition app_config_defaults :: AppConfig where
  "app_config_defaults =
     \<lparr>source_kind = SOURCE_V4L2, source_name = fit 8 ''v4l2'', device = fit 256 ''/dev/video0'', rpicam_bin = [],
      listen = fit 64 ''0.0.0.0'', mdns_name = fit 64 ''camstream'', encoder = fit 64 ''auto'', config_path = [],
      cfg_width = 640, cfg_height = 480, fps = 30, bitrate_kbps = 2500, keyframe_seconds = 2,
      http_port = 8080, udp_base_port = 50000, mdns_port = 5353, mdns = True, verbose = False\<rparr>"

definition copy_string :: "nat \<Rightarrow> string \<Rightarrow> string option" where
  "copy_string capacity v = (if length v = 0 \<or> length v \<ge> capacity then None else Some v)"

definition set_source :: "SourceKind \<Rightarrow> string \<Rightarrow> AppConfig \<Rightarrow> AppConfig" where
  "set_source k name c = c\<lparr>source_kind := k, source_name := fit 8 name\<rparr>"

definition parse_source_kind :: "string \<Rightarrow> AppConfig \<Rightarrow> AppConfig option" where
  "parse_source_kind v c =
     (if v = ''v4l2'' then Some (set_source SOURCE_V4L2 v c)
      else if v = ''csi'' then Some (set_source SOURCE_CSI v c)
      else if v = ''stdin'' then Some (set_source SOURCE_STDIN v c)
      else if v = ''test'' then Some (set_source SOURCE_TEST v c)
      else None)"

text \<open>Only digits reach \<open>strtoul\<close>, whose saturated result is rejected with all values above 32 bits.\<close>

definition parse_unsigned :: "string \<Rightarrow> u32 option" where
  "parse_unsigned v =
     (if v = [] \<or> \<not> list_all isdigit v then None
      else let parsed = min (digits_val v 0) (2 ^ 64 - 1) in
        if parsed > 0xFFFFFFFF then None else Some (of_nat parsed))"

definition parse_port :: "string \<Rightarrow> u16 option" where
  "parse_port v = (case parse_unsigned v of
       None \<Rightarrow> None
     | Some number \<Rightarrow> if number = 0 \<or> number > 65535 then None else Some (ucast number))"

definition app_config_set_key :: "AppConfig \<Rightarrow> string \<Rightarrow> string \<Rightarrow> AppConfig option" where
  "app_config_set_key c key v =
     (if key = ''source'' then parse_source_kind v c
      else if key = ''device'' then map_option (\<lambda>s. c\<lparr>device := s\<rparr>) (copy_string 256 v)
      else if key = ''rpicam_bin'' then map_option (\<lambda>s. c\<lparr>rpicam_bin := s\<rparr>) (copy_string 256 v)
      else if key = ''listen'' then map_option (\<lambda>s. c\<lparr>listen := s\<rparr>) (copy_string 64 v)
      else if key = ''encoder'' then map_option (\<lambda>s. c\<lparr>encoder := s\<rparr>) (copy_string 64 v)
      else if key = ''mdns_name'' then
        (if v = [] then Some (c\<lparr>mdns := False\<rparr>)
         else map_option (\<lambda>s. c\<lparr>mdns_name := s\<rparr>) (copy_string 64 v))
      else if key = ''mdns_port'' then map_option (\<lambda>n. c\<lparr>mdns_port := n\<rparr>) (parse_port v)
      else if key = ''width'' then map_option (\<lambda>n. c\<lparr>cfg_width := n\<rparr>) (parse_unsigned v)
      else if key = ''height'' then map_option (\<lambda>n. c\<lparr>cfg_height := n\<rparr>) (parse_unsigned v)
      else if key = ''fps'' then map_option (\<lambda>n. c\<lparr>fps := n\<rparr>) (parse_unsigned v)
      else if key = ''bitrate_kbps'' then map_option (\<lambda>n. c\<lparr>bitrate_kbps := n\<rparr>) (parse_unsigned v)
      else if key = ''keyframe_seconds'' then map_option (\<lambda>n. c\<lparr>keyframe_seconds := n\<rparr>) (parse_unsigned v)
      else if key = ''http_port'' then map_option (\<lambda>n. c\<lparr>http_port := n\<rparr>) (parse_port v)
      else if key = ''udp_port'' then map_option (\<lambda>n. c\<lparr>udp_base_port := n\<rparr>) (parse_port v)
      else if key = ''mdns'' then
        (if v = ''1'' \<or> v = ''true'' \<or> v = ''yes'' \<or> v = ''on'' then Some (c\<lparr>mdns := True\<rparr>)
         else if v = ''0'' \<or> v = ''false'' \<or> v = ''no'' \<or> v = ''off'' then Some (c\<lparr>mdns := False\<rparr>)
         else None)
      else if key = ''verbose'' then
        (if v = ''1'' \<or> v = ''true'' \<or> v = ''yes'' then Some (c\<lparr>verbose := True\<rparr>)
         else if v = ''0'' \<or> v = ''false'' \<or> v = ''no'' then Some (c\<lparr>verbose := False\<rparr>)
         else None)
      else None)"

section \<open>The configuration file\<close>

definition trim :: "string \<Rightarrow> string" where
  "trim text = rev (dropWhile isspace (rev (dropWhile isspace text)))"

text \<open>What one \<open>fgets(line, sizeof(line), file)\<close> takes from the rest of the file.\<close>

definition fgets :: "nat \<Rightarrow> string \<Rightarrow> string" where
  "fgets n s = (let t = take (n - 1) s; p = takeWhile (\<lambda>ch. ch \<noteq> LF) t in
     if length p < length t then p @ [LF] else p)"

definition CONFIG_LINE :: nat where "CONFIG_LINE = 512"

datatype ConfigLine = Blank | NoEquals string | EmptySide | Setting string string

definition config_line :: "string \<Rightarrow> ConfigLine" where
  "config_line chunk =
     (let text = trim (takeWhile (\<lambda>ch. ch \<noteq> CHR ''#'') (c_str chunk)) in
      if text = [] then Blank
      else case strchr text (CHR ''='') of
        None \<Rightarrow> NoEquals text
      | Some equals \<Rightarrow>
          let key = trim (takeWhile (\<lambda>ch. ch \<noteq> CHR ''='') text); v = trim (tl equals) in
          if key = [] \<or> v = [] then EmptySide else Setting key v)"

lemma fgets_nonempty: "s \<noteq> [] \<Longrightarrow> fgets CONFIG_LINE s \<noteq> []"
  by (cases s) (auto simp: fgets_def CONFIG_LINE_def Let_def)

function load_loop :: "string \<Rightarrow> nat \<Rightarrow> AppConfig \<Rightarrow> FileError option \<times> AppConfig" where
  "load_loop rest line_number c =
     (if rest = [] then (None, c)
      else
        (let chunk = fgets CONFIG_LINE rest; rest' = drop (length chunk) rest; k = line_number + 1 in
         case config_line chunk of
           Blank \<Rightarrow> load_loop rest' k c
         | NoEquals text \<Rightarrow> (Some (ExpectedKeyValue k text), c)
         | EmptySide \<Rightarrow> (Some (EmptyKeyOrValue k), c)
         | Setting key v \<Rightarrow> (case app_config_set_key c key v of
               None \<Rightarrow> (Some (BadSetting k key v), c)
             | Some c \<Rightarrow> load_loop rest' k c)))"
  by pat_completeness auto

termination
  by (relation "measure (\<lambda>(rest, n, c). length rest)") (auto simp: fgets_nonempty)

declare load_loop.simps [simp del]

definition app_config_load_file :: "file_system \<Rightarrow> AppConfig \<Rightarrow> string option \<Rightarrow> FileError option \<times> AppConfig" where
  "app_config_load_file fs c path =
     (case path of
        None \<Rightarrow> (None, c)
      | Some p \<Rightarrow>
          if p = [] then (None, c)
          else (case fs p of
              None \<Rightarrow> (Some CannotOpen, c)
            | Some content \<Rightarrow> (case copy_string 256 p of
                None \<Rightarrow> (Some PathTooLong, c)
              | Some s \<Rightarrow> load_loop content 0 (c\<lparr>config_path := s\<rparr>))))"

definition file_message :: "string \<Rightarrow> FileError \<Rightarrow> nat \<Rightarrow> string" where
  "file_message path e error_size = fit error_size (case e of
       CannotOpen \<Rightarrow> ''config: cannot open '' @ path
     | PathTooLong \<Rightarrow> ''config: path too long: '' @ path
     | ExpectedKeyValue k text \<Rightarrow> ''config: '' @ path @ '':'' @ show_nat k @ '': expected '' @ [CHR 0x27] @ ''key = value'' @
         [CHR 0x27] @ '', got '' @ [CHR 0x27] @ text @ [CHR 0x27]
     | EmptyKeyOrValue k \<Rightarrow> ''config: '' @ path @ '':'' @ show_nat k @ '': empty key or value''
     | BadSetting k key v \<Rightarrow> ''config: '' @ path @ '':'' @ show_nat k @ '': unknown key or bad value: '' @ key @ '' = '' @ v)"

section \<open>Validation\<close>

definition label_char :: "char \<Rightarrow> bool" where
  "label_char ch \<longleftrightarrow> (let n = (of_char ch :: nat) in
     97 \<le> n \<and> n \<le> 122 \<or> 65 \<le> n \<and> n \<le> 90 \<or> 48 \<le> n \<and> n \<le> 57 \<or> ch = CHR ''-'')"

definition validate_mdns :: "string \<Rightarrow> ConfigProblem option" where
  "validate_mdns name =
     (if length name = 0 \<or> length name > 63 then Some (MdnsLength (length name))
      else if hd name = CHR ''-'' \<or> last name = CHR ''-'' then Some (MdnsDash name)
      else if \<not> list_all label_char name then Some (MdnsChar name)
      else None)"

definition app_config_validate :: "AppConfig \<Rightarrow> ConfigProblem option" where
  "app_config_validate c =
     (if cfg_width c < 16 \<or> cfg_width c > 4096 \<or> cfg_width c mod 2 \<noteq> 0 then Some (BadWidth (cfg_width c))
      else if cfg_height c < 16 \<or> cfg_height c > 4096 \<or> cfg_height c mod 2 \<noteq> 0 then Some (BadHeight (cfg_height c))
      else if fps c < 1 \<or> fps c > 120 then Some (BadFps (fps c))
      else if bitrate_kbps c < 100 \<or> bitrate_kbps c > 100000 then Some (BadBitrate (bitrate_kbps c))
      else if keyframe_seconds c < 1 \<or> keyframe_seconds c > 60 then Some (BadKeyframe (keyframe_seconds c))
      else if http_port c = 0 then Some NoHttpPort
      else if udp_base_port c = 0 then Some NoUdpPort
      else if listen c = [] then Some NoListen
      else if encoder c = [] then Some NoEncoder
      else if mdns c then validate_mdns (mdns_name c)
      else None)"

section \<open>The command line\<close>

text \<open>\<open>args\<close> is \<open>argv\<close> without the program name. Pass one: the configuration files.\<close>

definition config_arg :: "string \<Rightarrow> string list \<Rightarrow> string option" where
  "config_arg arg rest =
     (if arg = ''--config'' \<and> rest \<noteq> [] then Some (hd rest)
      else if prefix ''--config='' arg then Some (drop 9 arg)
      else None)"

fun pass_one :: "file_system \<Rightarrow> string list \<Rightarrow> AppConfig \<Rightarrow> (string \<times> FileError) option \<times> AppConfig" where
  "pass_one fs [] c = (None, c)"
| "pass_one fs (arg # rest) c =
     (case config_arg arg rest of
        None \<Rightarrow> pass_one fs rest c
      | Some v \<Rightarrow> (case app_config_load_file fs c (Some v) of
            (None, c) \<Rightarrow> pass_one fs rest c
          | (Some e, c) \<Rightarrow> (Some (v, e), c)))"

definition HEAD_SIZE :: nat where "HEAD_SIZE = 64"

text \<open>The option name and the inline value of an argument.\<close>

definition split_option :: "string \<Rightarrow> (string \<times> string option) option" where
  "split_option arg =
     (if prefix ''--'' arg then
        (let name = drop 2 arg; head = takeWhile (\<lambda>ch. ch \<noteq> CHR ''='') name in
         if length head = 0 \<or> length head \<ge> HEAD_SIZE then None
         else Some (head, map_option tl (strchr name (CHR ''=''))))
      else case arg of
        [d, ch] \<Rightarrow> if d = CHR ''-'' then Some ([ch], None) else None
      | d # ch # e # v \<Rightarrow> if d = CHR ''-'' \<and> e = CHR ''='' then Some ([ch], Some v) else None
      | _ \<Rightarrow> None)"

definition options :: "(string option \<times> string \<times> string option) list" where
  "options =
    [(Some ''s'', ''source'', Some ''source''), (Some ''d'', ''device'', Some ''device''),
     (Some ''W'', ''width'', Some ''width''), (Some ''H'', ''height'', Some ''height''),
     (Some ''F'', ''fps'', Some ''fps''), (Some ''l'', ''listen'', Some ''listen''),
     (Some ''p'', ''http-port'', Some ''http_port''), (Some ''u'', ''udp-port'', Some ''udp_port''),
     (Some ''n'', ''mdns-name'', Some ''mdns_name''), (None, ''mdns'', Some ''mdns''),
     (None, ''mdns-port'', Some ''mdns_port''), (Some ''e'', ''encoder'', Some ''encoder''),
     (Some ''b'', ''bitrate'', Some ''bitrate_kbps''), (Some ''K'', ''keyframe'', Some ''keyframe_seconds''),
     (None, ''rpicam-bin'', Some ''rpicam_bin''), (None, ''config'', None)]"

definition find_option :: "string \<Rightarrow> string option option" where
  "find_option key =
     map_option (\<lambda>(short, long, config_key). config_key)
       (find (\<lambda>(short, long, config_key). short = Some key \<or> key = long) options)"

definition apply_option :: "string option \<Rightarrow> string \<Rightarrow> AppConfig \<Rightarrow> AppConfig option" where
  "apply_option config_key v c = (case config_key of None \<Rightarrow> Some c | Some key \<Rightarrow> app_config_set_key c key v)"

text \<open>The options without a value.\<close>

definition flag_option :: "string \<Rightarrow> (AppConfig \<Rightarrow> AppConfig) option" where
  "flag_option arg =
     (if arg = ''-v'' \<or> arg = ''--verbose'' then Some (\<lambda>c. c\<lparr>verbose := True\<rparr>)
      else if arg = ''-t'' \<or> arg = ''--test'' then Some (set_source SOURCE_TEST ''test'')
      else if arg = ''--stdin-yuv420'' then Some (set_source SOURCE_STDIN ''stdin'')
      else None)"

text \<open>Pass two: every other option.\<close>

function pass_two :: "string list \<Rightarrow> AppConfig \<Rightarrow> ParseOutcome \<times> AppConfig" where
  "pass_two [] c = (Parsed, c)"
| "pass_two (arg # rest) c =
     (if arg = ''-h'' \<or> arg = ''--help'' then (HelpShown, c)
      else if arg = ''-V'' \<or> arg = ''--version'' then (VersionShown, c)
      else case flag_option arg of Some f \<Rightarrow> pass_two rest (f c) | None \<Rightarrow> (case split_option arg of
        None \<Rightarrow> (UnknownOption arg, c)
      | Some (key, v) \<Rightarrow> (case find_option key of
            None \<Rightarrow> (UnknownOption arg, c)
          | Some config_key \<Rightarrow>
              if v = None \<and> rest = [] then (MissingValue arg, c)
              else
                (let v' = (case v of Some s \<Rightarrow> s | None \<Rightarrow> hd rest);
                     rest' = (case v of Some s \<Rightarrow> rest | None \<Rightarrow> tl rest) in
                 case apply_option config_key v' c of
                   None \<Rightarrow> (InvalidValue arg v', c)
                 | Some c \<Rightarrow> pass_two rest' c))))"
  by pat_completeness auto
termination
  by (relation "measure (\<lambda>(args, c). length args)") (auto split: option.split)

declare pass_two.simps(2) [simp del]

definition app_config_parse :: "file_system \<Rightarrow> AppConfig \<Rightarrow> string list \<Rightarrow> ParseOutcome \<times> AppConfig" where
  "app_config_parse fs c args =
     (case pass_one fs args c of
        (Some (path, e), c) \<Rightarrow> (FileFailed path e, c)
      | (None, c) \<Rightarrow> (case pass_two args c of
            (Parsed, c) \<Rightarrow> (case app_config_validate c of
                None \<Rightarrow> (Parsed, c)
              | Some problem \<Rightarrow> (Invalid problem, c))
          | r \<Rightarrow> r))"

text \<open>The return code.\<close>

fun status :: "ParseOutcome \<Rightarrow> int" where
  "status Parsed = 0"
| "status HelpShown = 1"
| "status VersionShown = 1"
| "status e = -1"

section \<open>Lemmas\<close>

subsection \<open>Numbers\<close>

lemma parse_unsigned_Some:
  assumes "parse_unsigned v = Some n"
  shows "unat n = digits_val v 0" "v \<noteq> []" "list_all isdigit v"
proof -
  from assms show "v \<noteq> []" "list_all isdigit v" by (auto simp: parse_unsigned_def split: if_splits)
  from assms have "digits_val v 0 \<le> 0xFFFFFFFF" "n = of_nat (digits_val v 0)"
    by (auto simp: parse_unsigned_def Let_def min_def split: if_splits)
  then show "unat n = digits_val v 0" by (simp add: unsigned_of_nat take_bit_nat_eq_self)
qed

lemma parse_unsigned_show_nat:
  assumes "n < 2 ^ 32"
  shows "parse_unsigned (show_nat n) = Some (of_nat n)"
proof -
  have "list_all isdigit (show_nat n)" using show_nat_digits by (auto simp: list_all_iff)
  then show ?thesis
    using assms by (auto simp: parse_unsigned_def digits_val_show_nat show_nat_nonempty Let_def min_def)
qed

lemma parse_port_Some:
  assumes "parse_port v = Some n"
  shows "unat n = digits_val v 0" "n \<noteq> 0"
proof -
  obtain m where m: "parse_unsigned v = Some m" "m \<noteq> 0" "\<not> m > 65535" "n = ucast m"
    using assms by (auto simp: parse_port_def split: option.splits if_splits)
  have "unat m < 2 ^ 16" using m(3) by (simp add: word_less_nat_alt)
  then have u: "unat n = unat m" using m(4) by (simp add: unsigned_ucast_eq take_bit_nat_eq_self)
  then show "unat n = digits_val v 0" using parse_unsigned_Some [OF m(1)] by simp
  show "n \<noteq> 0" using u m(2) by (metis unat_eq_zero)
qed

subsection \<open>Well formed configurations\<close>

fun kind_name :: "SourceKind \<Rightarrow> string" where
  "kind_name SOURCE_V4L2 = ''v4l2''"
| "kind_name SOURCE_CSI = ''csi''"
| "kind_name SOURCE_STDIN = ''stdin''"
| "kind_name SOURCE_TEST = ''test''"

text \<open>Every string fits its array with the terminator, and the fields that must never be empty are not.\<close>

definition config_ok :: "AppConfig \<Rightarrow> bool" where
  "config_ok c \<longleftrightarrow>
     source_name c = kind_name (source_kind c) \<and> length (device c) < 256 \<and> device c \<noteq> [] \<and> length (rpicam_bin c) < 256 \<and>
     length (listen c) < 64 \<and> listen c \<noteq> [] \<and> length (mdns_name c) < 64 \<and> mdns_name c \<noteq> [] \<and>
     length (encoder c) < 64 \<and> encoder c \<noteq> [] \<and> length (config_path c) < 256 \<and>
     http_port c \<noteq> 0 \<and> udp_base_port c \<noteq> 0 \<and> mdns_port c \<noteq> 0"

lemma defaults_ok: "config_ok app_config_defaults"
  by (simp add: config_ok_def app_config_defaults_def fit_def)

lemma set_source_ok: "config_ok c \<Longrightarrow> config_ok (set_source k (kind_name k) c)"
  by (cases k) (simp_all add: config_ok_def set_source_def fit_def)

lemma copy_string_Some: "copy_string n v = Some s \<longleftrightarrow> s = v \<and> v \<noteq> [] \<and> length v < n"
  by (auto simp: copy_string_def)

text \<open>The key table as an elimination rule: what a successful setting does.\<close>

lemma on_off: "(if A then Some x else if B then Some y else None) = Some z \<Longrightarrow> z \<in> {x, y}"
  by (simp split: if_splits)

lemma set_keyE:
  assumes "app_config_set_key c key v = Some c'"
  obtains (source) k where "key = ''source''" "v = kind_name k" "c' = set_source k v c"
  | (device) "key = ''device''" "v \<noteq> []" "length v < 256" "c' = c\<lparr>device := v\<rparr>"
  | (rpicam) "key = ''rpicam_bin''" "v \<noteq> []" "length v < 256" "c' = c\<lparr>rpicam_bin := v\<rparr>"
  | (listen) "key = ''listen''" "v \<noteq> []" "length v < 64" "c' = c\<lparr>listen := v\<rparr>"
  | (encoder) "key = ''encoder''" "v \<noteq> []" "length v < 64" "c' = c\<lparr>encoder := v\<rparr>"
  | (mdns_off) "key = ''mdns_name''" "v = []" "c' = c\<lparr>mdns := False\<rparr>"
  | (mdns_name) "key = ''mdns_name''" "v \<noteq> []" "length v < 64" "c' = c\<lparr>mdns_name := v\<rparr>"
  | (mdns_port) n where "key = ''mdns_port''" "parse_port v = Some n" "c' = c\<lparr>mdns_port := n\<rparr>"
  | (width) n where "key = ''width''" "parse_unsigned v = Some n" "c' = c\<lparr>cfg_width := n\<rparr>"
  | (height) n where "key = ''height''" "parse_unsigned v = Some n" "c' = c\<lparr>cfg_height := n\<rparr>"
  | (fps) n where "key = ''fps''" "parse_unsigned v = Some n" "c' = c\<lparr>fps := n\<rparr>"
  | (bitrate) n where "key = ''bitrate_kbps''" "parse_unsigned v = Some n" "c' = c\<lparr>bitrate_kbps := n\<rparr>"
  | (keyframe) n where "key = ''keyframe_seconds''" "parse_unsigned v = Some n" "c' = c\<lparr>keyframe_seconds := n\<rparr>"
  | (http_port) n where "key = ''http_port''" "parse_port v = Some n" "c' = c\<lparr>http_port := n\<rparr>"
  | (udp_port) n where "key = ''udp_port''" "parse_port v = Some n" "c' = c\<lparr>udp_base_port := n\<rparr>"
  | (mdns) b where "key = ''mdns''" "c' = c\<lparr>mdns := b\<rparr>"
  | (verbose) b where "key = ''verbose''" "c' = c\<lparr>verbose := b\<rparr>"
proof -
  have src: "\<exists>k. v = kind_name k \<and> c' = set_source k v c" if "parse_source_kind v c = Some c'"
    using that kind_name.simps unfolding parse_source_kind_def by (metis option.inject option.distinct(1))
  consider "key = ''source''" | "key = ''device''" | "key = ''rpicam_bin''" | "key = ''listen''"
    | "key = ''encoder''" | "key = ''mdns_name''" | "key = ''mdns_port''" | "key = ''width''"
    | "key = ''height''" | "key = ''fps''" | "key = ''bitrate_kbps''" | "key = ''keyframe_seconds''"
    | "key = ''http_port''" | "key = ''udp_port''" | "key = ''mdns''" | "key = ''verbose''"
    | (none) "key \<noteq> ''source''" "key \<noteq> ''device''" "key \<noteq> ''rpicam_bin''" "key \<noteq> ''listen''"
      "key \<noteq> ''encoder''" "key \<noteq> ''mdns_name''" "key \<noteq> ''mdns_port''" "key \<noteq> ''width''"
      "key \<noteq> ''height''" "key \<noteq> ''fps''" "key \<noteq> ''bitrate_kbps''" "key \<noteq> ''keyframe_seconds''"
      "key \<noteq> ''http_port''" "key \<noteq> ''udp_port''" "key \<noteq> ''mdns''" "key \<noteq> ''verbose''"
    by argo
  then show thesis
  proof cases
    case 1 with assms src that(1) show thesis by (simp add: app_config_set_key_def) blast
  next
    case 2 with assms that(2) show thesis by (auto simp: app_config_set_key_def copy_string_Some)
  next
    case 3 with assms that(3) show thesis by (auto simp: app_config_set_key_def copy_string_Some)
  next
    case 4 with assms that(4) show thesis by (auto simp: app_config_set_key_def copy_string_Some)
  next
    case 5 with assms that(5) show thesis by (auto simp: app_config_set_key_def copy_string_Some)
  next
    case 6 with assms that(6,7) show thesis by (auto simp: app_config_set_key_def copy_string_Some split: if_splits)
  next
    case 7 with assms that(8) show thesis by (auto simp: app_config_set_key_def copy_string_Some)
  next
    case 8 with assms that(9) show thesis by (auto simp: app_config_set_key_def copy_string_Some)
  next
    case 9 with assms that(10) show thesis by (auto simp: app_config_set_key_def copy_string_Some)
  next
    case 10 with assms that(11) show thesis by (auto simp: app_config_set_key_def copy_string_Some)
  next
    case 11 with assms that(12) show thesis by (auto simp: app_config_set_key_def copy_string_Some)
  next
    case 12 with assms that(13) show thesis by (auto simp: app_config_set_key_def copy_string_Some)
  next
    case 13 with assms that(14) show thesis by (auto simp: app_config_set_key_def copy_string_Some)
  next
    case 14 with assms that(15) show thesis by (auto simp: app_config_set_key_def copy_string_Some)
  next
    case 15
    then have "c' \<in> {c\<lparr>mdns := True\<rparr>, c\<lparr>mdns := False\<rparr>}"
      using assms on_off by (simp add: app_config_set_key_def del: insert_iff)
    with 15 that(16) show thesis by blast
  next
    case 16
    then have "c' \<in> {c\<lparr>verbose := True\<rparr>, c\<lparr>verbose := False\<rparr>}"
      using assms on_off by (simp add: app_config_set_key_def del: insert_iff)
    with 16 that(17) show thesis by blast
  next
    case none with assms show thesis by (simp add: app_config_set_key_def)
  qed
qed

lemma set_key_ok:
  assumes "config_ok c" "app_config_set_key c key v = Some c'"
  shows "config_ok c'"
  using assms(2)
proof (cases rule: set_keyE)
  case (source k)
  then show ?thesis using set_source_ok [OF assms(1), of k] by simp
qed (use assms(1) parse_port_Some(2) in \<open>auto simp: config_ok_def\<close>)

lemma load_step:
  assumes "rest \<noteq> []"
  shows "load_loop rest k c =
    (case config_line (fgets CONFIG_LINE rest) of
       Blank \<Rightarrow> load_loop (drop (length (fgets CONFIG_LINE rest)) rest) (k + 1) c
     | NoEquals text \<Rightarrow> (Some (ExpectedKeyValue (k + 1) text), c)
     | EmptySide \<Rightarrow> (Some (EmptyKeyOrValue (k + 1)), c)
     | Setting key v \<Rightarrow> (case app_config_set_key c key v of
         None \<Rightarrow> (Some (BadSetting (k + 1) key v), c)
       | Some c \<Rightarrow> load_loop (drop (length (fgets CONFIG_LINE rest)) rest) (k + 1) c))"
  using assms by (subst load_loop.simps) (simp only: Let_def if_False)

lemma load_loop_ok: "config_ok c \<Longrightarrow> load_loop rest k c = (r, c') \<Longrightarrow> config_ok c'"
proof (induction rest k c arbitrary: r c' rule: load_loop.induct)
  case (1 rest k c)
  show ?case
  proof (cases "rest = []")
    case True
    then show ?thesis using "1.prems" by (simp add: load_loop.simps)
  next
    case False
    from "1.prems" show ?thesis
      using "1.IH" [OF False refl refl refl] set_key_ok
      unfolding load_step [OF False] by (simp split: ConfigLine.splits option.splits)
  qed
qed

lemma load_file_ok:
  "config_ok c \<Longrightarrow> app_config_load_file fs c path = (r, c') \<Longrightarrow> config_ok c'"
  by (auto simp: app_config_load_file_def copy_string_Some split: option.splits if_splits)
    (rule load_loop_ok, simp_all add: config_ok_def)

lemma pass_one_ok: "config_ok c \<Longrightarrow> pass_one fs args c = (r, c') \<Longrightarrow> config_ok c'"
proof (induction fs args c arbitrary: r c' rule: pass_one.induct)
  case (2 fs arg rest c)
  show ?case
  proof (cases "config_arg arg rest")
    case None
    then show ?thesis using "2.prems" "2.IH"(1) by simp
  next
    case (Some p)
    obtain e c1 where l: "app_config_load_file fs c (Some p) = (e, c1)" by fastforce
    have "config_ok c1" by (rule load_file_ok [OF "2.prems"(1) l])
    then show ?thesis using "2.prems" "2.IH"(2) [OF Some l [symmetric]] Some l
      by (cases e) auto
  qed
qed simp

subsection \<open>The settings of a command line\<close>

text \<open>What the options assign, in order: \<open>(config key, value)\<close>; \<open>-v\<close> and its kind are not settings of a key.\<close>

function settings :: "string list \<Rightarrow> (string \<times> string) list" where
  "settings [] = []"
| "settings (arg # rest) =
     (if flag_option arg \<noteq> None then settings rest
      else case split_option arg of
        None \<Rightarrow> settings rest
      | Some (key, v) \<Rightarrow>
          (let assignment = (\<lambda>s. case find_option key of Some (Some k) \<Rightarrow> [(k, s)] | _ \<Rightarrow> []) in
           case v of
             Some s \<Rightarrow> assignment s @ settings rest
           | None \<Rightarrow> if rest = [] then [] else assignment (hd rest) @ settings (tl rest)))"
  by pat_completeness auto
termination
  by (relation "measure length") auto

definition number_of :: "string \<Rightarrow> AppConfig \<Rightarrow> nat option" where
  "number_of key c = map_option (\<lambda>f. f c) (map_of
     [(''width'', \<lambda>c. unat (cfg_width c)), (''height'', \<lambda>c. unat (cfg_height c)), (''fps'', \<lambda>c. unat (fps c)),
      (''bitrate_kbps'', \<lambda>c. unat (bitrate_kbps c)), (''keyframe_seconds'', \<lambda>c. unat (keyframe_seconds c)),
      (''http_port'', \<lambda>c. unat (http_port c)), (''udp_port'', \<lambda>c. unat (udp_base_port c)),
      (''mdns_port'', \<lambda>c. unat (mdns_port c))] key)"

definition numeric :: "string \<Rightarrow> bool" where
  "numeric key \<longleftrightarrow> key \<in> {''width'', ''height'', ''fps'', ''bitrate_kbps'', ''keyframe_seconds'', ''http_port'',
     ''udp_port'', ''mdns_port''}"

lemma set_key_number:
  assumes "app_config_set_key c key v = Some c'"
  shows "number_of k c' = (if k = key \<and> numeric k then Some (digits_val v 0) else number_of k c)"
  using assms
  by (cases rule: set_keyE)
    (auto simp: number_of_def numeric_def set_source_def parse_unsigned_Some(1) parse_port_Some(1))

lemma frame_number: "number_of k (set_source s n c) = number_of k c" "number_of k (c\<lparr>verbose := b\<rparr>) = number_of k c"
  by (simp_all add: number_of_def set_source_def)

definition last_setting :: "string \<Rightarrow> (string \<times> string) list \<Rightarrow> string option" where
  "last_setting k kvs = map_of (rev kvs) k"

lemma last_setting_simps [simp]: "last_setting k [] = None"
  "last_setting k (kv # kvs) = (case last_setting k kvs of Some v \<Rightarrow> Some v | None \<Rightarrow> if fst kv = k then Some (snd kv) else None)"
  by (auto simp: last_setting_def map_add_def split: option.split)

lemma flag_option_cases:
  assumes "flag_option arg = Some f"
  shows "f \<in> {\<lambda>c. c\<lparr>verbose := True\<rparr>, set_source SOURCE_TEST (kind_name SOURCE_TEST), set_source SOURCE_STDIN (kind_name SOURCE_STDIN)}"
  using assms unfolding flag_option_def kind_name.simps by (metis insertI1 insertI2 option.distinct(1) option.inject)

lemma flag_option_ok:
  assumes "flag_option arg = Some f"
  shows "config_ok c \<Longrightarrow> config_ok (f c)" "number_of k (f c) = number_of k c"
  using flag_option_cases [OF assms] set_source_ok by (auto simp: frame_number config_ok_def simp del: kind_name.simps)

lemma apply_option_ok: "config_ok c \<Longrightarrow> apply_option k v c = Some c' \<Longrightarrow> config_ok c'"
  by (auto simp: apply_option_def set_key_ok split: option.splits)

text \<open>One option of pass two, as a rule: a flag, an end, or a setting with its value and the rest.\<close>

lemma pass_two_cases:
  assumes "pass_two (arg # rest) c = (r, c')"
  obtains (stop) "c' = c" "r \<noteq> Parsed"
  | (flag) f where "flag_option arg = Some f" "pass_two rest (f c) = (r, c')"
  | (option) key v config_key v' rest' c1 where "flag_option arg = None" "split_option arg = Some (key, v)"
      "find_option key = Some config_key" "v = None \<Longrightarrow> rest \<noteq> []"
      "v' = (case v of Some s \<Rightarrow> s | None \<Rightarrow> hd rest)" "rest' = (case v of Some s \<Rightarrow> rest | None \<Rightarrow> tl rest)"
      "apply_option config_key v' c = Some c1" "pass_two rest' c1 = (r, c')" "length rest' \<le> length rest"
proof (cases "arg = ''-h'' \<or> arg = ''--help'' \<or> arg = ''-V'' \<or> arg = ''--version''")
  case True
  then show thesis using assms stop by (auto simp: pass_two.simps(2))
next
  case False
  note u = assms [unfolded pass_two.simps(2)]
  show thesis
  proof (cases "flag_option arg")
    case (Some f)
    then show thesis using flag u False by simp
  next
    case None
    have len: "length (case v of Some s \<Rightarrow> rest | None \<Rightarrow> tl rest) \<le> length rest" for v :: "string option"
      by (simp split: option.split)
    show thesis
      using u False None stop option [OF None _ _ _ refl refl _ _ len]
      by (simp only: Let_def de_Morgan_disj if_False option.case split: option.splits prod.splits if_split_asm) (auto split: if_splits)
  qed
qed

lemma pass_two_ok: "config_ok c \<Longrightarrow> pass_two args c = (r, c') \<Longrightarrow> config_ok c'"
proof (induction "length args" arbitrary: args c rule: less_induct)
  case less
  show ?case
  proof (cases args)
    case (Cons arg rest)
    from less.prems(2) [unfolded Cons] show ?thesis
    proof (cases rule: pass_two_cases)
      case (flag f)
      then show ?thesis using less.hyps [of rest "f c"] Cons flag_option_ok(1) less.prems(1) by simp
    next
      case (option key v config_key v' rest' c1)
      then show ?thesis using less.hyps [of rest' c1] Cons apply_option_ok [OF less.prems(1) option(7)] by simp
    qed (use less.prems in simp)
  qed (use less.prems in simp)
qed

lemma pass_two_numbers:
  assumes "pass_two args c = (Parsed, c')" "numeric k"
  shows "number_of k c' = (case last_setting k (settings args) of Some v \<Rightarrow> Some (digits_val v 0) | None \<Rightarrow> number_of k c)"
  using assms(1)
proof (induction "length args" arbitrary: args c rule: less_induct)
  case less
  show ?case
  proof (cases args)
    case (Cons arg rest)
    from less.prems [unfolded Cons] show ?thesis
    proof (cases rule: pass_two_cases)
      case (flag f)
      then show ?thesis using less.hyps [of rest "f c"] Cons flag_option_ok(2) [OF flag(1)] by (simp split: option.split)
    next
      case (option key v config_key v' rest' c1)
      have "settings args = (case config_key of Some j \<Rightarrow> [(j, v')] | None \<Rightarrow> []) @ settings rest'"
        using option(1-6) by (auto simp: Cons Let_def split: option.splits)
      moreover have "number_of k c1 = (if config_key = Some k then Some (digits_val v' 0) else number_of k c)"
        using option(7) set_key_number assms(2) by (auto simp: apply_option_def split: option.splits)
      moreover have "number_of k c' = (case last_setting k (settings rest') of Some v \<Rightarrow> Some (digits_val v 0) | None \<Rightarrow> number_of k c1)"
        using less.hyps [of rest' c1] option(8,9) Cons by simp
      ultimately show ?thesis by (auto split: option.splits)
    qed simp
  qed (use less.prems in simp)
qed

subsection \<open>The file as a list of lines\<close>

function chunks :: "string \<Rightarrow> string list" where
  "chunks s = (if s = [] then [] else fgets CONFIG_LINE s # chunks (drop (length (fgets CONFIG_LINE s)) s))"
  by pat_completeness auto
termination
  by (relation "measure length") (auto simp: fgets_nonempty)

declare chunks.simps [simp del]

text \<open>Whether a value is accepted for a key never depends on the configuration.\<close>

definition accepted :: "string \<Rightarrow> string \<Rightarrow> bool" where
  "accepted key v \<longleftrightarrow> app_config_set_key app_config_defaults key v \<noteq> None"

lemma set_key_uniform: "app_config_set_key c key v = None \<longleftrightarrow> app_config_set_key d key v = None"
  unfolding app_config_set_key_def parse_source_kind_def
  by (simp only: option.map_disc_iff option.distinct if_distrib [of "\<lambda>x. x = None"])

definition line_error :: "nat \<Rightarrow> ConfigLine \<Rightarrow> FileError option" where
  "line_error k l = (case l of
       Blank \<Rightarrow> None
     | NoEquals text \<Rightarrow> Some (ExpectedKeyValue k text)
     | EmptySide \<Rightarrow> Some (EmptyKeyOrValue k)
     | Setting key v \<Rightarrow> if accepted key v then None else Some (BadSetting k key v))"

definition apply_config_line :: "AppConfig \<Rightarrow> ConfigLine \<Rightarrow> AppConfig" where
  "apply_config_line c l = (case l of Setting key v \<Rightarrow> the (app_config_set_key c key v) | _ \<Rightarrow> c)"

text \<open>
  The reference reader: the lines before the first bad one are applied in order, and the bad line
  is reported with its number.
\<close>

definition good_lines :: "string \<Rightarrow> ConfigLine list" where
  "good_lines s = takeWhile (\<lambda>l. line_error 0 l = None) (map config_line (chunks s))"

definition first_error :: "nat \<Rightarrow> string \<Rightarrow> FileError option" where
  "first_error k s =
     (let ls = map config_line (chunks s); n = length (good_lines s) in
      if n < length ls then line_error (k + n + 1) (ls ! n) else None)"

lemma line_error_number: "line_error k l = None \<longleftrightarrow> line_error 0 l = None"
  by (simp add: line_error_def split: ConfigLine.split)

lemma reader_step:
  assumes "s \<noteq> []"
  defines "l \<equiv> config_line (fgets CONFIG_LINE s)" and "s' \<equiv> drop (length (fgets CONFIG_LINE s)) s"
  shows "good_lines s = (if line_error 0 l = None then l # good_lines s' else [])"
    and "first_error k s = (if line_error 0 l = None then first_error (k + 1) s' else line_error (k + 1) l)"
  using assms(1) by (auto simp: good_lines_def first_error_def chunks.simps [of s] Let_def l_def s'_def)

lemma load_loop_reference:
  "load_loop s k c = (first_error k s, foldl apply_config_line c (good_lines s))"
proof (induction s k c rule: load_loop.induct)
  case (1 s k c)
  show ?case
  proof (cases "s = []")
    case True
    then show ?thesis by (simp add: load_loop.simps first_error_def good_lines_def chunks.simps)
  next
    case False
    note IH = "1.IH" [OF False refl refl refl]
    show ?thesis
    proof (cases "config_line (fgets CONFIG_LINE s)")
      case (Setting key v)
      have acc: "accepted key v \<longleftrightarrow> app_config_set_key c key v \<noteq> None"
        by (simp only: accepted_def set_key_uniform [of app_config_defaults key v c])
      show ?thesis
      proof (cases "app_config_set_key c key v")
        case None
        then show ?thesis using Setting acc by (simp add: load_step [OF False] reader_step [OF False] line_error_def)
      next
        case (Some c1)
        then show ?thesis using Setting acc IH(2) [OF Setting Some]
          by (simp add: load_step [OF False] reader_step [OF False] line_error_def apply_config_line_def)
      qed
    qed (use IH(1) in \<open>simp_all add: load_step [OF False] reader_step [OF False] line_error_def apply_config_line_def\<close>)
  qed
qed

section \<open>Properties\<close>

definition mdns_label :: "string \<Rightarrow> bool" where
  "mdns_label name \<longleftrightarrow> 1 \<le> length name \<and> length name \<le> 63 \<and> list_all label_char name \<and>
     hd name \<noteq> CHR ''-'' \<and> last name \<noteq> CHR ''-''"

lemma validate_None:
  assumes "app_config_validate c = None"
  shows "16 \<le> unat (cfg_width c) \<and> unat (cfg_width c) \<le> 4096 \<and> even (unat (cfg_width c))"
    and "16 \<le> unat (cfg_height c) \<and> unat (cfg_height c) \<le> 4096 \<and> even (unat (cfg_height c))"
    and "1 \<le> unat (fps c) \<and> unat (fps c) \<le> 120"
    and "100 \<le> unat (bitrate_kbps c) \<and> unat (bitrate_kbps c) \<le> 100000"
    and "1 \<le> unat (keyframe_seconds c) \<and> unat (keyframe_seconds c) \<le> 60"
    and "\<not> mdns c \<or> mdns_label (mdns_name c)"
proof -
  note v = assms [unfolded app_config_validate_def]
  have even: "even (unat w)" if "w mod 2 = 0" for w :: u32
    using arg_cong [OF that, of unat] by (simp add: unat_mod even_iff_mod_2_eq_zero)
  show "16 \<le> unat (cfg_width c) \<and> unat (cfg_width c) \<le> 4096 \<and> even (unat (cfg_width c))"
    "16 \<le> unat (cfg_height c) \<and> unat (cfg_height c) \<le> 4096 \<and> even (unat (cfg_height c))"
    "1 \<le> unat (fps c) \<and> unat (fps c) \<le> 120"
    "100 \<le> unat (bitrate_kbps c) \<and> unat (bitrate_kbps c) \<le> 100000"
    "1 \<le> unat (keyframe_seconds c) \<and> unat (keyframe_seconds c) \<le> 60"
    using v even by (auto simp: word_less_nat_alt not_less split: if_splits)
  show "\<not> mdns c \<or> mdns_label (mdns_name c)"
    using v by (auto simp: validate_mdns_def mdns_label_def Suc_le_eq split: if_splits)
qed

text \<open>
  C33: when the command line and the configuration files are accepted, the configuration is one the
  program can run with: an even frame size between 16 and 4096, rates and intervals in range, ports
  that are not zero, every string inside its array, a source name that agrees with the source kind,
  and, with the responder on, a name that is one valid DNS label.
\<close>

theorem app_config_parse_valid:
  assumes "app_config_parse fs app_config_defaults args = (Parsed, c)"
  shows "config_ok c \<and>
    16 \<le> unat (cfg_width c) \<and> unat (cfg_width c) \<le> 4096 \<and> even (unat (cfg_width c)) \<and>
    16 \<le> unat (cfg_height c) \<and> unat (cfg_height c) \<le> 4096 \<and> even (unat (cfg_height c)) \<and>
    1 \<le> unat (fps c) \<and> unat (fps c) \<le> 120 \<and>
    100 \<le> unat (bitrate_kbps c) \<and> unat (bitrate_kbps c) \<le> 100000 \<and>
    1 \<le> unat (keyframe_seconds c) \<and> unat (keyframe_seconds c) \<le> 60 \<and>
    (\<not> mdns c \<or> mdns_label (mdns_name c))"
proof -
  obtain c1 where c1: "pass_one fs args app_config_defaults = (None, c1)" "pass_two args c1 = (Parsed, c)"
    "app_config_validate c = None"
    using assms by (auto simp: app_config_parse_def split: prod.splits option.splits ParseOutcome.splits)
  have "config_ok c" using pass_two_ok [OF pass_one_ok [OF defaults_ok c1(1)] c1(2)] .
  with validate_None [OF c1(3)] show ?thesis by blast
qed

text \<open>
  The command line overrides the configuration files wherever it stands. After a successful
  parse every numeric setting has the value of its last occurrence on the command line, whatever
  the files say, and the value that the files (or the start value) gave it when the command line
  does not mention it.
\<close>

theorem app_config_command_line_wins:
  assumes "app_config_parse fs c args = (Parsed, c')" "numeric key"
  shows "number_of key c' = (case last_setting key (settings args) of
      Some v \<Rightarrow> Some (digits_val v 0)
    | None \<Rightarrow> number_of key (snd (pass_one fs args c)))"
proof -
  obtain c1 where c1: "pass_one fs args c = (None, c1)" "pass_two args c1 = (Parsed, c')"
    using assms(1) by (auto simp: app_config_parse_def split: prod.splits option.splits ParseOutcome.splits)
  then show ?thesis using pass_two_numbers [OF c1(2) assms(2)] by (simp split: option.split)
qed

text \<open>
  A configuration file is read like the reference: with the path stored, the lines before the
  first bad one are applied in order, and the result is success exactly when there is no bad line;
  otherwise the error names that line.
\<close>

theorem app_config_load_file_correct:
  assumes "path \<noteq> []" "length path < 256" "fs path = Some content"
  shows "app_config_load_file fs c (Some path) =
    (first_error 0 content, foldl apply_config_line (c\<lparr>config_path := path\<rparr>) (good_lines content))"
  using assms by (simp add: app_config_load_file_def copy_string_def load_loop_reference)

text \<open>A command line and a file for the witnesses.\<close>

definition demo_file :: string where
  "demo_file = ''fps = 60'' @ [LF] @ ''# comment'' @ [LF] @ ''http_port = 9000'' @ [LF]"

definition demo_fs :: file_system where
  "demo_fs p = (if p = ''cam.conf'' then Some demo_file else None)"

definition demo_args :: "string list" where
  "demo_args = [''-F'', ''25'', ''--config=cam.conf'', ''--mdns=off'']"

lemma demo_lines:
  "chunks demo_file = [''fps = 60'' @ [LF], ''# comment'' @ [LF], ''http_port = 9000'' @ [LF]]"
  by (simp add: chunks.simps fgets_def CONFIG_LINE_def demo_file_def LF_def Let_def)

lemma demo_config_lines:
  "map config_line (chunks demo_file) = [Setting ''fps'' ''60'', Blank, Setting ''http_port'' ''9000'']"
  unfolding demo_lines by code_simp

lemma demo_numbers: "parse_unsigned ''60'' = Some 60" "parse_unsigned ''25'' = Some 25" "parse_port ''9000'' = Some 9000"
  by (simp_all add: parse_unsigned_def parse_port_def isdigit_def digit_val_def Let_def)

lemma demo_good: "good_lines demo_file = [Setting ''fps'' ''60'', Blank, Setting ''http_port'' ''9000'']"
  "first_error 0 demo_file = None"
  by (simp_all add: good_lines_def first_error_def demo_config_lines line_error_def accepted_def app_config_set_key_def demo_numbers Let_def)

theorem app_config_load_file_witness:
  "app_config_load_file demo_fs app_config_defaults (Some ''cam.conf'') =
    (None, app_config_defaults\<lparr>config_path := ''cam.conf'', fps := 60, http_port := 9000\<rparr>)"
  using app_config_load_file_correct [of "''cam.conf''" demo_fs demo_file app_config_defaults]
  by (simp add: demo_fs_def demo_good apply_config_line_def app_config_set_key_def demo_numbers)

lemma demo_option_forms:
  "split_option ''-F'' = Some (''F'', None)" "split_option ''--config=cam.conf'' = Some (''config'', Some ''cam.conf'')"
  "split_option ''--mdns=off'' = Some (''mdns'', Some ''off'')"
  "find_option ''F'' = Some (Some ''fps'')" "find_option ''config'' = Some None" "find_option ''mdns'' = Some (Some ''mdns'')"
  "flag_option ''-F'' = None" "flag_option ''--config=cam.conf'' = None" "flag_option ''--mdns=off'' = None"
  by code_simp+

lemma demo_pass_one:
  "pass_one demo_fs demo_args app_config_defaults =
    (None, app_config_defaults\<lparr>config_path := ''cam.conf'', fps := 60, http_port := 9000\<rparr>)"
  by (simp add: demo_args_def config_arg_def app_config_load_file_def demo_fs_def copy_string_def load_loop_reference
      demo_good apply_config_line_def app_config_set_key_def demo_numbers)

lemma demo_parse:
  "app_config_parse demo_fs app_config_defaults demo_args =
    (Parsed, app_config_defaults\<lparr>config_path := ''cam.conf'', fps := 25, http_port := 9000, mdns := False\<rparr>)"
proof -
  have "pass_two demo_args (app_config_defaults\<lparr>config_path := ''cam.conf'', fps := 60, http_port := 9000\<rparr>) =
    (Parsed, app_config_defaults\<lparr>config_path := ''cam.conf'', fps := 25, http_port := 9000, mdns := False\<rparr>)"
    by (simp add: demo_args_def pass_two.simps(2) demo_option_forms apply_option_def app_config_set_key_def demo_numbers)
  moreover have "app_config_validate (app_config_defaults\<lparr>config_path := ''cam.conf'', fps := 25, http_port := 9000, mdns := False\<rparr>) = None"
    by (simp add: app_config_validate_def app_config_defaults_def fit_def)
  ultimately show ?thesis by (simp add: app_config_parse_def demo_pass_one)
qed

theorem app_config_parse_witness:
  "config_ok (app_config_defaults\<lparr>config_path := ''cam.conf'', fps := 25, http_port := 9000, mdns := False\<rparr>)"
  using app_config_parse_valid [OF demo_parse] by blast

theorem app_config_command_line_witness:
  "number_of ''fps'' (snd (app_config_parse demo_fs app_config_defaults demo_args)) = Some (digits_val ''25'' 0)"
proof -
  have "last_setting ''fps'' (settings demo_args) = Some ''25''"
    by (simp add: demo_args_def demo_option_forms)
  then show ?thesis
    using app_config_command_line_wins [OF demo_parse, of "''fps''"] by (simp add: demo_parse numeric_def)
qed

end
