(* ===== verification/Http_Json.thy ===== *)
theory Http_Json
  imports C_String
begin

text \<open>
  The JSON layer of the HTTP interface (\<open>src/src/app/app_server.c\<close>): the bounded append-only
  writer and the field extractors that read a request body.

  A request body is a character array with its terminator; a pointer into it is the rest of the
  array from there, so that the dereference of an empty rest is an access outside the array
  (\<open>None\<close>). The results of the extractors are \<open>Some (Some v)\<close> for 0 and \<open>Some None\<close> for -1.
\<close>

section \<open>Writer\<close>

record JsonWriter =
  jw_buffer :: string
  jw_capacity :: nat
  jw_length :: nat
  jw_truncated :: bool

definition json_begin :: "nat \<Rightarrow> JsonWriter" where
  "json_begin cap = \<lparr>jw_buffer = [], jw_capacity = cap, jw_length = 0, jw_truncated = False\<rparr>"

text \<open>\<open>s\<close> is what the format and its arguments print.\<close>

definition json_raw :: "string \<Rightarrow> JsonWriter \<Rightarrow> JsonWriter" where
  "json_raw s w =
     (if jw_truncated w \<or> jw_length w + 1 \<ge> jw_capacity w then w\<lparr>jw_truncated := True\<rparr>
      else
        (let w = w\<lparr>jw_buffer := take (jw_length w) (jw_buffer w) @ fit (jw_capacity w - jw_length w) s\<rparr> in
         if length s \<ge> jw_capacity w - jw_length w then w\<lparr>jw_truncated := True\<rparr>
         else w\<lparr>jw_length := jw_length w + length s\<rparr>))"

definition quote :: char where "quote = CHR 0x22"
definition backslash :: char where "backslash = CHR 0x5C"

definition escape_char :: "char \<Rightarrow> string" where
  "escape_char c =
     (if c = quote \<or> c = backslash then [backslash, c]
      else if c = LF then [backslash, CHR ''n'']
      else if c = CR then [backslash, CHR ''r'']
      else if c = CHR 0x09 then [backslash, CHR ''t'']
      else if (of_char c :: nat) < 0x20 then ''?''
      else [c])"

definition json_string :: "string \<Rightarrow> JsonWriter \<Rightarrow> JsonWriter" where
  "json_string v w = json_raw [quote] (fold (\<lambda>c. json_raw (escape_char c)) v (json_raw [quote] w))"

definition json_finish :: "JsonWriter \<Rightarrow> int" where
  "json_finish w = (if jw_truncated w then -1 else 0)"

section \<open>Reader\<close>

definition json_space :: "char \<Rightarrow> bool" where
  "json_space c \<longleftrightarrow> c = CHR '' '' \<or> c = CHR 0x09 \<or> c = CR \<or> c = LF"

fun skip_space :: "string \<Rightarrow> string option" where
  "skip_space [] = None"
| "skip_space (c # p) = (if json_space c then skip_space p else Some (c # p))"

text \<open>\<open>strstr\<close> on the C string that starts at a pointer.\<close>

fun find_str :: "string \<Rightarrow> string \<Rightarrow> string option option" where
  "find_str needle [] = None"
| "find_str needle (c # p) =
     (if prefix needle (c_str (c # p)) then Some (Some (c # p))
      else if c = NUL then Some None
      else find_str needle p)"

definition strtol16 :: "string \<Rightarrow> int" where
  "strtol16 s =
     (let (neg, r) = sign (dropWhile isspace s);
          hex = (case r of a # b # c # _ \<Rightarrow> a = CHR ''0'' \<and> b \<in> {CHR ''x'', CHR ''X''} \<and> xdigit_val c \<noteq> None | _ \<Rightarrow> False);
          v = int (xdigits_val (if hex then drop 2 r else r) 0);
          v = (if neg then - v else v)
      in max (- (2 ^ 63)) (min (2 ^ 63 - 1) v))"

text \<open>The four digits of a Unicode escape; the pointer stays on the last character taken.\<close>

fun take_hex :: "nat \<Rightarrow> string \<Rightarrow> (string \<times> string) option" where
  "take_hex 0 p = Some ([], p)"
| "take_hex (Suc k) p = do {
     d \<leftarrow> rd p 1;
     if d = NUL then Some ([], p)
     else do {
       (h, q) \<leftarrow> take_hex k (tl p);
       Some (d # h, q) } }"

definition decode_escape :: "string \<Rightarrow> (char \<times> string) option" where
  "decode_escape p = do {
     e \<leftarrow> rd p 0;
     if e = CHR ''n'' then Some (LF, p)
     else if e = CHR ''r'' then Some (CR, p)
     else if e = CHR ''t'' then Some (CHR 0x09, p)
     else if e = CHR ''u'' then do {
       (hex, q) \<leftarrow> take_hex 4 p;
       let code = strtol16 hex;
       Some (if code > 0 \<and> code < 128 then char_of (nat code) else CHR ''?'', q) }
     else Some (e, p) }"

lemma take_hex_length: "take_hex k p = Some (h, q) \<Longrightarrow> length q \<le> length p"
proof (induction k arbitrary: p h)
  case (Suc k)
  then show ?case by (fastforce split: if_splits Option.bind_splits)
qed simp

lemma decode_escape_length: "decode_escape p = Some (d, q) \<Longrightarrow> length q \<le> length p"
  by (auto simp: decode_escape_def Let_def dest: take_hex_length split: if_splits Option.bind_splits)

text \<open>The loop that copies the value, behind its opening quote.\<close>

function decode_loop :: "nat \<Rightarrow> string \<Rightarrow> string \<Rightarrow> string option option" where
  "decode_loop out_size out p = do {
     c \<leftarrow> rd p 0;
     if c = quote then Some (Some out)
     else if c = NUL then Some None
     else do {
       (decoded, q) \<leftarrow> (if c = backslash then decode_escape (tl p) else Some (c, p));
       if length out + 1 \<ge> out_size then Some None
       else decode_loop out_size (out @ [decoded]) (tl q) } }"
  by pat_completeness auto
termination
  by (relation "measure (\<lambda>(n, out, p). length p)")
    (auto simp: rd_def neq_Nil_conv split: if_splits dest!: decode_escape_length)

declare decode_loop.simps [simp del]

lemma find_str_length: "find_str needle p = Some (Some q) \<Longrightarrow> q \<noteq> [] \<and> length q \<le> length p"
  by (induction p) (auto split: if_splits)

function find_value :: "string \<Rightarrow> nat \<Rightarrow> string \<Rightarrow> string option option" where
  "find_value pattern out_size p = do {
     found \<leftarrow> find_str pattern p;
     case found of
       None \<Rightarrow> Some None
     | Some pos \<Rightarrow> do {
         q \<leftarrow> skip_space (drop (length pattern) pos);
         c \<leftarrow> rd q 0;
         if c \<noteq> CHR '':'' then find_value pattern out_size (tl pos)
         else do {
           q \<leftarrow> skip_space (tl q);
           c \<leftarrow> rd q 0;
           if c \<noteq> quote then Some None
           else decode_loop out_size [] (tl q) } } }"
  by pat_completeness auto
termination
  by (relation "measure (\<lambda>(pat, n, p). length p)")
    (auto dest!: find_str_length simp: length_greater_0_conv [symmetric] simp del: length_greater_0_conv)

declare find_value.simps [simp del]

definition json_get_string :: "string \<Rightarrow> string \<Rightarrow> nat \<Rightarrow> string option option" where
  "json_get_string body field out_size =
     (if length field + 2 \<ge> 64 then Some None
      else find_value (quote # field @ [quote]) out_size body)"

text \<open>\<open>strtoll(s, &end, 10)\<close>: \<open>None\<close> when there are no digits or the value is out of range.\<close>

definition strtoll10 :: "string \<Rightarrow> int option" where
  "strtoll10 s =
     (let (neg, r) = sign (dropWhile isspace s);
          v = int (digits_val r 0);
          v = (if neg then - v else v)
      in if r = [] \<or> \<not> isdigit (hd r) then None
         else if v < - (2 ^ 63) \<or> v > 2 ^ 63 - 1 then None
         else Some v)"

definition json_get_long :: "string \<Rightarrow> string \<Rightarrow> int option option" where
  "json_get_long body field =
     (if length field + 2 \<ge> 64 then Some None
      else do {
        found \<leftarrow> find_str (quote # field @ [quote]) body;
        case found of
          None \<Rightarrow> Some None
        | Some pos \<Rightarrow> do {
            q \<leftarrow> skip_space (drop (length field + 2) pos);
            c \<leftarrow> rd q 0;
            if c \<noteq> CHR '':'' then Some None
            else Some (strtoll10 (c_str (tl q))) } })"

section \<open>The writer\<close>

text \<open>The text that was asked for is in the buffer, or it does not fit and the writer says so.\<close>

definition written :: "JsonWriter \<Rightarrow> string \<Rightarrow> bool" where
  "written w T \<longleftrightarrow>
     (if jw_truncated w then jw_capacity w \<le> length T
      else jw_buffer w = T \<and> jw_length w = length T \<and> length T < jw_capacity w)"

definition json_text :: "string \<Rightarrow> string" where
  "json_text v = [quote] @ concat (map escape_char v) @ [quote]"

lemma json_raw_capacity [simp]: "jw_capacity (json_raw s w) = jw_capacity w"
  by (simp add: json_raw_def Let_def)

lemma written_begin: "0 < cap \<Longrightarrow> written (json_begin cap) []"
  by (simp add: written_def json_begin_def)

lemma written_raw: "written w T \<Longrightarrow> s \<noteq> [] \<Longrightarrow> written (json_raw s w) (T @ s)"
  by (cases s) (auto simp: written_def json_raw_def fit_def Let_def split: if_splits)

lemma escape_char_nonempty: "escape_char c \<noteq> []"
  by (simp add: escape_char_def)

lemma written_chars:
  "written w T \<Longrightarrow> written (fold (\<lambda>c. json_raw (escape_char c)) v w) (T @ concat (map escape_char v)) \<and>
     jw_capacity (fold (\<lambda>c. json_raw (escape_char c)) v w) = jw_capacity w"
proof (induction v arbitrary: w T)
  case (Cons c v)
  from Cons.IH [OF written_raw [OF Cons.prems escape_char_nonempty [of c]]] show ?case by simp
qed simp

lemma written_string: "written w T \<Longrightarrow> written (json_string v w) (T @ json_text v)"
  and json_string_capacity [simp]: "jw_capacity (json_string v w) = jw_capacity w"
proof -
  assume "written w T"
  from written_chars [OF written_raw [OF this, of "[quote]"], of v]
  show "written (json_string v w) (T @ json_text v)"
    using written_raw [of _ "(T @ [quote]) @ concat (map escape_char v)" "[quote]"] by (simp add: json_string_def json_text_def)
next
  have "jw_capacity (fold (\<lambda>c. json_raw (escape_char c)) v u) = jw_capacity u" for u
    by (induction v arbitrary: u) simp_all
  then show "jw_capacity (json_string v w) = jw_capacity w" by (simp add: json_string_def)
qed

lemma written_finish: "written w T \<Longrightarrow> (json_finish w = 0 \<longleftrightarrow> length T < jw_capacity w) \<and> (json_finish w = 0 \<longrightarrow> jw_buffer w = T)"
  by (auto simp: written_def json_finish_def split: if_splits)

section \<open>The reader\<close>

text \<open>What the writer keeps of a character.\<close>

definition kept_char :: "char \<Rightarrow> char" where
  "kept_char c = (if (of_char c :: nat) < 0x20 \<and> c \<noteq> LF \<and> c \<noteq> CR \<and> c \<noteq> CHR 0x09 then CHR ''?'' else c)"

lemmas json_chars = quote_def backslash_def LF_def CR_def NUL_def

lemma decode_plain:
  assumes "c \<notin> {quote, backslash, NUL}"
  shows "decode_loop n out (c # r) = (if length out + 1 \<ge> n then Some None else decode_loop n (out @ [c]) r)"
  using assms decode_loop.simps [of n out "c # r"] by simp

lemma decode_escaped:
  assumes "decode_escape (e # r) = Some (d, e # r)"
  shows "decode_loop n out (backslash # e # r) = (if length out + 1 \<ge> n then Some None else decode_loop n (out @ [d]) r)"
proof -
  have "backslash \<noteq> quote" "backslash \<noteq> NUL" by (simp_all add: json_chars)
  then show ?thesis using assms decode_loop.simps [of n out "backslash # e # r"] by simp
qed

lemma decode_step:
  assumes "c \<noteq> NUL"
  shows "decode_loop n out (escape_char c @ r) =
     (if length out + 1 \<ge> n then Some None else decode_loop n (out @ [kept_char c]) r)"
proof -
  consider (esc) "c = quote \<or> c = backslash" | (lf) "c = LF" | (cr) "c = CR" | (tab) "c = CHR 0x09"
    | (ctl) "c \<notin> {quote, backslash, LF, CR, CHR 0x09}" "(of_char c :: nat) < 32"
    | (plain) "c \<notin> {quote, backslash, LF, CR, CHR 0x09}" "\<not> (of_char c :: nat) < 32" by blast
  then show ?thesis
  proof cases
    case esc
    then have "escape_char c = [backslash, c]" "kept_char c = c" "decode_escape (c # r) = Some (c, c # r)"
      by (auto simp: escape_char_def kept_char_def decode_escape_def json_chars)
    then show ?thesis using decode_escaped [of c r c] by simp
  next
    case lf
    then have "escape_char c = [backslash, CHR ''n'']" "kept_char c = LF" "decode_escape (CHR ''n'' # r) = Some (LF, CHR ''n'' # r)"
      by (auto simp: escape_char_def kept_char_def decode_escape_def json_chars)
    then show ?thesis using decode_escaped [of "CHR ''n''" r LF] by simp
  next
    case cr
    then have "escape_char c = [backslash, CHR ''r'']" "kept_char c = CR" "decode_escape (CHR ''r'' # r) = Some (CR, CHR ''r'' # r)"
      by (auto simp: escape_char_def kept_char_def decode_escape_def json_chars)
    then show ?thesis using decode_escaped [of "CHR ''r''" r CR] by simp
  next
    case tab
    then have "escape_char c = [backslash, CHR ''t'']" "kept_char c = CHR 0x09" "decode_escape (CHR ''t'' # r) = Some (CHR 0x09, CHR ''t'' # r)"
      by (auto simp: escape_char_def kept_char_def decode_escape_def json_chars)
    then show ?thesis using decode_escaped [of "CHR ''t''" r "CHR 0x09"] by simp
  next
    case ctl
    then have "escape_char c = ''?''" "kept_char c = CHR ''?''" by (auto simp: escape_char_def kept_char_def)
    moreover have "CHR ''?'' \<notin> {quote, backslash, NUL}" by (simp add: json_chars)
    ultimately show ?thesis using decode_plain [of "CHR ''?''"] by simp
  next
    case plain
    then have "escape_char c = [c]" "kept_char c = c" by (auto simp: escape_char_def kept_char_def)
    then show ?thesis using decode_plain [of c] plain assms by simp
  qed
qed

lemma decode_text:
  assumes "NUL \<notin> set v" "length out < n"
  shows "decode_loop n out (concat (map escape_char v) @ quote # r) =
     Some (if length out + length v < n then Some (out @ map kept_char v) else None)"
  using assms
proof (induction v arbitrary: out)
  case Nil
  then show ?case by (subst decode_loop.simps) simp
next
  case (Cons c v)
  show ?case
  proof (cases "length out + 1 < n")
    case True
    then show ?thesis using Cons.IH [of "out @ [kept_char c]"] Cons.prems decode_step [of c n out "concat (map escape_char v) @ quote # r"] by auto
  next
    case False
    then show ?thesis using Cons.prems decode_step [of c n out "concat (map escape_char v) @ quote # r"] by auto
  qed
qed

lemma skip_space_hit: "\<not> json_space c \<Longrightarrow> skip_space (c # p) = Some (c # p)"
  by simp

lemma c_str_append: "NUL \<notin> set s \<Longrightarrow> c_str (s @ p) = s @ c_str p"
  by (auto simp: c_str_def takeWhile_append)

lemma json_field_read:
  assumes "0 < n" "NUL \<notin> set v" "NUL \<notin> set field" "length field < 62"
  shows "json_get_string (([CHR ''{'', quote] @ field @ [quote, CHR '':'']) @ json_text v @ ''}'' @ NUL # rest) field n =
     Some (if length v < n then Some (map kept_char v) else None)"
proof -
  let ?pat = "quote # field @ [quote]"
  let ?r = "json_text v @ ''}'' @ NUL # rest"
  have body: "([CHR ''{'', quote] @ field @ [quote, CHR '':'']) @ ?r = CHR ''{'' # ?pat @ CHR '':'' # ?r" by simp
  have pref: "prefix ?pat (c_str (?pat @ CHR '':'' # ?r))"
    using assms(3) by (subst c_str_append) (auto simp: json_chars)
  have f: "find_str ?pat (CHR ''{'' # ?pat @ CHR '':'' # ?r) = Some (Some (?pat @ CHR '':'' # ?r))"
    using pref by (auto simp: json_chars c_str_def)
  have "json_get_string (CHR ''{'' # ?pat @ CHR '':'' # ?r) field n =
      decode_loop n [] (concat (map escape_char v) @ quote # ''}'' @ NUL # rest)"
    unfolding json_get_string_def
    by (subst find_value.simps, simp only: f) (use assms(4) in \<open>simp add: json_space_def json_text_def json_chars\<close>)
  then show ?thesis unfolding body using decode_text [OF assms(2), of "[]" n] assms(1) by simp
qed

text \<open>
  A string field that the server writes is read back: whatever text \<open>v\<close> is written into an object
  with the bounded writer, the writer reports success exactly when the whole object fits its
  buffer, and then the extractor returns \<open>v\<close> (control characters other than newline, carriage
  return and tab as question marks) when it fits the destination and an error otherwise. Quotes
  and backslashes in \<open>v\<close> cannot end the string early.
\<close>

theorem json_string_roundtrip:
  assumes "0 < cap" "0 < n" "NUL \<notin> set v" "NUL \<notin> set field" "length field < 62"
  defines "w \<equiv> json_raw ''}'' (json_string v (json_raw ([CHR ''{'', quote] @ field @ [quote, CHR '':'']) (json_begin cap)))"
  shows "(json_finish w = 0 \<longleftrightarrow> length field + length (concat (map escape_char v)) + 7 < cap) \<and>
     (json_finish w = 0 \<longrightarrow>
        json_get_string (jw_buffer w @ NUL # rest) field n = Some (if length v < n then Some (map kept_char v) else None))"
proof -
  let ?h = "[CHR ''{'', quote] @ field @ [quote, CHR '':'']"
  have "written w ((?h @ json_text v) @ ''}'')"
    unfolding w_def using written_raw [OF written_begin [OF assms(1)], of ?h] by (intro written_raw written_string) simp_all
  then have fin: "json_finish w = 0 \<longleftrightarrow> length ((?h @ json_text v) @ ''}'') < cap" "json_finish w = 0 \<Longrightarrow> jw_buffer w = (?h @ json_text v) @ ''}''"
    using written_finish [of w] by (auto simp: w_def json_begin_def)
  moreover have "json_get_string (((?h @ json_text v) @ ''}'') @ NUL # rest) field n = Some (if length v < n then Some (map kept_char v) else None)"
    using json_field_read [OF assms(2-5), of rest] by simp
  ultimately show ?thesis by (auto simp: json_text_def)
qed

theorem json_string_roundtrip_witness:
  "let w = json_raw ''}'' (json_string [CHR ''a'', quote, LF] (json_raw ([CHR ''{'', quote] @ ''sdp'' @ [quote, CHR '':'']) (json_begin 64)))
   in json_finish w = 0 \<and> json_get_string (jw_buffer w @ NUL # []) ''sdp'' 100 = Some (Some [CHR ''a'', quote, LF])"
proof -
  have "NUL \<notin> set [CHR ''a'', quote, LF]" "NUL \<notin> set ''sdp''" by (simp_all add: json_chars)
  from json_string_roundtrip [OF _ _ this, of 64 100 "[]"] show ?thesis
    by (simp add: Let_def escape_char_def kept_char_def) (simp add: json_chars)
qed

section \<open>Memory safety of the reader\<close>

lemma skip_space_terminated: "skip_space (t @ NUL # rest) = Some (dropWhile json_space t @ NUL # rest)"
  by (induction t) (simp_all add: json_space_def json_chars)

lemma find_str_terminated:
  assumes "NUL \<notin> set t" "NUL \<notin> set needle"
  shows "\<exists>r. (\<forall>rest. find_str needle (t @ NUL # rest) = Some (map_option (\<lambda>u. u @ NUL # rest) r)) \<and>
     (\<forall>u. r = Some u \<longrightarrow> suffix u t \<and> prefix needle u)"
  using assms(1)
proof (induction t)
  case Nil
  show ?case by (cases "needle = []") (auto simp: c_str_def intro: exI [of _ "Some []"] exI [of _ None])
next
  case (Cons c t)
  have cs: "c_str ((c # t) @ NUL # rest) = c # t" for rest using Cons.prems by (subst c_str_append) (simp_all add: c_str_def)
  show ?case
  proof (cases "prefix needle (c # t)")
    case True
    then show ?thesis using cs by (intro exI [of _ "Some (c # t)"]) simp
  next
    case False
    obtain r where "\<forall>rest. find_str needle (t @ NUL # rest) = Some (map_option (\<lambda>u. u @ NUL # rest) r)"
      "\<forall>u. r = Some u \<longrightarrow> suffix u t \<and> prefix needle u" using Cons by auto
    then show ?thesis using False cs Cons.prems by (intro exI [of _ r]) (auto intro: suffix_ConsI)
  qed
qed

lemma take_hex_terminated:
  "NUL \<notin> set t \<Longrightarrow> \<exists>h q. (\<forall>rest. take_hex k (e # t @ NUL # rest) = Some (h, q @ NUL # rest)) \<and> suffix q (e # t) \<and> q \<noteq> []"
proof (induction k arbitrary: e t)
  case 0
  show ?case by (intro exI [of _ "[]"] exI [of _ "e # t"]) simp
next
  case (Suc k)
  show ?case
  proof (cases t)
    case Nil
    then show ?thesis by (intro exI [of _ "[]"] exI [of _ "[e]"]) simp
  next
    case (Cons d u)
    with Suc obtain h q where "\<forall>rest. take_hex k (d # u @ NUL # rest) = Some (h, q @ NUL # rest)" "suffix q (d # u)" "q \<noteq> []"
      by (metis list.set_intros(2))
    with Cons Suc.prems show ?thesis by (intro exI [of _ "d # h"] exI [of _ q]) (auto intro: suffix_ConsI)
  qed
qed

lemma decode_escape_terminated:
  assumes "NUL \<notin> set t" "t \<noteq> []"
  shows "\<exists>d q. (\<forall>rest. decode_escape (t @ NUL # rest) = Some (d, q @ NUL # rest)) \<and> suffix q t \<and> q \<noteq> []"
proof -
  obtain e u where t: "t = e # u" using assms(2) by (cases t) auto
  obtain h q where h: "\<forall>rest. take_hex 4 (e # u @ NUL # rest) = Some (h, q @ NUL # rest)" "suffix q (e # u)" "q \<noteq> []"
    using take_hex_terminated [of u 4 e] assms(1) t by auto
  consider "e = CHR ''n''" | "e = CHR ''r''" | "e = CHR ''t''" | "e = CHR ''u''" | "e \<notin> {CHR ''n'', CHR ''r'', CHR ''t'', CHR ''u''}" by blast
  then show ?thesis
  proof cases
    case 4
    then show ?thesis using h t by (intro exI [of _ "if strtol16 h > 0 \<and> strtol16 h < 128 then char_of (nat (strtol16 h)) else CHR ''?''"] exI [of _ q]) (simp add: decode_escape_def Let_def)
  qed (use t in \<open>auto simp: decode_escape_def intro!: exI [of _ t]\<close>)
qed

lemma decode_loop_terminated:
  assumes "NUL \<notin> set t" "t = [] \<or> last t \<noteq> backslash" "length out < n"
  shows "\<exists>r. (\<forall>rest. decode_loop n out (t @ NUL # rest) = Some r) \<and> (\<forall>v. r = Some v \<longrightarrow> length v < n)"
  using assms
proof (induction "length t" arbitrary: t out rule: less_induct)
  case less
  show ?case
  proof (cases t)
    case Nil
    have "NUL \<noteq> quote" by (simp add: json_chars)
    then have "decode_loop n out (NUL # rest) = Some None" for rest by (subst decode_loop.simps) simp
    then show ?thesis using Nil by (intro exI [of _ None]) simp
  next
    case (Cons c u)
    have c: "c \<noteq> NUL" using less.prems(1) Cons by auto
    have unroll: "decode_loop n out (t @ NUL # rest) = (if c = quote then Some (Some out) else
        Option.bind (if c = backslash then decode_escape (u @ NUL # rest) else Some (c, t @ NUL # rest))
          (\<lambda>(d, q). if length out + 1 \<ge> n then Some None else decode_loop n (out @ [d]) (tl q)))" for rest
      using c Cons decode_loop.simps [of n out "t @ NUL # rest"] by simp
    show ?thesis
    proof (cases "c = quote \<or> length out + 1 \<ge> n \<and> c \<noteq> backslash")
      case True
      then show ?thesis using unroll less.prems(3) by (intro exI [of _ "if c = quote then Some out else None"]) auto
    next
      case False
      have "\<exists>d q. (\<forall>rest. (if c = backslash then decode_escape (u @ NUL # rest) else Some (c, t @ NUL # rest)) = Some (d, q @ NUL # rest)) \<and>
          suffix q t \<and> q \<noteq> []"
      proof (cases "c = backslash")
        case True
        then have "u \<noteq> []" using less.prems(2) Cons by auto
        then show ?thesis using decode_escape_terminated [of u] less.prems(1) Cons True by (auto intro: suffix_ConsI)
      next
        case False
        then show ?thesis using Cons by (intro exI [of _ c] exI [of _ t]) simp
      qed
      then obtain d q where q: "\<And>rest. (if c = backslash then decode_escape (u @ NUL # rest) else Some (c, t @ NUL # rest)) = Some (d, q @ NUL # rest)"
        "suffix q t" "q \<noteq> []" by blast
      have step: "decode_loop n out (t @ NUL # rest) =
          (if length out + 1 \<ge> n then Some None else decode_loop n (out @ [d]) (tl q @ NUL # rest))" for rest
        using unroll [of rest] q(1) [of rest] q(3) False by simp
      have "length (tl q) < length t" using suffix_length_le [OF q(2)] q(3) by (cases q) auto
      moreover have "NUL \<notin> set (tl q)" using set_mono_suffix [OF q(2)] less.prems(1) q(3) by (auto dest: list.set_sel(2))
      moreover have "tl q = [] \<or> last (tl q) \<noteq> backslash"
        using q(2,3) less.prems(2) by (auto simp: suffix_def last_tl)
      ultimately show ?thesis using less.hyps [of "tl q" "out @ [d]"] step by (cases "length out + 1 \<ge> n") auto
    qed
  qed
qed

lemma find_value_terminated:
  assumes "NUL \<notin> set t" "t = [] \<or> last t \<noteq> backslash" "0 < n" "NUL \<notin> set pat" "pat \<noteq> []"
  shows "\<exists>r. (\<forall>rest. find_value pat n (t @ NUL # rest) = Some r) \<and> (\<forall>v. r = Some v \<longrightarrow> length v < n)"
  using assms(1,2)
proof (induction "length t" arbitrary: t rule: less_induct)
  case less
  obtain f where f: "\<And>rest. find_str pat (t @ NUL # rest) = Some (map_option (\<lambda>u. u @ NUL # rest) f)"
    "\<And>u. f = Some u \<Longrightarrow> suffix u t \<and> prefix pat u"
    using find_str_terminated [OF less.prems(1) assms(4)] by blast
  have sub: "NUL \<notin> set u \<and> (u = [] \<or> last u \<noteq> backslash)" if "suffix u t" for u
    using that less.prems by (auto simp: suffix_def)
  show ?case
  proof (cases f)
    case None
    then show ?thesis using f(1) by (intro exI [of _ None]) (simp add: find_value.simps)
  next
    case (Some u)
    then have u: "suffix u t" "prefix pat u" using f(2) by auto
    define a where "a = dropWhile json_space (drop (length pat) u)"
    define b where "b = dropWhile json_space (tl a)"
    have "suffix a u" unfolding a_def using suffix_drop suffix_dropWhile suffix_order.trans by blast
    then have a: "suffix a t" using u(1) suffix_order.trans by blast
    have tl: "suffix (tl v) t" if "suffix v t" for v using that suffix_tl suffix_order.trans by blast
    have b: "suffix b t" unfolding b_def using tl [OF a] suffix_dropWhile suffix_order.trans by blast
    have skip: "skip_space (drop (length pat) (u @ NUL # rest)) = Some (a @ NUL # rest)" for rest
      using prefix_length_le [OF u(2)] by (simp add: a_def skip_space_terminated)
    have eq: "find_value pat n (t @ NUL # rest) =
        (if a = [] \<or> hd a \<noteq> CHR '':'' then find_value pat n (tl u @ NUL # rest)
         else if b = [] \<or> hd b \<noteq> quote then Some None else decode_loop n [] (tl b @ NUL # rest))" for rest
    proof -
      have "u \<noteq> []" using u(2) assms(5) by auto
      moreover have "NUL \<noteq> CHR '':''" "NUL \<noteq> quote" by (simp_all add: json_chars)
      moreover have "skip_space (tl (a @ NUL # rest)) = Some (b @ NUL # rest)" if "a \<noteq> []"
        using that by (simp add: b_def skip_space_terminated)
      ultimately show ?thesis
        by (subst find_value.simps, cases a; cases b) (simp_all add: f(1) Some skip del: drop_append)
    qed
    have "length (tl u) < length t" using suffix_length_le [OF u(1)] u(2) assms(5) by (cases u) auto
    then obtain r1 where r1: "\<And>rest. find_value pat n (tl u @ NUL # rest) = Some r1" "\<And>v. r1 = Some v \<Longrightarrow> length v < n"
      using less.hyps sub [OF tl [OF u(1)]] by blast
    obtain r2 where r2: "\<And>rest. decode_loop n [] (tl b @ NUL # rest) = Some r2" "\<And>v. r2 = Some v \<Longrightarrow> length v < n"
      using decode_loop_terminated [of "tl b" "[]" n] sub [OF tl [OF b]] assms(3) by auto
    show ?thesis
      by (intro exI [of _ "if a = [] \<or> hd a \<noteq> CHR '':'' then r1 else if b = [] \<or> hd b \<noteq> quote then None else r2"])
        (use r1 r2 in \<open>simp add: eq\<close>)
  qed
qed

lemma json_get_string_terminated:
  assumes "NUL \<notin> set body" "body = [] \<or> last body \<noteq> backslash" "0 < n" "NUL \<notin> set field"
  shows "\<exists>r. (\<forall>rest. json_get_string (body @ NUL # rest) field n = Some r) \<and> (\<forall>v. r = Some v \<longrightarrow> length v < n)"
  using find_value_terminated [OF assms(1-3), of "quote # field @ [quote]"] assms(4)
  by (cases "length field + 2 \<ge> 64") (auto simp: json_get_string_def json_chars)

text \<open>
  The extractor is memory safe on every request body that does not end in a backslash: it never
  reads behind the terminator (the result does not depend on what is there) and never writes more
  than the destination holds.
\<close>

theorem json_get_string_safe:
  assumes "NUL \<notin> set body" "body = [] \<or> last body \<noteq> backslash" "0 < n" "NUL \<notin> set field"
  shows "\<exists>r. (\<forall>rest. json_get_string (body @ NUL # rest) field n = Some r) \<and> (\<forall>v. r = Some v \<longrightarrow> length v < n)"
  using json_get_string_terminated [OF assms] .

theorem json_get_string_safe_witness:
  "\<exists>r. \<forall>rest. json_get_string ([quote, CHR ''k'', quote] @ NUL # rest) ''k'' 8 = Some r"
  using json_get_string_safe [of "[quote, CHR ''k'', quote]" 8 "''k''"] by (auto simp: json_chars)

lemma decode_plain_text:
  "set s \<inter> {quote, backslash, NUL} = {} \<Longrightarrow> length out + length s < n \<Longrightarrow> decode_loop n out (s @ r) = decode_loop n (out @ s) r"
proof (induction s arbitrary: out)
  case (Cons c s)
  then show ?case using decode_plain [of c n out "s @ r"] Cons.IH [of "out @ [c]"] by auto
qed simp

text \<open>
  A body that ends in a backslash inside the string is read past its terminator: the escape takes
  the terminator as an ordinary character, and the loop goes on in the memory behind it (outside
  the array when the body fills it).
\<close>

theorem json_get_string_overread:
  assumes "set s \<inter> {quote, backslash, NUL} = {}" "length s + 2 < n"
  shows "json_get_string ([quote] @ ''sdp'' @ [quote, CHR '':'', quote] @ s @ [backslash, NUL] @ rest) ''sdp'' n =
       decode_loop n (s @ [NUL]) rest \<and>
     json_get_string ([quote] @ ''sdp'' @ [quote, CHR '':'', quote] @ s @ [backslash, NUL]) ''sdp'' n = None"
proof -
  let ?b = "\<lambda>rest. [quote] @ ''sdp'' @ [quote, CHR '':'', quote] @ s @ [backslash, NUL] @ rest"
  have f: "find_str (quote # ''sdp'' @ [quote]) (?b r) = Some (Some (?b r))" for r
    by (simp add: c_str_def json_chars)
  have d: "decode_escape (NUL # r) = Some (NUL, NUL # r)" for r by (simp add: decode_escape_def json_chars)
  have a: "json_get_string (?b r) ''sdp'' n = decode_loop n (s @ [NUL]) r" for r
  proof -
    have "json_get_string (?b r) ''sdp'' n = decode_loop n [] (s @ backslash # NUL # r)"
      unfolding json_get_string_def by (subst find_value.simps, simp only: f) (simp add: json_space_def json_chars)
    also have "\<dots> = decode_loop n s (backslash # NUL # r)" using decode_plain_text [OF assms(1), of "[]" n] assms(2) by simp
    also have "\<dots> = decode_loop n (s @ [NUL]) r" using decode_escaped [OF d, of n s r] assms(2) by simp
    finally show ?thesis .
  qed
  have "decode_loop n (s @ [NUL]) [] = None" by (subst decode_loop.simps) (simp add: rd_def)
  then show ?thesis using a [of rest] a [of "[]"] by simp
qed

theorem json_get_string_overread_witness:
  "json_get_string ([quote] @ ''sdp'' @ [quote, CHR '':'', quote] @ ''v'' @ [backslash, NUL]) ''sdp'' 8192 = None"
  using json_get_string_overread [of "''v''" 8192 "[]"] by (auto simp: json_chars)

end
