(* ===== verification/App_Server.thy ===== *)
theory App_Server
  imports Rtc_Session App_Config Au_Ring Http_Json
begin

text \<open>
  The composition root (\<open>src/src/app/app_server.c\<close>): the session table, signalling over HTTP, the
  media pipeline with its supervision, and the main loop that ties the parts together.

  \<open>Server\<close> has the fields of the structure that the main thread reads and writes. A session is a
  \<open>seat\<close>: its DTLS engine and its \<open>RtcSession\<close>; the process wide DTLS counters and the certificate
  are fields of the server. The hooks \<open>session_on_idr_request\<close> and \<open>session_on_closed\<close> run from
  inside the session operations; a session reports them in its trace, and \<open>absorb\<close> applies the
  new entries to the server. The pipeline objects are pointers that are set or not; of the objects
  behind them the access unit ring is modelled here (\<open>Au_Ring\<close>), the others work in their own
  threads (\<open>Encoder_Worker\<close>, \<open>Frame_Hub\<close>). A reply is a status code and a body. The fields that
  hold floating point rates, the mongoose manager and the mDNS responder (\<open>Mdns\<close>, which shares no
  state with the rest) are left out; the two diagnostics pages and the log page are arguments of
  the router.
\<close>

section \<open>State\<close>

definition MAX_RTC_SESSIONS :: nat where "MAX_RTC_SESSIONS = 8"
definition AU_RING_SLOTS :: nat where "AU_RING_SLOTS = 8"
definition AU_SLOT_CAPACITY :: nat where "AU_SLOT_CAPACITY = 512 * 1024"
definition MAX_DATAGRAMS_PER_POLL :: nat where "MAX_DATAGRAMS_PER_POLL = 32"
definition RATE_WINDOW_MS :: u64 where "RATE_WINDOW_MS = 1000"
definition MAX_INTERFACES :: nat where "MAX_INTERFACES = 16"
definition MAX_HTTP_POLL_FDS :: nat where "MAX_HTTP_POLL_FDS = 64"
definition MAX_POLL_FDS :: nat where "MAX_POLL_FDS = MAX_HTTP_POLL_FDS + MAX_RTC_SESSIONS + 2"
definition IDLE_WAKE_MS :: int where "IDLE_WAKE_MS = 100"
definition SESSION_WAKE_MS :: int where "SESSION_WAKE_MS = 20"
definition PIPELINE_RETRY_MS :: u64 where "PIPELINE_RETRY_MS = 5000"
definition PIPELINE_RETRY_MAX_MS :: u64 where "PIPELINE_RETRY_MAX_MS = 60000"
definition MEDIA_RECENT_MS :: u64 where "MEDIA_RECENT_MS = 2000"
definition RR_RECENT_MS :: u64 where "RR_RECENT_MS = 6000"
definition CLIENT_REPORT_RECENT_MS :: u64 where "CLIENT_REPORT_RECENT_MS = 6000"
definition TLS_WARN_INTERVAL_MS :: u64 where "TLS_WARN_INTERVAL_MS = 10000"
definition TLS_LINGER_MS :: u64 where "TLS_LINGER_MS = 1000"

record SourceInfo =
  si_name :: string
  si_width :: u32
  si_height :: u32
  si_fps :: u32
  si_frame_size :: nat

record 's seat =
  seat_engine :: "'s DtlsSrtp"
  seat_session :: RtcSession

text \<open>\<open>sv_encoder\<close> says whether the encoder is hardware; \<open>sv_encoder_worker\<close> is the worker's bitrate mailbox.\<close>

record 's Server =
  sv_config :: AppConfig
  sv_tls_rejected :: u64
  sv_tls_warned_ms :: u64
  sv_source :: "SourceInfo option"
  sv_source_worker :: bool
  sv_hub :: bool
  sv_encoder :: "bool option"
  sv_encoder_worker :: "u32 option"
  sv_ring :: "AuRing option"
  sv_encoder_name :: string
  sv_force_idr :: bool
  sv_media_active :: bool
  sv_running :: bool
  sv_encoder_override :: string
  sv_pipeline_error :: string
  sv_retry_ms :: u64
  sv_failures :: u32
  sv_recoveries :: u64
  sv_discontinuities :: u64
  sv_sessions :: "'s seat option list"
  sv_sessions_total :: u64
  sv_create_failures :: u64
  sv_sessions_closed :: u64
  sv_dtls_ready :: bool
  sv_globals :: DtlsGlobals
  sv_gstats :: DtlsSrtpGlobalStats
  sv_sample_ms :: u64
  sv_sample_bytes_sent :: u64
  sv_sample_captured :: u64
  sv_sample_encoded :: u64
  sv_session_sample_ms :: "u64 list"
  sv_session_sample_bytes :: "u64 list"
  sv_client_frames :: "u64 list"
  sv_client_report_ms :: "u64 list"
  sv_client_width :: "u32 list"
  sv_client_height :: "u32 list"
  sv_client_decoding :: "bool list"
  sv_http_requests :: u64
  sv_http_errors :: u64
  sv_camera_restarts :: u64
  sv_webrtc_restarts :: u64
  sv_config_reloads :: u64
  sv_log_debug :: bool

type_synonym reply = "nat \<times> string"

section \<open>Network helpers\<close>

text \<open>An entry of \<open>getifaddrs\<close>: name, IPv4 address in host order if it has one, and \<open>IFF_UP\<close>.\<close>

type_synonym ifaddr = "string \<times> u32 option \<times> bool"

fun collect_loop :: "nat \<Rightarrow> (string \<times> string) list \<Rightarrow> ifaddr list \<Rightarrow> (string \<times> string) list" where
  "collect_loop limit out [] = out"
| "collect_loop limit out ((name, address, up) # rest) =
     (if length out \<ge> limit then out
      else case address of
        None \<Rightarrow> collect_loop limit out rest
      | Some a \<Rightarrow>
          if \<not> up \<or> drop_bit 24 a = 127 then collect_loop limit out rest
          else
            (let ip = inet_ntop4 a in
             if ip \<in> snd ` set out then collect_loop limit out rest
             else collect_loop limit (out @ [(fit 17 name, fit 16 ip)]) rest))"

text \<open>\<open>None\<close>: \<open>getifaddrs\<close> failed.\<close>

definition collect_interfaces :: "ifaddr list option \<Rightarrow> nat \<Rightarrow> (string \<times> string) list" where
  "collect_interfaces addrs limit = (case addrs of None \<Rightarrow> [] | Some l \<Rightarrow> collect_loop limit [] l)"

definition is_private_ipv4 :: "string \<Rightarrow> bool" where
  "is_private_ipv4 ip =
     (case inet_pton ip of
        Some [a, b, c, d] \<Rightarrow>
          (let host = be32 a b c d in
           drop_bit 24 host = 10 \<or> drop_bit 20 host = 0xAC1 \<or> drop_bit 16 host = 0xC0A8 \<or> drop_bit 16 host = 0xA9FE)
      | _ \<Rightarrow> False)"

definition choose_advertise_ip :: "string \<Rightarrow> (string \<times> string) list \<Rightarrow> nat \<Rightarrow> string" where
  "choose_advertise_ip host_header interfaces out_size =
     (let candidate = take 15 (takeWhile (\<lambda>c. c \<noteq> CHR '':'') host_header) in
      if host_header \<noteq> [] \<and> candidate \<in> snd ` set interfaces then fit out_size candidate
      else case find (\<lambda>i. is_private_ipv4 (snd i)) interfaces of
        Some i \<Rightarrow> fit out_size (snd i)
      | None \<Rightarrow> (case interfaces of i # _ \<Rightarrow> fit out_size (snd i) | [] \<Rightarrow> fit out_size ''127.0.0.1''))"

text \<open>The host candidates of an answer: the advertised address first, then the other ones.\<close>

fun candidate_list :: "string \<Rightarrow> string list \<Rightarrow> (string \<times> string) list \<Rightarrow> string list" where
  "candidate_list advertise ips [] = ips"
| "candidate_list advertise ips (i # rest) =
     (if length ips \<ge> SDP_MAX_CANDIDATES then ips
      else if snd i = advertise \<or> snd i \<in> set ips then candidate_list advertise ips rest
      else candidate_list advertise (ips @ [fit 16 (snd i)]) rest)"

section \<open>Media pipeline\<close>

text \<open>What the constructors of the pipeline answer.\<close>

record pipe_env =
  pe_source :: "SourceInfo option"
  pe_hub_ok :: bool
  pe_ring_junk :: "nat \<Rightarrow> u8"
  pe_ring_ok :: bool
  pe_ring_efd :: bool
  pe_encoder :: "(bool \<times> string) option"
  pe_encoder_worker :: bool
  pe_encoder_started :: bool
  pe_source_worker :: bool
  pe_source_started :: bool

definition media_pipeline_stop :: "'s Server \<Rightarrow> 's Server" where
  "media_pipeline_stop server = server\<lparr>sv_source_worker := False, sv_encoder_worker := None, sv_encoder := None,
     sv_ring := None, sv_hub := False, sv_source := None, sv_running := False, sv_encoder_name := [], sv_media_active := False\<rparr>"

definition quoted :: "string \<Rightarrow> string" where
  "quoted s = [CHR 0x27] @ s @ [CHR 0x27]"

text \<open>The result: the return value, the error text (an array of 256 characters) and the server.\<close>

definition media_pipeline_start :: "pipe_env \<Rightarrow> 's Server \<Rightarrow> int \<times> string \<times> 's Server" where
  "media_pipeline_start env server =
     (let c = sv_config server;
          failed = (\<lambda>message server. (-1, fit 256 message, media_pipeline_stop server));
          server = server\<lparr>sv_source := pe_source env\<rparr>
      in case pe_source env of
        None \<Rightarrow> failed (''capture: cannot open source '' @ quoted (source_name c) @ '' (see the log for the driver or file error)'') server
      | Some source \<Rightarrow>
      let server = server\<lparr>sv_hub := pe_hub_ok env\<rparr> in
      if \<not> pe_hub_ok env then failed (''capture: frame pool allocation failed ('' @ show_nat (si_frame_size source) @ '' byte frames)'') server
      else
        let ring = au_ring_create (pe_ring_junk env) (pe_ring_ok env) (pe_ring_efd env) AU_SLOT_CAPACITY AU_RING_SLOTS;
            server = server\<lparr>sv_ring := ring\<rparr> in
        if ring = None then failed ''encode: access unit ring allocation failed (8 x 512 KB)'' server
        else
          let preference = (if sv_encoder_override server \<noteq> [] then sv_encoder_override server else encoder c) in
          case pe_encoder env of
            None \<Rightarrow> failed (''encode: no usable encoder for preference '' @ quoted preference) server
          | Some (hardware, name) \<Rightarrow>
            let server = server\<lparr>sv_encoder := Some hardware, sv_encoder_name := fit 96 name,
                                sv_encoder_worker := (if pe_encoder_worker env then Some 0 else None)\<rparr> in
            if \<not> pe_encoder_worker env \<or> \<not> pe_encoder_started env then
              failed (''encode: worker thread did not start for '' @ show_nat (unat (si_width source)) @ ''x'' @ show_nat (unat (si_height source))) server
            else
              let server = server\<lparr>sv_source_worker := pe_source_worker env\<rparr> in
              if \<not> pe_source_worker env \<or> \<not> pe_source_started env then
                failed (''capture: worker thread did not start for '' @ si_name source) server
              else (0, [], server\<lparr>sv_running := True, sv_force_idr := True\<rparr>))"

text \<open>\<open>n\<close> is the number of doublings that are left.\<close>

fun retry_loop :: "nat \<Rightarrow> u64 \<Rightarrow> u64" where
  "retry_loop 0 delay = delay"
| "retry_loop (Suc n) delay = (if delay < PIPELINE_RETRY_MAX_MS then retry_loop n (delay * 2) else delay)"

definition pipeline_schedule_retry :: "u64 \<Rightarrow> 's Server \<Rightarrow> 's Server" where
  "pipeline_schedule_retry now server =
     (let delay = retry_loop (unat (sv_failures server) - 1) PIPELINE_RETRY_MS;
          delay = (if delay > PIPELINE_RETRY_MAX_MS then PIPELINE_RETRY_MAX_MS else delay)
      in server\<lparr>sv_retry_ms := now + delay\<rparr>)"

definition media_supervise :: "bool \<Rightarrow> bool \<Rightarrow> pipe_env \<Rightarrow> u64 \<Rightarrow> 's Server \<Rightarrow> 's Server" where
  "media_supervise encoder_failed source_failed env now server =
     (if sv_running server then
        if \<not> encoder_failed \<and> \<not> source_failed then server
        else
          (let server =
             (if encoder_failed
              then (let s = server\<lparr>sv_pipeline_error := fit 256 (''encode: '' @ sv_encoder_name server @ '' failed at runtime'')\<rparr>
                    in if sv_encoder server = Some True \<and> encoder (sv_config server) = ''auto''
                       then s\<lparr>sv_encoder_override := ''sw''\<rparr> else s)
              else server\<lparr>sv_pipeline_error := fit 256 (''capture: '' @
                     (case sv_source server of None \<Rightarrow> [] | Some s \<Rightarrow> si_name s) @ '' stopped delivering frames'')\<rparr>);
               server = media_pipeline_stop server
           in server\<lparr>sv_failures := (if encoder_failed then 0 else 1),
                     sv_retry_ms := (if encoder_failed then now else now + PIPELINE_RETRY_MS)\<rparr>)
      else if sv_retry_ms server = 0 \<or> now < sv_retry_ms server then server
      else
        (let (rc, error, server) = media_pipeline_start env server in
         if rc = 0 then server\<lparr>sv_retry_ms := 0, sv_failures := 0, sv_pipeline_error := [], sv_recoveries := sv_recoveries server + 1\<rparr>
         else pipeline_schedule_retry now
                (server\<lparr>sv_pipeline_error := fit 256 error, sv_failures := sv_failures server + 1\<rparr>)))"

section \<open>Sessions\<close>

definition world_of :: "'s Server \<Rightarrow> 's seat \<Rightarrow> 's rtc_world" where
  "world_of server seat = \<lparr>engine = seat_engine seat, g_stats = sv_gstats server, user = seat_session seat\<rparr>"

definition session_on_idr_request :: "'s Server \<Rightarrow> 's Server" where
  "session_on_idr_request server = server\<lparr>sv_force_idr := True\<rparr>"

definition session_on_closed :: "'s Server \<Rightarrow> 's Server" where
  "session_on_closed server = server\<lparr>sv_sessions_closed := sv_sessions_closed server + 1\<rparr>"

fun run_hooks :: "rtc_event list \<Rightarrow> 's Server \<Rightarrow> 's Server" where
  "run_hooks [] server = server"
| "run_hooks (SentTo d a # es) server = run_hooks es server"
| "run_hooks (IdrRequest # es) server = run_hooks es (session_on_idr_request server)"
| "run_hooks (SessionClosed # es) server = run_hooks es (session_on_closed server)"

definition absorb :: "nat \<Rightarrow> 's seat \<Rightarrow> 's rtc_world \<Rightarrow> 's Server \<Rightarrow> 's Server" where
  "absorb i seat w server =
     run_hooks (drop (length (trace (seat_session seat))) (trace (user w)))
       (server\<lparr>sv_gstats := g_stats w,
               sv_sessions := (sv_sessions server)[i := Some \<lparr>seat_engine = engine w, seat_session = user w\<rparr>]\<rparr>)"

text \<open>A call of a session operation on the session in slot \<open>i\<close>; an empty slot is skipped.\<close>

definition on_session :: "('s rtc_world \<Rightarrow> 's rtc_world option) \<Rightarrow> nat \<Rightarrow> 's Server \<Rightarrow> 's Server option" where
  "on_session f i server = do {
     s \<leftarrow> rd (sv_sessions server) i;
     case s of
       None \<Rightarrow> Some server
     | Some seat \<Rightarrow> do {
         w \<leftarrow> f (world_of server seat);
         Some (absorb i seat w server) } }"

definition destroy_session :: "'s rtc_env \<Rightarrow> nat \<Rightarrow> 's Server \<Rightarrow> 's Server option" where
  "destroy_session env i server = do {
     s \<leftarrow> rd (sv_sessions server) i;
     case s of
       None \<Rightarrow> Some server
     | Some seat \<Rightarrow> do {
         (tr, freed) \<leftarrow> rtc_session_destroy env (world_of server seat);
         Some (run_hooks (drop (length (trace (seat_session seat))) tr)
                 (server\<lparr>sv_sessions := (sv_sessions server)[i := None]\<rparr>)) } }"

definition sessions_close_all :: "(nat \<Rightarrow> 's rtc_env) \<Rightarrow> 's Server \<Rightarrow> 's Server option" where
  "sessions_close_all env server = do {
     server \<leftarrow> for_upto MAX_RTC_SESSIONS (\<lambda>i. destroy_session (env i) i) server;
     Some (server\<lparr>sv_media_active := False\<rparr>) }"

definition open_seat :: "'s seat option \<Rightarrow> bool" where
  "open_seat s = (case s of None \<Rightarrow> False | Some seat \<Rightarrow> rtc_session_state (Some (seat_session seat)) \<noteq> RTC_CLOSED)"

definition sessions_active :: "'s Server \<Rightarrow> nat" where
  "sessions_active server = length (filter open_seat (sv_sessions server))"

definition live_ids :: "'s Server \<Rightarrow> u32 list" where
  "live_ids server = concat (map (\<lambda>s. case s of None \<Rightarrow> [] | Some seat \<Rightarrow> [rtc_session_id (Some (seat_session seat))]) (sv_sessions server))"

text \<open>The answers of \<open>RAND_bytes\<close>, one per attempt; \<open>None\<close> is a failure.\<close>

fun id_loop :: "u32 list \<Rightarrow> u32 option list \<Rightarrow> u32 option" where
  "id_loop used [] = None"
| "id_loop used (None # rs) = None"
| "id_loop used (Some candidate # rs) =
     (if candidate = 0 \<or> candidate \<in> set used then id_loop used rs else Some candidate)"

definition next_session_id :: "(nat \<Rightarrow> u32 option) \<Rightarrow> 's Server \<Rightarrow> u32" where
  "next_session_id rand server =
     (case id_loop (live_ids server) (map rand [0..<16]) of
        Some candidate \<Rightarrow> candidate
      | None \<Rightarrow> ucast (sv_sessions_total server + 1) * 2654435761)"

section \<open>Replies\<close>

definition jstr :: "string \<Rightarrow> string" where
  "jstr s = quote # s @ [quote]"

definition reply_json :: "nat \<Rightarrow> string \<Rightarrow> 's Server \<Rightarrow> reply \<times> 's Server" where
  "reply_json code body server =
     ((code, body), if code \<ge> 400 then server\<lparr>sv_http_errors := sv_http_errors server + 1\<rparr> else server)"

definition reply_error :: "nat \<Rightarrow> string \<Rightarrow> 's Server \<Rightarrow> reply \<times> 's Server" where
  "reply_error code message server =
     (let writer = json_begin 512;
          writer = json_raw (''{'' @ jstr ''error'' @ '':'') writer;
          writer = json_string message writer;
          writer = json_raw ''}'' writer
      in if json_finish writer \<noteq> 0
         then ((500, ''{'' @ jstr ''error'' @ '':'' @ jstr ''error reply overflow'' @ ''}''),
               server\<lparr>sv_http_errors := sv_http_errors server + 1\<rparr>)
         else reply_json code (jw_buffer writer) server)"

text \<open>The address of the HTTP client; an IPv6 address is given by its text.\<close>

datatype mg_addr = Addr4 u32 u16 | Addr6 string u16

definition format_mg_addr :: "mg_addr \<Rightarrow> nat \<Rightarrow> string" where
  "format_mg_addr address cap =
     fit cap (case address of
         Addr4 ip port \<Rightarrow> inet_ntop4 ip @ '':'' @ show_nat (unat port)
       | Addr6 ip port \<Rightarrow> ''['' @ ip @ '']:'' @ show_nat (unat port))"

definition uri_is :: "string \<Rightarrow> string \<Rightarrow> bool" where
  "uri_is uri path \<longleftrightarrow>
     prefix path uri \<and> (length uri = length path \<or> uri ! length path = CHR ''?'' \<or> uri ! length path = CHR ''#'')"

text \<open>
  A request body copied into a local array, whose other bytes are what the stack held; \<open>None\<close> is
  a body that is empty or does not fit.
\<close>

definition body_array :: "nat \<Rightarrow> string \<Rightarrow> string \<Rightarrow> string option" where
  "body_array cap stack body =
     (if length body = 0 \<or> length body \<ge> cap then None
      else Some (body @ NUL # drop (length body + 1) (take cap stack)))"

section \<open>Signalling\<close>

record offer_env =
  oe_stack :: string
  oe_ifaddrs :: "ifaddr list option"
  oe_host :: "string option"
  oe_peer :: mg_addr
  oe_rand :: "nat \<Rightarrow> u32 option"
  oe_create :: rtc_create_env

definition session_config :: "offer_env \<Rightarrow> SdpOffer \<Rightarrow> nat \<Rightarrow> 's Server \<Rightarrow> RtcSessionConfig" where
  "session_config env off i server =
     (let interfaces = collect_interfaces (oe_ifaddrs env) MAX_INTERFACES;
          host = (case oe_host env of None \<Rightarrow> [] | Some h \<Rightarrow> if length h < 256 then c_str h else []);
          advertise = choose_advertise_ip host interfaces 16;
          ips = candidate_list advertise [fit 16 advertise] interfaces
      in \<lparr>rc_id = next_session_id (oe_rand env) server, rc_udp_port = udp_base_port (sv_config server) + of_nat i,
          rc_candidate_ips = ips, rc_candidate_count = length ips, rc_offer = off,
          rc_signaling_peer = format_mg_addr (oe_peer env) 48, rc_on_idr_request = True, rc_on_closed = True\<rparr>)"

definition seat_session_at :: "nat \<Rightarrow> 's rtc_world \<Rightarrow> 's Server \<Rightarrow> 's Server" where
  "seat_session_at i w server = server\<lparr>sv_sessions := (sv_sessions server)[i := Some \<lparr>seat_engine = engine w, seat_session = user w\<rparr>],
     sv_gstats := g_stats w, sv_sessions_total := sv_sessions_total server + 1,
     sv_session_sample_ms := (sv_session_sample_ms server)[i := 0], sv_session_sample_bytes := (sv_session_sample_bytes server)[i := 0],
     sv_client_frames := (sv_client_frames server)[i := 0], sv_client_report_ms := (sv_client_report_ms server)[i := 0],
     sv_client_width := (sv_client_width server)[i := 0], sv_client_height := (sv_client_height server)[i := 0],
     sv_client_decoding := (sv_client_decoding server)[i := False], sv_force_idr := True\<rparr>"

definition answer_payload :: "u32 \<Rightarrow> u16 \<Rightarrow> string \<Rightarrow> JsonWriter" where
  "answer_payload sid port answer =
     json_raw ''}'' (json_string answer (json_raw
       (''{'' @ jstr ''type'' @ '':'' @ jstr ''answer'' @ '','' @ jstr ''session_id'' @ '':'' @ show_nat (unat sid) @ '','' @
        jstr ''udp_port'' @ '':'' @ show_nat (unat port) @ '','' @ jstr ''sdp'' @ '':'') (json_begin 12288)))"

text \<open>\<open>env'\<close> is the environment of the session that is destroyed again when the reply does not fit.\<close>

definition handle_offer :: "offer_env \<Rightarrow> 's rtc_env \<Rightarrow> string \<Rightarrow> 's Server \<Rightarrow> (reply \<times> 's Server) option" where
  "handle_offer env env' body server =
     (case body_array 16384 (oe_stack env) body of
        None \<Rightarrow> Some (reply_error 413 ''signaling request body must be 1 to 16383 bytes'' server)
      | Some b \<Rightarrow> do {
          sdp \<leftarrow> json_get_string b ''sdp'' 8192;
          case sdp of
            None \<Rightarrow> Some (reply_error 400 (''missing or oversized '' @ quoted ''sdp'' @ '' string field'') server)
          | Some s \<Rightarrow> do {
              (rc, off, reason) \<leftarrow> sdp_parse_offer (Some (c_str s)) (Some empty_offer) (Some 192);
              if rc \<noteq> 0 then Some (reply_error 400 (case reason of None \<Rightarrow> [] | Some r \<Rightarrow> r) server)
              else do {
                off \<leftarrow> off;
                if \<not> sv_dtls_ready server then
                  Some (reply_error 503 ''WebRTC unavailable: DTLS is not initialised, see /api/logs and POST /api/webrtc/restart'' server)
                else case find (\<lambda>i. sv_sessions server ! i = None) [0..<MAX_RTC_SESSIONS] of
                  None \<Rightarrow> Some (reply_error 503
                    ''session limit reached (8 viewers); close a viewer or use POST /api/webrtc/close'' server)
                | Some i \<Rightarrow> do {
                    let cfg = session_config env off i server;
                    (rc, session, answer) \<leftarrow> rtc_session_create ((oe_create env)\<lparr>ce_globals := sv_globals server\<rparr>) cfg 8192 [] (sv_gstats server);
                    case session of
                      None \<Rightarrow> Some (reply_error 503 ''WebRTC session setup failed (UDP port busy or DTLS unavailable, see /api/logs)''
                        (server\<lparr>sv_create_failures := sv_create_failures server + 1\<rparr>))
                    | Some w \<Rightarrow> do {
                        let server = seat_session_at i w server;
                        let writer = answer_payload (rtc_session_id (Some (user w))) (rc_udp_port cfg) (c_str answer);
                        if json_finish writer \<noteq> 0 then do {
                          server \<leftarrow> destroy_session env' i server;
                          Some (reply_error 500 ''answer payload overflow''
                            (server\<lparr>sv_sessions_total := sv_sessions_total server - 1\<rparr>)) }
                        else Some (reply_json 200 (jw_buffer writer) server) } } } } })"

text \<open>The session with a given id.\<close>

definition find_session :: "u32 \<Rightarrow> 's Server \<Rightarrow> nat option" where
  "find_session sid server =
     find (\<lambda>i. case sv_sessions server ! i of None \<Rightarrow> False | Some seat \<Rightarrow> rtc_session_id (Some (seat_session seat)) = sid) [0..<MAX_RTC_SESSIONS]"

definition handle_close :: "string \<Rightarrow> 's rtc_env \<Rightarrow> string \<Rightarrow> 's Server \<Rightarrow> (reply \<times> 's Server) option" where
  "handle_close stack env body server =
     (case body_array 512 stack body of
        None \<Rightarrow> Some (reply_error 400 ''close request body must be 1 to 511 bytes'' server)
      | Some b \<Rightarrow> do {
          sid \<leftarrow> json_get_long b ''session_id'';
          case sid of
            None \<Rightarrow> Some (reply_error 400 (''missing or invalid '' @ quoted ''session_id'') server)
          | Some x \<Rightarrow>
              if x \<le> 0 \<or> x > 4294967295 then Some (reply_error 400 (''missing or invalid '' @ quoted ''session_id'') server)
              else (case find_session (of_int x) server of
                  None \<Rightarrow> Some (reply_error 404 ''no such session'' server)
                | Some i \<Rightarrow> do {
                    server \<leftarrow> on_session (rtc_session_close env) i server;
                    Some (reply_json 200 (''{'' @ jstr ''closed'' @ '':true}'') server) }) })"

definition dimension :: "int option \<Rightarrow> u32" where
  "dimension v = (case v of None \<Rightarrow> 0 | Some x \<Rightarrow> if x < 0 \<or> x > 16384 then 0 else of_int x)"

definition handle_client_stats :: "string \<Rightarrow> u64 \<Rightarrow> string \<Rightarrow> 's Server \<Rightarrow> (reply \<times> 's Server) option" where
  "handle_client_stats stack now body server =
     (case body_array 512 stack body of
        None \<Rightarrow> Some (reply_error 400 ''client stats body must be 1 to 511 bytes'' server)
      | Some b \<Rightarrow> do {
          sid \<leftarrow> json_get_long b ''session_id'';
          frames \<leftarrow> (case sid of
             Some x \<Rightarrow> if x \<le> 0 \<or> x > 4294967295 then Some None else json_get_long b ''frames_decoded''
           | None \<Rightarrow> Some None);
          case frames of
            None \<Rightarrow> Some (reply_error 400 (''need '' @ quoted ''session_id'' @ '' and '' @ quoted ''frames_decoded'') server)
          | Some decoded \<Rightarrow>
              if decoded < 0
              then Some (reply_error 400 (''need '' @ quoted ''session_id'' @ '' and '' @ quoted ''frames_decoded'') server)
              else do {
                w \<leftarrow> json_get_long b ''frame_width'';
                h \<leftarrow> json_get_long b ''frame_height'';
                case find_session (of_int (the sid)) server of
                  None \<Rightarrow> Some (reply_error 404 ''no such session'' server)
                | Some i \<Rightarrow> do {
                    before \<leftarrow> rd (sv_client_frames server) i;
                    let server = server\<lparr>sv_client_decoding := (sv_client_decoding server)[i := of_int decoded > before],
                      sv_client_frames := (sv_client_frames server)[i := of_int decoded],
                      sv_client_width := (sv_client_width server)[i := dimension w],
                      sv_client_height := (sv_client_height server)[i := dimension h],
                      sv_client_report_ms := (sv_client_report_ms server)[i := now]\<rparr>;
                    Some (reply_json 200 (''{'' @ jstr ''ok'' @ '':true}'') server) } } })"

section \<open>Health\<close>

record LayerSummary =
  ls_sessions :: nat
  ls_ice :: nat
  ls_dtls :: nat
  ls_rtp :: nat
  ls_rtcp :: nat
  ls_decode :: nat
  ls_waiting_keyframe :: nat

definition layer_session :: "'s Server \<Rightarrow> u64 \<Rightarrow> nat \<Rightarrow> LayerSummary \<Rightarrow> LayerSummary option" where
  "layer_session server now i out = do {
     s \<leftarrow> rd (sv_sessions server) i;
     case s of
       None \<Rightarrow> Some out
     | Some seat \<Rightarrow>
         if rtc_session_state (Some (seat_session seat)) = RTC_CLOSED then Some out
         else do {
           decoding \<leftarrow> rd (sv_client_decoding server) i;
           report \<leftarrow> rd (sv_client_report_ms server) i;
           let st = stats (seat_session seat);
           let streaming = rtc_session_state (Some (seat_session seat)) = RTC_STREAMING;
           Some (out\<lparr>ls_sessions := ls_sessions out + 1,
             ls_ice := ls_ice out + (if stun_ok st > 0 then 1 else 0),
             ls_dtls := ls_dtls out + (if streaming then 1 else 0),
             ls_rtp := ls_rtp out + (if last_media_ms st \<noteq> 0 \<and> now - last_media_ms st < MEDIA_RECENT_MS then 1 else 0),
             ls_rtcp := ls_rtcp out + (if last_rr_ms st \<noteq> 0 \<and> now - last_rr_ms st < RR_RECENT_MS then 1 else 0),
             ls_decode := ls_decode out + (if decoding \<and> now - report < CLIENT_REPORT_RECENT_MS then 1 else 0),
             ls_waiting_keyframe := ls_waiting_keyframe out + (if waiting_keyframe st \<and> streaming then 1 else 0)\<rparr>) } }"

definition layer_summary :: "'s Server \<Rightarrow> u64 \<Rightarrow> LayerSummary option" where
  "layer_summary server now = for_upto MAX_RTC_SESSIONS (layer_session server now)
     \<lparr>ls_sessions = 0, ls_ice = 0, ls_dtls = 0, ls_rtp = 0, ls_rtcp = 0, ls_decode = 0, ls_waiting_keyframe = 0\<rparr>"

definition server_state :: "'s Server \<Rightarrow> u64 \<Rightarrow> string option" where
  "server_state server now =
     (if \<not> sv_running server then Some ''camera-error''
      else do {
        layers \<leftarrow> layer_summary server now;
        Some (if ls_sessions layers = 0 then ''idle''
              else if ls_rtp layers > 0 \<and> ls_rtcp layers > 0 then ''streaming''
              else if ls_rtp layers > 0 then ''sending''
              else if ls_dtls layers > 0 then ''no-media''
              else ''connecting'') })"

section \<open>Recovery and configuration\<close>

definition handle_camera_restart :: "pipe_env \<Rightarrow> u64 \<Rightarrow> 's Server \<Rightarrow> reply \<times> 's Server" where
  "handle_camera_restart env now server =
     (let server = media_pipeline_stop (server\<lparr>sv_camera_restarts := sv_camera_restarts server + 1\<rparr>);
          server = server\<lparr>sv_encoder_override := []\<rparr>;
          (rc, error, server) = media_pipeline_start env server
      in if rc \<noteq> 0 then
           (let server = pipeline_schedule_retry now (server\<lparr>sv_pipeline_error := fit 256 error, sv_failures := 1\<rparr>);
                writer = json_raw ''}'' (json_string error (json_raw (''{'' @ jstr ''restarted'' @ '':false,'' @ jstr ''error'' @ '':'') (json_begin 512)))
            in if json_finish writer \<noteq> 0 then reply_error 500 ''restart reply overflow'' server
               else reply_json 503 (jw_buffer writer) server)
         else
           (let server = server\<lparr>sv_pipeline_error := [], sv_failures := 0, sv_retry_ms := 0, sv_force_idr := True\<rparr>;
                writer = json_raw (''{'' @ jstr ''restarted'' @ '':true,'' @ jstr ''source'' @ '':'') (json_begin 512);
                writer = json_string (case sv_source server of None \<Rightarrow> [] | Some s \<Rightarrow> si_name s) writer;
                writer = json_raw ('','' @ jstr ''encoder'' @ '':'') writer;
                writer = json_raw ''}'' (json_string (sv_encoder_name server) writer)
            in if json_finish writer \<noteq> 0 then reply_error 500 ''restart reply overflow'' server
               else reply_json 200 (jw_buffer writer) server))"

definition handle_webrtc_restart :: "(nat \<Rightarrow> 's rtc_env) \<Rightarrow> init_env \<Rightarrow> 's Server \<Rightarrow> (reply \<times> 's Server) option" where
  "handle_webrtc_restart env io server = do {
     let server = server\<lparr>sv_webrtc_restarts := sv_webrtc_restarts server + 1\<rparr>;
     let closed = sessions_active server;
     server \<leftarrow> sessions_close_all env server;
     (rc, g) \<leftarrow> dtls_srtp_global_init io (dtls_srtp_global_shutdown (sv_globals server));
     let server = server\<lparr>sv_globals := g, sv_dtls_ready := (rc = 0)\<rparr>;
     let writer = json_raw (''{'' @ jstr ''restarted'' @ '':'' @ (if rc = 0 then ''true'' else ''false'') @ '','' @ jstr ''sessions_closed'' @ '':'' @
           show_nat closed @ '','' @ jstr ''dtls'' @ '':'' @ jstr (if rc = 0 then ''ready'' else ''failed'') @ '','' @ jstr ''fingerprint'' @ '':'') (json_begin 512);
     let writer = json_raw ''}'' (json_string (if rc = 0 then dtls_srtp_local_fingerprint g else ''none'') writer);
     Some (if json_finish writer \<noteq> 0 then reply_error 500 ''restart reply overflow'' server
           else reply_json (if rc = 0 then 200 else 503) (jw_buffer writer) server) }"

text \<open>A list of names in an array of \<open>size\<close> characters: the text in it and the running length.\<close>

definition note_change :: "nat \<Rightarrow> string \<Rightarrow> string \<times> nat \<Rightarrow> string \<times> nat" where
  "note_change cap name st =
     (case st of (text, n) \<Rightarrow>
        (let piece = (if n > 0 then '','' else '''') @ jstr name
         in (take n text @ fit (cap - n) piece, if length piece > 0 \<and> length piece < cap - n then n + length piece else n)))"

definition config_checks :: "AppConfig \<Rightarrow> AppConfig \<Rightarrow> (string \<times> bool) list" where
  "config_checks candidate c =
     [(''width'', cfg_width candidate \<noteq> cfg_width c), (''height'', cfg_height candidate \<noteq> cfg_height c),
      (''fps'', fps candidate \<noteq> fps c), (''keyframe_seconds'', keyframe_seconds candidate \<noteq> keyframe_seconds c),
      (''source'', source_kind candidate \<noteq> source_kind c), (''device'', device candidate \<noteq> device c),
      (''rpicam_bin'', rpicam_bin candidate \<noteq> rpicam_bin c), (''encoder'', encoder candidate \<noteq> encoder c),
      (''listen'', listen candidate \<noteq> listen c), (''http_port'', http_port candidate \<noteq> http_port c),
      (''udp_port'', udp_base_port candidate \<noteq> udp_base_port c), (''mdns'', mdns candidate \<noteq> mdns c),
      (''mdns_name'', mdns_name candidate \<noteq> mdns_name c), (''mdns_port'', mdns_port candidate \<noteq> mdns_port c)]"

text \<open>The result: the texts of the two lists, and the server.\<close>

definition apply_runtime_config :: "AppConfig \<Rightarrow> nat \<Rightarrow> nat \<Rightarrow> 's Server \<Rightarrow> string \<times> string \<times> 's Server" where
  "apply_runtime_config candidate applied_size restart_size server =
     (let applied = ([], 0); restart = ([], 0);
          c = sv_config server;
          (applied, restart, server) =
            (if bitrate_kbps candidate \<noteq> bitrate_kbps c then
               (case sv_encoder_worker server of
                  Some mailbox \<Rightarrow>
                    if bitrate_kbps candidate \<noteq> 0
                    then (note_change applied_size ''bitrate_kbps'' applied, restart,
                          server\<lparr>sv_encoder_worker := Some (bitrate_kbps candidate),
                                 sv_config := (sv_config server)\<lparr>bitrate_kbps := bitrate_kbps candidate\<rparr>\<rparr>)
                    else (applied, note_change restart_size ''bitrate_kbps'' restart, server)
                | None \<Rightarrow> (applied, note_change restart_size ''bitrate_kbps'' restart, server))
             else (applied, restart, server));
          (applied, server) =
            (if verbose candidate \<noteq> verbose c
             then (note_change applied_size ''verbose'' applied,
                   server\<lparr>sv_log_debug := verbose candidate, sv_config := (sv_config server)\<lparr>verbose := verbose candidate\<rparr>\<rparr>)
             else (applied, server));
          restart = fold (\<lambda>(name, changed) st. if changed then note_change restart_size name st else st)
                      (config_checks candidate (sv_config server)) restart
      in (fst applied, fst restart, server))"

text \<open>The messages of \<open>app_config_validate\<close>.\<close>

definition problem_message :: "ConfigProblem \<Rightarrow> nat \<Rightarrow> string" where
  "problem_message p cap = fit cap (case p of
       BadWidth v \<Rightarrow> ''config: width must be an even number between 16 and 4096, got '' @ show_nat (unat v)
     | BadHeight v \<Rightarrow> ''config: height must be an even number between 16 and 4096, got '' @ show_nat (unat v)
     | BadFps v \<Rightarrow> ''config: fps must be between 1 and 120, got '' @ show_nat (unat v)
     | BadBitrate v \<Rightarrow> ''config: bitrate_kbps must be between 100 and 100000, got '' @ show_nat (unat v)
     | BadKeyframe v \<Rightarrow> ''config: keyframe_seconds must be between 1 and 60, got '' @ show_nat (unat v)
     | NoHttpPort \<Rightarrow> ''config: http_port must not be 0''
     | NoUdpPort \<Rightarrow> ''config: udp_port must not be 0''
     | NoListen \<Rightarrow> ''config: listen address must not be empty''
     | NoEncoder \<Rightarrow> ''config: encoder must not be empty''
     | MdnsLength n \<Rightarrow> ''config: mdns_name must be 1 to 63 characters, got '' @ show_nat n
     | MdnsDash s \<Rightarrow> ''config: mdns_name must not start or end with '' @ quoted ''-'' @ '', got '' @ quoted s
     | MdnsChar s \<Rightarrow> ''config: mdns_name may only contain letters, digits and '' @ quoted ''-'' @ '', got '' @ quoted s)"

definition handle_config_reload :: "file_system \<Rightarrow> 's Server \<Rightarrow> reply \<times> 's Server" where
  "handle_config_reload fs server =
     (let path = config_path (sv_config server) in
      if path = [] then
        reply_error 400 ''no config file in use: start camstream with --config PATH to enable reload'' server
      else
        (let server = server\<lparr>sv_config_reloads := sv_config_reloads server + 1\<rparr>;
             candidate = app_config_defaults\<lparr>config_path := fit 256 path\<rparr>
         in case app_config_load_file fs candidate (Some path) of
           (Some e, candidate) \<Rightarrow> reply_error 400 (file_message path e 256) server
         | (None, candidate) \<Rightarrow>
             (case app_config_validate candidate of
                Some p \<Rightarrow> reply_error 400 (problem_message p 256) server
              | None \<Rightarrow>
                  (let (applied, restart, server) = apply_runtime_config candidate 512 512 server;
                       writer = json_raw (''{'' @ jstr ''file'' @ '':'') (json_begin 1400);
                       writer = json_string (config_path (sv_config server)) writer;
                       writer = json_raw ('','' @ jstr ''applied'' @ '':['' @ applied @ ''],'' @ jstr ''restart_required'' @ '':['' @ restart @ '']}'') writer
                   in if json_finish writer \<noteq> 0 then reply_error 500 ''reload reply overflow'' server
                      else reply_json 200 (jw_buffer writer) server))))"

section \<open>TLS on the HTTP port\<close>

datatype conn_kind = CONN_UNDECIDED | CONN_HTTP | CONN_TLS_REJECTED

datatype mg_event = MG_EV_READ | MG_EV_POLL bool | MG_EV_OTHER

text \<open>The part of a mongoose connection that the filter reads and writes.\<close>

record mg_conn =
  mc_kind :: conn_kind
  mc_shut :: bool
  mc_since :: u64
  mc_recv :: bytes
  mc_send :: bytes
  mc_closing :: bool

definition tls_alert :: bytes where
  "tls_alert = [0x15, 0x03, 0x01, 0x00, 0x02, 0x02, 0x46]"

definition tls_reject :: "u64 \<Rightarrow> 's Server \<Rightarrow> mg_conn \<Rightarrow> 's Server \<times> mg_conn" where
  "tls_reject now server c =
     (let c = c\<lparr>mc_kind := CONN_TLS_REJECTED, mc_since := now, mc_recv := [], mc_send := mc_send c @ tls_alert\<rparr>;
          server = server\<lparr>sv_tls_rejected := sv_tls_rejected server + 1\<rparr>
      in (if sv_tls_warned_ms server = 0 \<or> now - sv_tls_warned_ms server \<ge> TLS_WARN_INTERVAL_MS
          then server\<lparr>sv_tls_warned_ms := now\<rparr> else server, c))"

text \<open>The third result says whether mongoose's HTTP parser runs on the event.\<close>

definition tls_guard :: "u64 \<Rightarrow> mg_event \<Rightarrow> 's Server \<Rightarrow> mg_conn \<Rightarrow> ('s Server \<times> mg_conn \<times> bool) option" where
  "tls_guard now event server c =
     (if mc_kind c = CONN_TLS_REJECTED then
        Some (case event of
            MG_EV_READ \<Rightarrow> (server, c\<lparr>mc_recv := []\<rparr>, False)
          | MG_EV_POLL with_data \<Rightarrow>
              if \<not> with_data then (server, c, False)
              else
                (let c = (if mc_send c = [] \<and> \<not> mc_shut c then c\<lparr>mc_shut := True\<rparr> else c)
                 in (server, if now - mc_since c \<ge> TLS_LINGER_MS then c\<lparr>mc_closing := True\<rparr> else c, False))
          | MG_EV_OTHER \<Rightarrow> (server, c, False))
      else if mc_kind c = CONN_UNDECIDED \<and> event = MG_EV_READ \<and> mc_recv c \<noteq> [] then do {
        b \<leftarrow> rd (mc_recv c) 0;
        hello \<leftarrow> (if b \<noteq> 0x16 then Some False
                  else if length (mc_recv c) < 2 then Some True
                  else do { v \<leftarrow> rd (mc_recv c) 1; Some (v = 0x03) });
        if hello then do {
          let (server, c) = tls_reject now server c;
          Some (server, c, False) }
        else Some (server, c\<lparr>mc_kind := CONN_HTTP\<rparr>, True) }
      else Some (server, c, True))"

section \<open>Routing\<close>

record 's http_env =
  he_offer :: offer_env
  he_stack :: string
  he_now :: u64
  he_rtc :: "nat \<Rightarrow> 's rtc_env"
  he_pipe :: pipe_env
  he_init :: init_env
  he_fs :: file_system
  he_index :: string
  he_page :: "string \<Rightarrow> reply"

record http_request =
  hr_method :: string
  hr_uri :: string
  hr_body :: string

definition http_event_handler :: "'s http_env \<Rightarrow> http_request \<Rightarrow> 's Server \<Rightarrow> (reply \<times> 's Server) option" where
  "http_event_handler env m server =
     (let server = server\<lparr>sv_http_requests := sv_http_requests server + 1\<rparr>;
          is_get = (hr_method m = ''GET''); is_post = (hr_method m = ''POST''); uri = hr_uri m;
          page = (\<lambda>name. Some (reply_json (fst (he_page env name)) (snd (he_page env name)) server))
      in if is_get \<and> (uri_is uri ''/'' \<or> uri_is uri ''/index.html'') then Some ((200, he_index env), server)
         else if is_get \<and> uri_is uri ''/api/status'' then page ''status''
         else if is_get \<and> uri_is uri ''/api/stats'' then page ''stats''
         else if is_get \<and> uri_is uri ''/api/logs'' then page ''logs''
         else if is_post \<and> uri_is uri ''/api/webrtc/offer'' then handle_offer (he_offer env) (he_rtc env 0) (hr_body m) server
         else if is_post \<and> uri_is uri ''/api/webrtc/close'' then handle_close (he_stack env) (he_rtc env 0) (hr_body m) server
         else if is_post \<and> uri_is uri ''/api/webrtc/client-stats'' then handle_client_stats (he_stack env) (he_now env) (hr_body m) server
         else if is_post \<and> uri_is uri ''/api/camera/restart'' then Some (handle_camera_restart (he_pipe env) (he_now env) server)
         else if is_post \<and> uri_is uri ''/api/webrtc/restart'' then handle_webrtc_restart (he_rtc env) (he_init env) server
         else if is_post \<and> uri_is uri ''/api/config/reload'' then Some (handle_config_reload (he_fs env) server)
         else if is_get \<or> is_post then Some (reply_error 404 ''unknown endpoint'' server)
         else Some ((405, ''{'' @ jstr ''error'' @ '':'' @ jstr ''method not allowed'' @ ''}''),
                server\<lparr>sv_http_errors := sv_http_errors server + 1\<rparr>))"

section \<open>Main loop\<close>

definition counter_delta :: "u64 \<Rightarrow> u64 \<Rightarrow> u64" where
  "counter_delta current previous = (if current \<ge> previous then current - previous else current)"

text \<open>The counters of \<open>sample_rates\<close>; the three floating point rates are not kept.\<close>

definition sample_session :: "u64 \<Rightarrow> nat \<Rightarrow> u64 \<times> 's Server \<Rightarrow> (u64 \<times> 's Server) option" where
  "sample_session now i st = (case st of (bytes, server) \<Rightarrow> do {
     s \<leftarrow> rd (sv_sessions server) i;
     case s of
       None \<Rightarrow> Some (bytes, server)
     | Some seat \<Rightarrow> do {
         let total = bytes_sent (stats (seat_session seat));
         ms \<leftarrow> wr (sv_session_sample_ms server) i now;
         bs \<leftarrow> wr (sv_session_sample_bytes server) i total;
         Some (bytes + total, server\<lparr>sv_session_sample_ms := ms, sv_session_sample_bytes := bs\<rparr>) } })"

definition sample_rates :: "u64 \<Rightarrow> u64 \<Rightarrow> u64 \<Rightarrow> 's Server \<Rightarrow> 's Server option" where
  "sample_rates captured encoded now server =
     (if now - sv_sample_ms server < RATE_WINDOW_MS then Some server
      else do {
        (bytes, server) \<leftarrow> for_upto MAX_RTC_SESSIONS (sample_session now) (0, server);
        Some (server\<lparr>sv_sample_ms := now, sv_sample_captured := captured, sv_sample_encoded := encoded, sv_sample_bytes_sent := bytes\<rparr>) })"

text \<open>The datagrams that \<open>recvfrom\<close> returns on the socket of slot \<open>i\<close>, each with its sender.\<close>

type_synonym 's datagram = "'s rtc_env \<times> bytes \<times> Sockaddr"

fun drain_session_socket :: "nat \<Rightarrow> nat \<Rightarrow> 's datagram list \<Rightarrow> 's Server \<Rightarrow> 's Server option" where
  "drain_session_socket i 0 ds server = Some server"
| "drain_session_socket i (Suc n) [] server = Some server"
| "drain_session_socket i (Suc n) ((env, buffer, source) # ds) server =
     (if buffer = [] then Some server
      else do {
        server \<leftarrow> on_session (rtc_session_on_udp env buffer source) i server;
        s \<leftarrow> rd (sv_sessions server) i;
        if open_seat s then drain_session_socket i n ds server else Some server })"

text \<open>An entry of the poll set: descriptor, \<open>POLLOUT\<close>, and the slot of the session that owns it.\<close>

type_synonym poll_fds = "(int \<times> bool \<times> nat option) list"

definition add_fd :: "int \<times> bool \<times> nat option \<Rightarrow> poll_fds \<Rightarrow> poll_fds option" where
  "add_fd e fds = (if length fds < MAX_POLL_FDS then Some (fds @ [e]) else None)"

record http_conn =
  hc_fd :: int
  hc_closing :: bool
  hc_draining :: bool
  hc_send :: nat
  hc_listening :: bool
  hc_connecting :: bool

fun poll_http :: "http_conn list \<Rightarrow> nat \<Rightarrow> bool \<Rightarrow> poll_fds \<Rightarrow> (bool \<times> poll_fds) option" where
  "poll_http [] http_fds busy fds = Some (busy, fds)"
| "poll_http (c # cs) http_fds busy fds =
     (if hc_closing c \<or> (hc_draining c \<and> hc_send c = 0) then poll_http cs http_fds True fds
      else if hc_fd c < 0 \<or> http_fds \<ge> MAX_HTTP_POLL_FDS then poll_http cs http_fds True fds
      else do {
        fds \<leftarrow> add_fd (hc_fd c, \<not> hc_listening c \<and> (hc_send c > 0 \<or> hc_connecting c), None) fds;
        poll_http cs (http_fds + 1) busy fds })"

definition poll_session :: "(nat \<Rightarrow> 's rtc_env) \<Rightarrow> 's Server \<Rightarrow> nat \<Rightarrow> int \<times> poll_fds \<Rightarrow> (int \<times> poll_fds) option" where
  "poll_session env server i st = (case st of (timeout, fds) \<Rightarrow> do {
     s \<leftarrow> rd (sv_sessions server) i;
     case s of
       None \<Rightarrow> Some (timeout, fds)
     | Some seat \<Rightarrow>
         if rtc_session_state (Some (seat_session seat)) = RTC_CLOSED then Some (timeout, fds)
         else do {
           let timeout = (if timeout > SESSION_WAKE_MS then SESSION_WAKE_MS else timeout);
           let dtls = rtc_session_dtls_timeout_ms (env i) (world_of server seat);
           let timeout = (if dtls \<ge> 0 \<and> dtls < timeout then dtls else timeout);
           let fd = rtc_session_fd (Some (seat_session seat));
           if fd \<ge> 0 then do {
             fds \<leftarrow> add_fd (fd, False, Some i) fds;
             Some (timeout, fds) }
           else Some (timeout, fds) } })"

text \<open>\<open>mdns_socket\<close> is -1 without a responder, \<open>event_no\<close> the descriptor of the ring's eventfd.\<close>

definition poll_set :: "(nat \<Rightarrow> 's rtc_env) \<Rightarrow> http_conn list \<Rightarrow> int \<Rightarrow> int \<Rightarrow> 's Server \<Rightarrow> (int \<times> poll_fds) option" where
  "poll_set env conns mdns_socket event_no server = do {
     (http_busy, fds) \<leftarrow> poll_http conns 0 False [];
     (timeout, fds) \<leftarrow> for_upto MAX_RTC_SESSIONS (poll_session env server) (IDLE_WAKE_MS, fds);
     fds \<leftarrow> (if mdns_socket \<ge> 0 then add_fd (mdns_socket, False, None) fds else Some fds);
     let ring_fd = (case sv_ring server of None \<Rightarrow> -1 | Some r \<Rightarrow> if event_fd r = None then -1 else event_no);
     fds \<leftarrow> (if ring_fd \<ge> 0 then add_fd (ring_fd, False, None) fds else Some fds);
     let timeout = (if ring_fd < 0 \<and> sv_ring server \<noteq> None \<and> sv_media_active server \<and> timeout > 5 then 5 else timeout);
     Some (if http_busy then 0 else timeout, fds) }"

fun drain_ready :: "(nat \<Rightarrow> 's datagram list) \<Rightarrow> poll_fds \<Rightarrow> 's Server \<Rightarrow> 's Server option" where
  "drain_ready ready [] server = Some server"
| "drain_ready ready ((fd, out, owner) # fds) server = do {
     server \<leftarrow> (case owner of None \<Rightarrow> Some server | Some i \<Rightarrow> drain_session_socket i MAX_DATAGRAMS_PER_POLL (ready i) server);
     drain_ready ready fds server }"

text \<open>\<open>ready i\<close> is empty for a socket that \<open>poll\<close> does not report.\<close>

definition server_poll :: "(nat \<Rightarrow> 's rtc_env) \<Rightarrow> http_conn list \<Rightarrow> int \<Rightarrow> int \<Rightarrow> (nat \<Rightarrow> 's datagram list) \<Rightarrow> 's Server \<Rightarrow> 's Server option" where
  "server_poll env conns mdns_socket event_no ready server = do {
     (timeout, fds) \<leftarrow> poll_set env conns mdns_socket event_no server;
     drain_ready ready fds server }"

definition send_unit :: "(nat \<Rightarrow> 's rtc_env) \<Rightarrow> bytes \<Rightarrow> AuMeta \<Rightarrow> nat \<Rightarrow> 's Server \<Rightarrow> 's Server option" where
  "send_unit env au m i server = do {
     s \<leftarrow> rd (sv_sessions server) i;
     case s of
       None \<Rightarrow> Some server
     | Some seat \<Rightarrow>
         if rtc_session_state (Some (seat_session seat)) = RTC_STREAMING
         then on_session (\<lambda>w. map_option snd (rtc_session_send_access_unit (env i) au (pts_us m) (is_idr m) w)) i server
         else Some server }"

definition fan_out_unit :: "(nat \<Rightarrow> 's rtc_env) \<Rightarrow> bytes \<Rightarrow> AuMeta \<Rightarrow> 's Server \<Rightarrow> 's Server option" where
  "fan_out_unit env au m server =
     for_upto MAX_RTC_SESSIONS (send_unit env au m)
       (if discontinuity m then server\<lparr>sv_discontinuities := sv_discontinuities server + 1, sv_force_idr := True\<rparr> else server)"

lemma pop_loop_count: "pop_loop r c d = Some (r', d', Some t) \<Longrightarrow> count r' < count r"
proof (induction "count r" arbitrary: r d rule: less_induct)
  case less
  then obtain m where m: "0 < count r" "rd (meta r) (head r) = Some m"
    by (subst (asm) pop_loop.simps) (auto simp: Let_def split: if_splits Option.bind_splits)
  let ?r = "r\<lparr>head := Suc (head r) mod slot_count r, count := count r - Suc 0\<rparr>"
  show ?case
  proof (cases "m_size m > c")
    case True
    then have "pop_loop (?r\<lparr>dropped := dropped r + 1\<rparr>) c True = Some (r', d', Some t)"
      using less.prems m pop_loop.simps [of r c d] by (simp add: Let_def)
    from less.hyps [OF _ this] m(1) show ?thesis by simp
  next
    case False
    then show ?thesis using less.prems m pop_loop.simps [of r c d] by (auto simp: Let_def split: Option.bind_splits)
  qed
qed

lemma au_ring_pop_count:
  "au_ring_pop (Some r) buf w = Some (rc, q, buf', m) \<Longrightarrow> rc \<noteq> 0 \<Longrightarrow> \<exists>r'. q = Some r' \<and> count r' < count r"
  by (auto simp: au_ring_pop_def pop_locked_def Let_def split: Option.bind_splits option.splits) (erule pop_loop_count)

text \<open>
  The loop of \<open>fan_out_access_units\<close> over the ring and the static buffer; \<open>env k\<close> is the
  environment of the access unit that leaves \<open>k\<close> entries in the ring.
\<close>

function fan_out_loop :: "(nat \<Rightarrow> nat \<Rightarrow> 's rtc_env) \<Rightarrow> bytes \<Rightarrow> AuRing \<Rightarrow> 's Server \<Rightarrow> (AuRing \<times> 's Server) option" where
  "fan_out_loop env buf r server = do {
     (rc, q, buf, m) \<leftarrow> au_ring_pop (Some r) buf True;
     r \<leftarrow> q;
     if rc = 0 then Some (r, server)
     else do {
       m \<leftarrow> m;
       au \<leftarrow> rd_range buf 0 (m_size m);
       server \<leftarrow> fan_out_unit (env (count r)) au m server;
       fan_out_loop env buf r server } }"
  by pat_completeness auto
termination
  by (relation "measure (\<lambda>(env, buf, r, server). count r)") (auto dest!: au_ring_pop_count)

declare fan_out_loop.simps [simp del]

definition fan_out_access_units :: "(nat \<Rightarrow> nat \<Rightarrow> 's rtc_env) \<Rightarrow> bytes \<Rightarrow> 's Server \<Rightarrow> 's Server option" where
  "fan_out_access_units env buf server =
     (case sv_ring server of
        None \<Rightarrow> Some server
      | Some r \<Rightarrow> do {
          (r, server) \<leftarrow> fan_out_loop env buf r server;
          Some (server\<lparr>sv_ring := Some r\<rparr>) })"

definition reap_session :: "(nat \<Rightarrow> 's rtc_env) \<Rightarrow> nat \<Rightarrow> 's Server \<Rightarrow> 's Server option" where
  "reap_session env i server = do {
     s \<leftarrow> rd (sv_sessions server) i;
     if s = None \<or> open_seat s then Some server else destroy_session (env i) i server }"

definition reap_sessions :: "(nat \<Rightarrow> 's rtc_env) \<Rightarrow> 's Server \<Rightarrow> 's Server option" where
  "reap_sessions env server = do {
     server \<leftarrow> for_upto MAX_RTC_SESSIONS (reap_session env) server;
     Some (server\<lparr>sv_media_active := sv_running server \<and> sessions_active server > 0\<rparr>) }"

text \<open>
  One turn of the loop in \<open>app_server_run\<close>. Besides the answers of the libraries it takes what the
  encoder thread has put into the ring since the last turn.
\<close>

record 's turn =
  t_poll_env :: "nat \<Rightarrow> 's rtc_env"
  t_conns :: "http_conn list"
  t_mdns_fd :: int
  t_event_no :: int
  t_ready :: "nat \<Rightarrow> 's datagram list"
  t_requests :: "('s http_env \<times> http_request) list"
  t_now :: u64
  t_tick :: "nat \<Rightarrow> 's rtc_env"
  t_pushed :: "(bytes \<times> u64 \<times> bool) list"
  t_media :: "nat \<Rightarrow> nat \<Rightarrow> 's rtc_env"
  t_buffer :: bytes
  t_reap :: "nat \<Rightarrow> 's rtc_env"
  t_encoder_failed :: bool
  t_source_failed :: bool
  t_pipe :: pipe_env
  t_captured :: u64
  t_encoded :: u64

fun serve_requests :: "('s http_env \<times> http_request) list \<Rightarrow> 's Server \<Rightarrow> (reply list \<times> 's Server) option" where
  "serve_requests [] server = Some ([], server)"
| "serve_requests ((env, m) # ms) server = do {
     (r, server) \<leftarrow> http_event_handler env m server;
     (rs, server) \<leftarrow> serve_requests ms server;
     Some (r # rs, server) }"

fun push_units :: "(bytes \<times> u64 \<times> bool) list \<Rightarrow> AuRing option \<Rightarrow> AuRing option option" where
  "push_units [] q = Some q"
| "push_units ((au, pts, idr) # us) q = do {
     (rc, q) \<leftarrow> au_ring_push q (Some au) pts idr;
     push_units us q }"

definition server_turn :: "'s turn \<Rightarrow> 's Server \<Rightarrow> (reply list \<times> 's Server) option" where
  "server_turn t server = do {
     server \<leftarrow> server_poll (t_poll_env t) (t_conns t) (t_mdns_fd t) (t_event_no t) (t_ready t) server;
     (replies, server) \<leftarrow> serve_requests (t_requests t) server;
     server \<leftarrow> for_upto MAX_RTC_SESSIONS (\<lambda>i. on_session (rtc_session_tick (t_tick t i) (t_now t)) i) server;
     q \<leftarrow> push_units (t_pushed t) (sv_ring server);
     let server = server\<lparr>sv_ring := q\<rparr>;
     server \<leftarrow> (if sv_running server \<and> sv_ring server \<noteq> None then fan_out_access_units (t_media t) (t_buffer t) server else Some server);
     server \<leftarrow> reap_sessions (t_reap t) server;
     let server = media_supervise (t_encoder_failed t) (t_source_failed t) (t_pipe t) (t_now t) server;
     server \<leftarrow> sample_rates (t_captured t) (t_encoded t) (t_now t) server;
     Some (replies, server) }"

definition blank_server :: "AppConfig \<Rightarrow> DtlsGlobals \<Rightarrow> DtlsSrtpGlobalStats \<Rightarrow> u64 \<Rightarrow> 's Server" where
  "blank_server c g gs now =
     \<lparr>sv_config = c, sv_tls_rejected = 0, sv_tls_warned_ms = 0, sv_source = None, sv_source_worker = False, sv_hub = False,
      sv_encoder = None, sv_encoder_worker = None, sv_ring = None, sv_encoder_name = [], sv_force_idr = False,
      sv_media_active = False, sv_running = False, sv_encoder_override = [], sv_pipeline_error = [], sv_retry_ms = 0,
      sv_failures = 0, sv_recoveries = 0, sv_discontinuities = 0, sv_sessions = replicate MAX_RTC_SESSIONS None,
      sv_sessions_total = 0, sv_create_failures = 0, sv_sessions_closed = 0, sv_dtls_ready = False, sv_globals = g,
      sv_gstats = gs, sv_sample_ms = now, sv_sample_bytes_sent = 0, sv_sample_captured = 0, sv_sample_encoded = 0,
      sv_session_sample_ms = replicate MAX_RTC_SESSIONS 0, sv_session_sample_bytes = replicate MAX_RTC_SESSIONS 0,
      sv_client_frames = replicate MAX_RTC_SESSIONS 0, sv_client_report_ms = replicate MAX_RTC_SESSIONS 0,
      sv_client_width = replicate MAX_RTC_SESSIONS 0, sv_client_height = replicate MAX_RTC_SESSIONS 0,
      sv_client_decoding = replicate MAX_RTC_SESSIONS False, sv_http_requests = 0, sv_http_errors = 0,
      sv_camera_restarts = 0, sv_webrtc_restarts = 0, sv_config_reloads = 0, sv_log_debug = verbose c\<rparr>"

text \<open>\<open>app_server_run\<close> up to the loop, after \<open>http_start\<close> has succeeded, and behind it.\<close>

definition server_start :: "init_env \<Rightarrow> pipe_env \<Rightarrow> AppConfig \<Rightarrow> DtlsGlobals \<Rightarrow> DtlsSrtpGlobalStats \<Rightarrow> u64 \<Rightarrow> u64 \<Rightarrow> 's Server option" where
  "server_start io env c g gs started now = do {
     (rc, g) \<leftarrow> dtls_srtp_global_init io g;
     let server = (blank_server c g gs started)\<lparr>sv_dtls_ready := (rc = 0)\<rparr>;
     let (rc, error, server) = media_pipeline_start env server;
     Some (if rc \<noteq> 0
           then pipeline_schedule_retry now (server\<lparr>sv_pipeline_error := fit 256 error, sv_failures := 1\<rparr>)
           else server) }"

definition server_shutdown :: "(nat \<Rightarrow> 's rtc_env) \<Rightarrow> 's Server \<Rightarrow> 's Server option" where
  "server_shutdown env server = do {
     server \<leftarrow> sessions_close_all env server;
     let server = media_pipeline_stop server;
     Some (if sv_dtls_ready server then server\<lparr>sv_globals := dtls_srtp_global_shutdown (sv_globals server)\<rparr> else server) }"

end
