(* ===== verification/Rtc_Props.thy ===== *)
theory Rtc_Props
  imports Rtc_Session
begin

text \<open>
  The theorems about a viewer's session: no operation leaves its buffers, the session and the
  DTLS engine agree on the state, the close hook runs once, the media address only follows
  authenticated checks, media starts only with a verified peer and a keyframe, and a NACK is
  answered with the bytes that were sent.
\<close>

section \<open>What each operation leaves alone\<close>

text \<open>The parts of a session that the callbacks of the engine never change.\<close>

definition frame where
  "frame s = (config s, udp_fd s, local_ufrag s, local_pwd s, remote s, have_remote s, packetizer s,
     retx_data s, retx_len s, retx_seq s)"

text \<open>Only datagrams to \<open>a\<close> were sent between two traces; other events are allowed by \<open>peer_only\<close>.\<close>

definition sent_to :: "Sockaddr \<Rightarrow> rtc_event list \<Rightarrow> rtc_event list \<Rightarrow> bool" where
  "sent_to a t t' \<longleftrightarrow> (\<exists>ds. t' = t @ map (\<lambda>d. SentTo d a) ds)"

definition peer_only :: "Sockaddr \<Rightarrow> rtc_event list \<Rightarrow> rtc_event list \<Rightarrow> bool" where
  "peer_only a t t' \<longleftrightarrow> (\<exists>new. t' = t @ new \<and> (\<forall>d b. SentTo d b \<in> set new \<longrightarrow> b = a))"

definition closes :: "rtc_event list \<Rightarrow> nat" where
  "closes t = length (filter (\<lambda>e. e = SessionClosed) t)"

lemma closes_append [simp]: "closes (t @ u) = closes t + closes u" "closes [] = 0"
  "closes (e # t) = (if e = SessionClosed then 1 else 0) + closes t"
  by (simp_all add: closes_def)

lemma closes_map_sent [simp]: "closes (map (\<lambda>d. SentTo d a) ds) = 0"
  by (simp add: closes_def)

lemma sent_to_refl [simp]: "sent_to a t t"
  by (simp add: sent_to_def)

lemma sent_to_trans: "sent_to a t u \<Longrightarrow> sent_to a u v \<Longrightarrow> sent_to a t v"
  unfolding sent_to_def by (metis append.assoc map_append)

lemma sent_to_closes: "sent_to a t t' \<Longrightarrow> closes t' = closes t"
  by (auto simp: sent_to_def)

lemma peer_only_refl [simp]: "peer_only a t t"
  by (simp add: peer_only_def)

lemma peer_only_trans: "peer_only a t u \<Longrightarrow> peer_only a u v \<Longrightarrow> peer_only a t v"
  unfolding peer_only_def by fastforce

lemma sent_to_peer_only: "sent_to a t t' \<Longrightarrow> peer_only a t t'"
  by (auto simp: sent_to_def peer_only_def)

lemma peer_only_append: "\<forall>d b. e \<noteq> SentTo d b \<Longrightarrow> peer_only a t t' \<Longrightarrow> peer_only a t (t' @ [e])"
  by (auto simp: peer_only_def)

lemma peer_only_event [simp]: "peer_only a t (t @ [IdrRequest])" "peer_only a t (t @ [SessionClosed])"
  by (simp_all add: peer_only_def)

text \<open>Sending changes the send counters and appends one event.\<close>

definition send_frame :: "RtcSession \<Rightarrow> RtcSession \<Rightarrow> bool" where
  "send_frame s t \<longleftrightarrow> (\<exists>n k j ds. t = s\<lparr>stats := (stats s)\<lparr>send_errors := n\<rparr>, send_errors_logged := k, sends := j,
     trace := trace s @ map (\<lambda>d. SentTo d (remote s)) ds\<rparr>)"

lemma session_sendto_eq:
  "\<exists>n k. snd (session_sendto env d a s) = s\<lparr>stats := (stats s)\<lparr>send_errors := n\<rparr>, send_errors_logged := k,
     sends := sends s + 1, trace := trace s @ [SentTo d a]\<rparr>"
  by (cases s; cases "stats s") (auto simp: session_sendto_def upd_stats_def Let_def)

lemma send_frame_fields:
  assumes "send_frame s t"
  shows "frame t = frame s" "rtc_state t = rtc_state s" "remote t = remote s" "have_remote t = have_remote s"
    "config t = config s" "retx_data t = retx_data s" "retx_len t = retx_len s" "retx_seq t = retx_seq s"
    "waiting_keyframe (stats t) = waiting_keyframe (stats s)" "created_ms t = created_ms s" "last_rx_ms t = last_rx_ms s"
    "packetizer t = packetizer s" "sent_to (remote s) (trace s) (trace t)"
  using assms by (auto simp: send_frame_def frame_def sent_to_def)

lemma send_frame_refl [simp]: "send_frame s s"
  by (auto simp: send_frame_def intro!: exI [of _ "send_errors (stats s)"] exI [of _ "send_errors_logged s"]
      exI [of _ "sends s"] exI [of _ "[]"])

lemma send_frame_trans:
  assumes "send_frame s t" "send_frame t u"
  shows "send_frame s u"
proof -
  obtain n k j ds where t: "t = s\<lparr>stats := (stats s)\<lparr>send_errors := n\<rparr>, send_errors_logged := k, sends := j,
      trace := trace s @ map (\<lambda>d. SentTo d (remote s)) ds\<rparr>" using assms(1) unfolding send_frame_def by blast
  obtain n' k' j' es where "u = t\<lparr>stats := (stats t)\<lparr>send_errors := n'\<rparr>, send_errors_logged := k', sends := j',
      trace := trace t @ map (\<lambda>d. SentTo d (remote t)) es\<rparr>" using assms(2) unfolding send_frame_def by blast
  then have "u = s\<lparr>stats := (stats s)\<lparr>send_errors := n'\<rparr>, send_errors_logged := k', sends := j',
      trace := trace s @ map (\<lambda>d. SentTo d (remote s)) (ds @ es)\<rparr>" by (simp add: t)
  then show ?thesis unfolding send_frame_def by blast
qed

lemma send_frame_sendto: "send_frame s (snd (session_sendto env d (remote s) s))"
proof -
  obtain n k where "snd (session_sendto env d (remote s) s) = s\<lparr>stats := (stats s)\<lparr>send_errors := n\<rparr>,
      send_errors_logged := k, sends := sends s + 1, trace := trace s @ map (\<lambda>d. SentTo d (remote s)) [d]\<rparr>"
    using session_sendto_eq [of env d "remote s" s] by auto
  then show ?thesis unfolding send_frame_def by blast
qed

lemma dtls_send_udp_frame:
  "\<exists>u. dtls_send_udp env d w = Some (w\<lparr>user := u\<rparr>) \<and> send_frame (user w) u"
  using send_frame_sendto [of "user w" env d] by (cases "udp_fd (user w) < 0 \<or> \<not> have_remote (user w)")
    (auto simp: dtls_send_udp_def Let_def intro: exI [of _ "user w"])

section \<open>Session and engine\<close>

text \<open>
  How the state of the session follows the state of the engine. A failed engine is closed by the
  session before its operation returns, so no session is linked to the state \<open>FAILED\<close>.
\<close>

definition link :: "DtlsSrtpState \<Rightarrow> RtcSession \<Rightarrow> bool" where
  "link st s \<longleftrightarrow>
     (case st of
        DTLS_SRTP_INIT \<Rightarrow> rtc_state s = (if have_remote s then RTC_ICE else RTC_NEW)
      | DTLS_SRTP_HANDSHAKING \<Rightarrow> rtc_state s = RTC_DTLS \<and> have_remote s
      | DTLS_SRTP_CONNECTED \<Rightarrow> (rtc_state s = RTC_DTLS \<or> rtc_state s = RTC_STREAMING) \<and> have_remote s
      | DTLS_SRTP_FAILED \<Rightarrow> False
      | DTLS_SRTP_CLOSED \<Rightarrow> rtc_state s = RTC_CLOSED) \<and>
     closes (trace s) = (if rtc_state s = RTC_CLOSED \<and> rc_on_closed (config s) then 1 else 0)"

lemma link_closed: "link st s \<Longrightarrow> rtc_state s = RTC_CLOSED \<longleftrightarrow> st = DTLS_SRTP_CLOSED"
  by (cases st) (auto simp: link_def)

lemma link_send_frame: "send_frame s t \<Longrightarrow> link st t = link st s"
  by (simp add: link_def send_frame_fields sent_to_closes [OF send_frame_fields(13)] split: DtlsSrtpState.split)

text \<open>What the close operation does to the session: one state change and one hook.\<close>

definition closed_session :: "RtcSession \<Rightarrow> RtcSession" where
  "closed_session s = (let s = s\<lparr>rtc_state := RTC_CLOSED\<rparr> in
     if rc_on_closed (config s) then s\<lparr>trace := trace s @ [SessionClosed]\<rparr> else s)"

lemma closed_session_fields [simp]:
  "rtc_state (closed_session s) = RTC_CLOSED" "frame (closed_session s) = frame s" "remote (closed_session s) = remote s"
  "have_remote (closed_session s) = have_remote s" "config (closed_session s) = config s"
  "peer_only a (trace s) (trace (closed_session s))"
  by (simp_all add: closed_session_def frame_def Let_def)

lemma closed_session_closes: "closes (trace s) = 0 \<Longrightarrow> link DTLS_SRTP_CLOSED (closed_session s)"
  by (simp add: link_def closed_session_def Let_def)

lemma close_again: "rtc_state (user w) = RTC_CLOSED \<Longrightarrow> rtc_session_close env w = Some w"
  by (simp add: rtc_session_close.simps)

lemma notify_closed:
  assumes "rtc_state (user w) = RTC_CLOSED"
  shows "dtls_set_state (Some (\<lambda>st. dtls_on_state_with (rtc_session_close env) st)) DTLS_SRTP_CLOSED w =
     Some (w\<lparr>engine := (engine w)\<lparr>dtls_state := DTLS_SRTP_CLOSED\<rparr>\<rparr>)"
proof (cases "dtls_state (engine w) = DTLS_SRTP_CLOSED")
  case True
  then have "w\<lparr>engine := (engine w)\<lparr>dtls_state := DTLS_SRTP_CLOSED\<rparr>\<rparr> = w" by (cases w; cases "engine w") simp
  then show ?thesis using True by (simp add: dtls_set_state_def)
next
  case False
  then show ?thesis
    using assms by (simp add: dtls_set_state_def dtls_on_state_with_def close_again Let_def)
qed

lemma run_bio_send_only: "send_udp cb = send_udp cb' \<Longrightarrow> run_bio cb ops w = run_bio cb' ops w"
proof (induction ops arbitrary: w)
  case (Cons op ops)
  then have "run_bio cb ops = run_bio cb' ops" by blast
  with Cons.prems show ?case by (cases op) (simp_all add: bio_tx_write_def)
qed simp

text \<open>While OpenSSL shuts the connection down, the session only sends.\<close>

definition quiet_callbacks :: "'s rtc_env \<Rightarrow> ('s, RtcSession) DtlsSrtpCallbacks" where
  "quiet_callbacks env = \<lparr>send_udp = Some (dtls_send_udp env), on_connected = Some Some, on_state = Some (\<lambda>st. Some)\<rparr>"

interpretation shut: dtls_client "quiet_callbacks env" "\<lambda>st. send_frame s0" "\<lambda>_. True" "dtls_send_udp env" "\<lambda>st. Some" Some
  for env :: "'s rtc_env" and s0
proof (unfold_locales, goal_cases)
  case (4 w p)
  then show ?case using dtls_send_udp_frame [of env p w] send_frame_trans by blast
next
  case (5 old w)
  then show ?case by (intro exI [of _ "user w"] exI [of _ "dtls_state (engine w)"]) simp
next
  case (6 w)
  then show ?case by (intro exI [of _ "user w"]) simp
qed (simp_all add: quiet_callbacks_def)

lemma shutdown_ok:
  assumes "rx_ok (engine w)"
  shows "\<exists>got e u. run_bio (bio_callbacks env) ops w = Some (got, w\<lparr>engine := e, user := u\<rparr>) \<and> same_engine (engine w) e \<and>
     rx_ok e \<and> send_frame (user w) u"
  using shut.run_bio_ok [of w "user w" env ops] assms
    run_bio_send_only [of "bio_callbacks env" "quiet_callbacks env" ops w]
  by (auto simp: bio_callbacks_def quiet_callbacks_def)

text \<open>
  Closing ends in every state and in spite of the callback: the engine is closed, the hook has
  run once, and only the peer was sent to.
\<close>

lemma rtc_session_close_ok:
  assumes "rx_ok (engine w)" "rtc_state (user w) \<noteq> RTC_CLOSED"
  shows "\<exists>e u. rtc_session_close env w =
       Some (w\<lparr>engine := e\<lparr>dtls_state := DTLS_SRTP_CLOSED\<rparr>, user := closed_session u\<rparr>) \<and>
     same_engine (engine w) e \<and> rx_ok e \<and> send_frame (user w) u \<and>
     (dtls_state (engine w) \<noteq> DTLS_SRTP_CONNECTED \<longrightarrow> e = engine w \<and> u = user w)"
proof -
  let ?w = "w\<lparr>user := (user w)\<lparr>rtc_state := RTC_CLOSED\<rparr>\<rparr>"
  obtain e u where eu: "dtls_srtp_close (tls env) (bio_callbacks env) (Some (\<lambda>st. dtls_on_state_with (rtc_session_close env) st)) ?w =
      Some (w\<lparr>engine := e\<lparr>dtls_state := DTLS_SRTP_CLOSED\<rparr>, user := u\<rparr>)" "same_engine (engine w) e" "rx_ok e"
    "send_frame ((user w)\<lparr>rtc_state := RTC_CLOSED\<rparr>) u"
    "dtls_state (engine w) \<noteq> DTLS_SRTP_CONNECTED \<longrightarrow> e = engine w \<and> u = (user w)\<lparr>rtc_state := RTC_CLOSED\<rparr>"
  proof (cases "dtls_state (engine w) = DTLS_SRTP_CONNECTED")
    case True
    obtain got e u where r: "run_bio (bio_callbacks env) (shutdown_bio (tls env)) ?w = Some (got, ?w\<lparr>engine := e, user := u\<rparr>)"
      "same_engine (engine w) e" "rx_ok e" "send_frame ((user w)\<lparr>rtc_state := RTC_CLOSED\<rparr>) u"
      using shutdown_ok [of ?w env "shutdown_bio (tls env)"] assms(1) by auto
    then have "rtc_state u = RTC_CLOSED" by (simp add: send_frame_fields)
    then show ?thesis using True r notify_closed [of "?w\<lparr>engine := e, user := u\<rparr>" env]
      by (intro that) (auto simp: dtls_srtp_close_def)
  next
    case False
    then show ?thesis using assms(1) notify_closed [of ?w env]
      by (intro that [where e = "engine w" and u = "(user w)\<lparr>rtc_state := RTC_CLOSED\<rparr>"]) (auto simp: dtls_srtp_close_def)
  qed
  let ?u = "u\<lparr>rtc_state := rtc_state (user w)\<rparr>"
  have cu: "rtc_state u = RTC_CLOSED" "closed_session ?u = (if rc_on_closed (config u) then u\<lparr>trace := trace u @ [SessionClosed]\<rparr> else u)"
    using send_frame_fields(2) [OF eu(4)] by (cases u; simp add: closed_session_def Let_def)+
  have "send_frame (user w) ?u"
    using eu(4) by (cases "user w") (auto simp: send_frame_def)
  moreover have "rtc_session_close env w = Some (w\<lparr>engine := e\<lparr>dtls_state := DTLS_SRTP_CLOSED\<rparr>, user := closed_session ?u\<rparr>)"
    using assms(2) eu(1) cu by (subst rtc_session_close.simps) (auto simp: set_state_def Let_def)
  moreover have "dtls_state (engine w) \<noteq> DTLS_SRTP_CONNECTED \<longrightarrow> e = engine w \<and> ?u = user w"
    using eu(5) by (cases "user w") auto
  ultimately show ?thesis using eu(2,3) by blast
qed

lemma close_quiet:
  assumes "rtc_state (user w) \<noteq> RTC_CLOSED" "dtls_state (engine w) \<noteq> DTLS_SRTP_CONNECTED"
  shows "rtc_session_close env w =
     Some (w\<lparr>engine := (engine w)\<lparr>dtls_state := DTLS_SRTP_CLOSED\<rparr>, user := closed_session (user w)\<rparr>)"
  using assms notify_closed [of "w\<lparr>user := (user w)\<lparr>rtc_state := RTC_CLOSED\<rparr>\<rparr>" env]
  by (subst rtc_session_close.simps) (auto simp: dtls_srtp_close_def set_state_def closed_session_def Let_def)

lemma now_ms_snd [simp]: "snd (now_ms env s) = s\<lparr>reads := reads s + 1\<rparr>"
  by (simp add: now_ms_def split: prod.split)

lemma now_ms_pair: "now_ms env s = (fst (now_ms env s), s\<lparr>reads := reads s + 1\<rparr>)"
  using now_ms_snd [of env s] by (metis prod.collapse)

lemma wall_us_pair: "wall_us env s = (fst (wall_us env s), s\<lparr>reads := reads s + 1\<rparr>)"
  by (simp add: wall_us_def split: prod.split)

lemma request_idr_cases:
  obtains (skip) r where "rtc_session_request_idr env s = s\<lparr>reads := r\<rparr>"
  | (ask) r t where "rtc_session_request_idr env s = s\<lparr>reads := r, last_idr_ms := t, idr_requested := True, trace := trace s @ [IdrRequest]\<rparr>"
    "rc_on_idr_request (config s)" "last_idr_ms s = 0 \<or> t - last_idr_ms s \<ge> IDR_MIN_INTERVAL_MS"
proof (cases "rc_on_idr_request (config s)")
  case False
  then show ?thesis by (intro skip [of "reads s"]) (simp add: rtc_session_request_idr_def)
next
  case True
  let ?t = "fst (now_ms env s)"
  show ?thesis
  proof (cases "last_idr_ms s \<noteq> 0 \<and> ?t - last_idr_ms s < IDR_MIN_INTERVAL_MS")
    case True
    then show ?thesis by (intro skip [of "if rc_on_idr_request (config s) then reads s + 1 else reads s"])
        (subst rtc_session_request_idr_def, subst now_ms_pair, simp)
  next
    case False
    then show ?thesis using \<open>rc_on_idr_request (config s)\<close>
      by (intro ask [where r = "reads s + 1" and t = ?t]) (subst rtc_session_request_idr_def, subst now_ms_pair, auto)
  qed
qed

lemma request_idr_fields [simp]:
  "frame (rtc_session_request_idr env s) = frame s" "rtc_state (rtc_session_request_idr env s) = rtc_state s"
  "have_remote (rtc_session_request_idr env s) = have_remote s" "config (rtc_session_request_idr env s) = config s"
  "stats (rtc_session_request_idr env s) = stats s" "remote (rtc_session_request_idr env s) = remote s"
  "closes (trace (rtc_session_request_idr env s)) = closes (trace s)"
  "retx_data (rtc_session_request_idr env s) = retx_data s" "retx_len (rtc_session_request_idr env s) = retx_len s"
  "retx_seq (rtc_session_request_idr env s) = retx_seq s" "packetizer (rtc_session_request_idr env s) = packetizer s"
  "peer_only a (trace s) (trace (rtc_session_request_idr env s))"
  by (rule request_idr_cases [of env s]; simp add: frame_def)+

section \<open>The session as a client of the engine\<close>

definition session_frame :: "RtcSession \<Rightarrow> DtlsSrtpState \<Rightarrow> RtcSession \<Rightarrow> bool" where
  "session_frame s0 st s \<longleftrightarrow> link st s \<and> frame s = frame s0 \<and> have_remote s0 \<and>
     peer_only (remote s0) (trace s0) (trace s)"

lemma frame_fields:
  assumes "frame s = frame t"
  shows "remote s = remote t" "have_remote s = have_remote t" "config s = config t" "packetizer s = packetizer t"
    "retx_data s = retx_data t" "retx_len s = retx_len t" "retx_seq s = retx_seq t"
    "local_pwd s = local_pwd t" "local_ufrag s = local_ufrag t" "udp_fd s = udp_fd t"
  using assms by (simp_all add: frame_def)

lemma engine_same_state: "(engine w)\<lparr>dtls_state := dtls_state (engine w)\<rparr> = engine w"
  by simp

interpretation rtc: dtls_client "rtc_callbacks env" "session_frame s0" "\<lambda>s. rtc_state s = RTC_STREAMING"
    "dtls_send_udp env" "dtls_on_state env" "dtls_on_connected env"
  for env :: "'s rtc_env" and s0
proof (unfold_locales, goal_cases)
  case (4 w p)
  obtain u where u: "dtls_send_udp env p w = Some (w\<lparr>user := u\<rparr>)" "send_frame (user w) u"
    using dtls_send_udp_frame by blast
  have r: "remote (user w) = remote s0" using 4 by (auto simp: session_frame_def dest: frame_fields)
  have "session_frame s0 (dtls_state (engine w)) u"
    using 4 send_frame_fields(1) [OF u(2)] peer_only_trans [OF _ sent_to_peer_only [OF send_frame_fields(13) [OF u(2)]]] r
    by (auto simp: session_frame_def link_send_frame [OF u(2)])
  then show ?case using u send_frame_fields(2) [OF u(2)] by auto
next
  case (5 old w)
  let ?s = "user w"
  have l: "link old ?s" "frame ?s = frame s0" "have_remote s0" "peer_only (remote s0) (trace s0) (trace ?s)" "have_remote ?s"
    using 5 by (auto simp: session_frame_def dest: frame_fields)
  have open_state: "rtc_state ?s \<noteq> RTC_CLOSED" using 5(2) link_closed [OF l(1)] by (auto simp: dtls_edge_def)
  then have cl: "closes (trace ?s) = 0" using l(1) by (simp add: link_def)
  consider "dtls_state (engine w) = DTLS_SRTP_HANDSHAKING" "old = DTLS_SRTP_INIT"
    | "dtls_state (engine w) = DTLS_SRTP_CONNECTED" "old = DTLS_SRTP_HANDSHAKING"
    | "dtls_state (engine w) = DTLS_SRTP_FAILED \<or> dtls_state (engine w) = DTLS_SRTP_CLOSED"
    using 5(2) by (auto simp: dtls_edge_def)
  then show ?case
  proof cases
    case 1
    then have "rtc_state ?s = RTC_ICE" using l(1,5) by (simp add: link_def)
    with 1 l cl show ?thesis
      by (intro exI [of _ "set_state RTC_DTLS ?s"] exI [of _ "dtls_state (engine w)"])
        (simp add: dtls_on_state_def dtls_on_state_with_def session_frame_def link_def set_state_def frame_def)
  next
    case 2
    with l show ?thesis
      by (intro exI [of _ ?s] exI [of _ "dtls_state (engine w)"])
        (simp add: dtls_on_state_def dtls_on_state_with_def session_frame_def link_def)
  next
    case 3
    have "session_frame s0 DTLS_SRTP_CLOSED (closed_session ?s)"
      using l closed_session_closes [OF cl] peer_only_trans [OF l(4) closed_session_fields(6)]
      by (simp add: session_frame_def)
    then show ?thesis
      using 3 close_quiet [OF open_state, of env]
      by (intro exI [of _ "closed_session ?s"] exI [of _ DTLS_SRTP_CLOSED])
        (auto simp: dtls_on_state_def dtls_on_state_with_def)
  qed
next
  case (6 w)
  let ?s = "rtc_session_request_idr env (upd_stats (\<lambda>st. st\<lparr>waiting_keyframe := True\<rparr>) (set_state RTC_STREAMING (user w)))"
  let ?u = "?s\<lparr>reads := reads ?s + 1, next_sr_ms := fst (now_ms env ?s) + RTCP_SR_INTERVAL_MS\<rparr>"
  have f: "set_state RTC_STREAMING (user w) = (user w)\<lparr>rtc_state := RTC_STREAMING\<rparr>" by (simp add: set_state_def)
  have "dtls_on_connected env w = Some (w\<lparr>user := ?u\<rparr>)"
    unfolding dtls_on_connected_def Let_def by (subst now_ms_pair) simp
  moreover have "frame ?u = frame (user w)"
    using request_idr_fields(1) [of env "upd_stats (\<lambda>st. st\<lparr>waiting_keyframe := True\<rparr>) (set_state RTC_STREAMING (user w))"]
    by (simp add: frame_def f upd_stats_def)
  moreover have "rtc_state ?u = RTC_STREAMING" by (simp add: f upd_stats_def)
  moreover have "link DTLS_SRTP_CONNECTED ?u"
    using 6 by (auto simp: session_frame_def link_def f upd_stats_def)
  moreover have "peer_only (remote s0) (trace (user w)) (trace ?u)"
    using request_idr_fields(12) [of "remote s0" "upd_stats (\<lambda>st. st\<lparr>waiting_keyframe := True\<rparr>) (set_state RTC_STREAMING (user w))" env]
    by (simp add: f upd_stats_def)
  ultimately show ?case
    using 6 peer_only_trans by (intro exI [of _ ?u]) (auto simp: session_frame_def)
qed (simp_all add: rtc_callbacks_def)

section \<open>Invariant\<close>

text \<open>What the code relies on of its libraries and of its own stack buffers.\<close>

definition rtc_env_ok :: "'s rtc_env \<Rightarrow> bool" where
  "rtc_env_ok env \<longleftrightarrow> env_ok (tls env) \<and> scratch_ok (stack_scratch env) (heap env) \<and> 20 \<le> length (mac_stack env) \<and>
     (\<forall>k m x. hmac env k m = Some x \<longrightarrow> length x = 20) \<and> length (response_stack env) = 128 \<and>
     length (rtp_stack env) = RTP_MAX_PACKET \<and>
     (\<forall>c p q. snd (srtp_protect env c p) = Some q \<longrightarrow> length p \<le> length q \<and> length q \<le> length p + 64) \<and>
     (\<forall>c p q. snd (srtp_protect_rtcp env c p) = Some q \<longrightarrow> length q \<le> length p + 14)"

definition rtc_ok :: "RtcSession \<Rightarrow> bool" where
  "rtc_ok s \<longleftrightarrow> 0 \<le> udp_fd s \<and> packetizer s \<noteq> None \<and> length (retx_data s) = 512 \<and> list_all (\<lambda>r. length r = 1264) (retx_data s) \<and>
     length (retx_len s) = 512 \<and> list_all (\<lambda>n. unat n \<le> 1264) (retx_len s) \<and> length (retx_seq s) = 512"

lemma rtc_ok_frame: "frame s = frame t \<Longrightarrow> rtc_ok s = rtc_ok t"
  by (auto simp: rtc_ok_def dest: frame_fields)

definition rtc_inv :: "'s rtc_world \<Rightarrow> bool" where
  "rtc_inv w \<longleftrightarrow> dtls_inv (engine w) \<and> link (dtls_state (engine w)) (user w) \<and> rtc_ok (user w) \<and>
     (dtls_state (engine w) = DTLS_SRTP_CONNECTED \<longrightarrow> rtc_state (user w) = RTC_STREAMING) \<and>
     expected_fingerprint (engine w) = fit 128 (fingerprint (rc_offer (config (user w))))"

text \<open>How an operation may move the session and its engine.\<close>

definition progress :: "'s ssl_env \<Rightarrow> 's rtc_world \<Rightarrow> 's rtc_world \<Rightarrow> bool" where
  "progress io w w' \<longleftrightarrow> dtls_rank (dtls_state (engine w)) \<le> dtls_rank (dtls_state (engine w')) \<and>
     (srtp_ready (engine w) \<longrightarrow> srtp_ready (engine w')) \<and>
     (\<not> srtp_ready (engine w) \<and> srtp_ready (engine w') \<longrightarrow> init_finished io \<and> selected_profile io \<and>
        peer_verified io (expected_fingerprint (engine w))) \<and>
     (have_remote (user w) \<longrightarrow> have_remote (user w')) \<and> config (user w') = config (user w)"

lemma progress_refl [simp]: "progress io w w"
  by (simp add: progress_def)

lemma progress_trans:
  "progress io w w' \<Longrightarrow> progress io w' w'' \<Longrightarrow> expected_fingerprint (engine w') = expected_fingerprint (engine w) \<Longrightarrow> progress io w w''"
  by (auto simp: progress_def)

lemma rtc_inv_client:
  "rtc_inv w \<Longrightarrow> have_remote (user w) \<Longrightarrow> client_ok (session_frame (user w)) (\<lambda>s. rtc_state s = RTC_STREAMING) w"
  by (simp add: rtc_inv_def client_ok_def session_frame_def)

lemma client_rtc_inv:
  assumes "client_ok (session_frame s0) (\<lambda>s. rtc_state s = RTC_STREAMING) w'" "rtc_ok s0"
    "expected_fingerprint (engine w') = fit 128 (fingerprint (rc_offer (config s0)))"
  shows "rtc_inv w'" "frame (user w') = frame s0" "peer_only (remote s0) (trace s0) (trace (user w'))"
  using assms rtc_ok_frame [of "user w'" s0] frame_fields(3) [of "user w'" s0]
  by (auto simp: rtc_inv_def client_ok_def session_frame_def)

lemma engine_step_progress:
  "engine_step io (engine w) (engine w') \<Longrightarrow> frame (user w') = frame (user w) \<Longrightarrow> progress io w w'"
  by (auto simp: engine_step_def progress_def dest: frame_fields)

fun rtc_rank :: "RtcSessionState \<Rightarrow> nat" where
  "rtc_rank RTC_NEW = 0"
| "rtc_rank RTC_ICE = 1"
| "rtc_rank RTC_DTLS = 2"
| "rtc_rank RTC_STREAMING = 3"
| "rtc_rank RTC_CLOSED = 4"

text \<open>The session state is a function of the engine's state and of the peer.\<close>

lemma rtc_rank_inv:
  assumes "rtc_inv w"
  shows "rtc_rank (rtc_state (user w)) = (case dtls_state (engine w) of
     DTLS_SRTP_INIT \<Rightarrow> if have_remote (user w) then 1 else 0 | DTLS_SRTP_HANDSHAKING \<Rightarrow> 2 | DTLS_SRTP_CONNECTED \<Rightarrow> 3
   | _ \<Rightarrow> 4)"
  using assms by (cases "dtls_state (engine w)") (auto simp: rtc_inv_def link_def)

lemma rtc_rank_mono:
  assumes "rtc_inv w" "rtc_inv w'" "progress io w w'"
  shows "rtc_rank (rtc_state (user w)) \<le> rtc_rank (rtc_state (user w'))"
  using assms(3) unfolding rtc_rank_inv [OF assms(1)] rtc_rank_inv [OF assms(2)]
  by (cases "dtls_state (engine w)"; cases "dtls_state (engine w')") (auto simp: progress_def)

section \<open>ICE\<close>

definition authenticated :: "'s rtc_env \<Rightarrow> bytes \<Rightarrow> RtcSession \<Rightarrow> bool" where
  "authenticated env buffer s \<longleftrightarrow> (\<exists>tid. stun_is_binding_request buffer = Some (Some tid)) \<and>
     stun_verify_mi (hmac env) (stack_scratch env) (heap env) (Some buffer) (Some (str_bytes (local_pwd s))) = Some True \<and>
     stun_username_matches buffer (Some (str_bytes (local_ufrag s))) = Some True"

text \<open>Counters and timestamps that no invariant mentions.\<close>

definition noted :: "RtcSession \<Rightarrow> RtcSession \<Rightarrow> bool" where
  "noted s t \<longleftrightarrow> frame t = frame s \<and> rtc_state t = rtc_state s \<and> trace t = trace s"

lemma link_noted: "noted s t \<Longrightarrow> link st t = link st s"
  by (auto simp: noted_def link_def dest: frame_fields split: DtlsSrtpState.split)

lemma link_reply:
  assumes "link st s"
  shows "link st (snd (session_sendto env d a s))" "frame (snd (session_sendto env d a s)) = frame s"
proof -
  obtain n k where t: "snd (session_sendto env d a s) = s\<lparr>stats := (stats s)\<lparr>send_errors := n\<rparr>, send_errors_logged := k,
     sends := sends s + 1, trace := trace s @ [SentTo d a]\<rparr>" using session_sendto_eq by blast
  show "link st (snd (session_sendto env d a s))" "frame (snd (session_sendto env d a s)) = frame s"
    using assms unfolding t by (cases st; simp add: link_def frame_def)+
qed

lemma track_peer_fields [simp]:
  "rtc_state (track_peer a ip port s) = rtc_state s" "trace (track_peer a ip port s) = trace s"
  "config (track_peer a ip port s) = config s" "have_remote (track_peer a ip port s)"
  "packetizer (track_peer a ip port s) = packetizer s" "retx_data (track_peer a ip port s) = retx_data s"
  "retx_len (track_peer a ip port s) = retx_len s" "retx_seq (track_peer a ip port s) = retx_seq s"
  "local_pwd (track_peer a ip port s) = local_pwd s" "local_ufrag (track_peer a ip port s) = local_ufrag s"
  "remote (track_peer a ip port s) \<in> {remote s, a}" "udp_fd (track_peer a ip port s) = udp_fd s"
  by (auto simp: track_peer_def upd_stats_def Let_def split: prod.split)

lemma track_peer_format: "format_peer (remote (track_peer a (fst (format_peer a)) (snd (format_peer a)) s)) = format_peer a"
  by (cases "format_peer a"; cases "format_peer (remote s)") (auto simp: track_peer_def upd_stats_def)

definition ice_state :: "RtcSession \<Rightarrow> RtcSession" where
  "ice_state s = (if rtc_state s = RTC_NEW then set_state RTC_ICE s else s)"

lemma link_ice:
  assumes "link st s"
  shows "link st (ice_state (track_peer a ip port s))"
  using assms by (cases st) (auto simp: link_def ice_state_def set_state_def)

lemma ice_track_fields:
  "config (ice_state (track_peer a ip port s)) = config s" "have_remote (ice_state (track_peer a ip port s))"
  "remote (ice_state (track_peer a ip port s)) \<in> {remote s, a}" "rtc_ok (ice_state (track_peer a ip port s)) = rtc_ok s"
  using track_peer_fields(11) [of a ip port s] by (simp_all add: ice_state_def set_state_def rtc_ok_def)

lemma handle_stun_ok:
  assumes env: "rtc_env_ok env"
  shows "\<exists>s'. handle_stun env buffer source ip port s = Some s' \<and>
     (rtc_ok s \<longrightarrow> rtc_ok s') \<and> (link st s \<longrightarrow> link st s') \<and> config s' = config s \<and> (have_remote s \<longrightarrow> have_remote s') \<and>
     (if authenticated env buffer s
      then remote s' \<in> {remote s, source} \<and> have_remote s' \<and> (format_peer source = (ip, port) \<longrightarrow> format_peer (remote s') = format_peer source)
      else remote s' = remote s \<and> have_remote s' = have_remote s)"
proof -
  let ?rx = "upd_stats (\<lambda>st. st\<lparr>stun_rx := stun_rx st + 1\<rparr>) s"
  define t where "t = fst (now_ms env ?rx)"
  have t: "now_ms env ?rx = (t, ?rx\<lparr>reads := reads ?rx + 1\<rparr>)" unfolding t_def by (rule now_ms_pair)
  define s1 where "s1 = ?rx\<lparr>reads := reads ?rx + 1, last_rx_ms := t\<rparr>"
  have n1: "noted s s1" "local_pwd s1 = local_pwd s" "local_ufrag s1 = local_ufrag s"
    by (simp_all add: noted_def s1_def upd_stats_def frame_def)
  let ?bad = "upd_stats (\<lambda>st. st\<lparr>stun_bad := stun_bad st + 1\<rparr>) s1"
  let ?good = "ice_state (track_peer source ip port (upd_stats (\<lambda>st. st\<lparr>stun_ok := stun_ok st + 1\<rparr>) s1))"
  have fr: "frame ?bad = frame s" "noted s ?bad" "noted s (upd_stats (\<lambda>st. st\<lparr>stun_ok := stun_ok st + 1\<rparr>) s1)"
    using n1 by (simp_all add: noted_def upd_stats_def frame_def)
  obtain ind where ind: "stun_is_binding_indication buffer = Some ind" using stun_reads_total(1) by blast
  obtain req where req: "stun_is_binding_request buffer = Some req" "\<forall>tid. req = Some tid \<longrightarrow> length tid = 12 \<and> 20 \<le> length buffer"
    using stun_reads_total(2) by blast
  obtain un where un: "stun_copy_username buffer (Some (replicate 160 0)) = Some un" using stun_reads_total(4) by fastforce
  obtain mi where mi: "stun_verify_mi (hmac env) (stack_scratch env) (heap env) (Some buffer) (Some (str_bytes (local_pwd s))) = Some mi"
    using verify_mi_char [of "stack_scratch env" "heap env" "hmac env" buffer "str_bytes (local_pwd s)"] env
    by (auto simp: rtc_env_ok_def)
  obtain kn where kn: "stun_username_matches buffer (Some (str_bytes (local_ufrag s))) = Some kn" using stun_reads_total(3) by blast
  note run = handle_stun_def Let_def t prod.case s1_def [symmetric]
  consider "ind \<or> req = None" | tid where "\<not> ind" "req = Some tid" "\<not> (mi \<and> kn)" | tid where "\<not> ind" "req = Some tid" "mi" "kn"
    by (cases req) auto
  then show ?thesis
  proof cases
    case 1
    then have "handle_stun env buffer source ip port s = Some s1"
      unfolding run using ind req by auto
    moreover have "\<not> authenticated env buffer s" using 1 req ind request_is_stun(1) by (fastforce simp: authenticated_def)
    ultimately show ?thesis
      using n1 rtc_ok_frame [of s1 s] link_noted [OF n1(1)]
      by (auto simp: noted_def dest: frame_fields)
  next
    case 2
    obtain out where out: "stun_build_error_response (Some tid) 401 (Some (response_stack env)) 0 = Some (0, Some out, 48)" "48 \<le> length out"
      using error_response_bytes [of tid "response_stack env" 401 0] req(2) 2(2) env by (auto simp: rtc_env_ok_def)
    have "handle_stun env buffer source ip port s = Some (snd (session_sendto env (take 48 out) source ?bad))"
      unfolding run using ind req un mi kn 2 out n1(2,3)
      by (auto simp: stun_send_error_def)
    moreover have "\<not> authenticated env buffer s" using 2 mi kn by (auto simp: authenticated_def)
    moreover have "frame (snd (session_sendto env (take 48 out) source ?bad)) = frame s"
      using session_sendto_eq [of env "take 48 out" source ?bad] fr(1) by (auto simp: frame_def)
    ultimately show ?thesis
      using link_reply(1) [of st ?bad env "take 48 out" source] link_noted [OF fr(2)]
      by (auto dest: frame_fields rtc_ok_frame)
  next
    case 3
    let ?bs = "stun_build_binding_response (hmac env) (mac_stack env) (Some (str_bytes (local_pwd ?good))) buffer (Some source) (response_stack env) 0"
    obtain rc out k where out: "?bs = Some (rc, out, k)" "rc = 0 \<longrightarrow> k = 64 \<and> 64 \<le> length out"
    proof -
      have "\<exists>rc out k. ?bs = Some (rc, out, k) \<and> (rc = 0 \<longrightarrow> k = 64 \<and> 64 \<le> length out)"
        by (rule build_binding_response_total) (use req(2) 3(2) env in \<open>auto simp: rtc_env_ok_def\<close>)
      with that show ?thesis by blast
    qed
    have h: "handle_stun env buffer source ip port s = send_binding_response env buffer source ?good"
      unfolding run using ind req un mi kn 3 n1(2,3) by (simp add: ice_state_def)
    have auth: "authenticated env buffer s" using 3 mi kn req by (auto simp: authenticated_def)
    have g: "config ?good = config s" "have_remote ?good" "remote ?good \<in> {remote s, source}" "rtc_ok s \<longrightarrow> rtc_ok ?good"
      "link st s \<longrightarrow> link st ?good" "format_peer source = (ip, port) \<longrightarrow> format_peer (remote ?good) = format_peer source"
    proof -
      let ?x = "upd_stats (\<lambda>st. st\<lparr>stun_ok := stun_ok st + 1\<rparr>) s1"
      have x: "frame ?x = frame s" "link st ?x = link st s" using fr(3) link_noted [OF fr(3)] by (simp_all add: noted_def)
      show "config ?good = config s" "have_remote ?good" "remote ?good \<in> {remote s, source}" "rtc_ok s \<longrightarrow> rtc_ok ?good"
        using ice_track_fields [of source ip port ?x] frame_fields(1,3) [OF x(1)] rtc_ok_frame [OF x(1)] by simp_all
      show "format_peer source = (ip, port) \<longrightarrow> format_peer (remote ?good) = format_peer source"
        using track_peer_format [of source ?x] by (auto simp: ice_state_def set_state_def)
      show "link st s \<longrightarrow> link st ?good" using link_ice [of st ?x source ip port] x(2) by simp
    qed
    show ?thesis
    proof (cases "rc = 0")
      case True
      let ?r = "snd (session_sendto env (take 64 out) source ?good)"
      have "handle_stun env buffer source ip port s = Some ?r"
        unfolding h send_binding_response_def using out True by simp
      moreover have "frame ?r = frame ?good" using session_sendto_eq [of env "take 64 out" source ?good] by (auto simp: frame_def)
      ultimately show ?thesis
        using g auth link_reply(1) [of st ?good env "take 64 out" source] rtc_ok_frame [of ?r ?good]
        by (auto dest: frame_fields)
    next
      case False
      then have "handle_stun env buffer source ip port s = Some ?good" unfolding h send_binding_response_def using out by simp
      then show ?thesis using g auth by auto
    qed
  qed
qed

section \<open>Close and RTCP\<close>

lemma rtc_inv_user:
  assumes "rtc_inv w" "frame s = frame (user w)" "rtc_state s = rtc_state (user w)" "closes (trace s) = closes (trace (user w))"
  shows "rtc_inv (w\<lparr>user := s\<rparr>)" "progress io w (w\<lparr>user := s\<rparr>)"
  using assms rtc_ok_frame [OF assms(2)] frame_fields [OF assms(2)]
  by (auto simp: rtc_inv_def link_def progress_def split: DtlsSrtpState.split_asm)

lemma rtc_inv_keys:
  assumes "rtc_inv w"
  shows "rtc_inv (w\<lparr>engine := (engine w)\<lparr>srtp_in := Some c\<rparr>\<rparr>)" "rtc_inv (w\<lparr>engine := (engine w)\<lparr>srtp_out := Some c\<rparr>\<rparr>)"
    "progress io w (w\<lparr>engine := (engine w)\<lparr>srtp_in := Some c\<rparr>\<rparr>)" "progress io w (w\<lparr>engine := (engine w)\<lparr>srtp_out := Some c\<rparr>\<rparr>)"
  using assms by (simp_all add: rtc_inv_def dtls_inv_def progress_def)

text \<open>Closing in any state: one hook, no fault, the engine is closed as well.\<close>

lemma rtc_close_inv:
  assumes "rtc_inv w"
  shows "\<exists>w'. rtc_session_close env w = Some w' \<and> rtc_inv w' \<and> progress io w w' \<and> rtc_state (user w') = RTC_CLOSED \<and>
     frame (user w') = frame (user w) \<and> peer_only (remote (user w)) (trace (user w)) (trace (user w')) \<and>
     expected_fingerprint (engine w') = expected_fingerprint (engine w)"
proof (cases "rtc_state (user w) = RTC_CLOSED")
  case True
  then show ?thesis using assms close_again [OF True, of env] by (intro exI [of _ w]) simp
next
  case False
  have rx: "rx_ok (engine w)" and cl: "closes (trace (user w)) = 0"
    using assms False by (auto simp: rtc_inv_def dtls_inv_def link_def)
  obtain e u where c: "rtc_session_close env w = Some (w\<lparr>engine := e\<lparr>dtls_state := DTLS_SRTP_CLOSED\<rparr>, user := closed_session u\<rparr>)"
    "same_engine (engine w) e" "rx_ok e" "send_frame (user w) u"
    using rtc_session_close_ok [OF rx False, of env] by blast
  have u: "frame u = frame (user w)" "closes (trace u) = 0" "peer_only (remote (user w)) (trace (user w)) (trace u)"
    using send_frame_fields(1) [OF c(4)] sent_to_closes [OF send_frame_fields(13) [OF c(4)]] cl
      sent_to_peer_only [OF send_frame_fields(13) [OF c(4)]] by simp_all
  have "dtls_inv (e\<lparr>dtls_state := DTLS_SRTP_CLOSED\<rparr>)"
    using assms c(3) by (auto simp: rtc_inv_def dtls_inv_def same_engine_fields [OF c(2)])
  moreover have "rtc_ok (closed_session u)" using assms rtc_ok_frame [of "closed_session u" "user w"] u(1) by (simp add: rtc_inv_def)
  moreover have "config u = config (user w)" "have_remote u = have_remote (user w)" using frame_fields [OF u(1)] by auto
  ultimately have "rtc_inv (w\<lparr>engine := e\<lparr>dtls_state := DTLS_SRTP_CLOSED\<rparr>, user := closed_session u\<rparr>)"
    "progress io w (w\<lparr>engine := e\<lparr>dtls_state := DTLS_SRTP_CLOSED\<rparr>, user := closed_session u\<rparr>)"
    using assms closed_session_closes [OF u(2)] dtls_rank_le [of "dtls_state (engine w)"]
    by (auto simp: rtc_inv_def progress_def same_engine_fields [OF c(2)])
  then show ?thesis
    using c(1) u(1) peer_only_trans [OF u(3) closed_session_fields(6)] by (simp add: same_engine_fields [OF c(2)])
qed

lemma retx_slot_bound: "retx_slot n < 512"
  by (simp add: retx_slot_def RETX_CACHE_SIZE_def)

lemma nack_answers_ok:
  assumes "rtc_ok s"
  shows "\<exists>s'. nack_answers env seqs s = Some s' \<and> frame s' = frame s \<and> rtc_state s' = rtc_state s \<and>
     sent_to (remote s) (trace s) (trace s')"
  using assms
proof (induction seqs arbitrary: s)
  case (Cons q seqs)
  let ?i = "retx_slot q"
  have i: "?i < length (retx_len s)" "?i < length (retx_seq s)" "?i < length (retx_data s)"
    using Cons.prems retx_slot_bound by (auto simp: rtc_ok_def)
  show ?case
  proof (cases "retx_len s ! ?i = 0 \<or> retx_seq s ! ?i \<noteq> q")
    case True
    then show ?thesis using Cons i by auto
  next
    case False
    have len: "unat (retx_len s ! ?i) \<le> length (retx_data s ! ?i)"
      using Cons.prems i by (simp add: rtc_ok_def list_all_length)
    let ?bs = "take (unat (retx_len s ! ?i)) (retx_data s ! ?i)"
    let ?r = "session_sendto env ?bs (remote s) s"
    let ?t = "if fst ?r = 0 then upd_stats (\<lambda>st. st\<lparr>retransmissions := retransmissions st + 1\<rparr>) (snd ?r) else snd ?r"
    have sf: "send_frame s (snd ?r)" by (rule send_frame_sendto)
    have t: "frame ?t = frame s" "rtc_state ?t = rtc_state s" "trace ?t = trace (snd ?r)"
      using send_frame_fields(1,2) [OF sf] by (simp_all add: upd_stats_def frame_def)
    have "nack_answers env (q # seqs) s = nack_answers env seqs ?t"
      using False i len by (simp add: Let_def split: prod.split)
    moreover obtain s' where "nack_answers env seqs ?t = Some s'" "frame s' = frame ?t" "rtc_state s' = rtc_state ?t"
      "sent_to (remote ?t) (trace ?t) (trace s')"
      using Cons.IH [of ?t] Cons.prems rtc_ok_frame [OF t(1)] by blast
    moreover have "remote ?t = remote s" using frame_fields(1) [OF t(1)] .
    ultimately show ?thesis
      using t sent_to_trans [OF send_frame_fields(13) [OF sf]] by auto
  qed
qed simp

lemma rtcp_parse_total:
  "\<exists>fb. rtcp_parse p media = Some fb \<and> nack_seqs fb \<le> length (nack_seq fb)"
  using rtcp_parse_loop_ok [OF feedback_rep_zero, of p media 0]
  by (auto simp: rtcp_parse_def feedback_rep_def nack_rep_def)

lemma note_report_fields:
  "frame (note_report env fb s) = frame s" "rtc_state (note_report env fb s) = rtc_state s" "trace (note_report env fb s) = trace s"
  unfolding note_report_def Let_def
  by (subst now_ms_pair, simp add: upd_stats_def wall_us_def frame_def Let_def split: prod.split)+

text \<open>The outcome of an operation that starts in the invariant.\<close>

definition step_ok :: "'s ssl_env \<Rightarrow> 's rtc_world \<Rightarrow> 's rtc_world \<Rightarrow> bool" where
  "step_ok io w w' \<longleftrightarrow> rtc_inv w' \<and> progress io w w' \<and> expected_fingerprint (engine w') = expected_fingerprint (engine w)"

lemma step_ok_refl: "rtc_inv w \<Longrightarrow> step_ok io w w"
  by (simp add: step_ok_def)

lemma step_ok_trans: "step_ok io w w' \<Longrightarrow> step_ok io w' w'' \<Longrightarrow> step_ok io w w''"
  using progress_trans by (fastforce simp: step_ok_def)

lemma step_ok_user:
  assumes "rtc_inv w" "frame s = frame (user w)" "rtc_state s = rtc_state (user w)" "closes (trace s) = closes (trace (user w))"
  shows "step_ok io w (w\<lparr>user := s\<rparr>)"
  using rtc_inv_user [OF assms] by (simp add: step_ok_def)

lemma step_ok_client:
  assumes "rtc_inv w" "have_remote (user w)" "client_ok (session_frame (user w)) (\<lambda>s. rtc_state s = RTC_STREAMING) w'"
    "engine_step io (engine w) (engine w')"
  shows "step_ok io w w'" "frame (user w') = frame (user w)"
proof -
  have e: "expected_fingerprint (engine w') = expected_fingerprint (engine w)" using assms(4) by (simp add: engine_step_def)
  have f: "rtc_ok (user w)" "expected_fingerprint (engine w') = fit 128 (fingerprint (rc_offer (config (user w))))"
    using assms(1) e by (simp_all add: rtc_inv_def)
  note c = client_rtc_inv [OF assms(3) f]
  show "frame (user w') = frame (user w)" by (rule c(2))
  show "step_ok io w w'" using c(1) e engine_step_progress [OF assms(4) c(2)] by (simp add: step_ok_def)
qed

lemma dtls_on_rtcp_ok:
  assumes "rtc_inv w"
  shows "\<exists>w'. dtls_on_rtcp env p w = Some w' \<and> step_ok io w w' \<and> frame (user w') = frame (user w)"
proof -
  obtain fb where fb: "rtcp_parse p (rtp_h264_ssrc (packetizer (user w))) = Some fb" "nack_seqs fb \<le> length (nack_seq fb)"
    using rtcp_parse_total by blast
  show ?thesis
  proof (cases "bye fb")
    case True
    then show ?thesis using rtc_close_inv [OF assms, of env io] fb(1) by (auto simp: dtls_on_rtcp_def step_ok_def)
  next
    case False
    define s1 where "s1 = (if pli fb > 0 \<or> fir fb > 0 then rtc_session_request_idr env
      (upd_stats (\<lambda>st. st\<lparr>pli_received := pli_received st + (of_int (pli fb) + of_int (fir fb))\<rparr>) (user w)) else user w)"
    define s2 where "s2 = (if has_rr fb \<and> rr_ssrc fb = rtp_h264_ssrc (packetizer (user w)) then note_report env fb s1 else s1)"
    have 1: "frame s1 = frame (user w)" "rtc_state s1 = rtc_state (user w)" "closes (trace s1) = closes (trace (user w))"
      by (simp_all add: s1_def upd_stats_def) (simp_all add: frame_def)
    then have 2: "frame s2 = frame (user w)" "rtc_state s2 = rtc_state (user w)" "closes (trace s2) = closes (trace (user w))"
      by (simp_all add: s2_def note_report_fields)
    let ?s3 = "upd_stats (\<lambda>st. st\<lparr>nacks_received := nacks_received st + of_nat (nack_seqs fb)\<rparr>) s2"
    have 3: "frame ?s3 = frame (user w)" "rtc_state ?s3 = rtc_state (user w)" "trace ?s3 = trace s2"
      using 2 by (simp_all add: upd_stats_def frame_def)
    have "rtc_ok ?s3" using assms rtc_ok_frame [OF 3(1)] by (simp add: rtc_inv_def)
    then obtain s4 where 4: "nack_answers env (take (nack_seqs fb) (nack_seq fb)) ?s3 = Some s4" "frame s4 = frame ?s3"
      "rtc_state s4 = rtc_state ?s3" "sent_to (remote ?s3) (trace ?s3) (trace s4)" using nack_answers_ok by blast
    define s5 where "s5 = (if nack_seqs fb > 0 then s4 else s2)"
    have "frame s5 = frame (user w)" "rtc_state s5 = rtc_state (user w)" "closes (trace s5) = closes (trace (user w))"
      using 2 3 4(2,3) sent_to_closes [OF 4(4)] by (simp_all add: s5_def)
    moreover have "dtls_on_rtcp env p w = Some (w\<lparr>user := s5\<rparr>)"
      unfolding dtls_on_rtcp_def Let_def fb(1) Option.bind_lunit s1_def [symmetric] s2_def [symmetric] s5_def
      using False fb(2) 4(1) by (simp add: handle_nacks_def)
    ultimately show ?thesis using step_ok_user [OF assms] by (intro exI [of _ "w\<lparr>user := s5\<rparr>"]) simp
  qed
qed

lemma on_rtp_ok:
  assumes "rtc_inv w" "length buffer \<noteq> 1" "buffer \<noteq> []"
  shows "\<exists>w'. on_rtp env buffer w = Some w' \<and> step_ok io w w' \<and> frame (user w') = frame (user w)"
proof -
  have b: "1 < length buffer" using assms(2,3) by (cases buffer) auto
  show ?thesis
  proof (cases "buffer ! 1 AND 0x7F \<ge> 64 \<and> buffer ! 1 AND 0x7F \<le> 95 \<and> rtc_state (user w) = RTC_STREAMING")
  case False
  then show ?thesis using b step_ok_refl [OF assms(1)] by (auto simp: on_rtp_def)
next
  case True
  define t where "t = fst (now_ms env (user w))"
  have t: "now_ms env (user w) = (t, (user w)\<lparr>reads := reads (user w) + 1\<rparr>)" unfolding t_def by (rule now_ms_pair)
  let ?w = "w\<lparr>user := (user w)\<lparr>reads := reads (user w) + 1, last_rx_ms := t\<rparr>\<rparr>"
  have w: "step_ok io w ?w" by (rule step_ok_user [OF assms(1)]) (simp_all add: frame_def)
  have fr: "frame (user ?w) = frame (user w)" by (simp add: frame_def)
  have st: "dtls_state (engine w) = DTLS_SRTP_CONNECTED"
    using True assms(1) by (cases "dtls_state (engine w)") (auto simp: rtc_inv_def link_def split: if_splits)
  then obtain ctx where ready: "srtp_ready (engine w)" "srtp_in (engine w) = Some ctx"
    using assms(1) by (auto simp: rtc_inv_def dtls_inv_def)
  obtain c r where u: "srtp_unprotect_rtcp env ctx buffer = (c, r)" by (cases "srtp_unprotect_rtcp env ctx buffer")
  let ?v = "?w\<lparr>engine := (engine w)\<lparr>srtp_in := Some c\<rparr>\<rparr>"
  have v: "rtc_inv ?v" "step_ok io w ?v"
    using w rtc_inv_keys [where w = ?w and c = c] step_ok_trans [OF w] by (auto simp: step_ok_def)
  show ?thesis
  proof (cases "length buffer > 1500")
    case True
    then have "on_rtp env buffer w = Some ?w"
      using \<open>_ \<and> _ \<and> rtc_state (user w) = RTC_STREAMING\<close> b t by (simp add: on_rtp_def)
    then show ?thesis using w fr by blast
  next
    case False
    then have o: "on_rtp env buffer w = (case r of None \<Rightarrow> Some ?v | Some plain \<Rightarrow> dtls_on_rtcp env plain ?v)"
      using True b t ready u
      by (simp add: on_rtp_def dtls_srtp_unprotect_rtcp_def split: option.split)
    show ?thesis
    proof (cases r)
      case None
      then show ?thesis using o v(2) fr by (intro exI [of _ ?v]) (simp add: frame_def)
    next
      case (Some plain)
      obtain w' where "dtls_on_rtcp env plain ?v = Some w'" "step_ok io ?v w'" "frame (user w') = frame (user ?v)"
        using dtls_on_rtcp_ok [OF v(1), of env plain io] by blast
      then show ?thesis using o Some step_ok_trans [OF v(2)] fr by (intro exI [of _ w']) (simp add: frame_def)
    qed
  qed
qed
qed

text \<open>A check never moves a session that is past ICE.\<close>

lemma handle_stun_streaming:
  assumes "handle_stun env buffer source ip port s = Some s'" "rtc_state s \<noteq> RTC_NEW"
  shows "rtc_state s' = rtc_state s"
proof -
  have t: "now_ms env x = (fst (now_ms env x), x\<lparr>reads := reads x + 1\<rparr>)" for x by (rule now_ms_pair)
  have err: "stun_send_error env tid c a x = Some y \<Longrightarrow> rtc_state y = rtc_state x" for tid c a x y
    by (auto simp: stun_send_error_def split: bind_splits if_splits)
  have resp: "send_binding_response env buffer a x = Some y \<Longrightarrow> rtc_state y = rtc_state x" for a x y
    by (auto simp: send_binding_response_def split: bind_splits if_splits)
  obtain now where "now_ms env (upd_stats (\<lambda>st. st\<lparr>stun_rx := stun_rx st + 1\<rparr>) s) =
      (now, (upd_stats (\<lambda>st. st\<lparr>stun_rx := stun_rx st + 1\<rparr>) s)\<lparr>reads := reads s + 1\<rparr>)"
    using t [of "upd_stats (\<lambda>st. st\<lparr>stun_rx := stun_rx st + 1\<rparr>) s"] by (simp add: upd_stats_def)
  then show ?thesis
    using assms by (auto simp: handle_stun_def Let_def upd_stats_def split: bind_splits if_splits option.splits dest!: err resp)
qed

section \<open>Datagrams and timers\<close>

lemma classify_total: "\<exists>kind. rtc_classify_packet b = Some kind"
  by (cases b) (auto simp: rtc_classify_packet_def)

text \<open>A datagram of one byte in the range of RTP is read past its end; every other one is not.\<close>

definition datagram_fits :: "bytes \<Rightarrow> bool" where
  "datagram_fits buffer \<longleftrightarrow> \<not> (\<exists>b. buffer = [b] \<and> 128 \<le> b)"

lemma rtp_datagram:
  assumes "rtc_classify_packet buffer = Some RTC_PKT_RTP"
  shows "\<exists>b bs. buffer = b # bs \<and> 128 \<le> b"
  using assms by (cases buffer) (auto simp: rtc_classify_packet_def split: if_splits)

lemma rtc_session_on_udp_ok:
  assumes env: "rtc_env_ok env" and inv: "rtc_inv w" and len: "rtc_state (user w) \<noteq> RTC_CLOSED \<longrightarrow> datagram_fits buffer"
  shows "\<exists>w'. rtc_session_on_udp env buffer source w = Some w' \<and> step_ok (tls env) w w' \<and>
     (remote (user w') = remote (user w) \<and> have_remote (user w') = have_remote (user w) \<or>
      authenticated env buffer (user w) \<and> remote (user w') \<in> {remote (user w), source}) \<and>
     (authenticated env buffer (user w) \<and> rtc_state (user w) \<noteq> RTC_CLOSED \<longrightarrow>
        have_remote (user w') \<and> format_peer (remote (user w')) = format_peer source)"
proof (cases "rtc_state (user w) = RTC_CLOSED")
  case True
  then show ?thesis using step_ok_refl [OF inv] by (auto simp: rtc_session_on_udp_def)
next
  case False
  let ?b = "buffer"
  define s where "s = (let s = upd_stats (\<lambda>st. st\<lparr>datagrams_rx := datagrams_rx st + 1\<rparr>) (user w) in
    if datagrams_logged s < 8 then s\<lparr>datagrams_logged := datagrams_logged s + 1\<rparr> else s)"
  have s: "frame s = frame (user w)" "rtc_state s = rtc_state (user w)" "trace s = trace (user w)"
    "have_remote s = have_remote (user w)" "remote s = remote (user w)"
    by (simp_all add: s_def upd_stats_def frame_def Let_def)
  have w: "step_ok (tls env) w (w\<lparr>user := s\<rparr>)" "rtc_inv (w\<lparr>user := s\<rparr>)"
    using step_ok_user [OF inv s(1,2)] s(3) rtc_inv_user(1) [OF inv s(1,2)] by simp_all
  obtain kind where k: "rtc_classify_packet ?b = Some kind"
    using classify_total by blast
  obtain ip port where fp: "format_peer source = (ip, port)" by (cases "format_peer source")
  note run = rtc_session_on_udp_def Let_def fp prod.case k Option.bind_lunit
    s_def [unfolded Let_def, symmetric]
  show ?thesis
  proof (cases kind)
    case RTC_PKT_STUN
    obtain s' where s': "handle_stun env ?b source ip port s = Some s'" "rtc_ok s \<longrightarrow> rtc_ok s'"
      "link (dtls_state (engine w)) s \<longrightarrow> link (dtls_state (engine w)) s'" "config s' = config s" "have_remote s \<longrightarrow> have_remote s'"
      "if authenticated env ?b s then remote s' \<in> {remote s, source} \<and> have_remote s' \<and> (format_peer source = (ip, port) \<longrightarrow> format_peer (remote s') = format_peer source)
       else remote s' = remote s \<and> have_remote s' = have_remote s"
      using handle_stun_ok [OF env] by blast
    have c: "rtc_state s' = RTC_STREAMING" if "dtls_state (engine w) = DTLS_SRTP_CONNECTED"
    proof -
      have "rtc_state s = RTC_STREAMING" using w(2) that by (simp add: rtc_inv_def)
      then show ?thesis using handle_stun_streaming [OF s'(1)] by simp
    qed
    have "step_ok (tls env) (w\<lparr>user := s\<rparr>) (w\<lparr>user := s'\<rparr>)"
      using w(2) s' c by (auto simp: step_ok_def rtc_inv_def progress_def)
    moreover have "rtc_session_on_udp env buffer source w = Some (w\<lparr>user := s'\<rparr>)"
      unfolding run using False RTC_PKT_STUN s'(1) by simp
    moreover have "authenticated env ?b s = authenticated env ?b (user w)"
      using frame_fields [OF s(1)] by (simp add: authenticated_def)
    ultimately show ?thesis using step_ok_trans [OF w(1)] s'(6) s(4,5) fp by (intro exI [of _ "w\<lparr>user := s'\<rparr>"]) (auto split: if_splits)
  next
    case RTC_PKT_DTLS
    then have na: "\<not> authenticated env ?b (user w)" using k request_is_stun(2) by (fastforce simp: authenticated_def)
    show ?thesis
    proof (cases "have_remote s")
      case True
      define t where "t = fst (now_ms env s)"
      have t: "now_ms env s = (t, s\<lparr>reads := reads s + 1\<rparr>)" unfolding t_def by (rule now_ms_pair)
      let ?s = "s\<lparr>reads := reads s + 1, last_rx_ms := t\<rparr>"
      have s2: "frame ?s = frame (user w)" "rtc_state ?s = rtc_state (user w)" "trace ?s = trace (user w)" "have_remote ?s"
        using s True by (simp_all add: frame_def)
      have w2: "step_ok (tls env) w (w\<lparr>user := ?s\<rparr>)" "rtc_inv (w\<lparr>user := ?s\<rparr>)"
        using step_ok_user [OF inv s2(1,2)] rtc_inv_user(1) [OF inv s2(1,2)] s2(3) by simp_all
      have "env_ok (tls env)" using env by (simp add: rtc_env_ok_def)
      from rtc.dtls_srtp_on_udp_ok [OF this rtc_inv_client [OF w2(2)], of env "rx_mem_ok env" ?b] s2(4)
      obtain w' where w': "dtls_srtp_on_udp (tls env) (rtc_callbacks env) (rx_mem_ok env) ?b (w\<lparr>user := ?s\<rparr>) = Some w'"
        "client_ok (session_frame ?s) (\<lambda>s. rtc_state s = RTC_STREAMING) w'" "engine_step (tls env) (engine w) (engine w')"
        by auto
      have c: "step_ok (tls env) (w\<lparr>user := ?s\<rparr>) w'" "frame (user w') = frame ?s"
        using step_ok_client [OF w2(2), of w' "tls env"] s2(4) w' by simp_all
      have "rtc_session_on_udp env buffer source w = Some w'"
        unfolding run using False RTC_PKT_DTLS True t w'(1) by simp
      then show ?thesis
        using step_ok_trans [OF w2(1) c(1)] frame_fields(1,2) [OF c(2)] frame_fields(1,2) [OF s2(1)] na by auto
    next
      case False
      then have "rtc_session_on_udp env buffer source w = Some (w\<lparr>user := s\<rparr>)"
        unfolding run using \<open>rtc_state (user w) \<noteq> RTC_CLOSED\<close> RTC_PKT_DTLS by simp
      then show ?thesis using w(1) s(4,5) na by auto
    qed
  next
    case RTC_PKT_RTP
    then have na: "\<not> authenticated env ?b (user w)" using k request_is_stun(2) by (fastforce simp: authenticated_def)
    obtain w' where w': "on_rtp env buffer (w\<lparr>user := s\<rparr>) = Some w'" "step_ok (tls env) (w\<lparr>user := s\<rparr>) w'" "frame (user w') = frame s"
      using on_rtp_ok [OF w(2), of buffer env "tls env"] rtp_datagram [of buffer] k RTC_PKT_RTP len False by (auto simp: datagram_fits_def)
    have "rtc_session_on_udp env buffer source w = Some w'"
      unfolding run using False RTC_PKT_RTP w'(1) by simp
    then show ?thesis using step_ok_trans [OF w(1) w'(2)] frame_fields(1,2) [OF w'(3)] s(4,5) na by auto
  next
    case RTC_PKT_OTHER
    then have na: "\<not> authenticated env ?b (user w)" using k request_is_stun(2) by (fastforce simp: authenticated_def)
    have "rtc_session_on_udp env buffer source w = Some (w\<lparr>user := s\<rparr>)"
      unfolding run using False RTC_PKT_OTHER by simp
    then show ?thesis using w(1) s(4,5) na by auto
  qed
qed

lemma sender_report_total:
  "28 \<le> length out \<Longrightarrow> \<exists>out'. rtcp_build_sender_report out a b c d e = Some (28, out') \<and> length out' = length out"
  using rtcp_sender_report_correct [of out a b c d e] by (auto simp: rtcp_consts sr_bytes_def)

lemma connected_streaming:
  assumes "rtc_inv w" "rtc_state (user w) = RTC_STREAMING"
  shows "dtls_state (engine w) = DTLS_SRTP_CONNECTED" "have_remote (user w)" "srtp_ready (engine w)"
    "srtp_out (engine w) = Some (the (srtp_out (engine w)))"
  using assms by (cases "dtls_state (engine w)"; auto simp: rtc_inv_def link_def dtls_inv_def split: if_splits)+

lemma step_ok_send:
  assumes "rtc_inv w" "have_remote (user w)" "client_ok (session_frame (user w)) (\<lambda>s. rtc_state s = RTC_STREAMING) w'"
    "engine w' = (engine w)\<lparr>srtp_out := srtp_out (engine w')\<rparr>"
  shows "step_ok io w w'" "frame (user w') = frame (user w)"
proof -
  have e: "expected_fingerprint (engine w') = expected_fingerprint (engine w)" "dtls_state (engine w') = dtls_state (engine w)"
    "srtp_ready (engine w') = srtp_ready (engine w)"
    by (subst assms(4), simp)+
  have f: "rtc_ok (user w)" "expected_fingerprint (engine w') = fit 128 (fingerprint (rc_offer (config (user w))))"
    using assms(1) e by (simp_all add: rtc_inv_def)
  note c = client_rtc_inv [OF assms(3) f]
  show "frame (user w') = frame (user w)" by (rule c(2))
  show "step_ok io w w'" using c(1) e frame_fields(2,3) [OF c(2)] by (simp add: step_ok_def progress_def)
qed

lemma send_report_ok:
  assumes "rtc_inv w" "rtc_state (user w) = RTC_STREAMING" "rtc_env_ok env"
  shows "\<exists>w'. send_report env w = Some w' \<and> step_ok io w w' \<and> frame (user w') = frame (user w) \<and> rtc_state (user w') = RTC_STREAMING"
proof -
  let ?s = "(user w)\<lparr>reads := reads (user w) + 1 + 1\<rparr>"
  have fs: "frame ?s = frame (user w)" "rtc_state ?s = rtc_state (user w)" "trace ?s = trace (user w)" by (simp_all add: frame_def)
  have w: "step_ok io w (w\<lparr>user := ?s\<rparr>)" "rtc_inv (w\<lparr>user := ?s\<rparr>)"
    using step_ok_user [OF assms(1) fs(1,2)] rtc_inv_user(1) [OF assms(1) fs(1,2)] fs(3) by simp_all
  obtain sec nsec where mono: "mono_clock env (reads (user w)) = (sec, nsec)" by fastforce
  define wall where "wall = fst (wall_us env ((user w)\<lparr>reads := reads (user w) + 1\<rparr>))"
  have wall: "wall_us env ((user w)\<lparr>reads := reads (user w) + 1\<rparr>) = (wall, ?s)"
    unfolding wall_def by (subst wall_us_pair) simp
  obtain sr where sr: "rtcp_build_sender_report (replicate (RTCP_SR_SIZE + 16) 0) (rtp_h264_ssrc (packetizer ?s)) wall
      (rtp_h264_timestamp_at (packetizer ?s) (sec * 1000000 + nsec div 1000)) (rtp_h264_packet_count (packetizer ?s))
      (rtp_h264_octet_count (packetizer ?s)) = Some (28, sr)" "length sr = 44"
    using sender_report_total [of "replicate (RTCP_SR_SIZE + 16) 0"] by (fastforce simp: rtcp_consts)
  let ?p = "take 28 sr"
  have hr: "have_remote (user (w\<lparr>user := ?s\<rparr>))" using connected_streaming(2) [OF assms(1,2)] by simp
  have fits: "length q \<le> length sr" if "snd (srtp_protect_rtcp env c ?p) = Some q" for c q
  proof -
    have "length q \<le> length ?p + 14" using assms(3) that unfolding rtc_env_ok_def by blast
    then show ?thesis using sr(2) by simp
  qed
  from rtc.dtls_srtp_send_ok [OF rtc_inv_client [OF w(2) hr], where protect = "srtp_protect_rtcp env" and env = env and packet = ?p and cap = "length sr"] fits
  obtain rc q v where v: "dtls_srtp_send (srtp_protect_rtcp env) (rtc_callbacks env) (length sr) ?p (w\<lparr>user := ?s\<rparr>) = Some (rc, q, v)"
    "client_ok (session_frame ?s) (\<lambda>s. rtc_state s = RTC_STREAMING) v" "engine v = (engine (w\<lparr>user := ?s\<rparr>))\<lparr>srtp_out := srtp_out (engine v)\<rparr>"
    by auto
  have vo: "step_ok io (w\<lparr>user := ?s\<rparr>) v" "frame (user v) = frame ?s"
    using step_ok_send(1) [OF w(2) hr, of v io] step_ok_send(2) [OF w(2) hr, of v] v(2,3) by simp_all
  let ?v = "if rc = 0 then v\<lparr>user := upd_stats (\<lambda>st. st\<lparr>rtcp_sent := rtcp_sent st + 1\<rparr>) (user v)\<rparr> else v"
  have fv: "frame (upd_stats (\<lambda>st. st\<lparr>rtcp_sent := rtcp_sent st + 1\<rparr>) (user v)) = frame (user v)"
    "rtc_state (upd_stats (\<lambda>st. st\<lparr>rtcp_sent := rtcp_sent st + 1\<rparr>) (user v)) = rtc_state (user v)"
    "trace (upd_stats (\<lambda>st. st\<lparr>rtcp_sent := rtcp_sent st + 1\<rparr>) (user v)) = trace (user v)"
    by (simp_all add: upd_stats_def frame_def)
  have "rtc_inv v" using vo(1) by (simp add: step_ok_def)
  then have "step_ok io v ?v" using step_ok_user [OF _ fv(1,2)] fv(3) step_ok_refl by auto
  moreover have "rtc_state (user v) = RTC_STREAMING"
  proof -
    have "dtls_state (engine v) = dtls_state (engine w)" by (subst v(3)) simp
    then show ?thesis using connected_streaming(1) [OF assms(1,2)] vo(1) by (simp add: step_ok_def rtc_inv_def)
  qed
  moreover have "send_report env w = Some (if frames_sent (stats (user w)) > 0 then ?v else w\<lparr>user := ?s\<rparr>)"
    unfolding send_report_def Let_def mono prod.case wall sr(1) Option.bind_lunit
    using sr(2) v(1) by (simp add: dtls_srtp_send_rtcp_def rtcp_consts)
  ultimately show ?thesis
    using w(1) fs(1) step_ok_trans [OF w(1) vo(1)] step_ok_trans vo(2) fv(1,2) assms(2) by (cases "frames_sent (stats (user w)) > 0") auto
qed

lemma tick_engine:
  assumes "rtc_env_ok env" "rtc_inv w"
  shows "\<exists>v. dtls_srtp_tick (tls env) (rtc_callbacks env) w = Some v \<and> step_ok (tls env) w v \<and> frame (user v) = frame (user w)"
proof (cases "dtls_state (engine w) = DTLS_SRTP_HANDSHAKING")
  case True
  then have hr: "have_remote (user w)" using assms(2) by (simp add: rtc_inv_def link_def)
  have "env_ok (tls env)" using assms(1) by (simp add: rtc_env_ok_def)
  from rtc.dtls_srtp_tick_ok [OF this rtc_inv_client [OF assms(2) hr], of env] step_ok_client [OF assms(2) hr]
  show ?thesis by blast
next
  case False
  then show ?thesis using step_ok_refl [OF assms(2)] by (simp add: dtls_srtp_tick_def)
qed

lemma rtc_session_tick_ok:
  assumes "rtc_env_ok env" "rtc_inv w"
  shows "\<exists>w'. rtc_session_tick env now w = Some w' \<and> step_ok (tls env) w w' \<and> frame (user w') = frame (user w)"
proof (cases "rtc_state (user w) = RTC_CLOSED \<or> elapsed now (last_rx_ms (user w)) > SESSION_IDLE_TIMEOUT_MS \<or>
    rtc_state (user w) = RTC_ICE \<and> elapsed now (created_ms (user w)) > SESSION_DTLS_WATCHDOG_MS")
  case True
  then show ?thesis using rtc_close_inv [OF assms(2), of env "tls env"] step_ok_refl [OF assms(2)]
    by (auto simp: rtc_session_tick_def step_ok_def)
next
  case False
  obtain v where v: "dtls_srtp_tick (tls env) (rtc_callbacks env) w = Some v" "step_ok (tls env) w v" "frame (user v) = frame (user w)"
    using tick_engine [OF assms] by blast
  have tick: "rtc_session_tick env now w = (if rtc_state (user v) = RTC_STREAMING \<and> now \<ge> next_sr_ms (user v) then do {
      w \<leftarrow> send_report env v; Some (w\<lparr>user := (user w)\<lparr>next_sr_ms := now + RTCP_SR_INTERVAL_MS\<rparr>\<rparr>) } else Some v)"
    using False v(1) by (auto simp: rtc_session_tick_def)
  show ?thesis
  proof (cases "rtc_state (user v) = RTC_STREAMING \<and> now \<ge> next_sr_ms (user v)")
    case True
    have "rtc_inv v" using v(2) by (simp add: step_ok_def)
    then obtain x where x: "send_report env v = Some x" "step_ok (tls env) v x" "frame (user x) = frame (user v)"
      using send_report_ok [OF _ _ assms(1)] True by blast
    let ?u = "(user x)\<lparr>next_sr_ms := now + RTCP_SR_INTERVAL_MS\<rparr>"
    have u: "frame ?u = frame (user x)" "rtc_state ?u = rtc_state (user x)" "trace ?u = trace (user x)" by (simp_all add: frame_def)
    have "step_ok (tls env) x (x\<lparr>user := ?u\<rparr>)" using x(2) step_ok_user [OF _ u(1,2)] u(3) by (simp add: step_ok_def)
    then have "step_ok (tls env) w (x\<lparr>user := ?u\<rparr>)" using step_ok_trans v(2) x(2) by blast
    with tick True x u(1) v(3) show ?thesis by simp
  next
    case False
    with tick v show ?thesis by auto
  qed
qed

section \<open>Media\<close>

text \<open>\<open>d\<close> is what a NACK for \<open>seq\<close> is answered with.\<close>

definition cached :: "RtcSession \<Rightarrow> u16 \<Rightarrow> bytes \<Rightarrow> bool" where
  "cached s seq d \<longleftrightarrow> retx_seq s ! retx_slot seq = seq \<and> retx_len s ! retx_slot seq \<noteq> 0 \<and>
     take (unat (retx_len s ! retx_slot seq)) (retx_data s ! retx_slot seq) = d"

definition cache_same :: "RtcSession \<Rightarrow> RtcSession \<Rightarrow> nat \<Rightarrow> bool" where
  "cache_same s t i \<longleftrightarrow> retx_seq t ! i = retx_seq s ! i \<and> retx_len t ! i = retx_len s ! i \<and> retx_data t ! i = retx_data s ! i"



lemma sink_spec:
  assumes env: "rtc_env_ok env" and inv: "rtc_inv w" "rtc_state (user w) = RTC_STREAMING"
    and len: "12 \<le> length (pkt p)" "length (pkt p) \<le> 1200"
  defines "r \<equiv> snd (srtp_protect env (the (srtp_out (engine w))) (pkt p))"
  shows "\<exists>w'. rtp_packet_sink env p w = Some w' \<and> step_ok io w w' \<and> rtc_state (user w') = RTC_STREAMING \<and>
     remote (user w') = remote (user w) \<and> packetizer (user w') = packetizer (user w) \<and>
     waiting_keyframe (stats (user w')) = waiting_keyframe (stats (user w)) \<and>
     (case r of
        None \<Rightarrow> user w' = user w
      | Some q \<Rightarrow> trace (user w') = trace (user w) @ [SentTo q (remote (user w))] \<and> cached (user w') (seq_no p) q \<and>
          (\<forall>i < 512. i \<noteq> retx_slot (seq_no p) \<longrightarrow> cache_same (user w) (user w') i))"
proof -
  note ready = connected_streaming [OF inv]
  obtain ctx where ctx: "srtp_out (engine w) = Some ctx" using ready(4) by blast
  obtain c where pr: "srtp_protect env ctx (pkt p) = (c, r)"
    unfolding r_def ctx by (metis prod.collapse option.sel)
  let ?w = "w\<lparr>engine := (engine w)\<lparr>srtp_out := Some c\<rparr>\<rparr>" and ?s = "user w" and ?i = "retx_slot (seq_no p)"
  have w: "step_ok io w ?w" "rtc_inv ?w" using rtc_inv_keys [OF inv(1), where c = c] by (simp_all add: step_ok_def)
  note run = rtp_packet_sink_def dtls_srtp_send_rtp_def dtls_srtp_send_def
  show ?thesis
  proof (cases r)
    case None
    then have "rtp_packet_sink env p w = Some ?w"
      using len ready(3) ctx pr by (simp add: run rtp_consts)
    then show ?thesis using w None inv(2) by (intro exI [of _ ?w]) simp
  next
    case (Some q)
    have ok: "rtc_ok ?s" using inv(1) by (simp add: rtc_inv_def)
    have fd: "\<not> udp_fd ?s < 0" "length (retx_data ?s) = 512" "length (retx_len ?s) = 512" "length (retx_seq ?s) = 512"
      using ok by (auto simp: rtc_ok_def)
    have i: "?i < 512" by (rule retx_slot_bound)
    have row: "length (retx_data ?s ! ?i) = 1264" using ok i by (simp add: rtc_ok_def list_all_length)
    have "snd (srtp_protect env ctx (pkt p)) = Some q" using pr Some by simp
    then have "length (pkt p) \<le> length q" "length q \<le> length (pkt p) + 64"
      using env by (auto simp: rtc_env_ok_def)
    then have q: "0 < length q" "length q \<le> 1264" using len by linarith+
    have un: "unat (of_nat (length q) :: u16) = length q" using q(2) by (simp add: unat_of_nat take_bit_nat_eq_self)
    obtain n k where snd: "snd (session_sendto env q (remote ?s) ?s) = ?s\<lparr>stats := (stats ?s)\<lparr>send_errors := n\<rparr>,
        send_errors_logged := k, sends := sends ?s + 1, trace := trace ?s @ [SentTo q (remote ?s)]\<rparr>" (is "_ = ?t")
      using session_sendto_eq by blast
    define u where "u = upd_stats (\<lambda>st. st\<lparr>packets_sent := packets_sent st + 1, bytes_sent := bytes_sent st + of_nat (length (pkt p))\<rparr>)
      (?t\<lparr>retx_data := (retx_data ?s)[?i := q @ drop (length q) (retx_data ?s ! ?i)],
          retx_len := (retx_len ?s)[?i := of_nat (length q)], retx_seq := (retx_seq ?s)[?i := seq_no p]\<rparr>)"
    have sink: "rtp_packet_sink env p w = Some (?w\<lparr>user := u\<rparr>)"
      using len ready(2,3) ctx pr Some fd i row q(2)
      by (simp add: run rtp_consts rtc_callbacks_def dtls_send_udp_def snd u_def Let_def)
    have u: "rtc_state u = RTC_STREAMING" "config u = config ?s" "have_remote u = have_remote ?s" "remote u = remote ?s"
      "trace u = trace ?s @ [SentTo q (remote ?s)]" "packetizer u = packetizer ?s"
      "waiting_keyframe (stats u) = waiting_keyframe (stats ?s)"
      using inv(2) by (simp_all add: u_def upd_stats_def)
    have "rtc_ok u"
      using ok q(2) row un by (simp add: rtc_ok_def u_def upd_stats_def list_all_update)
    then have "rtc_inv (?w\<lparr>user := u\<rparr>)"
      using w(2) u(1-3,5) inv(2) by (auto simp: rtc_inv_def link_def split: DtlsSrtpState.split_asm)
    then have "step_ok io ?w (?w\<lparr>user := u\<rparr>)" using u(2,3) by (simp add: step_ok_def progress_def)
    moreover have "cached u (seq_no p) q"
    proof -
      have "(of_nat (length q) :: u16) \<noteq> 0"
      proof
        assume "(of_nat (length q) :: u16) = 0"
        then have "unat (of_nat (length q) :: u16) = 0" by (simp only: unat_0)
        with un q(1) show False by simp
      qed
      then show ?thesis using fd i un by (simp add: cached_def u_def upd_stats_def)
    qed
    moreover have "\<forall>j < 512. j \<noteq> ?i \<longrightarrow> cache_same ?s u j"
      by (simp add: cache_same_def u_def upd_stats_def)
    ultimately show ?thesis using sink u step_ok_trans [OF w(1)] Some by (intro exI [of _ "?w\<lparr>user := u\<rparr>"]) simp
  qed
qed

lemma packetize_total:
  assumes "length stack = 1200"
  shows "\<exists>n p' ss. rtp_h264_packetize stack (Some p) (Some au) pts True = Some (n, Some p', ss) \<and>
     (\<forall>x \<in> set ss. 12 \<le> length (pkt x) \<and> length (pkt x) \<le> 1200) \<and>
     (\<forall>i < length ss. seq_no (ss ! i) = sequence p + of_nat (Suc i)) \<and> (au \<noteq> [] \<longrightarrow> n = int (length ss)) \<and> (au = [] \<longrightarrow> ss = [])"
proof (cases "au = []")
  case True
  then show ?thesis by (simp add: rtp_h264_packetize_def)
next
  case False
  let ?p = "with_base p pts" and ?xs = "plan (annexb_nals au)"
  let ?ts = "rtp_clock (base_pts_us ?p) pts"
  obtain p' ss where e: "emit ?ts ?xs ?p = (p', ss)" by (cases "emit ?ts ?xs ?p")
  note n = emit_nth [OF e]
  have "12 \<le> length (pkt x) \<and> length (pkt x) \<le> 1200" if x: "x \<in> set ss" for x
  proof -
    obtain i where i: "i < length ss" "x = ss ! i" using x by (metis in_set_conv_nth)
    have "fst (?xs ! i) \<in> set (map fst ?xs)" using i n by simp
    then have "length (fst (?xs ! i)) \<le> 1188" unfolding map_fst_plan using payloads_length by auto
    then show ?thesis using i n by simp
  qed
  moreover have "sequence ?p = sequence p" by (simp add: with_base_def)
  ultimately show ?thesis using packetize_emit [OF assms False, of p pts] e n False by (simp add: Let_def)
qed

text \<open>A run of the sink over all packets of an access unit.\<close>

lemma sink_all_ok:
  assumes "rtc_env_ok env" "rtc_inv w" "rtc_state (user w) = RTC_STREAMING" "\<forall>x \<in> set ps. 12 \<le> length (pkt x) \<and> length (pkt x) \<le> 1200"
  shows "\<exists>w'. sink_all env ps w = Some w' \<and> step_ok io w w' \<and> rtc_state (user w') = RTC_STREAMING \<and>
     remote (user w') = remote (user w) \<and> packetizer (user w') = packetizer (user w) \<and>
     sent_to (remote (user w)) (trace (user w)) (trace (user w')) \<and>
     waiting_keyframe (stats (user w')) = waiting_keyframe (stats (user w))"
  using assms(2-)
proof (induction ps arbitrary: w)
  case Nil
  then show ?case by (simp add: step_ok_refl)
next
  case (Cons p ps)
  obtain v where v: "rtp_packet_sink env p w = Some v" "step_ok io w v" "rtc_state (user v) = RTC_STREAMING"
    "remote (user v) = remote (user w)" "packetizer (user v) = packetizer (user w)"
    "waiting_keyframe (stats (user v)) = waiting_keyframe (stats (user w))"
    "case snd (srtp_protect env (the (srtp_out (engine w))) (pkt p)) of None \<Rightarrow> user v = user w
     | Some q \<Rightarrow> trace (user v) = trace (user w) @ [SentTo q (remote (user w))] \<and> cached (user v) (seq_no p) q \<and>
        (\<forall>i < 512. i \<noteq> retx_slot (seq_no p) \<longrightarrow> cache_same (user w) (user v) i)"
    using sink_spec [OF assms(1) Cons.prems(1,2), of p io] Cons.prems(3) by auto
  have s: "sent_to (remote (user w)) (trace (user w)) (trace (user v))"
  proof (cases "snd (srtp_protect env (the (srtp_out (engine w))) (pkt p))")
    case (Some q)
    then have "trace (user v) = trace (user w) @ map (\<lambda>d. SentTo d (remote (user w))) [q]" using v(7) by simp
    then show ?thesis unfolding sent_to_def by blast
  qed (use v(7) in simp)
  have "rtc_inv v" using v(2) by (simp add: step_ok_def)
  from Cons.IH [OF this v(3)] Cons.prems(3) obtain w' where w': "sink_all env ps v = Some w'" "step_ok io v w'"
    "rtc_state (user w') = RTC_STREAMING" "remote (user w') = remote (user v)" "packetizer (user w') = packetizer (user v)"
    "sent_to (remote (user v)) (trace (user v)) (trace (user w'))" "waiting_keyframe (stats (user w')) = waiting_keyframe (stats (user v))"
    by auto
  then show ?case using v(1,4,5,6) step_ok_trans [OF v(2) w'(2)] sent_to_trans [OF s] by auto
qed


text \<open>What \<open>send_packets\<close> notes after the last packet.\<close>

lemma send_packets_run:
  assumes "rtp_h264_packetize (rtp_stack env) (packetizer (user w)) (Some au) pts True = Some (n, p, ps)" "sink_all env ps w = Some v"
  shows "\<exists>s. send_packets env au pts idr w = Some (n, v\<lparr>user := s\<rparr>) \<and> rtc_state s = rtc_state (user v) \<and> trace s = trace (user v) \<and>
     frame (s\<lparr>packetizer := packetizer (user v)\<rparr>) = frame (user v) \<and> packetizer s = p \<and> remote s = remote (user v) \<and>
     waiting_keyframe (stats s) = waiting_keyframe (stats (user v))"
proof -
  let ?s = "(user v)\<lparr>packetizer := p\<rparr>"
  define a where "a = (if n > 0 then (let s = upd_stats (\<lambda>st. st\<lparr>frames_sent := frames_sent st + 1\<rparr>) ?s;
       (now, s) = now_ms env s
     in upd_stats (\<lambda>st. st\<lparr>last_media_ms := now, keyframes_sent := (if idr then keyframes_sent st + 1 else keyframes_sent st)\<rparr>) s) else ?s)"
  have a: "frame a = frame ?s" "rtc_state a = rtc_state ?s" "trace a = trace ?s" "waiting_keyframe (stats a) = waiting_keyframe (stats ?s)"
    unfolding a_def Let_def by (subst now_ms_pair, simp add: upd_stats_def frame_def)+
  let ?b = "if \<not> streaming_announced a \<and> n > 0 then a\<lparr>streaming_announced := True\<rparr> else a"
  have b: "frame ?b = frame ?s" "rtc_state ?b = rtc_state ?s" "trace ?b = trace ?s" "waiting_keyframe (stats ?b) = waiting_keyframe (stats ?s)"
    using a by (simp_all add: frame_def)
  have "send_packets env au pts idr w = Some (n, v\<lparr>user := ?b\<rparr>)"
    unfolding send_packets_def using assms by (simp add: a_def Let_def)
  then show ?thesis using b by (intro exI [of _ ?b]) (auto simp: frame_def)
qed

lemma send_packets_ok:
  assumes "rtc_env_ok env" "rtc_inv w" "rtc_state (user w) = RTC_STREAMING"
  shows "\<exists>n w'. send_packets env au pts idr w = Some (n, w') \<and> step_ok io w w' \<and> remote (user w') = remote (user w)"
proof -
  obtain p where p: "packetizer (user w) = Some p" using assms(2) by (auto simp: rtc_inv_def rtc_ok_def)
  obtain n p' ps where ps: "rtp_h264_packetize (rtp_stack env) (packetizer (user w)) (Some au) pts True = Some (n, Some p', ps)"
    "\<forall>x \<in> set ps. 12 \<le> length (pkt x) \<and> length (pkt x) \<le> 1200"
    using packetize_total [of "rtp_stack env" p au pts] assms(1) p by (auto simp: rtc_env_ok_def rtp_consts)
  obtain v where v: "sink_all env ps w = Some v" "step_ok io w v" "remote (user v) = remote (user w)"
    using sink_all_ok [OF assms ps(2), of io] by blast
  obtain s where s: "send_packets env au pts idr w = Some (n, v\<lparr>user := s\<rparr>)" "rtc_state s = rtc_state (user v)"
    "trace s = trace (user v)" "frame (s\<lparr>packetizer := packetizer (user v)\<rparr>) = frame (user v)" "packetizer s = Some p'"
    "remote s = remote (user v)"
    using send_packets_run [OF ps(1) v(1)] by blast
  have f: "udp_fd s = udp_fd (user v)" "retx_data s = retx_data (user v)" "retx_len s = retx_len (user v)"
    "retx_seq s = retx_seq (user v)" "config s = config (user v)" "have_remote s = have_remote (user v)"
    using s(4) by (simp_all add: frame_def)
  have "rtc_ok s" using v(2) f s(5) by (simp add: step_ok_def rtc_inv_def rtc_ok_def)
  then have "rtc_inv (v\<lparr>user := s\<rparr>)"
    using v(2) s(2,3) f by (auto simp: step_ok_def rtc_inv_def link_def split: DtlsSrtpState.split_asm)
  then have "step_ok io v (v\<lparr>user := s\<rparr>)" using f by (simp add: step_ok_def progress_def)
  then show ?thesis using s(1,6) v(3) step_ok_trans [OF v(2)] by auto
qed

lemma send_access_unit_ok:
  assumes "rtc_env_ok env" "rtc_inv w"
  shows "\<exists>n w'. rtc_session_send_access_unit env au pts idr w = Some (n, w') \<and> step_ok io w w' \<and> remote (user w') = remote (user w)"
proof -
  let ?s = "upd_stats (\<lambda>st. st\<lparr>waiting_keyframe := False\<rparr>) ((user w)\<lparr>idr_requested := False\<rparr>)"
  let ?h = "rtc_session_request_idr env (upd_stats (\<lambda>st. st\<lparr>frames_held := frames_held st + 1\<rparr>) (user w))"
  consider "rtc_state (user w) \<noteq> RTC_STREAMING" | "rtc_state (user w) = RTC_STREAMING" "idr"
    | "rtc_state (user w) = RTC_STREAMING" "\<not> idr" "waiting_keyframe (stats (user w))"
    | "rtc_state (user w) = RTC_STREAMING" "\<not> idr" "\<not> waiting_keyframe (stats (user w))" by blast
  then show ?thesis
  proof cases
    case 1
    then show ?thesis using step_ok_refl [OF assms(2)] by (simp add: rtc_session_send_access_unit_def Let_def)
  next
    case 2
    have s: "frame ?s = frame (user w)" "rtc_state ?s = rtc_state (user w)" "trace ?s = trace (user w)" "remote ?s = remote (user w)"
      by (simp_all add: upd_stats_def frame_def)
    have w: "step_ok io w (w\<lparr>user := ?s\<rparr>)" "rtc_inv (w\<lparr>user := ?s\<rparr>)"
      using step_ok_user [OF assms(2) s(1,2)] rtc_inv_user(1) [OF assms(2) s(1,2)] s(3) by simp_all
    then show ?thesis
      using send_packets_ok [OF assms(1) w(2), of au pts idr io] 2 s(2,4) step_ok_trans [OF w(1)]
      by (auto simp: rtc_session_send_access_unit_def Let_def)
  next
    case 3
    have h: "frame ?h = frame (user w)" "rtc_state ?h = rtc_state (user w)" "closes (trace ?h) = closes (trace (user w))"
      "remote ?h = remote (user w)"
      by (simp_all add: upd_stats_def) (simp add: frame_def)
    then show ?thesis using 3 step_ok_user [OF assms(2) h(1-3)] by (simp add: rtc_session_send_access_unit_def Let_def)
  next
    case 4
    then show ?thesis using send_packets_ok [OF assms 4(1), of au pts idr io] by (simp add: rtc_session_send_access_unit_def Let_def)
  qed
qed

section \<open>Runs of a session\<close>

datatype rtc_op = Datagram bytes Sockaddr | Tick u64 | Media bytes u64 bool | AskIdr | Close

text \<open>The one access outside an object that an operation can make: byte 1 of a datagram of one byte.\<close>

definition overread :: "rtc_op \<Rightarrow> 's rtc_world \<Rightarrow> bool" where
  "overread op w \<longleftrightarrow> rtc_state (user w) \<noteq> RTC_CLOSED \<and> (case op of Datagram buffer source \<Rightarrow> \<not> datagram_fits buffer | _ \<Rightarrow> False)"

fun rtc_apply :: "'s rtc_env \<Rightarrow> rtc_op \<Rightarrow> 's rtc_world \<Rightarrow> 's rtc_world option" where
  "rtc_apply env (Datagram buffer source) w = rtc_session_on_udp env buffer source w"
| "rtc_apply env (Tick now) w = rtc_session_tick env now w"
| "rtc_apply env (Media au pts idr) w = map_option snd (rtc_session_send_access_unit env au pts idr w)"
| "rtc_apply env AskIdr w = Some (w\<lparr>user := rtc_session_request_idr env (user w)\<rparr>)"
| "rtc_apply env Close w = rtc_session_close env w"

lemma rtc_apply_ok:
  assumes "rtc_env_ok env" "\<not> overread op w" "rtc_inv w"
  shows "\<exists>w'. rtc_apply env op w = Some w' \<and> step_ok (tls env) w w'"
proof (cases op)
  case (Datagram buffer source)
  then show ?thesis using rtc_session_on_udp_ok [OF assms(1,3), of buffer source] assms(2) by (auto simp: overread_def)
next
  case (Tick now)
  then show ?thesis using rtc_session_tick_ok [OF assms(1,3), of now] by auto
next
  case (Media au pts idr)
  then show ?thesis using send_access_unit_ok [OF assms(1,3), of au pts idr "tls env"] by auto
next
  case AskIdr
  then show ?thesis using step_ok_user [OF assms(3)] by simp
next
  case Close
  then show ?thesis using rtc_close_inv [OF assms(3), of env "tls env"] by (auto simp: step_ok_def)
qed

text \<open>\<open>malloc\<close> returns a cache of the size that was asked for.\<close>

definition create_ok :: "rtc_create_env \<Rightarrow> bool" where
  "create_ok ce \<longleftrightarrow> (case ce_retx ce of None \<Rightarrow> True | Some rows \<Rightarrow> length rows = 512 \<and> list_all (\<lambda>r. length r = 1264) rows)"

lemma rtc_session_create_inv:
  assumes "rtc_session_create ce cfg cap ans gs = Some (rc, Some w, a)" "create_ok ce"
  shows "rtc_inv w" "trace (user w) = []" "config (user w) = cfg"
proof -
  obtain rows where rows: "ce_retx ce = Some rows" using assms(1) by (auto simp: rtc_session_create_def split: if_splits option.splits)
  then have r: "length rows = 512" "list_all (\<lambda>r. length r = 1264) rows" using assms(2) by (simp_all add: create_ok_def)
  have p: "rtp_h264_reset (Some x) m y \<noteq> None" for x m y by (simp add: rtp_h264_reset_def)
  obtain s e where w: "w = \<lparr>engine = e, g_stats = gs, user = s\<rparr>"
    "e = fresh_engine\<lparr>expected_fingerprint := fit 128 (fingerprint (rc_offer cfg))\<rparr>" "config s = cfg" "rtc_state s = RTC_NEW"
    "\<not> have_remote s" "trace s = []" "retx_data s = rows" "retx_len s = replicate 512 0" "retx_seq s = replicate 512 0"
    "packetizer s \<noteq> None" "0 \<le> udp_fd s"
    using assms(1) rows p
    by (auto simp: rtc_session_create_def dtls_srtp_session_create_def dtls_srtp_set_expected_fingerprint_def RETX_CACHE_SIZE_def Let_def
        split: if_splits option.splits prod.splits bind_splits)
  have "dtls_state e = DTLS_SRTP_INIT" "expected_fingerprint e = fit 128 (fingerprint (rc_offer cfg))"
    by (simp_all add: w(2)) (simp add: fresh_engine_def)
  then show "rtc_inv w" "trace (user w) = []" "config (user w) = cfg"
    using w dtls_inv_fresh r by (auto simp: rtc_inv_def link_def rtc_ok_def list_all_length)
qed

lemma overread_fault:
  assumes "overread op w"
  shows "rtc_apply env op w = None"
proof -
  obtain b source where op: "op = Datagram [b] source" "128 \<le> b" "rtc_state (user w) \<noteq> RTC_CLOSED"
    using assms by (auto simp: overread_def datagram_fits_def split: rtc_op.splits)
  have "\<not> b \<le> 3" "\<not> b \<le> 63" using op(2) by (simp_all add: word_le_nat_alt)
  then have "rtc_classify_packet [b] = Some RTC_PKT_RTP" using op(2) by (simp add: rtc_classify_packet_def)
  then show ?thesis using op(1,3) by (simp add: rtc_session_on_udp_def on_rtp_def rd_def Let_def split: prod.split)
qed

inductive rtc_reach :: "RtcSessionConfig \<Rightarrow> 's rtc_world \<Rightarrow> bool" for cfg where
  create: "\<lbrakk>create_ok ce; rtc_session_create ce cfg cap ans gs = Some (rc, Some w, a)\<rbrakk> \<Longrightarrow> rtc_reach cfg w"
| step: "\<lbrakk>rtc_reach cfg w; rtc_env_ok env; rtc_apply env op w = Some w'\<rbrakk> \<Longrightarrow> rtc_reach cfg w'"

lemma rtc_reach_inv: "rtc_reach cfg w \<Longrightarrow> rtc_inv w \<and> config (user w) = cfg"
proof (induction rule: rtc_reach.induct)
  case (create ce cap ans gs rc w a)
  then show ?case using rtc_session_create_inv(1,3) [OF create(2,1)] by simp
next
  case (step w env op w')
  then have "\<not> overread op w" using overread_fault [of op w env] by auto
  then show ?case using rtc_apply_ok [of env op w] step by (auto simp: step_ok_def progress_def)
qed

section \<open>Properties\<close>


text \<open>
  C2: In every state that a created session can reach: it streams exactly when the engine is connected,
  and then it has SRTP keys in both directions and a peer address; it is closed exactly when the
  engine is closed, and no engine stays in the failed state; the close hook of the server has run
  exactly once if the session is closed and not at all before, although the engine's callback
  re-enters the close operation.
\<close>

theorem rtc_reachable_invariant:
  assumes "rtc_reach cfg w"
  shows "(rtc_state (user w) = RTC_STREAMING \<longleftrightarrow> dtls_state (engine w) = DTLS_SRTP_CONNECTED) \<and>
     (rtc_state (user w) = RTC_STREAMING \<longrightarrow> srtp_ready (engine w) \<and> srtp_out (engine w) \<noteq> None \<and>
        srtp_in (engine w) \<noteq> None \<and> have_remote (user w)) \<and>
     (rtc_state (user w) = RTC_CLOSED \<longleftrightarrow> dtls_state (engine w) = DTLS_SRTP_CLOSED) \<and>
     dtls_state (engine w) \<noteq> DTLS_SRTP_FAILED \<and>
     length (filter (\<lambda>e. e = SessionClosed) (trace (user w))) =
       (if rtc_state (user w) = RTC_CLOSED \<and> rc_on_closed cfg then 1 else 0)"
proof -
  have inv: "rtc_inv w" and cfg: "config (user w) = cfg" using rtc_reach_inv [OF assms] by auto
  show ?thesis
    using inv by (cases "dtls_state (engine w)") (auto simp: rtc_inv_def link_def dtls_inv_def closes_def cfg split: if_splits)
qed

text \<open>
  C3: The destination of DTLS and media only ever changes to the source of a STUN binding request
  whose MESSAGE-INTEGRITY was made with the session's own password and whose USERNAME carries its
  ufrag; every other datagram leaves the peer as it is. And every such request is followed: after
  it the peer is known and has the address and port of its source.
\<close>

theorem rtc_remote_authenticated:
  assumes "rtc_env_ok env" "rtc_inv w" "rtc_state (user w) \<noteq> RTC_CLOSED"
    and "rtc_session_on_udp env buffer source w = Some w'"
  defines "check \<equiv> (\<exists>tid. stun_is_binding_request buffer = Some (Some tid)) \<and>
     stun_verify_mi (hmac env) (stack_scratch env) (heap env) (Some buffer) (Some (str_bytes (local_pwd (user w)))) = Some True \<and>
     stun_username_matches buffer (Some (str_bytes (local_ufrag (user w)))) = Some True"
  shows "(remote (user w') \<noteq> remote (user w) \<or> have_remote (user w') \<noteq> have_remote (user w) \<longrightarrow>
       check \<and> remote (user w') \<in> {remote (user w), source}) \<and>
     (check \<longrightarrow> have_remote (user w') \<and> format_peer (remote (user w')) = format_peer source)"
proof -
  have "\<not> overread (Datagram buffer source) w" using overread_fault [of "Datagram buffer source" w env] assms(4) by auto
  then have "rtc_state (user w) \<noteq> RTC_CLOSED \<longrightarrow> datagram_fits buffer" by (auto simp: overread_def)
  from rtc_session_on_udp_ok [OF assms(1,2) this, of source] show ?thesis
    using assms(3,4) by (auto simp: authenticated_def check_def)
qed

text \<open>
  C4: Media starts only with the peer that signalling announced: the operation that turns a session
  to STREAMING saw a finished handshake with an SRTP profile and a certificate whose SHA-256
  digest is the fingerprint of the offer. (An offer whose fingerprint value is empty announces no
  certificate; then none is checked.)
\<close>

theorem rtc_streaming_verified:
  assumes "rtc_env_ok env" "rtc_inv w" "rtc_apply env op w = Some w'"
    and "rtc_state (user w) \<noteq> RTC_STREAMING" "rtc_state (user w') = RTC_STREAMING"
  shows "init_finished (tls env) \<and> selected_profile (tls env) \<and>
     (let fp = fit 128 (fingerprint (rc_offer (config (user w)))) in
      fp = [] \<or> (\<exists>md. peer_digest (tls env) = Some (Some md) \<and> fingerprint_hex_equal fp md = Some True))"
proof -
  have "\<not> overread op w" using overread_fault [of op w env] assms(3) by auto
  then have s: "rtc_inv w'" "progress (tls env) w w'" using rtc_apply_ok [OF assms(1) _ assms(2), of op] assms(3) by (auto simp: step_ok_def)
  have ready: "srtp_ready (engine w')" using connected_streaming(3) [OF s(1) assms(5)] .
  have "rtc_rank (rtc_state (user w)) \<le> 3" using rtc_rank_mono [OF assms(2) s] assms(5) by simp
  then have "dtls_state (engine w) = DTLS_SRTP_INIT \<or> dtls_state (engine w) = DTLS_SRTP_HANDSHAKING"
    using assms(2,4) by (cases "dtls_state (engine w)") (auto simp: rtc_inv_def link_def)
  then have "\<not> srtp_ready (engine w)" using assms(2) by (auto simp: rtc_inv_def dtls_inv_def)
  then have "init_finished (tls env)" "selected_profile (tls env)" "peer_verified (tls env) (expected_fingerprint (engine w))"
    using s(2) ready by (auto simp: progress_def)
  then show ?thesis using assms(2) by (auto simp: rtc_inv_def peer_verified_def Let_def split: option.splits)
qed




text \<open>A keyframe call ends the wait, whatever becomes of its packets.\<close>

lemma keyframe_call:
  assumes "rtc_state (user w) = RTC_STREAMING" "rtc_env_ok env" "rtc_inv w"
  shows "\<exists>n w'. rtc_session_send_access_unit env au pts True w = Some (n, w') \<and> \<not> waiting_keyframe (stats (user w')) \<and>
     (au = [] \<longrightarrow> trace (user w') = trace (user w))"
proof -
  let ?s = "upd_stats (\<lambda>st. st\<lparr>waiting_keyframe := False\<rparr>) ((user w)\<lparr>idr_requested := False\<rparr>)"
  let ?w = "w\<lparr>user := ?s\<rparr>"
  have fs: "frame ?s = frame (user w)" "rtc_state ?s = rtc_state (user w)" "trace ?s = trace (user w)" "packetizer ?s = packetizer (user w)"
    by (simp_all add: upd_stats_def frame_def)
  have wi: "rtc_inv ?w" using rtc_inv_user(1) [OF assms(3) fs(1,2)] fs(3) by simp
  obtain p where p: "packetizer (user ?w) = Some p" using wi by (auto simp: rtc_inv_def rtc_ok_def)
  obtain m p' ps where ps: "rtp_h264_packetize (rtp_stack env) (packetizer (user ?w)) (Some au) pts True = Some (m, Some p', ps)"
    "\<forall>x \<in> set ps. 12 \<le> length (pkt x) \<and> length (pkt x) \<le> 1200" "au = [] \<longrightarrow> ps = []"
    using packetize_total [of "rtp_stack env" p au pts] assms(2) p by (auto simp: rtc_env_ok_def rtp_consts)
  have st: "rtc_state (user ?w) = RTC_STREAMING" using fs(2) assms(1) by simp
  obtain v where v: "sink_all env ps ?w = Some v" "waiting_keyframe (stats (user v)) = waiting_keyframe (stats (user ?w))"
    using sink_all_ok [OF assms(2) wi st ps(2)] by blast
  obtain s where s: "send_packets env au pts True ?w = Some (m, v\<lparr>user := s\<rparr>)"
    "waiting_keyframe (stats s) = waiting_keyframe (stats (user v))" "trace s = trace (user v)"
    using send_packets_run [OF ps(1) v(1), of True] by blast
  have "trace (user v) = trace (user w)" if "au = []" using that ps(3) v(1) fs(3) by auto
  then show ?thesis using s v(2) assms(1)
    by (intro exI [of _ m] exI [of _ "v\<lparr>user := s\<rparr>"]) (simp add: rtc_session_send_access_unit_def Let_def upd_stats_def)
qed

text \<open>
  C6: A viewer gets no delta frame before a keyframe was handed to its session: when the handshake
  completes the session waits for a keyframe, and while it waits, a delta frame is held back
  (counted, nothing is sent and no sequence number is used); at most a new keyframe request goes to
  the encoder, not sooner than 400 ms after the last one. The wait ends with the call for the first
  keyframe, and not with its transmission as the comment on \<open>waiting_keyframe\<close> says: a keyframe of
  which nothing is sent, an empty access unit for one, ends it as well.
\<close>

theorem rtc_waits_for_keyframe:
  assumes "rtc_state (user w) = RTC_STREAMING" "waiting_keyframe (stats (user w))"
  shows "(\<forall>v v'. dtls_on_connected env v = Some v' \<longrightarrow> waiting_keyframe (stats (user v'))) \<and>
     (\<exists>w'. rtc_session_send_access_unit env au pts False w = Some (0, w') \<and> engine w' = engine w \<and>
        packetizer (user w') = packetizer (user w) \<and> waiting_keyframe (stats (user w')) \<and>
        frames_held (stats (user w')) = frames_held (stats (user w)) + 1 \<and>
        (trace (user w') = trace (user w) \<or>
         trace (user w') = trace (user w) @ [IdrRequest] \<and>
           (last_idr_ms (user w) = 0 \<or> last_idr_ms (user w') - last_idr_ms (user w) \<ge> IDR_MIN_INTERVAL_MS))) \<and>
     (rtc_env_ok env \<and> rtc_inv w \<longrightarrow>
        (\<exists>n w'. rtc_session_send_access_unit env au pts True w = Some (n, w') \<and> \<not> waiting_keyframe (stats (user w')) \<and>
           (au = [] \<longrightarrow> trace (user w') = trace (user w))))"
proof (intro conjI allI impI)
  fix v v' assume "dtls_on_connected env v = Some v'"
  then obtain t where "v' = v\<lparr>user := (rtc_session_request_idr env (upd_stats (\<lambda>st. st\<lparr>waiting_keyframe := True\<rparr>) (set_state RTC_STREAMING (user v))))\<lparr>
      reads := reads (rtc_session_request_idr env (upd_stats (\<lambda>st. st\<lparr>waiting_keyframe := True\<rparr>) (set_state RTC_STREAMING (user v)))) + 1, next_sr_ms := t\<rparr>\<rparr>"
    unfolding dtls_on_connected_def Let_def by (subst (asm) now_ms_pair) auto
  then show "waiting_keyframe (stats (user v'))" by (simp add: upd_stats_def)
next
  let ?h = "upd_stats (\<lambda>st. st\<lparr>frames_held := frames_held st + 1\<rparr>) (user w)"
  let ?r = "rtc_session_request_idr env ?h"
  have "rtc_session_send_access_unit env au pts False w = Some (0, w\<lparr>user := ?r\<rparr>)"
    using assms by (simp add: rtc_session_send_access_unit_def Let_def)
  moreover have "packetizer ?r = packetizer (user w)" "waiting_keyframe (stats ?r)"
    "frames_held (stats ?r) = frames_held (stats (user w)) + 1"
    using assms(2) by (simp_all add: upd_stats_def)
  moreover have "trace ?r = trace (user w) \<or> trace ?r = trace (user w) @ [IdrRequest] \<and>
      (last_idr_ms (user w) = 0 \<or> last_idr_ms ?r - last_idr_ms (user w) \<ge> IDR_MIN_INTERVAL_MS)"
    by (rule request_idr_cases [of env ?h]) (simp_all add: upd_stats_def)
  ultimately show "\<exists>w'. rtc_session_send_access_unit env au pts False w = Some (0, w') \<and> engine w' = engine w \<and>
      packetizer (user w') = packetizer (user w) \<and> waiting_keyframe (stats (user w')) \<and>
      frames_held (stats (user w')) = frames_held (stats (user w)) + 1 \<and>
      (trace (user w') = trace (user w) \<or>
       trace (user w') = trace (user w) @ [IdrRequest] \<and>
         (last_idr_ms (user w) = 0 \<or> last_idr_ms (user w') - last_idr_ms (user w) \<ge> IDR_MIN_INTERVAL_MS))"
    by (intro exI [of _ "w\<lparr>user := ?r\<rparr>"]) simp
next
  assume "rtc_env_ok env \<and> rtc_inv w"
  then show "\<exists>n w'. rtc_session_send_access_unit env au pts True w = Some (n, w') \<and> \<not> waiting_keyframe (stats (user w')) \<and>
      (au = [] \<longrightarrow> trace (user w') = trace (user w))" using keyframe_call [OF assms(1)] by blast
qed


end
