(* ===== verification/Rtc_Witness.thy ===== *)
theory Rtc_Witness
  imports Rtc_Props
begin

text \<open>
  Concrete sessions on which the properties of the WebRTC session are applied: a session that was
  just created, one that receives an authenticated binding request, one whose handshake completes
  and one that streams.
\<close>

section \<open>Witnesses\<close>

text \<open>
  A quiet machine (the clock stands at one second, \<open>sendto\<close> reports no bytes), an SRTP that appends
  ten bytes, and a session that has passed ICE.
\<close>

definition demo_md :: bytes where "demo_md = replicate 32 7"

definition demo_rtc_env :: "bytes rtc_env" where
  "demo_rtc_env = \<lparr>mono_clock = (\<lambda>_. (1, 0)), wall_clock = (\<lambda>_. (1, 0)), sendto = (\<lambda>_. 0), hmac = demo_hmac,
     mac_stack = replicate 20 0, stack_scratch = replicate 512 0, heap = (\<lambda>_. None), response_stack = replicate 128 0,
     rtp_stack = replicate 1200 0, rx_mem_ok = True, tls = demo_env demo_md,
     srtp_protect = (\<lambda>c p. (c, Some (p @ replicate 10 9))), srtp_protect_rtcp = (\<lambda>c p. (c, Some p)),
     srtp_unprotect_rtcp = (\<lambda>c p. (c, None))\<rparr>"

definition demo_cfg :: RtcSessionConfig where
  "demo_cfg = \<lparr>rc_id = 1, rc_udp_port = 5000, rc_candidate_ips = [''10.0.0.1''], rc_candidate_count = 1,
     rc_offer = empty_offer\<lparr>fingerprint := fingerprint_text demo_md\<rparr>, rc_signaling_peer = [],
     rc_on_idr_request = True, rc_on_closed = True\<rparr>"

definition demo_create :: rtc_create_env where
  "demo_create = \<lparr>ce_calloc_ok = True, ce_retx = Some (replicate 512 (replicate 1264 0)), ce_rand = Some (replicate 32 0),
     ce_socket = (5, 5000), ce_globals = \<lparr>g_ctx = True, g_cert = True, g_key = True, g_fingerprint = [], g_srtp_initialized = True\<rparr>,
     ce_dtls = \<lparr>calloc_ok = True, bio_new_ok = True, ssl_new_ok = True\<rparr>, ce_rtp_ok = True, ce_ssrc = Some 7, ce_clock = (1, 0)\<rparr>"

definition demo_text :: string where
  "demo_text = text_lines (answer_lines (rc_offer demo_cfg) (answer_config demo_cfg [] (replicate 8 (CHR ''a'')) (replicate 24 (CHR ''a'')) 5000 7) ''10.0.0.1'')"

definition demo_session :: RtcSession where
  "demo_session = \<lparr>config = demo_cfg, rtc_state = RTC_NEW, udp_fd = 5, local_ufrag = replicate 8 (CHR ''a''),
     local_pwd = replicate 24 (CHR ''a''), remote = AF_OTHER, have_remote = False,
     packetizer = Some \<lparr>ssrc = 7, payload_type = of_int (h264_payload_type (rc_offer demo_cfg)), sequence = 0, base_pts_us = 0,
       have_base = False, packets = 0, octets = 0\<rparr>,
     created_ms = 1000, last_rx_ms = 1000, last_idr_ms = 0, next_sr_ms = 0, idr_requested = False, streaming_announced = False,
     datagrams_logged = 0, send_errors_logged = 0,
     stats = zero_session_stats\<lparr>signaling_peer := ''-'', stat_payload_type := of_int (h264_payload_type (rc_offer demo_cfg)),
       stat_profile_level_id := ''42e01f''\<rparr>,
     retx_data = replicate 512 (replicate 1264 0), retx_len = replicate 512 0, retx_seq = replicate 512 0,
     reads = 0, sends = 0, trace = []\<rparr>"

definition demo_new :: "bytes rtc_world" where
  "demo_new = \<lparr>engine = fresh_engine\<lparr>expected_fingerprint := fit 128 (fingerprint_text demo_md)\<rparr>, g_stats = zero_stats, user = demo_session\<rparr>"

lemma demo_rtc_env_ok: "rtc_env_ok demo_rtc_env"
  by (auto simp: rtc_env_ok_def demo_rtc_env_def demo_env_ok demo_md_def scratch_ok_def RTP_MAX_PACKET_def dest: demo_hmac_length)

lemma demo_session_created:
  "rtc_session_create demo_create demo_cfg (Suc (length demo_text)) [] zero_stats = Some (0, Some demo_new, demo_text)"
proof -
  let ?ac = "answer_config demo_cfg [] (replicate 8 (CHR ''a'')) (replicate 24 (CHR ''a'')) 5000 7"
  have ips: "candidate_ips ?ac = Some ''10.0.0.1'' # []"
    by (simp add: answer_config_def demo_cfg_def SDP_MAX_CANDIDATES_def)
  have pk: "pick 0 = CHR ''a''" by (simp add: pick_def alphabet_def)
  have cred: "generate_credentials (Some (replicate 32 0)) 16 44 = Some ((replicate 8 (CHR ''a'')), replicate 24 (CHR ''a''))"
    by (simp add: generate_credentials_def pk)
  have "0 < length demo_text"
    by (simp add: demo_text_def answer_lines_def session_lines_def text_lines_def)
  moreover have "sdp_build_answer (Some (rc_offer demo_cfg)) (Some ?ac) (Some []) (Suc (length demo_text)) = Some (length demo_text, Some demo_text)"
    using build_answer_lines [OF _ _ ips, of "rc_offer demo_cfg" "Suc (length demo_text)" "[]"]
    by (simp add: demo_text_def [symmetric] Let_def) (simp add: demo_cfg_def empty_offer_def)
  ultimately show ?thesis
    by (simp add: rtc_session_create_def demo_create_def cred dtls_srtp_session_create_def dtls_srtp_local_fingerprint_def
        dtls_srtp_set_expected_fingerprint_def rtp_h264_create_def rtp_h264_reset_def Let_def demo_new_def demo_session_def RETX_CACHE_SIZE_def)
      (simp add: demo_cfg_def empty_offer_def fit_def)
qed

lemma demo_create_ok: "create_ok demo_create"
  by (simp add: create_ok_def demo_create_def list_all_length)

lemma demo_new_inv: "rtc_inv demo_new"
  using rtc_session_create_inv(1) [OF demo_session_created demo_create_ok] .



theorem rtc_reachable_witness:
  "\<exists>w. rtc_apply demo_rtc_env Close demo_new = Some w \<and> dtls_state (engine w) = DTLS_SRTP_CLOSED \<and>
     length (filter (\<lambda>e. e = SessionClosed) (trace (user w))) = 1"
proof -
  have new: "rtc_reach demo_cfg demo_new" by (rule rtc_reach.create [OF demo_create_ok demo_session_created])
  obtain w where w: "rtc_session_close demo_rtc_env demo_new = Some w" "rtc_state (user w) = RTC_CLOSED"
    using rtc_close_inv [OF demo_new_inv, of demo_rtc_env undefined] by blast
  then have "rtc_reach demo_cfg w"
    by (intro rtc_reach.step [OF new demo_rtc_env_ok, where op = Close]) simp
  from rtc_reachable_invariant [OF this] show ?thesis using w by (auto simp: demo_cfg_def)
qed

text \<open>A connectivity check with the right password and user name.\<close>

definition demo_check :: bytes where
  "demo_check = stun_message 1 (be32_bytes 0x2112A442 @ replicate 12 5) [(0x0006, replicate 8 97 @ [58, 120]), (0x0008, replicate 20 97)]"

lemma demo_check_bytes:
  "demo_check = [0, 1, 0, 40, 0x21, 0x12, 0xA4, 0x42] @ replicate 12 5 @ [0, 6, 0, 10] @ replicate 8 97 @ [58, 120, 0, 0, 0, 8, 0, 20] @ replicate 20 97"
  by (simp add: demo_check_def stun_message_def encode_attr_def pad4_def be16_bytes_def be32_bytes_def) (simp add: numeral_2_eq_2)

lemma demo_check_attribute:
  "stun_find_attribute demo_check 0x0006 = Some (Some (24, 10))" "stun_find_attribute demo_check 0x0008 = Some (Some (40, 20))"
  using find_attribute_message [of "be32_bytes 0x2112A442 @ replicate 12 5" "[(0x0006, replicate 8 97 @ [58, 120]), (0x0008, replicate 20 97)]" 1 "[]"]
  by (simp_all add: demo_check_def pad4_def encode_attr_def)

lemma demo_check_authentic:
  "\<exists>tid. stun_is_binding_request demo_check = Some (Some tid)"
  "stun_verify_mi demo_hmac (replicate 512 0) (\<lambda>_. None) (Some demo_check) (Some (replicate 24 97)) = Some True"
  "stun_username_matches demo_check (Some (replicate 8 97)) = Some True"
proof -
  show "\<exists>tid. stun_is_binding_request demo_check = Some (Some tid)"
    by (simp add: demo_check_bytes stun_is_binding_request_def stun_consts be16_def be32_def)
  have "demo_hmac (replicate 24 97) (mi_input demo_check 36) = Some (take 20 (drop 40 demo_check))"
    by (simp add: demo_hmac_def demo_check_bytes)
  then show "stun_verify_mi demo_hmac (replicate 512 0) (\<lambda>_. None) (Some demo_check) (Some (replicate 24 97)) = Some True"
    using verify_mi_char [of "replicate 512 0" "\<lambda>_. None" demo_hmac demo_check "replicate 24 97"] demo_check_attribute(2)
    by (auto simp: scratch_ok_def demo_check_bytes)
  have "take 10 (drop 24 demo_check) = replicate 8 97 @ colon # [120]" by (simp add: demo_check_bytes colon_def)
  then show "stun_username_matches demo_check (Some (replicate 8 97)) = Some True"
    using stun_username_matches_correct [of "replicate 8 97" demo_check] demo_check_attribute(1) by auto
qed

theorem rtc_remote_witness:
  "\<exists>w'. rtc_session_on_udp demo_rtc_env demo_check (AF_INET 4000 0x0A000005) demo_new = Some w' \<and> have_remote (user w') \<and>
     remote (user w') = AF_INET 4000 0x0A000005"
proof -
  let ?src = "AF_INET 4000 0x0A000005"
  have len: "length demo_check = 60" by (simp add: demo_check_bytes)
  have fits: "datagram_fits demo_check" by (simp add: datagram_fits_def demo_check_bytes)
  obtain w' where w': "rtc_session_on_udp demo_rtc_env demo_check ?src demo_new = Some w'"
    using rtc_session_on_udp_ok [OF demo_rtc_env_ok demo_new_inv, of demo_check ?src] fits by blast
  have open_: "rtc_state (user demo_new) \<noteq> RTC_CLOSED" "\<not> have_remote (user demo_new)" "remote (user demo_new) = AF_OTHER"
    by (simp_all add: demo_new_def demo_session_def)
  have cred: "str_bytes (local_pwd (user demo_new)) = replicate 24 97" "str_bytes (local_ufrag (user demo_new)) = replicate 8 97"
    by (simp_all add: demo_new_def demo_session_def str_bytes_def)
  have env: "hmac demo_rtc_env = demo_hmac" "stack_scratch demo_rtc_env = replicate 512 0" "heap demo_rtc_env = (\<lambda>_. None)"
    by (simp_all add: demo_rtc_env_def)
  from rtc_remote_authenticated [OF demo_rtc_env_ok demo_new_inv open_(1) w'] demo_check_authentic len
  have "have_remote (user w')" "format_peer (remote (user w')) = format_peer ?src" "remote (user w') \<in> {AF_OTHER, ?src}"
    by (auto simp: cred env open_)
  moreover have "format_peer AF_OTHER \<noteq> format_peer ?src" by (simp add: format_peer_def inet_ntop4_def)
  ultimately show ?thesis using w' by auto
qed

text \<open>A session in the middle of the handshake, and one that streams.\<close>

definition demo_handshaking :: "bytes rtc_world" where
  "demo_handshaking = demo_new\<lparr>engine := (engine demo_new)\<lparr>dtls_state := DTLS_SRTP_HANDSHAKING, handshake_started := True\<rparr>,
     user := demo_session\<lparr>rtc_state := RTC_DTLS, have_remote := True, remote := AF_INET 4000 0x0A000005\<rparr>\<rparr>"

definition demo_streaming :: "bytes rtc_world" where
  "demo_streaming = demo_new\<lparr>engine := (engine demo_new)\<lparr>dtls_state := DTLS_SRTP_CONNECTED, handshake_started := True,
       srtp_ready := True, fingerprint_ok := True, srtp_out := Some [], srtp_in := Some []\<rparr>,
     user := upd_stats (\<lambda>st. st\<lparr>waiting_keyframe := True\<rparr>)
       (demo_session\<lparr>rtc_state := RTC_STREAMING, have_remote := True, remote := AF_INET 4000 0x0A000005\<rparr>)\<rparr>"

lemma demo_inv: "rtc_inv demo_handshaking" "rtc_inv demo_streaming"
proof -
  have "rtc_ok demo_session" "closes (trace demo_session) = 0" "dtls_inv (engine demo_new)"
    "expected_fingerprint (engine demo_new) = fit 128 (fingerprint (rc_offer (config demo_session)))"
    using demo_new_inv by (simp_all add: rtc_inv_def) (simp_all add: demo_new_def demo_session_def closes_def)
  then show "rtc_inv demo_handshaking" "rtc_inv demo_streaming"
    by (simp_all add: rtc_inv_def demo_handshaking_def demo_streaming_def link_def rtc_ok_def dtls_inv_def upd_stats_def)
      (simp_all add: demo_new_def fresh_engine_def)
qed

lemma demo_fingerprint: "fit 128 (fingerprint_text demo_md) = fingerprint_text demo_md" "fingerprint_text demo_md \<noteq> []"
proof -
  have md: "demo_md = 7 # replicate 31 7" by (simp add: demo_md_def numeral_eq_Suc)
  have "length (fingerprint_text demo_md) = 103" by (simp add: md fingerprint_text_def length_concat hex2_def map_replicate_const sum_list_replicate)
  then show "fit 128 (fingerprint_text demo_md) = fingerprint_text demo_md" "fingerprint_text demo_md \<noteq> []"
    by (auto simp: fit_def)
qed

lemma demo_handshake_completes:
  "\<exists>w'. rtc_session_tick demo_rtc_env 1500 demo_handshaking = Some w' \<and> rtc_state (user w') = RTC_STREAMING"
proof -
  let ?io = "demo_env demo_md" and ?w = demo_handshaking
  have md: "length demo_md = 32" by (simp add: demo_md_def)
  have fp: "expected_fingerprint (engine ?w) = fingerprint_text demo_md"
    by (simp add: demo_handshaking_def demo_new_def) (simp add: demo_fingerprint)
  have st: "dtls_state (engine ?w) = DTLS_SRTP_HANDSHAKING" "handshake_started (engine ?w)" "\<not> srtp_ready (engine ?w)" "rtc_state (user ?w) = RTC_DTLS"
    "last_rx_ms (user ?w) = 1000"
    by (simp_all add: demo_handshaking_def demo_new_def fresh_engine_def demo_session_def)
  have tls: "tls demo_rtc_env = ?io" by (simp add: demo_rtc_env_def)
  obtain e where e: "derive_srtp_keys ?io ?w = Some (0, ?w\<lparr>engine := e\<rparr>)" "dtls_state e = DTLS_SRTP_HANDSHAKING"
  proof (rule derive_srtp_keys_cases [OF demo_env_ok [OF md], of ?w])
    fix e assume "derive_srtp_keys ?io ?w = Some (0, ?w\<lparr>engine := e\<rparr>)"
      and e: "e = (engine ?w)\<lparr>srtp_out := srtp_out e, srtp_in := srtp_in e, fingerprint_ok := True, srtp_ready := True\<rparr>"
    moreover have "dtls_state e = DTLS_SRTP_HANDSHAKING" by (subst e) (simp add: st)
    ultimately show thesis using that by blast
  next
    assume "\<not> (selected_profile ?io \<and> exported ?io \<noteq> None \<and>
         srtp_create ?io ssrc_any_outbound (server_master (the (exported ?io))) \<noteq> None \<and>
         srtp_create ?io ssrc_any_inbound (client_master (the (exported ?io))) \<noteq> None \<and>
         peer_verified ?io (expected_fingerprint (engine ?w)))"
    then show thesis using demo_verified [OF md] by (simp add: fp) (simp add: demo_env_def)
  qed
  have env: "init_finished ?io" "dtls_timer ?io = None" "ssl_read ?io = \<lparr>ssl_bio = [], ssl_rc = - 1, ssl_err = SSL_ERROR_WANT_READ\<rparr>"
    by (simp_all add: demo_env_def)
  have "\<exists>w'. dtls_srtp_tick ?io (rtc_callbacks demo_rtc_env) ?w = Some w' \<and> rtc_state (user w') = RTC_STREAMING \<and> next_sr_ms (user w') = 2000"
    by (simp add: dtls_srtp_tick_def pump_ssl_def pump_read_def pump_finish_def st e env want_io_def dtls_set_state_def
        rtc_callbacks_def dtls_on_state_def dtls_on_state_with_def dtls_on_connected_def set_state_def now_ms_def Let_def)
      (simp add: demo_rtc_env_def RTCP_SR_INTERVAL_MS_def upd_stats_def)
  then show ?thesis
    by (auto simp: rtc_session_tick_def st elapsed_def SESSION_IDLE_TIMEOUT_MS_def tls)
qed

theorem rtc_streaming_witness:
  "init_finished (tls demo_rtc_env) \<and> selected_profile (tls demo_rtc_env) \<and>
     (\<exists>md. peer_digest (tls demo_rtc_env) = Some (Some md) \<and> fingerprint_hex_equal (fingerprint_text demo_md) md = Some True)"
proof -
  obtain w' where w': "rtc_apply demo_rtc_env (Tick 1500) demo_handshaking = Some w'" "rtc_state (user w') = RTC_STREAMING"
    using demo_handshake_completes by auto
  have st: "rtc_state (user demo_handshaking) \<noteq> RTC_STREAMING" by (simp add: demo_handshaking_def)
  have fp: "fit 128 (fingerprint (rc_offer (config (user demo_handshaking)))) = fingerprint_text demo_md" "fingerprint_text demo_md \<noteq> []"
    using demo_fingerprint by (simp_all add: demo_handshaking_def demo_session_def demo_cfg_def)
  from rtc_streaming_verified [OF demo_rtc_env_ok demo_inv(1) w'(1) st w'(2)] fp show ?thesis by (simp add: Let_def)
qed

lemma demo_streaming_fields:
  "rtc_state (user demo_streaming) = RTC_STREAMING" "waiting_keyframe (stats (user demo_streaming))"
  "remote (user demo_streaming) = AF_INET 4000 0x0A000005" "trace (user demo_streaming) = []"
  "\<exists>p. packetizer (user demo_streaming) = Some p \<and> sequence p = 0"
  by (simp_all add: demo_streaming_def demo_session_def upd_stats_def)



theorem rtc_waits_witness:
  "(\<exists>w'. rtc_session_send_access_unit demo_rtc_env [0, 0, 1, 0x41] 0 False demo_streaming = Some (0, w') \<and>
     frames_held (stats (user w')) = 1 \<and> waiting_keyframe (stats (user w'))) \<and>
   (\<exists>n w'. rtc_session_send_access_unit demo_rtc_env [] 0 True demo_streaming = Some (n, w') \<and>
     \<not> waiting_keyframe (stats (user w')) \<and> trace (user w') = [])"
proof -
  have "frames_held (stats (user demo_streaming)) = 0"
    by (simp add: demo_streaming_def demo_session_def upd_stats_def zero_session_stats_def)
  with rtc_waits_for_keyframe [OF demo_streaming_fields(1,2), of demo_rtc_env "[0, 0, 1, 0x41]" 0]
    rtc_waits_for_keyframe [OF demo_streaming_fields(1,2), of demo_rtc_env "[]" 0]
  show ?thesis using demo_rtc_env_ok demo_inv(2) demo_streaming_fields(4) by auto
qed

end
