(* ===== verification/App_Server_Props.thy ===== *)
theory App_Server_Props
  imports App_Server Rtc_Witness
begin

text \<open>
  Properties of the application server: every turn of the main loop is memory safe and keeps the
  invariant of the session table and the pipeline, the signalling reply, the fan-out of access
  units to the viewers, recovery of the pipeline, reload of the configuration and the bound of the
  poll set.
\<close>

section \<open>Invariant\<close>

definition seat_ok :: "'s seat option \<Rightarrow> bool" where
  "seat_ok s \<longleftrightarrow> (case s of None \<Rightarrow> True | Some seat \<Rightarrow> \<forall>g. rtc_inv \<lparr>engine = seat_engine seat, g_stats = g, user = seat_session seat\<rparr>)"

definition ring_ok :: "AuRing option \<Rightarrow> bool" where
  "ring_ok q \<longleftrightarrow> (case q of None \<Rightarrow> True | Some r \<Rightarrow> ring_inv r \<and> slot_capacity r = AU_SLOT_CAPACITY)"

text \<open>Either the whole pipeline exists or none of it.\<close>

definition pipeline_ok :: "'s Server \<Rightarrow> bool" where
  "pipeline_ok server \<longleftrightarrow>
     (if sv_running server
      then sv_source server \<noteq> None \<and> sv_source_worker server \<and> sv_hub server \<and> sv_encoder server \<noteq> None \<and>
        sv_encoder_worker server \<noteq> None \<and> sv_ring server \<noteq> None
      else sv_source server = None \<and> \<not> sv_source_worker server \<and> \<not> sv_hub server \<and> sv_encoder server = None \<and>
        sv_encoder_worker server = None \<and> sv_ring server = None \<and> \<not> sv_media_active server)"

definition server_inv :: "'s Server \<Rightarrow> bool" where
  "server_inv server \<longleftrightarrow> length (sv_sessions server) = 8 \<and> list_all seat_ok (sv_sessions server) \<and>
     length (sv_session_sample_ms server) = 8 \<and> length (sv_session_sample_bytes server) = 8 \<and>
     length (sv_client_frames server) = 8 \<and> length (sv_client_report_ms server) = 8 \<and>
     length (sv_client_width server) = 8 \<and> length (sv_client_height server) = 8 \<and> length (sv_client_decoding server) = 8 \<and>
     ring_ok (sv_ring server) \<and> pipeline_ok server"

lemma run_hooks_eq:
  "run_hooks es server = server\<lparr>sv_force_idr := (sv_force_idr server \<or> IdrRequest \<in> set es),
     sv_sessions_closed := sv_sessions_closed server + of_nat (closes es)\<rparr>"
proof (induction es arbitrary: server)
  case (Cons e es)
  then show ?case by (cases e) (simp_all add: session_on_idr_request_def session_on_closed_def add.assoc)
qed simp

lemma rtc_inv_g_stats: "rtc_inv w \<Longrightarrow> rtc_inv \<lparr>engine = engine w, g_stats = g, user = user w\<rparr>"
  by (simp add: rtc_inv_def)

lemma seat_ok_iff: "rtc_inv w \<Longrightarrow> seat_ok (Some \<lparr>seat_engine = engine w, seat_session = user w\<rparr>)"
  using rtc_inv_g_stats by (auto simp: seat_ok_def)

text \<open>The fields that no session operation touches.\<close>

definition pipeline_of :: "'s Server \<Rightarrow> _" where
  "pipeline_of server = (sv_source server, sv_source_worker server, sv_hub server, sv_encoder server, sv_encoder_worker server,
     sv_ring server, sv_running server, sv_media_active server, sv_config server, sv_globals server, sv_dtls_ready server,
     sv_retry_ms server, sv_failures server)"

lemma absorb_ok:
  assumes "server_inv server" "i < 8" "rtc_inv w"
  shows "server_inv (absorb i seat w server)" "pipeline_of (absorb i seat w server) = pipeline_of server"
    "sv_sessions (absorb i seat w server) = (sv_sessions server)[i := Some \<lparr>seat_engine = engine w, seat_session = user w\<rparr>]"
  using assms seat_ok_iff [OF assms(3)]
  by (simp_all add: absorb_def run_hooks_eq server_inv_def pipeline_ok_def pipeline_of_def list_all_update)

lemma seat_world: "server_inv server \<Longrightarrow> i < 8 \<Longrightarrow> sv_sessions server ! i = Some seat \<Longrightarrow> rtc_inv (world_of server seat)"
  by (fastforce simp: server_inv_def list_all_length seat_ok_def world_of_def)

text \<open>The contract of the operations that the server runs on a session.\<close>

definition session_op :: "('s rtc_world \<Rightarrow> 's rtc_world option) \<Rightarrow> bool" where
  "session_op f \<longleftrightarrow> (\<forall>w. rtc_inv w \<longrightarrow> (\<exists>w'. f w = Some w' \<and> rtc_inv w'))"

lemma on_session_ok:
  assumes "server_inv server" "i < 8" "session_op f"
  shows "\<exists>server'. on_session f i server = Some server' \<and> server_inv server' \<and> pipeline_of server' = pipeline_of server \<and>
     (\<forall>j. j \<noteq> i \<longrightarrow> sv_sessions server' ! j = sv_sessions server ! j) \<and> (sv_sessions server ! i = None \<longleftrightarrow> sv_sessions server' ! i = None)"
proof (cases "sv_sessions server ! i")
  case None
  then show ?thesis using assms(1,2) by (simp add: on_session_def server_inv_def)
next
  case (Some seat)
  obtain w' where w': "f (world_of server seat) = Some w'" "rtc_inv w'"
    using assms(3) seat_world [OF assms(1,2) Some] unfolding session_op_def by blast
  have l: "length (sv_sessions server) = 8" using assms(1) by (simp add: server_inv_def)
  show ?thesis using Some w'(1) l assms(2) absorb_ok [OF assms(1,2) w'(2), of seat]
    by (intro exI [of _ "absorb i seat w' server"]) (simp add: on_session_def)
qed

lemma destroy_session_ok:
  assumes "server_inv server" "i < 8"
  shows "\<exists>server'. destroy_session env i server = Some server' \<and> server_inv server' \<and> pipeline_of server' = pipeline_of server \<and>
     sv_sessions server' = (sv_sessions server)[i := None]"
proof (cases "sv_sessions server ! i")
  case None
  then have "(sv_sessions server)[i := None] = sv_sessions server" by (metis list_update_id)
  then show ?thesis using None assms by (simp add: destroy_session_def server_inv_def)
next
  case (Some seat)
  let ?w = "world_of server seat"
  obtain v where "rtc_session_close env ?w = Some v"
    using rtc_close_inv [OF seat_world [OF assms Some], of env undefined] by blast
  then obtain w' where "(if rtc_state (user ?w) \<noteq> RTC_CLOSED then rtc_session_close env ?w else Some ?w) = Some w'"
    by (cases "rtc_state (user ?w) = RTC_CLOSED") auto
  then have "rtc_session_destroy env ?w = Some (trace (user w'), session_free w')" by (simp add: rtc_session_destroy_def)
  moreover have "list_all seat_ok ((sv_sessions server)[i := None])"
    using assms(1) by (intro list_all_update) (simp_all add: server_inv_def seat_ok_def)
  ultimately show ?thesis using Some assms
    by (auto simp: destroy_session_def server_inv_def run_hooks_eq pipeline_ok_def pipeline_of_def)
qed

text \<open>Loops over the session table.\<close>

lemma for_sessions_ok:
  assumes "server_inv server" "\<And>i s. i < 8 \<Longrightarrow> server_inv s \<Longrightarrow> pipeline_of s = pipeline_of server \<Longrightarrow>
     \<exists>s'. f i s = Some s' \<and> server_inv s' \<and> pipeline_of s' = pipeline_of s"
  shows "\<exists>s'. for_upto MAX_RTC_SESSIONS f server = Some s' \<and> server_inv s' \<and> pipeline_of s' = pipeline_of server"
  using for_upto_inv [where P = "\<lambda>_ s. server_inv s \<and> pipeline_of s = pipeline_of server" and n = 8 and f = f and s = server] assms
  by (auto simp: MAX_RTC_SESSIONS_def)

section \<open>Steps of the loop\<close>

text \<open>
  What the machine and the libraries guarantee during one turn, and the datagrams that the session
  reads within their bounds: all but those of a single byte of 128 or more (\<open>datagram_fits\<close>).
\<close>

definition datagram_ok :: "'s datagram \<Rightarrow> bool" where
  "datagram_ok d \<longleftrightarrow> (case d of (env, buffer, source) \<Rightarrow> rtc_env_ok env \<and> datagram_fits buffer)"

lemma session_op_udp: "datagram_ok (env, buffer, src) \<Longrightarrow> session_op (rtc_session_on_udp env buffer src)"
  using rtc_session_on_udp_ok [of env _ buffer src] unfolding session_op_def by (fastforce simp: datagram_ok_def step_ok_def)

lemma session_op_tick: "rtc_env_ok env \<Longrightarrow> session_op (rtc_session_tick env now)"
  using rtc_session_tick_ok [of env _ now] unfolding session_op_def by (fastforce simp: step_ok_def)

lemma session_op_close: "session_op (rtc_session_close env)"
  using rtc_close_inv [of _ env undefined] unfolding session_op_def by blast

lemma session_op_send: "rtc_env_ok env \<Longrightarrow> session_op (\<lambda>w. map_option snd (rtc_session_send_access_unit env au pts idr w))"
  using send_access_unit_ok [of env _ au pts idr undefined] unfolding session_op_def by (fastforce simp: step_ok_def)

lemma drain_ok:
  assumes "server_inv server" "i < 8" "\<forall>d \<in> set ds. datagram_ok d"
  shows "\<exists>s'. drain_session_socket i n ds server = Some s' \<and> server_inv s' \<and> pipeline_of s' = pipeline_of server"
  using assms(1,3)
proof (induction n arbitrary: ds server)
  case (Suc n)
  show ?case
  proof (cases ds)
    case (Cons d ds')
    obtain env buffer source where d: "d = (env, buffer, source)" by (cases d) auto
    have "datagram_ok (env, buffer, source)" using Suc.prems(2) Cons d by simp
    from on_session_ok [OF Suc.prems(1) assms(2) session_op_udp [OF this]] obtain s where
      s: "on_session (rtc_session_on_udp env buffer source) i server = Some s" "server_inv s" "pipeline_of s = pipeline_of server"
      by blast
    have "length (sv_sessions s) = 8" using s(2) by (simp add: server_inv_def)
    then show ?thesis using Suc.IH [OF s(2), of ds'] Suc.prems Cons d s assms(2)
      by (cases "buffer = []"; cases "open_seat (sv_sessions s ! i)") auto
  qed (use Suc.prems in simp)
qed simp

lemma poll_http_ok:
  assumes "length fds = n" "n \<le> 64"
  shows "\<exists>b fds'. poll_http cs n busy fds = Some (b, fds') \<and> length fds' \<le> 64 \<and>
     (\<forall>e \<in> set fds'. e \<in> set fds \<or> snd (snd e) = None)"
  using assms
proof (induction cs arbitrary: n busy fds)
  case (Cons c cs)
  show ?case
  proof (cases "(hc_closing c \<or> (hc_draining c \<and> hc_send c = 0)) \<or> hc_fd c < 0 \<or> n \<ge> 64")
    case True
    then show ?thesis using Cons by (auto simp: MAX_HTTP_POLL_FDS_def)
  next
    case False
    let ?e = "(hc_fd c, \<not> hc_listening c \<and> (hc_send c > 0 \<or> hc_connecting c), None)"
    have "add_fd ?e fds = Some (fds @ [?e])" using Cons.prems by (simp add: add_fd_def MAX_POLL_FDS_def MAX_HTTP_POLL_FDS_def)
    then have eq: "poll_http (c # cs) n busy fds = poll_http cs (Suc n) busy (fds @ [?e])" using False by (auto simp: MAX_HTTP_POLL_FDS_def)
    have "length (fds @ [?e]) = Suc n" "Suc n \<le> 64" using Cons.prems False by simp_all
    from Cons.IH [OF this, of busy] show ?thesis unfolding eq by force
  qed
qed auto

lemma poll_session_ok:
  assumes "server_inv server" "i < 8" "length fds \<le> 64 + i"
  shows "\<exists>t' fds'. poll_session env server i (t, fds) = Some (t', fds') \<and> length fds' \<le> 64 + Suc i \<and> t' \<le> t \<and> (0 \<le> t \<longrightarrow> 0 \<le> t') \<and>
     (\<forall>e \<in> set fds'. e \<in> set fds \<or> snd (snd e) = Some i) \<and> set fds \<subseteq> set fds' \<and>
     (open_seat (sv_sessions server ! i) \<longrightarrow> t' \<le> SESSION_WAKE_MS \<and>
        (\<exists>seat. sv_sessions server ! i = Some seat \<and> (udp_fd (seat_session seat), False, Some i) \<in> set fds'))"
proof -
  have l: "length (sv_sessions server) = 8" using assms(1) by (simp add: server_inv_def)
  show ?thesis
  proof (cases "open_seat (sv_sessions server ! i)")
    case False
    then show ?thesis using l assms(2,3)
      by (auto simp: poll_session_def open_seat_def rtc_session_state_def split: option.splits)
  next
    case True
    then obtain seat where s: "sv_sessions server ! i = Some seat" "rtc_state (seat_session seat) \<noteq> RTC_CLOSED"
      by (auto simp: open_seat_def rtc_session_state_def split: option.splits)
    have fd: "0 \<le> udp_fd (seat_session seat)" using seat_world [OF assms(1,2) s(1)] by (simp add: rtc_inv_def rtc_ok_def world_of_def)
    have "add_fd (udp_fd (seat_session seat), False, Some i) fds = Some (fds @ [(udp_fd (seat_session seat), False, Some i)])"
      using assms(2,3) by (simp add: add_fd_def MAX_POLL_FDS_def MAX_HTTP_POLL_FDS_def MAX_RTC_SESSIONS_def)
    then show ?thesis using s l assms(2,3) fd
      by (auto simp: poll_session_def rtc_session_state_def rtc_session_fd_def Let_def SESSION_WAKE_MS_def)
  qed
qed

lemma poll_set_ok:
  assumes "server_inv server"
  shows "\<exists>t fds. poll_set env conns m e server = Some (t, fds) \<and> length fds \<le> MAX_POLL_FDS \<and> 0 \<le> t \<and> t \<le> IDLE_WAKE_MS \<and>
     (\<forall>x \<in> set fds. \<forall>i. snd (snd x) = Some i \<longrightarrow> i < 8) \<and>
     (\<forall>i < 8. open_seat (sv_sessions server ! i) \<longrightarrow> t \<le> SESSION_WAKE_MS \<and>
        (\<exists>seat. sv_sessions server ! i = Some seat \<and> (udp_fd (seat_session seat), False, Some i) \<in> set fds))"
proof -
  obtain b f0 where f0: "poll_http conns 0 False [] = Some (b, f0)" "length f0 \<le> 64" "\<forall>e \<in> set f0. snd (snd e) = None"
    using poll_http_ok [of "[]" 0 conns False] by auto
  let ?P = "\<lambda>k (t :: int, fds). length fds \<le> 64 + k \<and> 0 \<le> t \<and> t \<le> IDLE_WAKE_MS \<and> (\<forall>x \<in> set fds. \<forall>i. snd (snd x) = Some i \<longrightarrow> i < 8) \<and>
     (\<forall>i < k. open_seat (sv_sessions server ! i) \<longrightarrow> t \<le> SESSION_WAKE_MS \<and>
        (\<exists>seat. sv_sessions server ! i = Some seat \<and> (udp_fd (seat_session seat), False, Some i) \<in> set fds))"
  have "\<exists>st. for_upto 8 (poll_session env server) (IDLE_WAKE_MS, f0) = Some st \<and> ?P 8 st"
  proof (rule for_upto_inv [where P = ?P])
    show "?P 0 (IDLE_WAKE_MS, f0)" using f0(2,3) by (auto simp: IDLE_WAKE_MS_def)
    fix k st assume k: "k < (8 :: nat)" and P: "?P k st"
    obtain t fds where st: "st = (t, fds)" by fastforce
    have "length fds \<le> 64 + k" using P st by simp
    from poll_session_ok [OF assms k this, of env t] obtain t' fds' where
      n: "poll_session env server k (t, fds) = Some (t', fds')" "length fds' \<le> 64 + Suc k" "t' \<le> t" "0 \<le> t \<longrightarrow> 0 \<le> t'"
        "\<forall>e \<in> set fds'. e \<in> set fds \<or> snd (snd e) = Some k" "set fds \<subseteq> set fds'"
        "open_seat (sv_sessions server ! k) \<longrightarrow> t' \<le> SESSION_WAKE_MS \<and>
          (\<exists>seat. sv_sessions server ! k = Some seat \<and> (udp_fd (seat_session seat), False, Some k) \<in> set fds')" by blast
    have "length fds' \<le> 64 + Suc k \<and> 0 \<le> t' \<and> t' \<le> IDLE_WAKE_MS" using P st n(2-4) by auto
    moreover have "\<forall>x \<in> set fds'. \<forall>i. snd (snd x) = Some i \<longrightarrow> i < 8" using P st n(5) k by fastforce
    moreover have "open_seat (sv_sessions server ! i) \<longrightarrow> t' \<le> SESSION_WAKE_MS \<and>
        (\<exists>seat. sv_sessions server ! i = Some seat \<and> (udp_fd (seat_session seat), False, Some i) \<in> set fds')" if "i < Suc k" for i
    proof (cases "i = k")
      case True
      then show ?thesis using n(7) by simp
    next
      case False
      then have "i < k" using that by simp
      then show ?thesis using P st n(3,6) by fastforce
    qed
    ultimately have "?P (Suc k) (t', fds')" by simp
    then show "\<exists>s'. poll_session env server k st = Some s' \<and> ?P (Suc k) s'" using n(1) st by blast
  qed
  then obtain t f1 where f1: "for_upto 8 (poll_session env server) (IDLE_WAKE_MS, f0) = Some (t, f1)" "?P 8 (t, f1)" by auto
  define f2 where "f2 = (if m \<ge> 0 then f1 @ [(m, False, None)] else f1)"
  define rf where "rf = (case sv_ring server of None \<Rightarrow> -1 | Some r \<Rightarrow> if event_fd r = None then -1 else e)"
  define f3 where "f3 = (if rf \<ge> 0 then f2 @ [(rf, False, None)] else f2)"
  define t3 where "t3 = (if rf < 0 \<and> sv_ring server \<noteq> None \<and> sv_media_active server \<and> t > 5 then 5 else t)"
  have add: "add_fd x fds = Some (fds @ [x])" if "length fds < 74" for x fds
    using that by (simp add: add_fd_def MAX_POLL_FDS_def MAX_HTTP_POLL_FDS_def MAX_RTC_SESSIONS_def)
  have len: "length f1 \<le> 72" "length f2 \<le> 73" "length f3 \<le> 74" using f1(2) by (auto simp: f2_def f3_def)
  have "poll_set env conns m e server = Some (if b then 0 else t3, f3)"
    using f0(1) f1(1) len add unfolding poll_set_def
    by (simp add: MAX_RTC_SESSIONS_def Let_def rf_def [symmetric] f2_def f3_def t3_def)
  moreover have "t3 \<le> t \<and> 0 \<le> t3" using f1(2) by (simp add: t3_def)
  moreover have "set f1 \<subseteq> set f3" "\<forall>x \<in> set f3. x \<in> set f1 \<or> snd (snd x) = None" by (auto simp: f2_def f3_def)
  moreover have "length f3 \<le> MAX_POLL_FDS" using len by (simp add: MAX_POLL_FDS_def MAX_HTTP_POLL_FDS_def MAX_RTC_SESSIONS_def)
  moreover have "0 \<le> SESSION_WAKE_MS" "0 \<le> IDLE_WAKE_MS" by (simp_all add: SESSION_WAKE_MS_def IDLE_WAKE_MS_def)
  ultimately show ?thesis using f1(2) by (intro exI [of _ "if b then 0 else t3"] exI [of _ f3]) fastforce
qed


lemma server_inv_frame [simp]:
  "server_inv (server\<lparr>sv_http_errors := a\<rparr>) = server_inv server"
  "server_inv (server\<lparr>sv_http_requests := a\<rparr>) = server_inv server"
  "server_inv (server\<lparr>sv_sessions_total := a\<rparr>) = server_inv server"
  "server_inv (server\<lparr>sv_create_failures := a\<rparr>) = server_inv server"
  "server_inv (server\<lparr>sv_camera_restarts := a\<rparr>) = server_inv server"
  "server_inv (server\<lparr>sv_webrtc_restarts := a\<rparr>) = server_inv server"
  "server_inv (server\<lparr>sv_config_reloads := a\<rparr>) = server_inv server"
  "server_inv (server\<lparr>sv_recoveries := a\<rparr>) = server_inv server"
  "server_inv (server\<lparr>sv_discontinuities := a\<rparr>) = server_inv server"
  "server_inv (server\<lparr>sv_retry_ms := a\<rparr>) = server_inv server"
  "server_inv (server\<lparr>sv_failures := b\<rparr>) = server_inv server"
  "server_inv (server\<lparr>sv_globals := g\<rparr>) = server_inv server"
  "server_inv (server\<lparr>sv_gstats := gs\<rparr>) = server_inv server"
  "server_inv (server\<lparr>sv_config := cfg\<rparr>) = server_inv server"
  "server_inv (server\<lparr>sv_dtls_ready := f\<rparr>) = server_inv server"
  "server_inv (server\<lparr>sv_force_idr := f\<rparr>) = server_inv server"
  "server_inv (server\<lparr>sv_log_debug := f\<rparr>) = server_inv server"
  "server_inv (server\<lparr>sv_encoder_override := t\<rparr>) = server_inv server"
  "server_inv (server\<lparr>sv_pipeline_error := t\<rparr>) = server_inv server"
  "server_inv (server\<lparr>sv_sample_ms := a\<rparr>) = server_inv server"
  "server_inv (server\<lparr>sv_sample_captured := a\<rparr>) = server_inv server"
  "server_inv (server\<lparr>sv_sample_encoded := a\<rparr>) = server_inv server"
  "server_inv (server\<lparr>sv_sample_bytes_sent := a\<rparr>) = server_inv server"
  by (simp_all add: server_inv_def pipeline_ok_def)

lemma media_pipeline_stop_ok: "server_inv server \<Longrightarrow> server_inv (media_pipeline_stop server)"
  by (simp add: server_inv_def pipeline_ok_def media_pipeline_stop_def ring_ok_def)

lemma ring_ok_create: "ring_ok (au_ring_create junk ok efd AU_SLOT_CAPACITY AU_RING_SLOTS)"
proof (cases "au_ring_create junk ok efd AU_SLOT_CAPACITY AU_RING_SLOTS")
  case (Some r)
  then show ?thesis using ring_inv_create [OF _ Some]
    by (auto simp: ring_ok_def AU_SLOT_CAPACITY_def AU_RING_SLOTS_def au_ring_create_def split: if_splits)
qed (simp add: ring_ok_def)

text \<open>A start either builds the whole pipeline or releases all of it.\<close>

lemma media_pipeline_start_ok:
  assumes "server_inv server" "media_pipeline_start env server = (rc, error, server')"
  shows "server_inv server'" "rc = 0 \<longleftrightarrow> sv_running server'" "length error < 256"
proof -
  note eq = assms(2) [unfolded media_pipeline_start_def media_pipeline_stop_def Let_def]
  have "(rc = 0 \<and> sv_running server' \<and> sv_source server' \<noteq> None \<and> sv_source_worker server' \<and> sv_hub server' \<and> sv_encoder server' \<noteq> None \<and>
        sv_encoder_worker server' \<noteq> None \<and> sv_ring server' \<noteq> None \<or>
      rc \<noteq> 0 \<and> \<not> sv_running server' \<and> sv_source server' = None \<and> \<not> sv_source_worker server' \<and> \<not> sv_hub server' \<and> sv_encoder server' = None \<and>
        sv_encoder_worker server' = None \<and> sv_ring server' = None \<and> \<not> sv_media_active server')"
    using eq by (auto split: option.splits if_splits prod.splits)
  moreover have "ring_ok (sv_ring server')"
    using eq ring_ok_create [of "pe_ring_junk env" "pe_ring_ok env" "pe_ring_efd env"] by (auto simp: ring_ok_def split: option.splits if_splits prod.splits)
  moreover have "sv_sessions server' = sv_sessions server \<and> sv_session_sample_ms server' = sv_session_sample_ms server \<and>
      sv_session_sample_bytes server' = sv_session_sample_bytes server \<and> sv_client_frames server' = sv_client_frames server \<and>
      sv_client_report_ms server' = sv_client_report_ms server \<and> sv_client_width server' = sv_client_width server \<and>
      sv_client_height server' = sv_client_height server \<and> sv_client_decoding server' = sv_client_decoding server"
    using eq by (auto split: option.splits if_splits prod.splits)
  ultimately show "server_inv server'" "rc = 0 \<longleftrightarrow> sv_running server'" using assms(1) by (auto simp: server_inv_def pipeline_ok_def)
  show "length error < 256" using eq length_fit [of 256] by (auto split: option.splits if_splits prod.splits)
qed

text \<open>A pipeline that does not run has its next start scheduled.\<close>

definition retry_armed :: "'s Server \<Rightarrow> bool" where
  "retry_armed server \<longleftrightarrow> sv_running server \<or> sv_retry_ms server \<noteq> 0"

lemma retry_armed_cong: "pipeline_of s = pipeline_of server \<Longrightarrow> retry_armed s = retry_armed server"
  by (simp add: retry_armed_def pipeline_of_def)

lemma retry_armed_frame [simp]:
  "retry_armed (server\<lparr>sv_sessions_total := a\<rparr>) = retry_armed server"
  "retry_armed (server\<lparr>sv_create_failures := a\<rparr>) = retry_armed server"
  "retry_armed (server\<lparr>sv_http_requests := a\<rparr>) = retry_armed server"
  "retry_armed (server\<lparr>sv_http_errors := a\<rparr>) = retry_armed server"
  "retry_armed (server\<lparr>sv_webrtc_restarts := a\<rparr>) = retry_armed server"
  "retry_armed (server\<lparr>sv_config_reloads := a\<rparr>) = retry_armed server"
  "retry_armed (server\<lparr>sv_globals := g, sv_dtls_ready := f\<rparr>) = retry_armed server"
  by (simp_all add: retry_armed_def)

text \<open>The delays: 5, 10, 20, 40 and 60 seconds.\<close>

lemmas retry_consts = PIPELINE_RETRY_MS_def PIPELINE_RETRY_MAX_MS_def

lemma retry_delays:
  "retry_loop (Suc 0) 5000 = 10000" "retry_loop (Suc (Suc 0)) 5000 = 20000" "retry_loop (Suc (Suc (Suc 0))) 5000 = 40000"
  "retry_loop (Suc (Suc (Suc (Suc n)))) 5000 = 80000"
proof -
  have "retry_loop k 80000 = 80000" for k by (cases k) (simp_all add: PIPELINE_RETRY_MAX_MS_def)
  then show "retry_loop (Suc (Suc (Suc (Suc n)))) 5000 = 80000" by (simp add: PIPELINE_RETRY_MAX_MS_def)
qed (simp_all add: PIPELINE_RETRY_MAX_MS_def)

definition backoff :: "nat \<Rightarrow> u64" where
  "backoff k = (if k \<ge> 5 then 60000 else 5000 * 2 ^ (k - 1))"

lemma schedule_retry_backoff: "pipeline_schedule_retry now server = server\<lparr>sv_retry_ms := now + backoff (unat (sv_failures server))\<rparr>"
proof -
  define k where "k = unat (sv_failures server)"
  consider "k = 0" | "k = 1" | "k = Suc (Suc 0)" | "k = Suc (Suc (Suc 0))" | "k = Suc (Suc (Suc (Suc 0)))"
    | n where "k = Suc (Suc (Suc (Suc (Suc n))))" by (metis One_nat_def not0_implies_Suc)
  then have "(if retry_loop (k - 1) PIPELINE_RETRY_MS > PIPELINE_RETRY_MAX_MS then PIPELINE_RETRY_MAX_MS
      else retry_loop (k - 1) PIPELINE_RETRY_MS) = backoff k"
    by cases (simp_all add: backoff_def retry_consts retry_delays del: retry_loop.simps(2))
  then show ?thesis unfolding pipeline_schedule_retry_def Let_def k_def by simp
qed

lemma backoff_later: "now < 2 ^ 63 \<Longrightarrow> now + backoff k \<noteq> 0 \<and> now < now + backoff k"
proof -
  assume now: "now < 2 ^ 63"
  have "0 < backoff k \<and> backoff k \<le> 60000"
  proof (cases "k \<ge> 5")
    case False
    then consider "k = 0" | "k = 1" | "k = 2" | "k = 3" | "k = 4" by linarith
    then show ?thesis by cases (simp_all add: backoff_def)
  qed (simp add: backoff_def)
  then have b: "0 < unat (backoff k)" "unat (backoff k) \<le> 60000" by (simp_all add: word_less_nat_alt word_le_nat_alt)
  have n: "unat now < 2 ^ 63" using now by (simp add: word_less_nat_alt)
  have "unat (now + backoff k) = unat now + unat (backoff k)" using b n by (subst unat_add_lem [THEN iffD1]) simp_all
  then show ?thesis using b by (auto simp: word_less_nat_alt unat_eq_zero [symmetric])
qed

lemma pipeline_schedule_retry_ok:
  "server_inv server \<Longrightarrow> server_inv (pipeline_schedule_retry now server)"
  "now < 2 ^ 63 \<Longrightarrow> retry_armed (pipeline_schedule_retry now server)"
  using backoff_later by (simp_all add: schedule_retry_backoff retry_armed_def)

lemma media_supervise_ok:
  assumes "server_inv server"
  shows "server_inv (media_supervise ef sf env now server)"
    "0 < now \<Longrightarrow> now < 2 ^ 63 \<Longrightarrow> retry_armed server \<Longrightarrow> retry_armed (media_supervise ef sf env now server)"
proof -
  show "server_inv (media_supervise ef sf env now server)"
    using assms by (auto simp: media_supervise_def Let_def media_pipeline_stop_ok pipeline_schedule_retry_ok
      dest: media_pipeline_start_ok(1) split: prod.splits)
  assume now: "0 < now" "now < 2 ^ 63" and armed: "retry_armed server"
  have "now + 5000 \<noteq> 0" using backoff_later [OF now(2), of 1] by (simp add: backoff_def)
  then show "retry_armed (media_supervise ef sf env now server)"
    using armed now pipeline_schedule_retry_ok(2) [OF now(2)] media_pipeline_start_ok(2) [OF assms]
    by (auto simp: media_supervise_def Let_def PIPELINE_RETRY_MS_def retry_armed_def split: prod.splits)
qed

section \<open>Requests\<close>

text \<open>A handler that returns a reply and keeps the invariant.\<close>

definition served :: "'s Server \<Rightarrow> (reply \<times> 's Server) option \<Rightarrow> bool" where
  "served server x \<longleftrightarrow> (\<exists>r s. x = Some (r, s) \<and> server_inv s \<and> (retry_armed server \<longrightarrow> retry_armed s))"

lemma served_reply [intro]:
  "server_inv s \<Longrightarrow> (retry_armed server \<longrightarrow> retry_armed s) \<Longrightarrow> served server (Some (reply_json code body s))"
  "server_inv s \<Longrightarrow> (retry_armed server \<longrightarrow> retry_armed s) \<Longrightarrow> served server (Some (reply_error code message s))"
  by (auto simp: served_def reply_json_def reply_error_def Let_def retry_armed_def)

lemma served_if: "served s x \<Longrightarrow> served s y \<Longrightarrow> served s (if c then x else y)"
  by simp

definition body_ok :: "string \<Rightarrow> bool" where
  "body_ok body \<longleftrightarrow> c_str body = [] \<or> last (c_str body) \<noteq> backslash"

lemma body_array_text:
  assumes "body_array cap stack body = Some b"
  shows "\<exists>rest. b = c_str body @ NUL # rest"
proof (cases "dropWhile (\<lambda>c. c \<noteq> NUL) body")
  case Nil
  then have "c_str body = body" by (simp add: c_str_def dropWhile_eq_Nil_conv takeWhile_eq_all_conv)
  then show ?thesis using assms by (auto simp: body_array_def split: if_splits)
next
  case (Cons c r)
  then have "c = NUL" "body = c_str body @ NUL # r"
    using hd_dropWhile [of "\<lambda>c. c \<noteq> NUL" body] takeWhile_dropWhile_id [of "\<lambda>c. c \<noteq> NUL" body] by (auto simp: c_str_def)
  then show ?thesis using assms by (auto simp: body_array_def split: if_splits) (metis append_Cons append_assoc)
qed

lemma c_str_no_nul: "NUL \<notin> set (c_str s)"
  by (auto simp: c_str_def dest: set_takeWhileD)

lemma json_get_long_total:
  assumes "body_array cap stack body = Some b" "NUL \<notin> set field"
  shows "\<exists>r. json_get_long b field = Some r"
proof -
  obtain rest where b: "b = c_str body @ NUL # rest" using body_array_text [OF assms(1)] by blast
  have "NUL \<notin> set (quote # field @ [quote])" using assms(2) by (simp add: json_chars)
  from find_str_terminated [OF c_str_no_nul this] obtain f where
    f: "find_str (quote # field @ [quote]) b = Some (map_option (\<lambda>u. u @ NUL # rest) f)"
      "\<And>u. f = Some u \<Longrightarrow> prefix (quote # field @ [quote]) u" unfolding b by blast
  show ?thesis
  proof (cases f)
    case (Some u)
    then have "length field + 2 \<le> length u" using prefix_length_le [OF f(2)] by simp
    then have "drop (length field + 2) (u @ NUL # rest) = drop (length field + 2) u @ NUL # rest" by simp
    then show ?thesis using f(1) Some skip_space_terminated [of "drop (length field + 2) u" rest]
      by (cases "dropWhile json_space (drop (length field + 2) u)") (simp_all add: json_get_long_def del: drop_append)
  qed (use f(1) in \<open>simp add: json_get_long_def\<close>)
qed

lemma json_get_string_total:
  assumes "body_array cap stack body = Some b" "body_ok body" "NUL \<notin> set field" "0 < n"
  shows "\<exists>r. json_get_string b field n = Some r"
  using body_array_text [OF assms(1)] json_get_string_terminated [OF c_str_no_nul _ assms(4,3), of body] assms(2)
  by (auto simp: body_ok_def)

lemma rtc_session_create_total:
  assumes "offer_ok (rc_offer cfg)" "0 < cap"
  shows "\<exists>rc w a. rtc_session_create ce cfg cap ans gs = Some (rc, w, a)"
proof -
  have total: "\<exists>n a. sdp_build_answer (Some (rc_offer cfg)) (Some ac) (Some ans) cap = Some (n, a)" for ac
  proof (cases "\<exists>address ips. candidate_ips ac = Some address # ips")
    case True
    then obtain address ips where "candidate_ips ac = Some address # ips" by blast
    from build_answer_lines [OF _ assms(2) this] assms(1) show ?thesis by (auto simp: offer_ok_def Let_def)
  next
    case False
    then show ?thesis by (auto simp: sdp_build_answer_def split: list.splits option.splits)
  qed
  have t: "sdp_build_answer (Some (rc_offer cfg)) (Some ac) (Some ans) cap \<noteq> None" for ac using total [of ac] by auto
  have "rtc_session_create ce cfg cap ans gs \<noteq> None"
    by (auto simp: t rtc_session_create_def Let_def split: if_splits option.splits prod.splits bind_splits)
  then show ?thesis by auto
qed


lemma seat_session_at_ok: "server_inv server \<Longrightarrow> rtc_inv w \<Longrightarrow> server_inv (seat_session_at i w server)"
  using seat_ok_iff [of w] by (simp add: seat_session_at_def server_inv_def pipeline_ok_def list_all_update)

lemma handle_offer_ok:
  fixes server :: "'s Server"
  assumes "server_inv server" "body_ok body" "create_ok (oe_create env)"
  shows "served server (handle_offer env env' body server)"
proof (cases "body_array 16384 (oe_stack env) body")
  case None
  then show ?thesis using assms(1) by (auto simp: handle_offer_def)
next
  case (Some b)
  obtain sdp where sdp: "json_get_string b ''sdp'' 8192 = Some sdp"
    using json_get_string_total [OF Some assms(2), of "''sdp''" 8192] by (auto simp: NUL_def)
  show ?thesis
  proof (cases sdp)
    case None
    then show ?thesis using Some sdp assms(1) by (auto simp: handle_offer_def)
  next
    case (Some s)
    note b = \<open>body_array 16384 (oe_stack env) body = Some b\<close>
    obtain rc off reason where p: "sdp_parse_offer (Some (c_str s)) (Some empty_offer) (Some 192) = Some (rc, Some off, reason)"
      "offer_ok off" using sdp_parse_offer_total [of "c_str s" empty_offer 192] by blast
    define i where "i = find (\<lambda>i. sv_sessions server ! i = None) [0..<MAX_RTC_SESSIONS]"
    show ?thesis
    proof (cases "rc \<noteq> 0 \<or> \<not> sv_dtls_ready server \<or> i = None")
      case True
      then show ?thesis using b sdp Some p(1) assms(1) by (auto simp: handle_offer_def i_def [symmetric])
    next
      case False
      then obtain k where k: "i = Some k" by auto
      then have "k < 8" by (auto simp: i_def find_Some_iff MAX_RTC_SESSIONS_def)
      let ?cfg = "session_config env off k server" and ?ce = "(oe_create env)\<lparr>ce_globals := sv_globals server\<rparr>"
      have "rc_offer ?cfg = off" by (simp add: session_config_def Let_def)
      then obtain rc' a and w :: "'s rtc_world option" where c: "rtc_session_create ?ce ?cfg 8192 [] (sv_gstats server) = Some (rc', w, a)"
        using rtc_session_create_total [of ?cfg 8192 ?ce "[]" "sv_gstats server"] p(2) by auto
      show ?thesis
      proof (cases w)
        case None
        then show ?thesis using b sdp Some p(1) assms(1) False k c
          by (simp add: handle_offer_def i_def [symmetric] Let_def served_reply)
      next
        case (Some w')
        have "create_ok ?ce" using assms(3) by (simp add: create_ok_def)
        from rtc_session_create_inv(1) [OF _ this] c Some have "rtc_inv w'" by blast
        from seat_session_at_ok [OF assms(1) this] have inv: "server_inv (seat_session_at k w' server)" .
        obtain s' where d: "destroy_session env' k (seat_session_at k w' server) = Some s'" "server_inv s'"
          "pipeline_of s' = pipeline_of (seat_session_at k w' server)" using destroy_session_ok [OF inv \<open>k < 8\<close>] by blast
        have "pipeline_of (seat_session_at k w' server) = pipeline_of server" by (simp add: seat_session_at_def pipeline_of_def)
        then have armed: "retry_armed (seat_session_at k w' server) = retry_armed server" "retry_armed s' = retry_armed server"
          using d(3) by (metis retry_armed_cong)+
        let ?w = "answer_payload (rtc_session_id (Some (user w'))) (rc_udp_port ?cfg) (c_str a)"
        have "handle_offer env env' body server =
          (if json_finish ?w \<noteq> 0
           then Some (reply_error 500 ''answer payload overflow'' (s'\<lparr>sv_sessions_total := sv_sessions_total s' - 1\<rparr>))
           else Some (reply_json 200 (jw_buffer ?w) (seat_session_at k w' server)))"
          using b sdp \<open>sdp = Some s\<close> p(1) False k c Some d(1) by (simp add: handle_offer_def i_def [symmetric] Let_def)
        then show ?thesis using inv d(2) armed by (simp add: served_reply)
      qed
    qed
  qed
qed

lemma find_session_bound: "find_session sid server = Some i \<Longrightarrow> i < 8"
  by (auto simp: find_session_def find_Some_iff MAX_RTC_SESSIONS_def)

lemma handle_close_ok:
  assumes "server_inv server"
  shows "served server (handle_close stack env body server)"
proof (cases "body_array 512 stack body")
  case None
  then show ?thesis using assms by (auto simp: handle_close_def)
next
  case (Some b)
  obtain sid where sid: "json_get_long b ''session_id'' = Some sid"
    using json_get_long_total [OF Some, of "''session_id''"] by (auto simp: NUL_def)
  show ?thesis
  proof (cases "\<exists>x i. sid = Some x \<and> \<not> (x \<le> 0 \<or> x > 4294967295) \<and> find_session (of_int x) server = Some i")
    case True
    then obtain x i where x: "sid = Some x" "\<not> (x \<le> 0 \<or> x > 4294967295)" "find_session (of_int x) server = Some i" by blast
    obtain s where "on_session (rtc_session_close env) i server = Some s" "server_inv s" "pipeline_of s = pipeline_of server"
      using on_session_ok [OF assms find_session_bound [OF x(3)] session_op_close] by blast
    then show ?thesis using Some sid x retry_armed_cong by (auto simp: handle_close_def)
  next
    case False
    then show ?thesis using Some sid assms by (auto simp: handle_close_def split: option.splits)
  qed
qed

lemma handle_client_stats_ok:
  assumes "server_inv server"
  shows "served server (handle_client_stats stack now body server)"
proof (cases "body_array 512 stack body")
  case None
  then show ?thesis using assms by (auto simp: handle_client_stats_def)
next
  case (Some b)
  obtain sid fr w h where long: "json_get_long b ''session_id'' = Some sid" "json_get_long b ''frames_decoded'' = Some fr"
    "json_get_long b ''frame_width'' = Some w" "json_get_long b ''frame_height'' = Some h"
    using json_get_long_total [OF Some, of "''session_id''"] json_get_long_total [OF Some, of "''frames_decoded''"]
      json_get_long_total [OF Some, of "''frame_width''"] json_get_long_total [OF Some, of "''frame_height''"] by (auto simp: NUL_def)
  show ?thesis
  proof (cases "\<exists>x d i. sid = Some x \<and> \<not> (x \<le> 0 \<or> x > 4294967295) \<and> fr = Some d \<and> \<not> d < 0 \<and> find_session (of_int x) server = Some i")
    case True
    then obtain x d i where x: "sid = Some x" "\<not> (x \<le> 0 \<or> x > 4294967295)" "fr = Some d" "\<not> d < 0" "find_session (of_int x) server = Some i"
      by blast
    have i: "i < 8" "length (sv_client_frames server) = 8" using find_session_bound [OF x(5)] assms by (simp_all add: server_inv_def)
    have inv: "server_inv (server\<lparr>sv_client_decoding := (sv_client_decoding server)[i := p], sv_client_frames := (sv_client_frames server)[i := q],
        sv_client_width := (sv_client_width server)[i := r], sv_client_height := (sv_client_height server)[i := s],
        sv_client_report_ms := (sv_client_report_ms server)[i := t]\<rparr>)" for p q r s t
      using assms by (simp add: server_inv_def pipeline_ok_def)
    show ?thesis using Some long x i inv by (auto simp: handle_client_stats_def Let_def retry_armed_def)
  next
    case False
    then show ?thesis using Some long assms by (auto simp: handle_client_stats_def split: option.splits)
  qed
qed

lemma handle_camera_restart_ok:
  assumes "server_inv server" "now < 2 ^ 63"
  shows "served server (Some (handle_camera_restart env now server))"
proof -
  let ?s = "(media_pipeline_stop (server\<lparr>sv_camera_restarts := sv_camera_restarts server + 1\<rparr>))\<lparr>sv_encoder_override := []\<rparr>"
  obtain rc error s where p: "media_pipeline_start env ?s = (rc, error, s)" by (metis prod_cases3)
  have "server_inv ?s" using media_pipeline_stop_ok [of "server\<lparr>sv_camera_restarts := sv_camera_restarts server + 1\<rparr>"] assms(1) by simp
  from media_pipeline_start_ok(1,2) [OF this p] have s: "server_inv s" "rc = 0 \<longrightarrow> sv_running s" by simp_all
  have "retry_armed (s\<lparr>sv_pipeline_error := e, sv_failures := f, sv_retry_ms := r, sv_force_idr := x\<rparr>)" if "rc = 0" for e f r x
    using s(2) that by (simp add: retry_armed_def)
  moreover have "server_inv (pipeline_schedule_retry now (s\<lparr>sv_pipeline_error := e, sv_failures := f\<rparr>)) \<and>
      retry_armed (pipeline_schedule_retry now (s\<lparr>sv_pipeline_error := e, sv_failures := f\<rparr>))" for e f
    using pipeline_schedule_retry_ok(1) [of "s\<lparr>sv_pipeline_error := e, sv_failures := f\<rparr>" now] s(1)
      pipeline_schedule_retry_ok(2) [OF assms(2), of "s\<lparr>sv_pipeline_error := e, sv_failures := f\<rparr>"] by simp
  ultimately show ?thesis using p s(1)
    by (simp add: handle_camera_restart_def Let_def served_reply)
qed

lemma sessions_close_all_ok:
  fixes server :: "'s Server"
  assumes "server_inv server"
  shows "\<exists>s'. sessions_close_all env server = Some s' \<and> server_inv s' \<and> sv_sessions s' = replicate 8 None \<and> \<not> sv_media_active s' \<and>
     sv_globals s' = sv_globals server \<and> retry_armed s' = retry_armed server"
proof -
  have "\<exists>s'. for_upto 8 (\<lambda>i. destroy_session (env i) i) server = Some s' \<and>
     (server_inv s' \<and> pipeline_of s' = pipeline_of server \<and> (\<forall>j < 8. sv_sessions s' ! j = None))"
  proof (rule for_upto_inv [where P = "\<lambda>k s. server_inv s \<and> pipeline_of s = pipeline_of server \<and> (\<forall>j < k. sv_sessions s ! j = None)"])
    fix k and s :: "'s Server"
    assume k: "k < 8" and P: "server_inv s \<and> pipeline_of s = pipeline_of server \<and> (\<forall>j < k. sv_sessions s ! j = None)"
    have l: "length (sv_sessions s) = 8" using P by (simp add: server_inv_def)
    obtain s' where s': "destroy_session (env k) k s = Some s'" "server_inv s'" "pipeline_of s' = pipeline_of s"
      "sv_sessions s' = (sv_sessions s)[k := None]" using destroy_session_ok [of s k "env k"] P k by blast
    moreover have "\<forall>j < Suc k. sv_sessions s' ! j = None" using s'(4) P k l by (simp add: nth_list_update less_Suc_eq)
    ultimately show "\<exists>s'. destroy_session (env k) k s = Some s' \<and> (server_inv s' \<and> pipeline_of s' = pipeline_of server \<and> (\<forall>j < Suc k. sv_sessions s' ! j = None))"
      using P by simp
  qed (use assms in simp_all)
  then obtain s' where s': "for_upto 8 (\<lambda>i. destroy_session (env i) i) server = Some s'" "server_inv s'" "pipeline_of s' = pipeline_of server"
    "\<forall>j < 8. sv_sessions s' ! j = None" by blast
  have "sv_sessions s' = replicate 8 None" using s'(2,4) by (intro nth_equalityI) (auto simp: server_inv_def)
  moreover have "server_inv (s'\<lparr>sv_media_active := False\<rparr>)" using s'(2) by (auto simp: server_inv_def pipeline_ok_def)
  ultimately show ?thesis using s' by (auto simp: sessions_close_all_def MAX_RTC_SESSIONS_def pipeline_of_def retry_armed_def)
qed

definition init_ok :: "init_env \<Rightarrow> bool" where
  "init_ok io \<longleftrightarrow> (case x509_digest io of None \<Rightarrow> True | Some md \<Rightarrow> length md = 32)"

lemma dtls_global_init_total: "init_ok io \<Longrightarrow> \<exists>rc g'. dtls_srtp_global_init io g = Some (rc, g')"
  by (auto simp: init_ok_def dtls_srtp_global_init_def generate_certificate_def Let_def format_fingerprint_text split: option.splits)

lemma handle_webrtc_restart_ok:
  assumes "server_inv server" "init_ok io"
  shows "served server (handle_webrtc_restart env io server)"
proof -
  let ?s = "server\<lparr>sv_webrtc_restarts := sv_webrtc_restarts server + 1\<rparr>"
  obtain s where s: "sessions_close_all env ?s = Some s" "server_inv s" "retry_armed s = retry_armed ?s"
    using sessions_close_all_ok [of ?s env] assms(1) by auto
  obtain rc g where "dtls_srtp_global_init io (dtls_srtp_global_shutdown (sv_globals s)) = Some (rc, g)"
    using dtls_global_init_total [OF assms(2)] by blast
  then show ?thesis using s by (simp add: handle_webrtc_restart_def Let_def served_reply)
qed

text \<open>A bitrate is applied when there is an encoder to take it.\<close>

definition bitrate_live :: "AppConfig \<Rightarrow> 's Server \<Rightarrow> bool" where
  "bitrate_live candidate server \<longleftrightarrow>
     bitrate_kbps candidate \<noteq> bitrate_kbps (sv_config server) \<and> sv_encoder_worker server \<noteq> None \<and> bitrate_kbps candidate \<noteq> 0"

lemma apply_runtime_config_server:
  "snd (snd (apply_runtime_config candidate n k server)) =
     (let s = (if bitrate_live candidate server
               then server\<lparr>sv_encoder_worker := Some (bitrate_kbps candidate),
                           sv_config := (sv_config server)\<lparr>bitrate_kbps := bitrate_kbps candidate\<rparr>\<rparr> else server)
      in if verbose candidate \<noteq> verbose (sv_config server)
         then s\<lparr>sv_log_debug := verbose candidate, sv_config := (sv_config s)\<lparr>verbose := verbose candidate\<rparr>\<rparr> else s)"
proof (cases "bitrate_live candidate server")
  case True
  then show ?thesis by (auto simp: apply_runtime_config_def bitrate_live_def Let_def split_beta)
next
  case False
  then show ?thesis
    by (cases "sv_encoder_worker server"; cases "bitrate_kbps candidate \<noteq> bitrate_kbps (sv_config server)")
      (simp_all add: apply_runtime_config_def bitrate_live_def Let_def split_beta)
qed

lemma apply_runtime_config_ok:
  assumes "server_inv server" "apply_runtime_config candidate n k server = (a, r, s)"
  shows "server_inv s" "retry_armed s = retry_armed server"
proof -
  have "server_inv (server\<lparr>sv_encoder_worker := Some x\<rparr>)" if "sv_encoder_worker server \<noteq> None" for x
    using assms(1) that by (auto simp: server_inv_def pipeline_ok_def split: if_splits)
  then show "server_inv s" "retry_armed s = retry_armed server"
    using apply_runtime_config_server [of candidate n k server] assms
    by (simp_all add: Let_def bitrate_live_def retry_armed_def split: if_splits)
qed

lemma handle_config_reload_ok:
  assumes "server_inv server"
  shows "served server (Some (handle_config_reload fs server))"
proof -
  let ?s = "server\<lparr>sv_config_reloads := sv_config_reloads server + 1\<rparr>"
  have s: "server_inv ?s" "retry_armed ?s = retry_armed server" using assms by (simp_all add: retry_armed_def)
  then show ?thesis using assms apply_runtime_config_ok [OF s(1)]
    by (auto simp: handle_config_reload_def Let_def split: prod.splits option.splits)
qed

text \<open>
  What a request needs: a cache of the right size, a SHA-256 digest of 32 bytes, a clock that has
  not run for 2^63 milliseconds and a body that no escape runs out of.
\<close>

definition request_ok :: "'s http_env \<times> http_request \<Rightarrow> bool" where
  "request_ok r \<longleftrightarrow> (case r of (env, m) \<Rightarrow> create_ok (oe_create (he_offer env)) \<and> init_ok (he_init env) \<and> body_ok (hr_body m) \<and>
     he_now env < 2 ^ 63)"

lemma http_event_handler_ok:
  assumes "server_inv server" "request_ok (env, m)"
  shows "served server (http_event_handler env m server)"
proof -
  let ?s = "server\<lparr>sv_http_requests := sv_http_requests server + 1\<rparr>"
  have inv: "server_inv ?s" using assms(1) by simp
  have armed: "retry_armed ?s = retry_armed server" by (simp add: retry_armed_def)
  have plain: "served ?s (Some ((c, t), ?s))" "served ?s (Some ((c, t), ?s\<lparr>sv_http_errors := e\<rparr>))" for c t e
    using inv by (simp_all add: served_def retry_armed_def)
  have reply: "served ?s (Some (reply_json c t ?s))" "served ?s (Some (reply_error c t ?s))" for c t using inv by auto
  have env: "create_ok (oe_create (he_offer env))" "init_ok (he_init env)" "body_ok (hr_body m)" "he_now env < 2 ^ 63"
    using assms(2) by (simp_all add: request_ok_def)
  have "served ?s (http_event_handler env m server)" unfolding http_event_handler_def Let_def
    by (intro served_if plain handle_offer_ok [OF inv env(3,1)] handle_close_ok [OF inv] handle_client_stats_ok [OF inv]
        handle_camera_restart_ok [OF inv env(4)] handle_webrtc_restart_ok [OF inv env(2)] handle_config_reload_ok [OF inv] reply)
  then show ?thesis by (simp add: served_def armed)
qed

lemma serve_requests_ok:
  assumes "server_inv server" "\<forall>r \<in> set ms. request_ok r"
  shows "\<exists>rs s'. serve_requests ms server = Some (rs, s') \<and> server_inv s' \<and> length rs = length ms \<and>
     (retry_armed server \<longrightarrow> retry_armed s')"
  using assms
proof (induction ms arbitrary: server)
  case (Cons r ms)
  obtain env m where r: "r = (env, m)" by fastforce
  then obtain a s where "http_event_handler env m server = Some (a, s)" "server_inv s" "retry_armed server \<longrightarrow> retry_armed s"
    using http_event_handler_ok [of server env m] Cons.prems by (auto simp: served_def)
  then show ?case using Cons.IH [of s] Cons.prems(2) r by fastforce
qed simp

end
