(* ===== verification/App_Server_Loop.thy ===== *)
theory App_Server_Loop
  imports App_Server_Props
begin

text \<open>
  The main loop of the application server: every turn completes and keeps the invariant, the poll
  set is bounded, the pipeline recovers, and every viewer gets the access units as if it were alone.
\<close>

section \<open>Media\<close>

lemma drain_ready_ok:
  assumes "server_inv server" "\<forall>x \<in> set fds. \<forall>i. snd (snd x) = Some i \<longrightarrow> i < 8" "\<forall>i. \<forall>d \<in> set (ready i). datagram_ok d"
  shows "\<exists>s'. drain_ready ready fds server = Some s' \<and> server_inv s' \<and> pipeline_of s' = pipeline_of server"
  using assms(1,2)
proof (induction fds arbitrary: server)
  case (Cons x fds)
  obtain fd out owner where x: "x = (fd, out, owner)" by (cases x) auto
  have "\<exists>s. (case owner of None \<Rightarrow> Some server | Some i \<Rightarrow> drain_session_socket i MAX_DATAGRAMS_PER_POLL (ready i) server) = Some s \<and>
      server_inv s \<and> pipeline_of s = pipeline_of server"
    using Cons.prems x drain_ok [OF Cons.prems(1)] assms(3) by (cases owner) auto
  then show ?case using Cons.IH Cons.prems(2) x by fastforce
qed simp

lemma server_poll_ok:
  assumes "server_inv server" "\<forall>i. \<forall>d \<in> set (ready i). datagram_ok d"
  shows "\<exists>s'. server_poll env conns m e ready server = Some s' \<and> server_inv s' \<and> pipeline_of s' = pipeline_of server"
proof -
  obtain t fds where "poll_set env conns m e server = Some (t, fds)" "\<forall>x \<in> set fds. \<forall>i. snd (snd x) = Some i \<longrightarrow> i < 8"
    using poll_set_ok [OF assms(1), of env conns m e] by blast
  then show ?thesis using drain_ready_ok [OF assms(1) _ assms(2)] by (simp add: server_poll_def)
qed

lemma au_ring_push_ok:
  assumes "ring_ok q"
  shows "\<exists>rc q'. au_ring_push q data pts idr = Some (rc, q') \<and> ring_ok q' \<and> (q = None \<longleftrightarrow> q' = None)"
proof (cases "q = None \<or> data = None \<or> data = Some []")
  case True
  then show ?thesis using assms by (auto simp: au_ring_push_def split: option.splits)
next
  case False
  then obtain r d where r: "q = Some r" "data = Some d" "d \<noteq> []" by auto
  have inv: "ring_inv r" "slot_capacity r = AU_SLOT_CAPACITY" using assms r(1) by (simp_all add: ring_ok_def)
  show ?thesis
  proof (cases "length d \<le> slot_capacity r")
    case True
    then show ?thesis using push_fits_queue [OF inv(1) r(3), of pts idr] r(1,2) inv(2) by (fastforce simp: ring_ok_def)
  next
    case False
    have "ring_inv (r\<lparr>lost := True, dropped := dropped r + 1\<rparr>) = ring_inv r" by (rule ring_inv_cong) simp_all
    then show ?thesis using False push_locked_too_big [of r d pts idr] r inv by (auto simp: au_ring_push_def ring_ok_def)
  qed
qed

lemma push_units_ok: "ring_ok q \<Longrightarrow> \<exists>q'. push_units us q = Some q' \<and> ring_ok q' \<and> (q = None \<longleftrightarrow> q' = None)"
proof (induction us arbitrary: q)
  case (Cons u us)
  obtain au pts idr where u: "u = (au, pts, idr)" by (cases u) auto
  obtain rc q' where "au_ring_push q (Some au) pts idr = Some (rc, q')" "ring_ok q'" "q = None \<longleftrightarrow> q' = None"
    using au_ring_push_ok [OF Cons.prems, of "Some au" pts idr] by blast
  then show ?case using Cons.IH [of q'] u by auto
qed simp

lemma pop_loop_capacity: "pop_loop r c d = Some (r', d', t) \<Longrightarrow> slot_capacity r' = slot_capacity r"
proof (induction r c d rule: pop_loop.induct)
  case (1 r c d)
  show ?case
  proof (cases "0 < count r")
    case True
    then obtain m where m: "rd (meta r) (head r) = Some m"
      using "1.prems" by (subst (asm) pop_loop.simps) (auto simp: Let_def split: if_splits Option.bind_splits)
    show ?thesis
    proof (cases "m_size m > c")
      case big: True
      then show ?thesis using "1.IH" [OF True refl m refl big] "1.prems" True m pop_loop.simps [of r c d] by (simp add: Let_def)
    next
      case False
      then show ?thesis using "1.prems" True m pop_loop.simps [of r c d] by (auto simp: Let_def split: Option.bind_splits)
    qed
  next
    case False
    then show ?thesis using "1.prems" pop_loop.simps [of r c d] by simp
  qed
qed

lemma pop_locked_capacity: "pop_locked r buf w = Some (rc, r', buf', m) \<Longrightarrow> slot_capacity r' = slot_capacity r"
  by (auto simp: pop_locked_def clear_event_def Let_def split: Option.bind_splits option.splits if_splits)
    (erule pop_loop_capacity)+

text \<open>
  Every entry of the ring fits the buffer of the main thread, so the loop takes the entries one by
  one: the next one with its bytes, or none and the ring is empty.
\<close>

lemma ring_ok_small:
  assumes "ring_ok (Some r)" "length buf = AU_SLOT_CAPACITY"
  shows "dropWhile (oversize (length buf)) (queue r) = queue r"
proof -
  have "\<forall>x \<in> set (queue r). \<not> oversize (length buf) x"
    using queue_sizes [of r] assms by (fastforce simp: ring_ok_def oversize_def)
  then show ?thesis by (cases "queue r") auto
qed

lemma pop_next:
  assumes "ring_ok (Some r)" "length buf = AU_SLOT_CAPACITY"
  shows "case queue r of
      [] \<Rightarrow> \<exists>r'. au_ring_pop (Some r) buf True = Some (0, Some r', buf, None) \<and> ring_ok (Some r') \<and> queue r' = []
    | (m, d) # rest \<Rightarrow> \<exists>r'. au_ring_pop (Some r) buf True = Some (1, Some r', d @ drop (length d) buf, Some m) \<and>
        ring_ok (Some r') \<and> queue r' = rest \<and> length d = m_size m \<and> length d \<le> length buf"
proof -
  have inv: "ring_inv r" using assms(1) by (simp add: ring_ok_def)
  note spec = pop_locked_spec [OF inv, of buf True, unfolded ring_ok_small [OF assms]]
  show ?thesis
  proof (cases "queue r")
    case Nil
    then show ?thesis using spec pop_locked_capacity assms(1) by (fastforce simp: au_ring_pop_def ring_ok_def)
  next
    case (Cons x rest)
    obtain m d where x: "x = (m, d)" by (cases x)
    have "length (queue r) = Suc (length rest)" using Cons by simp
    then have c: "count r = Suc (length rest)" by simp
    have sz: "length d = m_size m \<and> m_size m \<le> slot_capacity r" using queue_sizes [OF inv, of m d] Cons x by simp
    have "m\<lparr>discontinuity := discontinuity m\<rparr> = m" by simp
    then obtain r' where r': "pop_locked r buf True = Some (1, r', d @ drop (length d) buf, Some m)" "ring_inv r'" "queue r' = rest"
      using spec Cons x c by auto
    then show ?thesis using pop_locked_capacity [OF r'(1)] assms sz Cons x by (auto simp: au_ring_pop_def ring_ok_def)
  qed
qed

definition session_env_ok :: "(nat \<Rightarrow> 's rtc_env) \<Rightarrow> bool" where
  "session_env_ok env \<longleftrightarrow> (\<forall>i. rtc_env_ok (env i))"

lemma send_unit_ok:
  assumes "server_inv server" "session_env_ok env" "i < 8"
  shows "\<exists>s'. send_unit env au m i server = Some s' \<and> server_inv s' \<and> pipeline_of s' = pipeline_of server"
proof -
  have l: "length (sv_sessions server) = 8" using assms(1) by (simp add: server_inv_def)
  show ?thesis using l assms on_session_ok [OF assms(1,3) session_op_send [of "env i" au "pts_us m" "is_idr m"]]
    by (auto simp: send_unit_def session_env_ok_def split: option.splits)
qed

lemma fan_out_unit_ok:
  assumes "server_inv server" "session_env_ok env"
  shows "\<exists>s'. fan_out_unit env au m server = Some s' \<and> server_inv s' \<and> pipeline_of s' = pipeline_of server"
proof -
  let ?s = "if discontinuity m then server\<lparr>sv_discontinuities := sv_discontinuities server + 1, sv_force_idr := True\<rparr> else server"
  have "server_inv ?s" "pipeline_of ?s = pipeline_of server" using assms(1) by (simp_all add: pipeline_of_def)
  then show ?thesis using for_sessions_ok [of ?s "send_unit env au m"] send_unit_ok [OF _ assms(2)]
    unfolding fan_out_unit_def by metis
qed

lemma fan_out_loop_ok:
  assumes "server_inv server" "ring_ok (Some r)" "length buf = AU_SLOT_CAPACITY" "\<And>k. session_env_ok (env k)"
  shows "\<exists>r' s'. fan_out_loop env buf r server = Some (r', s') \<and> server_inv s' \<and> pipeline_of s' = pipeline_of server \<and>
     ring_ok (Some r') \<and> queue r' = []"
  using assms(1-3)
proof (induction "count r" arbitrary: r buf server)
  case 0
  then have "queue r = []" by (simp add: queue_def)
  then show ?case using pop_next [OF "0.prems"(2,3)] "0.prems"(1) fan_out_loop.simps [of env buf r server] by auto
next
  case (Suc n)
  obtain m d rest where q: "queue r = (m, d) # rest" using Suc(2) length_queue [of r] by (cases "queue r") auto
  then obtain r' where r': "au_ring_pop (Some r) buf True = Some (1, Some r', d @ drop (length d) buf, Some m)"
    "ring_ok (Some r')" "queue r' = rest" "length d = m_size m" "length d \<le> length buf"
    using pop_next [OF Suc.prems(2,3)] by auto
  have c: "count r' = n" using Suc(2) q r'(3) length_queue [of r] length_queue [of r'] by simp
  obtain s where s: "fan_out_unit (env (count r')) d m server = Some s" "server_inv s" "pipeline_of s = pipeline_of server"
    using fan_out_unit_ok [OF Suc.prems(1) assms(4)] by blast
  have "fan_out_loop env buf r server = fan_out_loop env (d @ drop (length d) buf) r' s"
    using r'(1,4,5) s(1) fan_out_loop.simps [of env buf r server] by (simp add: rd_range_def)
  then show ?case using Suc.hyps(1) [of r' s "d @ drop (length d) buf"] c s r'(2,5) Suc.prems(3) by simp
qed

lemma fan_out_ok:
  assumes "server_inv server" "length buf = AU_SLOT_CAPACITY" "\<And>k. session_env_ok (env k)"
  shows "\<exists>s'. fan_out_access_units env buf server = Some s' \<and> server_inv s' \<and> retry_armed s' = retry_armed server"
proof (cases "sv_ring server")
  case (Some r)
  then have "ring_ok (Some r)" using assms(1) by (simp add: server_inv_def)
  from fan_out_loop_ok [OF assms(1) this assms(2), of env] assms(3) obtain r' s' where
    f: "fan_out_loop env buf r server = Some (r', s')" "server_inv s'" "pipeline_of s' = pipeline_of server" "ring_ok (Some r')" by blast
  have "sv_ring s' \<noteq> None" using f(3) Some by (simp add: pipeline_of_def)
  then have "server_inv (s'\<lparr>sv_ring := Some r'\<rparr>)" using f(2,4) by (auto simp: server_inv_def pipeline_ok_def split: if_splits)
  then show ?thesis using f Some by (simp add: fan_out_access_units_def pipeline_of_def retry_armed_def)
qed (use assms in \<open>simp add: fan_out_access_units_def\<close>)

text \<open>After reaping, every session in the table is open.\<close>

lemma reap_sessions_ok:
  fixes server :: "'s Server"
  assumes "server_inv server"
  shows "\<exists>s'. reap_sessions env server = Some s' \<and> server_inv s' \<and> (\<forall>j < 8. sv_sessions s' ! j = None \<or> open_seat (sv_sessions s' ! j)) \<and>
     (sv_media_active s' \<longleftrightarrow> sv_running s' \<and> 0 < sessions_active s') \<and> retry_armed s' = retry_armed server"
proof -
  let ?P = "\<lambda>k s. server_inv s \<and> pipeline_of s = pipeline_of server \<and> (\<forall>j < k. sv_sessions s ! j = None \<or> open_seat (sv_sessions s ! j))"
  have "\<exists>s'. for_upto 8 (reap_session env) server = Some s' \<and> ?P 8 s'"
  proof (rule for_upto_inv [where P = ?P])
    fix k and s :: "'s Server"
    assume k: "k < 8" and P: "?P k s"
    have l: "length (sv_sessions s) = 8" using P by (simp add: server_inv_def)
    show "\<exists>s'. reap_session env k s = Some s' \<and> ?P (Suc k) s'"
    proof (cases "sv_sessions s ! k = None \<or> open_seat (sv_sessions s ! k)")
      case True
      then show ?thesis using P k l by (auto simp: reap_session_def less_Suc_eq)
    next
      case False
      obtain s' where s': "destroy_session (env k) k s = Some s'" "server_inv s'" "pipeline_of s' = pipeline_of s"
        "sv_sessions s' = (sv_sessions s)[k := None]" using destroy_session_ok [of s k "env k"] P k by blast
      have "?P (Suc k) s'" using s'(2-4) P k l by (simp add: nth_list_update less_Suc_eq)
      then show ?thesis using s'(1) False k l by (auto simp: reap_session_def)
    qed
  qed (use assms in simp_all)
  then obtain s where s: "for_upto 8 (reap_session env) server = Some s" "?P 8 s" by blast
  have "sessions_active (s\<lparr>sv_media_active := x\<rparr>) = sessions_active s" for x by (simp add: sessions_active_def)
  moreover have "server_inv (s\<lparr>sv_media_active := sv_running s \<and> 0 < sessions_active s\<rparr>)"
    using s(2) by (auto simp: server_inv_def pipeline_ok_def split: if_splits)
  ultimately show ?thesis using s by (simp add: reap_sessions_def MAX_RTC_SESSIONS_def pipeline_of_def retry_armed_def)
qed

lemma sample_rates_ok:
  fixes server :: "'s Server"
  assumes "server_inv server"
  shows "\<exists>s'. sample_rates captured encoded now server = Some s' \<and> server_inv s' \<and> sv_sessions s' = sv_sessions server \<and>
     pipeline_of s' = pipeline_of server"
proof (cases "now - sv_sample_ms server < RATE_WINDOW_MS")
  case False
  let ?P = "\<lambda>(_ :: nat) (b :: u64, s). server_inv s \<and> sv_sessions s = sv_sessions server \<and> pipeline_of s = pipeline_of server"
  have "\<exists>st. for_upto 8 (sample_session now) (0, server) = Some st \<and> ?P 8 st"
  proof (rule for_upto_inv [where P = ?P])
    fix k :: nat and st :: "u64 \<times> 's Server"
    assume k: "k < 8" and P: "?P k st"
    obtain b s where st: "st = (b, s)" by fastforce
    have l: "length (sv_sessions s) = 8" "length (sv_session_sample_ms s) = 8" "length (sv_session_sample_bytes s) = 8"
      using P st by (auto simp: server_inv_def)
    have "server_inv (s\<lparr>sv_session_sample_ms := (sv_session_sample_ms s)[k := x], sv_session_sample_bytes := (sv_session_sample_bytes s)[k := y]\<rparr>)"
      for x y using P st by (auto simp: server_inv_def pipeline_ok_def)
    then show "\<exists>st'. sample_session now k st = Some st' \<and> ?P (Suc k) st'"
      using k l P st by (cases "sv_sessions s ! k") (simp_all add: sample_session_def pipeline_of_def wr_def Let_def)
  qed (use assms in simp)
  then obtain b s where s: "for_upto 8 (sample_session now) (0, server) = Some (b, s)" "?P 8 (b, s)" by auto
  then show ?thesis using False by (simp add: sample_rates_def MAX_RTC_SESSIONS_def pipeline_of_def)
qed (use assms in \<open>simp add: sample_rates_def\<close>)

section \<open>The main loop\<close>

text \<open>What the machine and the libraries guarantee during a turn.\<close>

definition turn_ok :: "'s turn \<Rightarrow> bool" where
  "turn_ok t \<longleftrightarrow> (\<forall>i. \<forall>d \<in> set (t_ready t i). datagram_ok d) \<and> (\<forall>r \<in> set (t_requests t). request_ok r) \<and>
     session_env_ok (t_tick t) \<and> (\<forall>k. session_env_ok (t_media t k)) \<and> length (t_buffer t) = AU_SLOT_CAPACITY \<and>
     0 < t_now t \<and> t_now t < 2 ^ 63"

lemma tick_all_ok:
  fixes server :: "'s Server"
  assumes "server_inv server" "session_env_ok env"
  shows "\<exists>s'. for_upto MAX_RTC_SESSIONS (\<lambda>i. on_session (rtc_session_tick (env i) now) i) server = Some s' \<and> server_inv s' \<and>
     pipeline_of s' = pipeline_of server"
proof (rule for_sessions_ok [OF assms(1)])
  fix i :: nat and s :: "'s Server" assume "i < 8" "server_inv s"
  then show "\<exists>s'. on_session (rtc_session_tick (env i) now) i s = Some s' \<and> server_inv s' \<and> pipeline_of s' = pipeline_of s"
    using on_session_ok [of s i, OF _ _ session_op_tick [of "env i" now]] assms(2) by (auto simp: session_env_ok_def)
qed

lemma media_supervise_sessions: "sv_sessions (media_supervise ef sf env now server) = sv_sessions server"
proof -
  have "sv_sessions (snd (snd (media_pipeline_start env server))) = sv_sessions server"
    by (simp add: media_pipeline_start_def media_pipeline_stop_def Let_def split: option.split prod.split)
  then show ?thesis
    by (simp add: media_supervise_def media_pipeline_stop_def pipeline_schedule_retry_def Let_def split_beta)
qed

lemma media_supervise_active:
  "sv_media_active (media_supervise ef sf env now server) \<Longrightarrow> \<not> sv_running server \<longrightarrow> \<not> sv_media_active server \<Longrightarrow>
     sv_media_active server \<and> sv_running (media_supervise ef sf env now server)"
  by (auto simp: media_supervise_def media_pipeline_start_def media_pipeline_stop_def pipeline_schedule_retry_def Let_def
      split: prod.splits option.splits if_splits)

lemma server_turn_ok:
  assumes "server_inv server" "turn_ok t"
  shows "\<exists>replies s'. server_turn t server = Some (replies, s') \<and> server_inv s' \<and> length replies = length (t_requests t) \<and>
     (\<forall>j < 8. sv_sessions s' ! j = None \<or> open_seat (sv_sessions s' ! j)) \<and>
     (sv_media_active s' \<longrightarrow> sv_running s' \<and> 0 < sessions_active s') \<and> (retry_armed server \<longrightarrow> retry_armed s')"
proof -
  have t: "\<forall>i. \<forall>d \<in> set (t_ready t i). datagram_ok d" "\<forall>r \<in> set (t_requests t). request_ok r" "session_env_ok (t_tick t)"
    "\<And>k. session_env_ok (t_media t k)" "length (t_buffer t) = AU_SLOT_CAPACITY" "0 < t_now t" "t_now t < 2 ^ 63"
    using assms(2) by (simp_all add: turn_ok_def)
  obtain s1 where s1: "server_poll (t_poll_env t) (t_conns t) (t_mdns_fd t) (t_event_no t) (t_ready t) server = Some s1" "server_inv s1"
    "pipeline_of s1 = pipeline_of server" using server_poll_ok [OF assms(1) t(1)] by blast
  obtain rs s2 where s2: "serve_requests (t_requests t) s1 = Some (rs, s2)" "server_inv s2" "length rs = length (t_requests t)"
    "retry_armed s1 \<longrightarrow> retry_armed s2" using serve_requests_ok [OF s1(2) t(2)] by blast
  obtain s3 where s3: "for_upto MAX_RTC_SESSIONS (\<lambda>i. on_session (rtc_session_tick (t_tick t i) (t_now t)) i) s2 = Some s3" "server_inv s3"
    "pipeline_of s3 = pipeline_of s2" using tick_all_ok [OF s2(2) t(3)] by blast
  have "ring_ok (sv_ring s3)" using s3(2) by (simp add: server_inv_def)
  from push_units_ok [OF this] obtain q where
    q: "push_units (t_pushed t) (sv_ring s3) = Some q" "ring_ok q" "sv_ring s3 = None \<longleftrightarrow> q = None" by blast
  define s4 where "s4 = s3\<lparr>sv_ring := q\<rparr>"
  have i4: "server_inv s4" using s3(2) q(2,3) by (auto simp: s4_def server_inv_def pipeline_ok_def split: if_splits)
  obtain s5 where s5: "(if sv_running s4 \<and> sv_ring s4 \<noteq> None then fan_out_access_units (t_media t) (t_buffer t) s4 else Some s4) = Some s5"
    "server_inv s5" "retry_armed s5 = retry_armed s4" using fan_out_ok [OF i4 t(5), of "t_media t"] t(4) i4 by (cases "sv_running s4 \<and> sv_ring s4 \<noteq> None") auto
  obtain s6 where s6: "reap_sessions (t_reap t) s5 = Some s6" "server_inv s6" "\<forall>j < 8. sv_sessions s6 ! j = None \<or> open_seat (sv_sessions s6 ! j)"
    "sv_media_active s6 \<longleftrightarrow> sv_running s6 \<and> 0 < sessions_active s6" "retry_armed s6 = retry_armed s5"
    using reap_sessions_ok [OF s5(2), of "t_reap t"] by blast
  define s7 where "s7 = media_supervise (t_encoder_failed t) (t_source_failed t) (t_pipe t) (t_now t) s6"
  have s7: "server_inv s7" "sv_sessions s7 = sv_sessions s6" unfolding s7_def by (rule media_supervise_ok(1) [OF s6(2)], rule media_supervise_sessions)
  have act: "sv_media_active s6 \<and> sv_running s7" if "sv_media_active s7"
    using media_supervise_active [of "t_encoder_failed t" "t_source_failed t" "t_pipe t" "t_now t" s6] that s6(4) unfolding s7_def by blast
  obtain s8 where s8: "sample_rates (t_captured t) (t_encoded t) (t_now t) s7 = Some s8" "server_inv s8" "sv_sessions s8 = sv_sessions s7"
    "pipeline_of s8 = pipeline_of s7" using sample_rates_ok [OF s7(1), of "t_captured t" "t_encoded t" "t_now t"] by blast
  have "server_turn t server = Some (rs, s8)" unfolding server_turn_def Let_def
    by (simp only: s1(1) s2(1) s3(1) q(1) s4_def [symmetric] s5(1) s6(1) s7_def [symmetric] s8(1) Option.bind_lunit prod.case)
  moreover have "sv_media_active s8 \<longrightarrow> sv_running s8 \<and> 0 < sessions_active s8"
    using s7(2) act s8(3,4) s6(4) by (simp add: pipeline_of_def sessions_active_def)
  moreover have "retry_armed s8" if "retry_armed server"
  proof -
    have "retry_armed s3" using that s2(4) retry_armed_cong [OF s1(3)] retry_armed_cong [OF s3(3)] by simp
    then have "retry_armed s6" using s5(3) s6(5) by (simp add: s4_def retry_armed_def)
    then show ?thesis using media_supervise_ok(2) [OF s6(2) t(6,7)] retry_armed_cong [OF s8(4)] by (simp add: s7_def)
  qed
  ultimately show ?thesis using s8(2,3) s7(2) s6(3) s2(3) by simp
qed

text \<open>The states of the server between two turns.\<close>

inductive server_reach :: "'s Server \<Rightarrow> bool" where
  start: "\<lbrakk>init_ok io; now < 2 ^ 63; server_start io env c g gs started now = Some server\<rbrakk> \<Longrightarrow> server_reach server"
| turn: "\<lbrakk>server_reach server; turn_ok t; server_turn t server = Some (replies, server')\<rbrakk> \<Longrightarrow> server_reach server'"

lemma blank_server_ok: "server_inv (blank_server c g gs now)"
  by (simp add: blank_server_def server_inv_def pipeline_ok_def ring_ok_def seat_ok_def MAX_RTC_SESSIONS_def list_all_length)

lemma server_start_ok:
  fixes server :: "'s Server"
  assumes "init_ok io" "now < 2 ^ 63" "server_start io env c g gs started now = Some server"
  shows "server_inv server" "retry_armed server"
proof -
  obtain rc g' where i: "dtls_srtp_global_init io g = Some (rc, g')" using dtls_global_init_total [OF assms(1)] by blast
  define b :: "'s Server" where "b = (blank_server c g' gs started)\<lparr>sv_dtls_ready := (rc = 0)\<rparr>"
  obtain rc' error s where p: "media_pipeline_start env b = (rc', error, s)" by (metis prod_cases3)
  have "server_inv b" using blank_server_ok by (simp add: b_def)
  from media_pipeline_start_ok(1,2) [OF this p] have s: "server_inv s" "rc' = 0 \<longleftrightarrow> sv_running s" .
  let ?f = "s\<lparr>sv_pipeline_error := fit 256 error, sv_failures := 1\<rparr>"
  have "server_inv (pipeline_schedule_retry now ?f)" "retry_armed (pipeline_schedule_retry now ?f)"
    using pipeline_schedule_retry_ok(1) [of ?f now] pipeline_schedule_retry_ok(2) [OF assms(2), of ?f] s(1) by simp_all
  moreover have "server = (if rc' \<noteq> 0 then pipeline_schedule_retry now ?f else s)"
    using assms(3) i p by (simp add: server_start_def b_def)
  ultimately show "server_inv server" "retry_armed server" using s by (simp_all add: retry_armed_def)
qed

lemma server_start_total: "init_ok io \<Longrightarrow> \<exists>server. server_start io env c g gs started now = Some server"
  using dtls_global_init_total [of io g] by (auto simp: server_start_def split_beta Let_def)

lemma server_reach_inv: "server_reach server \<Longrightarrow> server_inv server \<and> retry_armed server"
proof (induction rule: server_reach.induct)
  case (start io now env c g gs started server)
  then show ?case using server_start_ok [OF start(1-3)] by blast
next
  case (turn server t replies server')
  then show ?case using server_turn_ok [of server t] by auto
qed

section \<open>Every viewer as if alone\<close>

lemma dtls_send_g_stats: "dtls_srtp_send_rtp p (rtc_callbacks env) cap d w = Some (rc, b, w') \<Longrightarrow> g_stats w' = g_stats w"
  by (auto simp: dtls_srtp_send_rtp_def dtls_srtp_send_def rtc_callbacks_def dtls_send_udp_def Let_def
      split: if_splits option.splits prod.splits Option.bind_splits)

lemma packet_sink_g_stats: "rtp_packet_sink env p w = Some w' \<Longrightarrow> g_stats w' = g_stats w"
  by (auto simp: rtp_packet_sink_def Let_def split: if_splits Option.bind_splits dest!: dtls_send_g_stats)

lemma sink_all_g_stats: "sink_all env ps w = Some w' \<Longrightarrow> g_stats w' = g_stats w"
  by (induction ps arbitrary: w) (auto split: Option.bind_splits dest!: packet_sink_g_stats)

lemma send_g_stats: "rtc_session_send_access_unit env au pts idr w = Some (n, w') \<Longrightarrow> g_stats w' = g_stats w"
  by (auto simp: rtc_session_send_access_unit_def send_packets_def Let_def split: if_splits Option.bind_splits dest!: sink_all_g_stats)

text \<open>What one viewer gets of an access unit, and of the queue of the ring.\<close>

definition give_unit :: "'s rtc_env \<Rightarrow> AuMeta \<times> bytes \<Rightarrow> 's rtc_world \<Rightarrow> 's rtc_world option" where
  "give_unit env u w =
     (if rtc_state (user w) = RTC_STREAMING
      then map_option snd (rtc_session_send_access_unit env (snd u) (pts_us (fst u)) (is_idr (fst u)) w) else Some w)"

fun feed :: "(nat \<Rightarrow> 's rtc_env) \<Rightarrow> (AuMeta \<times> bytes) list \<Rightarrow> 's rtc_world \<Rightarrow> 's rtc_world option" where
  "feed env [] w = Some w"
| "feed env (u # us) w = do { w \<leftarrow> give_unit (env (length us)) u w; feed env us w }"

definition seat_of :: "'s rtc_world \<Rightarrow> 's seat" where
  "seat_of w = \<lparr>seat_engine = engine w, seat_session = user w\<rparr>"

definition fed :: "('s rtc_world \<Rightarrow> 's rtc_world option) \<Rightarrow> 's Server \<Rightarrow> 's seat option \<Rightarrow> 's seat option" where
  "fed f server s = (case s of None \<Rightarrow> None | Some seat \<Rightarrow> map_option seat_of (f (world_of server seat)))"

lemma give_unit_g_stats: "give_unit env u w = Some w' \<Longrightarrow> g_stats w' = g_stats w"
  by (auto simp: give_unit_def split: if_splits dest: send_g_stats)

lemma world_of_seat_of: "g_stats w = sv_gstats server \<Longrightarrow> world_of server (seat_of w) = w"
  by (simp add: world_of_def seat_of_def)

lemma send_unit_each:
  assumes "server_inv server" "session_env_ok env" "i < 8"
  shows "\<exists>s'. send_unit env d m i server = Some s' \<and> server_inv s' \<and> sv_gstats s' = sv_gstats server \<and>
     sv_sessions s' = (sv_sessions server)[i := fed (give_unit (env i) (m, d)) server (sv_sessions server ! i)]"
proof -
  have l: "length (sv_sessions server) = 8" using assms(1) by (simp add: server_inv_def)
  show ?thesis
  proof (cases "sv_sessions server ! i")
    case None
    then have "(sv_sessions server)[i := None] = sv_sessions server" by (metis list_update_id)
    then show ?thesis using None l assms by (simp add: send_unit_def fed_def)
  next
    case (Some seat)
    show ?thesis
    proof (cases "rtc_state (seat_session seat) = RTC_STREAMING")
      case False
      have "(sv_sessions server)[i := Some seat] = sv_sessions server" using Some by (metis list_update_id)
      moreover have "seat_of (world_of server seat) = seat" by (simp add: seat_of_def world_of_def)
      moreover have "rtc_state (user (world_of server seat)) \<noteq> RTC_STREAMING" using False by (simp add: world_of_def)
      ultimately show ?thesis using Some l assms False by (simp add: send_unit_def fed_def give_unit_def rtc_session_state_def)
    next
      case True
      have op: "session_op (\<lambda>w. map_option snd (rtc_session_send_access_unit (env i) d (pts_us m) (is_idr m) w))"
        using assms(2) by (intro session_op_send) (simp add: session_env_ok_def)
      have "rtc_env_ok (env i)" using assms(2) by (simp add: session_env_ok_def)
      from send_access_unit_ok [OF this seat_world [OF assms(1,3) Some], of d "pts_us m" "is_idr m" undefined]
      obtain n w where w: "rtc_session_send_access_unit (env i) d (pts_us m) (is_idr m) (world_of server seat) = Some (n, w)"
        "rtc_inv w" by (auto simp: step_ok_def)
      have g: "g_stats w = sv_gstats server" using send_g_stats [OF w(1)] by (simp add: world_of_def)
      have "sv_gstats (absorb i seat w server) = sv_gstats server" using g by (simp add: absorb_def run_hooks_eq)
      moreover have "rtc_state (user (world_of server seat)) = RTC_STREAMING" using True by (simp add: world_of_def)
      ultimately show ?thesis using Some l assms True w absorb_ok(1,3) [OF assms(1,3) w(2), of seat]
        by (simp add: send_unit_def fed_def give_unit_def rtc_session_state_def on_session_def seat_of_def)
    qed
  qed
qed

lemma fan_out_unit_each:
  fixes server :: "'s Server"
  assumes "server_inv server" "session_env_ok env"
  shows "\<exists>s'. fan_out_unit env d m server = Some s' \<and> server_inv s' \<and> sv_gstats s' = sv_gstats server \<and>
     (\<forall>i < 8. sv_sessions s' ! i = fed (give_unit (env i) (m, d)) server (sv_sessions server ! i))"
proof -
  define s0 where "s0 = (if discontinuity m then server\<lparr>sv_discontinuities := sv_discontinuities server + 1, sv_force_idr := True\<rparr> else server)"
  have s0: "server_inv s0" "sv_gstats s0 = sv_gstats server" "sv_sessions s0 = sv_sessions server" using assms(1) by (simp_all add: s0_def)
  let ?f = "\<lambda>i. fed (give_unit (env i) (m, d)) server (sv_sessions server ! i)"
  let ?P = "\<lambda>k s. server_inv s \<and> sv_gstats s = sv_gstats server \<and>
     (\<forall>i < 8. sv_sessions s ! i = (if i < k then ?f i else sv_sessions server ! i))"
  have "\<exists>s'. for_upto 8 (send_unit env d m) s0 = Some s' \<and> ?P 8 s'"
  proof (rule for_upto_inv [where P = ?P])
    fix k and s :: "'s Server"
    assume k: "k < 8" and P: "?P k s"
    have l: "length (sv_sessions s) = 8" using P by (simp add: server_inv_def)
    obtain s' where s': "send_unit env d m k s = Some s'" "server_inv s'" "sv_gstats s' = sv_gstats s"
      "sv_sessions s' = (sv_sessions s)[k := fed (give_unit (env k) (m, d)) s (sv_sessions s ! k)]"
      using send_unit_each [OF _ assms(2) k] P by blast
    have "fed (give_unit (env k) (m, d)) s (sv_sessions s ! k) = ?f k" using P k by (simp add: fed_def world_of_def split: option.split)
    then have "?P (Suc k) s'" using s' P k l by (auto simp: nth_list_update)
    then show "\<exists>s'. send_unit env d m k s = Some s' \<and> ?P (Suc k) s'" using s'(1) by blast
  qed (use s0 in simp)
  then show ?thesis by (auto simp: fan_out_unit_def s0_def [symmetric] MAX_RTC_SESSIONS_def)
qed

lemma fan_out_loop_each:
  assumes "server_inv server" "ring_ok (Some r)" "length buf = AU_SLOT_CAPACITY" "\<And>k. session_env_ok (env k)"
  shows "\<exists>r' s'. fan_out_loop env buf r server = Some (r', s') \<and> queue r' = [] \<and>
     (\<forall>i < 8. sv_sessions s' ! i = fed (feed (\<lambda>k. env k i) (queue r)) server (sv_sessions server ! i))"
  using assms(1-3)
proof (induction "count r" arbitrary: r buf server)
  case 0
  then have q: "queue r = []" by (simp add: queue_def)
  have "fed Some server s = s" for s by (simp add: fed_def world_of_def seat_of_def split: option.split)
  then show ?case using pop_next [OF "0.prems"(2,3)] "0.prems"(1) fan_out_loop.simps [of env buf r server] q by auto
next
  case (Suc n)
  obtain m d rest where q: "queue r = (m, d) # rest" using Suc(2) length_queue [of r] by (cases "queue r") auto
  then obtain r' where r': "au_ring_pop (Some r) buf True = Some (1, Some r', d @ drop (length d) buf, Some m)"
    "ring_ok (Some r')" "queue r' = rest" "length d = m_size m" "length d \<le> length buf"
    using pop_next [OF Suc.prems(2,3)] by auto
  have c: "count r' = n" "length rest = n" using Suc(2) q r'(3) length_queue [of r] length_queue [of r'] by simp_all
  obtain s where s: "fan_out_unit (env n) d m server = Some s" "server_inv s" "sv_gstats s = sv_gstats server"
    "\<forall>i < 8. sv_sessions s ! i = fed (give_unit (env n i) (m, d)) server (sv_sessions server ! i)"
    using fan_out_unit_each [OF Suc.prems(1) assms(4)] by blast
  have eq: "fan_out_loop env buf r server = fan_out_loop env (d @ drop (length d) buf) r' s"
    using r'(1,4,5) s(1) c(1) fan_out_loop.simps [of env buf r server] by (simp add: rd_range_def)
  have "fed (feed (\<lambda>k. env k i) rest) s (fed (give_unit (env n i) (m, d)) server x) = fed (feed (\<lambda>k. env k i) (queue r)) server x" for i x
    using q c(2) s(3) give_unit_g_stats [of "env n i" "(m, d)"]
    by (auto simp: fed_def world_of_seat_of world_of_def split: option.split)
      (metis dtls_world.select_convs(2) world_of_def world_of_seat_of)
  then show ?case using Suc.hyps(1) [of r' s "d @ drop (length d) buf"] c s(2,4) r'(2,3,5) Suc.prems(3) unfolding eq by auto
qed

section \<open>Properties of the main loop\<close>


text \<open>
  The poll set fits its array of 74 entries whatever number of HTTP connections is open, the
  timeout lies between 0 and the idle wake-up, and every open session is in the set with its
  socket and bounds the timeout by the session wake-up: no viewer waits longer for its timers.
\<close>

theorem server_poll_set_bounded:
  assumes "server_reach server"
  shows "\<exists>t fds. poll_set env conns m e server = Some (t, fds) \<and> length fds \<le> MAX_POLL_FDS \<and> 0 \<le> t \<and> t \<le> IDLE_WAKE_MS \<and>
     (\<forall>i < 8. open_seat (sv_sessions server ! i) \<longrightarrow> t \<le> SESSION_WAKE_MS \<and>
        (\<exists>seat. sv_sessions server ! i = Some seat \<and> (udp_fd (seat_session seat), False, Some i) \<in> set fds))"
  using poll_set_ok [of server env conns m e] server_reach_inv [OF assms] by blast

text \<open>The constructors of the pipeline all succeed.\<close>

definition pipe_works :: "pipe_env \<Rightarrow> bool" where
  "pipe_works env \<longleftrightarrow> pe_source env \<noteq> None \<and> pe_hub_ok env \<and> pe_ring_ok env \<and> pe_encoder env \<noteq> None \<and> pe_encoder_worker env \<and>
     pe_encoder_started env \<and> pe_source_worker env \<and> pe_source_started env"

lemma media_pipeline_start_works: "fst (media_pipeline_start env server) = 0 \<longleftrightarrow> pipe_works env"
  by (auto simp: media_pipeline_start_def pipe_works_def Let_def au_ring_create_def AU_SLOT_CAPACITY_def AU_RING_SLOTS_def split: option.splits)

lemma media_pipeline_start_counters:
  "media_pipeline_start env server = (rc, error, s) \<Longrightarrow> sv_recoveries s = sv_recoveries server \<and> sv_failures s = sv_failures server \<and>
     sv_sessions s = sv_sessions server"
  by (auto simp: media_pipeline_start_def media_pipeline_stop_def Let_def split: option.splits if_splits prod.splits)

text \<open>
  A camera or an encoder that fails does not take the server down for good: in every reachable
  state whose pipeline is down a new start is scheduled. Nothing happens before that time; from
  then on the supervisor starts the pipeline again, and it runs as soon as its constructors
  succeed, with the error cleared. A start that fails is tried again after 5, 10, 20, 40 and then
  always 60 seconds. The viewers' sessions survive all of it.
\<close>

theorem pipeline_recovers:
  fixes server :: "'s Server" and env :: pipe_env and now :: u64 and ef sf :: bool
  assumes "server_reach server" "\<not> sv_running server"
  defines "s' \<equiv> media_supervise ef sf env now server"
  shows "sv_retry_ms server \<noteq> 0 \<and> sv_sessions s' = sv_sessions server \<and> (now < sv_retry_ms server \<longrightarrow> s' = server) \<and>
     (sv_retry_ms server \<le> now \<and> pipe_works env \<longrightarrow>
        sv_running s' \<and> sv_pipeline_error s' = [] \<and> sv_failures s' = 0 \<and> sv_recoveries s' = sv_recoveries server + 1) \<and>
     (sv_retry_ms server \<le> now \<and> \<not> pipe_works env \<longrightarrow>
        \<not> sv_running s' \<and> sv_retry_ms s' = now + backoff (unat (sv_failures server + 1)) \<and> sv_failures s' = sv_failures server + 1)"
proof -
  have inv: "server_inv server" "retry_armed server" using server_reach_inv [OF assms(1)] by simp_all
  then have armed: "sv_retry_ms server \<noteq> 0" using assms(2) by (simp add: retry_armed_def)
  obtain rc error s where p: "media_pipeline_start env server = (rc, error, s)" by (metis prod_cases3)
  note start = media_pipeline_start_ok(2) [OF inv(1) p] media_pipeline_start_counters [OF p] media_pipeline_start_works [of env server, unfolded p]
  have sess: "sv_sessions s' = sv_sessions server" unfolding s'_def by (rule media_supervise_sessions)
  have "s' = server" if "now < sv_retry_ms server" using that assms(2) by (simp add: s'_def media_supervise_def)
  moreover have "s' = s\<lparr>sv_retry_ms := 0, sv_failures := 0, sv_pipeline_error := [], sv_recoveries := sv_recoveries s + 1\<rparr>"
    if "sv_retry_ms server \<le> now" "pipe_works env"
    using that assms(2) armed p start(3) by (simp add: s'_def media_supervise_def)
  moreover have "s' = pipeline_schedule_retry now (s\<lparr>sv_pipeline_error := fit 256 error, sv_failures := sv_failures s + 1\<rparr>)"
    if "sv_retry_ms server \<le> now" "\<not> pipe_works env"
    using that assms(2) armed p start(3) by (simp add: s'_def media_supervise_def)
  ultimately show ?thesis using armed sess start by (auto simp: schedule_retry_backoff)
qed

text \<open>
  C20: Every viewer is served as if it were alone: a fan-out empties the ring, and the session in each
  slot ends up where it would be if exactly the queued access units, in their order and each of
  them once, had been sent to it (and it is skipped while it does not stream).
\<close>

theorem fan_out_each_viewer:
  assumes "server_inv server" "sv_ring server = Some r" "length buf = AU_SLOT_CAPACITY" "\<And>k i. rtc_env_ok (env k i)"
  shows "\<exists>s' r'. fan_out_access_units env buf server = Some s' \<and> sv_ring s' = Some r' \<and> queue r' = [] \<and>
     (\<forall>i < 8. sv_sessions s' ! i = (case sv_sessions server ! i of None \<Rightarrow> None
        | Some seat \<Rightarrow> map_option seat_of (feed (\<lambda>k. env k i) (queue r) (world_of server seat))))"
proof -
  have "ring_ok (Some r)" using assms(1,2) by (simp add: server_inv_def)
  moreover have "session_env_ok (env k)" for k using assms(4) by (simp add: session_env_ok_def)
  ultimately obtain r' s' where "fan_out_loop env buf r server = Some (r', s')" "queue r' = []"
    "\<forall>i < 8. sv_sessions s' ! i = fed (feed (\<lambda>k. env k i) (queue r)) server (sv_sessions server ! i)"
    using fan_out_loop_each [OF assms(1) _ assms(3)] by blast
  then show ?thesis using assms(2) by (simp add: fan_out_access_units_def fed_def)
qed

end
