(* ===== verification/App_Signalling.thy ===== *)
theory App_Signalling
  imports App_Server_Loop
begin

text \<open>
  The HTTP interface of the application server: the reload of the configuration and the answer to
  an offer.
\<close>

section \<open>Reload of the configuration\<close>

text \<open>A list of quoted names.\<close>

definition joined :: "string list \<Rightarrow> string" where
  "joined ns = concat (map (\<lambda>(k, n). (if k > 0 then '','' else '''') @ jstr n) (enumerate 0 ns))"

definition weight :: "string list \<Rightarrow> nat" where
  "weight ns = sum_list (map (\<lambda>n. length n + 3) ns)"

lemma joined_nil [simp]: "joined [] = []"
  by (simp add: joined_def)

lemma joined_snoc: "joined (ns @ [n]) = joined ns @ (if ns \<noteq> [] then '','' else '''') @ jstr n"
  by (simp add: joined_def enumerate_append_eq)

lemma joined_weight: "length (joined ns) \<le> weight ns"
proof (induction ns rule: rev_induct)
  case (snoc n ns)
  then show ?case by (simp add: joined_snoc weight_def jstr_def)
qed simp

lemma joined_empty: "joined ns = [] \<longleftrightarrow> ns = []"
  by (cases ns rule: rev_cases) (simp_all add: joined_snoc jstr_def)

lemma note_change_joined:
  assumes "weight ns + length n + 3 < cap"
  shows "note_change cap n (joined ns, length (joined ns)) = (joined (ns @ [n]), length (joined (ns @ [n])))"
proof -
  have "length (joined (ns @ [n])) < cap" using assms joined_weight [of "ns @ [n]"] by (simp add: weight_def)
  then show ?thesis using joined_empty [of ns] by (simp add: note_change_def joined_snoc Let_def fit_def)
qed

lemma note_changes_joined:
  assumes "weight ns + weight (map fst cs) < cap"
  shows "fold (\<lambda>(name, changed) st. if changed then note_change cap name st else st) cs (joined ns, length (joined ns)) =
     (joined (ns @ map fst (filter snd cs)), length (joined (ns @ map fst (filter snd cs))))"
  using assms
proof (induction cs arbitrary: ns)
  case (Cons c cs)
  obtain name changed where c: "c = (name, changed)" by fastforce
  have "weight (ns @ [name]) + weight (map fst cs) < cap" "weight ns + weight (map fst cs) < cap" "weight ns + length name + 3 < cap"
    using Cons.prems c by (simp_all add: weight_def)
  then show ?case using Cons.IH [of "ns @ [name]"] Cons.IH [of ns] note_change_joined [of ns name cap] c by simp
qed simp

definition live_changes :: "AppConfig \<Rightarrow> 's Server \<Rightarrow> string list" where
  "live_changes candidate server =
     (if bitrate_live candidate server then [''bitrate_kbps''] else []) @
     (if verbose candidate \<noteq> verbose (sv_config server) then [''verbose''] else [])"

definition held_changes :: "AppConfig \<Rightarrow> 's Server \<Rightarrow> string list" where
  "held_changes candidate server =
     (if bitrate_kbps candidate \<noteq> bitrate_kbps (sv_config server) \<and> \<not> bitrate_live candidate server then [''bitrate_kbps''] else []) @
     map fst (filter snd (config_checks candidate (sv_config server)))"

lemma config_checks_frame [simp]:
  "config_checks candidate (c\<lparr>bitrate_kbps := b\<rparr>) = config_checks candidate c"
  "config_checks candidate (c\<lparr>verbose := v\<rparr>) = config_checks candidate c"
  by (simp_all add: config_checks_def)

lemma config_checks_weight: "weight (map fst (config_checks candidate c)) = 146"
  by (simp add: config_checks_def weight_def)

lemma apply_runtime_config_lists:
  assumes "apply_runtime_config candidate 512 512 server = (applied, restart, s)"
  shows "applied = joined (live_changes candidate server)" "restart = joined (held_changes candidate server)"
proof -
  have n1: "note_change 512 x ([], 0) = (joined [x], length (joined [x]))" if "length x < 500" for x
    using note_change_joined [of "[]" x 512] that by (simp add: weight_def joined_def)
  have n2: "note_change 512 ''verbose'' (joined [''bitrate_kbps''], length (joined [''bitrate_kbps''])) =
      (joined [''bitrate_kbps'', ''verbose''], length (joined [''bitrate_kbps'', ''verbose'']))"
    using note_change_joined [of "[''bitrate_kbps'']" "''verbose''" 512] by (simp add: weight_def)
  let ?cs = "config_checks candidate (sv_config server)"
  have f: "fold (\<lambda>(name, changed) st. if changed then note_change 512 name st else st) ?cs (joined ns, length (joined ns)) =
      (joined (ns @ map fst (filter snd ?cs)), length (joined (ns @ map fst (filter snd ?cs))))" if "ns \<in> {[], [''bitrate_kbps'']}" for ns
    using that by (intro note_changes_joined) (auto simp: config_checks_weight, auto simp: weight_def)
  have f0: "fold (\<lambda>(name, changed) st. if changed then note_change 512 name st else st) ?cs ([], 0) =
      (joined (map fst (filter snd ?cs)), length (joined (map fst (filter snd ?cs))))" using f [of "[]"] by (simp add: joined_def)
  show "applied = joined (live_changes candidate server)"
    using assms by (cases "sv_encoder_worker server"; cases "bitrate_kbps candidate \<noteq> bitrate_kbps (sv_config server)";
      cases "bitrate_kbps candidate = 0"; cases "verbose candidate \<noteq> verbose (sv_config server)")
      (simp_all add: apply_runtime_config_def Let_def split_beta live_changes_def bitrate_live_def n1 n2)
  show "restart = joined (held_changes candidate server)"
    using assms f0 f [of "[''bitrate_kbps'']"]
    by (cases "sv_encoder_worker server"; cases "bitrate_kbps candidate \<noteq> bitrate_kbps (sv_config server)";
      cases "bitrate_kbps candidate = 0"; cases "verbose candidate \<noteq> verbose (sv_config server)")
      (simp_all add: apply_runtime_config_def Let_def split_beta held_changes_def bitrate_live_def n1)
qed

lemma escape_char_length: "length (escape_char c) \<le> 2"
  by (simp add: escape_char_def)

lemma json_text_length: "length (json_text v) \<le> 2 * length v + 2"
proof -
  have "length (concat (map escape_char v)) \<le> 2 * length v"
  proof (induction v)
    case (Cons c v)
    then show ?case using escape_char_length [of c] by simp
  qed simp
  then show ?thesis by (simp add: json_text_def)
qed

lemma reload_reply_fits:
  fixes server :: "'s Server" and c :: AppConfig
  assumes "length path < 256"
  defines "w \<equiv> json_raw ('','' @ jstr ''applied'' @ '':['' @ joined (live_changes c server) @ ''],'' @ jstr ''restart_required'' @ '':['' @
       joined (held_changes c server) @ '']}'') (json_string path (json_raw (''{'' @ jstr ''file'' @ '':'') (json_begin 1400)))"
  shows "json_finish w = 0" "jw_buffer w = ''{'' @ jstr ''file'' @ '':'' @ json_text path @ '','' @ jstr ''applied'' @ '':['' @
       joined (live_changes c server) @ ''],'' @ jstr ''restart_required'' @ '':['' @ joined (held_changes c server) @ '']}''"
proof -
  let ?T = "((''{'' @ jstr ''file'' @ '':'') @ json_text path) @ '','' @ jstr ''applied'' @ '':['' @ joined (live_changes c server) @ ''],'' @
       jstr ''restart_required'' @ '':['' @ joined (held_changes c server) @ '']}''"
  have "written (json_begin 1400) []" by (rule written_begin) simp
  from written_raw [OF this, of "''{'' @ jstr ''file'' @ '':''"] have "written w ?T"
    unfolding w_def by (intro written_raw written_string) simp_all
  from written_finish [OF this] have fin: "json_finish w = 0 \<longleftrightarrow> length ?T < 1400" "json_finish w = 0 \<longrightarrow> jw_buffer w = ?T"
    by (simp_all add: w_def json_begin_def)
  have "weight (map fst (filter snd cs)) \<le> weight (map fst cs)" for cs :: "(string \<times> bool) list"
    by (induction cs) (simp_all add: weight_def)
  from this [of "config_checks c (sv_config server)"] have "weight (map fst (filter snd (config_checks c (sv_config server)))) \<le> 146"
    by (simp add: config_checks_weight)
  then have "weight (held_changes c server) \<le> 161" by (simp add: held_changes_def weight_def)
  moreover have "weight (live_changes c server) \<le> 25" by (simp add: live_changes_def weight_def)
  ultimately have "length (joined (held_changes c server)) \<le> 161" "length (joined (live_changes c server)) \<le> 25"
    using joined_weight order_trans by blast+
  then have "length ?T < 1400" using json_text_length [of path] assms(1) by (simp add: jstr_def)
  then show "json_finish w = 0" "jw_buffer w = ''{'' @ jstr ''file'' @ '':'' @ json_text path @ '','' @ jstr ''applied'' @ '':['' @
       joined (live_changes c server) @ ''],'' @ jstr ''restart_required'' @ '':['' @ joined (held_changes c server) @ '']}''"
    using fin by simp_all
qed

lemma reply_error_effect: "\<exists>body code'. code' \<in> {code, 500} \<and> reply_error code message server =
     ((code', body), if code' \<ge> 400 then server\<lparr>sv_http_errors := sv_http_errors server + 1\<rparr> else server)"
  by (auto simp: reply_error_def reply_json_def Let_def)

text \<open>
  A reload applies the bitrate (to a running encoder) and the log level and nothing else: the
  pipeline, the sessions and every other setting stay as they are, and the reply lists exactly the
  names of the settings that were applied and of those in the file that wait for a restart. A file
  that cannot be read or does not pass the validation changes nothing but the two counters.
\<close>

theorem config_reload_effect:
  assumes "config_path (sv_config server) = path" "path \<noteq> []" "length path < 256"
    "app_config_load_file fs (app_config_defaults\<lparr>config_path := path\<rparr>) (Some path) = (e, candidate)"
  shows "if e = None \<and> app_config_validate candidate = None
     then handle_config_reload fs server =
       ((200, ''{'' @ jstr ''file'' @ '':'' @ json_text path @ '','' @ jstr ''applied'' @ '':['' @ joined (live_changes candidate server) @
              ''],'' @ jstr ''restart_required'' @ '':['' @ joined (held_changes candidate server) @ '']}''),
        server\<lparr>sv_config_reloads := sv_config_reloads server + 1,
          sv_config := (sv_config server)\<lparr>bitrate_kbps := (if bitrate_live candidate server then bitrate_kbps candidate
              else bitrate_kbps (sv_config server)), verbose := verbose candidate\<rparr>,
          sv_encoder_worker := (if bitrate_live candidate server then Some (bitrate_kbps candidate) else sv_encoder_worker server),
          sv_log_debug := (if verbose candidate \<noteq> verbose (sv_config server) then verbose candidate else sv_log_debug server)\<rparr>)
     else \<exists>code body. code \<in> {400, 500} \<and> handle_config_reload fs server =
       ((code, body), server\<lparr>sv_config_reloads := sv_config_reloads server + 1, sv_http_errors := sv_http_errors server + 1\<rparr>)"
proof -
  let ?s = "server\<lparr>sv_config_reloads := sv_config_reloads server + 1\<rparr>"
  have fit: "fit 256 path = path" using assms(3) by (simp add: fit_def)
  show ?thesis
  proof (cases "e = None \<and> app_config_validate candidate = None")
    case True
    obtain a r s where p: "apply_runtime_config candidate 512 512 ?s = (a, r, s)" by (metis prod_cases3)
    have same: "live_changes candidate ?s = live_changes candidate server" "held_changes candidate ?s = held_changes candidate server"
      "bitrate_live candidate ?s = bitrate_live candidate server" by (simp_all add: live_changes_def held_changes_def bitrate_live_def)
    note lists = apply_runtime_config_lists [OF p, unfolded same]
    have s: "s = server\<lparr>sv_config_reloads := sv_config_reloads server + 1,
          sv_config := (sv_config server)\<lparr>bitrate_kbps := (if bitrate_live candidate server then bitrate_kbps candidate
              else bitrate_kbps (sv_config server)), verbose := verbose candidate\<rparr>,
          sv_encoder_worker := (if bitrate_live candidate server then Some (bitrate_kbps candidate) else sv_encoder_worker server),
          sv_log_debug := (if verbose candidate \<noteq> verbose (sv_config server) then verbose candidate else sv_log_debug server)\<rparr>"
      using apply_runtime_config_server [of candidate 512 512 ?s] p same(3) by (simp add: Let_def split: if_splits)
    have path: "config_path (sv_config s) = path" using assms(1) by (simp add: s)
    show ?thesis using True assms p lists path reload_reply_fits [OF assms(3), of candidate server]
      unfolding s [symmetric] by (simp add: handle_config_reload_def Let_def fit reply_json_def)
  next
    case False
    have "\<exists>code body. code \<in> {400, 500} \<and> reply_error 400 m ?s = ((code, body), ?s\<lparr>sv_http_errors := sv_http_errors ?s + 1\<rparr>)" for m
      using reply_error_effect [of 400 m ?s] by auto
    then show ?thesis using False assms fit by (auto simp: handle_config_reload_def Let_def split: option.splits)
  qed
qed

section \<open>The answer to an offer\<close>

lemma find_str_skip: "quote \<notin> set t \<Longrightarrow> NUL \<notin> set t \<Longrightarrow> find_str (quote # k) (t @ r) = find_str (quote # k) r"
  by (induction t) (auto simp: c_str_def)

lemma find_str_other: "c \<noteq> quote \<Longrightarrow> c \<noteq> NUL \<Longrightarrow> find_str (quote # k) (c # r) = find_str (quote # k) r"
  by (simp add: c_str_def)

lemma find_str_quote: "find_str (quote # k) (quote # r) = (if prefix k (c_str r) then Some (Some (quote # r)) else find_str (quote # k) r)"
  by (simp add: c_str_def json_chars)

lemma c_str_Cons: "c_str (c # r) = (if c = NUL then [] else c # c_str r)"
  by (simp add: c_str_def)

lemma show_nat_plain: "quote \<notin> set (show_nat n)" "NUL \<notin> set (show_nat n)"
  using show_nat_digits [of quote n] show_nat_digits [of NUL n] by (auto simp: isdigit_def json_chars)

lemma strtoll10_show_nat:
  assumes "n < 2 ^ 63" "rest = [] \<or> \<not> isdigit (hd rest)"
  shows "strtoll10 (show_nat n @ rest) = Some (int n)"
proof -
  obtain c s where cs: "show_nat n = c # s" using show_nat_nonempty by (cases "show_nat n") auto
  then have c: "isdigit c" using show_nat_digits [of c n] by simp
  then have "\<not> isspace c" "c \<noteq> CHR ''-''" "c \<noteq> CHR ''+''" by (auto simp: isdigit_def isspace_def)
  then have s: "sign (dropWhile isspace (show_nat n @ rest)) = (False, show_nat n @ rest)" using cs by (simp add: sign_def)
  have "digits_val (show_nat n @ rest) 0 = n"
    using assms(2) show_nat_digits digits_val_show_nat by (cases rest) (simp_all add: digits_val_append)
  then show ?thesis using s cs c assms(1) by (simp add: strtoll10_def)
qed

text \<open>The text of the reply to an offer, and what a client reads from it.\<close>

definition answer_text :: "u32 \<Rightarrow> u16 \<Rightarrow> string \<Rightarrow> string" where
  "answer_text sid port answer =
     CHR ''{'' # jstr ''type'' @ '':'' @ jstr ''answer'' @ '','' @ jstr ''session_id'' @ '':'' @ show_nat (unat sid) @ '','' @
     jstr ''udp_port'' @ '':'' @ show_nat (unat port) @ '','' @ jstr ''sdp'' @ '':'' @ json_text answer @ ''}''"

lemma answer_payload_written: "written (answer_payload sid port answer) (answer_text sid port answer)"
  "jw_capacity (answer_payload sid port answer) = 12288"
proof -
  define h where "h = ''{'' @ jstr ''type'' @ '':'' @ jstr ''answer'' @ '','' @ jstr ''session_id'' @ '':'' @ show_nat (unat sid) @ '','' @
        jstr ''udp_port'' @ '':'' @ show_nat (unat port) @ '','' @ jstr ''sdp'' @ '':''"
  have "written (json_begin 12288) []" by (rule written_begin) simp
  from written_raw [OF this, of h] have "written (json_raw h (json_begin 12288)) h" by (simp add: h_def)
  from written_raw [OF written_string [OF this], of "''}''" answer] have "written (answer_payload sid port answer) (h @ json_text answer @ ''}'')"
    unfolding answer_payload_def h_def by simp
  moreover have "h @ json_text answer @ ''}'' = answer_text sid port answer" by (simp add: h_def answer_text_def)
  ultimately show "written (answer_payload sid port answer) (answer_text sid port answer)" by simp
  show "jw_capacity (answer_payload sid port answer) = 12288" by (simp add: answer_payload_def json_begin_def)
qed

lemma answer_payload_text:
  "json_finish (answer_payload sid port answer) = 0 \<Longrightarrow> jw_buffer (answer_payload sid port answer) = answer_text sid port answer"
  using written_finish [OF answer_payload_written(1)] by blast

lemmas find_str_walk = find_str_other [unfolded json_chars] find_str_quote [unfolded json_chars] find_str_skip [unfolded json_chars]
  c_str_Cons [unfolded json_chars] show_nat_plain [unfolded json_chars]

lemma answer_text_sdp:
  assumes "NUL \<notin> set answer" "0 < n"
  shows "json_get_string (answer_text sid port answer @ [NUL]) ''sdp'' n = Some (if length answer < n then Some (map kept_char answer) else None)"
proof -
  let ?v = "json_text answer @ ''}'' @ [NUL]"
  have f: "find_str (quote # ''sdp'' @ [quote]) (answer_text sid port answer @ [NUL]) = Some (Some (quote # ''sdp'' @ [quote] @ CHR '':'' # ?v))"
    by (simp add: answer_text_def jstr_def json_chars find_str_walk del: find_str.simps)
  have "json_get_string (answer_text sid port answer @ [NUL]) ''sdp'' n = decode_loop n [] (concat (map escape_char answer) @ quote # ''}'' @ [NUL])"
    unfolding json_get_string_def by (subst find_value.simps, simp only: f) (simp add: json_space_def json_text_def json_chars)
  then show ?thesis using decode_text [OF assms(1), of "[]" n "''}'' @ [NUL]"] assms(2) by simp
qed

lemma answer_text_session_id: "json_get_long (answer_text sid port answer @ [NUL]) ''session_id'' = Some (Some (uint sid))"
proof -
  let ?v = "'','' @ jstr ''udp_port'' @ '':'' @ show_nat (unat port) @ '','' @ jstr ''sdp'' @ '':'' @ json_text answer @ ''}'' @ [NUL]"
  have f: "find_str (quote # ''session_id'' @ [quote]) (answer_text sid port answer @ [NUL]) =
      Some (Some (quote # ''session_id'' @ [quote] @ CHR '':'' # show_nat (unat sid) @ ?v))"
    by (simp add: answer_text_def jstr_def json_chars find_str_walk del: find_str.simps)
  have "c_str (show_nat (unat sid) @ ?v) = show_nat (unat sid) @ CHR '','' # c_str (tl ?v)"
    using show_nat_plain(2) by (simp add: c_str_append c_str_Cons NUL_def)
  moreover have "unat sid < 2 ^ LENGTH(32)" by (rule unsigned_less)
  ultimately have "strtoll10 (c_str (show_nat (unat sid) @ ?v)) = Some (uint sid)"
    using strtoll10_show_nat [of "unat sid" "CHR '','' # c_str (tl ?v)"] by (simp add: isdigit_def)
  moreover have "\<not> json_space (CHR '':'')" by (simp add: json_space_def json_chars)
  ultimately show ?thesis unfolding json_get_long_def by (simp only: f) simp
qed

lemma rtc_session_create_answer:
  assumes "rtc_session_create ce cfg cap ans gs = Some (rc, Some w, a)" "offer_ok (rc_offer cfg)" "0 < cap"
  shows "rc = 0 \<and> length a < cap \<and> config (user w) = cfg"
proof -
  obtain ac n out where b: "sdp_build_answer (Some (rc_offer cfg)) (Some ac) (Some ans) cap = Some (n, out)" "n \<noteq> 0"
    and r: "rc = 0" "a = (case out of None \<Rightarrow> ans | Some x \<Rightarrow> x)" "config (user w) = cfg"
    using assms(1) by (auto simp: rtc_session_create_def Let_def split: if_splits option.splits prod.splits bind_splits)
  show ?thesis
  proof (cases "\<exists>address ips. candidate_ips ac = Some address # ips")
    case True
    then obtain address ips where "candidate_ips ac = Some address # ips" by blast
    from build_answer_lines [OF _ assms(3) this] assms(2) b r show ?thesis by (auto simp: offer_ok_def Let_def split: if_splits)
  next
    case False
    then show ?thesis using b by (auto simp: sdp_build_answer_def split: list.splits option.splits)
  qed
qed

text \<open>
  An offer that is answered with 200 has created exactly one session: it sits in the first free
  slot, every other session is as before, and the reply is a JSON object from which the client
  reads back the answer of that session, complete, and its id.
\<close>

theorem offer_answered:
  assumes "handle_offer env env' body server = Some ((200, reply), s')"
  shows "\<exists>i off w answer. i < 8 \<and> sv_sessions server ! i = None \<and> (\<forall>j < i. sv_sessions server ! j \<noteq> None) \<and>
     rtc_session_create ((oe_create env)\<lparr>ce_globals := sv_globals server\<rparr>) (session_config env off i server) 8192 [] (sv_gstats server) =
       Some (0, Some w, answer) \<and>
     s' = seat_session_at i w server \<and> sv_sessions s' = (sv_sessions server)[i := Some (seat_of w)] \<and>
     json_get_string (reply @ [NUL]) ''sdp'' 8192 = Some (Some (map kept_char (c_str answer))) \<and>
     json_get_long (reply @ [NUL]) ''session_id'' = Some (Some (uint (next_session_id (oe_rand env) server)))"
proof -
  have no: "reply_error c m x \<noteq> ((200, reply), s')" if "c \<noteq> 200" for c m x using reply_error_effect [of c m x] that by auto
  obtain b s where b: "body_array 16384 (oe_stack env) body = Some b" "json_get_string b ''sdp'' 8192 = Some (Some s)"
    using assms no by (auto simp: handle_offer_def split: option.splits Option.bind_splits)
  obtain rc off reason where p: "sdp_parse_offer (Some (c_str s)) (Some empty_offer) (Some 192) = Some (rc, Some off, reason)" "offer_ok off"
    using sdp_parse_offer_total [of "c_str s" empty_offer 192] by blast
  obtain i where i: "find (\<lambda>i. sv_sessions server ! i = None) [0..<MAX_RTC_SESSIONS] = Some i" and rc: "rc = 0" "sv_dtls_ready server"
    using assms b p(1) no by (auto simp: handle_offer_def split: option.splits if_splits Option.bind_splits)
  let ?cfg = "session_config env off i server" and ?ce = "(oe_create env)\<lparr>ce_globals := sv_globals server\<rparr>"
  obtain rc' w answer where c: "rtc_session_create ?ce ?cfg 8192 [] (sv_gstats server) = Some (rc', Some w, answer)"
    and r: "(if json_finish (answer_payload (rtc_session_id (Some (user w))) (rc_udp_port ?cfg) (c_str answer)) \<noteq> 0
       then Option.bind (destroy_session env' i (seat_session_at i w server)) (\<lambda>x. Some (reply_error 500 ''answer payload overflow''
                            (x\<lparr>sv_sessions_total := sv_sessions_total x - 1\<rparr>)))
       else Some (reply_json 200 (jw_buffer (answer_payload (rtc_session_id (Some (user w))) (rc_udp_port ?cfg) (c_str answer))) (seat_session_at i w server))) =
      Some ((200, reply), s')"
    using assms b p(1) i rc no by (auto simp: handle_offer_def Let_def split: option.splits Option.bind_splits)
  have "rc_offer ?cfg = off" by (simp add: session_config_def Let_def)
  with rtc_session_create_answer [OF c] p(2) have a: "rc' = 0" "length answer < 8192" "config (user w) = ?cfg" by simp_all
  have sid: "rtc_session_id (Some (user w)) = next_session_id (oe_rand env) server" by (simp add: rtc_session_id_def a(3) session_config_def Let_def)
  have ok: "json_finish (answer_payload (rtc_session_id (Some (user w))) (rc_udp_port ?cfg) (c_str answer)) = 0"
    using r no by (auto split: if_splits Option.bind_splits)
  then have reply: "reply = answer_text (rtc_session_id (Some (user w))) (rc_udp_port ?cfg) (c_str answer)" "s' = seat_session_at i w server"
    using r answer_payload_text [OF ok] by (simp_all add: reply_json_def)
  have "length (c_str answer) < 8192" using a(2) length_takeWhile_le [of "\<lambda>c. c \<noteq> NUL" answer] by (simp add: c_str_def)
  then have "json_get_string (reply @ [NUL]) ''sdp'' 8192 = Some (Some (map kept_char (c_str answer)))"
    using answer_text_sdp [OF c_str_no_nul, of 8192] reply(1) by simp
  moreover have "i < 8" "sv_sessions server ! i = None" "\<forall>j < i. sv_sessions server ! j \<noteq> None"
    using i by (auto simp: find_Some_iff MAX_RTC_SESSIONS_def)
  ultimately show ?thesis using c a(1) reply answer_text_session_id sid
    by (intro exI [of _ i] exI [of _ off] exI [of _ w] exI [of _ answer]) (simp add: seat_session_at_def seat_of_def)
qed

end
