(* ===== verification/App_Server_Witness.thy ===== *)
theory App_Server_Witness
  imports App_Signalling
begin

text \<open>
  Concrete servers on which the properties of the application server are applied: one whose camera
  is missing, one that runs, one with a viewer that streams, and the requests they get.
\<close>

section \<open>A server\<close>

definition demo_init :: init_env where
  "demo_init = \<lparr>ec_gen_ok = True, x509_new_ok = True, x509_sign_ok = True, x509_digest = Some demo_md, srtp_init_ok = True,
     ctx_new_ok = True, check_key_ok = True, use_srtp_ok = True\<rparr>"

definition no_globals :: DtlsGlobals where
  "no_globals = \<lparr>g_ctx = False, g_cert = False, g_key = False, g_fingerprint = [], g_srtp_initialized = False\<rparr>"

definition demo_pipe :: pipe_env where
  "demo_pipe = \<lparr>pe_source = Some \<lparr>si_name = ''test'', si_width = 640, si_height = 480, si_fps = 30, si_frame_size = 460800\<rparr>,
     pe_hub_ok = True, pe_ring_junk = (\<lambda>_. 0), pe_ring_ok = True, pe_ring_efd = True, pe_encoder = Some (False, ''libx264''),
     pe_encoder_worker = True, pe_encoder_started = True, pe_source_worker = True, pe_source_started = True\<rparr>"

definition demo_conf :: AppConfig where
  "demo_conf = app_config_defaults\<lparr>config_path := ''cam.conf''\<rparr>"

lemma demo_init_ok: "init_ok demo_init"
  by (simp add: init_ok_def demo_init_def demo_md_def)

text \<open>A server whose camera is missing, and one that runs.\<close>

definition demo_boot :: "pipe_env \<Rightarrow> bytes Server" where
  "demo_boot env = the (server_start demo_init env demo_conf no_globals zero_stats 1000 1000)"

lemma demo_boot_started: "server_start demo_init env demo_conf no_globals zero_stats 1000 1000 = Some (demo_boot env)"
proof -
  obtain s :: "bytes Server" where "server_start demo_init env demo_conf no_globals zero_stats 1000 1000 = Some s"
    using server_start_total [OF demo_init_ok] by blast
  then show ?thesis by (simp add: demo_boot_def)
qed

lemma demo_boot_reach: "server_reach (demo_boot env)"
  by (rule server_reach.start [OF demo_init_ok _ demo_boot_started]) simp

lemma demo_boot_fields:
  "sv_sessions (demo_boot env) = replicate 8 None" "sv_config (demo_boot env) = demo_conf"
  "sv_running (demo_boot env) = pipe_works env" "sv_dtls_ready (demo_boot env)" "sv_globals (demo_boot env) =
     \<lparr>g_ctx = True, g_cert = True, g_key = True, g_fingerprint = fingerprint_text demo_md, g_srtp_initialized = True\<rparr>"
  "sv_gstats (demo_boot env) = zero_stats"
proof -
  have f: "format_fingerprint demo_md = Some (fingerprint_text demo_md)" by (rule format_fingerprint_text) (simp add: demo_md_def)
  define g where "g = \<lparr>g_ctx = True, g_cert = True, g_key = True, g_fingerprint = fingerprint_text demo_md, g_srtp_initialized = True\<rparr>"
  have i: "dtls_srtp_global_init demo_init no_globals = Some (0, g)"
    by (simp add: dtls_srtp_global_init_def demo_init_def no_globals_def generate_certificate_def f g_def)
  define b :: "bytes Server" where "b = (blank_server demo_conf g zero_stats 1000)\<lparr>sv_dtls_ready := True\<rparr>"
  obtain rc error s where p: "media_pipeline_start env b = (rc, error, s)" by (metis prod_cases3)
  have "server_inv b" using blank_server_ok by (simp add: b_def)
  from media_pipeline_start_ok(2) [OF this p] have run: "sv_running s = pipe_works env"
    using media_pipeline_start_works [of env b] p by simp
  have keep: "sv_config s = demo_conf \<and> sv_dtls_ready s \<and> sv_globals s = g \<and> sv_gstats s = zero_stats \<and> sv_sessions s = replicate 8 None"
    using p by (auto simp: media_pipeline_start_def media_pipeline_stop_def Let_def b_def blank_server_def MAX_RTC_SESSIONS_def
        split: option.splits if_splits prod.splits)
  have "demo_boot env = (if rc \<noteq> 0 then pipeline_schedule_retry 1000 (s\<lparr>sv_pipeline_error := fit 256 error, sv_failures := 1\<rparr>) else s)"
    using p by (simp add: demo_boot_def server_start_def i b_def [symmetric])
  then show "sv_sessions (demo_boot env) = replicate 8 None" "sv_config (demo_boot env) = demo_conf"
    "sv_running (demo_boot env) = pipe_works env" "sv_dtls_ready (demo_boot env)" "sv_gstats (demo_boot env) = zero_stats" 
    "sv_globals (demo_boot env) = \<lparr>g_ctx = True, g_cert = True, g_key = True, g_fingerprint = fingerprint_text demo_md, g_srtp_initialized = True\<rparr>"
    using run keep by (simp_all add: schedule_retry_backoff g_def)
qed

lemma demo_pipe_works: "pipe_works demo_pipe" "\<not> pipe_works (demo_pipe\<lparr>pe_source := None\<rparr>)"
  by (simp_all add: pipe_works_def demo_pipe_def)

text \<open>The camera is plugged in six seconds after a start without it.\<close>

lemma demo_down_retry: "sv_retry_ms (demo_boot (demo_pipe\<lparr>pe_source := None\<rparr>)) = 6000"
proof -
  have f: "format_fingerprint demo_md = Some (fingerprint_text demo_md)" by (rule format_fingerprint_text) (simp add: demo_md_def)
  show ?thesis
    by (simp add: demo_boot_def server_start_def dtls_srtp_global_init_def demo_init_def no_globals_def generate_certificate_def f Let_def
        demo_pipe_def media_pipeline_start_def schedule_retry_backoff backoff_def)
qed

theorem pipeline_recovers_witness:
  "sv_running (media_supervise False False demo_pipe 6000 (demo_boot (demo_pipe\<lparr>pe_source := None\<rparr>)))"
  using pipeline_recovers [OF demo_boot_reach, of "demo_pipe\<lparr>pe_source := None\<rparr>" False False demo_pipe 6000]
  by (simp add: demo_boot_fields demo_pipe_works demo_down_retry)

theorem server_poll_set_witness:
  "\<exists>t fds. poll_set (\<lambda>_. demo_rtc_env) [] 7 8 (demo_boot demo_pipe) = Some (t, fds) \<and> length fds \<le> MAX_POLL_FDS"
  using server_poll_set_bounded [OF demo_boot_reach, of "\<lambda>_. demo_rtc_env" "[]" 7 8 demo_pipe] by blast

text \<open>A turn with a request and an access unit.\<close>

definition demo_offer_env :: offer_env where
  "demo_offer_env = \<lparr>oe_stack = replicate 16384 NUL, oe_ifaddrs = None, oe_host = None, oe_peer = Addr4 0x0A000005 40000,
     oe_rand = (\<lambda>_. Some 7), oe_create = demo_create\<rparr>"





section \<open>A viewer and a key frame\<close>

definition keyframe_ring :: AuRing where
  "keyframe_ring = the (the (push_units [([0, 0, 1, 0x65], 5, True)] (au_ring_create (\<lambda>_. 0) True True AU_SLOT_CAPACITY AU_RING_SLOTS)))"

lemma keyframe_ring_ok: "ring_ok (Some keyframe_ring)"
proof -
  let ?q = "au_ring_create (\<lambda>_. 0) True True AU_SLOT_CAPACITY AU_RING_SLOTS"
  have "?q \<noteq> None" by (simp add: au_ring_create_def AU_SLOT_CAPACITY_def AU_RING_SLOTS_def)
  then obtain r where "push_units [([0, 0, 1, 0x65], 5, True)] ?q = Some (Some r)" "ring_ok (Some r)"
    using push_units_ok [OF ring_ok_create, of "[([0, 0, 1, 0x65], 5, True)]" "\<lambda>_. 0" True True] by auto
  then show ?thesis by (simp add: keyframe_ring_def)
qed

definition demo_live :: "bytes Server" where
  "demo_live = (demo_boot demo_pipe)\<lparr>sv_ring := Some keyframe_ring, sv_sessions := (replicate 8 None)[2 := Some (seat_of demo_streaming)]\<rparr>"

lemma demo_live_inv: "server_inv demo_live"
proof -
  have b: "server_inv (demo_boot demo_pipe)" "sv_running (demo_boot demo_pipe)"
    using server_reach_inv [OF demo_boot_reach] by (simp_all add: demo_boot_fields demo_pipe_works)
  have "seat_ok (Some (seat_of demo_streaming))" using seat_ok_iff [OF demo_inv(2)] by (simp add: seat_of_def)
  then have "list_all seat_ok ((replicate 8 None)[2 := Some (seat_of demo_streaming)])"
    by (intro list_all_update) (simp_all add: list_all_length seat_ok_def)
  then show ?thesis using b keyframe_ring_ok by (simp add: demo_live_def server_inv_def pipeline_ok_def)
qed

theorem fan_out_witness:
  "\<exists>s' r'. fan_out_access_units (\<lambda>_ _. demo_rtc_env) (replicate AU_SLOT_CAPACITY 0) demo_live = Some s' \<and> sv_ring s' = Some r' \<and> queue r' = [] \<and>
     sv_sessions s' ! 2 = map_option seat_of (feed (\<lambda>_. demo_rtc_env) (queue keyframe_ring) (world_of demo_live (seat_of demo_streaming)))"
proof -
  have "sv_ring demo_live = Some keyframe_ring" "sv_sessions demo_live ! 2 = Some (seat_of demo_streaming)" by (simp_all add: demo_live_def)
  then show ?thesis using fan_out_each_viewer [OF demo_live_inv, of keyframe_ring "replicate AU_SLOT_CAPACITY 0" "\<lambda>_ _. demo_rtc_env"] demo_rtc_env_ok
    by fastforce
qed

section \<open>A reload\<close>

lemma demo_load:
  "app_config_load_file demo_fs (app_config_defaults\<lparr>config_path := ''cam.conf''\<rparr>) (Some ''cam.conf'') =
     (None, app_config_defaults\<lparr>config_path := ''cam.conf'', fps := 60, http_port := 9000\<rparr>)"
  by (simp add: app_config_load_file_def demo_fs_def copy_string_def load_loop_reference
      demo_good apply_config_line_def app_config_set_key_def demo_numbers)

lemma demo_validates: "app_config_validate (app_config_defaults\<lparr>config_path := ''cam.conf'', fps := 60, http_port := 9000\<rparr>) = None"
  by code_simp

theorem config_reload_witness:
  "fst (handle_config_reload demo_fs (demo_boot demo_pipe)) = (200, ''{'' @ jstr ''file'' @ '':'' @ json_text ''cam.conf'' @ '','' @ jstr ''applied'' @
     '':[],'' @ jstr ''restart_required'' @ '':['' @ jstr ''fps'' @ '','' @ jstr ''http_port'' @ '']}'')"
proof -
  have l: "live_changes (demo_conf\<lparr>fps := 60, http_port := 9000\<rparr>) (demo_boot demo_pipe) = []"
    "held_changes (demo_conf\<lparr>fps := 60, http_port := 9000\<rparr>) (demo_boot demo_pipe) = [''fps'', ''http_port'']"
    by (simp_all add: live_changes_def held_changes_def bitrate_live_def demo_boot_fields config_checks_def demo_conf_def)
      (simp_all add: app_config_defaults_def)
  show ?thesis using config_reload_effect [of "demo_boot demo_pipe" "''cam.conf''" demo_fs None "demo_conf\<lparr>fps := 60, http_port := 9000\<rparr>"]
      demo_load demo_validates l by (simp add: demo_boot_fields demo_conf_def joined_def)
qed

section \<open>An offer\<close>

definition demo_sdp :: string where "demo_sdp = text_lines demo_lines"

definition demo_body :: string where
  "demo_body = ([CHR ''{'', quote] @ ''sdp'' @ [quote, CHR '':'']) @ json_text demo_sdp @ ''}''"

lemma demo_sdp_chars: "NUL \<notin> set demo_sdp" "map kept_char demo_sdp = demo_sdp" "length demo_sdp < 200"
  by code_simp+

lemma demo_offer_context:
  "map_option (\<lambda>c. (too_many_mlines c, have_ufrag c, have_pwd c, have_fingerprint c, video_mline (offer c), mline_count (offer c),
       video_mid (offer c), h264_count (offer c), take 1 (h264 (offer c)), setup_role (offer c), fingerprint (offer c)))
     (run_lines demo_lines parse_visit (-1) empty_context) =
   Some (False, True, True, True, 0, 1, [], 1, [\<lparr>payload_type = 96, packetization_mode = 1, profile_level_id = []\<rparr>], [], ''f'')"
  unfolding demo_lines_def by code_simp

lemma demo_offer_parsed:
  "\<exists>off. sdp_parse_offer (Some demo_sdp) (Some empty_offer) (Some 192) = Some (0, Some off, None) \<and> video_mline off = 0 \<and> mline_count off = 1 \<and>
     video_mid off = [] \<and> h264_payload_type off = 96 \<and> h264_profile_level_id off = [] \<and> offer_ok off"
proof -
  obtain c where c: "run_lines demo_lines parse_visit (-1) empty_context = Some c"
    "\<not> too_many_mlines c" "have_ufrag c" "have_pwd c" "have_fingerprint c" "video_mline (offer c) = 0" "mline_count (offer c) = 1"
    "video_mid (offer c) = []" "h264_count (offer c) = 1"
    "take 1 (h264 (offer c)) = [\<lparr>payload_type = 96, packetization_mode = 1, profile_level_id = []\<rparr>]" "setup_role (offer c) = []"
    using demo_offer_context by (auto simp del: take_Suc_conv_app_nth)
  let ?off = "snd (check_offer c)"
  have chk: "fst (check_offer c) = None" "video_mline ?off = 0" "mline_count ?off = 1" "video_mid ?off = []" "h264_payload_type ?off = 96"
    "h264_profile_level_id ?off = []"
    using c by (simp_all add: check_offer_def choose_h264_def h264_rank_def Let_def fit_def)
  have run: "sdp_parse_offer (Some demo_sdp) (Some empty_offer) (Some 192) = Some (0, Some ?off, None)"
    using c(1) chk(1) by (simp add: sdp_parse_offer_def parse_text_def for_each_line_run demo_sdp_lines split_beta demo_sdp_def)
  moreover have "offer_ok ?off" using sdp_parse_offer_total [of demo_sdp empty_offer 192] run by auto
  ultimately show ?thesis using chk by blast
qed

lemma demo_session_config:
  "rc_id (session_config demo_offer_env off 0 (demo_boot demo_pipe)) = 7"
  "rc_candidate_ips (session_config demo_offer_env off 0 (demo_boot demo_pipe)) = [''127.0.0.1'']"
  "rc_candidate_count (session_config demo_offer_env off 0 (demo_boot demo_pipe)) = 1"
  "rc_offer (session_config demo_offer_env off 0 (demo_boot demo_pipe)) = off"
proof -
  have "live_ids (demo_boot demo_pipe) = []" by (simp add: live_ids_def demo_boot_fields)
  moreover have "[0..<16] = 0 # [1..<16 :: nat]" by (simp add: upt_conv_Cons)
  ultimately have "next_session_id (\<lambda>_. Some 7) (demo_boot demo_pipe) = 7" by (simp add: next_session_id_def)
  then show "rc_id (session_config demo_offer_env off 0 (demo_boot demo_pipe)) = 7"
    by (simp add: session_config_def Let_def demo_offer_env_def)
  show "rc_candidate_ips (session_config demo_offer_env off 0 (demo_boot demo_pipe)) = [''127.0.0.1'']"
    "rc_candidate_count (session_config demo_offer_env off 0 (demo_boot demo_pipe)) = 1"
    "rc_offer (session_config demo_offer_env off 0 (demo_boot demo_pipe)) = off"
    by (simp_all add: session_config_def Let_def demo_offer_env_def collect_interfaces_def choose_advertise_ip_def fit_def)
qed

lemma demo_answer_length:
  assumes "video_mline off = 0" "mline_count off = 1" "video_mid off = []" "h264_payload_type off = 96" "h264_profile_level_id off = []"
    "cfg_fingerprint ac = fingerprint_text demo_md" "cfg_ice_ufrag ac = replicate 8 (CHR ''a'')" "cfg_ice_pwd ac = replicate 24 (CHR ''a'')"
    "candidate_ips ac = [Some ''127.0.0.1'']" "cfg_ssrc ac = 7" "udp_port ac = 5000"
  shows "length (text_lines (answer_lines off ac ''127.0.0.1'')) \<le> 2000" "0 < length (text_lines (answer_lines off ac ''127.0.0.1''))"
proof -
  have fp: "length (fingerprint_text demo_md) = 103" by code_simp
  show "length (text_lines (answer_lines off ac ''127.0.0.1'')) \<le> 2000"
    by (simp add: answer_lines_def session_lines_def sections_def section_lines_def video_lines_def assms fp text_lines_def or_default_def
       show_int_def show_nat.simps candidate_line_def Let_def crlf_def)
  show "0 < length (text_lines (answer_lines off ac ''127.0.0.1''))" by (simp add: answer_lines_def session_lines_def text_lines_def)
qed

lemma demo_offer_session:
  assumes "video_mline off = 0" "mline_count off = 1" "video_mid off = []" "h264_payload_type off = 96" "h264_profile_level_id off = []"
    "offer_ok off"
  shows "\<exists>w a. rtc_session_create ((oe_create demo_offer_env)\<lparr>ce_globals := sv_globals (demo_boot demo_pipe)\<rparr>)
       (session_config demo_offer_env off 0 (demo_boot demo_pipe)) 8192 [] (sv_gstats (demo_boot demo_pipe)) = Some (0, Some w, a) \<and>
     length a \<le> 2000"
proof -
  let ?cfg = "session_config demo_offer_env off 0 (demo_boot demo_pipe)"
  let ?ac = "answer_config ?cfg (fingerprint_text demo_md) (replicate 8 (CHR ''a'')) (replicate 24 (CHR ''a'')) 5000 7"
  let ?T = "text_lines (answer_lines off ?ac ''127.0.0.1'')"
  have ips: "candidate_ips ?ac = Some ''127.0.0.1'' # []"
    by (simp add: answer_config_def demo_session_config SDP_MAX_CANDIDATES_def)
  have f: "cfg_fingerprint ?ac = fingerprint_text demo_md" "cfg_ice_ufrag ?ac = replicate 8 (CHR ''a'')" "cfg_ice_pwd ?ac = replicate 24 (CHR ''a'')"
    "cfg_ssrc ?ac = 7" "udp_port ?ac = 5000" by (simp_all add: answer_config_def)
  note len = demo_answer_length [OF assms(1-5) f(1-3) ips f(4,5)]
  have pk: "pick 0 = CHR ''a''" by (simp add: pick_def alphabet_def)
  have cred: "generate_credentials (Some (replicate 32 0)) 16 44 = Some ((replicate 8 (CHR ''a'')), replicate 24 (CHR ''a''))"
    by (simp add: generate_credentials_def pk)
  have "sdp_build_answer (Some off) (Some ?ac) (Some []) 8192 = Some (length ?T, Some ?T)"
    using build_answer_lines [OF _ _ ips, of off 8192 "[]"] assms(6) len by (simp add: offer_ok_def Let_def)
  then show ?thesis using len
    by (simp add: rtc_session_create_def demo_offer_env_def demo_create_def cred dtls_srtp_session_create_def dtls_srtp_local_fingerprint_def
        dtls_srtp_set_expected_fingerprint_def rtp_h264_create_def rtp_h264_reset_def Let_def demo_boot_fields demo_session_config(4) [unfolded demo_offer_env_def demo_create_def])
qed

lemma show_nat_digit_count: "n < 10 ^ Suc k \<Longrightarrow> length (show_nat n) \<le> Suc k"
proof (induction k arbitrary: n)
  case (Suc k)
  have "n div 10 < 10 ^ Suc k" using Suc.prems by (simp add: div_less_iff_less_mult mult.commute)
  from Suc.IH [OF this] show ?case by (subst show_nat.simps) simp
qed (subst show_nat.simps, simp)

lemma answer_payload_fits:
  assumes "length answer \<le> 2000"
  shows "json_finish (answer_payload 7 port answer) = 0"
proof -
  have "unat port < 2 ^ LENGTH(16)" by (rule unsigned_less)
  then have "length (show_nat (unat port)) \<le> 5" using show_nat_digit_count [of "unat port" 4] by simp
  then have "length (answer_text 7 port answer) < 12288" using assms json_text_length [of answer]
    by (simp add: answer_text_def jstr_def show_nat.simps [of 7])
  then show ?thesis using written_finish [OF answer_payload_written(1), of 7 port answer] answer_payload_written(2) by simp
qed

lemma demo_offer_accepted:
  "\<exists>reply s'. handle_offer demo_offer_env demo_rtc_env demo_body (demo_boot demo_pipe) = Some ((200, reply), s')"
proof -
  let ?s = "demo_boot demo_pipe"
  have "length demo_body < 16384" using json_text_length [of demo_sdp] demo_sdp_chars(3) by (simp add: demo_body_def)
  then have b: "body_array 16384 (oe_stack demo_offer_env) demo_body = Some (demo_body @ NUL # drop (length demo_body + 1) (take 16384 (oe_stack demo_offer_env)))"
    by (simp add: body_array_def) (simp add: demo_body_def)
  have "NUL \<notin> set ''sdp''" by (simp add: NUL_def)
  from json_field_read [OF _ demo_sdp_chars(1) this, of 8192] have g: "json_get_string (demo_body @ NUL # rest) ''sdp'' 8192 = Some (Some demo_sdp)" for rest
    using demo_sdp_chars(2,3) by (simp add: demo_body_def)
  have cs: "c_str demo_sdp = demo_sdp" using demo_sdp_chars(1) by (auto simp: c_str_def takeWhile_eq_all_conv)
  obtain off where off: "sdp_parse_offer (Some demo_sdp) (Some empty_offer) (Some 192) = Some (0, Some off, None)" "video_mline off = 0" "mline_count off = 1"
     "video_mid off = []" "h264_payload_type off = 96" "h264_profile_level_id off = []" "offer_ok off" using demo_offer_parsed by blast
  obtain w a where w: "rtc_session_create ((oe_create demo_offer_env)\<lparr>ce_globals := sv_globals ?s\<rparr>) (session_config demo_offer_env off 0 ?s) 8192 []
       (sv_gstats ?s) = Some (0, Some (w :: bytes rtc_world), a)" "length a \<le> 2000" using demo_offer_session [OF off(2-7)] by blast
  have i: "find (\<lambda>i. sv_sessions ?s ! i = None) [0..<MAX_RTC_SESSIONS] = Some 0"
    by (simp add: demo_boot_fields MAX_RTC_SESSIONS_def upt_conv_Cons)
  have "length (c_str a) \<le> 2000" using w(2) length_takeWhile_le [of "\<lambda>c. c \<noteq> NUL" a] by (simp add: c_str_def)
  then have "json_finish (answer_payload 7 p (c_str a)) = 0" for p using answer_payload_fits by simp
  moreover have "rtc_session_id (Some (user w)) = 7"
    using rtc_session_create_answer [OF w(1)] off(7) demo_session_config by (simp add: rtc_session_id_def)
  ultimately show ?thesis using b g cs off(1) w(1) i
    by (simp add: handle_offer_def demo_boot_fields(4) Let_def reply_json_def)
qed

theorem offer_answered_witness:
  "\<exists>reply s'. handle_offer demo_offer_env demo_rtc_env demo_body (demo_boot demo_pipe) = Some ((200, reply), s') \<and>
     json_get_long (reply @ [NUL]) ''session_id'' = Some (Some 7) \<and> sv_sessions s' ! 0 \<noteq> None"
proof -
  obtain reply s' where h: "handle_offer demo_offer_env demo_rtc_env demo_body (demo_boot demo_pipe) = Some ((200, reply), s')"
    using demo_offer_accepted by blast
  have n: "next_session_id (oe_rand demo_offer_env) (demo_boot demo_pipe) = 7"
    using demo_session_config(1) by (simp add: session_config_def Let_def)
  obtain i and w :: "bytes rtc_world" where i: "\<forall>j < i. sv_sessions (demo_boot demo_pipe) ! j \<noteq> None"
    "sv_sessions s' = (sv_sessions (demo_boot demo_pipe))[i := Some (seat_of w)]"
    "json_get_long (reply @ [NUL]) ''session_id'' = Some (Some (uint (next_session_id (oe_rand demo_offer_env) (demo_boot demo_pipe))))"
    using offer_answered [OF h] by blast
  have "i = 0" using i(1) by (cases i) (auto simp: demo_boot_fields)
  then show ?thesis using h i(2,3) n by (simp add: demo_boot_fields)
qed

end
