(* ===== verification/Spec2Isabelle.thy ===== *)
theory Spec2Isabelle
  imports Frame_Hub_Threads Yuv_Convert Lp_Sdp Mdns_Props Encoder_Worker App_Server_Witness
begin

text \<open>
  Verification of camstream, a camera server in C: it captures video, encodes H.264 and streams
  it to browsers over its own WebRTC stack (ICE-lite, DTLS-SRTP, RTP and RTCP), with HTTP
  signalling and mDNS discovery on the local network.

  \<^bold>\<open>The program.\<close> The capture thread publishes raw frames into the frame hub
  (\<open>src/src/media/frame_hub.c\<close>, buffers from \<open>frame_pool.c\<close>). The encode worker
  (\<open>encoder_worker.c\<close>) takes the newest frame, converts it (\<open>yuv_convert.c\<close>), calls the encoder,
  inspects and completes the access unit (\<open>h264_bitstream.c\<close>) and pushes it into the access unit
  ring (\<open>au_ring.c\<close>). The server thread pops the ring and hands each access unit to the sessions
  (\<open>src/src/webrtc/webrtc_session.c\<close>), which packetize it (\<open>rtp_h264.c\<close>), protect it and send it;
  the session answers STUN checks (\<open>ice_lite.c\<close>), drives the DTLS engine (\<open>dtls_srtp.c\<close>), and
  reacts to RTCP feedback (\<open>rtcp.c\<close>). Offers and answers are SDP texts (\<open>sdp.c\<close>; for the libpeer
  variant \<open>src/src/lpstream/lp_sdp.c\<close>). \<open>src/src/net/mdns.c\<close> announces the server,
  \<open>src/src/app/app_config.c\<close> reads its configuration, and \<open>src/src/app/app_server.c\<close> ties the parts
  together: the HTTP interface, the table of sessions, the media pipeline and the main loop.

  \<^bold>\<open>Conventions.\<close> The theory \<open>Cam_Prelude\<close> has the machine integers (\<open>w word\<close>, wrapping as in C), the
  checked buffer accesses and the big endian fields of \<open>rtcp.c\<close> and \<open>ice_lite.c\<close>; \<open>C_String\<close> has the
  C library's string functions. An access outside an object is the value \<open>None\<close>, so every theorem
  that an operation returns \<open>Some\<close> is a memory safety theorem. Return codes of the code are values
  inside the \<open>Some\<close>. What the operating system, OpenSSL, libsrtp2, the encoder or another thread
  answers is an argument of the operation, and the theorems hold for all of its values (named
  hypotheses such as \<open>rtc_env_ok\<close> and \<open>env_ok\<close> only fix the sizes that the library interfaces
  document, among them how much SRTP protection may append to a packet). Log output is left out; the counters that limit it are kept.

  \<^bold>\<open>Theories and what they show.\<close>

  \<^item> \<open>Bounded_Queue\<close>: the locale of a drop-oldest queue, interpreted on the access unit ring and on
    the datagram queue of the DTLS engine.
  \<^item> \<open>Au_Ring\<close>: push and pop refine the abstract queue and stay inside the backing store; in every
    interleaving of producer and consumer a non-empty ring is signalled.
  \<^item> \<open>Frame_Pool\<close>, \<open>Frame_Hub\<close>: exact reference counts; publishing reaches every mailbox. These are
    whole operations; \<open>Frame_Hub_Threads\<close> has the threads at the granularity of the locks and of the
    unlocked increment of \<open>frame_ref\<close>: with one consumer the counts stay exact and the publisher finds
    a buffer while the pool is larger than what is referenced, with two consumers a reference can be
    lost.
  \<^item> \<open>Yuv_Convert\<close>: sample by sample correctness of both conversions.
  \<^item> \<open>H264_Bitstream\<close>: the index loops equal the structural split into NAL units.
  \<^item> \<open>Encoder_Worker\<close>: a turn of the thread leaks nothing and counts every frame once; keyframes
    are self-contained; a keyframe request stays pending until it is served.
  \<^item> \<open>Rtp_H264\<close>: the packets of an access unit, their fields and counters; reassembly is the identity.
  \<^item> \<open>Rtcp\<close>: the compound parser against a reference reading; the sender report.
  \<^item> \<open>Ice_Lite\<close>: STUN attribute search, MESSAGE-INTEGRITY, binding and error responses, CRC-32.
  \<^item> \<open>Sdp\<close>, \<open>Lp_Sdp\<close>: offer parser and answer writer; the sanitizer equals its reference reading.
  \<^item> \<open>Dtls_Srtp\<close>: fingerprint round trip, key split of RFC 5764, the receive queue; the locale
    \<open>dtls_client\<close> is the contract between the engine and the callbacks of its user.
  \<^item> \<open>Rtc_Session\<close>, \<open>Rtc_Props\<close>, \<open>Rtc_Witness\<close>: the session and its callbacks, which interpret that
    contract; memory safety of every operation, the reachable states, authentication of the peer,
    media only after the announced certificate, exact retransmission, the wait for a keyframe, the
    timeouts.
  \<^item> \<open>Dns_Codec\<close>, \<open>Mdns\<close>, \<open>Mdns_Props\<close>: names and records with their round trips, the responder and
    its probing machine; safety against every packet, the reachable states, completion of probing
    through the socket or the send hook. A read of an address that was never written, which the scan of
    a shrinking set of interfaces does, ends the run.
  \<^item> \<open>App_Config\<close>: file and command line readers, precedence and validation.
  \<^item> \<open>Http_Json\<close>: the JSON writer and the field extractors, their round trip, and the one body that the
    extractor reads past its end.
  \<^item> \<open>App_Server\<close>, \<open>App_Server_Props\<close>, \<open>App_Server_Loop\<close>, \<open>App_Signalling\<close>, \<open>App_Server_Witness\<close>: the
    server with the sessions, the ring and the configuration as its parts; every turn of the main loop
    is safe, every viewer is served as if alone, the pipeline recovers, the poll set is bounded, what a
    reload changes, and what an answered offer has created.

  \<^bold>\<open>Loops.\<close> Every loop is a total recursion with a measure (the rest of the buffer, the remaining
  count, the hop budget of compressed names); no fuel is used. The recursion of
  \<open>rtc_session_close\<close> through the engine's callback ends because the session is marked closed
  before the engine is called. The main loop runs until a signal; its theorems are about one turn, from
  every state that turns lead to.

  \<^bold>\<open>Inputs that read past their end.\<close> A datagram of one byte in the RTP class and a request body whose
  last character is a backslash are read one byte too far; the theorems of the session and of the JSON
  reader state it, and the safety of a turn of the server excludes them.

  \<^bold>\<open>Not modelled.\<close> The drivers (\<open>v4l2_source.c\<close>, \<open>csi_source.c\<close>, \<open>encoder_v4l2m2m.c\<close>,
  \<open>encoder_x264.c\<close>) are sequences of system calls whose effects are in the kernel or in libx264;
  \<open>main\<close> functions and tools only start the parts. Of \<open>app_server.c\<close> the texts of the status, statistics
  and log pages, the floating point rates in them and the start of the HTTP library are left out; so are
  the capture thread (\<open>source_worker.c\<close>), whose calls of the hub are the publisher of
  \<open>Frame_Hub_Threads\<close>, and the session and server of the libpeer variant.
\<close>

end
